(* ===== verification/Prelude.thy ===== *)
theory Prelude imports
  Complex_Main
  "HOL-Library.Char_ord"
  "HOL-Library.List_Lexorder"
  "HOL-Library.AList"
  "HOL-Library.Code_Target_Nat"
begin

text \<open>
  What every component of the development shares.

  \<^item> Values the source types \<open>unknown\<close> (request bodies, JSON columns) are of type \<open>js\<close>.
    A number that \<open>Number.isInteger\<close> accepts is \<open>JInt\<close>, a finite number with a fraction
    \<open>JFrac\<close>, and NaN or an infinity \<open>JNonFinite\<close>. An object is the list of its own
    properties, keys distinct.
  \<^item> Strings are lists of \<open>char\<close>, one per UTF-16 code unit, so text is restricted to the code
    units below 256; a component whose rule looks at other code units has its own type.
    \<open>trim\<close>, \<open>split_on\<close>, \<open>join\<close> and \<open>to_lower\<close> are the JavaScript methods on these.
  \<^item> \<open>rx\<close>: regular expressions and a derivative matcher; \<open>rx_match\<close> is \<open>RegExp.test\<close>
    of an anchored expression, and \<open>rx_match_lang\<close> relates it to the denoted language.
  \<^item> \<open>jmap\<close>: a JavaScript \<open>Map\<close>, which remembers insertion order, as an association list.
\<close>

named_theorems js_simps
named_theorems jmap_simps

section \<open>Values\<close>

datatype js =
    JUndef
  | JNull
  | JBool bool
  | JInt int
  | JFrac rat
  | JNonFinite
  | JStr string
  | JArr "js list"
  | JObj "(string \<times> js) list"

fun nullish :: "js \<Rightarrow> bool" where
  "nullish JUndef = True"
| "nullish JNull = True"
| "nullish _ = False"

definition jget :: "(string \<times> js) list \<Rightarrow> string \<Rightarrow> js" where
  "jget fs k = (case map_of fs k of None \<Rightarrow> JUndef | Some v \<Rightarrow> v)"

lemma map_filter_mem: "y \<in> set (List.map_filter f xs) \<longleftrightarrow> (\<exists>x \<in> set xs. f x = Some y)"
  by (force simp: map_filter_def)

lemma jget_Nil [simp]: "jget [] k = JUndef"
  by (simp add: jget_def)

lemma jget_Cons [simp]: "jget ((k', v) # fs) k = (if k' = k then v else jget fs k)"
  by (simp add: jget_def)

section \<open>Strings\<close>

definition is_ws :: "char \<Rightarrow> bool" where
  "is_ws c = (let n = of_char c :: nat in n \<in> {9, 10, 11, 12, 13, 32, 160})"

definition trim_start :: "string \<Rightarrow> string" where
  "trim_start s = dropWhile is_ws s"

definition trim :: "string \<Rightarrow> string" where
  "trim s = rev (dropWhile is_ws (rev (dropWhile is_ws s)))"

definition is_digit :: "char \<Rightarrow> bool" where
  "is_digit c = (let n = of_char c :: nat in 48 \<le> n \<and> n \<le> 57)"

definition digit_val :: "char \<Rightarrow> int" where
  "digit_val c = of_char c - 48"

definition digit_char :: "int \<Rightarrow> char" where
  "digit_char d = char_of (nat (d + 48))"

text \<open>\<open>toLowerCase\<close> below 256: the letters A to Z and the Latin-1 capitals.\<close>

definition lower_char :: "char \<Rightarrow> char" where
  "lower_char c = (let n = of_char c :: nat in
     if (65 \<le> n \<and> n \<le> 90) \<or> (192 \<le> n \<and> n \<le> 222 \<and> n \<noteq> 215) then char_of (n + 32) else c)"

definition to_lower :: "string \<Rightarrow> string" where
  "to_lower = map lower_char"

fun split_on :: "char \<Rightarrow> string \<Rightarrow> string list" where
  "split_on c [] = [[]]"
| "split_on c (x # xs) =
     (if x = c then [] # split_on c xs
      else case split_on c xs of [] \<Rightarrow> [[x]] | p # ps \<Rightarrow> (x # p) # ps)"

fun join :: "string \<Rightarrow> string list \<Rightarrow> string" where
  "join sep [] = []"
| "join sep [p] = p"
| "join sep (p # ps) = p @ sep @ join sep ps"

fun starts_with :: "string \<Rightarrow> string \<Rightarrow> bool" where
  "starts_with [] s = True"
| "starts_with (p # ps) [] = False"
| "starts_with (p # ps) (c # cs) = (p = c \<and> starts_with ps cs)"

fun contains :: "string \<Rightarrow> string \<Rightarrow> bool" where
  "contains p [] = (p = [])"
| "contains p (c # cs) = (starts_with p (c # cs) \<or> contains p cs)"

lemma split_on_nonempty [simp]: "split_on c s \<noteq> []"
  by (induction s) (auto split: list.splits)

lemma join_Cons: "ps \<noteq> [] \<Longrightarrow> join sep (p # ps) = p @ sep @ join sep ps"
  by (cases ps) auto

lemma join_split_on [simp]: "join [c] (split_on c s) = s"
proof (induction s)
  case Nil
  then show ?case by simp
next
  case (Cons x xs)
  obtain p ps where e: "split_on c xs = p # ps"
    using split_on_nonempty by (metis list.exhaust)
  show ?case using Cons e by (cases ps) auto
qed

lemma split_on_no_sep: "p \<in> set (split_on c s) \<Longrightarrow> c \<notin> set p"
  by (induction s arbitrary: p) (auto split: list.splits if_splits)

lemma split_on_single: "c \<notin> set s \<Longrightarrow> split_on c s = [s]"
  by (induction s) auto

lemma split_on_append: "c \<notin> set p \<Longrightarrow> split_on c (p @ c # s) = p # split_on c s"
  by (induction p) auto

lemma dropWhile_hd: "dropWhile P xs = y # ys \<Longrightarrow> \<not> P y"
  by (induction xs) (auto split: if_splits)

lemma trim_idem [simp]: "trim (trim s) = trim s"
proof -
  define a where "a = dropWhile is_ws s"
  define b where "b = dropWhile is_ws (rev a)"
  have hb: "b = [] \<or> \<not> is_ws (hd b)" unfolding b_def by (metis hd_dropWhile)
  have "dropWhile is_ws (rev b) = rev b"
  proof (cases "rev b")
    case Nil then show ?thesis by simp
  next
    case (Cons y ys)
    obtain u where u: "rev a = u @ b" unfolding b_def by (metis takeWhile_dropWhile_id)
    have ab: "a = rev b @ rev u" using u by (metis rev_append rev_rev_ident)
    have "a \<noteq> []" using ab Cons by simp
    then have "\<not> is_ws (hd a)" unfolding a_def by (metis hd_dropWhile)
    then show ?thesis using ab Cons by simp
  qed
  moreover have "dropWhile is_ws b = b" using hb by (cases b) auto
  ultimately show ?thesis unfolding trim_def a_def [symmetric] b_def [symmetric] by simp
qed

lemma trim_Nil [simp]: "trim [] = []"
  by (simp add: trim_def)

lemma set_trim: "set (trim s) \<subseteq> set s"
  unfolding trim_def by (auto dest!: set_dropWhileD)

lemma length_trim: "length (trim s) \<le> length s"
  unfolding trim_def by (metis (no_types, lifting) length_dropWhile_le length_rev order_trans)

section \<open>Decimal numbers\<close>

fun nat_digits :: "nat \<Rightarrow> string" where
  "nat_digits n = (if n < 10 then [digit_char (int n)] else nat_digits (n div 10) @ [digit_char (int (n mod 10))])"

declare nat_digits.simps [simp del]

text \<open>\<open>String(n)\<close> of an integer and \<open>padStart(w, "0")\<close>.\<close>

definition str_of_int :: "int \<Rightarrow> string" where
  "str_of_int n = (if n < 0 then CHR ''-'' # nat_digits (nat (- n)) else nat_digits (nat n))"

definition pad_start :: "nat \<Rightarrow> string \<Rightarrow> string" where
  "pad_start w s = replicate (w - length s) CHR ''0'' @ s"

text \<open>\<open>Number\<close> of a string of decimal digits.\<close>

fun num_acc :: "int \<Rightarrow> string \<Rightarrow> int" where
  "num_acc a [] = a"
| "num_acc a (c # cs) = num_acc (10 * a + digit_val c) cs"

definition num_of :: "string \<Rightarrow> int" where
  "num_of s = num_acc 0 s"

lemma of_char_digit_char: "0 \<le> d \<Longrightarrow> d < 10 \<Longrightarrow> (of_char (digit_char d) :: nat) = nat (d + 48)"
  by (simp add: digit_char_def)

lemma digit_val_char [simp]: "0 \<le> d \<Longrightarrow> d < 10 \<Longrightarrow> digit_val (digit_char d) = d"
proof -
  assume d: "0 \<le> d" "d < 10"
  have "(of_char (digit_char d) :: int) = int (of_char (digit_char d) :: nat)"
    by (rule of_nat_of_char [symmetric])
  also have "\<dots> = d + 48" using of_char_digit_char [OF d] d by simp
  finally show ?thesis by (simp add: digit_val_def)
qed

lemma is_digit_char [simp]: "0 \<le> d \<Longrightarrow> d < 10 \<Longrightarrow> is_digit (digit_char d)"
  by (simp add: is_digit_def of_char_digit_char Let_def nat_le_iff)

lemma digit_val_range: "is_digit c \<Longrightarrow> 0 \<le> digit_val c \<and> digit_val c < 10"
proof -
  assume a: "is_digit c"
  have "(of_char c :: int) = int (of_char c :: nat)" by (rule of_nat_of_char [symmetric])
  then show ?thesis using a by (simp add: is_digit_def digit_val_def Let_def)
qed

lemma digit_char_val [simp]: "is_digit c \<Longrightarrow> digit_char (digit_val c) = c"
proof -
  assume "is_digit c"
  have "(of_char c :: int) = int (of_char c :: nat)" by (rule of_nat_of_char [symmetric])
  then have "nat (digit_val c + 48) = (of_char c :: nat)" by (simp add: digit_val_def)
  then show ?thesis by (simp add: digit_char_def)
qed

lemma num_acc_append: "num_acc a (xs @ ys) = num_acc (num_acc a xs) ys"
  by (induction xs arbitrary: a) auto

lemma num_acc_zeros [simp]: "num_acc 0 (replicate k CHR ''0'' @ s) = num_acc 0 s"
  by (induction k) (auto simp: digit_val_def)

lemma num_of_nat_digits [simp]: "num_of (nat_digits n) = int n"
proof (induction n rule: nat_digits.induct)
  case (1 n)
  show ?case
  proof (cases "n < 10")
    case True
    then show ?thesis by (subst nat_digits.simps) (simp add: num_of_def)
  next
    case False
    with 1 have "num_acc 0 (nat_digits (n div 10)) = int (n div 10)" by (simp add: num_of_def)
    moreover have "int n = 10 * int (n div 10) + int (n mod 10)" by presburger
    ultimately show ?thesis using False
      by (subst nat_digits.simps) (simp add: num_of_def num_acc_append)
  qed
qed

lemma set_nat_digits: "c \<in> set (nat_digits n) \<Longrightarrow> is_digit c"
proof (induction n rule: nat_digits.induct)
  case (1 n)
  then show ?case
    by (cases "n < 10") (subst (asm) (2) nat_digits.simps, auto)+
qed

lemma num_of_pad [simp]: "0 \<le> n \<Longrightarrow> num_of (pad_start w (str_of_int n)) = n"
  using num_of_nat_digits [of "nat n"] by (simp add: num_of_def pad_start_def str_of_int_def)

lemma pad2: "0 \<le> n \<Longrightarrow> n < 100 \<Longrightarrow>
  pad_start 2 (str_of_int n) = [digit_char (n div 10), digit_char (n mod 10)]"
proof -
  assume n: "0 \<le> n" "n < 100"
  show ?thesis
  proof (cases "n < 10")
    case True
    have "nat_digits (nat n) = [digit_char n]"
      using True n by (subst nat_digits.simps) (simp add: nat_less_iff)
    moreover have "CHR ''0'' = digit_char 0"
      by (rule of_char_eqI [where 'a=nat]) (simp add: digit_char_def)
    ultimately show ?thesis using True n
      by (simp add: pad_start_def str_of_int_def)
  next
    case False
    have "nat_digits (nat n) = nat_digits (nat n div 10) @ [digit_char (int (nat n mod 10))]"
      using False n by (subst nat_digits.simps) (simp add: nat_less_iff)
    moreover have "nat_digits (nat n div 10) = [digit_char (n div 10)]"
      using n by (subst nat_digits.simps) (auto simp: nat_div_distrib zdiv_int)
    ultimately show ?thesis using n False
      by (simp add: pad_start_def str_of_int_def zmod_int)
  qed
qed

section \<open>Regular expressions\<close>

datatype rx =
    Nope
  | Eps
  | Cls "char \<Rightarrow> bool"
  | Sq rx rx
  | Al rx rx
  | St rx

fun rx_nullable :: "rx \<Rightarrow> bool" where
  "rx_nullable Nope = False"
| "rx_nullable Eps = True"
| "rx_nullable (Cls f) = False"
| "rx_nullable (Sq r s) = (rx_nullable r \<and> rx_nullable s)"
| "rx_nullable (Al r s) = (rx_nullable r \<or> rx_nullable s)"
| "rx_nullable (St r) = True"

fun rx_deriv :: "char \<Rightarrow> rx \<Rightarrow> rx" where
  "rx_deriv c Nope = Nope"
| "rx_deriv c Eps = Nope"
| "rx_deriv c (Cls f) = (if f c then Eps else Nope)"
| "rx_deriv c (Sq r s) =
     (if rx_nullable r then Al (Sq (rx_deriv c r) s) (rx_deriv c s) else Sq (rx_deriv c r) s)"
| "rx_deriv c (Al r s) = Al (rx_deriv c r) (rx_deriv c s)"
| "rx_deriv c (St r) = Sq (rx_deriv c r) (St r)"

fun rx_match :: "rx \<Rightarrow> string \<Rightarrow> bool" where
  "rx_match r [] = rx_nullable r"
| "rx_match r (c # cs) = rx_match (rx_deriv c r) cs"

inductive rx_lang :: "rx \<Rightarrow> string \<Rightarrow> bool" where
  eps: "rx_lang Eps []"
| cls: "f c \<Longrightarrow> rx_lang (Cls f) [c]"
| sq: "rx_lang r a \<Longrightarrow> rx_lang s b \<Longrightarrow> rx_lang (Sq r s) (a @ b)"
| al1: "rx_lang r a \<Longrightarrow> rx_lang (Al r s) a"
| al2: "rx_lang s a \<Longrightarrow> rx_lang (Al r s) a"
| st0: "rx_lang (St r) []"
| st1: "rx_lang r a \<Longrightarrow> rx_lang (St r) b \<Longrightarrow> rx_lang (St r) (a @ b)"

inductive_cases rx_lang_NopeE [elim!]: "rx_lang Nope s"
inductive_cases rx_lang_EpsE [elim!]: "rx_lang Eps s"
inductive_cases rx_lang_ClsE [elim!]: "rx_lang (Cls f) s"
inductive_cases rx_lang_SqE: "rx_lang (Sq r t) s"
inductive_cases rx_lang_AlE [elim!]: "rx_lang (Al r t) s"

lemma rx_lang_Sq: "rx_lang (Sq r t) s \<longleftrightarrow> (\<exists>a b. s = a @ b \<and> rx_lang r a \<and> rx_lang t b)"
  by (blast intro: rx_lang.sq elim: rx_lang_SqE)

lemma rx_lang_Cls [simp]: "rx_lang (Cls f) s \<longleftrightarrow> (\<exists>c. s = [c] \<and> f c)"
  by (auto intro: rx_lang.cls)

lemma rx_lang_Eps [simp]: "rx_lang Eps s \<longleftrightarrow> s = []"
  by (auto intro: rx_lang.eps)

lemma rx_lang_Al [simp]: "rx_lang (Al r t) s \<longleftrightarrow> rx_lang r s \<or> rx_lang t s"
  by (auto intro: rx_lang.al1 rx_lang.al2)

lemma rx_lang_Nil: "rx_lang r [] \<longleftrightarrow> rx_nullable r"
proof (induction r)
  case (Sq r s)
  then show ?case by (simp add: rx_lang_Sq)
qed (auto intro: rx_lang.intros)

lemma rx_lang_St_Cons: "rx_lang (St r) (c # s) \<Longrightarrow> \<exists>a b. s = a @ b \<and> rx_lang r (c # a) \<and> rx_lang (St r) b"
proof (induction "St r" "c # s" arbitrary: c s rule: rx_lang.induct)
  case (st1 a b)
  then show ?case by (cases a) auto
qed

lemma rx_lang_Cons: "rx_lang r (c # s) \<longleftrightarrow> rx_lang (rx_deriv c r) s"
proof (induction r arbitrary: s)
  case (Sq r t)
  have "rx_lang (Sq r t) (c # s) \<longleftrightarrow>
    (\<exists>a b. s = a @ b \<and> rx_lang r (c # a) \<and> rx_lang t b) \<or> (rx_lang r [] \<and> rx_lang t (c # s))"
    unfolding rx_lang_Sq Cons_eq_append_conv by (metis append_Nil)
  then show ?case by (simp add: Sq rx_lang_Sq rx_lang_Nil)
next
  case (St r)
  show ?case
  proof
    assume "rx_lang (St r) (c # s)"
    then show "rx_lang (rx_deriv c (St r)) s"
      using rx_lang_St_Cons St.IH by (fastforce intro: rx_lang.sq)
  next
    assume "rx_lang (rx_deriv c (St r)) s"
    then obtain a b where "s = a @ b" "rx_lang (rx_deriv c r) a" "rx_lang (St r) b"
      by (auto simp: rx_lang_Sq)
    then show "rx_lang (St r) (c # s)" using St.IH rx_lang.st1 [of r "c # a" b] by simp
  qed
qed (auto intro: rx_lang.intros)

theorem rx_match_lang: "rx_match r s \<longleftrightarrow> rx_lang r s"
  by (induction s arbitrary: r) (simp_all add: rx_lang_Nil rx_lang_Cons)

definition rx_opt :: "rx \<Rightarrow> rx" where
  "rx_opt r = Al Eps r"

definition rx_plus :: "rx \<Rightarrow> rx" where
  "rx_plus r = Sq r (St r)"

fun rx_seq :: "rx list \<Rightarrow> rx" where
  "rx_seq [] = Eps"
| "rx_seq [r] = r"
| "rx_seq (r # rs) = Sq r (rx_seq rs)"

definition rx_lit :: "string \<Rightarrow> rx" where
  "rx_lit w = rx_seq (map (\<lambda>c. Cls (\<lambda>x. x = c)) w)"

definition rx_rep :: "nat \<Rightarrow> rx \<Rightarrow> rx" where
  "rx_rep n r = rx_seq (replicate n r)"

text \<open>\<open>r{m,n}\<close>.\<close>

definition rx_between :: "nat \<Rightarrow> nat \<Rightarrow> rx \<Rightarrow> rx" where
  "rx_between m n r = rx_seq (replicate m r @ replicate (n - m) (rx_opt r))"

fun rx_alts :: "rx list \<Rightarrow> rx" where
  "rx_alts [] = Nope"
| "rx_alts [r] = r"
| "rx_alts (r # rs) = Al r (rx_alts rs)"

definition char_in :: "char \<Rightarrow> char \<Rightarrow> char \<Rightarrow> bool" where
  "char_in a b c = ((of_char a :: nat) \<le> of_char c \<and> (of_char c :: nat) \<le> of_char b)"

abbreviation rx_digit :: rx where
  "rx_digit \<equiv> Cls is_digit"

abbreviation rx_char :: "char \<Rightarrow> rx" where
  "rx_char c \<equiv> Cls (\<lambda>x. x = c)"

lemma rx_lang_St_Cls: "rx_lang (St (Cls f)) s \<longleftrightarrow> (\<forall>c \<in> set s. f c)"
proof (induction s)
  case Nil
  then show ?case by (simp add: rx_lang.st0)
next
  case (Cons c s)
  have "rx_lang (St (Cls f)) (c # s) \<longleftrightarrow> f c \<and> rx_lang (St (Cls f)) s"
    using rx_lang_St_Cons [of "Cls f" c s] rx_lang.st1 [of "Cls f" "[c]" s] by auto
  then show ?case using Cons by simp
qed

lemma rx_lang_Sq_Cls: "rx_lang (Sq (Cls f) r) s \<longleftrightarrow> (\<exists>c t. s = c # t \<and> f c \<and> rx_lang r t)"
  unfolding rx_lang_Sq rx_lang_Cls by (metis append_Cons append_Nil)

lemma rx_lang_seq_Cons: "rx_lang (rx_seq (r # rs)) s \<longleftrightarrow>
  (\<exists>a b. s = a @ b \<and> rx_lang r a \<and> rx_lang (rx_seq rs) b)"
  by (cases rs) (simp_all add: rx_lang_Sq)

lemma rx_lang_seq_Cls: "rx_lang (rx_seq (Cls f # rs)) s \<longleftrightarrow>
  (\<exists>c t. s = c # t \<and> f c \<and> rx_lang (rx_seq rs) t)"
  unfolding rx_lang_seq_Cons rx_lang_Cls by (metis append_Cons append_Nil)

lemma rx_lang_rep_Cls: "rx_lang (rx_rep n (Cls f)) s \<longleftrightarrow> length s = n \<and> (\<forall>c \<in> set s. f c)"
proof (induction n arbitrary: s)
  case 0
  then show ?case by (auto simp: rx_rep_def)
next
  case (Suc n)
  then show ?case by (cases s) (auto simp: rx_rep_def rx_lang_seq_Cls)
qed

section \<open>Maps in insertion order\<close>

text \<open>
  A JavaScript \<open>Map\<close> or an object used as one: an association list with distinct keys.
  \<open>get\<close> is \<open>map_of\<close>, \<open>set\<close> is \<open>AList.update\<close> (a key that is present keeps its place, a new
  one goes to the end), \<open>delete\<close> is \<open>AList.delete\<close>, and the first entry is the oldest.
\<close>

type_synonym ('k, 'v) jmap = "('k \<times> 'v) list"

definition jmap_ok :: "('k, 'v) jmap \<Rightarrow> bool" where
  "jmap_ok m = distinct (map fst m)"

lemma jmap_ok_Nil [simp]: "jmap_ok []"
  by (simp add: jmap_ok_def)

lemma jmap_ok_update [simp]: "jmap_ok m \<Longrightarrow> jmap_ok (AList.update k v m)"
  by (simp add: jmap_ok_def distinct_update)

lemma jmap_ok_delete [simp]: "jmap_ok m \<Longrightarrow> jmap_ok (AList.delete k m)"
  by (simp add: jmap_ok_def distinct_delete)

lemma jmap_ok_filter [simp]: "jmap_ok m \<Longrightarrow> jmap_ok (filter P m)"
  by (simp add: jmap_ok_def distinct_map_filter)

lemma jmap_ok_tl [simp]: "jmap_ok m \<Longrightarrow> jmap_ok (tl m)"
  by (cases m) (auto simp: jmap_ok_def)

lemma jmap_ok_Cons [simp]: "jmap_ok ((k, v) # m) \<longleftrightarrow> k \<notin> fst ` set m \<and> jmap_ok m"
  by (auto simp: jmap_ok_def)

lemma map_of_update [jmap_simps]: "map_of (AList.update k v m) = (map_of m)(k \<mapsto> v)"
  by (rule update_conv')

lemma map_of_delete [jmap_simps]: "map_of (AList.delete k m) = (map_of m)(k := None)"
  by (rule delete_conv')

lemma length_update_new: "k \<notin> fst ` set m \<Longrightarrow> length (AList.update k v m) = Suc (length m)"
  by (induction m) auto

lemma length_update_old: "k \<in> fst ` set m \<Longrightarrow> length (AList.update k v m) = length m"
  by (induction m) auto

lemma length_update_le: "length (AList.update k v m) \<le> Suc (length m)"
  by (induction m) auto

lemma update_new: "k \<notin> fst ` set m \<Longrightarrow> AList.update k v m = m @ [(k, v)]"
  by (induction m) auto

lemma length_delete_less: "k \<in> fst ` set m \<Longrightarrow> length (AList.delete k m) < length m"
  by (auto simp: AList.delete_eq intro!: length_filter_less)

lemma map_of_None_iff: "map_of m k = None \<longleftrightarrow> k \<notin> fst ` set m"
  by (simp add: map_of_eq_None_iff)

lemma jmap_ok_map_of: "jmap_ok m \<Longrightarrow> (k, v) \<in> set m \<Longrightarrow> map_of m k = Some v"
  by (simp add: jmap_ok_def)

end
