(* ===== verification/Civil.thy ===== *)
theory Civil imports Prelude begin

text \<open>
  The calendar of the JavaScript \<open>Date\<close>, as ECMAScript defines it: day numbers of the proleptic
  Gregorian calendar counted from 1970-01-01, \<open>Date.UTC\<close> with its reading of the years 0 to 99
  as 1900 to 1999 and its range of 8.64e15 ms, and the UTC getters. \<open>None\<close> is NaN (an invalid
  date). The lemmas show that the getters read back what \<open>Date.UTC\<close> was given
  (\<open>civil_of_day_of_civil\<close>, \<open>day_of_civil_of_day\<close>).
\<close>

abbreviation DAY_MS :: int where
  "DAY_MS \<equiv> 86400000"

definition leap :: "int \<Rightarrow> bool" where
  "leap y = (y mod 4 = 0 \<and> (y mod 100 \<noteq> 0 \<or> y mod 400 = 0))"

definition day_from_year :: "int \<Rightarrow> int" where
  "day_from_year y = 365 * (y - 1970) + (y - 1969) div 4 - (y - 1901) div 100 + (y - 1601) div 400"

text \<open>Days before month \<open>m\<close> (0 is January) of the year.\<close>

definition month_start :: "bool \<Rightarrow> int \<Rightarrow> int" where
  "month_start l m =
     (if m \<le> 0 then 0 else if m = 1 then 31 else (if l then 1 else 0) +
      (if m = 2 then 59 else if m = 3 then 90 else if m = 4 then 120 else if m = 5 then 151
       else if m = 6 then 181 else if m = 7 then 212 else if m = 8 then 243 else if m = 9 then 273
       else if m = 10 then 304 else if m = 11 then 334 else 365))"

definition month_of_yday :: "bool \<Rightarrow> int \<Rightarrow> int" where
  "month_of_yday l d =
     (if d < 31 then 0 else let e = (if l then d - 1 else d) in
      if e < 59 then 1 else if e < 90 then 2 else if e < 120 then 3 else if e < 151 then 4
      else if e < 181 then 5 else if e < 212 then 6 else if e < 243 then 7 else if e < 273 then 8
      else if e < 304 then 9 else if e < 334 then 10 else 11)"

definition month_len :: "int \<Rightarrow> int \<Rightarrow> int" where
  "month_len y m = month_start (leap y) (m + 1) - month_start (leap y) m"

definition year_of_day :: "int \<Rightarrow> int" where
  "year_of_day n =
     (let y = (400 * (n + 719528)) div 146097 in
      if day_from_year (y + 1) \<le> n then y + 1 else if n < day_from_year y then y - 1 else y)"

text \<open>Year, month (0 is January) and day of the month of a day number.\<close>

definition civil_of_day :: "int \<Rightarrow> int \<times> int \<times> int" where
  "civil_of_day n =
     (let y = year_of_day n; d = n - day_from_year y; m = month_of_yday (leap y) d in
      (y, m, d - month_start (leap y) m + 1))"

text \<open>\<open>MakeDay\<close>: the month may lie outside 0 to 11, the day outside the month.\<close>

definition day_of_civil :: "int \<Rightarrow> int \<Rightarrow> int \<Rightarrow> int" where
  "day_of_civil y m d =
     (let y' = y + m div 12 in day_from_year y' + month_start (leap y') (m mod 12) + d - 1)"

definition time_clip :: "int \<Rightarrow> int option" where
  "time_clip t = (if \<bar>t\<bar> \<le> 8640000000000000 then Some t else None)"

definition date_utc :: "int \<Rightarrow> int \<Rightarrow> int \<Rightarrow> int \<Rightarrow> int \<Rightarrow> int \<Rightarrow> int option" where
  "date_utc y m d h mi s =
     time_clip (day_of_civil (if 0 \<le> y \<and> y \<le> 99 then 1900 + y else y) m d * DAY_MS
       + h * 3600000 + mi * 60000 + s * 1000)"

definition utc_civil :: "int \<Rightarrow> int \<times> int \<times> int" where
  "utc_civil t = civil_of_day (t div DAY_MS)"

definition utc_weekday :: "int \<Rightarrow> int" where
  "utc_weekday t = (t div DAY_MS + 4) mod 7"

definition real_civil :: "int \<Rightarrow> int \<Rightarrow> int \<Rightarrow> bool" where
  "real_civil y m d = (0 \<le> m \<and> m \<le> 11 \<and> 1 \<le> d \<and> d \<le> month_len y m)"

section \<open>Years\<close>

lemma div_step:
  assumes "0 < (k::int)"
  shows "(a + 1) div k = a div k + (if (a + 1) mod k = 0 then 1 else 0)"
proof -
  have a: "a = k * (a div k) + a mod k" by simp
  have r: "0 \<le> a mod k" "a mod k < k" using assms by simp_all
  show ?thesis
  proof (cases "a mod k + 1 = k")
    case True
    then have "a + 1 = k * (a div k) + k" using a by linarith
    then have "a + 1 = k * (a div k + 1)" by (simp add: distrib_left)
    then show ?thesis using assms by (metis mod_mult_self1_is_0 nonzero_mult_div_cancel_left order_less_irrefl)
  next
    case False
    then have "a + 1 = k * (a div k) + (a mod k + 1)" "a mod k + 1 < k" using a r by linarith+
    then have "(a + 1) div k = a div k" "(a + 1) mod k = a mod k + 1"
      using r int_div_pos_eq [of "a + 1" k "a div k" "a mod k + 1"]
        int_mod_pos_eq [of "a + 1" k "a div k" "a mod k + 1"] by simp_all
    then show ?thesis using r by simp
  qed
qed

lemma div_enclose:
  assumes "0 < (k::int)"
  obtains q where "q = a div k" "k * q \<le> a" "a \<le> k * q + (k - 1)"
  using assms by (metis add_le_cancel_left mult_div_mod_eq pos_mod_bound pos_mod_sign zle_diff1_eq
      add_increasing2 order_refl)

lemma div_step_shift:
  assumes "0 < (k::int)" "c = k * j + 1"
  shows "(y + 1 - c) div k = (y - c) div k + (if y mod k = 0 then 1 else 0)"
proof -
  have "(y - c) + 1 = y + k * (- j)" "y + 1 - c = (y - c) + 1" using assms(2) by simp_all
  then have "((y - c) + 1) mod k = y mod k" by (simp only: mod_mult_self2)
  with div_step [OF assms(1), of "y - c"] show ?thesis
    unfolding \<open>y + 1 - c = (y - c) + 1\<close> by (simp only:)
qed

lemma mod_400_100: "(y::int) mod 400 = 0 \<Longrightarrow> y mod 100 = 0"
  and mod_100_4: "(y::int) mod 100 = 0 \<Longrightarrow> y mod 4 = 0"
proof -
  have "y mod 400 mod 100 = y mod 100" "y mod 100 mod 4 = y mod 4"
    by (rule mod_mod_cancel, simp)+
  then show "y mod 400 = 0 \<Longrightarrow> y mod 100 = 0" "y mod 100 = 0 \<Longrightarrow> y mod 4 = 0"
    by (metis mod_0)+
qed

lemma day_from_year_Suc: "day_from_year (y + 1) = day_from_year y + (if leap y then 366 else 365)"
proof -
  have d: "(y + 1 - 1969) div 4 = (y - 1969) div 4 + (if y mod 4 = 0 then 1 else 0)"
    "(y + 1 - 1901) div 100 = (y - 1901) div 100 + (if y mod 100 = 0 then 1 else 0)"
    "(y + 1 - 1601) div 400 = (y - 1601) div 400 + (if y mod 400 = 0 then 1 else 0)"
    by (rule div_step_shift [of 4 _ 492], simp, simp)
      (rule div_step_shift [of 100 _ 19] div_step_shift [of 400 _ 4], simp, simp)+
  have e: "365 * (y + 1 - 1970) = 365 * (y - 1970) + 365" by simp
  have "day_from_year (y + 1) = day_from_year y + 365 + (if y mod 4 = 0 then 1 else 0)
    - (if y mod 100 = 0 then 1 else 0) + (if y mod 400 = 0 then 1 else 0)"
    unfolding day_from_year_def d e by linarith
  then show ?thesis
    unfolding leap_def using mod_400_100 [of y] mod_100_4 [of y] by presburger
qed

lemma day_from_year_step: "day_from_year y + 365 \<le> day_from_year (y + 1)"
  by (simp add: day_from_year_Suc)

lemma day_from_year_mono: "x \<le> y \<Longrightarrow> day_from_year x + 365 * (y - x) \<le> day_from_year y"
proof (induction y rule: int_ge_induct)
  case base
  then show ?case by simp
next
  case (step y)
  then show ?case using day_from_year_step [of y] by (simp add: algebra_simps)
qed

lemma day_from_year_less: "x < y \<Longrightarrow> day_from_year x < day_from_year y"
  using day_from_year_mono [of x y] by simp

lemma day_from_year_bounds:
  "400 * (day_from_year y + 719528) \<ge> 146097 * y - 396"
  "400 * (day_from_year y + 719528) \<le> 146097 * y + 699"
proof -
  obtain q where q: "q = (y - 1969) div 4" "4 * q \<le> y - 1969" "y - 1969 \<le> 4 * q + (4 - 1)"
    by (rule div_enclose [of 4 "y - 1969"]) simp
  obtain r where r: "r = (y - 1901) div 100" "100 * r \<le> y - 1901" "y - 1901 \<le> 100 * r + (100 - 1)"
    by (rule div_enclose [of 100 "y - 1901"]) simp
  obtain t where t: "t = (y - 1601) div 400" "400 * t \<le> y - 1601" "y - 1601 \<le> 400 * t + (400 - 1)"
    by (rule div_enclose [of 400 "y - 1601"]) simp
  have e: "day_from_year y = 365 * (y - 1970) + q - r + t"
    by (simp add: day_from_year_def q r t)
  show "400 * (day_from_year y + 719528) \<ge> 146097 * y - 396"
    using q(2,3) r(2,3) t(2,3) unfolding e by (simp add: algebra_simps)
  show "400 * (day_from_year y + 719528) \<le> 146097 * y + 699"
    using q(2,3) r(2,3) t(2,3) unfolding e by (simp add: algebra_simps)
qed

lemma year_of_day_bounds:
  "day_from_year (year_of_day n) \<le> n" "n < day_from_year (year_of_day n + 1)"
proof -
  define y where "y = (400 * (n + 719528)) div 146097"
  obtain q where "q = (400 * (n + 719528)) div 146097" "146097 * q \<le> 400 * (n + 719528)"
      "400 * (n + 719528) \<le> 146097 * q + (146097 - 1)"
    by (rule div_enclose [of 146097 "400 * (n + 719528)"]) simp
  then have y: "146097 * y \<le> 400 * (n + 719528)" "400 * (n + 719528) < 146097 * y + 146097"
    by (simp_all add: y_def)
  have "day_from_year (y - 1) \<le> n"
    using y day_from_year_bounds(2) [of "y - 1"] by (simp add: algebra_simps)
  moreover have "n < day_from_year (y + 2)"
    using y day_from_year_bounds(1) [of "y + 2"] by (simp add: algebra_simps)
  moreover have "year_of_day n =
    (if day_from_year (y + 1) \<le> n then y + 1 else if n < day_from_year y then y - 1 else y)"
    by (simp add: year_of_day_def y_def Let_def)
  ultimately show "day_from_year (year_of_day n) \<le> n" "n < day_from_year (year_of_day n + 1)"
    by (auto simp: add.assoc)
qed

lemma year_of_day_unique:
  assumes "day_from_year y \<le> n" "n < day_from_year (y + 1)"
  shows "year_of_day n = y"
proof (rule ccontr)
  assume "year_of_day n \<noteq> y"
  then consider "year_of_day n + 1 \<le> y" | "y + 1 \<le> year_of_day n" by linarith
  then show False
  proof cases
    case 1
    then show False
      using assms(1) year_of_day_bounds(2) [of n] day_from_year_mono [of "year_of_day n + 1" y]
      by simp
  next
    case 2
    then show False
      using assms(2) year_of_day_bounds(1) [of n] day_from_year_mono [of "y + 1" "year_of_day n"]
      by simp
  qed
qed

section \<open>Months and days\<close>

lemma month_cases:
  assumes "0 \<le> (m::int)" "m \<le> 11"
  obtains "m = 0" | "m = 1" | "m = 2" | "m = 3" | "m = 4" | "m = 5" | "m = 6" | "m = 7" | "m = 8"
    | "m = 9" | "m = 10" | "m = 11"
proof -
  have "m = 0 \<or> m = 1 \<or> m = 2 \<or> m = 3 \<or> m = 4 \<or> m = 5 \<or> m = 6 \<or> m = 7 \<or> m = 8
    \<or> m = 9 \<or> m = 10 \<or> m = 11"
    using assms by presburger
  then show thesis using that by blast
qed

lemma month_start_12: "month_start l 12 = (if l then 366 else 365)"
  by (simp add: month_start_def)

lemma month_len_pos: "0 \<le> m \<Longrightarrow> m \<le> 11 \<Longrightarrow> 28 \<le> month_len y m \<and> month_len y m \<le> 31"
  by (erule month_cases, assumption) (simp_all add: month_len_def month_start_def)

lemma month_of_yday_start:
  assumes "0 \<le> m" "m \<le> 11" "1 \<le> d" "d \<le> month_start l (m + 1) - month_start l m"
  shows "month_of_yday l (month_start l m + d - 1) = m"
  by (rule month_cases [OF assms(1,2)]; use assms(3,4) in
    \<open>cases l; simp add: month_start_def month_of_yday_def Let_def\<close>)

lemma month_of_yday_range: "0 \<le> month_of_yday l d \<and> month_of_yday l d \<le> 11"
  by (simp add: month_of_yday_def Let_def)

lemma month_of_yday_bounds:
  assumes "0 \<le> d" "d < (if l then 366 else 365)"
  shows "month_start l (month_of_yday l d) \<le> d \<and> d < month_start l (month_of_yday l d + 1)"
proof (cases "d < 31")
  case True
  then show ?thesis using assms by (simp add: month_start_def month_of_yday_def)
next
  case False
  define e where "e = (if l then d - 1 else d)"
  have e: "d = e + (if l then 1 else 0)" "30 \<le> e" "e < 365"
    using False assms by (auto simp: e_def split: if_splits)
  define m where "m = month_of_yday l d"
  have "m = (if e < 59 then 1 else if e < 90 then 2 else if e < 120 then 3 else if e < 151 then 4
      else if e < 181 then 5 else if e < 212 then 6 else if e < 243 then 7 else if e < 273 then 8
      else if e < 304 then 9 else if e < 334 then 10 else 11)"
    using False by (simp add: m_def month_of_yday_def Let_def e_def)
  then show ?thesis
    unfolding m_def [symmetric] using e False
    by (cases "e < 59", simp add: month_start_def,
      cases "e < 90", simp add: month_start_def,
      cases "e < 120", simp add: month_start_def,
      cases "e < 151", simp add: month_start_def,
      cases "e < 181", simp add: month_start_def,
      cases "e < 212", simp add: month_start_def,
      cases "e < 243", simp add: month_start_def,
      cases "e < 273", simp add: month_start_def,
      cases "e < 304", simp add: month_start_def,
      cases "e < 334", simp add: month_start_def,
      simp add: month_start_def)
qed

lemma month_start_bound:
  assumes "0 \<le> m" "m \<le> 11" shows "month_start l (m + 1) \<le> (if l then 366 else 365)" "0 \<le> month_start l m"
  by (rule month_cases [OF assms]; simp add: month_start_def)+

theorem civil_of_day_of_civil:
  assumes "real_civil y m d"
  shows "civil_of_day (day_of_civil y m d) = (y, m, d)"
proof -
  from assms have m: "0 \<le> m" "m \<le> 11" and d: "1 \<le> d" "d \<le> month_len y m"
    by (simp_all add: real_civil_def)
  define n where "n = day_of_civil y m d"
  have n: "n = day_from_year y + month_start (leap y) m + d - 1"
    using m by (simp add: n_def day_of_civil_def)
  have "n < day_from_year (y + 1)"
    using month_start_bound(1) [OF m, of "leap y"] d
    by (simp add: n month_len_def day_from_year_Suc split: if_splits)
  moreover have "day_from_year y \<le> n"
    using month_start_bound(2) [OF m, of "leap y"] d(1) by (simp add: n)
  ultimately have "year_of_day n = y" by (intro year_of_day_unique)
  moreover have "month_of_yday (leap y) (month_start (leap y) m + d - 1) = m"
    using m d by (intro month_of_yday_start) (simp_all add: month_len_def)
  ultimately show ?thesis
    unfolding n_def [symmetric] civil_of_day_def by (simp add: Let_def n algebra_simps)
qed

theorem day_of_civil_of_day:
  assumes "civil_of_day n = (y, m, d)"
  shows "real_civil y m d" "day_of_civil y m d = n"
proof -
  define e where "e = n - day_from_year y"
  have y: "y = year_of_day n" and m: "m = month_of_yday (leap y) e"
    and d: "d = e - month_start (leap y) m + 1"
    using assms by (auto simp: civil_of_day_def Let_def e_def)
  have "0 \<le> e" "e < (if leap y then 366 else 365)"
    using year_of_day_bounds [of n] by (auto simp: e_def y [symmetric] day_from_year_Suc)
  then have "month_start (leap y) m \<le> e" "e < month_start (leap y) (m + 1)"
    using month_of_yday_bounds unfolding m by blast+
  then show "real_civil y m d"
    using month_of_yday_range [of "leap y" e] by (simp add: real_civil_def month_len_def d m)
  then show "day_of_civil y m d = n"
    by (simp add: day_of_civil_def real_civil_def d e_def)
qed

lemma day_of_civil_day: "day_of_civil y m (d + k) = day_of_civil y m d + k"
  by (simp add: day_of_civil_def Let_def)

lemma day_of_civil_norm: "day_of_civil y m d = day_of_civil (y + m div 12) (m mod 12) d"
  by (simp add: day_of_civil_def Let_def)

lemma day_of_civil_next: "real_civil y m 1 \<Longrightarrow> day_of_civil y (m + 1) 1 = day_of_civil y m 1 + month_len y m"
proof -
  assume r: "real_civil y m 1"
  then have m: "0 \<le> m" "m \<le> 11" by (simp_all add: real_civil_def)
  show ?thesis
  proof (cases "m = 11")
    case True
    then show ?thesis
      by (simp add: day_of_civil_def Let_def day_from_year_Suc month_len_def month_start_12)
        (simp add: month_start_def)
  next
    case False
    then have "(m + 1) div 12 = 0" "(m + 1) mod 12 = m + 1" "m div 12 = 0" "m mod 12 = m"
      using m by auto
    then show ?thesis by (simp add: day_of_civil_def Let_def month_len_def)
  qed
qed

lemma day_of_civil_bounds:
  assumes "real_civil y m d"
  shows "day_from_year y \<le> day_of_civil y m d" "day_of_civil y m d < day_from_year (y + 1)"
proof -
  have "year_of_day (day_of_civil y m d) = y"
    using civil_of_day_of_civil [OF assms] by (simp add: civil_of_day_def Let_def)
  then show "day_from_year y \<le> day_of_civil y m d" "day_of_civil y m d < day_from_year (y + 1)"
    using year_of_day_bounds [of "day_of_civil y m d"] by simp_all
qed

lemma civil_of_day_year: "civil_of_day n = (y, m, d) \<Longrightarrow> year_of_day n = y"
  by (simp add: civil_of_day_def Let_def)

lemma year_of_day_mono: "a \<le> b \<Longrightarrow> year_of_day a \<le> year_of_day b"
proof (rule ccontr)
  assume "a \<le> b" "\<not> year_of_day a \<le> year_of_day b"
  then have "year_of_day b + 1 \<le> year_of_day a" by simp
  with day_from_year_mono [OF this] show False
    using year_of_day_bounds(1) [of a] year_of_day_bounds(2) [of b] \<open>a \<le> b\<close> by simp
qed

end
