(* ===== verification/PlainDate.thy ===== *)
theory PlainDate imports Civil begin

text \<open>
  \<open>packages/domain/src/plain-date.ts\<close> (and \<open>startsWithRealDay\<close> of
  \<open>authoring/validators.ts\<close>): calendar dates as \<open>YYYY-MM-DD\<close> keys, their arithmetic, and the
  conversion between instants and the wall clock of a zone.

  An instant is its epoch millisecond; an invalid \<open>Date\<close> is \<open>None\<close>. What the file takes from
  the platform is a parameter: \<open>dparse\<close> is \<open>Date.parse\<close>, \<open>canon\<close> the canonical zone name of
  \<open>resolvedOptions\<close> (\<open>None\<close> where the constructor throws), and \<open>fmt\<close> the parts
  \<open>formatToParts\<close> gives for a zone and an instant. \<open>honest_zone\<close> is the documented behaviour of
  \<open>fmt\<close>: the parts are the wall clock at the zone's offset.
\<close>

section \<open>Calendar dates\<close>

datatype date_error =
    NotACalendarDate string
  | NotWholeDays
  | NotWholeMonths
  | BadAppTimeZone string
  | InvalidDate
  | NotAnInstant string
  | NotAWallTime string
  | UnknownTimeZone string
  | WallTimeRepeated string string string
  | WallTimeSkipped string string string

definition PLAIN_DATE_RE :: rx where
  "PLAIN_DATE_RE = rx_seq [rx_rep 4 rx_digit, rx_char CHR ''-'', rx_rep 2 rx_digit, rx_char CHR ''-'',
     rx_rep 2 rx_digit]"

text \<open>\<open>Number\<close> of the three groups of a match.\<close>

definition plain_date_groups :: "string \<Rightarrow> int \<times> int \<times> int" where
  "plain_date_groups s = (num_of (take 4 s), num_of (take 2 (drop 5 s)), num_of (drop 8 s))"

definition is_plain_date :: "string \<Rightarrow> bool" where
  "is_plain_date s =
     (if \<not> rx_match PLAIN_DATE_RE s then False
      else let (year, month, day) = plain_date_groups s in
        if month < 1 \<or> month > 12 \<or> day < 1 then False
        else case date_utc year (month - 1) day 0 0 0 of
          None \<Rightarrow> False
        | Some probe \<Rightarrow> utc_civil probe = (year, month - 1, day))"

definition isPlainDate :: "js \<Rightarrow> bool" where
  "isPlainDate v = (case v of JStr s \<Rightarrow> is_plain_date s | _ \<Rightarrow> False)"

text \<open>\<open>key.split("-").map(Number)\<close> of a key.\<close>

definition key_parts :: "string \<Rightarrow> int \<times> int \<times> int" where
  "key_parts key = (case map num_of (split_on CHR ''-'' key) of
     [year, month, day] \<Rightarrow> (year, month, day) | _ \<Rightarrow> (0, 0, 0))"

definition pad :: "int \<Rightarrow> nat \<Rightarrow> string" where
  "pad v width = pad_start width (str_of_int v)"

definition key_of :: "int \<Rightarrow> int \<Rightarrow> int \<Rightarrow> string" where
  "key_of year month day = pad year 4 @ ''-'' @ pad month 2 @ ''-'' @ pad day 2"

text \<open>\<open>pad(getUTCFullYear(), 4)-...\<close> of a date, NaN for an invalid one.\<close>

definition date_key :: "int option \<Rightarrow> string" where
  "date_key d = (case d of
     None \<Rightarrow> ''0NaN-NaN-NaN''
   | Some t \<Rightarrow> let (y, m, dd) = utc_civil t in key_of y (m + 1) dd)"

definition addDaysToKey :: "string \<Rightarrow> js \<Rightarrow> date_error + string" where
  "addDaysToKey key days =
     (if \<not> is_plain_date key then Inl (NotACalendarDate key)
      else case days of
        JInt n \<Rightarrow> let (year, month, day) = key_parts key in
          Inr (date_key (Option.bind (date_utc year (month - 1) day 0 0 0)
            (\<lambda>t. time_clip (t + n * DAY_MS))))
      | _ \<Rightarrow> Inl NotWholeDays)"

definition addMonthsToKey :: "string \<Rightarrow> js \<Rightarrow> date_error + string" where
  "addMonthsToKey key months =
     (if \<not> is_plain_date key then Inl (NotACalendarDate key)
      else case months of
        JInt n \<Rightarrow> let (year, month, day) = key_parts key in
          (case date_utc year (month - 1 + n) 1 0 0 0 of
             None \<Rightarrow> Inr ''0NaN-NaN-NaN''
           | Some target \<Rightarrow>
               let (ty, tm, _) = utc_civil target in
               (case date_utc ty (tm + 1) 0 0 0 0 of
                  None \<Rightarrow> Inr (pad ty 4 @ ''-'' @ pad (tm + 1) 2 @ ''-NaN'')
                | Some l \<Rightarrow>
                    let (_, _, lastDay) = utc_civil l in
                    Inr (key_of ty (tm + 1) (min day lastDay))))
      | _ \<Rightarrow> Inl NotWholeMonths)"

definition keyToUtcMs :: "string \<Rightarrow> date_error + int option" where
  "keyToUtcMs key =
     (if \<not> is_plain_date key then Inl (NotACalendarDate key)
      else let (year, month, day) = key_parts key in Inr (date_utc year (month - 1) day 0 0 0))"

text \<open>\<open>Math.round\<close> rounds halves up.\<close>

definition math_round_div :: "int \<Rightarrow> int \<Rightarrow> int" where
  "math_round_div a b = (2 * a + b) div (2 * b)"

definition daysBetweenKeys :: "string \<Rightarrow> string \<Rightarrow> date_error + int option" where
  "daysBetweenKeys from to =
     (case keyToUtcMs to of
        Inl e \<Rightarrow> Inl e
      | Inr b \<Rightarrow> (case keyToUtcMs from of
            Inl e \<Rightarrow> Inl e
          | Inr a \<Rightarrow> Inr (Option.bind b (\<lambda>b. map_option (\<lambda>a. math_round_div (b - a) DAY_MS) a))))"

definition isoWeekdayOfKey :: "string \<Rightarrow> date_error + int option" where
  "isoWeekdayOfKey key =
     (case keyToUtcMs key of
        Inl e \<Rightarrow> Inl e
      | Inr t \<Rightarrow> Inr (map_option (\<lambda>t. if utc_weekday t = 0 then 7 else utc_weekday t) t))"

section \<open>Facts on keys\<close>

text \<open>The day number of a key, and the keys of the days the file's arithmetic works on.\<close>

definition key_day :: "string \<Rightarrow> int" where
  "key_day key = (let (y, m, d) = plain_date_groups key in day_of_civil y (m - 1) d)"

definition day_key :: "int \<Rightarrow> string" where
  "day_key n = (let (y, m, d) = civil_of_day n in key_of y (m + 1) d)"

abbreviation FIRST_DAY :: int where
  "FIRST_DAY \<equiv> day_from_year 100"

abbreviation LAST_DAY :: int where
  "LAST_DAY \<equiv> day_from_year 10000 - 1"

lemma plain_date_re: "rx_match PLAIN_DATE_RE s \<longleftrightarrow>
  (\<exists>y m d. s = y @ ''-'' @ m @ ''-'' @ d \<and> length y = 4 \<and> length m = 2 \<and> length d = 2
     \<and> (\<forall>c \<in> set (y @ m @ d). is_digit c))"
  unfolding rx_match_lang PLAIN_DATE_RE_def
  by (simp add: rx_lang_Sq rx_lang_rep_Cls) (auto, blast+)

lemma digit_not_dash: "is_digit c \<Longrightarrow> c \<noteq> CHR ''-''"
  by (auto simp: is_digit_def)

lemma key_parts_groups: "rx_match PLAIN_DATE_RE s \<Longrightarrow> key_parts s = plain_date_groups s"
proof -
  assume "rx_match PLAIN_DATE_RE s"
  then obtain y m d where s: "s = y @ CHR ''-'' # m @ CHR ''-'' # d"
    and l: "length y = 4" "length m = 2" "length d = 2" and dg: "\<forall>c \<in> set (y @ m @ d). is_digit c"
    by (auto simp: plain_date_re)
  have "CHR ''-'' \<notin> set y" "CHR ''-'' \<notin> set m" "CHR ''-'' \<notin> set d"
    using dg digit_not_dash by auto
  then show ?thesis
    unfolding s by (simp add: key_parts_def split_on_append split_on_single plain_date_groups_def l)
qed

lemma num_acc_bounds: "\<forall>c \<in> set s. is_digit c \<Longrightarrow> 0 \<le> a \<Longrightarrow>
  a * 10 ^ length s \<le> num_acc a s \<and> num_acc a s < (a + 1) * 10 ^ length s"
proof (induction s arbitrary: a)
  case Nil
  then show ?case by simp
next
  case (Cons c s)
  have d: "0 \<le> digit_val c" "digit_val c < 10" using Cons.prems digit_val_range by auto
  have p: "(0::int) < 10 ^ length s" by simp
  have "(10 * a) * 10 ^ length s \<le> (10 * a + digit_val c) * 10 ^ length s"
    using d p by (intro mult_right_mono) auto
  moreover have "(10 * a + digit_val c + 1) * 10 ^ length s \<le> (10 * a + 10) * 10 ^ length s"
    using d p by (intro mult_right_mono) auto
  moreover have "(10 * a + digit_val c) * 10 ^ length s \<le> num_acc (10 * a + digit_val c) s \<and>
    num_acc (10 * a + digit_val c) s < (10 * a + digit_val c + 1) * 10 ^ length s"
    using Cons d by auto
  moreover have "a * 10 ^ length (c # s) = (10 * a) * 10 ^ length s"
    "(a + 1) * 10 ^ length (c # s) = (10 * a + 10) * 10 ^ length s" by (simp_all add: algebra_simps)
  ultimately show ?case unfolding num_acc.simps by linarith
qed

lemma num_of_bounds: "\<forall>c \<in> set s. is_digit c \<Longrightarrow> 0 \<le> num_of s \<and> num_of s < 10 ^ length s"
  using num_acc_bounds [of s 0] by (simp add: num_of_def)

lemma num_acc_snoc: "num_of (s @ [c]) = 10 * num_of s + digit_val c"
  by (simp add: num_of_def num_acc_append)

lemma num_of_inj:
  "\<forall>c \<in> set s. is_digit c \<Longrightarrow> \<forall>c \<in> set t. is_digit c \<Longrightarrow> length s = length t \<Longrightarrow>
   num_of s = num_of t \<Longrightarrow> s = t"
proof (induction s arbitrary: t rule: rev_induct)
  case Nil
  then show ?case by simp
next
  case (snoc c s)
  then obtain d u where t: "t = u @ [d]" by (cases t rule: rev_cases) auto
  have cd: "0 \<le> digit_val c" "digit_val c < 10" "0 \<le> digit_val d" "digit_val d < 10"
    using snoc.prems t digit_val_range by auto
  have "10 * num_of s + digit_val c = 10 * num_of u + digit_val d"
    using snoc.prems(4) by (simp add: t num_acc_snoc)
  then have "num_of s \<le> num_of u" "num_of u \<le> num_of s" using cd by linarith+
  then have u: "num_of s = num_of u" "digit_val c = digit_val d"
    using \<open>10 * num_of s + digit_val c = 10 * num_of u + digit_val d\<close> by simp_all
  have "is_digit c" "is_digit d" using snoc.prems(1,2) by (simp_all add: t)
  then have "c = d" using u(2) by (metis digit_char_val)
  moreover have "s = u" using snoc.IH [of u] snoc.prems u(1) by (simp add: t)
  ultimately show ?case by (simp add: t)
qed

lemma length_nat_digits: "n < 10 ^ Suc w \<Longrightarrow> length (nat_digits n) \<le> Suc w"
proof (induction w arbitrary: n)
  case 0
  then show ?case by (subst nat_digits.simps) simp
next
  case (Suc w)
  then have "n div 10 < 10 ^ Suc w" by (simp add: less_mult_imp_div_less mult.commute)
  then show ?case using Suc.IH by (subst nat_digits.simps) auto
qed

lemma length_nat_digits_ge: "10 ^ w \<le> n \<Longrightarrow> Suc w \<le> length (nat_digits n)"
proof (induction w arbitrary: n)
  case 0
  then show ?case by (subst nat_digits.simps) simp
next
  case (Suc w)
  have "10 ^ Suc w div 10 \<le> n div 10" using Suc.prems by (rule div_le_mono)
  then have "10 ^ w \<le> n div 10" by simp
  moreover have "10 \<le> n" using Suc.prems by (metis le_trans one_le_numeral one_le_power power_Suc
      mult.right_neutral mult_le_mono2)
  ultimately show ?case using Suc.IH by (subst nat_digits.simps) auto
qed

lemma pad_digits: "0 \<le> n \<Longrightarrow> c \<in> set (pad n w) \<Longrightarrow> is_digit c"
  using is_digit_char [of 0] set_nat_digits
  by (auto simp: pad_def pad_start_def str_of_int_def digit_char_def is_digit_def)

lemma length_pad: "0 \<le> n \<Longrightarrow> n < 10 ^ Suc w \<Longrightarrow> length (pad n (Suc w)) = Suc w"
proof -
  assume n: "0 \<le> n" "n < 10 ^ Suc w"
  then have "nat n < 10 ^ Suc w" by (metis nat_less_iff of_nat_numeral of_nat_power)
  then show ?thesis
    using length_nat_digits [of "nat n" w] n by (simp add: pad_def pad_start_def str_of_int_def)
qed

lemma num_of_pad' [simp]: "0 \<le> n \<Longrightarrow> num_of (pad n w) = n"
  by (simp add: pad_def)

lemma pad_num_of:
  assumes "\<forall>c \<in> set s. is_digit c" "length s = Suc w"
  shows "pad (num_of s) (Suc w) = s"
proof (rule num_of_inj)
  have b: "0 \<le> num_of s" "num_of s < 10 ^ Suc w" using num_of_bounds [OF assms(1)] assms(2) by auto
  show "\<forall>c \<in> set (pad (num_of s) (Suc w)). is_digit c" using pad_digits b by blast
  show "length (pad (num_of s) (Suc w)) = length s" using b assms(2) length_pad by simp
  show "num_of (pad (num_of s) (Suc w)) = num_of s" using b by simp
qed (fact assms(1))

lemma length_pad4: "0 \<le> n \<Longrightarrow> n < 10000 \<Longrightarrow> length (pad n 4) = 4"
  using length_pad [of n 3] by (simp add: numeral_eq_Suc)

lemma length_pad2: "0 \<le> n \<Longrightarrow> n < 100 \<Longrightarrow> length (pad n 2) = 2"
  using length_pad [of n 1] by (simp add: numeral_eq_Suc)

lemma key_of_re:
  assumes "0 \<le> y" "y < 10000" "0 \<le> m" "m < 100" "0 \<le> d" "d < 100"
  shows "rx_match PLAIN_DATE_RE (key_of y m d)" "plain_date_groups (key_of y m d) = (y, m, d)"
proof -
  show "rx_match PLAIN_DATE_RE (key_of y m d)"
    unfolding plain_date_re key_of_def
    using assms length_pad4 [of y] length_pad2 [of m] length_pad2 [of d] pad_digits
    by (intro exI [of _ "pad y 4"] exI [of _ "pad m 2"] exI [of _ "pad d 2"]) auto
  show "plain_date_groups (key_of y m d) = (y, m, d)"
    using assms length_pad4 [of y] length_pad2 [of m] length_pad2 [of d]
    by (simp add: plain_date_groups_def key_of_def)
qed

lemma re_key_of:
  assumes "rx_match PLAIN_DATE_RE s" "plain_date_groups s = (y, m, d)"
  shows "s = key_of y m d" "0 \<le> y" "y < 10000" "0 \<le> m" "m < 100" "0 \<le> d" "d < 100"
proof -
  obtain a b c where s: "s = a @ CHR ''-'' # b @ CHR ''-'' # c"
    and l: "length a = 4" "length b = 2" "length c = 2"
    and dg: "\<forall>x \<in> set a. is_digit x" "\<forall>x \<in> set b. is_digit x" "\<forall>x \<in> set c. is_digit x"
    using assms(1) by (auto simp: plain_date_re)
  have e: "y = num_of a" "m = num_of b" "d = num_of c"
    using assms(2) by (auto simp: s plain_date_groups_def l)
  have "pad y 4 = a" "pad m 2 = b" "pad d 2 = c"
    unfolding e using pad_num_of [OF dg(1), of 3] pad_num_of [OF dg(2), of 1] pad_num_of [OF dg(3), of 1] l
    by (simp_all add: numeral_eq_Suc)
  then show "s = key_of y m d" by (simp add: key_of_def s)
  show "0 \<le> y" "y < 10000" "0 \<le> m" "m < 100" "0 \<le> d" "d < 100"
    unfolding e using num_of_bounds [OF dg(1)] num_of_bounds [OF dg(2)] num_of_bounds [OF dg(3)] l
    by auto
qed

lemma days_range:
  assumes "0 \<le> y" "y < 10000" "0 \<le> m" "m \<le> 11" "0 \<le> d" "d < 100"
  shows "- 800000 \<le> day_of_civil y m d" "day_of_civil y m d < 3000000"
proof -
  have "day_of_civil y m d = day_from_year y + month_start (leap y) m + d - 1"
    using assms by (simp add: day_of_civil_def)
  moreover have "0 \<le> month_start (leap y) m" "month_start (leap y) m \<le> 366"
    using assms by (auto simp: month_start_def)
  moreover have "day_from_year 0 \<le> day_from_year y" "day_from_year y \<le> day_from_year 10000"
    using day_from_year_mono [of 0 y] day_from_year_mono [of y 10000] assms by simp_all
  moreover have "day_from_year 0 = - 719528" "day_from_year 10000 = 2932897"
    by (simp_all add: day_from_year_def)
  ultimately show "- 800000 \<le> day_of_civil y m d" "day_of_civil y m d < 3000000"
    using assms by linarith+
qed

lemma time_clip_days: "\<bar>n\<bar> \<le> 99999999 \<Longrightarrow> 0 \<le> r \<Longrightarrow> r \<le> DAY_MS \<Longrightarrow> time_clip (n * DAY_MS + r) = Some (n * DAY_MS + r)"
  by (simp add: time_clip_def)

lemma is_plain_date_iff: "is_plain_date s \<longleftrightarrow> rx_match PLAIN_DATE_RE s \<and>
  (case plain_date_groups s of (y, m, d) \<Rightarrow> 100 \<le> y \<and> real_civil y (m - 1) d)"
proof (cases "rx_match PLAIN_DATE_RE s")
  case True
  obtain y m d where g: "plain_date_groups s = (y, m, d)" by (metis prod_cases3)
  note r = re_key_of [OF True g]
  show ?thesis
  proof (cases "m < 1 \<or> m > 12 \<or> d < 1")
    case True
    then show ?thesis using \<open>rx_match PLAIN_DATE_RE s\<close>
      by (auto simp: is_plain_date_def g real_civil_def)
  next
    case False
    define y' where "y' = (if 0 \<le> y \<and> y \<le> 99 then 1900 + y else y)"
    define n where "n = day_of_civil y' (m - 1) d"
    have "- 800000 \<le> n" "n < 3000000"
      unfolding n_def using r False by (intro days_range; simp add: y'_def)+
    then have u: "date_utc y (m - 1) d 0 0 0 = Some (n * DAY_MS)"
      using time_clip_days [of n 0] by (simp add: date_utc_def y'_def n_def)
    have "civil_of_day n = (y, m - 1, d) \<longleftrightarrow> 100 \<le> y \<and> real_civil y (m - 1) d"
    proof
      assume c: "civil_of_day n = (y, m - 1, d)"
      note day_of_civil_of_day [OF c]
      moreover have "100 \<le> y"
      proof (rule ccontr)
        assume a: "\<not> 100 \<le> y"
        then have y': "y' = 1900 + y" using r by (simp add: y'_def)
        have "n < day_from_year (y + 1)"
          using day_of_civil_of_day [OF c] day_of_civil_bounds by metis
        moreover have "day_from_year y' \<le> n"
          using False month_start_bound(2) [of "m - 1" "leap y'"]
          by (simp add: n_def day_of_civil_def)
        ultimately show False using day_from_year_mono [of "y + 1" y'] y' by simp
      qed
      ultimately show "100 \<le> y \<and> real_civil y (m - 1) d" by simp
    next
      assume "100 \<le> y \<and> real_civil y (m - 1) d"
      then show "civil_of_day n = (y, m - 1, d)"
        using civil_of_day_of_civil by (simp add: n_def y'_def)
    qed
    then show ?thesis
      using True False by (simp add: is_plain_date_def g u utc_civil_def)
  qed
qed (simp add: is_plain_date_def)

lemma plain_date_key:
  assumes "is_plain_date s"
  shows "key_parts s = plain_date_groups s" "day_key (key_day s) = s"
    "FIRST_DAY \<le> key_day s" "key_day s \<le> LAST_DAY"
proof -
  obtain y m d where g: "plain_date_groups s = (y, m, d)" by (metis prod_cases3)
  from assms g have re: "rx_match PLAIN_DATE_RE s" and y: "100 \<le> y" and r: "real_civil y (m - 1) d"
    by (auto simp: is_plain_date_iff)
  note k = re_key_of [OF re g]
  show "key_parts s = plain_date_groups s" by (rule key_parts_groups [OF re])
  have n: "key_day s = day_of_civil y (m - 1) d" by (simp add: key_day_def g)
  show "day_key (key_day s) = s"
    unfolding n day_key_def civil_of_day_of_civil [OF r] using k(1) by simp
  show "FIRST_DAY \<le> key_day s" "key_day s \<le> LAST_DAY"
    using day_of_civil_bounds [OF r] day_from_year_mono [of 100 y] day_from_year_mono [of "y + 1" 10000]
      y k(3) by (simp_all add: n)
qed

lemma day_key_plain:
  assumes "FIRST_DAY \<le> n" "n \<le> LAST_DAY"
  shows "is_plain_date (day_key n)" "key_day (day_key n) = n"
proof -
  obtain y m d where c: "civil_of_day n = (y, m, d)" by (metis prod_cases3)
  note r = day_of_civil_of_day [OF c]
  have "100 \<le> y"
  proof (rule ccontr)
    assume "\<not> 100 \<le> y"
    then show False
      using assms(1) day_of_civil_bounds [OF r(1)] day_from_year_mono [of "y + 1" 100] r(2) by simp
  qed
  moreover have "y < 10000"
  proof (rule ccontr)
    assume "\<not> y < 10000"
    then show False
      using assms(2) day_of_civil_bounds [OF r(1)] day_from_year_mono [of 10000 y] r(2) by simp
  qed
  moreover have "0 \<le> m" "m \<le> 11" "1 \<le> d" "d \<le> 31"
    using r(1) month_len_pos [of m y] by (auto simp: real_civil_def)
  ultimately have k: "rx_match PLAIN_DATE_RE (day_key n)" "plain_date_groups (day_key n) = (y, m + 1, d)"
    using key_of_re [of y "m + 1" d] by (simp_all add: day_key_def c)
  then show "is_plain_date (day_key n)" using \<open>100 \<le> y\<close> r(1) by (simp add: is_plain_date_iff)
  show "key_day (day_key n) = n" using r(2) by (simp add: key_day_def k)
qed

lemma first_last_day: "FIRST_DAY = - 683003" "LAST_DAY = 2932896"
  by (simp_all add: day_from_year_def)

lemma key_utc:
  assumes "is_plain_date s" "key_parts s = (y, m, d)"
  shows "date_utc y (m - 1) d h mi sec =
    time_clip (key_day s * DAY_MS + h * 3600000 + mi * 60000 + sec * 1000)"
  using assms plain_date_key(1) [OF assms(1)]
  by (auto simp: date_utc_def is_plain_date_iff key_day_def)

lemma key_utc_midnight:
  assumes "is_plain_date s" "key_parts s = (y, m, d)"
  shows "date_utc y (m - 1) d 0 0 0 = Some (key_day s * DAY_MS)"
  using key_utc [OF assms, of 0 0 0] plain_date_key [OF assms(1)] time_clip_days [of "key_day s" 0]
  by (simp add: first_last_day)

lemma keyToUtcMs_plain: "is_plain_date s \<Longrightarrow> keyToUtcMs s = Inr (Some (key_day s * DAY_MS))"
  using key_utc_midnight by (auto simp: keyToUtcMs_def split: prod.splits)

lemma date_key_day: "date_key (Some (n * DAY_MS)) = day_key n"
  by (simp add: date_key_def day_key_def utc_civil_def)

lemma addDays_eq:
  assumes "is_plain_date s"
  shows "addDaysToKey s (JInt n) = Inr (if \<bar>(key_day s + n) * DAY_MS\<bar> \<le> 8640000000000000
    then day_key (key_day s + n) else ''0NaN-NaN-NaN'')"
proof -
  obtain y m d where k: "key_parts s = (y, m, d)" by (metis prod_cases3)
  have "key_day s * DAY_MS + n * DAY_MS = (key_day s + n) * DAY_MS" by (simp add: algebra_simps)
  then show ?thesis
    using assms key_utc_midnight [OF assms k] date_key_day [of "key_day s + n"]
    by (simp add: addDaysToKey_def k time_clip_def) (simp add: date_key_def)
qed

text \<open>A printed date is a calendar date only in the years 100 to 9999.\<close>

lemma day_key_plain_range:
  assumes "is_plain_date (day_key n)"
  shows "FIRST_DAY \<le> n \<and> n \<le> LAST_DAY"
proof -
  obtain y m d where c: "civil_of_day n = (y, m, d)" by (metis prod_cases3)
  note r = day_of_civil_of_day [OF c]
  have md: "0 \<le> m" "m \<le> 11" "1 \<le> d" "d \<le> 31"
    using r(1) month_len_pos [of m y] by (auto simp: real_civil_def)
  have k: "day_key n = pad y 4 @ CHR ''-'' # pad (m + 1) 2 @ CHR ''-'' # pad d 2"
    by (simp add: day_key_def c key_of_def)
  have re: "rx_match PLAIN_DATE_RE (day_key n)" using assms by (simp add: is_plain_date_iff)
  then obtain a b e where s: "day_key n = a @ CHR ''-'' # b @ CHR ''-'' # e"
    and l: "length a = 4" "length b = 2" "length e = 2" and dg: "\<forall>x \<in> set (a @ b @ e). is_digit x"
    by (auto simp: plain_date_re)
  have "length (day_key n) = 10" using s l by simp
  then have ly: "length (pad y 4) = 4" using k length_pad2 [of "m + 1"] length_pad2 [of d] md by simp
  then have "pad y 4 = a" using k s l by (metis append_eq_append_conv)
  then have y0: "0 \<le> y"
  proof -
    assume a: "pad y 4 = a"
    have "CHR ''-'' \<notin> set a" using dg digit_not_dash by auto
    then show "0 \<le> y" using a by (auto simp: pad_def pad_start_def str_of_int_def split: if_splits)
  qed
  have "y < 10000"
  proof (rule ccontr)
    assume "\<not> y < 10000"
    then have "10 ^ 4 \<le> nat y" by simp
    from length_nat_digits_ge [OF this] show False
      using ly y0 by (simp add: pad_def pad_start_def str_of_int_def)
  qed
  then have "plain_date_groups (day_key n) = (y, m + 1, d)"
    using key_of_re [of y "m + 1" d] y0 md by (simp add: day_key_def c)
  then have "100 \<le> y" using assms by (simp add: is_plain_date_iff)
  then show ?thesis
    using day_of_civil_bounds [OF r(1)] r(2) \<open>y < 10000\<close> day_from_year_mono [of 100 y]
      day_from_year_mono [of "y + 1" 10000] by simp
qed

lemma nan_not_plain: "\<not> is_plain_date ''0NaN-NaN-NaN''"
proof -
  have "\<not> rx_match PLAIN_DATE_RE ''0NaN-NaN-NaN''" by code_simp
  then show ?thesis by (simp add: is_plain_date_def)
qed

lemma plain_date_eq_iff: "is_plain_date a \<Longrightarrow> is_plain_date b \<Longrightarrow> a = b \<longleftrightarrow> key_day a = key_day b"
  using plain_date_key(2) by metis

lemma addDays_plain_iff:
  assumes "is_plain_date a" "is_plain_date b"
  shows "addDaysToKey a (JInt n) = Inr b \<longleftrightarrow> key_day b = key_day a + n"
proof -
  note A = plain_date_key [OF assms(1)] and B = plain_date_key [OF assms(2)]
  have r: "key_day b = key_day a + n \<Longrightarrow> \<bar>(key_day a + n) * DAY_MS\<bar> \<le> 8640000000000000"
    using B(3,4) unfolding first_last_day by simp
  have "day_key (key_day a + n) = b \<longleftrightarrow> key_day b = key_day a + n"
    using assms(2) B(2) day_key_plain_range [of "key_day a + n"] day_key_plain(2) [of "key_day a + n"]
    by auto
  then show ?thesis using assms nan_not_plain r by (auto simp: addDays_eq)
qed

lemma daysBetween_plain:
  assumes "is_plain_date a" "is_plain_date b"
  shows "daysBetweenKeys a b = Inr (Some (key_day b - key_day a))"
proof -
  have "math_round_div (key_day b * DAY_MS - key_day a * DAY_MS) DAY_MS = key_day b - key_day a"
    by (simp add: math_round_div_def)
  then show ?thesis using assms by (simp add: daysBetweenKeys_def keyToUtcMs_plain)
qed

section \<open>Zones and instants\<close>

text \<open>The text after the optional expanded year of an ISO date, \<open>-MM-DD\<close> and anything.\<close>

definition startsWithRealDay :: "string \<Rightarrow> bool" where
  "startsWithRealDay s =
     (let tail = [rx_char CHR ''-'', rx_rep 2 rx_digit, rx_char CHR ''-'', rx_rep 2 rx_digit, St (Cls (\<lambda>_. True))];
          short = rx_match (rx_seq (rx_rep 4 rx_digit # tail)) s;
          long = rx_match (rx_seq (Cls (\<lambda>c. c = CHR ''+'' \<or> c = CHR ''-'') # rx_rep 6 rx_digit # tail)) s in
      if \<not> short \<and> \<not> long then True
      else let w = (if long then 7 else 4);
               year = (if \<not> long then num_of (take 4 s)
                       else if hd s = CHR ''-'' then - num_of (take 6 (tl s)) else num_of (take 6 (tl s)));
               month = num_of (take 2 (drop (w + 1) s));
               day = num_of (take 2 (drop (w + 4) s)) in
        if month < 1 \<or> month > 12 \<or> day < 1 then False
        else case time_clip (day_of_civil year (month - 1) day * DAY_MS) of
          None \<Rightarrow> False
        | Some probe \<Rightarrow> utc_civil probe = (year, month - 1, day))"

definition INSTANT_RE :: rx where
  "INSTANT_RE = rx_seq
     [St (Cls (\<lambda>_. True)), Cls (\<lambda>c. c = CHR ''T'' \<or> c = CHR ''t''), rx_rep 2 rx_digit, rx_char CHR '':'', rx_rep 2 rx_digit,
      rx_opt (rx_seq [rx_char CHR '':'', rx_rep 2 rx_digit, rx_opt (Sq (rx_char CHR ''.'') (rx_plus rx_digit))]),
      Al (Cls (\<lambda>c. c = CHR ''Z'' \<or> c = CHR ''z''))
         (rx_seq [Cls (\<lambda>c. c = CHR ''+'' \<or> c = CHR ''-''), rx_rep 2 rx_digit,
            rx_opt (Sq (rx_opt (rx_char CHR '':'')) (rx_rep 2 rx_digit))])]"

definition WALL_TIME_RE :: rx where
  "WALL_TIME_RE = rx_seq
     [Al (Sq (Cls (\<lambda>c. c = CHR ''0'' \<or> c = CHR ''1'')) rx_digit)
         (Sq (rx_char CHR ''2'') (Cls (char_in CHR ''0'' CHR ''3''))),
      rx_char CHR '':'', Cls (char_in CHR ''0'' CHR ''5''), rx_digit,
      rx_opt (rx_seq [rx_char CHR '':'', Cls (char_in CHR ''0'' CHR ''5''), rx_digit])]"

text \<open>
  \<open>OFFSET_ZONE_RE\<close> also lists the minus sign U+2212, which is no code unit below 256.
\<close>

definition OFFSET_ZONE_RE :: rx where
  "OFFSET_ZONE_RE = rx_seq [Cls (\<lambda>c. c = CHR ''+'' \<or> c = CHR ''-''), rx_digit, St (Cls (\<lambda>_. True))]"

definition canonicalTimeZone :: "(string \<Rightarrow> string option) \<Rightarrow> string \<Rightarrow> string option" where
  "canonicalTimeZone canon tz =
     (let trimmed = trim tz in
      if trimmed = [] \<or> rx_match OFFSET_ZONE_RE trimmed then None else canon trimmed)"

definition isValidTimeZone :: "(string \<Rightarrow> string option) \<Rightarrow> string \<Rightarrow> bool" where
  "isValidTimeZone canon tz = (canonicalTimeZone canon tz \<noteq> None)"

definition DEFAULT_APP_TIME_ZONE :: string where
  "DEFAULT_APP_TIME_ZONE = ''Europe/Berlin''"

definition resolveAppTimeZone :: "(string \<Rightarrow> string option) \<Rightarrow> string option \<Rightarrow> date_error + string" where
  "resolveAppTimeZone canon raw =
     (case raw of
        None \<Rightarrow> Inr DEFAULT_APP_TIME_ZONE
      | Some r \<Rightarrow> (case canonicalTimeZone canon r of
            None \<Rightarrow> Inl (BadAppTimeZone r)
          | Some c \<Rightarrow> if c = [] then Inl (BadAppTimeZone r) else Inr c))"

datatype instant = IDate "int option" | IText string

definition instantEpochMs :: "(string \<Rightarrow> int option) \<Rightarrow> instant \<Rightarrow> int option" where
  "instantEpochMs dparse i =
     (case i of
        IDate d \<Rightarrow> d
      | IText s \<Rightarrow> (let trimmed = trim s in
          if \<not> rx_match INSTANT_RE trimmed \<or> \<not> startsWithRealDay trimmed then None
          else dparse trimmed))"

definition toEpochMs :: "(string \<Rightarrow> int option) \<Rightarrow> instant \<Rightarrow> date_error + int" where
  "toEpochMs dparse i =
     (case instantEpochMs dparse i of
        Some ms \<Rightarrow> Inr ms
      | None \<Rightarrow> (case i of IDate _ \<Rightarrow> Inl InvalidDate | IText s \<Rightarrow> Inl (NotAnInstant s)))"

record wall_clock =
  wc_year :: int
  wc_month :: int
  wc_day :: int
  wc_hour :: int
  wc_minute :: int
  wc_second :: int

type_synonym zone_format = "string \<Rightarrow> int \<Rightarrow> (string \<times> string) list"

text \<open>\<open>parts[part.type] = Number(part.value)\<close>: a later part of a type replaces an earlier one.\<close>

definition wall_part :: "(string \<times> string) list \<Rightarrow> string \<Rightarrow> int" where
  "wall_part ps k = (case map_of (rev ps) k of None \<Rightarrow> 0 | Some v \<Rightarrow> num_of v)"

definition wallClockAt :: "zone_format \<Rightarrow> int \<Rightarrow> string \<Rightarrow> wall_clock" where
  "wallClockAt fmt epochMs tz =
     (let parts = filter (\<lambda>(k, _). k \<noteq> ''literal'') (fmt tz epochMs);
          hour = wall_part parts ''hour'' in
      \<lparr>wc_year = wall_part parts ''year'', wc_month = wall_part parts ''month'',
       wc_day = wall_part parts ''day'', wc_hour = (if hour = 24 then 0 else hour),
       wc_minute = wall_part parts ''minute'', wc_second = wall_part parts ''second''\<rparr>)"

definition offsetMsAt :: "zone_format \<Rightarrow> int \<Rightarrow> string \<Rightarrow> int option" where
  "offsetMsAt fmt epochMs tz =
     (let wall = wallClockAt fmt epochMs tz in
      map_option (\<lambda>wallAsUtc. wallAsUtc - epochMs div 1000 * 1000)
        (date_utc (wc_year wall) (wc_month wall - 1) (wc_day wall)
           (wc_hour wall) (wc_minute wall) (wc_second wall)))"

definition zonedDateKey :: "(string \<Rightarrow> int option) \<Rightarrow> zone_format \<Rightarrow> instant \<Rightarrow> string \<Rightarrow> date_error + string" where
  "zonedDateKey dparse fmt i tz =
     (case toEpochMs dparse i of
        Inl e \<Rightarrow> Inl e
      | Inr ms \<Rightarrow> let wall = wallClockAt fmt ms tz in
          Inr (key_of (wc_year wall) (wc_month wall) (wc_day wall)))"

definition zonedTimeOfDay :: "(string \<Rightarrow> int option) \<Rightarrow> zone_format \<Rightarrow> instant \<Rightarrow> string \<Rightarrow> date_error + string" where
  "zonedTimeOfDay dparse fmt i tz =
     (case toEpochMs dparse i of
        Inl e \<Rightarrow> Inl e
      | Inr ms \<Rightarrow> let wall = wallClockAt fmt ms tz in
          Inr (pad (wc_hour wall) 2 @ '':'' @ pad (wc_minute wall) 2))"

definition zonedHour :: "(string \<Rightarrow> int option) \<Rightarrow> zone_format \<Rightarrow> instant \<Rightarrow> string \<Rightarrow> date_error + int" where
  "zonedHour dparse fmt i tz =
     (case toEpochMs dparse i of Inl e \<Rightarrow> Inl e | Inr ms \<Rightarrow> Inr (wc_hour (wallClockAt fmt ms tz)))"

datatype disambiguation = Compatible | Reject

text \<open>Hours, minutes and seconds of a match of \<open>WALL_TIME_RE\<close>; no third group reads as 0.\<close>

definition wall_time_groups :: "string \<Rightarrow> int \<times> int \<times> int" where
  "wall_time_groups t = (num_of (take 2 t), num_of (take 2 (drop 3 t)),
     if length t = 5 then 0 else num_of (drop 6 t))"

text \<open>
  The arithmetic on offsets runs in JavaScript numbers, where NaN spreads and no comparison with
  it holds; \<open>None\<close> is NaN. A NaN offset makes the resulting date invalid.
\<close>

definition zonedWallTimeToInstant ::
  "(string \<Rightarrow> string option) \<Rightarrow> zone_format \<Rightarrow> string \<Rightarrow> string \<Rightarrow> string \<Rightarrow> disambiguation
    \<Rightarrow> date_error + int option" where
  "zonedWallTimeToInstant canon fmt key time tz mode =
     (if \<not> is_plain_date key then Inl (NotACalendarDate key)
      else if \<not> rx_match WALL_TIME_RE time then Inl (NotAWallTime time)
      else if \<not> isValidTimeZone canon tz then Inl (UnknownTimeZone tz)
      else
        let (year, month, day) = key_parts key; (h, mi, s) = wall_time_groups time in
        case date_utc year (month - 1) day h mi s of
          None \<Rightarrow> Inr None
        | Some wallAsUtc \<Rightarrow>
            let offsetBefore = offsetMsAt fmt (wallAsUtc - DAY_MS) tz;
                offsetAfter = offsetMsAt fmt (wallAsUtc + DAY_MS) tz;
                tried = remdups (List.map_filter (map_option (\<lambda>off. wallAsUtc - off)) [offsetBefore, offsetAfter]);
                candidates = filter (\<lambda>c. map_option (\<lambda>off. c + off) (offsetMsAt fmt c tz) = Some wallAsUtc) tried in
            if mode = Reject \<and> length candidates \<noteq> 1 then
              Inl (if length candidates > 1 then WallTimeRepeated key time tz else WallTimeSkipped key time tz)
            else if candidates \<noteq> [] then Inr (Some (Min (set candidates)))
            else Inr (map_option (\<lambda>off. wallAsUtc - off) offsetBefore))"

definition zonedDayStart ::
  "(string \<Rightarrow> string option) \<Rightarrow> zone_format \<Rightarrow> string \<Rightarrow> string \<Rightarrow> date_error + int option" where
  "zonedDayStart canon fmt key tz = zonedWallTimeToInstant canon fmt key ''00:00'' tz Compatible"

section \<open>Facts on zones\<close>

text \<open>
  The documented behaviour of the formatter in a zone whose offset (in ms, whole seconds) at the
  instant \<open>t\<close> is \<open>off t\<close>: its parts are the calendar and clock of the shifted instant. Midnight
  may print as 24.
\<close>

definition wall_ms :: "(int \<Rightarrow> int) \<Rightarrow> int \<Rightarrow> int" where
  "wall_ms off t = t div 1000 * 1000 + off t"

definition honest_zone :: "zone_format \<Rightarrow> string \<Rightarrow> (int \<Rightarrow> int) \<Rightarrow> bool" where
  "honest_zone fmt tz off = (\<forall>t. off t mod 1000 = 0 \<and> \<bar>off t\<bar> < DAY_MS \<and>
     (let w = wall_ms off t; tod = w mod DAY_MS; ps = fmt tz t in
      1 \<le> year_of_day (w div DAY_MS) \<and> year_of_day (w div DAY_MS) \<le> 9999 \<longrightarrow>
      (wall_part ps ''year'', wall_part ps ''month'' - 1, wall_part ps ''day'') = utc_civil w \<and>
      wall_part ps ''hour'' \<in> (if tod div 3600000 = 0 then {0, 24} else {tod div 3600000}) \<and>
      wall_part ps ''minute'' = tod div 60000 mod 60 \<and>
      wall_part ps ''second'' = tod div 1000 mod 60))"

lemma honest_offset: "honest_zone fmt tz off \<Longrightarrow> \<bar>off t\<bar> < DAY_MS"
  and honest_seconds: "honest_zone fmt tz off \<Longrightarrow> off t mod 1000 = 0"
  unfolding honest_zone_def by blast+

lemma wall_part_filter:
  "k \<noteq> ''literal'' \<Longrightarrow> wall_part (filter (\<lambda>(k, _). k \<noteq> ''literal'') ps) k = wall_part ps k"
proof -
  assume k: "k \<noteq> ''literal''"
  have "map_of (filter (\<lambda>(k, _). k \<noteq> ''literal'') qs) k = map_of qs k" for qs :: "(string \<times> string) list"
    using k by (induction qs) auto
  then show ?thesis by (simp only: wall_part_def rev_filter)
qed

lemma time_of_day_split:
  assumes "(0::int) \<le> tod" "tod < DAY_MS" "tod mod 1000 = 0"
  shows "tod div 3600000 * 3600000 + tod div 60000 mod 60 * 60000 + tod div 1000 mod 60 * 1000 = tod"
    "0 \<le> tod div 3600000" "tod div 3600000 < 24"
proof -
  define a b where "a = tod div 1000" and "b = a div 60"
  have "tod = a * 1000" using assms(3) by (auto simp: a_def)
  have 1: "tod div 60000 = b" by (simp add: a_def b_def div_mult2_eq [symmetric] zdiv_zmult2_eq [symmetric])
  have 2: "tod div 3600000 = b div 60" by (simp add: 1 [symmetric] zdiv_zmult2_eq [symmetric])
  have "q * 3600000 + r * 60000 + u * 1000 = a * 1000" if "b = q * 60 + r" "a = b * 60 + u" for q r u
    using that by simp
  from this [of "b div 60" "b mod 60" "a mod 60"]
  show "tod div 3600000 * 3600000 + tod div 60000 mod 60 * 60000 + tod div 1000 mod 60 * 1000 = tod"
    unfolding 1 2 a_def [symmetric] using \<open>tod = a * 1000\<close> by (simp add: b_def)
  show "0 \<le> tod div 3600000" "tod div 3600000 < 24" using assms by simp_all
qed

lemma wall_clock_sel:
  "wc_year (wallClockAt fmt t tz) = wall_part (fmt tz t) ''year''"
  "wc_month (wallClockAt fmt t tz) = wall_part (fmt tz t) ''month''"
  "wc_day (wallClockAt fmt t tz) = wall_part (fmt tz t) ''day''"
  "wc_hour (wallClockAt fmt t tz) =
     (if wall_part (fmt tz t) ''hour'' = 24 then 0 else wall_part (fmt tz t) ''hour'')"
  "wc_minute (wallClockAt fmt t tz) = wall_part (fmt tz t) ''minute''"
  "wc_second (wallClockAt fmt t tz) = wall_part (fmt tz t) ''second''"
  by (simp_all add: wallClockAt_def Let_def wall_part_filter)

lemma wall_clock_honest:
  assumes "honest_zone fmt tz off" "1 \<le> year_of_day (wall_ms off t div DAY_MS)"
    "year_of_day (wall_ms off t div DAY_MS) \<le> 9999"
  shows "(wc_year (wallClockAt fmt t tz), wc_month (wallClockAt fmt t tz) - 1, wc_day (wallClockAt fmt t tz))
      = utc_civil (wall_ms off t)"
    "wc_hour (wallClockAt fmt t tz) = wall_ms off t mod DAY_MS div 3600000"
    "wc_minute (wallClockAt fmt t tz) = wall_ms off t mod DAY_MS div 60000 mod 60"
    "wc_second (wallClockAt fmt t tz) = wall_ms off t mod DAY_MS div 1000 mod 60"
proof -
  let ?w = "wall_ms off t" and ?ps = "fmt tz t"
  have lt: "?w mod DAY_MS div 3600000 < 24" by simp
  from assms have h: "(wall_part ?ps ''year'', wall_part ?ps ''month'' - 1, wall_part ?ps ''day'') = utc_civil ?w"
    "wall_part ?ps ''hour'' \<in> (if ?w mod DAY_MS div 3600000 = 0 then {0, 24} else {?w mod DAY_MS div 3600000})"
    "wall_part ?ps ''minute'' = ?w mod DAY_MS div 60000 mod 60"
    "wall_part ?ps ''second'' = ?w mod DAY_MS div 1000 mod 60"
    by (simp_all add: honest_zone_def Let_def)
  show "(wc_year (wallClockAt fmt t tz), wc_month (wallClockAt fmt t tz) - 1, wc_day (wallClockAt fmt t tz))
      = utc_civil ?w"
    "wc_minute (wallClockAt fmt t tz) = ?w mod DAY_MS div 60000 mod 60"
    "wc_second (wallClockAt fmt t tz) = ?w mod DAY_MS div 1000 mod 60"
    by (simp_all only: wall_clock_sel h)
  show "wc_hour (wallClockAt fmt t tz) = ?w mod DAY_MS div 3600000"
  proof (cases "?w mod DAY_MS div 3600000 = 0")
    case True
    then show ?thesis using h(2) by (simp only: wall_clock_sel if_True) force
  next
    case False
    then show ?thesis using h(2) lt by (simp only: wall_clock_sel if_False singleton_iff) (metis less_irrefl)
  qed
qed

lemma wall_ms_seconds: "honest_zone fmt tz off \<Longrightarrow> wall_ms off t mod 1000 = 0"
  by (simp add: honest_zone_def wall_ms_def)

lemma mod_day_seconds: "(w::int) mod 1000 = 0 \<Longrightarrow> w mod DAY_MS mod 1000 = 0"
  by (simp add: mod_mod_cancel)

lemma offset_honest:
  assumes "honest_zone fmt tz off" "100 \<le> year_of_day (wall_ms off t div DAY_MS)"
    "year_of_day (wall_ms off t div DAY_MS) \<le> 9999"
  shows "offsetMsAt fmt t tz = Some (off t)"
proof -
  let ?w = "wall_ms off t"
  obtain y m d where c: "utc_civil ?w = (y, m, d)" by (metis prod_cases3)
  then have cd: "civil_of_day (?w div DAY_MS) = (y, m, d)" by (simp add: utc_civil_def)
  note r = day_of_civil_of_day [OF cd]
  have y: "100 \<le> y" "y \<le> 9999" using assms(2,3) civil_of_day_year [OF cd] by simp_all
  have "1 \<le> year_of_day (?w div DAY_MS)" using assms(2) by simp
  note W = wall_clock_honest [OF assms(1) this assms(3)]
  have wy: "wc_year (wallClockAt fmt t tz) = y" "wc_month (wallClockAt fmt t tz) - 1 = m"
    "wc_day (wallClockAt fmt t tz) = d"
    using W(1) by (simp_all add: c)
  have tod: "0 \<le> ?w mod DAY_MS" "?w mod DAY_MS < DAY_MS" by simp_all
  have "?w mod DAY_MS mod 1000 = 0" using wall_ms_seconds [OF assms(1)] by (rule mod_day_seconds)
  note split = time_of_day_split(1) [OF tod this]
  have b: "0 \<le> m" "m \<le> 11" "0 \<le> d" "d < 100"
    using r(1) month_len_pos [of m y] by (auto simp: real_civil_def)
  have "time_clip (?w div DAY_MS * DAY_MS + ?w mod DAY_MS) = Some ?w"
    using time_clip_days [of "?w div DAY_MS" "?w mod DAY_MS"] days_range [of y m d] b y tod r(2) by simp
  then have "date_utc y m d (?w mod DAY_MS div 3600000) (?w mod DAY_MS div 60000 mod 60)
      (?w mod DAY_MS div 1000 mod 60) = Some ?w"
    using y r(2) split by (simp add: date_utc_def add.assoc)
  then show ?thesis
    by (simp add: offsetMsAt_def Let_def wy W(2-4) wall_ms_def)
qed

lemma year_of_day_range:
  assumes "FIRST_DAY \<le> n" "n \<le> LAST_DAY"
  shows "100 \<le> year_of_day n" "year_of_day n \<le> 9999"
proof -
  have e: "year_of_day FIRST_DAY = 100" "year_of_day LAST_DAY = 9999"
    by (rule year_of_day_unique; simp add: day_from_year_def)+
  show "100 \<le> year_of_day n" using year_of_day_mono [OF assms(1)] unfolding e .
  show "year_of_day n \<le> 9999" using year_of_day_mono [OF assms(2)] unfolding e .
qed

lemma wall_time_groups_range:
  assumes "rx_match WALL_TIME_RE t" "wall_time_groups t = (h, mi, s)"
  shows "0 \<le> h \<and> h < 24 \<and> 0 \<le> mi \<and> mi < 60 \<and> 0 \<le> s \<and> s < 60"
proof -
  have ten: "0 \<le> digit_val c \<and> digit_val c \<le> 9 \<and> is_digit c" if "is_digit c" for c
    using digit_val_range [OF that] that by simp
  have six: "0 \<le> digit_val c \<and> digit_val c \<le> 5" if "char_in CHR ''0'' CHR ''5'' c" for c
    using that of_nat_of_char [of c, where 'a=int] by (simp add: char_in_def digit_val_def)
  have four: "0 \<le> digit_val c \<and> digit_val c \<le> 3" if "char_in CHR ''0'' CHR ''3'' c" for c
    using that of_nat_of_char [of c, where 'a=int] by (simp add: char_in_def digit_val_def)
  have d: "digit_val CHR ''0'' = 0" "digit_val CHR ''1'' = 1" "digit_val CHR ''2'' = 2"
    by (simp_all add: digit_val_def)
  obtain a b m n r where t: "t = a # b # CHR '':'' # m # n # r"
    and ab: "(a = CHR ''0'' \<or> a = CHR ''1'') \<and> is_digit b \<or> a = CHR ''2'' \<and> char_in CHR ''0'' CHR ''3'' b"
    and mn: "char_in CHR ''0'' CHR ''5'' m" "is_digit n"
    and r: "r = [] \<or> (\<exists>x y. r = [CHR '':'', x, y] \<and> char_in CHR ''0'' CHR ''5'' x \<and> is_digit y)"
    using assms(1) unfolding rx_match_lang WALL_TIME_RE_def
    by (auto simp: rx_lang_Sq rx_opt_def)
  have e: "h = 10 * digit_val a + digit_val b" "mi = 10 * digit_val m + digit_val n"
    using assms(2) by (auto simp: t wall_time_groups_def num_of_def)
  have "0 \<le> h \<and> h < 24" unfolding e using ab ten four d by fastforce
  moreover have "0 \<le> mi \<and> mi < 60" unfolding e using six [OF mn(1)] ten [OF mn(2)] by linarith
  moreover have "0 \<le> s \<and> s < 60"
    using r
  proof
    assume "r = []"
    then show ?thesis using assms(2) by (auto simp: t wall_time_groups_def)
  next
    assume "\<exists>x y. r = [CHR '':'', x, y] \<and> char_in CHR ''0'' CHR ''5'' x \<and> is_digit y"
    then obtain x y where x: "r = [CHR '':'', x, y]" "char_in CHR ''0'' CHR ''5'' x" "is_digit y" by blast
    then have "s = 10 * digit_val x + digit_val y"
      using assms(2) by (auto simp: t wall_time_groups_def num_of_def)
    then show ?thesis using six [OF x(2)] ten [OF x(3)] by linarith
  qed
  ultimately show ?thesis by simp
qed

text \<open>The wall time a key and a time of day name, in ms as if the zone were UTC.\<close>

definition named_wall :: "string \<Rightarrow> string \<Rightarrow> int" where
  "named_wall key time = (let (h, mi, s) = wall_time_groups time in
     key_day key * DAY_MS + h * 3600000 + mi * 60000 + s * 1000)"

text \<open>The zone changes its offset at most once within a day of \<open>w\<close>.\<close>

definition one_change :: "(int \<Rightarrow> int) \<Rightarrow> int \<Rightarrow> bool" where
  "one_change off w = (\<exists>c. \<forall>t. w - DAY_MS \<le> t \<and> t \<le> w + DAY_MS \<longrightarrow>
     off t = (if t < c then off (w - DAY_MS) else off (w + DAY_MS)))"

text \<open>The instants at which the wall clock shows \<open>w\<close> to the second.\<close>

definition showing :: "(int \<Rightarrow> int) \<Rightarrow> int \<Rightarrow> int set" where
  "showing off w = {t. t + off t = w}"

lemma named_wall_day:
  assumes "rx_match WALL_TIME_RE time"
  shows "named_wall key time div DAY_MS = key_day key" "named_wall key time mod 1000 = 0"
    "named_wall key time div 1000 * 1000 = named_wall key time"
proof -
  obtain h mi s where g: "wall_time_groups time = (h, mi, s)" by (metis prod_cases3)
  note r = wall_time_groups_range [OF assms g]
  define u where "u = h * 3600 + mi * 60 + s"
  have w: "named_wall key time = key_day key * DAY_MS + u * 1000"
    by (simp add: named_wall_def g u_def)
  have u: "0 \<le> u" "u * 1000 < DAY_MS" using r by (simp_all add: u_def)
  show "named_wall key time div DAY_MS = key_day key"
    unfolding w using u by (intro int_div_pos_eq [of _ _ _ "u * 1000"]) simp_all
  have "named_wall key time = (key_day key * 86400 + u) * 1000" unfolding w by simp
  then show "named_wall key time mod 1000 = 0" "named_wall key time div 1000 * 1000 = named_wall key time"
    by simp_all
qed

lemma offset_near:
  assumes z: "honest_zone fmt tz off" and k: "FIRST_DAY + 2 \<le> key_day key" "key_day key \<le> LAST_DAY - 2"
    and re: "rx_match WALL_TIME_RE time" and w: "w = named_wall key time"
    and t: "w - DAY_MS \<le> t" "t \<le> w + DAY_MS"
  shows "offsetMsAt fmt t tz = Some (off t)"
    "wall_ms off t mod 1000 = 0"
proof -
  have o: "- DAY_MS < off t" "off t < DAY_MS" using honest_offset [OF z, of t] by linarith+
  have w1: "w = w div 1000 * 1000" using named_wall_day(3) [OF re, of key] w by simp
  define v where "v = w div 1000"
  have wv: "w = v * 1000" using w1 by (simp add: v_def)
  have "v * 1000 - DAY_MS \<le> t" "t \<le> v * 1000 + DAY_MS" using t unfolding wv by simp_all
  moreover have "v * 1000 - DAY_MS = (v - 86400) * 1000" "v * 1000 + DAY_MS = (v + 86400) * 1000" by simp_all
  ultimately have "(v - 86400) * 1000 \<le> t" "t \<le> (v + 86400) * 1000" by (simp_all only:)
  from zdiv_mono1 [OF this(1), of 1000] zdiv_mono1 [OF this(2), of 1000]
  have "v - 86400 \<le> t div 1000" "t div 1000 \<le> v + 86400" by simp_all
  then have ms: "w - 2 * DAY_MS \<le> wall_ms off t" "wall_ms off t \<le> w + 2 * DAY_MS"
    using o unfolding wall_ms_def wv by (linarith, linarith)
  have d: "(w + n * DAY_MS) div DAY_MS = key_day key + n" for n
    using named_wall_day(1) [OF re, of key] by (simp add: w)
  have "key_day key - 2 \<le> wall_ms off t div DAY_MS" "wall_ms off t div DAY_MS \<le> key_day key + 2"
    using zdiv_mono1 [OF ms(1), of DAY_MS] zdiv_mono1 [OF ms(2), of DAY_MS] d [of "- 2"] d [of 2] by simp_all
  then have "FIRST_DAY \<le> wall_ms off t div DAY_MS" "wall_ms off t div DAY_MS \<le> LAST_DAY"
    using k by linarith+
  from offset_honest [OF z year_of_day_range [OF this]]
  show "offsetMsAt fmt t tz = Some (off t)" .
  show "wall_ms off t mod 1000 = 0" by (rule wall_ms_seconds [OF z])
qed

lemma showing_two:
  assumes z: "honest_zone fmt tz off" and c: "one_change off w"
  shows "showing off w = {t \<in> {w - off (w - DAY_MS), w - off (w + DAY_MS)}. t + off t = w}"
proof
  show "showing off w \<subseteq> {t \<in> {w - off (w - DAY_MS), w - off (w + DAY_MS)}. t + off t = w}"
  proof
    fix t assume "t \<in> showing off w"
    then have t: "t + off t = w" by (simp add: showing_def)
    have "\<bar>off t\<bar> < DAY_MS" by (rule honest_offset [OF z])
    then have "w - DAY_MS \<le> t \<and> t \<le> w + DAY_MS" using t by linarith
    then have "off t = off (w - DAY_MS) \<or> off t = off (w + DAY_MS)"
      using c unfolding one_change_def by metis
    then show "t \<in> {t \<in> {w - off (w - DAY_MS), w - off (w + DAY_MS)}. t + off t = w}"
      using t by auto
  qed
qed (auto simp: showing_def)

lemma zoned_wall_time_eq:
  assumes p: "is_plain_date key" and k: "FIRST_DAY + 2 \<le> key_day key" "key_day key \<le> LAST_DAY - 2"
    and re: "rx_match WALL_TIME_RE time" and v: "isValidTimeZone canon tz"
    and z: "honest_zone fmt tz off" and c: "one_change off (named_wall key time)"
  shows "zonedWallTimeToInstant canon fmt key time tz mode =
    (let w = named_wall key time; S = showing off w in
     if mode = Reject \<and> card S \<noteq> 1 then
       Inl (if card S > 1 then WallTimeRepeated key time tz else WallTimeSkipped key time tz)
     else if S \<noteq> {} then Inr (Some (Min S))
     else Inr (Some (w - off (w - DAY_MS))))"
proof -
  define w where "w = named_wall key time"
  obtain y m d where kp: "key_parts key = (y, m, d)" by (metis prod_cases3)
  obtain h mi s where g: "wall_time_groups time = (h, mi, s)" by (metis prod_cases3)
  note r = wall_time_groups_range [OF re g]
  have "date_utc y (m - 1) d h mi s = time_clip (key_day key * DAY_MS + (h * 3600000 + mi * 60000 + s * 1000))"
    using key_utc [OF p kp] by (simp add: add.assoc)
  also have "\<dots> = Some (key_day key * DAY_MS + (h * 3600000 + mi * 60000 + s * 1000))"
    using r k by (intro time_clip_days) (simp_all add: first_last_day)
  finally have u: "date_utc y (m - 1) d h mi s = Some w"
    by (simp add: w_def named_wall_def g add.assoc)
  note near = offset_near(1) [OF z k re w_def]
  have b: "offsetMsAt fmt (w - DAY_MS) tz = Some (off (w - DAY_MS))"
    "offsetMsAt fmt (w + DAY_MS) tz = Some (off (w + DAY_MS))"
    by (rule near; simp)+
  let ?ob = "off (w - DAY_MS)" and ?oa = "off (w + DAY_MS)"
  have ob: "\<bar>off t\<bar> < DAY_MS" for t by (rule honest_offset [OF z])
  define tried where "tried = remdups [w - ?ob, w - ?oa]"
  define cs where "cs = filter (\<lambda>c. map_option (\<lambda>off. c + off) (offsetMsAt fmt c tz) = Some w) tried"
  have st: "set tried = {w - ?ob, w - ?oa}" by (simp add: tried_def)
  have "offsetMsAt fmt c tz = Some (off c)" if "c \<in> set tried" for c
    using that ob [of "w - DAY_MS"] ob [of "w + DAY_MS"] by (intro near) (auto simp: st)
  then have "set cs = showing off w"
    unfolding cs_def showing_two [OF z c [folded w_def]] by (auto simp: st)
  moreover have "distinct cs" by (simp add: cs_def tried_def)
  ultimately have l: "length cs = card (showing off w)" by (metis distinct_card)
  have ne: "cs \<noteq> [] \<longleftrightarrow> showing off w \<noteq> {}" using \<open>set cs = showing off w\<close> by auto
  have mf: "List.map_filter (map_option (\<lambda>off. w - off)) [Some ?ob, Some ?oa] = [w - ?ob, w - ?oa]"
    by (simp add: List.map_filter_simps)
  have "zonedWallTimeToInstant canon fmt key time tz mode =
    (if mode = Reject \<and> length cs \<noteq> 1 then
       Inl (if length cs > 1 then WallTimeRepeated key time tz else WallTimeSkipped key time tz)
     else if cs \<noteq> [] then Inr (Some (Min (set cs)))
     else Inr (Some (w - ?ob)))"
    unfolding zonedWallTimeToInstant_def
    by (simp only: p re v kp g u b Let_def prod.case option.case mf tried_def [symmetric] cs_def [symmetric]
        option.map not_True_eq_False if_False)
  then show ?thesis
    unfolding l ne \<open>set cs = showing off w\<close> w_def [symmetric] Let_def by simp
qed

lemma zoned_wall_time_gap:
  assumes z: "honest_zone fmt tz off" and c: "one_change off w" and e: "showing off w = {}"
  shows "let t = w - off (w - DAY_MS); gap = off (w + DAY_MS) - off (w - DAY_MS) in
    0 < gap \<and> t + off t = w + gap"
proof -
  let ?ob = "off (w - DAY_MS)" and ?oa = "off (w + DAY_MS)"
  obtain x where x: "\<And>t. w - DAY_MS \<le> t \<Longrightarrow> t \<le> w + DAY_MS \<Longrightarrow> off t = (if t < x then ?ob else ?oa)"
    using c by (auto simp: one_change_def)
  have ob: "\<bar>off t\<bar> < DAY_MS" for t by (rule honest_offset [OF z])
  have none: "t + off t \<noteq> w" for t using e by (auto simp: showing_def)
  have 1: "off (w - ?ob) = (if w - ?ob < x then ?ob else ?oa)"
    using ob [of "w - DAY_MS"] by (intro x) auto
  have 2: "off (w - ?oa) = (if w - ?oa < x then ?ob else ?oa)"
    using ob [of "w + DAY_MS"] by (intro x) auto
  have "\<not> w - ?ob < x" "w - ?oa < x"
    using none [of "w - ?ob"] none [of "w - ?oa"] 1 2 by (auto split: if_splits)
  then show ?thesis using 1 by (simp add: Let_def)
qed

lemma zoned_reads_back:
  assumes p: "is_plain_date key" and k: "FIRST_DAY + 2 \<le> key_day key" "key_day key \<le> LAST_DAY - 2"
    and re: "rx_match WALL_TIME_RE time" and z: "honest_zone fmt tz off"
    and t: "t \<in> showing off (named_wall key time)"
  shows "zonedDateKey dparse fmt (IDate (Some t)) tz = Inr key"
    "zonedTimeOfDay dparse fmt (IDate (Some t)) tz = Inr (take 5 time)"
proof -
  define w where "w = named_wall key time"
  obtain h mi s where g: "wall_time_groups time = (h, mi, s)" by (metis prod_cases3)
  note r = wall_time_groups_range [OF re g]
  have tw: "t = w - off t" using t by (simp add: showing_def w_def)
  have "1000 dvd w" "1000 dvd off t"
    using named_wall_day(2) [OF re] honest_seconds [OF z] by (simp_all add: w_def dvd_eq_mod_eq_0)
  then have "1000 dvd w - off t" by (rule dvd_diff)
  then have "t mod 1000 = 0" using tw by (simp add: dvd_eq_mod_eq_0)
  then have "t div 1000 * 1000 = t" by (metis add.right_neutral div_mult_mod_eq)
  then have ms: "wall_ms off t = w" using tw unfolding wall_ms_def by linarith
  have "FIRST_DAY \<le> key_day key" "key_day key \<le> LAST_DAY" using k by simp_all
  note yr = year_of_day_range [OF this]
  have wd: "wall_ms off t div DAY_MS = key_day key" unfolding ms w_def by (rule named_wall_day(1) [OF re])
  have "1 \<le> year_of_day (wall_ms off t div DAY_MS)" "year_of_day (wall_ms off t div DAY_MS) \<le> 9999"
    using yr unfolding wd by linarith+
  note W = wall_clock_honest [OF z this]
  obtain y m d where c: "civil_of_day (key_day key) = (y, m, d)" by (metis prod_cases3)
  have "(wc_year (wallClockAt fmt t tz), wc_month (wallClockAt fmt t tz) - 1, wc_day (wallClockAt fmt t tz)) = (y, m, d)"
    using W(1) by (simp add: utc_civil_def wd c)
  then have "wc_year (wallClockAt fmt t tz) = y" "wc_month (wallClockAt fmt t tz) = m + 1"
    "wc_day (wallClockAt fmt t tz) = d" by auto
  then show "zonedDateKey dparse fmt (IDate (Some t)) tz = Inr key"
    using plain_date_key(2) [OF p]
    by (simp add: zonedDateKey_def toEpochMs_def instantEpochMs_def Let_def day_key_def c)
  have we: "w mod DAY_MS = h * 3600000 + mi * 60000 + s * 1000"
    using r by (simp add: w_def named_wall_def g add.assoc)
  have "w mod DAY_MS div 3600000 = h"
    unfolding we using r by (intro int_div_pos_eq [of _ _ _ "mi * 60000 + s * 1000"]) simp_all
  moreover have "w mod DAY_MS div 60000 = h * 60 + mi"
    unfolding we using r by (intro int_div_pos_eq [of _ _ _ "s * 1000"]) simp_all
  moreover have "(h * 60 + mi) mod 60 = mi" using r by simp
  ultimately have "wc_hour (wallClockAt fmt t tz) = h" "wc_minute (wallClockAt fmt t tz) = mi"
    using W(2,3) unfolding ms by metis+
  moreover have "pad h 2 @ '':'' @ pad mi 2 = take 5 time"
  proof -
    obtain a b e f q where "time = a # b # CHR '':'' # e # f # q" "\<forall>c \<in> set [a, b]. is_digit c" "\<forall>c \<in> set [e, f]. is_digit c"
      using re unfolding rx_match_lang WALL_TIME_RE_def
      by (auto simp: rx_lang_Sq rx_opt_def is_digit_def char_in_def)
    then show ?thesis
      using g pad_num_of [of "[a, b]" 1] pad_num_of [of "[e, f]" 1]
      by (auto simp: wall_time_groups_def numeral_eq_Suc)
  qed
  ultimately show "zonedTimeOfDay dparse fmt (IDate (Some t)) tz = Inr (take 5 time)"
    by (simp add: zonedTimeOfDay_def toEpochMs_def instantEpochMs_def Let_def)
qed

lemma add_months_eq:
  assumes p: "is_plain_date key" and kp: "key_parts key = (y, m, d)"
    and q: "q = 12 * y + (m - 1) + n" and r: "100 \<le> q div 12" "q div 12 \<le> 9999"
  shows "addMonthsToKey key (JInt n) =
      Inr (key_of (q div 12) (q mod 12 + 1) (min d (month_len (q div 12) (q mod 12))))"
    "real_civil (q div 12) (q mod 12) (min d (month_len (q div 12) (q mod 12)))"
proof -
  define ty tm where "ty = q div 12" and "tm = q mod 12"
  have tm: "0 \<le> tm" "tm \<le> 11" by (simp_all add: tm_def)
  have y: "100 \<le> y" "1 \<le> d"
    using p kp plain_date_key(1) [OF p] by (auto simp: is_plain_date_iff real_civil_def)
  have e: "q = (m - 1 + n) + 12 * y" using q by simp
  have "y + (m - 1 + n) div 12 = ty" "(m - 1 + n) mod 12 = tm"
    unfolding ty_def tm_def e by simp_all
  then have dc: "day_of_civil y (m - 1 + n) 1 = day_of_civil ty tm 1"
    by (subst day_of_civil_norm) simp
  have ml: "28 \<le> month_len ty tm" "month_len ty tm \<le> 31" using month_len_pos [OF tm] by simp_all
  have rc: "real_civil ty tm 1" "real_civil ty tm (month_len ty tm)"
    using tm ml by (simp_all add: real_civil_def)
  have ty: "100 \<le> ty" "ty \<le> 9999" using r by (simp_all add: ty_def)
  have 1: "date_utc y (m - 1 + n) 1 0 0 0 = Some (day_of_civil ty tm 1 * DAY_MS)"
    using time_clip_days [of "day_of_civil ty tm 1" 0] days_range [of ty tm 1] tm ty y
    by (simp add: date_utc_def dc)
  have "day_of_civil ty (tm + 1) 0 = day_of_civil ty (tm + 1) 1 - 1"
    using day_of_civil_day [of ty "tm + 1" 1 "- 1"] by simp
  also have "\<dots> = day_of_civil ty tm (month_len ty tm)"
    using day_of_civil_next [OF rc(1)] day_of_civil_day [of ty tm 1 "month_len ty tm - 1"] by simp
  finally have "day_of_civil ty (tm + 1) 0 = day_of_civil ty tm (month_len ty tm)" .
  then have 2: "date_utc ty (tm + 1) 0 0 0 0 = Some (day_of_civil ty tm (month_len ty tm) * DAY_MS)"
    using time_clip_days [of "day_of_civil ty tm (month_len ty tm)" 0]
      days_range [of ty tm "month_len ty tm"] tm ty ml
    by (simp add: date_utc_def)
  have c: "utc_civil (day_of_civil ty tm 1 * DAY_MS) = (ty, tm, 1)"
    "utc_civil (day_of_civil ty tm (month_len ty tm) * DAY_MS) = (ty, tm, month_len ty tm)"
    using civil_of_day_of_civil [OF rc(1)] civil_of_day_of_civil [OF rc(2)] by (simp_all add: utc_civil_def)
  show "addMonthsToKey key (JInt n) =
      Inr (key_of (q div 12) (q mod 12 + 1) (min d (month_len (q div 12) (q mod 12))))"
    unfolding ty_def [symmetric] tm_def [symmetric]
    using p by (simp add: addMonthsToKey_def kp 1 2 c)
  show "real_civil (q div 12) (q mod 12) (min d (month_len (q div 12) (q mod 12)))"
    unfolding ty_def [symmetric] tm_def [symmetric] using tm ml y by (simp add: real_civil_def)
qed

section \<open>A zone with summer time\<close>

text \<open>Central European time around the spring change of 2026, for the witnesses.\<close>

definition cet_offset :: "int \<Rightarrow> int" where
  "cet_offset t = (if t < 1774746000000 then 3600000 else 7200000)"

definition civil_format :: "(int \<Rightarrow> int) \<Rightarrow> zone_format" where
  "civil_format off tz t =
     (let w = wall_ms off t; tod = w mod DAY_MS; (y, m, d) = utc_civil w in
      [(''month'', pad (m + 1) 2), (''literal'', ''/''), (''day'', pad d 2), (''literal'', ''/''),
       (''year'', pad y 1), (''literal'', '', ''), (''hour'', pad (tod div 3600000) 2), (''literal'', '':''),
       (''minute'', pad (tod div 60000 mod 60) 2), (''literal'', '':''), (''second'', pad (tod div 1000 mod 60) 2)])"

lemma civil_format_honest:
  assumes "\<And>t. off t mod 1000 = 0" "\<And>t. \<bar>off t\<bar> < DAY_MS"
  shows "honest_zone (civil_format off) tz off"
  unfolding honest_zone_def
proof (intro allI conjI)
  fix t
  show "off t mod 1000 = 0" "\<bar>off t\<bar> < DAY_MS" by (rule assms)+
  define w where "w = wall_ms off t"
  obtain y m d where c: "utc_civil w = (y, m, d)" by (metis prod_cases3)
  then have cd: "civil_of_day (w div DAY_MS) = (y, m, d)" by (simp add: utc_civil_def)
  have r: "0 \<le> m" "1 \<le> d" using day_of_civil_of_day(1) [OF cd] by (simp_all add: real_civil_def)
  have y: "year_of_day (w div DAY_MS) = y" by (rule civil_of_day_year [OF cd])
  have b: "0 \<le> w mod DAY_MS div 3600000" "0 \<le> w mod DAY_MS div 60000 mod 60"
    "0 \<le> w mod DAY_MS div 1000 mod 60"
    by simp_all
  show "let w = wall_ms off t; tod = w mod DAY_MS; ps = civil_format off tz t in
      1 \<le> year_of_day (w div DAY_MS) \<and> year_of_day (w div DAY_MS) \<le> 9999 \<longrightarrow>
      (wall_part ps ''year'', wall_part ps ''month'' - 1, wall_part ps ''day'') = utc_civil w \<and>
      wall_part ps ''hour'' \<in> (if tod div 3600000 = 0 then {0, 24} else {tod div 3600000}) \<and>
      wall_part ps ''minute'' = tod div 60000 mod 60 \<and>
      wall_part ps ''second'' = tod div 1000 mod 60"
    unfolding Let_def w_def [symmetric] civil_format_def c y prod.case wall_part_def
    using r num_of_pad' [OF b(1), of 2] num_of_pad' [OF b(2), of 2] num_of_pad' [OF b(3), of 2]
    by simp
qed

lemma cet_honest: "honest_zone (civil_format cet_offset) tz cet_offset"
  by (rule civil_format_honest) (simp_all add: cet_offset_def)

lemma cet_one_change: "one_change cet_offset w"
  unfolding one_change_def cet_offset_def
  by (rule exI [of _ 1774746000000]) auto

section \<open>Properties\<close>

text \<open>C7: A string is a calendar date (\<open>isPlainDate\<close>) exactly when it is the printed form of a day
  of the proleptic Gregorian calendar between 0100-01-01 and 9999-12-31; printing and reading are
  inverse.\<close>

theorem plain_date_days:
  "is_plain_date s \<longleftrightarrow> (\<exists>n. FIRST_DAY \<le> n \<and> n \<le> LAST_DAY \<and> s = date_key (Some (n * DAY_MS))
     \<and> keyToUtcMs s = Inr (Some (n * DAY_MS)))"
proof
  assume p: "is_plain_date s"
  show "\<exists>n. FIRST_DAY \<le> n \<and> n \<le> LAST_DAY \<and> s = date_key (Some (n * DAY_MS))
     \<and> keyToUtcMs s = Inr (Some (n * DAY_MS))"
    unfolding date_key_day
    by (intro exI [of _ "key_day s"] conjI plain_date_key(2) [OF p, symmetric] plain_date_key(3,4) [OF p]
        keyToUtcMs_plain [OF p])
next
  assume "\<exists>n. FIRST_DAY \<le> n \<and> n \<le> LAST_DAY \<and> s = date_key (Some (n * DAY_MS))
     \<and> keyToUtcMs s = Inr (Some (n * DAY_MS))"
  then show "is_plain_date s" unfolding date_key_day using day_key_plain(1) by blast
qed

text \<open>Adding days and counting days are inverse: \<open>addDaysToKey a n\<close> is the calendar date \<open>b\<close>
  exactly when \<open>daysBetweenKeys a b\<close> is \<open>n\<close>.\<close>

theorem add_days_between:
  assumes "is_plain_date a" "is_plain_date b"
  shows "addDaysToKey a (JInt n) = Inr b \<longleftrightarrow> daysBetweenKeys a b = Inr (Some n)"
  unfolding addDays_plain_iff [OF assms] daysBetween_plain [OF assms] sum.inject option.inject by linarith

theorem add_days_between_witness:
  "is_plain_date ''2026-02-27'' \<and> is_plain_date ''2026-03-01'' \<and>
   (addDaysToKey ''2026-02-27'' (JInt 2) = Inr ''2026-03-01'') =
   (daysBetweenKeys ''2026-02-27'' ''2026-03-01'' = Inr (Some 2))"
proof -
  have "is_plain_date ''2026-02-27''" "is_plain_date ''2026-03-01''" by code_simp+
  then show ?thesis using add_days_between [of "''2026-02-27''" "''2026-03-01''" 2] by simp
qed

text \<open>Adding months moves the month count by exactly that number and keeps the day, clamped to
  the last day of the target month, as long as the target lies in the years 100 to 9999.\<close>

theorem add_months_clamps:
  assumes "is_plain_date key" "key_parts key = (y, m, d)"
    "q = 12 * y + (m - 1) + n" "100 \<le> q div 12" "q div 12 \<le> 9999"
  shows "\<exists>k. addMonthsToKey key (JInt n) = Inr k \<and> is_plain_date k \<and>
    key_parts k = (q div 12, q mod 12 + 1, min d (month_len (q div 12) (q mod 12)))"
proof -
  note a = add_months_eq [OF assms]
  let ?d = "min d (month_len (q div 12) (q mod 12))"
  have r: "0 \<le> q mod 12" "q mod 12 \<le> 11" "1 \<le> ?d" "?d \<le> 31"
    using a(2) month_len_pos [of "q mod 12" "q div 12"] by (auto simp: real_civil_def)
  have k: "rx_match PLAIN_DATE_RE (key_of (q div 12) (q mod 12 + 1) ?d)"
    "plain_date_groups (key_of (q div 12) (q mod 12 + 1) ?d) = (q div 12, q mod 12 + 1, ?d)"
    using assms(4,5) r by (intro key_of_re; linarith)+
  then have "is_plain_date (key_of (q div 12) (q mod 12 + 1) ?d)"
    using a(2) assms(4) by (simp add: is_plain_date_iff)
  then show ?thesis using a(1) k plain_date_key(1) by metis
qed

theorem add_months_clamps_witness:
  "\<exists>k. addMonthsToKey ''2026-01-31'' (JInt 1) = Inr k \<and> is_plain_date k \<and> key_parts k = (2026, 2, 28)"
proof -
  have "is_plain_date ''2026-01-31''" "key_parts ''2026-01-31'' = (2026, 1, 31)" by code_simp+
  moreover have "month_len 2026 1 = 28" by code_simp
  ultimately show ?thesis
    using add_months_clamps [of "''2026-01-31''" 2026 1 31 "12 * 2026 + (1 - 1) + 1" 1] by simp
qed

text \<open>C8: In a zone that follows the formatter's contract and changes its offset at most once within
  a day of the wall time, \<open>zonedWallTimeToInstant\<close> decides exactly: with \<open>reject\<close> it returns the
  instant when the wall clock shows the time once and names the error when it shows it twice or
  never; otherwise it returns the earliest instant that shows the time, and for a skipped time the
  one an offset before the change gives.\<close>

theorem wall_time_to_instant:
  assumes "is_plain_date key" "FIRST_DAY + 2 \<le> key_day key" "key_day key \<le> LAST_DAY - 2"
    "rx_match WALL_TIME_RE time" "isValidTimeZone canon tz"
    "honest_zone fmt tz off" "one_change off (named_wall key time)"
  shows "zonedWallTimeToInstant canon fmt key time tz mode =
    (let w = named_wall key time; S = showing off w in
     if mode = Reject \<and> card S \<noteq> 1 then
       Inl (if card S > 1 then WallTimeRepeated key time tz else WallTimeSkipped key time tz)
     else if S \<noteq> {} then Inr (Some (Min S))
     else Inr (Some (w - off (w - DAY_MS))))"
  by (rule zoned_wall_time_eq [OF assms])

text \<open>A wall time that a clock change skips is moved forward by the gap: the result shows the
  named wall time plus the difference of the two offsets, which is positive.\<close>

theorem skipped_wall_time_moves_forward:
  assumes "is_plain_date key" "FIRST_DAY + 2 \<le> key_day key" "key_day key \<le> LAST_DAY - 2"
    "rx_match WALL_TIME_RE time" "isValidTimeZone canon tz"
    "honest_zone fmt tz off" "one_change off (named_wall key time)"
    "showing off (named_wall key time) = {}"
  shows "\<exists>t gap. zonedWallTimeToInstant canon fmt key time tz Compatible = Inr (Some t) \<and>
    0 < gap \<and> t + off t = named_wall key time + gap"
  using zoned_wall_time_eq [OF assms(1-7), of Compatible] zoned_wall_time_gap [OF assms(6-8)] assms(8)
  by (auto simp: Let_def)


section \<open>Witnesses in Central European time\<close>

definition any_zone :: "string \<Rightarrow> string option" where
  "any_zone tz = Some tz"

lemma cet_hyps:
  "is_plain_date ''2026-03-29''" "FIRST_DAY + 2 \<le> key_day ''2026-03-29''" "key_day ''2026-03-29'' \<le> LAST_DAY - 2"
  "rx_match WALL_TIME_RE ''02:30''" "rx_match WALL_TIME_RE ''03:30''"
  "isValidTimeZone any_zone ''Europe/Berlin''"
  "key_day ''2026-03-29'' = 20541"
  "wall_time_groups ''02:30'' = (2, 30, 0)" "wall_time_groups ''03:30'' = (3, 30, 0)"
  by code_simp+

lemma cet_walls: "named_wall ''2026-03-29'' ''02:30'' = 1774751400000"
  "named_wall ''2026-03-29'' ''03:30'' = 1774755000000"
  by (simp_all add: named_wall_def cet_hyps)

lemma cet_showing: "showing cet_offset 1774751400000 = {}" "showing cet_offset 1774755000000 = {1774747800000}"
  by (auto simp: showing_def cet_offset_def split: if_splits)

theorem wall_time_to_instant_witness:
  "zonedWallTimeToInstant any_zone (civil_format cet_offset) ''2026-03-29'' ''03:30'' ''Europe/Berlin'' Reject
     = Inr (Some 1774747800000)"
  using wall_time_to_instant [OF cet_hyps(1-3,5,6) cet_honest cet_one_change]
  by (simp add: cet_walls cet_showing Let_def)

theorem skipped_wall_time_moves_forward_witness:
  "\<exists>t gap. zonedWallTimeToInstant any_zone (civil_format cet_offset) ''2026-03-29'' ''02:30'' ''Europe/Berlin''
      Compatible = Inr (Some t) \<and> 0 < gap \<and> t + cet_offset t = 1774751400000 + gap"
  using skipped_wall_time_moves_forward [OF cet_hyps(1-4,6) cet_honest cet_one_change]
  by (simp only: cet_walls cet_showing simp_thms)


end
