(* ===== verification/Roles.thy ===== *)
theory Roles imports Prelude begin

text \<open>
  \<open>packages/domain/src/roles.ts\<close> and \<open>entry-id.ts\<close>: the role vocabulary and the checks of ids that
  come from a request. A users-permissions row is the record \<open>user_row\<close> with the columns the
  components select; \<open>ur_role\<close> is \<open>role.type\<close> (\<open>JUndef\<close> without a role).
\<close>

section \<open>Roles\<close>

definition ROLE_PRIVILEGE_ORDER :: "string list" where
  "ROLE_PRIVILEGE_ORDER = [''admin_role'', ''editor'', ''department_head'', ''team_lead'', ''member'', ''guest'']"

definition ADMIN :: string where "ADMIN = ''admin_role''"

definition GUEST :: string where "GUEST = ''guest''"

definition MODERATORS :: "string list" where
  "MODERATORS = [ADMIN, ''editor'']"

definition STAFF_ROLES :: "string list" where
  "STAFF_ROLES = filter (\<lambda>role. role \<noteq> GUEST) ROLE_PRIVILEGE_ORDER"

definition isRoleType :: "js \<Rightarrow> bool" where
  "isRoleType v = (v \<in> set (map JStr ROLE_PRIVILEGE_ORDER))"

record user_row =
  ur_id :: int
  ur_displayName :: js
  ur_username :: js
  ur_blocked :: js
  ur_role :: js
  ur_department :: "int option"
  ur_tokenVersion :: js
  ur_totpEnabledAt :: js

fun is_string_in :: "js \<Rightarrow> string list \<Rightarrow> bool" where
  "is_string_in (JStr s) rs = (s \<in> set rs)"
| "is_string_in _ rs = False"

definition hasRole :: "user_row option \<Rightarrow> string list \<Rightarrow> bool" where
  "hasRole u rs = (case u of None \<Rightarrow> False | Some row \<Rightarrow> is_string_in (ur_role row) rs)"

lemma is_string_in_iff: "is_string_in v rs \<longleftrightarrow> (\<exists>s \<in> set rs. v = JStr s)"
  by (cases v) auto

lemma staff_roles: "STAFF_ROLES = [''admin_role'', ''editor'', ''department_head'', ''team_lead'', ''member'']"
  by (simp add: STAFF_ROLES_def ROLE_PRIVILEGE_ORDER_def GUEST_def)

section \<open>Ids from a request\<close>

definition MAX_ROW_ID :: int where "MAX_ROW_ID = 2147483647"

definition is_row_id :: "int \<Rightarrow> bool" where
  "is_row_id n = (1 \<le> n \<and> n \<le> MAX_ROW_ID)"

definition isRowId :: "js \<Rightarrow> bool" where
  "isRowId v = (case v of JInt n \<Rightarrow> is_row_id n | _ \<Rightarrow> False)"

definition ROW_ID_RE :: rx where
  "ROW_ID_RE = Sq (Cls (char_in CHR ''1'' CHR ''9'')) (rx_between 0 9 rx_digit)"

definition DOCUMENT_ID_RE :: rx where
  "DOCUMENT_ID_RE = Sq (Cls (char_in CHR ''a'' CHR ''z''))
     (rx_rep 23 (Cls (\<lambda>c. char_in CHR ''a'' CHR ''z'' c \<or> is_digit c)))"

definition parseRowId :: "js \<Rightarrow> int option" where
  "parseRowId v = (case v of
     JInt n \<Rightarrow> if isRowId v then Some n else None
   | JStr s \<Rightarrow> if \<not> rx_match ROW_ID_RE s then None
       else (let n = num_of s in if n \<le> MAX_ROW_ID then Some n else None)
   | _ \<Rightarrow> None)"

definition is_document_id :: "string \<Rightarrow> bool" where
  "is_document_id s = rx_match DOCUMENT_ID_RE s"

definition isDocumentId :: "js \<Rightarrow> bool" where
  "isDocumentId v = (case v of JStr s \<Rightarrow> is_document_id s | _ \<Rightarrow> False)"

datatype entry_ref = RefId int | RefDocument string

definition parseEntryRef :: "js \<Rightarrow> entry_ref option" where
  "parseEntryRef v = (case parseRowId v of
     Some n \<Rightarrow> Some (RefId n)
   | None \<Rightarrow> (case v of JStr s \<Rightarrow> if is_document_id s then Some (RefDocument s) else None | _ \<Rightarrow> None))"

lemma opt_split: "(\<exists>a b. s = a @ b \<and> (a = [] \<or> (\<exists>c. a = [c] \<and> f c)) \<and> P b) \<longleftrightarrow>
  P s \<or> (\<exists>c t. s = c # t \<and> f c \<and> P t)" (is "?l \<longleftrightarrow> ?r")
proof
  assume ?r
  then show ?l
  proof
    assume "P s" then show ?l by (intro exI [of _ "[]"] exI [of _ s]) simp
  next
    assume "\<exists>c t. s = c # t \<and> f c \<and> P t"
    then obtain c t where "s = c # t" "f c" "P t" by blast
    then show ?l by (intro exI [of _ "[c]"] exI [of _ t]) simp
  qed
qed auto

lemma rx_lang_replicate_opt: "rx_lang (rx_seq (replicate k (rx_opt (Cls f)))) s \<longleftrightarrow>
  length s \<le> k \<and> (\<forall>c \<in> set s. f c)"
proof (induction k arbitrary: s)
  case 0
  then show ?case by auto
next
  case (Suc k)
  have "rx_lang (rx_seq (replicate (Suc k) (rx_opt (Cls f)))) s \<longleftrightarrow>
    (length s \<le> k \<and> (\<forall>c \<in> set s. f c)) \<or> (\<exists>c t. s = c # t \<and> f c \<and> length t \<le> k \<and> (\<forall>c \<in> set t. f c))"
    unfolding replicate_Suc rx_lang_seq_Cons Suc
    unfolding rx_opt_def rx_lang_Al rx_lang_Eps rx_lang_Cls by (rule opt_split)
  then show ?case by (cases s) auto
qed

lemma row_id_re: "rx_match ROW_ID_RE s \<longleftrightarrow>
  (\<exists>c t. s = c # t \<and> char_in CHR ''1'' CHR ''9'' c \<and> length t \<le> 9 \<and> (\<forall>c \<in> set t. is_digit c))"
  unfolding rx_match_lang ROW_ID_RE_def rx_lang_Sq_Cls rx_between_def
  by (simp add: rx_lang_replicate_opt)

lemma document_id_re: "is_document_id s \<longleftrightarrow> (\<exists>c t. s = c # t \<and> char_in CHR ''a'' CHR ''z'' c \<and> length t = 23 \<and>
  (\<forall>c \<in> set t. char_in CHR ''a'' CHR ''z'' c \<or> is_digit c))"
  unfolding is_document_id_def rx_match_lang DOCUMENT_ID_RE_def rx_lang_Sq_Cls rx_lang_rep_Cls by simp

lemma document_id_chars: "is_document_id s \<Longrightarrow> c \<in> set s \<Longrightarrow> char_in CHR ''a'' CHR ''z'' c \<or> is_digit c"
  by (auto simp: document_id_re)

lemma document_id_no_bar: "is_document_id s \<Longrightarrow> CHR ''|'' \<notin> set s"
  by (auto dest!: document_id_chars simp: char_in_def is_digit_def)

end
