(* ===== verification/Totp.thy ===== *)
theory Totp imports Prelude "HOL-Library.Word" begin

text \<open>
  \<open>apps/cms/src/utils/totp.ts\<close>: base32 and time-based one-time codes. JavaScript's shifts work on
  32-bit integers, so the accumulator \<open>value\<close> is a \<open>32 word\<close> whose high bits are lost; the
  lemmas show that the bits still pending never are. HMAC-SHA1 is the parameter \<open>hmac\<close>
  (\<open>node:crypto\<close>).
\<close>

unbundle bit_operations_syntax

type_synonym byte = "8 word"

definition BASE32 :: string where
  "BASE32 = ''ABCDEFGHIJKLMNOPQRSTUVWXYZ234567''"

definition base32_char :: "32 word \<Rightarrow> char" where
  "base32_char w = BASE32 ! unat w"

text \<open>The inner loop: emit characters while five bits are pending.\<close>

fun base32_emit :: "nat \<Rightarrow> 32 word \<Rightarrow> string \<Rightarrow> nat \<times> string" where
  "base32_emit bits v out =
     (if 5 \<le> bits then base32_emit (bits - 5) v (out @ [base32_char (drop_bit (bits - 5) v AND 31)])
      else (bits, out))"

declare base32_emit.simps [simp del]

fun base32_loop :: "byte list \<Rightarrow> nat \<Rightarrow> 32 word \<Rightarrow> string \<Rightarrow> nat \<times> 32 word \<times> string" where
  "base32_loop [] bits v out = (bits, v, out)"
| "base32_loop (b # bs) bits v out =
     (let v' = push_bit 8 v OR ucast b;
          (bits', out') = base32_emit (bits + 8) v' out in
      base32_loop bs bits' v' out')"

definition base32Encode :: "byte list \<Rightarrow> string" where
  "base32Encode bytes =
     (case base32_loop bytes 0 0 [] of (bits, v, out) \<Rightarrow>
        if bits > 0 then out @ [base32_char (push_bit (5 - bits) v AND 31)] else out)"

definition upper_char :: "char \<Rightarrow> char" where
  "upper_char c = (let n = of_char c :: nat in
     if (97 \<le> n \<and> n \<le> 122) \<or> (224 \<le> n \<and> n \<le> 254 \<and> n \<noteq> 247) then char_of (n - 32) else c)"

fun index_of :: "char \<Rightarrow> string \<Rightarrow> nat" where
  "index_of c [] = 0"
| "index_of c (x # xs) = (if x = c then 0 else Suc (index_of c xs))"

definition is_base32 :: "char \<Rightarrow> bool" where
  "is_base32 c = (char_in CHR ''A'' CHR ''Z'' c \<or> char_in CHR ''2'' CHR ''7'' c)"

fun base32_read :: "string \<Rightarrow> nat \<Rightarrow> 32 word \<Rightarrow> byte list \<Rightarrow> byte list" where
  "base32_read [] bits v out = out"
| "base32_read (c # cs) bits v out =
     (let v' = push_bit 5 v OR of_nat (index_of c BASE32); bits' = bits + 5 in
      if 8 \<le> bits' then base32_read cs (bits' - 8) v' (out @ [ucast (drop_bit (bits' - 8) v' AND 255)])
      else base32_read cs bits' v' out)"

text \<open>\<open>toUpperCase\<close> of the sharp s and of y with diaeresis leaves the range below 256; neither
  result is in the alphabet, and neither is the character itself.\<close>

definition base32Decode :: "string \<Rightarrow> byte list option" where
  "base32Decode input =
     (let clean = map upper_char (filter (\<lambda>c. \<not> is_ws c) input) in
      if clean = [] \<or> \<not> list_all is_base32 clean then None
      else Some (base32_read clean 0 0 []))"

definition TOTP_STEP_SECONDS :: int where "TOTP_STEP_SECONDS = 30"

definition totpStep :: "int \<Rightarrow> int" where
  "totpStep atMs = atMs div (1000 * TOTP_STEP_SECONDS)"

text \<open>The counter as eight bytes, most significant first (\<open>writeBigUInt64BE\<close>).\<close>

definition counter_bytes :: "int \<Rightarrow> byte list" where
  "counter_bytes n = map (\<lambda>i. word_of_int (n div 256 ^ (7 - i))) [0..<8]"

definition read_uint32 :: "byte list \<Rightarrow> nat \<Rightarrow> nat" where
  "read_uint32 bs i = unat (bs ! i) * 16777216 + unat (bs ! (i + 1)) * 65536
     + unat (bs ! (i + 2)) * 256 + unat (bs ! (i + 3))"

definition hotp :: "(byte list \<Rightarrow> byte list \<Rightarrow> byte list) \<Rightarrow> byte list \<Rightarrow> int \<Rightarrow> nat \<Rightarrow> string" where
  "hotp hmac secret counter digits =
     (let mac = hmac secret (counter_bytes counter);
          offset = unat (last mac AND 15);
          code = read_uint32 mac offset mod 2147483648 mod 10 ^ digits in
      pad_start digits (nat_digits code))"

definition six_digits :: "string \<Rightarrow> bool" where
  "six_digits s = (length s = 6 \<and> list_all is_digit s)"

definition matchTotp :: "(byte list \<Rightarrow> byte list \<Rightarrow> byte list) \<Rightarrow> byte list \<Rightarrow> string \<Rightarrow> int \<Rightarrow> int option" where
  "matchTotp hmac secret code atMs =
     (if \<not> six_digits code then None
      else let now = totpStep atMs in
        foldl (\<lambda>m step. if hotp hmac secret step 6 = code then Some step else m) None [now - 1, now, now + 1])"

lemma matchTotp_step:
  assumes "matchTotp hmac secret code atMs = Some step"
  shows "hotp hmac secret step 6 = code" "\<bar>step - totpStep atMs\<bar> \<le> 1"
proof -
  have f: "P s \<and> s \<in> {a, b, c}" if "foldl (\<lambda>m s. if P s then Some s else m) None [a, b, c] = Some s"
    for P :: "int \<Rightarrow> bool" and a b c s
    using that by (cases "P a"; cases "P b"; cases "P c"; simp)
  have "foldl (\<lambda>m step. if hotp hmac secret step 6 = code then Some step else m) None
      [totpStep atMs - 1, totpStep atMs, totpStep atMs + 1] = Some step"
    using assms unfolding matchTotp_def Let_def by (meson option.distinct(1))
  from f [OF this] show "hotp hmac secret step 6 = code" "\<bar>step - totpStep atMs\<bar> \<le> 1" by auto
qed

section \<open>Base32 round trip\<close>

fun num_base :: "nat \<Rightarrow> nat list \<Rightarrow> nat" where
  "num_base b [] = 0"
| "num_base b (d # ds) = d * b ^ length ds + num_base b ds"

lemma num_base_snoc: "num_base b (ds @ [d]) = num_base b ds * b + d"
  by (induction ds) (auto simp: algebra_simps)

lemma num_base_less: "\<forall>d \<in> set ds. d < b \<Longrightarrow> num_base b ds < b ^ length ds"
proof (induction ds)
  case (Cons d ds)
  then have "num_base b ds < b ^ length ds" "Suc d \<le> b" by auto
  then have "d * b ^ length ds + num_base b ds < Suc d * b ^ length ds" by simp
  also have "\<dots> \<le> b * b ^ length ds" using \<open>Suc d \<le> b\<close> by (rule mult_le_mono1)
  finally show ?case by simp
qed simp

lemma num_base_inj:
  "\<forall>d \<in> set xs. d < b \<Longrightarrow> \<forall>d \<in> set ys. d < b \<Longrightarrow> length xs = length ys \<Longrightarrow>
   num_base b xs = num_base b ys \<Longrightarrow> xs = ys"
proof (induction xs arbitrary: ys)
  case (Cons x xs)
  obtain y zs where y: "ys = y # zs" "length xs = length zs" using Cons.prems(3) by (cases ys) auto
  have l: "num_base b xs < b ^ length zs" "num_base b zs < b ^ length zs"
    using num_base_less [of xs b] num_base_less [of zs b] Cons.prems(1,2) y by auto
  have e: "x * b ^ length zs + num_base b xs = y * b ^ length zs + num_base b zs"
    using Cons.prems(4) y by simp
  have nz: "b ^ length zs \<noteq> 0" using l(1) by linarith
  have "x = (x * b ^ length zs + num_base b xs) div b ^ length zs" using l(1) nz by simp
  also have "\<dots> = y" unfolding e using l(2) nz by simp
  finally have "x = y" .
  moreover from this e have "num_base b xs = num_base b zs" by simp
  ultimately show ?case using Cons.IH [of zs] Cons.prems(1,2) y by simp
qed simp

lemma unat_push_or:
  assumes "k \<le> 8" "unat w < 2 ^ k"
  shows "unat (push_bit k v OR w :: 32 word) = (unat v * 2 ^ k + unat w) mod 2 ^ 32"
proof -
  have "push_bit k v AND w = 0"
  proof (rule bit_word_eqI)
    fix n assume "n < LENGTH(32)"
    have "bit w n \<Longrightarrow> n < k"
    proof -
      assume "bit w n"
      then have "bit (take_bit k (unat w)) n"
        using assms(2) by (simp add: take_bit_nat_eq_self bit_unsigned_iff possible_bit_def)
      then show "n < k" by (simp add: bit_take_bit_iff)
    qed
    then show "bit (push_bit k v AND w) n \<longleftrightarrow> bit (0 :: 32 word) n"
      by (auto simp: bit_and_iff bit_push_bit_iff)
  qed
  then have "push_bit k v OR w = push_bit k v + w" by (rule disjunctive_add_eq_or [symmetric])
  moreover have "unat (push_bit k v) = (unat v * 2 ^ k) mod 2 ^ 32"
    by (simp only: unsigned_push_bit_eq) (simp add: take_bit_eq_mod push_bit_eq_mult)
  ultimately show ?thesis
    by (simp only: unat_word_ariths) (simp add: mod_simps)
qed

text \<open>What is pending: the low \<open>n\<close> bits of the accumulator.\<close>

definition pending :: "nat \<Rightarrow> 32 word \<Rightarrow> nat" where
  "pending n v = unat v mod 2 ^ n"

lemma pending_push:
  assumes "n + k \<le> 32" "k \<le> 8" "unat w < 2 ^ k"
  shows "pending (n + k) (push_bit k v OR w) = pending n v * 2 ^ k + unat w"
proof -
  have "unat (push_bit k v OR w) mod 2 ^ (n + k) = (unat v * 2 ^ k + unat w) mod 2 ^ (n + k)"
    unfolding unat_push_or [OF assms(2,3)]
    by (rule mod_mod_cancel) (rule le_imp_power_dvd, rule assms(1))
  also have "\<dots> = (unat v mod 2 ^ n) * 2 ^ k + unat w"
  proof -
    have "unat v * 2 ^ k + unat w = (unat v div 2 ^ n) * 2 ^ (n + k) + ((unat v mod 2 ^ n) * 2 ^ k + unat w)"
    proof -
      have "unat v = unat v div 2 ^ n * 2 ^ n + unat v mod 2 ^ n" by (rule div_mult_mod_eq [symmetric])
      then show ?thesis by (metis (no_types, lifting) add.assoc add_mult_distrib mult.assoc power_add)
    qed
    moreover have "(unat v mod 2 ^ n) * 2 ^ k + unat w < 2 ^ (n + k)"
    proof -
      have "unat v mod 2 ^ n + 1 \<le> 2 ^ n" by (simp add: Suc_leI)
      then have "(unat v mod 2 ^ n + 1) * 2 ^ k \<le> 2 ^ n * 2 ^ k" by (rule mult_le_mono1)
      then show ?thesis using assms(3) by (simp add: power_add add_mult_distrib)
    qed
    ultimately show ?thesis by (simp only: mod_mult_self3 mod_less)
  qed
  finally show ?thesis by (simp add: pending_def)
qed

lemma pending_split: "k \<le> n \<Longrightarrow> pending n v = (pending n v div 2 ^ (n - k)) * 2 ^ (n - k) + pending (n - k) v"
  unfolding pending_def
  by (metis (no_types, lifting) diff_le_self div_mult_mod_eq le_imp_power_dvd mod_mod_cancel)

lemma pending_less: "pending n v < 2 ^ n"
  by (simp add: pending_def)

text \<open>The masked shift reads the top \<open>k\<close> pending bits.\<close>

lemma unat_top_bits:
  assumes "k \<le> n"
  shows "unat (drop_bit (n - k) v AND mask k :: 32 word) = pending n v div 2 ^ (n - k)"
proof -
  have "unat v < 4294967296" using unsigned_less [of v] by simp
  then have "unat (drop_bit (n - k) v AND mask k) = (unat v div 2 ^ (n - k)) mod 2 ^ k"
    by (simp only: take_bit_eq_mask [symmetric] unsigned_take_bit_eq unsigned_drop_bit_eq)
      (simp add: take_bit_eq_mod drop_bit_eq_div)
  also have "\<dots> = (unat v mod 2 ^ ((n - k) + k)) div 2 ^ (n - k)"
    by (simp add: power_add mod_mult2_eq)
  finally show ?thesis using assms by (simp add: pending_def)
qed

definition b32_val :: "char \<Rightarrow> nat" where
  "b32_val c = index_of c BASE32"

lemma base32_chars:
  assumes "n < 32"
  shows "index_of (BASE32 ! n) BASE32 = n" "is_base32 (BASE32 ! n)" "upper_char (BASE32 ! n) = BASE32 ! n"
    "\<not> is_ws (BASE32 ! n)"
proof -
  have "\<forall>n \<in> set [0..<32]. index_of (BASE32 ! n) BASE32 = n \<and> is_base32 (BASE32 ! n) \<and>
    upper_char (BASE32 ! n) = BASE32 ! n \<and> \<not> is_ws (BASE32 ! n)"
    by code_simp
  then show "index_of (BASE32 ! n) BASE32 = n" "is_base32 (BASE32 ! n)" "upper_char (BASE32 ! n) = BASE32 ! n"
    "\<not> is_ws (BASE32 ! n)"
    using assms by simp_all
qed

lemma base32_char_val: "unat w < 32 \<Longrightarrow> b32_val (base32_char w) = unat w"
  by (simp add: b32_val_def base32_char_def base32_chars)

lemma mask_5_8: "(31 :: 32 word) = mask 5" "(255 :: 32 word) = mask 8"
  by (simp_all add: mask_eq_exp_minus_1)

definition b32_text :: "string \<Rightarrow> bool" where
  "b32_text ds = (\<forall>c \<in> set ds. \<exists>n < 32. c = BASE32 ! n)"

lemma base32_char_text: "unat w < 32 \<Longrightarrow> b32_text [base32_char w]"
  by (auto simp: b32_text_def base32_char_def)

lemma emit_spec:
  "base32_emit bits v out = (bits', out') \<Longrightarrow>
   \<exists>ds. out' = out @ ds \<and> bits' < 5 \<and> 5 * length ds + bits' = bits \<and> b32_text ds \<and>
     num_base 32 (map b32_val ds) * 2 ^ bits' + pending bits' v = pending bits v"
proof (induction bits v out rule: base32_emit.induct)
  case (1 bits v out)
  show ?case
  proof (cases "5 \<le> bits")
    case False
    then show ?thesis using "1.prems" by (subst (asm) base32_emit.simps) (auto simp: b32_text_def)
  next
    case True
    define w where "w = drop_bit (bits - 5) v AND 31"
    have w: "unat w = pending bits v div 2 ^ (bits - 5)"
      unfolding w_def mask_5_8 by (rule unat_top_bits [OF True])
    have "pending bits v < 2 ^ (bits - 5) * 32"
    proof -
      have "(2::nat) ^ ((bits - 5) + 5) = 2 ^ (bits - 5) * 32" by (simp only: power_add) simp
      then show ?thesis using pending_less [of bits v] True by simp
    qed
    then have w32: "unat w < 32" unfolding w by (simp add: less_mult_imp_div_less mult.commute)
    have "base32_emit (bits - 5) v (out @ [base32_char w]) = (bits', out')"
      using "1.prems" True by (subst (asm) base32_emit.simps) (simp add: w_def)
    from "1.IH" [OF True this [unfolded w_def]]
    obtain ds where ds: "out' = (out @ [base32_char w]) @ ds" "bits' < 5" "5 * length ds + bits' = bits - 5"
      "b32_text ds" "num_base 32 (map b32_val ds) * 2 ^ bits' + pending bits' v = pending (bits - 5) v"
      by (auto simp: w_def)
    have "(32::nat) ^ length ds * 2 ^ bits' = 2 ^ (bits - 5)"
      unfolding ds(3) [symmetric] by (simp add: power_add power_mult)
    then have "unat w * 32 ^ length ds * 2 ^ bits' = unat w * 2 ^ (bits - 5)" by (simp add: mult.assoc)
    then have "num_base 32 (map b32_val (base32_char w # ds)) * 2 ^ bits' + pending bits' v
        = unat w * 2 ^ (bits - 5) + pending (bits - 5) v"
      using ds(5) unfolding list.map num_base.simps length_map base32_char_val [OF w32] add_mult_distrib
      by linarith
    also have "\<dots> = pending bits v" using pending_split [OF True, of v] by (simp add: w)
    finally show ?thesis
      using ds True base32_char_text [OF w32]
      by (intro exI [of _ "base32_char w # ds"]) (auto simp: b32_text_def)
  qed
qed

lemma loop_spec:
  "base32_loop bs bits v out = (bits', v', out') \<Longrightarrow> bits < 5 \<Longrightarrow>
   \<exists>ds. out' = out @ ds \<and> bits' < 5 \<and> 5 * length ds + bits' = bits + 8 * length bs \<and> b32_text ds \<and>
     num_base 32 (map b32_val ds) * 2 ^ bits' + pending bits' v'
       = pending bits v * 256 ^ length bs + num_base 256 (map unat bs)"
proof (induction bs arbitrary: bits v out)
  case Nil
  then show ?case by (auto simp: b32_text_def)
next
  case (Cons b bs)
  define v1 where "v1 = push_bit 8 v OR ucast b"
  obtain b1 o1 where e: "base32_emit (bits + 8) v1 out = (b1, o1)" by (metis prod.exhaust)
  have l: "base32_loop bs b1 v1 o1 = (bits', v', out')"
    using Cons.prems(1) e by (simp add: v1_def Let_def)
  obtain ds1 where d1: "o1 = out @ ds1" "b1 < 5" "5 * length ds1 + b1 = bits + 8" "b32_text ds1"
      "num_base 32 (map b32_val ds1) * 2 ^ b1 + pending b1 v1 = pending (bits + 8) v1"
    using emit_spec [OF e] by blast
  obtain ds2 where d2: "out' = o1 @ ds2" "bits' < 5" "5 * length ds2 + bits' = b1 + 8 * length bs" "b32_text ds2"
      "num_base 32 (map b32_val ds2) * 2 ^ bits' + pending bits' v'
        = pending b1 v1 * 256 ^ length bs + num_base 256 (map unat bs)"
    using Cons.IH [OF l d1(2)] by blast
  have ub: "unat (ucast b :: 32 word) = unat b" by (simp add: unsigned_ucast_eq take_bit_nat_eq_self
        order_less_le_trans [OF unsigned_less])
  have p: "pending (bits + 8) v1 = pending bits v * 256 + unat b"
    unfolding v1_def using pending_push [of bits 8 "ucast b" v] Cons.prems(2) unsigned_less [of b] by (simp add: ub)
  have app: "num_base 32 (xs @ ys) = num_base 32 xs * 32 ^ length ys + num_base 32 ys" for xs ys
    by (induction xs) (simp_all add: algebra_simps power_add)
  have "(32::nat) ^ length ds2 * 2 ^ bits' = 2 ^ (5 * length ds2 + bits')" by (simp add: power_add power_mult)
  also have "\<dots> = 2 ^ b1 * 256 ^ length bs" unfolding d2(3) by (simp add: power_add power_mult)
  finally have pw: "(32::nat) ^ length ds2 * 2 ^ bits' = 2 ^ b1 * 256 ^ length bs" .
  let ?n1 = "num_base 32 (map b32_val ds1)" and ?n2 = "num_base 32 (map b32_val ds2)"
  have "?n1 * 32 ^ length ds2 * 2 ^ bits' = ?n1 * 2 ^ b1 * 256 ^ length bs"
    using pw by (simp add: mult.assoc)
  then have "num_base 32 (map b32_val (ds1 @ ds2)) * 2 ^ bits' + pending bits' v'
      = ?n1 * 2 ^ b1 * 256 ^ length bs + (?n2 * 2 ^ bits' + pending bits' v')"
    by (simp add: app add_mult_distrib)
  also have "\<dots> = (?n1 * 2 ^ b1 + pending b1 v1) * 256 ^ length bs + num_base 256 (map unat bs)"
    unfolding d2(5) by (simp add: add_mult_distrib)
  also have "\<dots> = pending bits v * 256 ^ length (b # bs) + num_base 256 (map unat (b # bs))"
    unfolding d1(5) p by (simp add: add_mult_distrib)
  finally show ?case
    using d1 d2 by (intro exI [of _ "ds1 @ ds2"]) (auto simp: b32_text_def)
qed

lemma byte_less: "unat (w :: byte) < 256"
  using unsigned_less [of w] by simp

lemma encode_spec:
  "\<exists>ds pad. base32Encode bytes = ds \<and> b32_text ds \<and> pad < 5 \<and> 5 * length ds = 8 * length bytes + pad \<and>
     num_base 32 (map b32_val ds) = num_base 256 (map unat bytes) * 2 ^ pad"
proof -
  obtain bits v out where l: "base32_loop bytes 0 0 [] = (bits, v, out)" by (metis prod_cases3)
  from loop_spec [OF l] have o: "bits < 5" "5 * length out + bits = 8 * length bytes" "b32_text out"
    "num_base 32 (map b32_val out) * 2 ^ bits + pending bits v = num_base 256 (map unat bytes)"
    by (auto simp: pending_def)
  show ?thesis
  proof (cases "bits > 0")
    case False
    then show ?thesis using o l
      by (intro exI [of _ out] exI [of _ 0]) (auto simp: base32Encode_def pending_def)
  next
    case True
    define w where "w = push_bit (5 - bits) v AND 31"
    have "unat w = pending 5 (push_bit (5 - bits) v OR 0)"
      using unat_top_bits [of 5 5 "push_bit (5 - bits) v"] by (simp add: w_def mask_5_8)
    also have "\<dots> = pending bits v * 2 ^ (5 - bits)"
      using pending_push [of bits "5 - bits" 0 v] o(1) by simp
    finally have w: "unat w = pending bits v * 2 ^ (5 - bits)" .
    have "pending bits v * 2 ^ (5 - bits) < 2 ^ bits * 2 ^ (5 - bits)" using pending_less by simp
    also have "\<dots> = (2::nat) ^ 5" using o(1) by (simp only: power_add [symmetric]) simp
    finally have w32: "unat w < 32" by (simp add: w)
    have "(32::nat) = 2 ^ bits * 2 ^ (5 - bits)" using o(1) by (simp only: power_add [symmetric]) simp
    then have "num_base 32 (map b32_val out) * 32
        = num_base 32 (map b32_val out) * 2 ^ bits * 2 ^ (5 - bits)" by (simp only: mult.assoc)
    then have "num_base 32 (map b32_val (out @ [base32_char w]))
        = (num_base 32 (map b32_val out) * 2 ^ bits + pending bits v) * 2 ^ (5 - bits)"
      unfolding map_append list.map num_base_snoc base32_char_val [OF w32] w add_mult_distrib by linarith
    then show ?thesis
      using o l True base32_char_text [OF w32]
      by (intro exI [of _ "out @ [base32_char w]"] exI [of _ "5 - bits"])
        (auto simp: base32Encode_def w_def b32_text_def)
  qed
qed

lemma b32_val_less: "b32_text ds \<Longrightarrow> c \<in> set ds \<Longrightarrow> b32_val c < 32"
  by (auto simp: b32_text_def b32_val_def base32_chars)

lemma read_spec:
  "b32_text cs \<Longrightarrow> bits < 8 \<Longrightarrow>
   \<exists>bs b' p. base32_read cs bits v out = out @ bs \<and> b' < 8 \<and> 8 * length bs + b' = bits + 5 * length cs \<and>
     p < 2 ^ b' \<and> num_base 256 (map unat bs) * 2 ^ b' + p
       = pending bits v * 32 ^ length cs + num_base 32 (map b32_val cs)"
proof (induction cs arbitrary: bits v out)
  case Nil
  then show ?case using pending_less by (intro exI [of _ "[]"] exI [of _ bits] exI [of _ "pending bits v"]) simp
next
  case (Cons c cs)
  have cs: "b32_text cs" and c32: "b32_val c < 32"
    using Cons.prems(1) b32_val_less [OF Cons.prems(1), of c] by (auto simp: b32_text_def)
  define v' where "v' = push_bit 5 v OR of_nat (b32_val c)"
  have "unat (of_nat (b32_val c) :: 32 word) = b32_val c" using c32 by (simp add: unat_of_nat)
  then have p': "pending (bits + 5) v' = pending bits v * 32 + b32_val c"
    unfolding v'_def using pending_push [of bits 5 "of_nat (b32_val c)" v] c32 Cons.prems(2) by simp
  have total: "pending bits v * 32 ^ length (c # cs) + num_base 32 (map b32_val (c # cs))
      = pending (bits + 5) v' * 32 ^ length cs + num_base 32 (map b32_val cs)"
    unfolding p' by (simp add: add_mult_distrib)
  show ?case
  proof (cases "8 \<le> bits + 5")
    case False
    then obtain bs b' p where "base32_read cs (bits + 5) v' out = out @ bs" "b' < 8"
      "8 * length bs + b' = bits + 5 + 5 * length cs" "p < 2 ^ b'"
      "num_base 256 (map unat bs) * 2 ^ b' + p = pending (bits + 5) v' * 32 ^ length cs + num_base 32 (map b32_val cs)"
      using Cons.IH [OF cs, of "bits + 5" v' out] by auto
    then show ?thesis unfolding total using False
      by (intro exI [of _ bs] exI [of _ b'] exI [of _ p]) (simp add: Let_def v'_def b32_val_def)
  next
    case True
    define q where "q = bits + 5 - 8"
    define w where "w = (ucast (drop_bit q v' AND 255) :: byte)"
    have qb: "bits + 5 = q + 8" using True by (simp add: q_def)
    have pl: "pending (bits + 5) v' < 2 ^ q * 256"
      using pending_less [of "bits + 5" v'] unfolding qb by (simp add: power_add)
    have "unat (drop_bit q v' AND 255) = pending (bits + 5) v' div 2 ^ q"
      using unat_top_bits [of 8 "bits + 5" v'] True by (simp only: mask_5_8 q_def)
    moreover have "pending (bits + 5) v' div 2 ^ q < 256"
      using pl by (simp add: less_mult_imp_div_less mult.commute)
    ultimately have w: "unat w = pending (bits + 5) v' div 2 ^ q"
      by (simp add: w_def unsigned_ucast_eq take_bit_nat_eq_self)
    have sp: "pending (bits + 5) v' = unat w * 2 ^ q + pending q v'"
      using pending_split [of 8 "bits + 5" v'] True by (simp only: w q_def)
    have "q < 8" using Cons.prems(2) by (simp add: q_def)
    from Cons.IH [OF cs this, of v' "out @ [w]"]
    obtain bs b' p where r: "base32_read cs q v' (out @ [w]) = (out @ [w]) @ bs" "b' < 8"
      "8 * length bs + b' = q + 5 * length cs" "p < 2 ^ b'"
      "num_base 256 (map unat bs) * 2 ^ b' + p = pending q v' * 32 ^ length cs + num_base 32 (map b32_val cs)"
      by blast
    have "(256::nat) ^ length bs * 2 ^ b' = 2 ^ (8 * length bs + b')" by (simp add: power_add power_mult)
    also have "\<dots> = 2 ^ q * 32 ^ length cs" unfolding r(3) by (simp add: power_add power_mult)
    finally have "unat w * 256 ^ length bs * 2 ^ b' = unat w * 2 ^ q * 32 ^ length cs"
      by (simp only: mult.assoc)
    then have "num_base 256 (map unat (w # bs)) * 2 ^ b' + p
        = pending (bits + 5) v' * 32 ^ length cs + num_base 32 (map b32_val cs)"
      unfolding sp list.map num_base.simps length_map add_mult_distrib using r(5) by linarith
    moreover have "base32_read (c # cs) bits v out = out @ (w # bs)"
      using r(1) True by (simp add: Let_def v'_def [symmetric] b32_val_def [symmetric] q_def [symmetric] w_def)
    moreover have "8 * length (w # bs) + b' = bits + 5 * length (c # cs)" using r(3) qb by simp
    ultimately show ?thesis unfolding total using r(2,4) by blast
  qed
qed

text \<open>\<open>base32Decode\<close> reads back every non-empty byte string that \<open>base32Encode\<close> wrote, although
  the 32-bit accumulator drops its high bits on the way.\<close>

theorem base32_roundtrip:
  assumes "bytes \<noteq> []"
  shows "base32Decode (base32Encode bytes) = Some bytes"
proof -
  obtain ds pad where e: "base32Encode bytes = ds" "b32_text ds" "pad < 5" "5 * length ds = 8 * length bytes + pad"
    "num_base 32 (map b32_val ds) = num_base 256 (map unat bytes) * 2 ^ pad"
    using encode_spec by blast
  have ne: "ds \<noteq> []" using assms e(4) by auto
  have "filter (\<lambda>c. \<not> is_ws c) ds = ds" "map upper_char ds = ds" "list_all is_base32 ds"
    using e(2) by (auto simp: b32_text_def base32_chars list_all_iff intro!: filter_True map_idI)
  then have d: "base32Decode ds = Some (base32_read ds 0 0 [])"
    using ne by (simp add: base32Decode_def Let_def)
  obtain bs b' p where r: "base32_read ds 0 0 [] = bs" "b' < 8" "8 * length bs + b' = 5 * length ds" "p < 2 ^ b'"
    "num_base 256 (map unat bs) * 2 ^ b' + p = num_base 32 (map b32_val ds)"
    using read_spec [OF e(2), of 0 0 "[]"] by (auto simp: pending_def)
  have le: "length bs \<le> length bytes" "length bytes \<le> length bs" using r(2,3) e(3,4) by linarith+
  then have l: "length bs = length bytes" "b' = pad" using r(3) e(4) by linarith+
  have "num_base 256 (map unat bs) * 2 ^ pad + p = num_base 256 (map unat bytes) * 2 ^ pad"
    using r(5) e(5) l by simp
  moreover have "p < 2 ^ pad" using r(4) l by simp
  ultimately have "num_base 256 (map unat bs) = num_base 256 (map unat bytes)"
  proof -
    assume a: "num_base 256 (map unat bs) * 2 ^ pad + p = num_base 256 (map unat bytes) * 2 ^ pad" "p < 2 ^ pad"
    have "num_base 256 (map unat bs) = (num_base 256 (map unat bs) * 2 ^ pad + p) div 2 ^ pad"
      using a(2) by simp
    then show ?thesis unfolding a(1) by simp
  qed
  then have "map unat bs = map unat bytes"
    using l(1) byte_less by (intro num_base_inj [of _ 256]) auto
  then have "bs = bytes" by (rule map_injective) (simp add: inj_def word_unat_eq_iff)
  then show ?thesis using d e(1) r(1) by simp
qed

theorem base32_roundtrip_witness: "base32Decode (base32Encode [1, 2, 255]) = Some [1, 2, 255]"
  using base32_roundtrip [of "[1, 2, 255]"] by simp

end
