(* ===== verification/Mfa.thy ===== *)
theory Mfa imports Roles Totp begin

text \<open>
  The second factor of local accounts: \<open>apps/cms/src/utils/mfa-core.ts\<close>, \<open>utils/mfa.ts\<close> and the
  per-request decision \<open>mfaDecision\<close> of \<open>extensions/users-permissions/strapi-server.ts\<close>.

  A user row is \<open>mfa_row\<close>, \<open>user_row\<close> with the second-factor columns; a transaction runs with the
  row locked, so each handler is one step from table to table. What comes from elsewhere is a
  field of \<open>mfa_env\<close>: Strapi's encryption service, \<open>JSON.parse\<close>, the password check of the
  plugin, SHA-256, HMAC and the random secrets of this call. The lemmas show that an accepted code is
  never accepted again and which requests pass the gate.
\<close>

record mfa_row = user_row +
  mr_totpSecret :: js
  mr_totpLastStep :: "int option"
  mr_totpRecoveryCodes :: js
  mr_password :: js

record mfa_env =
  en_decrypt :: "string \<Rightarrow> string option"
  en_encrypt :: "string \<Rightarrow> string option"
  en_json :: "string \<Rightarrow> js option"
  en_stringify :: "js \<Rightarrow> string"
  en_valid_password :: "string \<Rightarrow> string \<Rightarrow> bool"
  en_sha256 :: "string \<Rightarrow> string"
  en_hmac :: "byte list \<Rightarrow> byte list \<Rightarrow> byte list"
  en_required :: "string list"

type_synonym user_table = "int \<Rightarrow> mfa_row option"

section \<open>Settings and the gate\<close>

datatype mfa_error =
    UnknownRoles "string list"
  | IdpSession
  | AlreadyEnabled
  | MfaUnavailable
  | EnrollmentInvalid
  | PasswordInvalid
  | MfaInvalid
  | MfaNotEnabled
  | MfaRequiredByRole
  | SessionOutdatedMfa
  | UnauthorizedMfa

definition parseMfaRequiredRoles :: "string option \<Rightarrow> mfa_error + string list" where
  "parseMfaRequiredRoles v =
     (let trimmed = trim (case v of None \<Rightarrow> [] | Some s \<Rightarrow> s) in
      if trimmed = [] then Inr MODERATORS
      else if to_lower trimmed = ''none'' then Inr []
      else let names = filter (\<lambda>n. n \<noteq> []) (map trim (split_on CHR '','' trimmed));
               unknown = filter (\<lambda>n. n \<notin> set ROLE_PRIVILEGE_ORDER) names in
        if unknown \<noteq> [] then Inl (UnknownRoles unknown) else Inr names)"

definition roleTypeOf :: "'a user_row_scheme option \<Rightarrow> string option" where
  "roleTypeOf u = (case u of None \<Rightarrow> None | Some row \<Rightarrow> (case ur_role row of JStr s \<Rightarrow> Some s | _ \<Rightarrow> None))"

definition isEnrolled :: "'a user_row_scheme option \<Rightarrow> bool" where
  "isEnrolled u = (case u of None \<Rightarrow> False | Some row \<Rightarrow> \<not> nullish (ur_totpEnabledAt row))"

definition roleRequiresMfa :: "'a user_row_scheme option \<Rightarrow> string list \<Rightarrow> bool" where
  "roleRequiresMfa u rs = (case roleTypeOf u of None \<Rightarrow> False | Some r \<Rightarrow> r \<in> set rs)"

definition requiredMfa :: "'a user_row_scheme option \<Rightarrow> string list \<Rightarrow> bool" where
  "requiredMfa u rs = (roleRequiresMfa u rs \<or> isEnrolled u)"

definition MAX_SAFE_INTEGER :: int where "MAX_SAFE_INTEGER = 9007199254740991"

definition versionOf :: "js \<Rightarrow> int" where
  "versionOf v =
     (let number = (case v of JStr s \<Rightarrow> if s \<noteq> [] \<and> list_all is_digit s then JInt (num_of s) else v | _ \<Rightarrow> v) in
      case number of JInt n \<Rightarrow> if 0 \<le> n \<and> n \<le> MAX_SAFE_INTEGER then n else 0 | _ \<Rightarrow> 0)"

datatype mfa_decision = Pass | Reauth | Restricted

definition mfaDecision :: "js \<Rightarrow> 'a user_row_scheme option \<Rightarrow> string list \<Rightarrow> mfa_decision" where
  "mfaDecision payload u rs =
     (let claims = (case payload of JObj fs \<Rightarrow> fs | _ \<Rightarrow> []);
          am = jget claims ''am''; mfa = jget claims ''mfa'' in
      if (am \<noteq> JUndef \<and> am \<noteq> JStr ''pw'' \<and> am \<noteq> JStr ''idp'') \<or> (mfa \<noteq> JUndef \<and> mfa \<noteq> JInt 1) then Reauth
      else if am = JStr ''idp'' then Pass
      else if \<not> requiredMfa u rs then Pass
      else if am = JStr ''pw'' then
        (if mfa = JInt 1 then Pass else if isEnrolled u then Reauth else Restricted)
      else Reauth)"

section \<open>Using a second factor\<close>

datatype factor_kind = TotpCode | RecoveryCode

text \<open>\<open>[\s-]\<close> removed.\<close>

definition strip_separators :: "string \<Rightarrow> string" where
  "strip_separators s = filter (\<lambda>c. \<not> is_ws c \<and> c \<noteq> CHR ''-'') s"

definition hashRecoveryCode :: "mfa_env \<Rightarrow> string \<Rightarrow> string" where
  "hashRecoveryCode en code = en_sha256 en (to_lower (strip_separators code))"

definition is_base32_letter :: "char \<Rightarrow> bool" where
  "is_base32_letter c =
     (char_in CHR ''a'' CHR ''z'' c \<or> char_in CHR ''A'' CHR ''Z'' c \<or> char_in CHR ''2'' CHR ''7'' c)"

definition secondFactorKind :: "string \<Rightarrow> factor_kind option" where
  "secondFactorKind input =
     (let v = trim input in
      if six_digits v then Some TotpCode
      else let w = strip_separators v in
        if length w = 16 \<and> list_all is_base32_letter w then Some RecoveryCode else None)"

definition unseal :: "mfa_env \<Rightarrow> js \<Rightarrow> string option" where
  "unseal en v = (case v of JStr s \<Rightarrow> if s = [] then None else en_decrypt en s | _ \<Rightarrow> None)"

definition hex_val :: "char \<Rightarrow> nat option" where
  "hex_val c = (let n = of_char c :: nat in
     if 48 \<le> n \<and> n \<le> 57 then Some (n - 48)
     else if 97 \<le> n \<and> n \<le> 102 then Some (n - 87)
     else if 65 \<le> n \<and> n \<le> 70 then Some (n - 55) else None)"

text \<open>\<open>Buffer.from(s, "hex")\<close> stops at the first pair that is no byte.\<close>

fun from_hex :: "string \<Rightarrow> nat list" where
  "from_hex (a # b # s) = (case (hex_val a, hex_val b) of
     (Some x, Some y) \<Rightarrow> (16 * x + y) # from_hex s | _ \<Rightarrow> [])"
| "from_hex _ = []"

definition indexOfHash :: "string list \<Rightarrow> string \<Rightarrow> int" where
  "indexOfHash codes hash = foldl (\<lambda>index i.
     if from_hex (codes ! i) = from_hex hash then int i else index) (- 1) [0..<length codes]"

definition string_items :: "js \<Rightarrow> string list" where
  "string_items v = (case v of JArr xs \<Rightarrow> List.map_filter (\<lambda>x. case x of JStr s \<Rightarrow> Some s | _ \<Rightarrow> None) xs | _ \<Rightarrow> [])"

definition remove_at :: "nat \<Rightarrow> 'a list \<Rightarrow> 'a list" where
  "remove_at i xs = take i xs @ drop (Suc i) xs"

datatype factor_result = FactorRefused | FactorTotp | FactorRecovery nat

definition later_step :: "int option \<Rightarrow> int \<Rightarrow> bool" where
  "later_step lastStep step = (case lastStep of None \<Rightarrow> True | Some l \<Rightarrow> l < step)"

definition consumeSecondFactor ::
  "mfa_env \<Rightarrow> int \<Rightarrow> int \<Rightarrow> string \<Rightarrow> int \<Rightarrow> user_table \<Rightarrow> factor_result \<times> user_table" where
  "consumeSecondFactor en userId tv input now users =
     (case secondFactorKind input of
        None \<Rightarrow> (FactorRefused, users)
      | Some kind \<Rightarrow>
        (case users userId of
           None \<Rightarrow> (FactorRefused, users)
         | Some row \<Rightarrow>
           if versionOf (ur_tokenVersion row) \<noteq> tv \<or> \<not> isEnrolled (Some row) then (FactorRefused, users)
           else (case kind of
             TotpCode \<Rightarrow>
               (case Option.bind (unseal en (mr_totpSecret row)) base32Decode of
                  None \<Rightarrow> (FactorRefused, users)
                | Some secret \<Rightarrow>
                  (case matchTotp (en_hmac en) secret (trim input) now of
                     None \<Rightarrow> (FactorRefused, users)
                   | Some step \<Rightarrow>
                       if later_step (mr_totpLastStep row) step
                       then (FactorTotp, users(userId \<mapsto> row\<lparr>mr_totpLastStep := Some step\<rparr>))
                       else (FactorRefused, users)))
           | RecoveryCode \<Rightarrow>
               (let codes = string_items (mr_totpRecoveryCodes row);
                    index = indexOfHash codes (hashRecoveryCode en input) in
                if index < 0 then (FactorRefused, users)
                else let remaining = remove_at (nat index) codes in
                  (FactorRecovery (length remaining),
                   users(userId \<mapsto> row\<lparr>mr_totpRecoveryCodes := JArr (map JStr remaining)\<rparr>))))))"

section \<open>Setting up and turning off\<close>

datatype auth_method = AmPw | AmIdp | AmNone

record assurance =
  as_am :: auth_method
  as_mfa :: bool
  as_tv :: int

definition ENROLLMENT_TTL_MS :: int where "ENROLLMENT_TTL_MS = 10 * 60 * 1000"

definition refuseIdpSession :: "assurance option \<Rightarrow> bool" where
  "refuseIdpSession a = (case a of None \<Rightarrow> False | Some x \<Rightarrow> as_am x = AmIdp)"

definition passwordMatches :: "mfa_env \<Rightarrow> js \<Rightarrow> js \<Rightarrow> bool" where
  "passwordMatches en password hash = (case (password, hash) of
     (JStr p, JStr h) \<Rightarrow> p \<noteq> [] \<and> en_valid_password en p h | _ \<Rightarrow> False)"

definition assertSameVersion :: "assurance option \<Rightarrow> mfa_row \<Rightarrow> mfa_error + int" where
  "assertSameVersion a row = (let tv = versionOf (ur_tokenVersion row) in
     case a of None \<Rightarrow> Inl SessionOutdatedMfa
     | Some x \<Rightarrow> if as_tv x \<noteq> tv then Inl SessionOutdatedMfa else Inr tv)"

definition mfaSetup ::
  "mfa_env \<Rightarrow> int \<Rightarrow> assurance option \<Rightarrow> int \<Rightarrow> string \<Rightarrow> user_table \<Rightarrow> mfa_error + string \<times> string" where
  "mfaSetup en userId a now secret users =
     (if refuseIdpSession a then Inl IdpSession
      else case users userId of
        None \<Rightarrow> Inl UnauthorizedMfa
      | Some row \<Rightarrow>
        if isEnrolled (Some row) then Inl AlreadyEnabled
        else (case en_encrypt en (en_stringify en (JObj
            [(''u'', JInt userId), (''tv'', JInt (versionOf (ur_tokenVersion row))),
             (''s'', JStr secret), (''exp'', JInt (now + ENROLLMENT_TTL_MS))])) of
          None \<Rightarrow> Inl MfaUnavailable
        | Some enrollment \<Rightarrow> if enrollment = [] then Inl MfaUnavailable else Inr (secret, enrollment)))"

text \<open>\<open>typeof exp === "number"\<close> and \<open>exp > now\<close>.\<close>

definition number_after :: "js \<Rightarrow> int \<Rightarrow> bool" where
  "number_after v now = (case v of JInt n \<Rightarrow> now < n | JFrac q \<Rightarrow> of_int now < q | _ \<Rightarrow> False)"

definition is_number :: "js \<Rightarrow> bool" where
  "is_number v = (case v of JInt _ \<Rightarrow> True | JFrac _ \<Rightarrow> True | JNonFinite \<Rightarrow> True | _ \<Rightarrow> False)"

definition openEnrollment ::
  "mfa_env \<Rightarrow> int \<Rightarrow> js \<Rightarrow> int \<Rightarrow> (js \<times> byte list \<times> string) option" where
  "openEnrollment en userId sealed now =
     (case Option.bind (unseal en sealed) (en_json en) of
        Some (JObj data) \<Rightarrow>
          (case jget data ''s'' of
             JStr s \<Rightarrow>
               (case base32Decode s of
                  Some secret \<Rightarrow>
                    if jget data ''u'' \<noteq> JInt userId \<or> \<not> number_after (jget data ''exp'') now
                       \<or> \<not> is_number (jget data ''tv'')
                    then None else Some (jget data ''tv'', secret, s)
                | None \<Rightarrow> None)
           | _ \<Rightarrow> None)
      | _ \<Rightarrow> None)"

definition mfaActivate ::
  "mfa_env \<Rightarrow> int \<Rightarrow> assurance option \<Rightarrow> (string \<times> js) list \<Rightarrow> int \<Rightarrow> string list \<Rightarrow> user_table
    \<Rightarrow> (mfa_error + int \<times> string list) \<times> user_table" where
  "mfaActivate en userId a body now codes users =
     (if refuseIdpSession a then (Inl IdpSession, users)
      else case openEnrollment en userId (jget body ''enrollment'') now of
        None \<Rightarrow> (Inl EnrollmentInvalid, users)
      | Some (etv, secret, encoded) \<Rightarrow>
        (case users userId of
           None \<Rightarrow> (Inl UnauthorizedMfa, users)
         | Some row \<Rightarrow>
           if \<not> passwordMatches en (jget body ''password'') (mr_password row) then (Inl PasswordInvalid, users)
           else (case (case jget body ''code'' of
               JStr c \<Rightarrow> matchTotp (en_hmac en) secret (trim c) now | _ \<Rightarrow> None) of
             None \<Rightarrow> (Inl MfaInvalid, users)
           | Some step \<Rightarrow>
             (case en_encrypt en encoded of
                None \<Rightarrow> (Inl MfaUnavailable, users)
              | Some sealed \<Rightarrow>
                if sealed = [] then (Inl MfaUnavailable, users)
                else if isEnrolled (Some row) then (Inl AlreadyEnabled, users)
                else (case assertSameVersion a row of
                    Inl e \<Rightarrow> (Inl e, users)
                  | Inr tv \<Rightarrow>
                    if JInt tv \<noteq> etv then (Inl EnrollmentInvalid, users)
                    else (Inr (tv, codes), users(userId \<mapsto> row\<lparr>
                        mr_totpSecret := JStr sealed, ur_totpEnabledAt := JInt now,
                        mr_totpLastStep := Some step,
                        mr_totpRecoveryCodes := JArr (map (JStr \<circ> hashRecoveryCode en) codes)\<rparr>)))))))"

definition bump_version :: "js \<Rightarrow> int" where
  "bump_version v = (case v of JInt n \<Rightarrow> n + 1 | _ \<Rightarrow> 1)"

definition mfa_cleared :: "mfa_row \<Rightarrow> mfa_row" where
  "mfa_cleared row = row\<lparr>mr_totpSecret := JNull, ur_totpEnabledAt := JNull,
     mr_totpLastStep := None, mr_totpRecoveryCodes := JNull\<rparr>"

definition clearMfa :: "int \<Rightarrow> user_table \<Rightarrow> (int \<times> user_table) option" where
  "clearMfa userId users = (case users userId of
     None \<Rightarrow> None
   | Some row \<Rightarrow> let v = bump_version (ur_tokenVersion row) in
       Some (v, users(userId \<mapsto> (mfa_cleared row)\<lparr>ur_tokenVersion := JInt v\<rparr>)))"

definition mfaDisable ::
  "mfa_env \<Rightarrow> int \<Rightarrow> assurance option \<Rightarrow> (string \<times> js) list \<Rightarrow> int \<Rightarrow> user_table
    \<Rightarrow> (mfa_error + int) \<times> user_table" where
  "mfaDisable en userId a body now users =
     (case users userId of
        None \<Rightarrow> (Inl UnauthorizedMfa, users)
      | Some row \<Rightarrow>
        if \<not> isEnrolled (Some row) then (Inl MfaNotEnabled, users)
        else if \<not> passwordMatches en (jget body ''password'') (mr_password row) then (Inl PasswordInvalid, users)
        else if roleRequiresMfa (Some row) (en_required en) then (Inl MfaRequiredByRole, users)
        else (case assertSameVersion a row of
            Inl e \<Rightarrow> (Inl e, users)
          | Inr tv \<Rightarrow>
            (case consumeSecondFactor en userId tv
                (case jget body ''code'' of JStr c \<Rightarrow> c | _ \<Rightarrow> []) now users of
               (FactorRefused, _) \<Rightarrow> (Inl MfaInvalid, users)
             | (_, users') \<Rightarrow>
               (case clearMfa userId users' of
                  None \<Rightarrow> (Inl UnauthorizedMfa, users)
                | Some (v, users'') \<Rightarrow> (Inr v, users'')))))"

section \<open>No code is accepted twice\<close>

text \<open>Attempts on one account in the order the row lock gives them.\<close>

fun consume_all :: "mfa_env \<Rightarrow> int \<Rightarrow> (int \<times> string \<times> int) list \<Rightarrow> user_table \<Rightarrow> factor_result list \<times> user_table" where
  "consume_all en u [] users = ([], users)"
| "consume_all en u ((tv, input, now) # xs) users =
     (let (r, users1) = consumeSecondFactor en u tv input now users;
          (rs, users2) = consume_all en u xs users1 in (r # rs, users2))"

definition last_step :: "int \<Rightarrow> user_table \<Rightarrow> int option" where
  "last_step u users = Option.bind (users u) mr_totpLastStep"

definition stored_codes :: "int \<Rightarrow> user_table \<Rightarrow> string list" where
  "stored_codes u users = (case users u of None \<Rightarrow> [] | Some row \<Rightarrow> string_items (mr_totpRecoveryCodes row))"

definition step_le :: "int option \<Rightarrow> int option \<Rightarrow> bool" where
  "step_le a b = (case a of None \<Rightarrow> True | Some x \<Rightarrow> (case b of None \<Rightarrow> False | Some y \<Rightarrow> x \<le> y))"

lemma step_le_refl [simp]: "step_le a a"
  by (cases a) (simp_all add: step_le_def)

lemma step_le_trans: "step_le a b \<Longrightarrow> step_le b c \<Longrightarrow> step_le a c"
  by (cases a; cases b; cases c) (simp_all add: step_le_def)

lemma consume_cases:
  assumes "consumeSecondFactor en u tv input now users = (r, users')"
  obtains (refused) "r = FactorRefused" "users' = users"
  | (totp) row secret step where "r = FactorTotp" "users u = Some row" "versionOf (ur_tokenVersion row) = tv"
      "isEnrolled (Some row)" "Option.bind (unseal en (mr_totpSecret row)) base32Decode = Some secret"
      "matchTotp (en_hmac en) secret (trim input) now = Some step" "later_step (mr_totpLastStep row) step"
      "users' = users(u \<mapsto> row\<lparr>mr_totpLastStep := Some step\<rparr>)"
  | (recovery) row i where "users u = Some row" "versionOf (ur_tokenVersion row) = tv" "isEnrolled (Some row)"
      "indexOfHash (string_items (mr_totpRecoveryCodes row)) (hashRecoveryCode en input) = int i"
      "r = FactorRecovery (length (remove_at i (string_items (mr_totpRecoveryCodes row))))"
      "users' = users(u \<mapsto> row\<lparr>mr_totpRecoveryCodes :=
         JArr (map JStr (remove_at i (string_items (mr_totpRecoveryCodes row))))\<rparr>)"
proof -
  show thesis
  proof (cases "secondFactorKind input")
    case None
    then show thesis using assms refused by (simp add: consumeSecondFactor_def)
  next
    case k: (Some kind)
    show thesis
    proof (cases "users u")
      case None
      then show thesis using assms k refused by (simp add: consumeSecondFactor_def)
    next
      case r: (Some row)
      show thesis
      proof (cases "versionOf (ur_tokenVersion row) \<noteq> tv \<or> \<not> isEnrolled (Some row)")
        case True
        then show thesis using assms k r refused by (simp add: consumeSecondFactor_def)
      next
        case ok: False
        show thesis
        proof (cases kind)
          case TotpCode
          then show thesis
            using assms k r ok refused totp [of row]
            by (auto simp: consumeSecondFactor_def split: option.splits if_splits)
        next
          case RecoveryCode
          define idx where "idx = indexOfHash (string_items (mr_totpRecoveryCodes row)) (hashRecoveryCode en input)"
          show thesis
          proof (cases "idx < 0")
            case True
            then show thesis
              using assms k r ok RecoveryCode refused by (simp add: consumeSecondFactor_def Let_def idx_def)
          next
            case False
            then show thesis
              using assms k r ok RecoveryCode recovery [of row "nat idx"]
              by (simp add: consumeSecondFactor_def Let_def idx_def)
          qed
        qed
      qed
    qed
  qed
qed

lemma consume_step_le:
  assumes "consumeSecondFactor en u tv input now users = (r, users')"
  shows "step_le (last_step u users) (last_step u users')"
  using assms
  by (cases rule: consume_cases)
    (auto simp: last_step_def step_le_def later_step_def split: option.splits)

lemma consume_all_step_le: "consume_all en u xs users = (rs, users') \<Longrightarrow> step_le (last_step u users) (last_step u users')"
proof (induction xs arbitrary: users rs)
  case (Cons x xs)
  obtain tv input now where x: "x = (tv, input, now)" by (metis prod_cases3)
  obtain r users1 where c: "consumeSecondFactor en u tv input now users = (r, users1)" by (metis prod.exhaust)
  obtain rs1 users2 where d: "consume_all en u xs users1 = (rs1, users2)" by (metis prod.exhaust)
  have "users' = users2" using Cons.prems by (simp add: x c d)
  with d have "step_le (last_step u users1) (last_step u users')" by (intro Cons.IH) simp
  then show ?case using consume_step_le [OF c] step_le_trans by blast
qed simp

lemma string_items_JStr [simp]: "string_items (JArr (map JStr xs)) = xs"
  by (simp add: string_items_def) (induction xs, simp_all add: List.map_filter_simps)

lemma index_of_hash_range: "indexOfHash codes h = int i \<Longrightarrow> i < length codes"
proof -
  have "\<forall>i. foldl (\<lambda>index i. if from_hex (codes ! i) = from_hex h then int i else index) (- 1) [0..<n] = int i
      \<longrightarrow> i < n" for n
    by (induction n) (auto simp: less_Suc_eq)
  then show "indexOfHash codes h = int i \<Longrightarrow> i < length codes" by (simp add: indexOfHash_def)
qed

lemma length_remove_at: "i < length xs \<Longrightarrow> Suc (length (remove_at i xs)) = length xs"
  by (simp add: remove_at_def)

definition recovery_uses :: "factor_result list \<Rightarrow> nat" where
  "recovery_uses rs = length (filter (\<lambda>r. case r of FactorRecovery _ \<Rightarrow> True | _ \<Rightarrow> False) rs)"

lemma consume_codes:
  assumes "consumeSecondFactor en u tv input now users = (r, users')"
  shows "recovery_uses [r] + length (stored_codes u users') = length (stored_codes u users)"
  using assms
proof (cases rule: consume_cases)
  case (recovery row i)
  then show ?thesis
    using length_remove_at [OF index_of_hash_range [OF recovery(4)]]
    by (simp add: recovery_uses_def stored_codes_def)
qed (auto simp: recovery_uses_def stored_codes_def)

lemma consume_all_codes:
  "consume_all en u xs users = (rs, users') \<Longrightarrow> recovery_uses rs + length (stored_codes u users') = length (stored_codes u users)"
proof (induction xs arbitrary: users rs)
  case Nil
  then show ?case by (simp add: recovery_uses_def)
next
  case (Cons x xs)
  obtain tv input now where x: "x = (tv, input, now)" by (metis prod_cases3)
  obtain r users1 where c: "consumeSecondFactor en u tv input now users = (r, users1)" by (metis prod.exhaust)
  obtain rs1 users2 where d: "consume_all en u xs users1 = (rs1, users2)" by (metis prod.exhaust)
  have e: "users' = users2" "rs = r # rs1" using Cons.prems by (simp_all add: x c d)
  from d have "recovery_uses rs1 + length (stored_codes u users') = length (stored_codes u users1)"
    unfolding e(1) [symmetric] by (rule Cons.IH)
  then show ?case using consume_codes [OF c] by (simp add: e(2) recovery_uses_def split: factor_result.splits)
qed

text \<open>C10: No time code is accepted twice: when two attempts on an account succeed with a time code, with
  any attempts in between, the second one matched a strictly later time step than the first.\<close>

theorem totp_no_replay:
  assumes "consumeSecondFactor en u tv input now users = (FactorTotp, users1)"
    "consume_all en u attempts users1 = (rs, users2)"
    "consumeSecondFactor en u tv' input' now' users2 = (FactorTotp, users3)"
  shows "\<exists>s s'. last_step u users1 = Some s \<and> last_step u users3 = Some s' \<and> s < s' \<and>
    \<bar>s - totpStep now\<bar> \<le> 1 \<and> \<bar>s' - totpStep now'\<bar> \<le> 1"
proof -
  obtain row secret step where a: "users1 = users(u \<mapsto> row\<lparr>mr_totpLastStep := Some step\<rparr>)"
    "matchTotp (en_hmac en) secret (trim input) now = Some step"
    using assms(1) by (cases rule: consume_cases) auto
  obtain row' secret' step' where b: "users2 u = Some row'" "later_step (mr_totpLastStep row') step'"
    "users3 = users2(u \<mapsto> row'\<lparr>mr_totpLastStep := Some step'\<rparr>)"
    "matchTotp (en_hmac en) secret' (trim input') now' = Some step'"
    using assms(3) by (cases rule: consume_cases) auto
  have l: "last_step u users1 = Some step" "last_step u users3 = Some step'"
    by (simp_all add: last_step_def a(1) b(3))
  have "step_le (Some step) (mr_totpLastStep row')"
    using consume_all_step_le [OF assms(2)] l(1) by (simp add: last_step_def b(1))
  then have "step < step'"
    using b(2) by (auto simp: step_le_def later_step_def split: option.splits)
  then show ?thesis using l matchTotp_step(2) [OF a(2)] matchTotp_step(2) [OF b(4)] by blast
qed

text \<open>A recovery code is spent by its use: over any sequence of attempts the number of accepted
  recovery codes plus the codes still stored is the number stored before.\<close>

theorem recovery_codes_are_spent:
  assumes "consume_all en u attempts users = (rs, users')"
  shows "recovery_uses rs + length (stored_codes u users') = length (stored_codes u users)"
  by (rule consume_all_codes [OF assms])

text \<open>The gate lets a request pass exactly when its claims are canonical and it comes from an
  identity provider, or no second factor is required, or a password session proved one.\<close>

theorem mfa_gate_passes:
  assumes "am = jget claims ''am''" "mfa = jget claims ''mfa''"
  shows "mfaDecision (JObj claims) u rs = Pass \<longleftrightarrow>
    mfa \<in> {JUndef, JInt 1} \<and> am \<in> {JUndef, JStr ''pw'', JStr ''idp''} \<and>
    (am = JStr ''idp'' \<or> isEnrolled u = False \<and> roleRequiresMfa u rs = False \<or> am = JStr ''pw'' \<and> mfa = JInt 1)"
  using assms by (auto simp: mfaDecision_def Let_def requiredMfa_def split: option.splits)

text \<open>Clearing the second factor ends the sessions proved with it: the token version rises by one,
  a request at the old version is outdated, and no code is accepted before a new activation.\<close>

theorem clear_mfa_ends:
  assumes "clearMfa u users = Some (v, users')" "users u = Some row" "ur_tokenVersion row = JInt n"
    "0 \<le> n" "n < MAX_SAFE_INTEGER"
  shows "v = n + 1 \<and> fst (consumeSecondFactor en u tv input now users') = FactorRefused \<and>
    (\<exists>row'. users' u = Some row' \<and> versionOf (ur_tokenVersion row') = v \<and>
      assertSameVersion (Some \<lparr>as_am = am, as_mfa = m, as_tv = n\<rparr>) row' = Inl SessionOutdatedMfa)"
proof -
  define row' where "row' = (mfa_cleared row)\<lparr>ur_tokenVersion := JInt (n + 1)\<rparr>"
  have e: "v = n + 1" "users' = users(u \<mapsto> row')"
    using assms(1-3) by (auto simp: clearMfa_def Let_def bump_version_def row'_def)
  have n: "\<not> isEnrolled (Some row')" by (simp add: isEnrolled_def row'_def mfa_cleared_def)
  have t: "versionOf (ur_tokenVersion row') = n + 1"
    using assms(4,5) by (simp add: row'_def versionOf_def)
  have "fst (consumeSecondFactor en u tv input now users') = FactorRefused"
    using n by (simp add: consumeSecondFactor_def e(2) split: option.splits)
  moreover have "assertSameVersion (Some \<lparr>as_am = am, as_mfa = m, as_tv = n\<rparr>) row' = Inl SessionOutdatedMfa"
    by (simp add: assertSameVersion_def Let_def t)
  ultimately show ?thesis using e t by simp
qed

section \<open>Witnesses\<close>

text \<open>An account with the second factor on, a code hash that is the text itself and an HMAC of
  zeros, whose code is always 000000.\<close>

definition demo_env :: mfa_env where
  "demo_env = \<lparr>en_decrypt = Some, en_encrypt = Some, en_json = (\<lambda>_. None), en_stringify = (\<lambda>_. []),
     en_valid_password = (\<lambda>p h. p = h), en_sha256 = id, en_hmac = (\<lambda>_ _. replicate 20 0),
     en_required = MODERATORS\<rparr>"

definition demo_row :: mfa_row where
  "demo_row = \<lparr>ur_id = 7, ur_displayName = JStr ''Ada'', ur_username = JStr ''ada'', ur_blocked = JBool False,
     ur_role = JStr ''editor'', ur_department = None, ur_tokenVersion = JInt 3, ur_totpEnabledAt = JInt 1,
     mr_totpSecret = JStr ''AEBAGBAF'', mr_totpLastStep = None,
     mr_totpRecoveryCodes = JArr [JStr ''abababababababab''], mr_password = JStr ''x''\<rparr>"

definition demo_users :: user_table where
  "demo_users = [7 \<mapsto> demo_row]"

definition demo_users1 :: user_table where
  "demo_users1 = snd (consumeSecondFactor demo_env 7 3 ''000000'' 90000 demo_users)"

definition demo_users2 :: user_table where
  "demo_users2 = snd (consume_all demo_env 7 [(3, ''000000'', 91000)] demo_users1)"

lemma demo_runs:
  "fst (consumeSecondFactor demo_env 7 3 ''000000'' 90000 demo_users) = FactorTotp"
  "fst (consumeSecondFactor demo_env 7 3 ''000000'' 900000 demo_users2) = FactorTotp"
  by code_simp+

theorem totp_no_replay_witness:
  "\<exists>s s'. last_step 7 demo_users1 = Some s \<and>
     last_step 7 (snd (consumeSecondFactor demo_env 7 3 ''000000'' 900000 demo_users2)) = Some s' \<and> s < s' \<and>
     \<bar>s - totpStep 90000\<bar> \<le> 1 \<and> \<bar>s' - totpStep 900000\<bar> \<le> 1"
proof (rule totp_no_replay)
  show "consumeSecondFactor demo_env 7 3 ''000000'' 90000 demo_users = (FactorTotp, demo_users1)"
    using demo_runs(1) by (simp add: demo_users1_def prod_eq_iff)
  show "consume_all demo_env 7 [(3, ''000000'', 91000)] demo_users1
      = (fst (consume_all demo_env 7 [(3, ''000000'', 91000)] demo_users1), demo_users2)"
    by (simp only: demo_users2_def prod.collapse)
  show "consumeSecondFactor demo_env 7 3 ''000000'' 900000 demo_users2
      = (FactorTotp, snd (consumeSecondFactor demo_env 7 3 ''000000'' 900000 demo_users2))"
    using demo_runs(2) by (simp add: prod_eq_iff)
qed

theorem recovery_codes_are_spent_witness:
  "recovery_uses (fst (consume_all demo_env 7 [(3, ''ABAB-abab-abab-abab'', 0), (3, ''abababababababab'', 0)] demo_users))
   + length (stored_codes 7 (snd (consume_all demo_env 7 [(3, ''ABAB-abab-abab-abab'', 0), (3, ''abababababababab'', 0)] demo_users)))
   = 1"
proof -
  have "length (stored_codes 7 demo_users) = 1" by code_simp
  then show ?thesis
    using recovery_codes_are_spent [OF prod.collapse [symmetric],
      of demo_env 7 "[(3, ''ABAB-abab-abab-abab'', 0), (3, ''abababababababab'', 0)]" demo_users] by simp
qed

theorem clear_mfa_ends_witness:
  "4 = (3 :: int) + 1 \<and>
   fst (consumeSecondFactor demo_env 7 3 ''000000'' 90000 (snd (the (clearMfa 7 demo_users)))) = FactorRefused"
proof -
  have c: "clearMfa 7 demo_users = Some (4, snd (the (clearMfa 7 demo_users)))"
    by (simp add: clearMfa_def demo_users_def Let_def bump_version_def demo_row_def)
  have r: "demo_users 7 = Some demo_row" "ur_tokenVersion demo_row = JInt 3"
    by (simp_all add: demo_users_def demo_row_def)
  show ?thesis
    using clear_mfa_ends [OF c r, of demo_env 3 "''000000''" 90000] by (simp add: MAX_SAFE_INTEGER_def)
qed

theorem mfa_gate_passes_witness:
  "mfaDecision (JObj [(''am'', JStr ''pw''), (''mfa'', JInt 1)]) (Some (user_row.truncate demo_row)) MODERATORS = Pass"
  by (rule mfa_gate_passes [OF refl refl, THEN iffD2]) simp

end
