(* ===== verification/SecretCrypto.thy ===== *)
theory SecretCrypto imports Roles PlainDate Totp begin

text \<open>
  The contract of a secret share's text and envelope: \<open>packages/domain/src/secret-share.ts\<close>
  (\<open>isSecretText\<close>, \<open>secretShareAdditionalData\<close>) and \<open>apps/cms/src/utils/secret-crypto.ts\<close>.

  A text is the list of its UTF-16 code units. AES-GCM, base64url and UTF-8 of Node are the fields
  of \<open>crypto\<close>, with the contract \<open>honest_crypto\<close>. The lemmas show which texts are accepted, that an
  envelope opens to the text it was sealed from, and that its additional data names one share only.
\<close>

type_synonym text16 = "nat list"

section \<open>The text\<close>

definition SECRET_TEXT_MAX_BYTES :: nat where "SECRET_TEXT_MAX_BYTES = 8192"

text \<open>White space and line terminators of ECMAScript.\<close>

definition js_space :: "nat \<Rightarrow> bool" where
  "js_space n = (n \<in> {9, 10, 11, 12, 13, 32, 160, 5760, 8232, 8233, 8239, 8287, 12288, 65279}
     \<or> (8192 \<le> n \<and> n \<le> 8202))"

definition high_surrogate :: "nat \<Rightarrow> bool" where
  "high_surrogate n = (55296 \<le> n \<and> n \<le> 56319)"

definition low_surrogate :: "nat \<Rightarrow> bool" where
  "low_surrogate n = (56320 \<le> n \<and> n \<le> 57343)"

text \<open>A match of \<open>LONE_SURROGATE_RE\<close>; the flag says whether the unit before is a high one.\<close>

fun lone_surrogate :: "bool \<Rightarrow> text16 \<Rightarrow> bool" where
  "lone_surrogate after_high [] = False"
| "lone_surrogate after_high (c # cs) =
     (high_surrogate c \<and> (cs = [] \<or> \<not> low_surrogate (hd cs)) \<or>
      low_surrogate c \<and> \<not> after_high \<or> lone_surrogate (high_surrogate c) cs)"

text \<open>Bytes of the \<open>TextEncoder\<close>; an unpaired surrogate is encoded as U+FFFD.\<close>

fun utf8_length :: "text16 \<Rightarrow> nat" where
  "utf8_length [] = 0"
| "utf8_length (c # cs) =
     (if c < 128 then 1 + utf8_length cs
      else if c < 2048 then 2 + utf8_length cs
      else case cs of
        d # ds \<Rightarrow> if high_surrogate c \<and> low_surrogate d then 4 + utf8_length ds else 3 + utf8_length cs
      | [] \<Rightarrow> 3)"

definition secret_text :: "text16 \<Rightarrow> bool" where
  "secret_text t = (dropWhile js_space t \<noteq> [] \<and> \<not> lone_surrogate False t \<and> utf8_length t \<le> SECRET_TEXT_MAX_BYTES)"

definition isSecretText :: "js \<Rightarrow> bool" where
  "isSecretText v = (case v of JStr s \<Rightarrow> secret_text (map of_char s) | _ \<Rightarrow> False)"

section \<open>The envelope\<close>

record binding =
  bd_documentId :: string
  bd_senderId :: int
  bd_recipientId :: int
  bd_expiresAt :: int

text \<open>\<open>toISOString\<close>: four digits of year, or a sign and six outside 0 to 9999.\<close>

definition iso_string :: "int \<Rightarrow> string" where
  "iso_string t =
     (let (y, m, d) = utc_civil t; tod = t mod DAY_MS in
      (if 0 \<le> y \<and> y \<le> 9999 then pad y 4
       else (if y < 0 then CHR ''-'' else CHR ''+'') # pad \<bar>y\<bar> 6) @ ''-'' @ pad (m + 1) 2 @ ''-'' @ pad d 2
      @ ''T'' @ pad (tod div 3600000) 2 @ '':'' @ pad (tod div 60000 mod 60) 2 @ '':'' @ pad (tod div 1000 mod 60) 2
      @ ''.'' @ pad (tod mod 1000) 3 @ ''Z'')"

text \<open>\<open>None\<close> is a throw on a malformed field.\<close>

definition secretShareAdditionalData :: "binding \<Rightarrow> string option" where
  "secretShareAdditionalData b =
     (if \<not> is_document_id (bd_documentId b) then None
      else if \<not> is_row_id (bd_senderId b) \<or> \<not> is_row_id (bd_recipientId b) then None
      else if time_clip (bd_expiresAt b) = None then None
      else Some (join ''|'' [''v1'', bd_documentId b, str_of_int (bd_senderId b), str_of_int (bd_recipientId b),
        iso_string (bd_expiresAt b)]))"

record crypto =
  cr_seal :: "byte list \<Rightarrow> byte list \<Rightarrow> string \<Rightarrow> byte list \<Rightarrow> byte list"
  cr_open :: "byte list \<Rightarrow> byte list \<Rightarrow> string \<Rightarrow> byte list \<Rightarrow> byte list option"
  cr_base64 :: "byte list \<Rightarrow> string"
  cr_unbase64 :: "string \<Rightarrow> byte list"
  cr_utf8 :: "text16 \<Rightarrow> byte list"
  cr_text :: "byte list \<Rightarrow> text16"

definition SECRET_KEY_MIN_CHARS :: nat where "SECRET_KEY_MIN_CHARS = 32"

definition isUsableEncryptionKey :: "js \<Rightarrow> bool" where
  "isUsableEncryptionKey v = (case v of JStr s \<Rightarrow> SECRET_KEY_MIN_CHARS \<le> length s | _ \<Rightarrow> False)"

text \<open>\<open>configureShareKey\<close> and \<open>shareKey\<close>: the key derived from a usable ENCRYPTION_KEY.\<close>

definition shareKey :: "(string \<Rightarrow> byte list) \<Rightarrow> js \<Rightarrow> byte list option" where
  "shareKey derive v = (case v of JStr s \<Rightarrow> if isUsableEncryptionKey v then Some (derive s) else None | _ \<Rightarrow> None)"

definition sealEnvelope :: "crypto \<Rightarrow> byte list \<Rightarrow> byte list \<Rightarrow> text16 \<Rightarrow> binding \<Rightarrow> string option" where
  "sealEnvelope cr key nonce text b =
     map_option (\<lambda>aad. join ''.'' [''v1'', cr_base64 cr nonce, cr_base64 cr (cr_seal cr key nonce aad (cr_utf8 cr text))])
       (secretShareAdditionalData b)"

definition is_base64url :: "char \<Rightarrow> bool" where
  "is_base64url c = (char_in CHR ''A'' CHR ''Z'' c \<or> char_in CHR ''a'' CHR ''z'' c \<or> is_digit c
     \<or> c = CHR ''_'' \<or> c = CHR ''-'')"

definition decode_part :: "crypto \<Rightarrow> string \<Rightarrow> byte list option" where
  "decode_part cr part =
     (if part = [] \<or> \<not> list_all is_base64url part then None
      else let bytes = cr_unbase64 cr part in if cr_base64 cr bytes = part then Some bytes else None)"

definition NONCE_BYTES :: nat where "NONCE_BYTES = 12"

definition TAG_BYTES :: nat where "TAG_BYTES = 16"

definition openEnvelope :: "crypto \<Rightarrow> byte list \<Rightarrow> string \<Rightarrow> binding \<Rightarrow> text16 option" where
  "openEnvelope cr key envelope b =
     (case split_on CHR ''.'' envelope of
        [version, n, c] \<Rightarrow>
          if version \<noteq> ''v1'' then None
          else (case (decode_part cr n, decode_part cr c) of
              (Some nonce, Some body) \<Rightarrow>
                if length nonce \<noteq> NONCE_BYTES \<or> length body \<le> TAG_BYTES then None
                else (case secretShareAdditionalData b of
                    None \<Rightarrow> None
                  | Some aad \<Rightarrow> map_option (cr_text cr) (cr_open cr key nonce aad body))
            | _ \<Rightarrow> None)
      | _ \<Rightarrow> None)"

text \<open>
  What Node documents: GCM opens what it sealed under the same key, nonce and additional data and
  appends a 16-byte tag; base64url text is over its alphabet and decodes to what was encoded; UTF-8
  keeps every well-formed text.
\<close>

definition honest_crypto :: "crypto \<Rightarrow> bool" where
  "honest_crypto cr =
     ((\<forall>k n a p. cr_open cr k n a (cr_seal cr k n a p) = Some p \<and> length (cr_seal cr k n a p) = length p + TAG_BYTES) \<and>
      (\<forall>b. cr_unbase64 cr (cr_base64 cr b) = b \<and> list_all is_base64url (cr_base64 cr b) \<and> (cr_base64 cr b = [] \<longrightarrow> b = [])) \<and>
      (\<forall>t. \<not> lone_surrogate False t \<and> (\<forall>c \<in> set t. c < 65536) \<longrightarrow>
         cr_text cr (cr_utf8 cr t) = t \<and> (cr_utf8 cr t = [] \<longrightarrow> t = [])))"

section \<open>Facts\<close>

text \<open>The reference: a text is a sequence of Unicode scalar values.\<close>

definition scalar :: "nat \<Rightarrow> bool" where
  "scalar n = (n < 55296 \<or> 57343 < n \<and> n < 1114112)"

definition utf16 :: "nat \<Rightarrow> text16" where
  "utf16 n = (if n < 65536 then [n] else [55296 + (n - 65536) div 1024, 56320 + (n - 65536) mod 1024])"

definition utf8_size :: "nat \<Rightarrow> nat" where
  "utf8_size n = (if n < 128 then 1 else if n < 2048 then 2 else if n < 65536 then 3 else 4)"

fun decode16 :: "text16 \<Rightarrow> nat list" where
  "decode16 [] = []"
| "decode16 [c] = [c]"
| "decode16 (c # d # ds) =
     (if high_surrogate c \<and> low_surrogate d
      then (65536 + (c - 55296) * 1024 + (d - 56320)) # decode16 ds
      else c # decode16 (d # ds))"

lemma utf16_pair:
  assumes "high_surrogate c" "low_surrogate d"
  shows "utf16 (65536 + (c - 55296) * 1024 + (d - 56320)) = [c, d]"
    "scalar (65536 + (c - 55296) * 1024 + (d - 56320))"
proof -
  define a b where "a = c - 55296" and "b = d - 56320"
  have "55296 \<le> c" "c \<le> 56319" "56320 \<le> d" "d \<le> 57343"
    using assms by (simp_all add: high_surrogate_def low_surrogate_def)
  then have a: "c = 55296 + a" "a < 1024" and b: "d = 56320 + b" "b < 1024"
    unfolding a_def b_def by linarith+
  show "utf16 (65536 + (c - 55296) * 1024 + (d - 56320)) = [c, d]"
    "scalar (65536 + (c - 55296) * 1024 + (d - 56320))"
    using a(2) b(2) by (simp_all add: a(1) b(1) utf16_def scalar_def)
qed

lemma decode16_spec:
  "\<not> lone_surrogate False t \<Longrightarrow> \<forall>c \<in> set t. c < 65536 \<Longrightarrow>
   (\<forall>n \<in> set (decode16 t). scalar n) \<and> concat (map utf16 (decode16 t)) = t \<and>
   sum_list (map utf8_size (decode16 t)) = utf8_length t"
proof (induction t rule: decode16.induct)
  case (2 c)
  then show ?case
    by (auto simp: utf16_def scalar_def utf8_size_def high_surrogate_def low_surrogate_def)
next
  case (3 c d ds)
  show ?case
  proof (cases "high_surrogate c \<and> low_surrogate d")
    case True
    then have "\<not> high_surrogate d" by (auto simp: high_surrogate_def low_surrogate_def)
    then have "\<not> lone_surrogate False ds" using "3.prems"(1) True by simp
    then have ih: "(\<forall>n \<in> set (decode16 ds). scalar n) \<and> concat (map utf16 (decode16 ds)) = ds \<and>
      sum_list (map utf8_size (decode16 ds)) = utf8_length ds"
      using "3.IH"(1) [OF True] "3.prems"(2) by simp
    have "\<not> c < 2048" using True by (simp add: high_surrogate_def)
    moreover have "utf8_size (65536 + (c - 55296) * 1024 + (d - 56320)) = 4" by (simp add: utf8_size_def)
    ultimately show ?thesis using True ih utf16_pair by simp
  next
    case False
    then have c: "\<not> high_surrogate c" "\<not> low_surrogate c" using "3.prems"(1) by auto
    then have "\<not> lone_surrogate False (d # ds)" using "3.prems"(1) by simp
    from "3.IH"(2) [OF False this] "3.prems"(2)
    have ih: "(\<forall>n \<in> set (decode16 (d # ds)). scalar n) \<and> concat (map utf16 (decode16 (d # ds))) = d # ds \<and>
      sum_list (map utf8_size (decode16 (d # ds))) = utf8_length (d # ds)" by simp
    have "c < 65536" using "3.prems"(2) by simp
    then have "utf16 c = [c]" "scalar c" "utf8_size c = (if c < 128 then 1 else if c < 2048 then 2 else 3)"
      using c by (auto simp: utf16_def scalar_def utf8_size_def high_surrogate_def low_surrogate_def)
    then show ?thesis using ih c by simp
  qed
qed simp

lemma utf8_length_single: "\<not> high_surrogate n \<Longrightarrow>
  utf8_length (n # r) = (if n < 128 then 1 else if n < 2048 then 2 else 3) + utf8_length r"
  by (cases r) auto

lemma encode16_spec:
  "\<forall>n \<in> set ns. scalar n \<Longrightarrow> \<not> lone_surrogate False (concat (map utf16 ns)) \<and>
   utf8_length (concat (map utf16 ns)) = sum_list (map utf8_size ns) \<and>
   (concat (map utf16 ns) = [] \<or> \<not> low_surrogate (hd (concat (map utf16 ns))))"
proof (induction ns)
  case (Cons n ns)
  let ?r = "concat (map utf16 ns)"
  have ih: "\<not> lone_surrogate False ?r" "utf8_length ?r = sum_list (map utf8_size ns)" using Cons by simp_all
  show ?case
  proof (cases "n < 65536")
    case True
    then have "\<not> high_surrogate n" "\<not> low_surrogate n"
      using Cons.prems by (auto simp: scalar_def high_surrogate_def low_surrogate_def)
    moreover have "utf16 n = [n]" "utf8_size n = (if n < 128 then 1 else if n < 2048 then 2 else 3)"
      using True by (simp_all add: utf16_def utf8_size_def)
    ultimately show ?thesis using ih by (simp add: utf8_length_single del: utf8_length.simps)
  next
    case False
    define h l where "h = 55296 + (n - 65536) div 1024" and "l = 56320 + (n - 65536) mod 1024"
    have "n < 1114112" using Cons.prems False by (auto simp: scalar_def)
    then have "(n - 65536) div 1024 < 1024" by (simp add: less_mult_imp_div_less)
    then have h: "high_surrogate h" by (simp add: high_surrogate_def h_def)
    have "(n - 65536) mod 1024 < 1024" by simp
    then have l: "low_surrogate l" by (simp add: low_surrogate_def l_def)
    have "\<not> low_surrogate h" "\<not> high_surrogate l"
      using h l by (simp_all add: high_surrogate_def low_surrogate_def)
    moreover have "\<not> h < 2048" by (simp add: h_def)
    moreover have "utf16 n = [h, l]" using False by (simp add: utf16_def h_def l_def)
    moreover have "utf8_size n = 4" using False by (simp add: utf8_size_def)
    ultimately show ?thesis using h l ih by simp
  qed
qed simp

lemma dropWhile_nonempty: "dropWhile P t \<noteq> [] \<longleftrightarrow> (\<exists>c \<in> set t. \<not> P c)"
  by auto

text \<open>A text may be shared exactly when it is the UTF-16 form of a sequence of Unicode scalar values
  that is not all white space and takes at most 8192 bytes in UTF-8.\<close>

theorem secret_text_iff:
  assumes "\<forall>c \<in> set t. c < 65536"
  shows "secret_text t \<longleftrightarrow> (\<exists>ns. (\<forall>n \<in> set ns. scalar n) \<and> t = concat (map utf16 ns) \<and>
    sum_list (map utf8_size ns) \<le> 8192) \<and> (\<exists>c \<in> set t. \<not> js_space c)"
proof
  assume s: "secret_text t"
  then show "(\<exists>ns. (\<forall>n \<in> set ns. scalar n) \<and> t = concat (map utf16 ns) \<and>
    sum_list (map utf8_size ns) \<le> 8192) \<and> (\<exists>c \<in> set t. \<not> js_space c)"
    using decode16_spec [OF _ assms] dropWhile_nonempty [of js_space t]
    by (intro conjI exI [of _ "decode16 t"]) (auto simp: secret_text_def SECRET_TEXT_MAX_BYTES_def)
next
  assume "(\<exists>ns. (\<forall>n \<in> set ns. scalar n) \<and> t = concat (map utf16 ns) \<and>
    sum_list (map utf8_size ns) \<le> 8192) \<and> (\<exists>c \<in> set t. \<not> js_space c)"
  then obtain ns where "\<forall>n \<in> set ns. scalar n" "t = concat (map utf16 ns)"
    "sum_list (map utf8_size ns) \<le> 8192" "\<exists>c \<in> set t. \<not> js_space c" by blast
  then show "secret_text t"
    using encode16_spec [of ns] dropWhile_nonempty [of js_space t]
    by (simp add: secret_text_def SECRET_TEXT_MAX_BYTES_def)
qed

theorem secret_text_iff_witness:
  "secret_text [55357, 56960] \<longleftrightarrow> (\<exists>ns. (\<forall>n \<in> set ns. scalar n) \<and> [55357, 56960] = concat (map utf16 ns) \<and>
    sum_list (map utf8_size ns) \<le> 8192) \<and> (\<exists>c \<in> set [55357, 56960]. \<not> js_space c)"
  by (rule secret_text_iff) simp

section \<open>Envelopes\<close>

lemma join_split_no_sep:
  "ps \<noteq> [] \<Longrightarrow> \<forall>p \<in> set ps. c \<notin> set p \<Longrightarrow> split_on c (join [c] ps) = ps"
proof (induction ps)
  case (Cons p ps)
  then show ?case by (cases ps) (auto simp: split_on_single split_on_append)
qed simp

lemma set_pad_nonneg: "0 \<le> n \<Longrightarrow> c \<in> set (pad n w) \<Longrightarrow> is_digit c"
  by (rule pad_digits)

lemma str_of_int_digits: "0 \<le> n \<Longrightarrow> c \<in> set (str_of_int n) \<Longrightarrow> is_digit c"
  by (auto simp: str_of_int_def dest: set_nat_digits)

lemma num_of_str: "0 \<le> n \<Longrightarrow> num_of (str_of_int n) = n"
  by (simp add: str_of_int_def)

text \<open>The fields of an ISO date-time can be read back.\<close>

lemma iso_fields:
  assumes "utc_civil t = (y, m, d)"
  shows "0 \<le> m + 1" "m + 1 < 100" "0 \<le> d" "d < 100" "t = day_of_civil y m d * DAY_MS + t mod DAY_MS"
    "0 \<le> t mod DAY_MS div 3600000" "t mod DAY_MS div 3600000 < 100"
    "0 \<le> t mod DAY_MS div 60000 mod 60" "t mod DAY_MS div 60000 mod 60 < 100"
    "0 \<le> t mod DAY_MS div 1000 mod 60" "t mod DAY_MS div 1000 mod 60 < 100"
    "0 \<le> t mod DAY_MS mod 1000" "t mod DAY_MS mod 1000 < 1000"
proof -
  have c: "civil_of_day (t div DAY_MS) = (y, m, d)" using assms by (simp add: utc_civil_def)
  note r = day_of_civil_of_day [OF c]
  show "0 \<le> m + 1" "m + 1 < 100" "0 \<le> d" "d < 100"
    using r(1) month_len_pos [of m y] by (auto simp: real_civil_def)
  show "t = day_of_civil y m d * DAY_MS + t mod DAY_MS" unfolding r(2) by simp
  have "t mod DAY_MS div 3600000 < 24" by simp
  then show "t mod DAY_MS div 3600000 < 100" by linarith
  have "x mod 60 < 100" for x :: int using pos_mod_bound [of 60 x] by linarith
  then show "t mod DAY_MS div 60000 mod 60 < 100" "t mod DAY_MS div 1000 mod 60 < 100" by blast+
  show "0 \<le> t mod DAY_MS div 3600000" "0 \<le> t mod DAY_MS div 60000 mod 60" "0 \<le> t mod DAY_MS div 1000 mod 60"
    "0 \<le> t mod DAY_MS mod 1000" "t mod DAY_MS mod 1000 < 1000" by simp_all
qed

lemma tod_split: "0 \<le> (u::int) \<Longrightarrow> u = u div 3600000 * 3600000 + u div 60000 mod 60 * 60000 + u div 1000 mod 60 * 1000 + u mod 1000"
proof -
  define a b where "a = u div 1000" and "b = a div 60"
  have 1: "u div 60000 = b" by (simp add: a_def b_def zdiv_zmult2_eq [symmetric])
  have 2: "u div 3600000 = b div 60" by (simp add: 1 [symmetric] zdiv_zmult2_eq [symmetric])
  have "u = q * 3600000 + r * 60000 + v * 1000 + w"
    if "b = q * 60 + r" "a = b * 60 + v" "u = a * 1000 + w" for q r v w
    using that by simp
  moreover have "b = b div 60 * 60 + b mod 60" "a = b * 60 + a mod 60" "u = a * 1000 + u mod 1000"
    by (simp_all add: a_def b_def)
  ultimately show ?thesis unfolding 1 2 a_def [symmetric] by blast
qed

lemma length_pad3: "0 \<le> n \<Longrightarrow> n < 1000 \<Longrightarrow> length (pad n 3) = 3"
  using length_pad [of n 2] by (simp add: numeral_eq_Suc)

lemma length_pad6: "0 \<le> n \<Longrightarrow> n < 1000000 \<Longrightarrow> length (pad n 6) = 6"
  using length_pad [of n 5] by (simp add: numeral_eq_Suc)

definition iso_rest :: "int \<Rightarrow> int \<Rightarrow> int \<Rightarrow> string" where
  "iso_rest m d tod = ''-'' @ pad (m + 1) 2 @ ''-'' @ pad d 2
      @ ''T'' @ pad (tod div 3600000) 2 @ '':'' @ pad (tod div 60000 mod 60) 2 @ '':'' @ pad (tod div 1000 mod 60) 2
      @ ''.'' @ pad (tod mod 1000) 3 @ ''Z''"

lemma app_inj: "length a = length b \<Longrightarrow> a @ x = b @ y \<longleftrightarrow> a = b \<and> x = y"
  by simp

lemma pad_inj: "0 \<le> a \<Longrightarrow> 0 \<le> b \<Longrightarrow> pad a w = pad b w \<longleftrightarrow> a = b"
  by (metis num_of_pad')

lemma iso_rest_inj:
  assumes "iso_rest m d u = iso_rest m' d' u'" "0 \<le> u" "0 \<le> u'"
    "0 \<le> m + 1" "m + 1 < 100" "0 \<le> d" "d < 100" "0 \<le> m' + 1" "m' + 1 < 100" "0 \<le> d'" "d' < 100"
    "u div 3600000 < 100" "u' div 3600000 < 100"
  shows "m = m' \<and> d = d' \<and> u = u'"
proof -
  have r: "0 \<le> u div 3600000" "0 \<le> u' div 3600000" using assms(2,3) by simp_all
  have l: "length (pad x 2) = 2" if "0 \<le> x" "x < 100" for x using that by (rule length_pad2)
  have s: "x mod 60 < 100" for x :: int using pos_mod_bound [of 60 x] by linarith
  note L = l [OF assms(4,5)] l [OF assms(6,7)] l [OF assms(8,9)] l [OF assms(10,11)]
    l [OF r(1) assms(12)] l [OF r(2) assms(13)]
  have L2: "length (pad (u div 60000 mod 60) 2) = 2" "length (pad (u' div 60000 mod 60) 2) = 2"
    "length (pad (u div 1000 mod 60) 2) = 2" "length (pad (u' div 1000 mod 60) 2) = 2"
    by (rule l; simp add: s)+
  have L3: "length (pad (u mod 1000) 3) = 3" "length (pad (u' mod 1000) 3) = 3"
    by (rule length_pad3; simp)+
  have P: "pad (m + 1) 2 = pad (m' + 1) 2" "pad d 2 = pad d' 2"
    "pad (u div 3600000) 2 = pad (u' div 3600000) 2"
    "pad (u div 60000 mod 60) 2 = pad (u' div 60000 mod 60) 2"
    "pad (u div 1000 mod 60) 2 = pad (u' div 1000 mod 60) 2" "pad (u mod 1000) 3 = pad (u' mod 1000) 3"
    using assms(1) unfolding iso_rest_def
    by (simp_all only: append.simps list.inject append_eq_append_conv L L2 L3 simp_thms)
  have z: "0 \<le> x mod 60" "0 \<le> x mod 1000" for x :: int by simp_all
  have "m + 1 = m' + 1" "d = d'" using P(1,2) pad_inj [OF assms(4,8)] pad_inj [OF assms(6,10)] by blast+
  moreover have q: "u div 3600000 = u' div 3600000" "u div 60000 mod 60 = u' div 60000 mod 60"
    "u div 1000 mod 60 = u' div 1000 mod 60" "u mod 1000 = u' mod 1000"
    using P(3-6) pad_inj [OF r] pad_inj [OF z(1) z(1)] pad_inj [OF z(2) z(2)] by blast+
  moreover have "u = u'" using tod_split [OF assms(2)] tod_split [OF assms(3)] unfolding q by linarith
  ultimately show ?thesis by simp
qed

lemma year_bound:
  assumes "time_clip t = Some t'" "utc_civil t = (y, m, d)"
  shows "\<bar>y\<bar> < 1000000"
proof -
  have t: "\<bar>t\<bar> \<le> 8640000000000000" using assms(1) by (simp add: time_clip_def split: if_splits)
  have c: "civil_of_day (t div DAY_MS) = (y, m, d)" using assms(2) by (simp add: utc_civil_def)
  note r = day_of_civil_of_day [OF c]
  have "- 100000000 \<le> t div DAY_MS" "t div DAY_MS \<le> 100000000" using t by simp_all
  then have b: "day_from_year y \<le> 100000000" "- 100000000 < day_from_year (y + 1)"
    using day_of_civil_bounds [OF r(1)] unfolding r(2) by linarith+
  have z: "day_from_year 0 = - 719528" by (simp add: day_from_year_def)
  have "y < 1000000"
    using b(1) day_from_year_mono [of 0 y] z by (cases "0 \<le> y") auto
  moreover have "- 1000000 < y"
    using b(2) day_from_year_mono [of "y + 1" 0] z by (cases "y + 1 \<le> 0") auto
  ultimately show ?thesis by simp
qed

lemma iso_string_eq:
  "utc_civil t = (y, m, d) \<Longrightarrow> iso_string t =
    (if 0 \<le> y \<and> y \<le> 9999 then pad y 4 else (if y < 0 then CHR ''-'' else CHR ''+'') # pad \<bar>y\<bar> 6)
    @ iso_rest m d (t mod DAY_MS)"
  by (simp add: iso_string_def iso_rest_def Let_def)

lemma pad_hd_digit: "0 \<le> y \<Longrightarrow> length (pad y w) = Suc k \<Longrightarrow> \<exists>c r. pad y w = c # r \<and> is_digit c"
  using pad_digits [of y _ w] by (cases "pad y w") auto

lemma iso_string_inj:
  assumes "time_clip t = Some a" "time_clip t' = Some a'" "iso_string t = iso_string t'"
  shows "t = t'"
proof -
  obtain y m d where c: "utc_civil t = (y, m, d)" by (metis prod_cases3)
  obtain y' m' d' where c': "utc_civil t' = (y', m', d')" by (metis prod_cases3)
  note f = iso_fields [OF c] and f' = iso_fields [OF c']
  note b = year_bound [OF assms(1) c] and b' = year_bound [OF assms(2) c']
  have u: "0 \<le> t mod DAY_MS" "0 \<le> t' mod DAY_MS" by simp_all
  let ?r = "iso_rest m d (t mod DAY_MS)" and ?r' = "iso_rest m' d' (t' mod DAY_MS)"
  have e: "(if 0 \<le> y \<and> y \<le> 9999 then pad y 4 else (if y < 0 then CHR ''-'' else CHR ''+'') # pad \<bar>y\<bar> 6) @ ?r
    = (if 0 \<le> y' \<and> y' \<le> 9999 then pad y' 4 else (if y' < 0 then CHR ''-'' else CHR ''+'') # pad \<bar>y'\<bar> 6) @ ?r'"
    using assms(3) unfolding iso_string_eq [OF c] iso_string_eq [OF c'] .
  have l6: "length (pad \<bar>y\<bar> 6) = 6" "length (pad \<bar>y'\<bar> 6) = 6"
    using b b' by (simp_all add: length_pad6)
  have sg: "\<not> is_digit CHR ''-''" "\<not> is_digit CHR ''+''" by (simp_all add: is_digit_def)
  have "y = y' \<and> ?r = ?r'"
  proof (cases "0 \<le> y \<and> y \<le> 9999"; cases "0 \<le> y' \<and> y' \<le> 9999")
    assume "0 \<le> y \<and> y \<le> 9999" "0 \<le> y' \<and> y' \<le> 9999"
    then show ?thesis using e length_pad4 [of y] length_pad4 [of y'] pad_inj [of y y' 4] by simp
  next
    assume a: "0 \<le> y \<and> y \<le> 9999" "\<not> (0 \<le> y' \<and> y' \<le> 9999)"
    then obtain x r where "pad y 4 = x # r" "is_digit x"
      using pad_hd_digit [of y 4 3] length_pad4 [of y] by auto
    then show ?thesis using e a sg by (auto split: if_splits)
  next
    assume a: "\<not> (0 \<le> y \<and> y \<le> 9999)" "0 \<le> y' \<and> y' \<le> 9999"
    then obtain x r where "pad y' 4 = x # r" "is_digit x"
      using pad_hd_digit [of y' 4 3] length_pad4 [of y'] by auto
    then show ?thesis using e a sg by (auto split: if_splits)
  next
    assume a: "\<not> (0 \<le> y \<and> y \<le> 9999)" "\<not> (0 \<le> y' \<and> y' \<le> 9999)"
    have "(if y < 0 then CHR ''-'' else CHR ''+'') # (pad \<bar>y\<bar> 6 @ ?r)
      = (if y' < 0 then CHR ''-'' else CHR ''+'') # (pad \<bar>y'\<bar> 6 @ ?r')"
      using e unfolding if_not_P [OF a(1)] if_not_P [OF a(2)] by (simp only: append_Cons)
    then have "(if y < 0 then CHR ''-'' else CHR ''+'') = (if y' < 0 then CHR ''-'' else CHR ''+'')"
      "pad \<bar>y\<bar> 6 @ ?r = pad \<bar>y'\<bar> 6 @ ?r'" unfolding list.inject by blast+
    moreover from this(2) have "pad \<bar>y\<bar> 6 = pad \<bar>y'\<bar> 6" "?r = ?r'" using l6 by (simp_all add: app_inj)
    ultimately show ?thesis using pad_inj [of "\<bar>y\<bar>" "\<bar>y'\<bar>" 6] by (auto split: if_splits)
  qed
  then have y: "y = y'" and "?r = ?r'" by simp_all
  then have "m = m' \<and> d = d' \<and> t mod DAY_MS = t' mod DAY_MS"
    using f(1-4,6-) f'(1-4,6-) u by (intro iso_rest_inj) assumption+
  then have "day_of_civil y m d * DAY_MS + t mod DAY_MS = day_of_civil y' m' d' * DAY_MS + t' mod DAY_MS"
    using y by (simp only:)
  then show ?thesis by (rule trans [OF f(5) trans [OF _ f'(5) [symmetric]]])
qed

lemma iso_rest_no_bar: "c = CHR ''|'' \<Longrightarrow> 0 \<le> m + 1 \<Longrightarrow> 0 \<le> d \<Longrightarrow> 0 \<le> u \<Longrightarrow> c \<notin> set (iso_rest m d u)"
proof -
  assume a: "c = CHR ''|''" "0 \<le> m + 1" "0 \<le> d" "0 \<le> u"
  have nd: "\<not> is_digit CHR ''|''" by (simp add: is_digit_def)
  have p: "CHR ''|'' \<notin> set (pad n w)" if "0 \<le> n" for n w using pad_digits [OF that] nd by blast
  have "0 \<le> u div 3600000" "0 \<le> u div 60000 mod 60" "0 \<le> u div 1000 mod 60" "0 \<le> u mod 1000"
    using a(4) by simp_all
  then show ?thesis using a p by (simp add: iso_rest_def)
qed

lemma iso_string_no_bar: "CHR ''|'' \<notin> set (iso_string t)"
proof -
  obtain y m d where c: "utc_civil t = (y, m, d)" by (metis prod_cases3)
  note f = iso_fields [OF c]
  have nd: "\<not> is_digit CHR ''|''" by (simp add: is_digit_def)
  have p: "CHR ''|'' \<notin> set (pad n w)" if "0 \<le> n" for n w using pad_digits [OF that] nd by blast
  have "CHR ''|'' \<notin> set (iso_rest m d (t mod DAY_MS))" using f(1,3) by (intro iso_rest_no_bar) simp_all
  then show ?thesis unfolding iso_string_eq [OF c] using p by simp
qed

text \<open>The additional data names exactly one share: two bindings with the same string are the same
  binding, so an envelope moved to another row, pair of people or expiry is opened with other
  additional data.\<close>

theorem additional_data_unambiguous:
  assumes "secretShareAdditionalData b = Some s" "secretShareAdditionalData b' = Some s"
  shows "b = b'"
proof -
  let ?f = "\<lambda>b. [''v1'', bd_documentId b, str_of_int (bd_senderId b), str_of_int (bd_recipientId b), iso_string (bd_expiresAt b)]"
  have nd: "\<not> is_digit CHR ''|''" by (simp add: is_digit_def)
  have fields: "split_on CHR ''|'' s = ?f b \<and> 0 \<le> bd_senderId b \<and> 0 \<le> bd_recipientId b \<and>
      (\<exists>a. time_clip (bd_expiresAt b) = Some a)" if "secretShareAdditionalData b = Some s" for b
  proof -
    have w: "is_document_id (bd_documentId b)" "is_row_id (bd_senderId b)" "is_row_id (bd_recipientId b)"
      "\<exists>a. time_clip (bd_expiresAt b) = Some a" "s = join ''|'' (?f b)"
      using that by (auto simp: secretShareAdditionalData_def split: if_splits)
    then have p: "0 \<le> bd_senderId b" "0 \<le> bd_recipientId b" by (simp_all add: is_row_id_def)
    have "\<forall>q \<in> set (?f b). CHR ''|'' \<notin> set q"
      using document_id_no_bar [OF w(1)] str_of_int_digits [OF p(1)] str_of_int_digits [OF p(2)] nd
        iso_string_no_bar [of "bd_expiresAt b"] by auto
    then show ?thesis using w p join_split_no_sep [of "?f b" "CHR ''|''"] by simp
  qed
  note B = fields [OF assms(1)] and B' = fields [OF assms(2)]
  have e: "bd_documentId b = bd_documentId b'" "str_of_int (bd_senderId b) = str_of_int (bd_senderId b')"
    "str_of_int (bd_recipientId b) = str_of_int (bd_recipientId b')"
    "iso_string (bd_expiresAt b) = iso_string (bd_expiresAt b')" using B B' by simp_all
  have "bd_senderId b = bd_senderId b'" "bd_recipientId b = bd_recipientId b'"
    using e(2,3) B B' num_of_str by metis+
  moreover have "bd_expiresAt b = bd_expiresAt b'" using B B' e(4) iso_string_inj by blast
  ultimately show ?thesis using e(1) by simp
qed

theorem additional_data_unambiguous_witness:
  "\<lparr>bd_documentId = ''a23456789012345678901234'', bd_senderId = 1, bd_recipientId = 2, bd_expiresAt = 0\<rparr>
   = \<lparr>bd_documentId = ''a23456789012345678901234'', bd_senderId = 1, bd_recipientId = 2, bd_expiresAt = 0\<rparr>"
proof (rule additional_data_unambiguous)
  show "secretShareAdditionalData \<lparr>bd_documentId = ''a23456789012345678901234'', bd_senderId = 1, bd_recipientId = 2,
      bd_expiresAt = 0\<rparr> = Some ''v1|a23456789012345678901234|1|2|1970-01-01T00:00:00.000Z''"
    "secretShareAdditionalData \<lparr>bd_documentId = ''a23456789012345678901234'', bd_senderId = 1, bd_recipientId = 2,
      bd_expiresAt = 0\<rparr> = Some ''v1|a23456789012345678901234|1|2|1970-01-01T00:00:00.000Z''"
    by code_simp+
qed

lemma decode_part_base64:
  assumes "honest_crypto cr" "x \<noteq> []"
  shows "decode_part cr (cr_base64 cr x) = Some x"
  using assms by (auto simp: honest_crypto_def decode_part_def Let_def)

lemma base64_no_dot:
  assumes "honest_crypto cr" shows "CHR ''.'' \<notin> set (cr_base64 cr x)"
proof -
  have "\<not> is_base64url CHR ''.''" by (simp add: is_base64url_def char_in_def is_digit_def)
  then show ?thesis using assms by (auto simp: honest_crypto_def list_all_iff)
qed

lemma open_sealed:
  assumes "honest_crypto cr" "length nonce = NONCE_BYTES" "secret_text t" "\<forall>c \<in> set t. c < 65536"
    "sealEnvelope cr key nonce t b = Some e"
  shows "openEnvelope cr key e b = Some t"
proof -
  obtain aad where a: "secretShareAdditionalData b = Some aad"
    and e: "e = join ''.'' [''v1'', cr_base64 cr nonce, cr_base64 cr (cr_seal cr key nonce aad (cr_utf8 cr t))]"
    using assms(5) by (auto simp: sealEnvelope_def)
  have sp: "split_on CHR ''.'' e = [''v1'', cr_base64 cr nonce, cr_base64 cr (cr_seal cr key nonce aad (cr_utf8 cr t))]"
    unfolding e using base64_no_dot [OF assms(1)] by (intro join_split_no_sep) auto
  have t: "\<not> lone_surrogate False t" "t \<noteq> []" using assms(3) by (auto simp: secret_text_def)
  have u: "cr_text cr (cr_utf8 cr t) = t" "cr_utf8 cr t \<noteq> []"
    using assms(1,4) t by (auto simp: honest_crypto_def)
  have s: "cr_open cr key nonce aad (cr_seal cr key nonce aad (cr_utf8 cr t)) = Some (cr_utf8 cr t)"
    "length (cr_seal cr key nonce aad (cr_utf8 cr t)) = length (cr_utf8 cr t) + TAG_BYTES"
    using assms(1) by (auto simp: honest_crypto_def)
  then have n: "cr_seal cr key nonce aad (cr_utf8 cr t) \<noteq> []" "\<not> length (cr_seal cr key nonce aad (cr_utf8 cr t)) \<le> TAG_BYTES"
    using u(2) by (auto simp: TAG_BYTES_def)
  have "nonce \<noteq> []" using assms(2) by (auto simp: NONCE_BYTES_def)
  then show ?thesis
    using decode_part_base64 [OF assms(1)] n(1) a s u assms(2) n(2)
    by (simp add: openEnvelope_def sp)
qed

text \<open>An envelope opens to the text it was sealed from, under the same key and for the same
  share.\<close>

theorem envelope_opens:
  assumes "honest_crypto cr" "length nonce = NONCE_BYTES" "secret_text t" "\<forall>c \<in> set t. c < 65536"
    "sealEnvelope cr key nonce t b = Some e"
  shows "openEnvelope cr key e b = Some t"
  using assms by (rule open_sealed)

section \<open>A cipher for the witness\<close>

text \<open>It keeps the text readable and appends sixteen zero bytes; hexadecimal letters A to P stand for
  base64url and two bytes per code unit for UTF-8.\<close>

fun hex_letters :: "byte list \<Rightarrow> string" where
  "hex_letters [] = []"
| "hex_letters (b # bs) = char_of (65 + unat b div 16) # char_of (65 + unat b mod 16) # hex_letters bs"

fun unhex_letters :: "string \<Rightarrow> byte list" where
  "unhex_letters (a # b # s) = of_nat (16 * (of_char a - 65) + (of_char b - 65)) # unhex_letters s"
| "unhex_letters _ = []"

fun two_bytes :: "text16 \<Rightarrow> byte list" where
  "two_bytes [] = []"
| "two_bytes (c # cs) = of_nat (c div 256) # of_nat (c mod 256) # two_bytes cs"

fun from_two_bytes :: "byte list \<Rightarrow> text16" where
  "from_two_bytes (a # b # s) = (256 * unat a + unat b) # from_two_bytes s"
| "from_two_bytes _ = []"

definition plain_crypto :: crypto where
  "plain_crypto = \<lparr>cr_seal = (\<lambda>_ _ _ p. p @ replicate 16 0),
     cr_open = (\<lambda>_ _ _ c. Some (take (length c - 16) c)),
     cr_base64 = hex_letters, cr_unbase64 = unhex_letters, cr_utf8 = two_bytes, cr_text = from_two_bytes\<rparr>"

lemma hex_letters_back: "unhex_letters (hex_letters bs) = bs"
proof (induction bs)
  case (Cons b bs)
  have u: "unat b < 256" by (rule byte_less)
  then have c: "(of_char (char_of (65 + unat b div 16) :: char) :: nat) = 65 + unat b div 16"
    "(of_char (char_of (65 + unat b mod 16) :: char) :: nat) = 65 + unat b mod 16"
    by simp_all
  have "16 * (unat b div 16) + unat b mod 16 = unat b" by simp
  then show ?case using Cons.IH by (simp add: c del: of_char_of)
qed simp

lemma hex_letters_alphabet: "list_all is_base64url (hex_letters bs)"
proof (induction bs)
  case (Cons b bs)
  have "is_base64url (char_of (65 + n))" if "n < 16" for n :: nat
    using that by (simp add: is_base64url_def char_in_def)
  moreover have "unat b div 16 < 16" "unat b mod 16 < 16" using byte_less [of b] by simp_all
  ultimately show ?case using Cons.IH by simp
qed simp

lemma two_bytes_back: "\<forall>c \<in> set t. c < 65536 \<Longrightarrow> from_two_bytes (two_bytes t) = t"
proof (induction t)
  case (Cons c t)
  then have "c < 256 * 256" by simp
  then have "c div 256 < 256" "c mod 256 < 256" by (auto intro: less_mult_imp_div_less)
  then have "unat (of_nat (c div 256) :: byte) = c div 256" "unat (of_nat (c mod 256) :: byte) = c mod 256"
    by (simp_all add: unat_of_nat)
  then show ?case using Cons by simp
qed simp

lemma plain_crypto_honest: "honest_crypto plain_crypto"
proof -
  have "two_bytes t = [] \<Longrightarrow> t = []" for t by (cases t) auto
  moreover have "hex_letters b = [] \<Longrightarrow> b = []" for b by (cases b) auto
  ultimately show ?thesis
    by (auto simp: honest_crypto_def plain_crypto_def TAG_BYTES_def hex_letters_back hex_letters_alphabet two_bytes_back)
qed

definition demo_binding :: binding where
  "demo_binding = \<lparr>bd_documentId = ''a23456789012345678901234'', bd_senderId = 1, bd_recipientId = 2, bd_expiresAt = 0\<rparr>"

theorem envelope_opens_witness:
  "openEnvelope plain_crypto [] (the (sealEnvelope plain_crypto [] (replicate 12 0) [104, 105] demo_binding)) demo_binding
     = Some [104, 105]"
proof (rule envelope_opens [OF plain_crypto_honest])
  show "secret_text [104, 105]" by code_simp
  have "sealEnvelope plain_crypto [] (replicate 12 0) [104, 105] demo_binding \<noteq> None" by code_simp
  then show "sealEnvelope plain_crypto [] (replicate 12 0) [104, 105] demo_binding
    = Some (the (sealEnvelope plain_crypto [] (replicate 12 0) [104, 105] demo_binding))" by simp
qed (simp_all add: NONCE_BYTES_def)

end
