(* ===== verification/SecretShares.thy ===== *)
theory SecretShares imports SecretCrypto Mfa begin

text \<open>
  Secret sharing: \<open>apps/cms/src/utils/secret-shares.ts\<close>, the janitor \<open>cron/secret-share-janitor.ts\<close>
  and the roles of \<open>packages/domain/src/secret-share.ts\<close>.

  \<open>sdb\<close> is the part of the database the module works on: the table of shares, the users and the
  notifications. A handler's transaction is a function from database to result and database; the
  locks make transactions on a share one after another, and what a handler reads before it takes
  them is an argument of its own (\<open>seen\<close>), so it may be older than the rest. \<open>confirmed\<close> takes the
  fate of the COMMIT as an argument. Instants are epoch milliseconds; an instant read inside a
  handler is an argument \<open>now\<close>. Live pings and log lines are left out.
\<close>

section \<open>Roles of the two lists\<close>

datatype secret_error =
    NotFound
  | Forbidden
  | ValidationError string
  | SessionOutdated
  | MfaSetupRequired
  | RefuseRecipient
  | RefuseText
  | RefuseLifetime
  | RefuseQuota
  | RefuseGone
  | RefusePartyIneligible
  | RefuseNoKey
  | RefuseCancelled
  | RefuseBusy
  | Crash

text \<open>\<open>SECRET_SHARE_REFUSALS\<close>: the status and the code of an answer; the rest are Strapi's own.\<close>

fun refusal_answer :: "secret_error \<Rightarrow> (int \<times> string) option" where
  "refusal_answer RefuseRecipient = Some (400, ''recipient'')"
| "refusal_answer RefuseText = Some (400, ''text'')"
| "refusal_answer RefuseLifetime = Some (400, ''lifetime'')"
| "refusal_answer RefuseQuota = Some (429, ''quota'')"
| "refusal_answer RefuseGone = Some (410, ''gone'')"
| "refusal_answer RefusePartyIneligible = Some (409, ''unavailable'')"
| "refusal_answer RefuseNoKey = Some (503, ''unavailable'')"
| "refusal_answer RefuseCancelled = Some (410, ''unavailable'')"
| "refusal_answer RefuseBusy = Some (503, ''busy'')"
| "refusal_answer SessionOutdated = Some (401, ''session_outdated'')"
| "refusal_answer MfaSetupRequired = Some (403, ''mfa_setup_required'')"
| "refusal_answer _ = None"

definition secretRolesAllow :: "string list \<Rightarrow> js \<Rightarrow> bool" where
  "secretRolesAllow roles role = is_string_in role roles"

datatype roles_error = NamesNoRole string | NotAStaffRole string

definition parseSecretRoles :: "string option \<Rightarrow> roles_error + string list" where
  "parseSecretRoles v =
     (let trimmed = trim (case v of None \<Rightarrow> [] | Some s \<Rightarrow> s) in
      if trimmed = [] then Inr STAFF_ROLES
      else let names = filter (\<lambda>n. n \<noteq> []) (map trim (split_on CHR '','' trimmed)) in
        if names = [] then Inl (NamesNoRole trimmed)
        else let wanted = map to_lower names in
          case find (\<lambda>n. \<not> secretRolesAllow STAFF_ROLES (JStr (to_lower n))) names of
            Some unknown \<Rightarrow> Inl (NotAStaffRole unknown)
          | None \<Rightarrow> Inr (filter (\<lambda>role. role \<in> set wanted) STAFF_ROLES))"

record secret_roles =
  sr_send :: "string list"
  sr_receive :: "string list"

definition secretRoles :: "(string \<Rightarrow> string option) \<Rightarrow> roles_error + secret_roles" where
  "secretRoles env =
     (case parseSecretRoles (env ''SECRETS_SEND_ROLES'') of
        Inl e \<Rightarrow> Inl e
      | Inr s \<Rightarrow> (case parseSecretRoles (env ''SECRETS_RECEIVE_ROLES'') of
            Inl e \<Rightarrow> Inl e
          | Inr r \<Rightarrow> Inr \<lparr>sr_send = s, sr_receive = r\<rparr>))"

definition show_roles :: "string list \<Rightarrow> string" where
  "show_roles rs = (if length rs = length STAFF_ROLES then ''all staff'' else join '', '' rs)"

definition secretRolesLine :: "secret_roles \<Rightarrow> string" where
  "secretRolesLine r = ''[secrets] send: '' @ show_roles (sr_send r) @ ''; receive: '' @ show_roles (sr_receive r)"

section \<open>State\<close>

datatype share_state = Pending | Retrieved | Revoked | Expired | Cancelled

datatype lifetime = OneHour | OneDay

definition isSecretShareLifetime :: "js \<Rightarrow> lifetime option" where
  "isSecretShareLifetime v = (if v = JStr ''1h'' then Some OneHour else if v = JStr ''24h'' then Some OneDay else None)"

fun SECRET_SHARE_LIFETIME_MS :: "lifetime \<Rightarrow> int" where
  "SECRET_SHARE_LIFETIME_MS OneHour = 60 * 60 * 1000"
| "SECRET_SHARE_LIFETIME_MS OneDay = 24 * 60 * 60 * 1000"

definition SECRET_SHARE_RETENTION_MS :: int where "SECRET_SHARE_RETENTION_MS = 7 * 24 * 60 * 60 * 1000"
definition SECRET_PENDING_PER_SENDER :: nat where "SECRET_PENDING_PER_SENDER = 20"
definition SECRET_PENDING_PER_RECIPIENT :: nat where "SECRET_PENDING_PER_RECIPIENT = 20"
definition SECRET_CREATES_PER_DAY :: nat where "SECRET_CREATES_PER_DAY = 100"
definition SECRET_SENT_PAGE_SIZE :: nat where "SECRET_SENT_PAGE_SIZE = 20"
definition SECRET_SENT_MAX_PAGE :: int where "SECRET_SENT_MAX_PAGE = 100"
definition SECRET_RECIPIENTS_LIMIT :: nat where "SECRET_RECIPIENTS_LIMIT = 20"
definition SECRET_RECIPIENTS_QUERY_MAX :: nat where "SECRET_RECIPIENTS_QUERY_MAX = 100"

definition secretShareExpiresAt :: "int \<Rightarrow> lifetime \<Rightarrow> int" where
  "secretShareExpiresAt now l = now + SECRET_SHARE_LIFETIME_MS l"

definition secretShareLink :: "string \<Rightarrow> string" where
  "secretShareLink documentId = ''/secrets/'' @ documentId"

record share =
  sh_id :: int
  sh_documentId :: string
  sh_senderId :: int
  sh_recipientId :: int
  sh_expiresAt :: int
  sh_state :: share_state
  sh_terminalAt :: "int option"
  sh_createdAt :: int
  sh_envelope :: "string option"

record notice =
  nt_type :: string
  nt_link :: string
  nt_recipient :: int
  nt_actor :: int
  nt_title :: string

record sdb =
  db_shares :: "share list"
  db_users :: "user_row list"
  db_notes :: "notice list"
  db_nextId :: int

record share_env =
  ev_key :: "byte list option"
  ev_crypto :: crypto
  ev_roles :: secret_roles
  ev_mfaRoles :: "string list"

section \<open>Transactions\<close>

text \<open>What becomes of a COMMIT: confirmed, done with its acknowledgement lost, or not done.\<close>

datatype commit = Committed | LostAck | NotCommitted

type_synonym 'a work = "sdb \<Rightarrow> (secret_error + 'a) \<times> sdb"

definition confirmed :: "commit \<Rightarrow> 'a work \<Rightarrow> 'a work" where
  "confirmed c work db =
     (case work db of
        (Inl Crash, _) \<Rightarrow> (Inl RefuseBusy, db)
      | (Inl e, _) \<Rightarrow> (Inl e, db)
      | (Inr v, db') \<Rightarrow> (case c of
            Committed \<Rightarrow> (Inr v, db')
          | LostAck \<Rightarrow> (Inl RefuseBusy, db')
          | NotCommitted \<Rightarrow> (Inl RefuseBusy, db)))"

text \<open>\<open>toShare\<close> keeps a row whose ids have the expected shape.\<close>

definition toShare :: "share \<Rightarrow> share option" where
  "toShare row =
     (if \<not> is_document_id (sh_documentId row) \<or> \<not> is_row_id (sh_senderId row) \<or> \<not> is_row_id (sh_recipientId row)
      then None else Some row)"

definition findShare :: "sdb \<Rightarrow> string \<Rightarrow> share option" where
  "findShare db documentId = Option.bind (find (\<lambda>s. sh_documentId s = documentId) (db_shares db)) toShare"

definition loadPerson :: "sdb \<Rightarrow> int \<Rightarrow> user_row option" where
  "loadPerson db i = find (\<lambda>u. ur_id u = i) (db_users db)"

definition deleteShareNotifications :: "share list \<Rightarrow> sdb \<Rightarrow> sdb" where
  "deleteShareNotifications shares db =
     (if shares = [] then db
      else db\<lparr>db_notes := filter (\<lambda>n. \<not> (nt_type n = ''secretShared'' \<and>
        nt_link n \<in> set (map (secretShareLink \<circ> sh_documentId) shares))) (db_notes db)\<rparr>)"

text \<open>The conditional update: \<open>pending -> to\<close>, and for a reveal only with an envelope.\<close>

definition end_row :: "share_state \<Rightarrow> int \<Rightarrow> share \<Rightarrow> share" where
  "end_row to now s = s\<lparr>sh_state := to, sh_envelope := None, sh_terminalAt := Some now\<rparr>"

definition end_match :: "int \<Rightarrow> share_state \<Rightarrow> share \<Rightarrow> bool" where
  "end_match i to s = (sh_id s = i \<and> sh_state s = Pending \<and> (to = Retrieved \<longrightarrow> sh_envelope s \<noteq> None))"

definition endShare :: "share \<Rightarrow> share_state \<Rightarrow> int \<Rightarrow> unit work" where
  "endShare share to now db =
     (let changed = length (filter (end_match (sh_id share) to) (db_shares db)) in
      if changed \<noteq> 1 then (Inl Crash, db)
      else (Inr (), deleteShareNotifications [share]
        (db\<lparr>db_shares := map (\<lambda>s. if end_match (sh_id share) to s then end_row to now s else s) (db_shares db)\<rparr>)))"

section \<open>People\<close>

definition isEligible :: "user_row option \<Rightarrow> bool" where
  "isEligible u = (case u of None \<Rightarrow> False | Some row \<Rightarrow> ur_blocked row \<noteq> JBool True \<and> hasRole u STAFF_ROLES)"

definition role_js :: "user_row option \<Rightarrow> js" where
  "role_js u = (case roleTypeOf u of None \<Rightarrow> JNull | Some r \<Rightarrow> JStr r)"

definition canSend :: "share_env \<Rightarrow> user_row option \<Rightarrow> bool" where
  "canSend ev u = (isEligible u \<and> secretRolesAllow (sr_send (ev_roles ev)) (role_js u))"

definition canReceive :: "share_env \<Rightarrow> user_row option \<Rightarrow> bool" where
  "canReceive ev u = (isEligible u \<and> secretRolesAllow (sr_receive (ev_roles ev)) (role_js u))"

fun text_or_empty :: "js \<Rightarrow> string" where
  "text_or_empty (JStr s) = s"
| "text_or_empty _ = []"

definition displayNameOf :: "user_row option \<Rightarrow> string" where
  "displayNameOf u = (case u of None \<Rightarrow> [] | Some row \<Rightarrow>
     let d = trim (text_or_empty (ur_displayName row)) in if d \<noteq> [] then d else text_or_empty (ur_username row))"

record caller =
  ca_userId :: int
  ca_assurance :: "assurance option"

definition assertFreshCaller :: "share_env \<Rightarrow> sdb \<Rightarrow> caller \<Rightarrow> secret_error + user_row" where
  "assertFreshCaller ev db c =
     (case (loadPerson db (ca_userId c), ca_assurance c) of
        (Some row, Some a) \<Rightarrow>
          if ur_blocked row = JBool True \<or> versionOf (ur_tokenVersion row) \<noteq> as_tv a then Inl SessionOutdated
          else let claims = (case as_am a of AmPw \<Rightarrow> [(''am'', JStr ''pw'')] | AmIdp \<Rightarrow> [(''am'', JStr ''idp'')] | AmNone \<Rightarrow> [])
                   @ (if as_mfa a then [(''mfa'', JInt 1)] else []) in
            (case mfaDecision (JObj claims) (Some row) (ev_mfaRoles ev) of
               Reauth \<Rightarrow> Inl SessionOutdated
             | Restricted \<Rightarrow> Inl MfaSetupRequired
             | Pass \<Rightarrow> if \<not> isEligible (Some row) then Inl Forbidden else Inr row)
      | _ \<Rightarrow> Inl SessionOutdated)"

section \<open>Create\<close>

record create_input =
  ci_recipient :: int
  ci_text :: text16
  ci_lifetime :: lifetime

text \<open>The body, with the wide text of its \<open>text\<close> field.\<close>

definition parseCreate :: "js \<Rightarrow> int \<Rightarrow> secret_error + create_input" where
  "parseCreate body callerId =
     (let wrapped = (case body of JObj fs \<Rightarrow> ''data'' \<in> fst ` set fs | _ \<Rightarrow> False);
          keys = (case body of JObj fs \<Rightarrow> map fst fs | _ \<Rightarrow> []);
          payload = (if wrapped then (case body of JObj fs \<Rightarrow> jget fs ''data'' | _ \<Rightarrow> JUndef) else body) in
      if wrapped \<and> length keys \<noteq> 1 then Inl (ValidationError ''Invalid key'')
      else case payload of
        JObj fs \<Rightarrow>
          if \<exists>k \<in> set (map fst fs). k \<notin> {''recipient'', ''text'', ''lifetime''} then Inl (ValidationError ''Invalid key'')
          else (case jget fs ''recipient'' of
              JInt r \<Rightarrow>
                if \<not> is_row_id r \<or> r = callerId then Inl RefuseRecipient
                else if \<not> isSecretText (jget fs ''text'') then Inl RefuseText
                else (case isSecretShareLifetime (jget fs ''lifetime'') of
                    None \<Rightarrow> Inl RefuseLifetime
                  | Some l \<Rightarrow> Inr \<lparr>ci_recipient = r,
                      ci_text = map of_char (text_or_empty (jget fs ''text'')), ci_lifetime = l\<rparr>)
            | _ \<Rightarrow> Inl RefuseRecipient)
      | _ \<Rightarrow> Inl (ValidationError ''Invalid body''))"

definition share_open :: "int \<Rightarrow> share \<Rightarrow> bool" where
  "share_open now s = (sh_state s = Pending \<and> now < sh_expiresAt s)"

definition count_shares :: "(share \<Rightarrow> bool) \<Rightarrow> sdb \<Rightarrow> nat" where
  "count_shares P db = length (filter P (db_shares db))"

definition binding_of :: "share \<Rightarrow> binding" where
  "binding_of s = \<lparr>bd_documentId = sh_documentId s, bd_senderId = sh_senderId s,
     bd_recipientId = sh_recipientId s, bd_expiresAt = sh_expiresAt s\<rparr>"

text \<open>
  \<open>newDoc\<close> is the documentId the query engine generates and \<open>nonce\<close> the random bytes; a documentId
  that exists breaks the unique index. The row is created without an envelope and filled in the
  same transaction.
\<close>

definition create_work :: "share_env \<Rightarrow> byte list \<Rightarrow> caller \<Rightarrow> create_input \<Rightarrow> int \<Rightarrow> string \<Rightarrow> byte list \<Rightarrow> (string \<times> string) work" where
  "create_work ev key c input now newDoc nonce db =
     (case assertFreshCaller ev db c of
        Inl e \<Rightarrow> (Inl e, db)
      | Inr sender \<Rightarrow>
        if \<not> canSend ev (Some sender) then (Inl Forbidden, db)
        else if \<not> canReceive ev (loadPerson db (ci_recipient input)) then (Inl RefuseRecipient, db)
        else if SECRET_PENDING_PER_SENDER \<le> count_shares (\<lambda>s. share_open now s \<and> sh_senderId s = ca_userId c) db
          then (Inl RefuseQuota, db)
        else if SECRET_PENDING_PER_RECIPIENT \<le> count_shares (\<lambda>s. share_open now s \<and> sh_recipientId s = ci_recipient input) db
          then (Inl RefuseQuota, db)
        else if SECRET_CREATES_PER_DAY \<le>
            count_shares (\<lambda>s. sh_senderId s = ca_userId c \<and> now - 24 * 60 * 60 * 1000 < sh_createdAt s) db
          then (Inl RefuseQuota, db)
        else if newDoc \<in> set (map sh_documentId (db_shares db)) then (Inl Crash, db)
        else
          let expiresAt = secretShareExpiresAt now (ci_lifetime input);
              row = \<lparr>sh_id = db_nextId db, sh_documentId = newDoc, sh_senderId = ca_userId c,
                sh_recipientId = ci_recipient input, sh_expiresAt = expiresAt, sh_state = Pending,
                sh_terminalAt = None, sh_createdAt = now, sh_envelope = None\<rparr> in
          (case toShare row of
             None \<Rightarrow> (Inl Crash, db)
           | Some created \<Rightarrow>
             (case sealEnvelope (ev_crypto ev) key nonce (ci_text input) (binding_of created) of
                None \<Rightarrow> (Inl Crash, db)
              | Some envelope \<Rightarrow>
                (Inr (newDoc, iso_string expiresAt),
                 db\<lparr>db_shares := db_shares db @ [row\<lparr>sh_envelope := Some envelope\<rparr>],
                    db_notes := db_notes db @ [\<lparr>nt_type = ''secretShared'', nt_link = secretShareLink newDoc,
                      nt_recipient = ci_recipient input, nt_actor = ca_userId c,
                      nt_title = displayNameOf (Some sender)\<rparr>],
                    db_nextId := db_nextId db + 1\<rparr>))))"

definition createShare ::
  "share_env \<Rightarrow> commit \<Rightarrow> caller \<Rightarrow> create_input \<Rightarrow> int \<Rightarrow> string \<Rightarrow> byte list \<Rightarrow> (string \<times> string) work" where
  "createShare ev cm c input now newDoc nonce db =
     (case ev_key ev of
        None \<Rightarrow> (Inl RefuseNoKey, db)
      | Some key \<Rightarrow> confirmed cm (create_work ev key c input now newDoc nonce) db)"

section \<open>Reveal and revoke\<close>

datatype reveal_outcome = RevealCancelled | RevealText text16

definition reveal_work :: "share_env \<Rightarrow> byte list \<Rightarrow> caller \<Rightarrow> string \<Rightarrow> sdb \<Rightarrow> int \<Rightarrow> reveal_outcome work" where
  "reveal_work ev key c documentId seen now db =
     (case findShare seen documentId of
        None \<Rightarrow> (Inl NotFound, db)
      | Some s0 \<Rightarrow>
        if sh_recipientId s0 \<noteq> ca_userId c then (Inl NotFound, db)
        else case assertFreshCaller ev db c of
          Inl e \<Rightarrow> (Inl e, db)
        | Inr row \<Rightarrow>
          if \<not> canReceive ev (Some row) then (Inl Forbidden, db)
          else case findShare db documentId of
            None \<Rightarrow> (Inl NotFound, db)
          | Some share \<Rightarrow>
            if sh_recipientId share \<noteq> ca_userId c then (Inl NotFound, db)
            else let sender = loadPerson db (sh_senderId share) in
              if sender = None \<or> sh_state share \<noteq> Pending then (Inl RefuseGone, db)
              else (case sh_envelope share of
                  None \<Rightarrow> (Inl RefuseGone, db)
                | Some envelope \<Rightarrow>
                  if sh_expiresAt share \<le> now then (Inl RefuseGone, db)
                  else if \<not> isEligible sender then (Inl RefusePartyIneligible, db)
                  else (case openEnvelope (ev_crypto ev) key envelope (binding_of share) of
                      None \<Rightarrow>
                        (case endShare share Cancelled now db of
                           (Inl e, d) \<Rightarrow> (Inl e, d) | (Inr _, d) \<Rightarrow> (Inr RevealCancelled, d))
                    | Some plain \<Rightarrow>
                        (case endShare share Retrieved now db of
                           (Inl e, d) \<Rightarrow> (Inl e, d) | (Inr _, d) \<Rightarrow> (Inr (RevealText plain), d)))))"

definition revealShare :: "share_env \<Rightarrow> commit \<Rightarrow> caller \<Rightarrow> js \<Rightarrow> sdb \<Rightarrow> int \<Rightarrow> text16 work" where
  "revealShare ev cm c documentId seen now db =
     (case documentId of
        JStr d \<Rightarrow>
          if \<not> is_document_id d then (Inl NotFound, db)
          else (case ev_key ev of
              None \<Rightarrow> (Inl RefuseNoKey, db)
            | Some key \<Rightarrow>
              (case confirmed cm (reveal_work ev key c d seen now) db of
                 (Inl e, db') \<Rightarrow> (Inl e, db')
               | (Inr RevealCancelled, db') \<Rightarrow> (Inl RefuseCancelled, db')
               | (Inr (RevealText plain), db') \<Rightarrow> (Inr plain, db')))
      | _ \<Rightarrow> (Inl NotFound, db))"

definition revoke_work :: "share_env \<Rightarrow> caller \<Rightarrow> string \<Rightarrow> sdb \<Rightarrow> int \<Rightarrow> string work" where
  "revoke_work ev c documentId seen now db =
     (case findShare seen documentId of
        None \<Rightarrow> (Inl NotFound, db)
      | Some s0 \<Rightarrow>
        if sh_senderId s0 \<noteq> ca_userId c then (Inl NotFound, db)
        else case assertFreshCaller ev db c of
          Inl e \<Rightarrow> (Inl e, db)
        | Inr _ \<Rightarrow>
          (case findShare db documentId of
             None \<Rightarrow> (Inl NotFound, db)
           | Some share \<Rightarrow>
             if sh_senderId share \<noteq> ca_userId c then (Inl NotFound, db)
             else if sh_state share \<noteq> Pending then (Inl RefuseGone, db)
             else (case endShare share Revoked now db of
                 (Inl e, d) \<Rightarrow> (Inl e, d) | (Inr _, d) \<Rightarrow> (Inr (sh_documentId share), d))))"

definition revokeShare :: "share_env \<Rightarrow> commit \<Rightarrow> caller \<Rightarrow> js \<Rightarrow> sdb \<Rightarrow> int \<Rightarrow> string work" where
  "revokeShare ev cm c documentId seen now db =
     (case documentId of
        JStr d \<Rightarrow> if \<not> is_document_id d then (Inl NotFound, db)
          else confirmed cm (revoke_work ev c d seen now) db
      | _ \<Rightarrow> (Inl NotFound, db))"

section \<open>Lists\<close>

record person =
  pe_displayName :: string
  pe_blocked :: bool

definition personOf :: "user_row option \<Rightarrow> person option" where
  "personOf u = map_option (\<lambda>row. \<lparr>pe_displayName = displayNameOf u, pe_blocked = (ur_blocked row = JBool True)\<rparr>) u"

record summary =
  su_id :: string
  su_counterpart :: "person option"
  su_createdAt :: string
  su_expiresAt :: string
  su_state :: share_state
  su_terminalAt :: "string option"
  su_available :: bool

definition summaryOf :: "share_env \<Rightarrow> sdb \<Rightarrow> share \<Rightarrow> int \<Rightarrow> int \<Rightarrow> summary" where
  "summaryOf ev db s callerId now =
     (let otherId = (if sh_senderId s = callerId then sh_recipientId s else sh_senderId s) in
      \<lparr>su_id = sh_documentId s, su_counterpart = personOf (loadPerson db otherId),
       su_createdAt = iso_string (sh_createdAt s), su_expiresAt = iso_string (sh_expiresAt s),
       su_state = sh_state s, su_terminalAt = map_option iso_string (sh_terminalAt s),
       su_available = (sh_state s = Pending \<and> now < sh_expiresAt s \<and>
         isEligible (loadPerson db (sh_senderId s)) \<and> canReceive ev (loadPerson db (sh_recipientId s)))\<rparr>)"

definition onlyKeys :: "js \<Rightarrow> string list \<Rightarrow> secret_error + (string \<times> js) list" where
  "onlyKeys query allowed =
     (let params = (case query of JObj fs \<Rightarrow> fs | _ \<Rightarrow> []) in
      if \<exists>k \<in> set (map fst params). k \<notin> set allowed then Inl (ValidationError ''Invalid key'') else Inr params)"

definition assertNoWriteInput :: "js \<Rightarrow> js \<Rightarrow> secret_error + unit" where
  "assertNoWriteInput query body =
     (case onlyKeys query [] of
        Inl e \<Rightarrow> Inl e
      | Inr _ \<Rightarrow> if \<not> nullish body \<and> body \<noteq> JObj [] then Inl (ValidationError ''Invalid body'') else Inr ())"

text \<open>Newest first: by creation, then by id.\<close>

definition newest_first :: "share list \<Rightarrow> share list" where
  "newest_first = sort_key (\<lambda>s. - sh_createdAt s) \<circ> sort_key (\<lambda>s. - sh_id s)"

record share_list =
  sl_received :: "summary list"
  sl_sent :: "summary list"
  sl_hasMore :: bool

definition listShares :: "share_env \<Rightarrow> sdb \<Rightarrow> int \<Rightarrow> js \<Rightarrow> int \<Rightarrow> secret_error + share_list" where
  "listShares ev db callerId query now =
     (case onlyKeys query [''sentPage''] of
        Inl e \<Rightarrow> Inl e
      | Inr params \<Rightarrow>
        (case (if jget params ''sentPage'' = JUndef then Some 1
               else (case parseRowId (jget params ''sentPage'') of
                   None \<Rightarrow> None | Some n \<Rightarrow> if n > SECRET_SENT_MAX_PAGE then None else Some n)) of
           None \<Rightarrow> Inl (ValidationError ''Invalid sentPage'')
         | Some page \<Rightarrow>
           let received = List.map_filter toShare (take SECRET_PENDING_PER_RECIPIENT
                 (newest_first (filter (\<lambda>s. sh_recipientId s = callerId \<and> share_open now s) (db_shares db))));
               sentRows = List.map_filter toShare (take (SECRET_SENT_PAGE_SIZE + 1)
                 (drop (nat (page - 1) * SECRET_SENT_PAGE_SIZE)
                   (newest_first (filter (\<lambda>s. sh_senderId s = callerId \<and>
                      (sh_state s = Pending \<or>
                       (case sh_terminalAt s of None \<Rightarrow> False | Some t \<Rightarrow> now - SECRET_SHARE_RETENTION_MS < t)))
                     (db_shares db)))));
               sent = take SECRET_SENT_PAGE_SIZE sentRows in
           Inr \<lparr>sl_received = filter su_available (map (\<lambda>s. summaryOf ev db s callerId now) received),
                sl_sent = map (\<lambda>s. summaryOf ev db s callerId now) sent,
                sl_hasMore = (length sentRows > SECRET_SENT_PAGE_SIZE)\<rparr>))"

datatype direction = Sent | Received

definition shareDetail :: "share_env \<Rightarrow> sdb \<Rightarrow> int \<Rightarrow> js \<Rightarrow> js \<Rightarrow> int \<Rightarrow> secret_error + summary \<times> direction" where
  "shareDetail ev db callerId documentId query now =
     (case onlyKeys query [] of
        Inl e \<Rightarrow> Inl e
      | Inr _ \<Rightarrow>
        (case documentId of
           JStr d \<Rightarrow>
             if \<not> is_document_id d then Inl NotFound
             else (case findShare db d of
                 None \<Rightarrow> Inl NotFound
               | Some s \<Rightarrow>
                 if sh_senderId s \<noteq> callerId \<and> sh_recipientId s \<noteq> callerId then Inl NotFound
                 else Inr (summaryOf ev db s callerId now, if sh_senderId s = callerId then Sent else Received))
         | _ \<Rightarrow> Inl NotFound))"

text \<open>\<open>contains\<close> is the database's case-insensitive search and \<open>by_name\<close> its order by name.\<close>

definition shareRecipients ::
  "(string \<Rightarrow> js \<Rightarrow> bool) \<Rightarrow> (user_row list \<Rightarrow> user_row list) \<Rightarrow> share_env \<Rightarrow> sdb \<Rightarrow> int \<Rightarrow> js
    \<Rightarrow> secret_error + (int \<times> string) list" where
  "shareRecipients containsi by_name ev db callerId query =
     (case onlyKeys query [''q''] of
        Inl e \<Rightarrow> Inl e
      | Inr params \<Rightarrow>
        (case (case jget params ''q'' of JUndef \<Rightarrow> Some [] | JStr q \<Rightarrow>
                 if length q > SECRET_RECIPIENTS_QUERY_MAX then None else Some q | _ \<Rightarrow> None) of
           None \<Rightarrow> Inl (ValidationError ''Invalid q'')
         | Some q \<Rightarrow>
           if \<not> canSend ev (loadPerson db callerId) then Inl Forbidden
           else let term = trim q;
                    found = take SECRET_RECIPIENTS_LIMIT (by_name (filter (\<lambda>u.
                      ur_id u \<noteq> callerId \<and> ur_blocked u \<in> {JBool False, JNull} \<and>
                      is_string_in (ur_role u) (sr_receive (ev_roles ev)) \<and>
                      (term = [] \<or> containsi term (ur_displayName u) \<or> containsi term (ur_username u))) (db_users db))) in
             Inr (map (\<lambda>u. (ur_id u, displayNameOf (Some u))) (filter (\<lambda>u. canReceive ev (Some u)) found))))"

section \<open>Deletion and the janitor\<close>

definition DELETE_PAGE :: nat where "DELETE_PAGE = 500"

definition delete_page :: "(share \<Rightarrow> bool) \<Rightarrow> sdb \<Rightarrow> share list" where
  "delete_page wh db = filter (\<lambda>s. is_row_id (sh_recipientId s))
     (take DELETE_PAGE (sort_key sh_id (filter wh (db_shares db))))"

definition delete_rows :: "share list \<Rightarrow> sdb \<Rightarrow> sdb" where
  "delete_rows page db = (deleteShareNotifications page db)
     \<lparr>db_shares := filter (\<lambda>s. sh_id s \<notin> set (map sh_id page)) (db_shares db)\<rparr>"

lemma delete_rows_less:
  "delete_page wh db \<noteq> [] \<Longrightarrow> length (db_shares (delete_rows (delete_page wh db) db)) < length (db_shares db)"
proof -
  assume "delete_page wh db \<noteq> []"
  then obtain s where s: "s \<in> set (delete_page wh db)" by (meson hd_in_set)
  then have "s \<in> set (db_shares db)" by (auto simp: delete_page_def dest!: in_set_takeD)
  then show ?thesis
    using s by (auto simp: delete_rows_def intro!: length_filter_less)
qed

function deleteShares_from :: "(share \<Rightarrow> bool) \<Rightarrow> nat \<Rightarrow> sdb \<Rightarrow> nat \<times> sdb" where
  "deleteShares_from wh deleted db =
     (let page = delete_page wh db in
      if page = [] then (deleted, db)
      else deleteShares_from wh (deleted + length page) (delete_rows page db))"
  by pat_completeness auto
termination
  by (relation "measure (\<lambda>(wh, n, db). length (db_shares db))") (auto simp: delete_rows_less)

declare deleteShares_from.simps [simp del]

definition deleteShares :: "(share \<Rightarrow> bool) \<Rightarrow> sdb \<Rightarrow> nat \<times> sdb" where
  "deleteShares wh db = deleteShares_from wh 0 db"

definition sharesOf :: "int \<Rightarrow> share \<Rightarrow> bool" where
  "sharesOf userId s = (sh_senderId s = userId \<or> sh_recipientId s = userId)"

definition BATCH :: nat where "BATCH = 200"

definition batch_ids :: "(share \<Rightarrow> bool) \<Rightarrow> sdb \<Rightarrow> int list" where
  "batch_ids wh db = take BATCH (map sh_id (sort_key sh_id (filter wh (db_shares db))))"

text \<open>\<open>EXISTS (SELECT ... role.type IN staff AND blocked IS NULL OR FALSE)\<close>.\<close>

definition sql_eligible :: "sdb \<Rightarrow> int \<Rightarrow> bool" where
  "sql_eligible db i = (case loadPerson db i of None \<Rightarrow> False
     | Some u \<Rightarrow> ur_blocked u \<in> {JNull, JBool False} \<and> is_string_in (ur_role u) STAFF_ROLES)"

definition ineligibleIds :: "sdb \<Rightarrow> int list" where
  "ineligibleIds db = batch_ids (\<lambda>s. sh_state s = Pending \<and>
     (loadPerson db (sh_senderId s) \<noteq> None \<and> \<not> sql_eligible db (sh_senderId s) \<or>
      loadPerson db (sh_recipientId s) \<noteq> None \<and> \<not> sql_eligible db (sh_recipientId s))) db"

definition orphanIds :: "sdb \<Rightarrow> int list" where
  "orphanIds db = batch_ids (\<lambda>s. loadPerson db (sh_senderId s) = None \<or> loadPerson db (sh_recipientId s) = None) db"

definition end_one_work :: "(share \<Rightarrow> int \<Rightarrow> sdb \<Rightarrow> bool) \<Rightarrow> share_state \<Rightarrow> int \<Rightarrow> int \<Rightarrow> bool work" where
  "end_one_work due to i now db =
     (case find (\<lambda>s. sh_id s = i \<and> sh_state s = Pending) (db_shares db) of
        None \<Rightarrow> (Inr False, db)
      | Some s \<Rightarrow> if \<not> due s now db then (Inr False, db)
          else (case endShare s to now db of (Inl e, d) \<Rightarrow> (Inl e, d) | (Inr _, d) \<Rightarrow> (Inr True, d)))"

text \<open>One transaction per share; a failed one is reported and the next goes on. The list pairs each id
  with the instant read in its transaction and the fate of its COMMIT.\<close>

fun endEach :: "(share \<Rightarrow> int \<Rightarrow> sdb \<Rightarrow> bool) \<Rightarrow> share_state \<Rightarrow> (int \<times> int \<times> commit) list \<Rightarrow> sdb \<Rightarrow> nat \<times> sdb" where
  "endEach due to [] db = (0, db)"
| "endEach due to ((i, now, cm) # rest) db =
     (case confirmed cm (end_one_work due to i now) db of
        (r, db1) \<Rightarrow> (case endEach due to rest db1 of
           (n, db2) \<Rightarrow> ((case r of Inr True \<Rightarrow> Suc n | _ \<Rightarrow> n), db2)))"

definition deleteConfirmed :: "commit \<Rightarrow> int list \<Rightarrow> sdb \<Rightarrow> nat \<times> sdb" where
  "deleteConfirmed cm ids db =
     (if ids = [] then (0, db)
      else case confirmed cm (\<lambda>d. case deleteShares (\<lambda>s. sh_id s \<in> set ids) d of (n, d') \<Rightarrow> (Inr n, d')) db of
        (Inr n, db') \<Rightarrow> (n, db') | (Inl _, db') \<Rightarrow> (0, db'))"

definition due_expired :: "share \<Rightarrow> int \<Rightarrow> sdb \<Rightarrow> bool" where
  "due_expired s now db = (sh_expiresAt s \<le> now)"

definition due_ineligible :: "share \<Rightarrow> int \<Rightarrow> sdb \<Rightarrow> bool" where
  "due_ineligible s now db = (\<exists>i \<in> {sh_senderId s, sh_recipientId s}.
     loadPerson db i \<noteq> None \<and> \<not> isEligible (loadPerson db i))"

text \<open>\<open>clock i\<close> and \<open>fate i\<close> are the instant and the COMMIT of the transaction on share \<open>i\<close>.\<close>

definition runSecretShareJanitor ::
  "int \<Rightarrow> (int \<Rightarrow> int) \<Rightarrow> (int \<Rightarrow> commit) \<Rightarrow> commit \<Rightarrow> commit \<Rightarrow> sdb \<Rightarrow> (nat \<times> nat \<times> nat \<times> nat) \<times> sdb" where
  "runSecretShareJanitor now clock fate cm3 cm4 db0 =
     (let jobs = map (\<lambda>i. (i, clock i, fate i));
          (expired, db1) = endEach due_expired Expired
            (jobs (batch_ids (\<lambda>s. sh_state s = Pending \<and> sh_expiresAt s \<le> now) db0)) db0;
          (cancelled, db2) = endEach due_ineligible Cancelled (jobs (ineligibleIds db1)) db1;
          (orphaned, db3) = deleteConfirmed cm3 (orphanIds db2) db2;
          (removed, db4) = deleteConfirmed cm4 (batch_ids (\<lambda>s. sh_state s \<noteq> Pending \<and>
            (case sh_terminalAt s of None \<Rightarrow> False | Some t \<Rightarrow> t < now - SECRET_SHARE_RETENTION_MS)) db3) db3 in
      ((expired, cancelled, orphaned, removed), db4))"

section \<open>Executions\<close>

text \<open>
  One transaction of the module or a change of the accounts by someone else. The label tells which
  text was stored in which row and which text a reveal handed out of which row. \<open>seen\<close> is any earlier
  database. A text to create has passed \<open>parseCreate\<close>, and a nonce is twelve random bytes. The janitor's
  transactions are steps of their own, as other requests run between them; deletions cover
  anonymisation and the erasure sweep as well.
\<close>

datatype secret_label = Quiet | Stored int text16 | Opened int text16

definition good_text :: "text16 \<Rightarrow> bool" where
  "good_text t = (secret_text t \<and> (\<forall>c \<in> set t. c < 65536))"

inductive secret_step :: "share_env \<Rightarrow> int \<Rightarrow> sdb \<Rightarrow> secret_label \<Rightarrow> sdb \<Rightarrow> bool" for ev where
  create: "createShare ev cm c input now newDoc nonce db = (r, db') \<Longrightarrow> good_text (ci_text input) \<Longrightarrow>
    length nonce = NONCE_BYTES \<Longrightarrow>
    secret_step ev now db (if db_shares db' = db_shares db then Quiet else Stored (db_nextId db) (ci_text input)) db'"
| reveal: "revealShare ev cm c (JStr d) seen now db = (Inr t, db') \<Longrightarrow> findShare db d = Some s \<Longrightarrow>
    secret_step ev now db (Opened (sh_id s) t) db'"
| reveal_refused: "revealShare ev cm c d seen now db = (Inl e, db') \<Longrightarrow> secret_step ev now db Quiet db'"
| revoke: "revokeShare ev cm c d seen now db = (r, db') \<Longrightarrow> secret_step ev now db Quiet db'"
| janitor_end: "to \<in> {Expired, Cancelled} \<Longrightarrow> confirmed cm (end_one_work due to i now) db = (r, db') \<Longrightarrow>
    secret_step ev now db Quiet db'"
| janitor_delete: "deleteConfirmed cm ids db = (n, db') \<Longrightarrow> secret_step ev now db Quiet db'"
| delete: "deleteShares wh db = (n, db') \<Longrightarrow> secret_step ev now db Quiet db'"
| accounts: "secret_step ev now db Quiet (db\<lparr>db_users := us\<rparr>)"

inductive secret_run :: "share_env \<Rightarrow> sdb \<Rightarrow> secret_label list \<Rightarrow> int list \<Rightarrow> sdb \<Rightarrow> bool" for ev where
  start: "secret_run ev db [] [] db"
| more: "secret_run ev db tr ts db1 \<Longrightarrow> secret_step ev now db1 l db2 \<Longrightarrow>
    secret_run ev db (tr @ [l]) (ts @ [now]) db2"

text \<open>
  The abstract machine of the table: a row is created pending with an envelope, a pending row ends
  once, any rows are deleted.
\<close>

inductive share_effect :: "int \<Rightarrow> sdb \<Rightarrow> sdb \<Rightarrow> bool" where
  keep: "db_shares db' = db_shares db \<Longrightarrow> db_notes db' = db_notes db \<Longrightarrow> db_nextId db' = db_nextId db \<Longrightarrow>
    share_effect now db db'"
| finish: "s \<in> set (db_shares db) \<Longrightarrow> to \<noteq> Pending \<Longrightarrow> endShare s to now db = (Inr (), db') \<Longrightarrow> share_effect now db db'"
| remove: "db_shares db' = filter (\<lambda>s. s \<notin> gone) (db_shares db) \<Longrightarrow>
    db_notes db' = filter (\<lambda>n. \<not> (nt_type n = ''secretShared'' \<and> nt_link n \<in> secretShareLink ` sh_documentId ` gone)) (db_notes db) \<Longrightarrow>
    gone \<subseteq> set (db_shares db) \<Longrightarrow>
    db_nextId db' = db_nextId db \<Longrightarrow> share_effect now db db'"

definition share_added :: "share_env \<Rightarrow> create_input \<Rightarrow> byte list \<Rightarrow> int \<Rightarrow> sdb \<Rightarrow> sdb \<Rightarrow> bool" where
  "share_added ev input nonce now db db' = (\<exists>row nt key.
     db_shares db' = db_shares db @ [row] \<and> db_notes db' = db_notes db @ [nt] \<and> db_nextId db' = db_nextId db + 1 \<and>
     ev_key ev = Some key \<and>
     sh_id row = db_nextId db \<and> sh_state row = Pending \<and> sh_terminalAt row = None \<and> sh_envelope row \<noteq> None \<and>
     sealEnvelope (ev_crypto ev) key nonce (ci_text input) (binding_of row) = sh_envelope row \<and>
     sh_documentId row \<notin> set (map sh_documentId (db_shares db)) \<and> sh_createdAt row = now \<and>
     nt_type nt = ''secretShared'' \<and> nt_link nt = secretShareLink (sh_documentId row) \<and> nt_recipient nt = sh_recipientId row \<and>
     count_shares (\<lambda>s. share_open now s \<and> sh_senderId s = sh_senderId row) db < SECRET_PENDING_PER_SENDER \<and>
     count_shares (\<lambda>s. share_open now s \<and> sh_recipientId s = sh_recipientId row) db < SECRET_PENDING_PER_RECIPIENT)"

lemma confirmed_cases:
  assumes "confirmed c work db = (r, db')"
  obtains (rolled) "db' = db" "\<forall>v. r \<noteq> Inr v" | (ran) v where "work db = (Inr v, db')" "\<forall>w. r = Inr w \<longrightarrow> w = v"
proof -
  obtain x d where w: "work db = (x, d)" by (metis prod.exhaust)
  show thesis
  proof (cases x)
    case (Inl e)
    then show thesis using assms w rolled by (cases e) (auto simp: confirmed_def)
  next
    case (Inr v)
    then show thesis using assms w rolled ran by (cases c) (auto simp: confirmed_def)
  qed
qed

lemma endShare_Inl: "endShare s to now db = (Inl e, db') \<Longrightarrow> e = Crash \<and> db' = db"
  by (auto simp: endShare_def Let_def split: if_splits)

lemma findShare_mem: "findShare db d = Some s \<Longrightarrow> s \<in> set (db_shares db) \<and> sh_documentId s = d"
  by (auto simp: findShare_def toShare_def bind_eq_Some_conv find_Some_iff in_set_conv_nth split: if_splits)

lemma create_effect:
  assumes "createShare ev cm c input now newDoc nonce db = (r, db')"
  shows "db' = db \<or> share_added ev input nonce now db db'"
proof (cases "ev_key ev")
  case None
  then show ?thesis using assms by (auto simp: createShare_def)
next
  case (Some key)
  then have "confirmed cm (create_work ev key c input now newDoc nonce) db = (r, db')"
    using assms by (simp add: createShare_def)
  then show ?thesis
  proof (cases rule: confirmed_cases)
    case (ran v)
    then show ?thesis
      using Some
      by (auto simp: create_work_def Let_def toShare_def not_le share_added_def binding_of_def
          split: sum.splits if_splits option.splits)
  qed simp
qed

lemma reveal_work_cases:
  assumes "reveal_work ev key c d seen now db = (Inr v, db')"
  obtains (opened) s plain where "v = RevealText plain" "findShare db d = Some s" "sh_state s = Pending"
      "endShare s Retrieved now db = (Inr (), db')"
      "openEnvelope (ev_crypto ev) key (the (sh_envelope s)) (binding_of s) = Some plain"
      "sh_recipientId s = ca_userId c" "now < sh_expiresAt s" "sh_envelope s \<noteq> None"
  | (cancelled) s where "v = RevealCancelled" "findShare db d = Some s" "sh_state s = Pending"
      "endShare s Cancelled now db = (Inr (), db')"
  using assms
  by (auto simp: reveal_work_def Let_def not_le split: option.splits sum.splits if_splits prod.splits)

lemma reveal_effect:
  assumes "revealShare ev cm c d seen now db = (r, db')"
  shows "share_effect now db db'"
proof -
  consider "db' = db" | doc key v where "reveal_work ev key c doc seen now db = (Inr v, db')"
  proof -
    assume A: "db' = db \<Longrightarrow> thesis" "\<And>key doc v. reveal_work ev key c doc seen now db = (Inr v, db') \<Longrightarrow> thesis"
    show thesis
    proof (cases "\<exists>doc key. d = JStr doc \<and> is_document_id doc \<and> ev_key ev = Some key")
      case False
      then have "db' = db" using assms by (cases d) (auto simp: revealShare_def split: if_splits option.splits)
      then show thesis by (rule A)
    next
      case True
      then obtain doc key where dk: "d = JStr doc" "is_document_id doc" "ev_key ev = Some key" by blast
      obtain x d1 where w: "confirmed cm (reveal_work ev key c doc seen now) db = (x, d1)" by (metis prod.exhaust)
      then have "db' = d1"
        using assms dk by (auto simp: revealShare_def split: sum.splits reveal_outcome.splits)
      then show thesis using w A by (cases rule: confirmed_cases [OF w]) auto
    qed
  qed
  then show ?thesis
  proof cases
    case 1 then show ?thesis by (auto intro: share_effect.keep)
  next
    case 2
    then show ?thesis
      by (cases rule: reveal_work_cases) (auto dest: findShare_mem intro: share_effect.finish)
  qed
qed

lemma revoke_effect:
  assumes "revokeShare ev cm c d seen now db = (r, db')"
  shows "share_effect now db db'"
proof -
  consider "db' = db" | doc where "confirmed cm (revoke_work ev c doc seen now) db = (r, db')"
    using assms by (auto simp: revokeShare_def split: js.splits if_splits)
  then show ?thesis
  proof cases
    case 1 then show ?thesis by (auto intro: share_effect.keep)
  next
    case 2
    then show ?thesis
    proof (cases rule: confirmed_cases)
      case rolled then show ?thesis by (auto intro: share_effect.keep)
    next
      case (ran v)
      then obtain s where "findShare db doc = Some s" "endShare s Revoked now db = (Inr (), db')"
        by (auto simp: revoke_work_def split: option.splits sum.splits if_splits prod.splits)
      then show ?thesis by (auto dest: findShare_mem intro: share_effect.finish)
    qed
  qed
qed

lemma end_one_effect:
  assumes "confirmed cm (end_one_work due to i now) db = (r, db')" "to \<noteq> Pending"
  shows "share_effect now db db'"
  using assms(1)
proof (cases rule: confirmed_cases)
  case rolled then show ?thesis by (auto intro: share_effect.keep)
next
  case (ran v)
  then consider "db' = db" | s where "find (\<lambda>s. sh_id s = i \<and> sh_state s = Pending) (db_shares db) = Some s"
      "endShare s to now db = (Inr (), db')"
    by (auto simp: end_one_work_def split: option.splits sum.splits if_splits prod.splits)
  then show ?thesis
  proof cases
    case 1 then show ?thesis by (auto intro: share_effect.keep)
  next
    case 2
    then have "s \<in> set (db_shares db)" by (auto simp: find_Some_iff in_set_conv_nth)
    then show ?thesis using 2 assms(2) by (auto intro: share_effect.finish)
  qed
qed

definition removal :: "sdb \<Rightarrow> sdb \<Rightarrow> bool" where
  "removal db db' = (\<exists>gone. gone \<subseteq> set (db_shares db) \<and> db_shares db' = filter (\<lambda>s. s \<notin> gone) (db_shares db) \<and>
     db_notes db' = filter (\<lambda>n. \<not> (nt_type n = ''secretShared'' \<and> nt_link n \<in> secretShareLink ` sh_documentId ` gone)) (db_notes db) \<and>
     db_nextId db' = db_nextId db)"

lemma removal_refl: "removal db db"
  by (auto simp: removal_def intro!: exI [of _ "{}"])

lemma removal_trans: "removal a b \<Longrightarrow> removal b c \<Longrightarrow> removal a c"
proof -
  assume "removal a b" "removal b c"
  then obtain g h where
    g: "g \<subseteq> set (db_shares a)" "db_shares b = filter (\<lambda>s. s \<notin> g) (db_shares a)"
      "db_notes b = filter (\<lambda>n. \<not> (nt_type n = ''secretShared'' \<and> nt_link n \<in> secretShareLink ` sh_documentId ` g)) (db_notes a)"
      "db_nextId b = db_nextId a" and
    h: "h \<subseteq> set (db_shares b)" "db_shares c = filter (\<lambda>s. s \<notin> h) (db_shares b)"
      "db_notes c = filter (\<lambda>n. \<not> (nt_type n = ''secretShared'' \<and> nt_link n \<in> secretShareLink ` sh_documentId ` h)) (db_notes b)"
      "db_nextId c = db_nextId b"
    unfolding removal_def by blast
  show ?thesis unfolding removal_def
  proof (intro exI [of _ "g \<union> h"] conjI)
    show "g \<union> h \<subseteq> set (db_shares a)" using g h by auto
    show "db_shares c = filter (\<lambda>s. s \<notin> g \<union> h) (db_shares a)" using g h by (simp add: conj_commute)
    show "db_notes c = filter (\<lambda>n. \<not> (nt_type n = ''secretShared'' \<and> nt_link n \<in> secretShareLink ` sh_documentId ` (g \<union> h))) (db_notes a)"
      unfolding h(3) g(3) filter_filter by (rule filter_cong) auto
    show "db_nextId c = db_nextId a" using g h by simp
  qed
qed

lemma delete_page_subset: "set (delete_page wh db) \<subseteq> {s \<in> set (db_shares db). wh s}"
  by (auto simp: delete_page_def dest!: in_set_takeD)

lemma delete_rows_removal:
  assumes "distinct (map sh_id (db_shares db))" "set page \<subseteq> set (db_shares db)"
  shows "removal db (delete_rows page db)"
proof -
  have inj: "inj_on sh_id (set (db_shares db))" using assms(1) by (simp add: distinct_map)
  have "sh_id s \<in> sh_id ` set page \<longleftrightarrow> s \<in> set page" if "s \<in> set (db_shares db)" for s
    using inj_on_image_mem_iff [OF inj that assms(2)] .
  then have f: "filter (\<lambda>s. sh_id s \<notin> sh_id ` set page) (db_shares db) = filter (\<lambda>s. s \<notin> set page) (db_shares db)"
    by (intro filter_cong) auto
  show ?thesis unfolding removal_def
    using f assms(2)
    by (intro exI [of _ "set page"]) (auto simp: delete_rows_def deleteShareNotifications_def image_comp)
qed

lemma removal_distinct: "removal db db' \<Longrightarrow> distinct (map sh_id (db_shares db)) \<Longrightarrow> distinct (map sh_id (db_shares db'))"
  by (auto simp: removal_def distinct_map_filter)

lemma deleteShares_from_removal:
  "deleteShares_from wh k db = (n, db') \<Longrightarrow> distinct (map sh_id (db_shares db)) \<Longrightarrow> removal db db'"
proof (induction wh k db arbitrary: n db' rule: deleteShares_from.induct)
  case (1 wh k db)
  show ?case
  proof (cases "delete_page wh db = []")
    case True
    then show ?thesis using "1.prems"(1) removal_refl by (subst (asm) deleteShares_from.simps) (simp add: Let_def)
  next
    case False
    then have r: "deleteShares_from wh (k + length (delete_page wh db)) (delete_rows (delete_page wh db) db) = (n, db')"
      using "1.prems"(1) by (subst (asm) deleteShares_from.simps) (simp add: Let_def)
    have d: "removal db (delete_rows (delete_page wh db) db)"
      using delete_rows_removal [OF "1.prems"(2)] delete_page_subset by blast
    have "removal (delete_rows (delete_page wh db) db) db'"
      using "1.IH" [OF refl False r] removal_distinct [OF d "1.prems"(2)] by simp
    then show ?thesis using d removal_trans by blast
  qed
qed

lemma deleteShares_removal:
  "deleteShares wh db = (n, db') \<Longrightarrow> distinct (map sh_id (db_shares db)) \<Longrightarrow> removal db db'"
  unfolding deleteShares_def by (rule deleteShares_from_removal)

lemma deleteShares_from_complete:
  "deleteShares_from wh k db = (n, db') \<Longrightarrow> \<forall>s \<in> set (db_shares db). wh s \<longrightarrow> is_row_id (sh_recipientId s) \<Longrightarrow>
   filter wh (db_shares db') = []"
proof (induction wh k db arbitrary: n db' rule: deleteShares_from.induct)
  case (1 wh k db)
  show ?case
  proof (cases "delete_page wh db = []")
    case True
    have "take DELETE_PAGE (sort_key sh_id (filter wh (db_shares db))) = []"
    proof (rule ccontr)
      assume "take DELETE_PAGE (sort_key sh_id (filter wh (db_shares db))) \<noteq> []"
      then obtain s where s: "s \<in> set (take DELETE_PAGE (sort_key sh_id (filter wh (db_shares db))))"
        by (meson hd_in_set)
      then have "wh s" "s \<in> set (db_shares db)" by (auto dest!: in_set_takeD)
      then have "s \<in> set (delete_page wh db)" using s "1.prems"(2) by (simp add: delete_page_def)
      then show False using True by simp
    qed
    then have "sort_key sh_id (filter wh (db_shares db)) = []" by (simp add: DELETE_PAGE_def)
    then have "filter wh (db_shares db) = []" by (metis length_sort length_0_conv)
    then show ?thesis using "1.prems"(1) True by (subst (asm) deleteShares_from.simps) (simp add: Let_def)
  next
    case False
    then have r: "deleteShares_from wh (k + length (delete_page wh db)) (delete_rows (delete_page wh db) db) = (n, db')"
      using "1.prems"(1) by (subst (asm) deleteShares_from.simps) (simp add: Let_def)
    show ?thesis
      by (rule "1.IH" [OF refl False r]) (use "1.prems"(2) in \<open>auto simp: delete_rows_def\<close>)
  qed
qed

lemma deleteConfirmed_effect:
  assumes "deleteConfirmed cm ids db = (n, db')" "distinct (map sh_id (db_shares db))"
  shows "removal db db'"
proof (cases "ids = []")
  case True
  then show ?thesis using assms(1) removal_refl by (simp add: deleteConfirmed_def)
next
  case False
  let ?w = "\<lambda>d. case deleteShares (\<lambda>s. sh_id s \<in> set ids) d of (n, d') \<Rightarrow> (Inr n, d')"
  obtain r d where c: "confirmed cm ?w db = (r, d)" by (metis prod.exhaust)
  then have "db' = d" using assms(1) False by (auto simp: deleteConfirmed_def split: sum.splits)
  from c show ?thesis
  proof (cases rule: confirmed_cases)
    case rolled then show ?thesis using \<open>db' = d\<close> removal_refl by simp
  next
    case (ran v)
    then show ?thesis using deleteShares_removal [OF _ assms(2)] \<open>db' = d\<close> by (auto split: prod.splits)
  qed
qed

lemma removal_effect: "removal db db' \<Longrightarrow> share_effect now db db'"
  unfolding removal_def by (auto intro: share_effect.remove)

lemma step_effect:
  assumes "secret_step ev now db l db'" "distinct (map sh_id (db_shares db))"
  shows "share_effect now db db' \<or> (\<exists>input nonce. l = Stored (db_nextId db) (ci_text input) \<and> good_text (ci_text input) \<and>
    length nonce = NONCE_BYTES \<and> share_added ev input nonce now db db')"
  using assms
proof (cases rule: secret_step.cases)
  case (create cm c input newDoc nonce r)
  show ?thesis
  proof (cases "db' = db")
    case True then show ?thesis by (auto intro: share_effect.keep)
  next
    case False
    then have "share_added ev input nonce now db db'" using create_effect [OF create(2)] by simp
    moreover from this have "db_shares db' \<noteq> db_shares db" by (auto simp: share_added_def)
    ultimately show ?thesis using create by auto
  qed
next
  case reveal then show ?thesis by (auto intro: reveal_effect)
next
  case reveal_refused then show ?thesis by (auto intro: reveal_effect)
next
  case revoke then show ?thesis by (auto intro: revoke_effect)
next
  case janitor_end then show ?thesis by (auto intro: end_one_effect)
next
  case janitor_delete then show ?thesis using assms(2) by (auto intro: removal_effect deleteConfirmed_effect)
next
  case delete then show ?thesis using assms(2) by (auto intro: removal_effect deleteShares_removal)
next
  case accounts then show ?thesis by (auto intro: share_effect.keep)
qed

section \<open>Invariants\<close>

definition share_ok :: "share \<Rightarrow> bool" where
  "share_ok s = ((sh_state s = Pending \<longleftrightarrow> sh_envelope s \<noteq> None) \<and> (sh_state s = Pending \<longleftrightarrow> sh_terminalAt s = None))"

definition shares_ok :: "sdb \<Rightarrow> bool" where
  "shares_ok db = (distinct (map sh_id (db_shares db)) \<and> (\<forall>s \<in> set (db_shares db). sh_id s < db_nextId db) \<and>
     distinct (map sh_documentId (db_shares db)) \<and> (\<forall>s \<in> set (db_shares db). share_ok s))"

definition share_notes :: "string \<Rightarrow> sdb \<Rightarrow> notice list" where
  "share_notes d db = filter (\<lambda>n. nt_type n = ''secretShared'' \<and> nt_link n = secretShareLink d) (db_notes db)"

definition notes_ok :: "sdb \<Rightarrow> bool" where
  "notes_ok db = ((\<forall>s \<in> set (db_shares db). length (share_notes (sh_documentId s) db) = (if sh_state s = Pending then 1 else 0)) \<and>
     (\<forall>n \<in> set (db_notes db). nt_type n = ''secretShared'' \<longrightarrow> (\<exists>s \<in> set (db_shares db). sh_state s = Pending \<and>
        nt_link n = secretShareLink (sh_documentId s) \<and> nt_recipient n = sh_recipientId s)))"

lemma link_inj [simp]: "secretShareLink a = secretShareLink b \<longleftrightarrow> a = b"
  by (simp add: secretShareLink_def)

lemma endShare_spec:
  assumes "endShare s to now db = (Inr (), db')" "s \<in> set (db_shares db)" "distinct (map sh_id (db_shares db))"
  shows "sh_state s = Pending \<and> (to = Retrieved \<longrightarrow> sh_envelope s \<noteq> None) \<and>
    db_shares db' = map (\<lambda>x. if x = s then end_row to now x else x) (db_shares db) \<and>
    db_notes db' = filter (\<lambda>n. \<not> (nt_type n = ''secretShared'' \<and> nt_link n = secretShareLink (sh_documentId s))) (db_notes db) \<and>
    db_nextId db' = db_nextId db \<and> db_users db' = db_users db"
proof -
  have c: "length (filter (end_match (sh_id s) to) (db_shares db)) = 1"
    "db' = deleteShareNotifications [s] (db\<lparr>db_shares := map (\<lambda>x. if end_match (sh_id s) to x then end_row to now x else x) (db_shares db)\<rparr>)"
    using assms(1) by (auto simp: endShare_def Let_def split: if_splits)
  then obtain y where "y \<in> set (db_shares db)" "end_match (sh_id s) to y"
    by (metis (mono_tags, lifting) filter_False length_0_conv zero_neq_one)
  moreover then have "y = s"
    using assms(2,3) by (auto simp: end_match_def distinct_map dest: inj_onD)
  ultimately have m: "end_match (sh_id s) to s" by simp
  have "end_match (sh_id s) to x \<longleftrightarrow> x = s" if "x \<in> set (db_shares db)" for x
    using that m assms(2,3) by (auto simp: end_match_def distinct_map dest: inj_onD)
  then have "map (\<lambda>x. if end_match (sh_id s) to x then end_row to now x else x) (db_shares db)
      = map (\<lambda>x. if x = s then end_row to now x else x) (db_shares db)"
    by (intro map_cong) auto
  then show ?thesis using m c(2) by (auto simp: deleteShareNotifications_def end_match_def)
qed

lemma end_row_sel [simp]:
  "sh_id (end_row to now s) = sh_id s" "sh_documentId (end_row to now s) = sh_documentId s"
  "sh_senderId (end_row to now s) = sh_senderId s" "sh_recipientId (end_row to now s) = sh_recipientId s"
  "sh_state (end_row to now s) = to" "sh_envelope (end_row to now s) = None"
  "sh_terminalAt (end_row to now s) = Some now" "sh_expiresAt (end_row to now s) = sh_expiresAt s"
  "sh_createdAt (end_row to now s) = sh_createdAt s"
  by (simp_all add: end_row_def)

lemma map_same_ids:
  "map sh_id (map (\<lambda>x. if x = s then end_row to now x else x) xs) = map sh_id xs"
  "map sh_documentId (map (\<lambda>x. if x = s then end_row to now x else x) xs) = map sh_documentId xs"
  by auto

lemma effect_shares_ok:
  assumes "share_effect now db db'" "shares_ok db"
  shows "shares_ok db'"
  using assms(1)
proof (cases rule: share_effect.cases)
  case keep then show ?thesis using assms(2) by (simp add: shares_ok_def)
next
  case (finish s to)
  then have e: "db_shares db' = map (\<lambda>x. if x = s then end_row to now x else x) (db_shares db)" "db_nextId db' = db_nextId db"
    using endShare_spec [of s to now db db'] assms(2) by (auto simp: shares_ok_def)
  have "share_ok (end_row to now s)" using finish(2) by (simp add: share_ok_def)
  then have "\<forall>x \<in> set (db_shares db'). sh_id x < db_nextId db' \<and> share_ok x"
    unfolding e using assms(2) by (auto simp: shares_ok_def)
  moreover have "map sh_id (db_shares db') = map sh_id (db_shares db)"
    "map sh_documentId (db_shares db') = map sh_documentId (db_shares db)"
    unfolding e(1) by (rule map_same_ids)+
  ultimately show ?thesis using assms(2) by (simp add: shares_ok_def)
next
  case (remove gone)
  then show ?thesis using assms(2) by (auto simp: shares_ok_def distinct_map_filter)
qed

lemma added_shares_ok: "share_added ev input nonce now db db' \<Longrightarrow> shares_ok db \<Longrightarrow> shares_ok db'"
  by (fastforce simp: share_added_def shares_ok_def share_ok_def)

lemma step_shares_ok: "secret_step ev now db l db' \<Longrightarrow> shares_ok db \<Longrightarrow> shares_ok db'"
  using step_effect [of ev now db l db'] effect_shares_ok added_shares_ok by (auto simp: shares_ok_def)

lemma share_notes_filter: "db_notes db' = filter (\<lambda>n. \<not> (nt_type n = ''secretShared'' \<and> nt_link n \<in> secretShareLink ` D)) (db_notes db) \<Longrightarrow>
  share_notes d db' = (if d \<in> D then [] else share_notes d db)"
proof -
  assume e: "db_notes db' = filter (\<lambda>n. \<not> (nt_type n = ''secretShared'' \<and> nt_link n \<in> secretShareLink ` D)) (db_notes db)"
  show ?thesis
  proof (cases "d \<in> D")
    case True
    then show ?thesis by (auto simp: share_notes_def e filter_empty_conv)
  next
    case False
    then have "secretShareLink d \<notin> secretShareLink ` D" by auto
    then have "filter (\<lambda>n. nt_type n = ''secretShared'' \<and> nt_link n = secretShareLink d)
        (filter (\<lambda>n. \<not> (nt_type n = ''secretShared'' \<and> nt_link n \<in> secretShareLink ` D)) (db_notes db))
      = filter (\<lambda>n. nt_type n = ''secretShared'' \<and> nt_link n = secretShareLink d) (db_notes db)"
      unfolding filter_filter by (intro filter_cong) auto
    then show ?thesis using False by (simp add: share_notes_def e)
  qed
qed

lemma doc_inj: "shares_ok db \<Longrightarrow> s \<in> set (db_shares db) \<Longrightarrow> x \<in> set (db_shares db) \<Longrightarrow>
  sh_documentId s = sh_documentId x \<Longrightarrow> s = x"
  by (auto simp: shares_ok_def distinct_map dest: inj_onD)

lemma id_inj: "shares_ok db \<Longrightarrow> s \<in> set (db_shares db) \<Longrightarrow> x \<in> set (db_shares db) \<Longrightarrow> sh_id s = sh_id x \<Longrightarrow> s = x"
  by (auto simp: shares_ok_def distinct_map dest: inj_onD)

lemma effect_notes_ok:
  assumes "share_effect now db db'" "shares_ok db" "notes_ok db"
  shows "notes_ok db'"
  using assms(1)
proof (cases rule: share_effect.cases)
  case keep
  then show ?thesis using assms(3) by (simp add: notes_ok_def share_notes_def)
next
  case (finish s to)
  have d: "distinct (map sh_id (db_shares db))" using assms(2) by (simp add: shares_ok_def)
  note e = endShare_spec [OF finish(3,1) d]
  have sh: "db_shares db' = map (\<lambda>x. if x = s then end_row to now x else x) (db_shares db)"
    and nt: "db_notes db' = filter (\<lambda>n. \<not> (nt_type n = ''secretShared'' \<and> nt_link n \<in> secretShareLink ` {sh_documentId s})) (db_notes db)"
    using e by simp_all
  have 1: "length (share_notes (sh_documentId x) db') = (if sh_state x = Pending then 1 else 0)"
    if x': "x \<in> set (db_shares db')" for x
  proof -
    from x' obtain y where y: "y \<in> set (db_shares db)" "x = (if y = s then end_row to now y else y)"
      by (auto simp: sh)
    show ?thesis
    proof (cases "y = s")
      case True
      then show ?thesis using y(2) finish(2) share_notes_filter [OF nt] by simp
    next
      case False
      then have "sh_documentId y \<noteq> sh_documentId s" using doc_inj [OF assms(2) y(1) finish(1)] by blast
      then show ?thesis using False y assms(3) share_notes_filter [OF nt] by (simp add: notes_ok_def)
    qed
  qed
  have 2: "\<exists>x \<in> set (db_shares db'). sh_state x = Pending \<and> nt_link n = secretShareLink (sh_documentId x) \<and> nt_recipient n = sh_recipientId x"
    if n: "n \<in> set (db_notes db')" "nt_type n = ''secretShared''" for n
  proof -
    from n have "n \<in> set (db_notes db)" "nt_link n \<noteq> secretShareLink (sh_documentId s)" by (auto simp: nt)
    then obtain x where "x \<in> set (db_shares db)" "sh_state x = Pending" "nt_link n = secretShareLink (sh_documentId x)"
      "nt_recipient n = sh_recipientId x" "x \<noteq> s"
      using assms(3) n(2) by (auto simp: notes_ok_def)
    then show ?thesis unfolding sh by force
  qed
  show ?thesis using 1 2 by (simp add: notes_ok_def)
next
  case (remove gone)
  have nt: "db_notes db' = filter (\<lambda>n. \<not> (nt_type n = ''secretShared'' \<and> nt_link n \<in> secretShareLink ` (sh_documentId ` gone))) (db_notes db)"
    using remove(2) .
  have "x \<in> set (db_shares db') \<Longrightarrow> sh_documentId x \<notin> sh_documentId ` gone" for x
    using remove(1,3) doc_inj [OF assms(2)] by auto
  then have 1: "x \<in> set (db_shares db') \<Longrightarrow> length (share_notes (sh_documentId x) db') = (if sh_state x = Pending then 1 else 0)" for x
    using assms(3) remove(1) share_notes_filter [OF nt] by (simp add: notes_ok_def)
  have 2: "\<exists>x \<in> set (db_shares db'). sh_state x = Pending \<and> nt_link n = secretShareLink (sh_documentId x) \<and> nt_recipient n = sh_recipientId x"
    if n: "n \<in> set (db_notes db')" "nt_type n = ''secretShared''" for n
  proof -
    from n have "n \<in> set (db_notes db)" "nt_link n \<notin> secretShareLink ` sh_documentId ` gone" by (auto simp: nt)
    then obtain x where x: "x \<in> set (db_shares db)" "sh_state x = Pending" "nt_link n = secretShareLink (sh_documentId x)"
      "nt_recipient n = sh_recipientId x" and no: "nt_link n \<notin> secretShareLink ` sh_documentId ` gone"
      using assms(3) n(2) by (auto simp: notes_ok_def)
    then have "x \<notin> gone" by blast
    then show ?thesis unfolding remove(1) using x by auto
  qed
  show ?thesis using 1 2 by (simp add: notes_ok_def)
qed

lemma added_notes_ok:
  assumes "share_added ev input nonce now db db'" "shares_ok db" "notes_ok db"
  shows "notes_ok db'"
proof -
  obtain row nt where a: "db_shares db' = db_shares db @ [row]" "db_notes db' = db_notes db @ [nt]"
    "sh_state row = Pending" "sh_documentId row \<notin> sh_documentId ` set (db_shares db)"
    "nt_type nt = ''secretShared''" "nt_link nt = secretShareLink (sh_documentId row)" "nt_recipient nt = sh_recipientId row"
    using assms(1) by (auto simp: share_added_def)
  have "nt_link n \<noteq> secretShareLink (sh_documentId row)"
    if "n \<in> set (db_notes db)" "nt_type n = ''secretShared''" for n
    using that a(4) assms(3) unfolding notes_ok_def by (metis image_eqI link_inj)
  then have none: "share_notes (sh_documentId row) db = []"
    by (auto simp: share_notes_def filter_empty_conv)
  have sn: "share_notes d db' = share_notes d db @ (if d = sh_documentId row then [nt] else [])" for d
    using a by (auto simp: share_notes_def)
  have "length (share_notes (sh_documentId x) db') = (if sh_state x = Pending then 1 else 0)"
    if "x \<in> set (db_shares db')" for x
  proof (cases "x = row")
    case False
    then have "x \<in> set (db_shares db)" using that a(1) by simp
    moreover from this have "sh_documentId x \<noteq> sh_documentId row" using a(4) by (metis image_eqI)
    ultimately show ?thesis using that none sn assms(3) by (simp add: notes_ok_def)
  qed (use none a sn in simp)
  moreover have "\<exists>x \<in> set (db_shares db'). sh_state x = Pending \<and> nt_link n = secretShareLink (sh_documentId x) \<and> nt_recipient n = sh_recipientId x"
    if "n \<in> set (db_notes db')" "nt_type n = ''secretShared''" for n
    using that a assms(3) by (auto simp: notes_ok_def)
  ultimately show ?thesis by (simp add: notes_ok_def)
qed

lemma step_notes_ok: "secret_step ev now db l db' \<Longrightarrow> shares_ok db \<Longrightarrow> notes_ok db \<Longrightarrow> notes_ok db'"
  using step_effect [of ev now db l db'] effect_notes_ok added_notes_ok by (auto simp: shares_ok_def)

end
