(* ===== verification/SecretRuns.thy ===== *)
theory SecretRuns imports SecretShares begin

text \<open>
  What holds of every execution of the secret sharing of \<open>SecretShares\<close>: the invariants of the
  table and of the notifications, the life of one share as a refinement of a small machine, that a
  text is handed out once, and to nobody before it was stored, and the quotas.
\<close>

section \<open>Labels of a run\<close>

definition opened :: "secret_label list \<Rightarrow> int list" where
  "opened tr = List.map_filter (\<lambda>l. case l of Opened i t \<Rightarrow> Some i | _ \<Rightarrow> None) tr"

lemma opened_simps [simp]:
  "opened [] = []" "opened (tr @ [Quiet]) = opened tr" "opened (tr @ [Stored i t]) = opened tr"
  "opened (tr @ [Opened i t]) = opened tr @ [i]"
  by (simp_all add: opened_def List.map_filter_simps map_filter_def)

lemma opened_quiet: "(\<forall>i t. l \<noteq> Opened i t) \<Longrightarrow> opened (tr @ [l]) = opened tr"
  by (cases l) auto

inductive_cases secret_step_opened: "secret_step ev now db (Opened i t) db'"
inductive_cases secret_step_stored: "secret_step ev now db (Stored i t) db'"

lemma shares_ok_distinct: "shares_ok db \<Longrightarrow> distinct (map sh_id (db_shares db))"
  by (simp add: shares_ok_def)

section \<open>The life of one share\<close>

definition row_of :: "sdb \<Rightarrow> int \<Rightarrow> share option" where
  "row_of db i = find (\<lambda>s. sh_id s = i) (db_shares db)"

text \<open>A row is stored pending, rests, ends once and without its text, or is deleted; an ended row never changes.\<close>

inductive share_life :: "int \<Rightarrow> share option \<Rightarrow> share option \<Rightarrow> bool" where
  rest: "share_life now r r"
| store: "sh_state s = Pending \<Longrightarrow> sh_createdAt s = now \<Longrightarrow> share_life now None (Some s)"
| ending: "sh_state s = Pending \<Longrightarrow> to \<noteq> Pending \<Longrightarrow> share_life now (Some s) (Some (end_row to now s))"
| deletion: "share_life now (Some s) None"

lemma row_of_iff: "distinct (map sh_id (db_shares db)) \<Longrightarrow> row_of db i = Some s \<longleftrightarrow> s \<in> set (db_shares db) \<and> sh_id s = i"
proof
  assume "distinct (map sh_id (db_shares db))" "s \<in> set (db_shares db) \<and> sh_id s = i"
  moreover then obtain x where "row_of db i = Some x"
    by (cases "row_of db i") (auto simp: row_of_def find_None_iff)
  moreover from this have "x \<in> set (db_shares db)" "sh_id x = i"
    by (auto simp: row_of_def find_Some_iff)
  ultimately show "row_of db i = Some s" by (auto simp: distinct_map dest: inj_onD)
qed (auto simp: row_of_def find_Some_iff)

lemma row_of_None: "row_of db i = None \<longleftrightarrow> (\<forall>s \<in> set (db_shares db). sh_id s \<noteq> i)"
  by (auto simp: row_of_def find_None_iff)

lemma effect_life:
  assumes "share_effect now db db'" "distinct (map sh_id (db_shares db))" "distinct (map sh_id (db_shares db'))"
  shows "share_life now (row_of db i) (row_of db' i)"
  using assms(1)
proof (cases rule: share_effect.cases)
  case keep
  then show ?thesis by (simp add: row_of_def share_life.rest)
next
  case (finish s to)
  note e = endShare_spec [OF finish(3,1) assms(2)]
  then have sh: "db_shares db' = map (\<lambda>x. if x = s then end_row to now x else x) (db_shares db)" by simp
  show ?thesis
  proof (cases "sh_id s = i")
    case True
    then have "row_of db i = Some s" using finish(1) row_of_iff [OF assms(2)] by blast
    moreover have "row_of db' i = Some (end_row to now s)"
      unfolding row_of_iff [OF assms(3)] sh using True finish(1) by auto
    ultimately show ?thesis using finish(2) e by (auto intro: share_life.ending)
  next
    case False
    then have "row_of db' i = Some x \<longleftrightarrow> row_of db i = Some x" for x
      unfolding row_of_iff [OF assms(3)] row_of_iff [OF assms(2)] unfolding sh by auto
    then have "row_of db' i = row_of db i" by (metis option.exhaust)
    then show ?thesis by (simp add: share_life.rest)
  qed
next
  case (remove gone)
  have "row_of db' i = Some x \<Longrightarrow> row_of db i = Some x" for x
    unfolding row_of_iff [OF assms(3)] row_of_iff [OF assms(2)] unfolding remove(1) by auto
  then show ?thesis
    by (cases "row_of db' i"; cases "row_of db i") (auto intro: share_life.intros)
qed

lemma added_life:
  assumes "share_added ev input nonce now db db'" "shares_ok db"
  shows "share_life now (row_of db i) (row_of db' i)"
proof -
  obtain row where r: "db_shares db' = db_shares db @ [row]" "sh_id row = db_nextId db" "sh_state row = Pending"
    "sh_createdAt row = now" using assms(1) by (auto simp: share_added_def)
  have d: "distinct (map sh_id (db_shares db))" "distinct (map sh_id (db_shares db'))"
    using assms added_shares_ok by (auto simp: shares_ok_distinct)
  have iff: "row_of db' i = Some x \<longleftrightarrow> row_of db i = Some x \<or> x = row \<and> sh_id row = i" for x
    unfolding row_of_iff [OF d(1)] row_of_iff [OF d(2)] r(1) by auto
  show ?thesis
  proof (cases "sh_id row = i")
    case True
    then have "row_of db i = None" using assms(2) r(2) by (auto simp: row_of_None shares_ok_def)
    moreover have "row_of db' i = Some row" using True iff by simp
    ultimately show ?thesis using r(3,4) by (auto intro: share_life.store)
  next
    case False
    then have "row_of db' i = row_of db i" using iff by (metis option.exhaust)
    then show ?thesis by (simp add: share_life.rest)
  qed
qed

text \<open>C3: Every transaction moves every share along the machine \<open>share_life\<close>.\<close>

theorem share_lifecycle:
  assumes "secret_step ev now db l db'" "shares_ok db"
  shows "share_life now (row_of db i) (row_of db' i)"
  using step_effect [OF assms(1) shares_ok_distinct [OF assms(2)]]
proof
  assume e: "share_effect now db db'"
  then show ?thesis using effect_life [OF e] effect_shares_ok [OF e assms(2)] assms(2) by (simp add: shares_ok_distinct)
qed (use added_life assms(2) in blast)

section \<open>Invariants of a run\<close>

lemma run_shares_ok: "secret_run ev db tr ts db' \<Longrightarrow> shares_ok db \<Longrightarrow> shares_ok db'"
  by (induction rule: secret_run.induct) (auto intro: step_shares_ok)

lemma run_notes_ok: "secret_run ev db tr ts db' \<Longrightarrow> shares_ok db \<Longrightarrow> notes_ok db \<Longrightarrow> notes_ok db'"
  by (induction rule: secret_run.induct) (auto intro: step_notes_ok run_shares_ok)

text \<open>C4: In every reachable database a share holds its envelope exactly while it is pending, row ids
  and documentIds are unique, and a share has its one notification, to its recipient, exactly while
  it is pending.\<close>

theorem secret_invariant:
  assumes "secret_run ev db tr ts db'" "shares_ok db" "notes_ok db"
  shows "shares_ok db' \<and> notes_ok db'"
  using assms run_shares_ok run_notes_ok by blast

section \<open>Once, and only what was stored\<close>

lemma reveal_steps:
  assumes "revealShare ev cm c (JStr d) seen now db = (Inr t, db')" "findShare db d = Some s"
  obtains key where "cm = Committed" "ev_key ev = Some key" "s \<in> set (db_shares db)" "sh_state s = Pending"
    "sh_recipientId s = ca_userId c" "now < sh_expiresAt s" "endShare s Retrieved now db = (Inr (), db')"
    "sh_envelope s \<noteq> None" "openEnvelope (ev_crypto ev) key (the (sh_envelope s)) (binding_of s) = Some t"
proof -
  obtain key where k: "ev_key ev = Some key"
    and c: "confirmed cm (reveal_work ev key c d seen now) db = (Inr (RevealText t), db')"
    using assms(1) by (auto simp: revealShare_def split: if_splits option.splits prod.splits sum.splits reveal_outcome.splits)
  have cm: "cm = Committed" and w: "reveal_work ev key c d seen now db = (Inr (RevealText t), db')"
    using c by (auto simp: confirmed_def split: prod.splits sum.splits secret_error.splits commit.splits)
  show thesis
    using w by (cases rule: reveal_work_cases) (use assms(2) k cm findShare_mem that in auto)
qed

text \<open>What the table holds of a text: the envelope of a row is the seal of a text stored in it.\<close>

definition sealed_ok :: "share_env \<Rightarrow> secret_label list \<Rightarrow> sdb \<Rightarrow> bool" where
  "sealed_ok ev tr db = (\<forall>s \<in> set (db_shares db). \<forall>e. sh_envelope s = Some e \<longrightarrow> (\<exists>t nonce key.
     Stored (sh_id s) t \<in> set tr \<and> good_text t \<and> length nonce = NONCE_BYTES \<and> ev_key ev = Some key \<and>
     sealEnvelope (ev_crypto ev) key nonce t (binding_of s) = Some e))"

lemma effect_rows:
  assumes "share_effect now db db'" "distinct (map sh_id (db_shares db))" "x \<in> set (db_shares db')"
  obtains "x \<in> set (db_shares db)" | s to where "s \<in> set (db_shares db)" "x = end_row to now s" "to \<noteq> Pending"
  using assms(1)
proof (cases rule: share_effect.cases)
  case (finish s to)
  then show ?thesis using endShare_spec [OF finish(3,1) assms(2)] assms(3) that by (auto split: if_splits)
qed (use assms(3) that in auto)

lemma step_sealed_ok:
  assumes "secret_step ev now db l db'" "shares_ok db" "sealed_ok ev tr db"
  shows "sealed_ok ev (tr @ [l]) db'"
  using step_effect [OF assms(1) shares_ok_distinct [OF assms(2)]]
proof
  assume e: "share_effect now db db'"
  show ?thesis unfolding sealed_ok_def
  proof (intro ballI allI impI)
    fix x e assume "x \<in> set (db_shares db')" "sh_envelope x = Some e"
    moreover from this have "x \<in> set (db_shares db)"
      using effect_rows [OF \<open>share_effect now db db'\<close> shares_ok_distinct [OF assms(2)]] by (metis end_row_sel(6) option.distinct(1))
    ultimately show "\<exists>t nonce key. Stored (sh_id x) t \<in> set (tr @ [l]) \<and> good_text t \<and> length nonce = NONCE_BYTES \<and>
      ev_key ev = Some key \<and> sealEnvelope (ev_crypto ev) key nonce t (binding_of x) = Some e"
      using assms(3) by (fastforce simp: sealed_ok_def)
  qed
next
  assume "\<exists>input nonce. l = Stored (db_nextId db) (ci_text input) \<and> good_text (ci_text input) \<and>
    length nonce = NONCE_BYTES \<and> share_added ev input nonce now db db'"
  then show ?thesis using assms(3) unfolding sealed_ok_def share_added_def by fastforce
qed

lemma run_sealed_ok: "secret_run ev db tr ts db' \<Longrightarrow> shares_ok db \<Longrightarrow> db_shares db = [] \<Longrightarrow> sealed_ok ev tr db'"
  by (induction rule: secret_run.induct) (auto simp: sealed_ok_def [of _ "[]"] intro: step_sealed_ok run_shares_ok)

lemma run_prefix:
  "secret_run ev db tr ts db' \<Longrightarrow> tr = p @ l # q \<Longrightarrow>
   \<exists>us now db1 db2. secret_run ev db p us db1 \<and> secret_step ev now db1 l db2"
proof (induction arbitrary: q rule: secret_run.induct)
  case (more db tr ts db1 now l' db2)
  show ?case
  proof (cases q rule: rev_cases)
    case Nil
    then show ?thesis using more by auto
  next
    case (snoc q' y)
    then show ?thesis using more.IH [of q'] more.prems by auto
  qed
qed simp

lemma open_own_text:
  assumes "honest_crypto (ev_crypto ev)" "sealed_ok ev p db1" "secret_step ev now db1 (Opened i t) db2"
  shows "Stored i t \<in> set p"
proof -
  obtain cm c d seen s where r: "revealShare ev cm c (JStr d) seen now db1 = (Inr t, db2)" "findShare db1 d = Some s"
    "i = sh_id s" using assms(3) by (cases rule: secret_step_opened) (auto split: if_splits)
  obtain key where k: "ev_key ev = Some key" "s \<in> set (db_shares db1)" "sh_envelope s \<noteq> None"
    "openEnvelope (ev_crypto ev) key (the (sh_envelope s)) (binding_of s) = Some t"
    using r(1,2) by (rule reveal_steps) auto
  then obtain t' nonce where st: "Stored (sh_id s) t' \<in> set p" "good_text t'" "length nonce = NONCE_BYTES"
    "sealEnvelope (ev_crypto ev) key nonce t' (binding_of s) = sh_envelope s"
    using assms(2) by (fastforce simp: sealed_ok_def)
  then have "openEnvelope (ev_crypto ev) key (the (sh_envelope s)) (binding_of s) = Some t'"
    using assms(1) k(3) by (intro open_sealed [of _ nonce]) (auto simp: good_text_def)
  then show ?thesis using st(1) k(4) r(3) by simp
qed

text \<open>C2: Opening: under a cipher that keeps its contract, a text is only ever handed out of a share in
  which that very text was stored before.\<close>

theorem reveals_what_was_stored:
  assumes "honest_crypto (ev_crypto ev)" "secret_run ev db (p @ Opened i t # q) ts db'" "shares_ok db" "db_shares db = []"
  shows "Stored i t \<in> set p"
proof -
  obtain us now db1 db2 where "secret_run ev db p us db1" "secret_step ev now db1 (Opened i t) db2"
    using run_prefix [OF assms(2) refl] by blast
  then show ?thesis using open_own_text [OF assms(1)] run_sealed_ok assms(3,4) by blast
qed

text \<open>An opened share stays ended while its row exists, and its id is not given away again.\<close>

definition opened_ended :: "secret_label list \<Rightarrow> sdb \<Rightarrow> bool" where
  "opened_ended tr db = (distinct (opened tr) \<and>
     (\<forall>i \<in> set (opened tr). i < db_nextId db \<and> (\<forall>s \<in> set (db_shares db). sh_id s = i \<longrightarrow> sh_state s = Retrieved)))"

lemma step_nextId: "secret_step ev now db l db' \<Longrightarrow> shares_ok db \<Longrightarrow> db_nextId db \<le> db_nextId db'"
proof -
  assume a: "secret_step ev now db l db'" "shares_ok db"
  have "share_effect now db db' \<Longrightarrow> db_nextId db' = db_nextId db"
    by (erule share_effect.cases) (use a(2) endShare_spec shares_ok_distinct in auto)
  then show ?thesis using step_effect [OF a(1) shares_ok_distinct [OF a(2)]] by (auto simp: share_added_def)
qed

lemma step_ended_stays:
  assumes "secret_step ev now db l db'" "shares_ok db" "i < db_nextId db"
    "\<forall>s \<in> set (db_shares db). sh_id s = i \<longrightarrow> sh_state s = Retrieved" "s \<in> set (db_shares db')" "sh_id s = i"
  shows "sh_state s = Retrieved"
proof -
  have d: "distinct (map sh_id (db_shares db))" using assms(2) by (rule shares_ok_distinct)
  from step_effect [OF assms(1) d] show ?thesis
  proof
    assume e: "share_effect now db db'"
    from e show ?thesis
    proof (cases rule: share_effect.cases)
      case (finish x to)
      then show ?thesis using endShare_spec [OF finish(3,1) d] assms(4-6) by (fastforce split: if_splits)
    qed (use assms(4-6) in auto)
  qed (use assms(3-6) in \<open>auto simp: share_added_def\<close>)
qed

lemma step_opened_ended:
  assumes "secret_step ev now db l db'" "shares_ok db" "opened_ended tr db"
  shows "opened_ended (tr @ [l]) db'"
proof (cases "\<exists>i t. l = Opened i t")
  case False
  then have "opened (tr @ [l]) = opened tr" by (simp add: opened_quiet)
  then show ?thesis
    using assms(3) step_ended_stays [OF assms(1,2)] step_nextId [OF assms(1,2)] by (fastforce simp: opened_ended_def)
next
  case True
  then obtain i t where l: "l = Opened i t" by blast
  obtain cm c d seen s where r: "revealShare ev cm c (JStr d) seen now db = (Inr t, db')" "findShare db d = Some s"
    "i = sh_id s" using assms(1) unfolding l by (cases rule: secret_step_opened) (auto split: if_splits)
  have s: "s \<in> set (db_shares db)" "sh_state s = Pending" "endShare s Retrieved now db = (Inr (), db')"
    using r by (blast elim: reveal_steps)+
  have "i \<notin> set (opened tr)" using assms(3) s r(3) by (auto simp: opened_ended_def)
  moreover have "i < db_nextId db'"
    using s(1) r(3) assms(2) step_nextId [OF assms(1,2)] by (fastforce simp: shares_ok_def)
  moreover have "\<forall>x \<in> set (db_shares db'). sh_id x = i \<longrightarrow> sh_state x = Retrieved"
    using endShare_spec [OF s(3,1) shares_ok_distinct [OF assms(2)]] id_inj [OF assms(2)] s(1) r(3)
    by (fastforce split: if_splits)
  ultimately show ?thesis
    using assms(3) step_ended_stays [OF assms(1,2)] step_nextId [OF assms(1,2)] l by (fastforce simp: opened_ended_def)
qed

lemma run_opened_ended: "secret_run ev db tr ts db' \<Longrightarrow> shares_ok db \<Longrightarrow> opened_ended tr db'"
  by (induction rule: secret_run.induct) (auto simp: opened_ended_def [of "[]"] intro: step_opened_ended run_shares_ok)

text \<open>C1: Read once: along any execution, whatever the commits, races and deletions, the text of a share
  is handed out at most once.\<close>

theorem read_once:
  assumes "secret_run ev db tr ts db'" "shares_ok db"
  shows "distinct (opened tr)"
  using run_opened_ended [OF assms] by (simp add: opened_ended_def)

section \<open>Quotas\<close>

definition open_of :: "(share \<Rightarrow> int) \<Rightarrow> int \<Rightarrow> int \<Rightarrow> sdb \<Rightarrow> nat" where
  "open_of party u now db = count_shares (\<lambda>s. share_open now s \<and> party s = u) db"

lemma length_filter_mono: "(\<And>x. x \<in> set xs \<Longrightarrow> P x \<Longrightarrow> Q x) \<Longrightarrow> length (filter P xs) \<le> length (filter Q xs)"
  by (induction xs) auto

lemma open_of_later: "now \<le> later \<Longrightarrow> open_of p u later db \<le> open_of p u now db"
  unfolding open_of_def count_shares_def by (rule length_filter_mono) (auto simp: share_open_def)

lemma effect_open_of:
  assumes "share_effect t db db'" "distinct (map sh_id (db_shares db))"
  shows "open_of p u now db' \<le> open_of p u now db"
  using assms(1)
proof (cases rule: share_effect.cases)
  case (finish s to)
  let ?P = "\<lambda>x. share_open now x \<and> p x = u" and ?f = "\<lambda>x. if x = s then end_row to t x else x"
  have "db_shares db' = map ?f (db_shares db)" using endShare_spec [OF finish(3,1) assms(2)] by simp
  then have "open_of p u now db' = length (filter (?P \<circ> ?f) (db_shares db))"
    by (simp add: open_of_def count_shares_def filter_map)
  also have "\<dots> \<le> length (filter ?P (db_shares db))"
    using finish(2) by (intro length_filter_mono) (auto simp: share_open_def split: if_splits)
  finally show ?thesis by (simp add: open_of_def count_shares_def)
next
  case (remove gone)
  then show ?thesis unfolding open_of_def count_shares_def remove(1) filter_filter by (auto intro: length_filter_mono)
qed (simp add: open_of_def count_shares_def)

definition quotas_ok :: "int \<Rightarrow> sdb \<Rightarrow> bool" where
  "quotas_ok now db = (\<forall>u later. now \<le> later \<longrightarrow> open_of sh_senderId u later db \<le> SECRET_PENDING_PER_SENDER \<and>
     open_of sh_recipientId u later db \<le> SECRET_PENDING_PER_RECIPIENT)"

lemma added_quotas_ok:
  assumes "share_added ev input nonce now db db'" "quotas_ok before db" "before \<le> now"
  shows "quotas_ok now db'"
proof -
  obtain row where r: "db_shares db' = db_shares db @ [row]"
    "open_of sh_senderId (sh_senderId row) now db < SECRET_PENDING_PER_SENDER"
    "open_of sh_recipientId (sh_recipientId row) now db < SECRET_PENDING_PER_RECIPIENT"
    using assms(1) by (auto simp: share_added_def open_of_def)
  have "open_of p u later db' \<le> open_of p u later db + (if p row = u then 1 else 0)" for p u later
    by (auto simp: open_of_def count_shares_def r(1))
  then have le: "open_of p u later db' \<le> open_of p u later db + (if p row = u then 1 else 0)" for p u later .
  have "open_of p u later db' \<le> N"
    if "now \<le> later" "open_of p (p row) now db < N" "open_of p u later db \<le> N" for p u later N
    using that open_of_later [OF that(1), of p u db] le [of p u later] by (cases "p row = u") auto
  then show ?thesis using assms(2,3) r(2,3) by (auto simp: quotas_ok_def)
qed

lemma step_quotas_ok:
  assumes "secret_step ev now db l db'" "shares_ok db" "quotas_ok before db" "before \<le> now"
  shows "quotas_ok now db'"
  using step_effect [OF assms(1) shares_ok_distinct [OF assms(2)]]
proof
  assume e: "share_effect now db db'"
  show ?thesis
    using effect_open_of [OF e shares_ok_distinct [OF assms(2)]] assms(3,4) unfolding quotas_ok_def
    by (meson le_trans order_trans)
qed (use added_quotas_ok assms(3,4) in blast)

lemma run_quotas_ok:
  "secret_run ev db tr ts db' \<Longrightarrow> shares_ok db \<Longrightarrow> quotas_ok t0 db \<Longrightarrow> sorted (t0 # ts) \<Longrightarrow> quotas_ok (last (t0 # ts)) db'"
proof (induction rule: secret_run.induct)
  case (more db tr ts db1 now l db2)
  then have "quotas_ok (last (t0 # ts)) db1" by (simp add: sorted_append)
  moreover have "last (t0 # ts) \<le> now" using more.prems(3) by (auto simp: sorted_append)
  ultimately have "quotas_ok now db2"
    using step_quotas_ok [OF more.hyps(2)] run_shares_ok [OF more.hyps(1) more.prems(1)] by blast
  then show ?case by simp
qed simp

text \<open>C5: Quotas: from an empty table and with a clock that does not run backwards, nobody ever has more
  than twenty open shares sent, nor more than twenty received.\<close>

theorem secret_quotas:
  assumes "secret_run ev db tr (now0 # ts) db'" "db_shares db = []" "sorted (now0 # ts)" "last (now0 # ts) \<le> now"
  shows "count_shares (\<lambda>s. share_open now s \<and> sh_senderId s = u) db' \<le> 20 \<and>
    count_shares (\<lambda>s. share_open now s \<and> sh_recipientId s = u) db' \<le> 20"
proof -
  have e: "shares_ok db" "quotas_ok now0 db" using assms(2) by (auto simp: shares_ok_def quotas_ok_def open_of_def count_shares_def)
  have "quotas_ok (last (now0 # now0 # ts)) db'" by (rule run_quotas_ok [OF assms(1) e]) (use assms(3) in simp)
  then show ?thesis using assms(4)
    by (simp add: quotas_ok_def open_of_def SECRET_PENDING_PER_SENDER_def SECRET_PENDING_PER_RECIPIENT_def)
qed

section \<open>What the two ends may do\<close>

lemma ended_row:
  assumes "endShare s to now db = (Inr (), db')" "s \<in> set (db_shares db)" "shares_ok db" "to \<noteq> Pending"
  shows "row_of db' (sh_id s) = Some (end_row to now s)" "share_notes (sh_documentId s) db' = []"
proof -
  note e = endShare_spec [OF assms(1,2) shares_ok_distinct [OF assms(3)]]
  have ok: "shares_ok db'" using effect_shares_ok [OF share_effect.finish [OF assms(2,4,1)] assms(3)] .
  show "row_of db' (sh_id s) = Some (end_row to now s)"
    unfolding row_of_iff [OF shares_ok_distinct [OF ok]] using e assms(2) by auto
  show "share_notes (sh_documentId s) db' = []" using e by (auto simp: share_notes_def filter_empty_conv)
qed

lemma filter_one: "distinct xs \<Longrightarrow> x \<in> set xs \<Longrightarrow> filter (\<lambda>y. y = x) xs = [x]"
  by (induction xs) (auto simp: filter_empty_conv)

text \<open>C6: Reveal: a text is answered only after a confirmed commit, to the recipient named in the share,
  who still passes the second-factor gate and may receive, of a share that was pending and not past
  its expiry, whose sender is still eligible; the row is left ended, without the text, and its
  notification is gone.\<close>

theorem reveal_is_final:
  assumes "revealShare ev cm c (JStr d) seen now db = (Inr t, db')" "shares_ok db"
  shows "cm = Committed \<and> (\<exists>s row. findShare db d = Some s \<and> sh_state s = Pending \<and> now < sh_expiresAt s \<and>
    sh_recipientId s = ca_userId c \<and> assertFreshCaller ev db c = Inr row \<and> canReceive ev (Some row) \<and>
    isEligible (loadPerson db (sh_senderId s)) \<and>
    row_of db' (sh_id s) = Some (end_row Retrieved now s) \<and> share_notes d db' = [])"
proof -
  obtain key where k: "ev_key ev = Some key"
    and c: "confirmed cm (reveal_work ev key c d seen now) db = (Inr (RevealText t), db')"
    using assms(1) by (auto simp: revealShare_def split: if_splits option.splits prod.splits sum.splits reveal_outcome.splits)
  have w: "reveal_work ev key c d seen now db = (Inr (RevealText t), db')"
    using c by (auto simp: confirmed_def split: prod.splits sum.splits secret_error.splits commit.splits)
  then obtain s row where s: "findShare db d = Some s" "assertFreshCaller ev db c = Inr row" "canReceive ev (Some row)"
    "isEligible (loadPerson db (sh_senderId s))" "endShare s Retrieved now db = (Inr (), db')"
    by (auto simp: reveal_work_def Let_def split: option.splits sum.splits if_splits prod.splits)
  have m: "cm = Committed" "sh_state s = Pending" "sh_recipientId s = ca_userId c" "now < sh_expiresAt s" "s \<in> set (db_shares db)"
    using assms(1) s(1) by (blast elim: reveal_steps)+
  have "row_of db' (sh_id s) = Some (end_row Retrieved now s)" "share_notes (sh_documentId s) db' = []"
    using ended_row [OF s(5) m(5) assms(2)] by simp_all
  then show ?thesis using s m findShare_mem [OF s(1)] by blast
qed

text \<open>Revoke: the sender of a pending share, in good standing, can always withdraw it; the row ends
  without its text and the notification is gone, whoever else is involved.\<close>

theorem revoke_works:
  assumes "shares_ok db" "findShare db d = Some s" "findShare seen d = Some s0" "sh_senderId s0 = ca_userId c"
    "sh_senderId s = ca_userId c" "sh_state s = Pending" "is_document_id d" "assertFreshCaller ev db c = Inr row"
  shows "\<exists>db'. revokeShare ev Committed c (JStr d) seen now db = (Inr d, db') \<and>
    row_of db' (sh_id s) = Some (end_row Revoked now s) \<and> share_notes d db' = []"
proof -
  have s: "s \<in> set (db_shares db)" "sh_documentId s = d" using findShare_mem [OF assms(2)] by auto
  have d: "distinct (map sh_id (db_shares db))" using assms(1) by (rule shares_ok_distinct)
  have "filter (end_match (sh_id s) Revoked) (db_shares db) = filter (\<lambda>x. x = s) (db_shares db)"
    using s assms(6) id_inj [OF assms(1)] by (intro filter_cong) (auto simp: end_match_def)
  also have "length \<dots> = 1"
    using s(1) d by (simp add: filter_one distinct_map)
  finally obtain db' where e: "endShare s Revoked now db = (Inr (), db')" by (auto simp: endShare_def Let_def)
  have "revokeShare ev Committed c (JStr d) seen now db = (Inr d, db')"
    using assms e s by (simp add: revokeShare_def revoke_work_def confirmed_def)
  then show ?thesis using ended_row [OF e s(1) assms(1)] s(2) by auto
qed

section \<open>Deletion\<close>

lemma delete_page_props:
  assumes "\<forall>s \<in> set (db_shares db). wh s \<longrightarrow> is_row_id (sh_recipientId s)" "distinct (map sh_id (db_shares db))"
  shows "delete_page wh db = take DELETE_PAGE (sort_key sh_id (filter wh (db_shares db)))"
    "distinct (delete_page wh db)" "set (delete_page wh db) \<subseteq> set (filter wh (db_shares db))"
    "delete_page wh db = [] \<longleftrightarrow> filter wh (db_shares db) = []"
proof -
  show eq: "delete_page wh db = take DELETE_PAGE (sort_key sh_id (filter wh (db_shares db)))"
    unfolding delete_page_def using assms(1) by (auto simp: filter_id_conv dest!: in_set_takeD)
  show "distinct (delete_page wh db)"
    unfolding eq using assms(2) by (auto simp: distinct_map)
  show "set (delete_page wh db) \<subseteq> set (filter wh (db_shares db))"
    unfolding eq by (auto dest!: in_set_takeD)
  show "delete_page wh db = [] \<longleftrightarrow> filter wh (db_shares db) = []"
    unfolding eq by (simp add: DELETE_PAGE_def) (metis length_0_conv length_sort)
qed

lemma length_filter_remove:
  assumes "distinct xs" "distinct ys" "set ys \<subseteq> set (filter P xs)"
  shows "length ys + length (filter P (filter (\<lambda>x. x \<notin> set ys) xs)) = length (filter P xs)"
proof -
  have "set (filter P xs) = set ys \<union> set (filter P (filter (\<lambda>x. x \<notin> set ys) xs))" using assms(3) by auto
  moreover have "card \<dots> = card (set ys) + card (set (filter P (filter (\<lambda>x. x \<notin> set ys) xs)))"
    by (rule card_Un_disjoint) auto
  ultimately show ?thesis using assms(1,2) by (simp add: distinct_card [symmetric])
qed

lemma deleteShares_from_all:
  "deleteShares_from wh k db = (n, db') \<Longrightarrow> \<forall>s \<in> set (db_shares db). wh s \<longrightarrow> is_row_id (sh_recipientId s) \<Longrightarrow>
   distinct (map sh_id (db_shares db)) \<Longrightarrow>
   db_shares db' = filter (\<lambda>s. \<not> wh s) (db_shares db) \<and> n = k + length (filter wh (db_shares db))"
proof (induction wh k db rule: deleteShares_from.induct)
  case (1 wh k db)
  note pg = delete_page_props [OF "1.prems"(2,3)]
  show ?case
  proof (cases "delete_page wh db = []")
    case True
    then show ?thesis using "1.prems"(1) pg(4) by (subst (asm) deleteShares_from.simps) (auto simp: filter_empty_conv filter_id_conv)
  next
    case False
    let ?p = "delete_page wh db" and ?db = "delete_rows (delete_page wh db) db"
    have r: "deleteShares_from wh (k + length ?p) ?db = (n, db')"
      using "1.prems"(1) False by (subst (asm) deleteShares_from.simps) (simp add: Let_def)
    have inj: "inj_on sh_id (set (db_shares db))" using "1.prems"(3) by (simp add: distinct_map)
    have rows: "db_shares ?db = filter (\<lambda>s. s \<notin> set ?p) (db_shares db)"
      unfolding delete_rows_def using pg(3) inj by (auto intro!: filter_cong dest: inj_onD)
    have "db_shares db' = filter (\<lambda>s. \<not> wh s) (db_shares ?db) \<and> n = k + length ?p + length (filter wh (db_shares ?db))"
      by (rule "1.IH" [OF refl False r])
        (use "1.prems"(2,3) in \<open>auto simp: rows distinct_map intro: inj_on_subset\<close>)
    moreover have "filter (\<lambda>s. \<not> wh s) (db_shares ?db) = filter (\<lambda>s. \<not> wh s) (db_shares db)"
      unfolding rows filter_filter using pg(3) by (auto intro: filter_cong)
    moreover have "length ?p + length (filter wh (db_shares ?db)) = length (filter wh (db_shares db))"
      unfolding rows using "1.prems"(3) by (intro length_filter_remove pg(2,3)) (simp add: distinct_map)
    ultimately show ?thesis by simp
  qed
qed

text \<open>Erasure: deleting what a person sent or received, page by page, ends and removes every such
  share with its notifications, leaves every other share as it was and counts the rows.\<close>

theorem erasure_is_complete:
  assumes "deleteShares (sharesOf u) db = (n, db')" "shares_ok db" "notes_ok db"
    "\<forall>s \<in> set (db_shares db). is_row_id (sh_recipientId s)"
  shows "db_shares db' = filter (\<lambda>s. sh_senderId s \<noteq> u \<and> sh_recipientId s \<noteq> u) (db_shares db) \<and>
    n = length (filter (sharesOf u) (db_shares db)) \<and>
    list_all (\<lambda>s. share_notes (sh_documentId s) db' = []) (filter (sharesOf u) (db_shares db))"
proof -
  have d: "distinct (map sh_id (db_shares db))" using assms(2) by (rule shares_ok_distinct)
  have a: "db_shares db' = filter (\<lambda>s. \<not> sharesOf u s) (db_shares db)" "n = length (filter (sharesOf u) (db_shares db))"
    using deleteShares_from_all [of "sharesOf u" 0 db n db'] assms(1,4) d by (auto simp: deleteShares_def)
  then have rest: "db_shares db' = filter (\<lambda>s. sh_senderId s \<noteq> u \<and> sh_recipientId s \<noteq> u) (db_shares db)"
    by (simp add: sharesOf_def)
  have "removal db db'" using deleteShares_removal assms(1) d by blast
  then have ok: "notes_ok db'" using effect_notes_ok [OF removal_effect assms(2,3)] by blast
  have "\<forall>s \<in> set (db_shares db). sharesOf u s \<longrightarrow> share_notes (sh_documentId s) db' = []"
  proof (intro ballI impI)
    fix s assume s: "s \<in> set (db_shares db)" "sharesOf u s"
    have "nt_link n \<noteq> secretShareLink (sh_documentId s)"
      if n: "n \<in> set (db_notes db')" "nt_type n = ''secretShared''" for n
    proof -
      obtain x where x: "x \<in> set (db_shares db')" "nt_link n = secretShareLink (sh_documentId x)"
        using ok n unfolding notes_ok_def by blast
      then have "x \<in> set (db_shares db)" "\<not> sharesOf u x" by (auto simp: a(1))
      then show ?thesis using s x(2) doc_inj [OF assms(2), of x s] by auto
    qed
    then show "share_notes (sh_documentId s) db' = []" by (auto simp: share_notes_def filter_empty_conv)
  qed
  then show ?thesis using rest a(2) by (simp add: list_all_iff)
qed

section \<open>A run\<close>

definition demo_people :: "user_row list" where
  "demo_people = [\<lparr>ur_id = 1, ur_displayName = JStr ''Ada'', ur_username = JStr ''ada'', ur_blocked = JBool False,
     ur_role = JStr ''member'', ur_department = None, ur_tokenVersion = JInt 0, ur_totpEnabledAt = JNull\<rparr>,
   \<lparr>ur_id = 2, ur_displayName = JStr ''Ben'', ur_username = JStr ''ben'', ur_blocked = JBool False,
     ur_role = JStr ''member'', ur_department = None, ur_tokenVersion = JInt 0, ur_totpEnabledAt = JNull\<rparr>]"

definition demo_db :: sdb where
  "demo_db = \<lparr>db_shares = [], db_users = demo_people, db_notes = [], db_nextId = 1\<rparr>"

definition demo_share_env :: share_env where
  "demo_share_env = \<lparr>ev_key = Some [], ev_crypto = plain_crypto,
     ev_roles = \<lparr>sr_send = STAFF_ROLES, sr_receive = STAFF_ROLES\<rparr>, ev_mfaRoles = MODERATORS\<rparr>"

definition demo_caller :: "int \<Rightarrow> caller" where
  "demo_caller i = \<lparr>ca_userId = i, ca_assurance = Some \<lparr>as_am = AmPw, as_mfa = False, as_tv = 0\<rparr>\<rparr>"

definition demo_doc :: string where "demo_doc = ''a23456789012345678901234''"

definition demo_input :: create_input where
  "demo_input = \<lparr>ci_recipient = 2, ci_text = [104, 105], ci_lifetime = OneHour\<rparr>"

definition demo_db1 :: sdb where
  "demo_db1 = demo_db\<lparr>
     db_shares := [\<lparr>sh_id = 1, sh_documentId = demo_doc, sh_senderId = 1, sh_recipientId = 2, sh_expiresAt = 3600000,
       sh_state = Pending, sh_terminalAt = None, sh_createdAt = 0,
       sh_envelope = Some ''v1.AAAAAAAAAAAAAAAAAAAAAAAA.AAGIAAGJAAAAAAAAAAAAAAAAAAAAAAAAAAAAAAAA''\<rparr>],
     db_notes := [\<lparr>nt_type = ''secretShared'', nt_link = ''/secrets/a23456789012345678901234'', nt_recipient = 2,
       nt_actor = 1, nt_title = ''Ada''\<rparr>],
     db_nextId := 2\<rparr>"

definition demo_db2 :: sdb where
  "demo_db2 = snd (revealShare demo_share_env Committed (demo_caller 2) (JStr demo_doc) demo_db1 5 demo_db1)"

lemma demo_created:
  "createShare demo_share_env Committed (demo_caller 1) demo_input 0 demo_doc (replicate 12 0) demo_db
     = (Inr (demo_doc, ''1970-01-01T01:00:00.000Z''), demo_db1)"
  by code_simp

lemma demo_revealed:
  "fst (revealShare demo_share_env Committed (demo_caller 2) (JStr demo_doc) demo_db1 5 demo_db1) = Inr [104, 105]"
  by code_simp

lemma demo_standing: "map_sum id ur_id (assertFreshCaller demo_share_env demo_db1 (demo_caller 1)) = Inr 1"
  by code_simp

lemma demo_text: "good_text [104, 105]" "is_document_id demo_doc"
  by code_simp+

lemma demo_found: "findShare demo_db1 demo_doc = Some (hd (db_shares demo_db1))"
  by code_simp

lemma demo_facts:
  "db_shares demo_db = []" "db_nextId demo_db = 1" "db_shares demo_db1 \<noteq> []" "sh_id (hd (db_shares demo_db1)) = 1"
  "sh_senderId (hd (db_shares demo_db1)) = 1" "sh_state (hd (db_shares demo_db1)) = Pending"
  "\<forall>s \<in> set (db_shares demo_db1). is_row_id (sh_recipientId s)"
  by (simp_all add: demo_db_def demo_db1_def is_row_id_def MAX_ROW_ID_def)

lemma demo_create: "secret_step demo_share_env 0 demo_db (Stored 1 [104, 105]) demo_db1"
proof -
  have "secret_step demo_share_env 0 demo_db
    (if db_shares demo_db1 = db_shares demo_db then Quiet else Stored (db_nextId demo_db) (ci_text demo_input)) demo_db1"
    by (rule secret_step.create [of _ Committed "demo_caller 1" demo_input 0 demo_doc "replicate 12 0"])
      (use demo_created demo_text(1) in \<open>simp_all add: demo_input_def NONCE_BYTES_def\<close>)
  then show ?thesis using demo_facts(1-3) by (simp add: demo_input_def)
qed

lemma demo_reveal:
  "revealShare demo_share_env Committed (demo_caller 2) (JStr demo_doc) demo_db1 5 demo_db1 = (Inr [104, 105], demo_db2)"
  using demo_revealed by (simp add: demo_db2_def prod_eq_iff)

lemma demo_run: "secret_run demo_share_env demo_db [Stored 1 [104, 105], Opened 1 [104, 105]] [0, 5] demo_db2"
proof -
  have "secret_step demo_share_env 5 demo_db1 (Opened 1 [104, 105]) demo_db2"
    using secret_step.reveal [OF demo_reveal demo_found] demo_facts(4) by simp
  then show ?thesis
    using secret_run.more [OF secret_run.more [OF secret_run.start demo_create]] by fastforce
qed

lemma demo_ok: "shares_ok demo_db" "notes_ok demo_db" "shares_ok demo_db1" "notes_ok demo_db1"
proof -
  show "shares_ok demo_db" "notes_ok demo_db" by (simp_all add: shares_ok_def notes_ok_def demo_db_def)
  then show "shares_ok demo_db1" "notes_ok demo_db1" using demo_create step_shares_ok step_notes_ok by blast+
qed

theorem share_lifecycle_witness: "share_life 0 (row_of demo_db 1) (row_of demo_db1 1)"
  using share_lifecycle [OF demo_create demo_ok(1)] .

theorem secret_invariant_witness: "shares_ok demo_db2 \<and> notes_ok demo_db2"
  using secret_invariant [OF demo_run demo_ok(1,2)] .

theorem reveals_what_was_stored_witness: "Stored 1 [104, 105] \<in> set [Stored 1 [104, 105]]"
proof (rule reveals_what_was_stored)
  show "honest_crypto (ev_crypto demo_share_env)" by (simp add: demo_share_env_def plain_crypto_honest)
  show "secret_run demo_share_env demo_db ([Stored 1 [104, 105]] @ Opened 1 [104, 105] # []) [0, 5] demo_db2"
    using demo_run by simp
qed (rule demo_ok, rule demo_facts(1))

theorem read_once_witness: "distinct (opened [Stored 1 [104, 105], Opened 1 [104, 105]])"
  using read_once [OF demo_run demo_ok(1)] .

theorem secret_quotas_witness:
  "count_shares (\<lambda>s. share_open 9 s \<and> sh_senderId s = 1) demo_db2 \<le> 20 \<and>
   count_shares (\<lambda>s. share_open 9 s \<and> sh_recipientId s = 1) demo_db2 \<le> 20"
  using secret_quotas [OF demo_run demo_facts(1)] by simp

theorem reveal_is_final_witness:
  "Committed = Committed \<and> (\<exists>s row. findShare demo_db1 demo_doc = Some s \<and> sh_state s = Pending \<and> 5 < sh_expiresAt s \<and>
    sh_recipientId s = ca_userId (demo_caller 2) \<and> assertFreshCaller demo_share_env demo_db1 (demo_caller 2) = Inr row \<and>
    canReceive demo_share_env (Some row) \<and> isEligible (loadPerson demo_db1 (sh_senderId s)) \<and>
    row_of demo_db2 (sh_id s) = Some (end_row Retrieved 5 s) \<and> share_notes demo_doc demo_db2 = [])"
  using reveal_is_final [OF demo_reveal demo_ok(3)] .

theorem revoke_works_witness:
  "\<exists>s db'. revokeShare demo_share_env Committed (demo_caller 1) (JStr demo_doc) demo_db1 7 demo_db1 = (Inr demo_doc, db') \<and>
    row_of db' (sh_id s) = Some (end_row Revoked 7 s) \<and> share_notes demo_doc db' = []"
proof -
  obtain row where r: "assertFreshCaller demo_share_env demo_db1 (demo_caller 1) = Inr row"
    using demo_standing by (cases "assertFreshCaller demo_share_env demo_db1 (demo_caller 1)") auto
  have "sh_senderId (hd (db_shares demo_db1)) = ca_userId (demo_caller 1)"
    using demo_facts(5) by (simp add: demo_caller_def)
  from revoke_works [OF demo_ok(3) demo_found demo_found this this demo_facts(6) demo_text(2) r] show ?thesis by blast
qed

theorem erasure_is_complete_witness:
  "db_shares (snd (deleteShares (sharesOf 2) demo_db1))
     = filter (\<lambda>s. sh_senderId s \<noteq> 2 \<and> sh_recipientId s \<noteq> 2) (db_shares demo_db1) \<and>
   fst (deleteShares (sharesOf 2) demo_db1) = length (filter (sharesOf 2) (db_shares demo_db1)) \<and>
   list_all (\<lambda>s. share_notes (sh_documentId s) (snd (deleteShares (sharesOf 2) demo_db1)) = [])
     (filter (sharesOf 2) (db_shares demo_db1))"
  by (rule erasure_is_complete [OF prod.collapse [symmetric] demo_ok(3,4) demo_facts(7)])

end
