(* ===== verification/KeyOrder.thy ===== *)
theory KeyOrder imports PlainDate begin

text \<open>
  The source compares calendar date keys as strings. Here: on real keys that order is the order of the
  days, so \<open>a < b\<close> on keys and \<open>daysBetweenKeys\<close> never disagree.
\<close>

lemma lex_append: "length a = length b \<Longrightarrow> a @ x < b @ y \<longleftrightarrow> a < b \<or> a = b \<and> x < (y :: 'a :: linorder list)"
  by (induction a b rule: list_induct2) auto

lemma char_less_int: "x < y \<longleftrightarrow> (of_char x :: int) < of_char y"
  using of_nat_less_iff [where 'a = int, of "of_char x :: nat" "of_char y"]
  by (simp only: of_nat_of_char less_char_def)

lemma digits_less_num:
  "length s = length t \<Longrightarrow> \<forall>c \<in> set s. is_digit c \<Longrightarrow> \<forall>c \<in> set t. is_digit c \<Longrightarrow> s < t \<longleftrightarrow> num_of s < num_of t"
proof (induction s t rule: rev_induct2)
  case (4 x xs y ys)
  then have IH: "xs < ys \<longleftrightarrow> num_of xs < num_of ys" "length xs = length ys" by simp_all
  have eq: "xs = ys \<longleftrightarrow> num_of xs = num_of ys" using num_of_inj [of xs ys] 4 by auto
  have "x < y \<longleftrightarrow> digit_val x < digit_val y" by (simp add: digit_val_def char_less_int)
  then show ?case
    using IH eq 4 digit_val_range [of x] digit_val_range [of y]
    by (auto simp: lex_append num_acc_snoc)
qed auto

lemma month_start_step: "month_start l m \<le> month_start l (m + 1)"
proof (cases "0 \<le> m \<and> m \<le> 11")
  case True
  then have m: "0 \<le> m" "m \<le> 11" by simp_all
  show ?thesis by (rule month_cases [OF m]) (simp_all add: month_start_def)
qed (auto simp: month_start_def)

lemma month_start_mono: "m \<le> m' \<Longrightarrow> month_start l m \<le> month_start l m'"
proof (induction m' rule: int_ge_induct)
  case (step m')
  then show ?case using month_start_step [of l m'] by simp
qed simp

lemma real_civil_less:
  assumes "real_civil y m d" "real_civil y' m' d'" "y < y' \<or> y = y' \<and> (m < m' \<or> m = m' \<and> d < d')"
  shows "day_of_civil y m d < day_of_civil y' m' d'"
proof (cases "y < y'")
  case True
  then have "day_from_year (y + 1) \<le> day_from_year y'" using day_from_year_mono [of "y + 1" y'] by simp
  then show ?thesis using day_of_civil_bounds(2) [OF assms(1)] day_of_civil_bounds(1) [OF assms(2)] by linarith
next
  case False
  have eq: "y' = y" using False assms(3) by simp
  have v: "day_of_civil y m d = day_from_year y + month_start (leap y) m + d - 1"
    "day_of_civil y m' d' = day_from_year y + month_start (leap y) m' + d' - 1"
    using assms(1,2) by (simp_all add: real_civil_def day_of_civil_def Let_def)
  have b: "d \<le> month_start (leap y) (m + 1) - month_start (leap y) m" "1 \<le> d'"
    using assms(1,2) by (simp_all add: real_civil_def month_len_def)
  show ?thesis
  proof (cases "m < m'")
    case True
    then have "month_start (leap y) (m + 1) \<le> month_start (leap y) m'" by (intro month_start_mono) simp
    then show ?thesis unfolding eq using v b by linarith
  next
    case False
    then show ?thesis using v eq assms(3) by simp
  qed
qed

lemma key_less_mono:
  assumes "is_plain_date a" "is_plain_date b" "a < b"
  shows "key_day a < key_day b"
proof -
  obtain y m d y' m' d' where
    a: "rx_match PLAIN_DATE_RE a" "plain_date_groups a = (y, m, d)" "real_civil y (m - 1) d" and
    b: "rx_match PLAIN_DATE_RE b" "plain_date_groups b = (y', m', d')" "real_civil y' (m' - 1) d'"
    using assms(1,2) by (auto simp: is_plain_date_iff split: prod.splits)
  obtain ys ms ds where sa: "a = ys @ ''-'' @ ms @ ''-'' @ ds" "length ys = 4" "length ms = 2" "length ds = 2"
    "\<forall>c \<in> set (ys @ ms @ ds). is_digit c" using a(1) unfolding plain_date_re by blast
  obtain ys' ms' ds' where sb: "b = ys' @ ''-'' @ ms' @ ''-'' @ ds'" "length ys' = 4" "length ms' = 2" "length ds' = 2"
    "\<forall>c \<in> set (ys' @ ms' @ ds'). is_digit c" using b(1) unfolding plain_date_re by blast
  have n: "y = num_of ys" "m = num_of ms" "d = num_of ds" "y' = num_of ys'" "m' = num_of ms'" "d' = num_of ds'"
    using a(2) b(2) sa(2-4) sb(2-4) by (auto simp: plain_date_groups_def sa(1) sb(1))
  have "ys < ys' \<or> ys = ys' \<and> (ms < ms' \<or> ms = ms' \<and> ds < ds')"
    using assms(3) sa(2-4) sb(2-4) by (auto simp: sa(1) sb(1) lex_append)
  then have "y < y' \<or> y = y' \<and> (m < m' \<or> m = m' \<and> d < d')"
    using digits_less_num [of ys ys'] digits_less_num [of ms ms'] digits_less_num [of ds ds'] sa(2-5) sb(2-5)
    unfolding n by auto
  then have "day_of_civil y (m - 1) d < day_of_civil y' (m' - 1) d'"
    using a(3) b(3) by (intro real_civil_less) auto
  then show ?thesis by (simp add: key_day_def a(2) b(2))
qed

lemma key_less_iff:
  assumes "is_plain_date a" "is_plain_date b"
  shows "a < b \<longleftrightarrow> key_day a < key_day b"
  using key_less_mono [OF assms] key_less_mono [OF assms(2,1)] plain_date_eq_iff [OF assms]
  by (metis not_less_iff_gr_or_eq)

lemma key_le_iff: "is_plain_date a \<Longrightarrow> is_plain_date b \<Longrightarrow> a \<le> b \<longleftrightarrow> key_day a \<le> key_day b"
  using key_less_iff [of b a] by (simp add: not_less [symmetric])

end
