(* ===== verification/Training.thy ===== *)
theory Training imports KeyOrder "HOL-Library.Option_ord" begin

text \<open>
  Training content and recurrence: \<open>packages/domain/src/training.ts\<close>. The URL parser of the platform,
  \<open>Date.parse\<close> and the zone database are parameters. A quiz index is a JavaScript number; a course's
  \<open>validityMonths\<close> is an integer column or absent.
\<close>

section \<open>Videos\<close>

record url =
  url_protocol :: string
  url_hostname :: string
  url_pathname :: string
  url_param :: "string \<Rightarrow> string option"

definition YOUTUBE_HOSTS :: "string list" where
  "YOUTUBE_HOSTS = [''www.youtube.com'', ''youtube.com'', ''m.youtube.com'', ''www.youtube-nocookie.com'', ''youtu.be'']"

definition is_video_char :: "char \<Rightarrow> bool" where
  "is_video_char c = (char_in CHR ''A'' CHR ''Z'' c \<or> char_in CHR ''a'' CHR ''z'' c \<or> is_digit c \<or> c = CHR ''_'' \<or> c = CHR ''-'')"

definition VIDEO_ID_RE :: rx where
  "VIDEO_ID_RE = rx_rep 11 (Cls is_video_char)"

definition list_at :: "'a list \<Rightarrow> nat \<Rightarrow> 'a option" where
  "list_at xs i = (if i < length xs then Some (xs ! i) else None)"

definition video_candidate :: "url \<Rightarrow> string option" where
  "video_candidate u =
     (if url_hostname u = ''youtu.be'' then list_at (split_on CHR ''/'' (drop 1 (url_pathname u))) 0
      else if url_pathname u = ''/watch'' then url_param u ''v''
      else if starts_with ''/embed/'' (url_pathname u) \<or> starts_with ''/shorts/'' (url_pathname u) \<or>
          starts_with ''/live/'' (url_pathname u) then list_at (split_on CHR ''/'' (url_pathname u)) 2
      else None)"

definition youtubeVideoId :: "(string \<Rightarrow> url option) \<Rightarrow> js \<Rightarrow> string option" where
  "youtubeVideoId parse_url rawUrl =
     (case rawUrl of
        JStr raw \<Rightarrow>
          if trim raw = [] then None
          else (case parse_url (trim raw) of
              None \<Rightarrow> None
            | Some u \<Rightarrow>
              if url_protocol u \<noteq> ''https:'' then None
              else if url_hostname u \<notin> set YOUTUBE_HOSTS then None
              else (case video_candidate u of
                  None \<Rightarrow> None
                | Some c \<Rightarrow> if rx_match VIDEO_ID_RE c then Some c else None))
      | _ \<Rightarrow> None)"

definition youtubeEmbedUrl :: "string \<Rightarrow> string" where
  "youtubeEmbedUrl videoId = ''https://www.youtube-nocookie.com/embed/'' @ videoId"

section \<open>Quizzes\<close>

record question =
  qq_question :: string
  qq_options :: "string list"
  qq_correctIndex :: int

definition QUIZ_MAX_QUESTIONS :: nat where "QUIZ_MAX_QUESTIONS = 20"
definition QUIZ_MAX_OPTIONS :: nat where "QUIZ_MAX_OPTIONS = 8"
definition QUIZ_MAX_TEXT :: nat where "QUIZ_MAX_TEXT = 500"

text \<open>The messages of \<open>validateQuiz\<close>, with the index each names.\<close>

datatype quiz_error = QuizNotArray | QuizTooMany | QuizNotObject nat | QuizQuestion nat | QuizOptions nat | QuizIndex nat

definition is_text :: "js \<Rightarrow> bool" where
  "is_text v = (case v of JStr s \<Rightarrow> trim s \<noteq> [] | _ \<Rightarrow> False)"

definition short_text :: "js \<Rightarrow> bool" where
  "short_text v = (case v of JStr s \<Rightarrow> trim s \<noteq> [] \<and> length s \<le> QUIZ_MAX_TEXT | _ \<Rightarrow> False)"

fun str_of_js :: "js \<Rightarrow> string" where
  "str_of_js (JStr s) = s"
| "str_of_js _ = []"

definition validateQuestion :: "nat \<Rightarrow> js \<Rightarrow> quiz_error + question" where
  "validateQuestion i q =
     (case q of
        JObj fs \<Rightarrow>
          if \<not> short_text (jget fs ''question'') then Inl (QuizQuestion i)
          else (case jget fs ''options'' of
              JArr options \<Rightarrow>
                if length options < 2 \<or> length options > QUIZ_MAX_OPTIONS \<or> \<not> list_all short_text options then Inl (QuizOptions i)
                else (case jget fs ''correctIndex'' of
                    JInt idx \<Rightarrow>
                      if idx < 0 \<or> idx \<ge> int (length options) then Inl (QuizIndex i)
                      else Inr \<lparr>qq_question = trim (str_of_js (jget fs ''question'')),
                        qq_options = map (trim \<circ> str_of_js) options, qq_correctIndex = idx\<rparr>
                  | _ \<Rightarrow> Inl (QuizIndex i))
            | _ \<Rightarrow> Inl (QuizOptions i))
      | _ \<Rightarrow> Inl (QuizNotObject i))"

fun validate_from :: "nat \<Rightarrow> js list \<Rightarrow> quiz_error + question list" where
  "validate_from i [] = Inr []"
| "validate_from i (q # qs) =
     (case validateQuestion i q of
        Inl e \<Rightarrow> Inl e
      | Inr x \<Rightarrow> (case validate_from (Suc i) qs of Inl e \<Rightarrow> Inl e | Inr xs \<Rightarrow> Inr (x # xs)))"

definition validateQuiz :: "js \<Rightarrow> quiz_error + question list" where
  "validateQuiz raw =
     (if nullish raw then Inr []
      else case raw of
        JArr qs \<Rightarrow> if length qs > QUIZ_MAX_QUESTIONS then Inl QuizTooMany else validate_from 0 qs
      | _ \<Rightarrow> Inl QuizNotArray)"

definition parseQuestion :: "js \<Rightarrow> question option" where
  "parseQuestion item =
     (case item of
        JObj q \<Rightarrow>
          if \<not> is_text (jget q ''question'') then None
          else (case jget q ''options'' of
              JArr os \<Rightarrow>
                if length os < 2 then None
                else let options = filter is_text os in
                  if length options \<noteq> length os then None
                  else (case jget q ''correctIndex'' of
                      JInt idx \<Rightarrow> if idx < 0 \<or> idx \<ge> int (length options) then None
                        else Some \<lparr>qq_question = str_of_js (jget q ''question''), qq_options = map str_of_js options,
                          qq_correctIndex = idx\<rparr>
                    | _ \<Rightarrow> None)
            | _ \<Rightarrow> None)
      | _ \<Rightarrow> None)"

definition parseQuiz :: "js \<Rightarrow> question list" where
  "parseQuiz raw = (case raw of JArr items \<Rightarrow> List.map_filter parseQuestion items | _ \<Rightarrow> [])"

definition quizAnswersPass :: "question list \<Rightarrow> js \<Rightarrow> bool" where
  "quizAnswersPass quiz answers =
     (if quiz = [] then True
      else case answers of
        JArr xs \<Rightarrow> length xs = length quiz \<and> list_all2 (\<lambda>x q. x = JInt (qq_correctIndex q)) xs quiz
      | _ \<Rightarrow> False)"

fun selections_from :: "int set \<Rightarrow> js list \<Rightarrow> bool" where
  "selections_from questions [] = True"
| "selections_from questions (JObj fs # rest) =
     (length fs = 2 \<and>
      (case (jget fs ''questionIndex'', jget fs ''optionIndex'') of
         (JInt qi, JInt oi) \<Rightarrow>
           0 \<le> qi \<and> qi < int QUIZ_MAX_QUESTIONS \<and> qi \<notin> questions \<and> 0 \<le> oi \<and> oi < int QUIZ_MAX_OPTIONS \<and>
           selections_from (insert qi questions) rest
       | _ \<Rightarrow> False))"
| "selections_from questions (_ # rest) = False"

definition isQuizSelectionList :: "js \<Rightarrow> bool" where
  "isQuizSelectionList v =
     (case v of JArr xs \<Rightarrow> length xs \<le> QUIZ_MAX_QUESTIONS \<and> selections_from {} xs | _ \<Rightarrow> False)"

section \<open>Recurrence\<close>

definition RENEWAL_WINDOW_DAYS :: int where "RENEWAL_WINDOW_DAYS = 30"

record clock =
  ck_parse :: "string \<Rightarrow> int option"
  ck_format :: zone_format
  ck_zone :: string

definition instant_ms :: "clock \<Rightarrow> string \<Rightarrow> int option" where
  "instant_ms ck s = instantEpochMs (ck_parse ck) (IText s)"

definition no_validity :: "int option \<Rightarrow> bool" where
  "no_validity m = (case m of None \<Rightarrow> True | Some n \<Rightarrow> n = 0)"

definition receiptDueKey :: "clock \<Rightarrow> string \<Rightarrow> int option \<Rightarrow> date_error + string option" where
  "receiptDueKey ck completedAt validityMonths =
     (if no_validity validityMonths then Inr None
      else case zonedDateKey (ck_parse ck) (ck_format ck) (IText completedAt) (ck_zone ck) of
        Inl e \<Rightarrow> Inl e
      | Inr day \<Rightarrow> (case addMonthsToKey day (JInt (the validityMonths)) of Inl e \<Rightarrow> Inl e | Inr k \<Rightarrow> Inr (Some k)))"

record receipt_state =
  rs_counts :: bool
  rs_mayComplete :: bool
  rs_dueKey :: "string option"

text \<open>\<open>daysBetweenKeys(a, b) <= RENEWAL_WINDOW_DAYS\<close>; a NaN is not.\<close>

definition within_window :: "string \<Rightarrow> string \<Rightarrow> date_error + bool" where
  "within_window a b = map_sum id (\<lambda>d. case d of None \<Rightarrow> False | Some n \<Rightarrow> n \<le> RENEWAL_WINDOW_DAYS) (daysBetweenKeys a b)"

definition lessonReceiptState ::
  "clock \<Rightarrow> string option \<Rightarrow> bool \<Rightarrow> int option \<Rightarrow> string \<Rightarrow> date_error + receipt_state" where
  "lessonReceiptState ck completedAt hasReceipt validityMonths todayKey =
     (if \<not> hasReceipt then Inr \<lparr>rs_counts = False, rs_mayComplete = True, rs_dueKey = None\<rparr>
      else if no_validity validityMonths then Inr \<lparr>rs_counts = True, rs_mayComplete = False, rs_dueKey = None\<rparr>
      else case completedAt of
        None \<Rightarrow> Inr \<lparr>rs_counts = False, rs_mayComplete = True, rs_dueKey = None\<rparr>
      | Some atv \<Rightarrow>
        if atv = [] \<or> instant_ms ck atv = None then Inr \<lparr>rs_counts = False, rs_mayComplete = True, rs_dueKey = None\<rparr>
        else (case receiptDueKey ck atv validityMonths of
            Inl e \<Rightarrow> Inl e
          | Inr due \<Rightarrow> let dueKey = the due in
              (case within_window todayKey dueKey of
                 Inl e \<Rightarrow> Inl e
               | Inr soon \<Rightarrow> Inr \<lparr>rs_counts = (todayKey < dueKey), rs_mayComplete = soon, rs_dueKey = Some dueKey\<rparr>)))"

datatype course_status = Done | DueSoon | Overdue | Open

record course_validity =
  cv_total :: nat
  cv_completed :: nat
  cv_status :: course_status
  cv_dueKey :: "string option"
  cv_completedAt :: "string option"

type_synonym receipts = "(string, string option) jmap"

record validity_scan =
  vs_completed :: nat
  vs_allHaveReceipts :: bool
  vs_dueKey :: "string option"
  vs_completedAt :: "string option"

definition ms_or_0 :: "clock \<Rightarrow> string \<Rightarrow> int" where
  "ms_or_0 ck s = (case instant_ms ck s of None \<Rightarrow> 0 | Some ms \<Rightarrow> ms)"

definition earlier_key :: "string option \<Rightarrow> string option \<Rightarrow> string option" where
  "earlier_key new kept =
     (case new of None \<Rightarrow> kept
      | Some k \<Rightarrow> if k \<noteq> [] \<and> (case kept of None \<Rightarrow> True | Some d \<Rightarrow> k < d) then Some k else kept)"

definition later_instant :: "clock \<Rightarrow> string option \<Rightarrow> string option \<Rightarrow> string option" where
  "later_instant ck new kept =
     (case new of None \<Rightarrow> kept
      | Some a \<Rightarrow> if a \<noteq> [] \<and> (case kept of None \<Rightarrow> True | Some b \<Rightarrow> ms_or_0 ck a > ms_or_0 ck b) then Some a else kept)"

fun scan_lessons ::
  "clock \<Rightarrow> receipts \<Rightarrow> int option \<Rightarrow> string \<Rightarrow> string list \<Rightarrow> validity_scan \<Rightarrow> date_error + validity_scan" where
  "scan_lessons ck newest validityMonths todayKey [] acc = Inr acc"
| "scan_lessons ck newest validityMonths todayKey (i # ids) acc =
     (let has = map_of newest i \<noteq> None;
          atv = (case map_of newest i of None \<Rightarrow> None | Some v \<Rightarrow> v) in
      case lessonReceiptState ck atv has validityMonths todayKey of
        Inl e \<Rightarrow> Inl e
      | Inr state \<Rightarrow> scan_lessons ck newest validityMonths todayKey ids
          \<lparr>vs_completed = vs_completed acc + (if rs_counts state then 1 else 0),
           vs_allHaveReceipts = (vs_allHaveReceipts acc \<and> has),
           vs_dueKey = earlier_key (rs_dueKey state) (vs_dueKey acc),
           vs_completedAt = later_instant ck atv (vs_completedAt acc)\<rparr>)"

definition courseValidity ::
  "clock \<Rightarrow> string list \<Rightarrow> receipts \<Rightarrow> int option \<Rightarrow> string \<Rightarrow> date_error + course_validity" where
  "courseValidity ck lessonIds newest validityMonths todayKey =
     (case scan_lessons ck newest validityMonths todayKey lessonIds
         \<lparr>vs_completed = 0, vs_allHaveReceipts = (0 < length lessonIds), vs_dueKey = None, vs_completedAt = None\<rparr> of
        Inl e \<Rightarrow> Inl e
      | Inr acc \<Rightarrow>
        let total = length lessonIds in
        if 0 < total \<and> vs_completed acc = total
        then (case (case vs_dueKey acc of None \<Rightarrow> Inr False | Some d \<Rightarrow> within_window todayKey d) of
                Inl e \<Rightarrow> Inl e
              | Inr soon \<Rightarrow> Inr \<lparr>cv_total = total, cv_completed = vs_completed acc,
                  cv_status = (if soon then DueSoon else Done), cv_dueKey = vs_dueKey acc,
                  cv_completedAt = vs_completedAt acc\<rparr>)
        else if vs_allHaveReceipts acc \<and> \<not> no_validity validityMonths
        then Inr \<lparr>cv_total = total, cv_completed = vs_completed acc, cv_status = Overdue, cv_dueKey = vs_dueKey acc,
               cv_completedAt = None\<rparr>
        else Inr \<lparr>cv_total = total, cv_completed = vs_completed acc, cv_status = Open, cv_dueKey = None,
               cv_completedAt = None\<rparr>)"

record receipt_row =
  rr_target :: js
  rr_completedAt :: "string option"

definition newest_step :: "clock \<Rightarrow> receipt_row \<Rightarrow> receipts \<Rightarrow> receipts" where
  "newest_step ck row newest =
     (case rr_target row of
        JStr i \<Rightarrow>
          if i = [] then newest
          else (case map_of newest i of
              None \<Rightarrow> AList.update i (rr_completedAt row) newest
            | Some kept \<Rightarrow>
              (case rr_completedAt row of
                 None \<Rightarrow> newest
               | Some atv \<Rightarrow>
                 if (case kept of None \<Rightarrow> True | Some k \<Rightarrow> ms_or_0 ck atv > ms_or_0 ck k)
                 then AList.update i (Some atv) newest else newest))
      | _ \<Rightarrow> newest)"

definition newestReceipts :: "clock \<Rightarrow> receipt_row list \<Rightarrow> receipts" where
  "newestReceipts ck rows = fold (newest_step ck) rows []"

section \<open>Facts about quizzes\<close>

definition question_js :: "question \<Rightarrow> js" where
  "question_js q = JObj [(''question'', JStr (qq_question q)), (''options'', JArr (map JStr (qq_options q))),
     (''correctIndex'', JInt (qq_correctIndex q))]"

definition quiz_js :: "question list \<Rightarrow> js" where
  "quiz_js qs = JArr (map question_js qs)"

definition clean_text :: "string \<Rightarrow> bool" where
  "clean_text t = (t \<noteq> [] \<and> trim t = t \<and> length t \<le> QUIZ_MAX_TEXT)"

definition question_ok :: "question \<Rightarrow> bool" where
  "question_ok q = (clean_text (qq_question q) \<and> list_all clean_text (qq_options q) \<and> 2 \<le> length (qq_options q) \<and>
     length (qq_options q) \<le> QUIZ_MAX_OPTIONS \<and> 0 \<le> qq_correctIndex q \<and> qq_correctIndex q < int (length (qq_options q)))"

lemma short_clean: "short_text v \<Longrightarrow> clean_text (trim (str_of_js v))"
  using length_trim by (cases v) (auto simp: short_text_def clean_text_def intro: order_trans)

lemma clean_short: "clean_text t \<Longrightarrow> short_text (JStr t) \<and> is_text (JStr t)"
  by (simp add: short_text_def clean_text_def is_text_def)

lemma validateQuestion_ok: "validateQuestion i v = Inr q \<Longrightarrow> question_ok q"
  by (auto simp: validateQuestion_def question_ok_def list_all_iff not_le intro!: short_clean
      split: js.splits if_splits)

lemma question_again:
  assumes "question_ok q"
  shows "validateQuestion i (question_js q) = Inr q" "parseQuestion (question_js q) = Some q"
proof -
  have o: "list_all short_text (map JStr (qq_options q))" "filter is_text (map JStr (qq_options q)) = map JStr (qq_options q)"
    "map (\<lambda>x. trim x) (qq_options q) = qq_options q"
    using assms clean_short by (auto simp: question_ok_def list_all_iff filter_id_conv clean_text_def intro!: map_idI)
  show "validateQuestion i (question_js q) = Inr q" "parseQuestion (question_js q) = Some q"
    using assms o clean_short [of "qq_question q"]
    by (auto simp: validateQuestion_def parseQuestion_def question_js_def question_ok_def clean_text_def comp_def)
qed

lemma validate_from_ok:
  "validate_from i vs = Inr qs \<Longrightarrow> list_all question_ok qs \<and> length qs = length vs"
  by (induction i vs arbitrary: qs rule: validate_from.induct) (auto split: sum.splits dest: validateQuestion_ok)

lemma validate_again: "list_all question_ok qs \<Longrightarrow> validate_from i (map question_js qs) = Inr qs"
  by (induction qs arbitrary: i) (simp_all add: question_again)

lemma parse_again: "list_all question_ok qs \<Longrightarrow> List.map_filter parseQuestion (map question_js qs) = qs"
  by (induction qs) (simp_all add: question_again List.map_filter_simps)

text \<open>A quiz that is accepted is stored so that accepting or displaying it again gives the same quiz,
  and of its answer lists exactly the author's one passes.\<close>

theorem quiz_roundtrip:
  assumes "validateQuiz raw = Inr quiz"
  shows "validateQuiz (quiz_js quiz) = Inr quiz \<and> parseQuiz (quiz_js quiz) = quiz \<and>
    (quizAnswersPass quiz answers \<longleftrightarrow> quiz = [] \<or> answers = JArr (map (\<lambda>q. JInt (qq_correctIndex q)) quiz))"
proof -
  have ok: "list_all question_ok quiz \<and> length quiz \<le> QUIZ_MAX_QUESTIONS"
    using assms validate_from_ok by (fastforce simp: validateQuiz_def split: if_splits js.splits)
  have eq: "list_all2 (\<lambda>x q. x = JInt (qq_correctIndex q)) xs quiz \<longleftrightarrow> xs = map (\<lambda>q. JInt (qq_correctIndex q)) quiz" for xs
    by (induction quiz arbitrary: xs) (auto simp: list_all2_Cons2)
  have "quizAnswersPass quiz answers \<longleftrightarrow> quiz = [] \<or> answers = JArr (map (\<lambda>q. JInt (qq_correctIndex q)) quiz)"
  proof (cases answers)
    case (JArr xs)
    have "length xs = length quiz \<and> xs = map (\<lambda>q. JInt (qq_correctIndex q)) quiz \<longleftrightarrow> xs = map (\<lambda>q. JInt (qq_correctIndex q)) quiz"
      by (metis length_map)
    then show ?thesis unfolding quizAnswersPass_def JArr js.case eq js.inject by (simp only: if_bool_eq_disj) blast
  qed (simp_all add: quizAnswersPass_def)
  moreover have "validateQuiz (quiz_js quiz) = Inr quiz" "parseQuiz (quiz_js quiz) = quiz"
    using ok by (simp_all add: validateQuiz_def parseQuiz_def quiz_js_def validate_again parse_again)
  ultimately show ?thesis by blast
qed

text \<open>A lesson video is only ever embedded under an id of eleven letters, digits, dashes and
  underscores, however the platform parses the stored address.\<close>

theorem embed_is_safe:
  assumes "youtubeVideoId parse_url raw = Some i"
  shows "length i = 11 \<and> list_all is_video_char (drop 39 (youtubeEmbedUrl i)) \<and>
    take 39 (youtubeEmbedUrl i) = ''https://www.youtube-nocookie.com/embed/''"
proof -
  have "rx_match VIDEO_ID_RE i"
    using assms by (auto simp: youtubeVideoId_def split: js.splits if_splits option.splits)
  then have "length i = 11 \<and> (\<forall>c \<in> set i. is_video_char c)"
    unfolding rx_match_lang VIDEO_ID_RE_def rx_lang_rep_Cls .
  then show ?thesis by (simp add: youtubeEmbedUrl_def list_all_iff)
qed

section \<open>Facts about receipts\<close>

text \<open>How new a completion is: an absent instant is older than any other, an unreadable one counts as 1970.\<close>

definition newness :: "clock \<Rightarrow> string option \<Rightarrow> int option" where
  "newness ck v = map_option (ms_or_0 ck) v"

definition completions :: "string \<Rightarrow> receipt_row list \<Rightarrow> string option list" where
  "completions i rows = map rr_completedAt (filter (\<lambda>r. rr_target r = JStr i) rows)"

fun newest_of :: "clock \<Rightarrow> string option \<Rightarrow> string option list \<Rightarrow> string option" where
  "newest_of ck v [] = v"
| "newest_of ck v (w # ws) = newest_of ck (if newness ck v < newness ck w then w else v) ws"

lemma newest_of_spec:
  "newest_of ck v ws \<in> set (v # ws) \<and> (\<forall>w \<in> set (v # ws). newness ck w \<le> newness ck (newest_of ck v ws))"
proof (induction ws arbitrary: v)
  case (Cons w ws)
  show ?case using Cons [of "if newness ck v < newness ck w then w else v"] by (auto split: if_splits)
qed simp

lemma newest_step_lookup:
  assumes "i \<noteq> []"
  shows "map_of (newest_step ck row m) i =
    (if rr_target row = JStr i
     then Some (case map_of m i of None \<Rightarrow> rr_completedAt row
       | Some v \<Rightarrow> newest_of ck v [rr_completedAt row]) else map_of m i)"
  using assms
  by (auto simp: newest_step_def newness_def jmap_simps less_option_def split: js.splits option.splits)

lemma newest_fold:
  assumes "i \<noteq> []"
  shows "map_of (fold (newest_step ck) rows m) i =
    (case map_of m i of Some v \<Rightarrow> Some (newest_of ck v (completions i rows))
     | None \<Rightarrow> (case completions i rows of [] \<Rightarrow> None | v # vs \<Rightarrow> Some (newest_of ck v vs)))"
proof (induction rows arbitrary: m)
  case (Cons r rows)
  show ?case
    unfolding fold_Cons comp_def Cons newest_step_lookup [OF assms]
    by (auto simp: completions_def split: option.splits)
qed (auto simp: completions_def split: option.splits)

text \<open>Newest receipts: in whatever order the rows come, the map has exactly the lessons with a receipt,
  each with a completion of its own that is at least as new as every other of that lesson.\<close>

theorem newest_receipts_spec:
  assumes "i \<noteq> []"
  shows "(case map_of (newestReceipts ck rows) i of
      None \<Rightarrow> completions i rows = []
    | Some v \<Rightarrow> v \<in> set (completions i rows) \<and> list_all (\<lambda>w. newness ck w \<le> newness ck v) (completions i rows))"
proof (cases "completions i rows")
  case (Cons v vs)
  then show ?thesis
    using newest_of_spec [of ck v vs] newest_fold [OF assms, of ck rows "[]"]
    by (simp add: newestReceipts_def list_all_iff)
qed (use newest_fold [OF assms, of ck rows "[]"] in \<open>simp add: newestReceipts_def\<close>)

section \<open>Facts about recurrence\<close>

lemma daysBetween_Inr: "daysBetweenKeys a b = Inr r \<Longrightarrow> is_plain_date a \<and> is_plain_date b"
  by (auto simp: daysBetweenKeys_def keyToUtcMs_def split: sum.splits if_splits)

lemma within_window_Inr:
  "within_window a b = Inr w \<Longrightarrow> is_plain_date a \<and> is_plain_date b \<and> (w \<longleftrightarrow> key_day b - key_day a \<le> 30)"
proof -
  assume w: "within_window a b = Inr w"
  then obtain r where r: "daysBetweenKeys a b = Inr r" by (cases "daysBetweenKeys a b") (auto simp: within_window_def)
  note p = daysBetween_Inr [OF r]
  then have "r = Some (key_day b - key_day a)" using r daysBetween_plain by simp
  then show ?thesis using w r p by (auto simp: within_window_def RENEWAL_WINDOW_DAYS_def)
qed

lemma lesson_state_cases:
  assumes "lessonReceiptState ck a has m today = Inr st"
  obtains (missing) "rs_dueKey st = None" "\<not> rs_counts st" "rs_mayComplete st"
  | (forever) "rs_dueKey st = None" "rs_counts st" "\<not> rs_mayComplete st" "has" "no_validity m"
  | (due) k where "rs_dueKey st = Some k" "is_plain_date today" "is_plain_date k" "has" "\<not> no_validity m"
      "rs_counts st \<longleftrightarrow> key_day today < key_day k" "rs_mayComplete st \<longleftrightarrow> key_day k - key_day today \<le> 30"
proof (cases "rs_dueKey st")
  case None
  then show thesis using assms missing forever
    by (auto simp: lessonReceiptState_def Let_def split: if_splits option.splits sum.splits)
next
  case (Some k)
  then have "within_window today k = Inr (rs_mayComplete st)" "rs_counts st \<longleftrightarrow> today < k" "has" "\<not> no_validity m"
    using assms by (auto simp: lessonReceiptState_def Let_def split: if_splits option.splits sum.splits)
  then show thesis using within_window_Inr key_less_iff due Some by blast
qed

text \<open>Recurrence of one lesson: a learner is never stuck, as a lesson that does not count may be
  completed; with a due day it counts exactly before that day and may be renewed from thirty days before.\<close>

theorem lesson_never_stuck:
  assumes "lessonReceiptState ck a has m today = Inr st"
  shows "(if rs_counts st then has else rs_mayComplete st) \<and>
    (case rs_dueKey st of None \<Rightarrow> rs_counts st \<noteq> rs_mayComplete st
     | Some k \<Rightarrow> (rs_counts st \<longleftrightarrow> key_day today < key_day k) \<and> (rs_mayComplete st \<longleftrightarrow> key_day k - key_day today \<le> 30))"
  using assms by (cases rule: lesson_state_cases) auto

definition lesson_state :: "clock \<Rightarrow> receipts \<Rightarrow> int option \<Rightarrow> string \<Rightarrow> string \<Rightarrow> date_error + receipt_state" where
  "lesson_state ck newest m today i =
     lessonReceiptState ck (case map_of newest i of None \<Rightarrow> None | Some v \<Rightarrow> v) (map_of newest i \<noteq> None) m today"

lemma scan_spec:
  "scan_lessons ck newest m today ids acc = Inr r \<Longrightarrow>
   \<exists>sts. list_all2 (\<lambda>i st. lesson_state ck newest m today i = Inr st) ids sts \<and>
     vs_completed r = vs_completed acc + length (filter rs_counts sts) \<and>
     (vs_allHaveReceipts r \<longleftrightarrow> vs_allHaveReceipts acc \<and> (\<forall>i \<in> set ids. map_of newest i \<noteq> None)) \<and>
     vs_dueKey r = fold earlier_key (map rs_dueKey sts) (vs_dueKey acc)"
proof (induction ids arbitrary: acc)
  case (Cons i ids)
  from Cons.prems obtain st where st: "lesson_state ck newest m today i = Inr st"
    by (auto simp: lesson_state_def Let_def split: sum.splits)
  then have "scan_lessons ck newest m today ids
    \<lparr>vs_completed = vs_completed acc + (if rs_counts st then 1 else 0),
     vs_allHaveReceipts = (vs_allHaveReceipts acc \<and> map_of newest i \<noteq> None),
     vs_dueKey = earlier_key (rs_dueKey st) (vs_dueKey acc),
     vs_completedAt = later_instant ck (case map_of newest i of None \<Rightarrow> None | Some v \<Rightarrow> v) (vs_completedAt acc)\<rparr> = Inr r"
    using Cons.prems by (simp add: lesson_state_def Let_def)
  from Cons.IH [OF this] obtain sts where
    "list_all2 (\<lambda>i st. lesson_state ck newest m today i = Inr st) ids sts"
    "vs_completed r = vs_completed acc + (if rs_counts st then 1 else 0) + length (filter rs_counts sts)"
    "vs_allHaveReceipts r \<longleftrightarrow> (vs_allHaveReceipts acc \<and> map_of newest i \<noteq> None) \<and> (\<forall>i \<in> set ids. map_of newest i \<noteq> None)"
    "vs_dueKey r = fold earlier_key (map rs_dueKey sts) (earlier_key (rs_dueKey st) (vs_dueKey acc))" by auto
  then show ?case using st by (intro exI [of _ "st # sts"]) auto
qed simp

text \<open>The earliest of the keys.\<close>

lemma earlier_fold:
  assumes "\<forall>k. Some k \<in> set (v # ks) \<longrightarrow> k \<noteq> []"
  shows "(fold earlier_key ks v = None \<longleftrightarrow> (\<forall>k \<in> set (v # ks). k = None)) \<and>
    (\<forall>d. fold earlier_key ks v = Some d \<longrightarrow> Some d \<in> set (v # ks) \<and> (\<forall>k. Some k \<in> set (v # ks) \<longrightarrow> d \<le> k))"
  using assms
proof (induction ks arbitrary: v)
  case (Cons k ks)
  have e: "earlier_key k v \<in> {k, v}" "earlier_key k v = None \<longleftrightarrow> k = None \<and> v = None"
    "\<forall>d x. earlier_key k v = Some d \<longrightarrow> Some x \<in> {k, v} \<longrightarrow> d \<le> x"
    using Cons.prems by (auto simp: earlier_key_def split: option.splits)
  have "\<forall>x. Some x \<in> set (earlier_key k v # ks) \<longrightarrow> x \<noteq> []" using Cons.prems e(1) by auto
  note IH = Cons.IH [OF this]
  show ?case
  proof (intro conjI allI impI)
    show "fold earlier_key (k # ks) v = None \<longleftrightarrow> (\<forall>x \<in> set (v # k # ks). x = None)"
      using IH e(2) by auto
    fix d assume d: "fold earlier_key (k # ks) v = Some d"
    then have d': "Some d \<in> set (earlier_key k v # ks)" "\<forall>x. Some x \<in> set (earlier_key k v # ks) \<longrightarrow> d \<le> x" using IH by auto
    then show "Some d \<in> set (v # k # ks)" using e(1) by auto
    show "d \<le> x" if "Some x \<in> set (v # k # ks)" for x
    proof (cases "Some x \<in> {k, v}")
      case True
      then obtain y where y: "earlier_key k v = Some y" using e(2) by (cases "earlier_key k v") auto
      then have "y \<le> x" "d \<le> y" using True e(3) d'(2) by auto
      then show ?thesis by simp
    next
      case False
      then show ?thesis using that d'(2) by auto
    qed
  qed
qed auto

lemma plain_not_empty: "is_plain_date k \<Longrightarrow> k \<noteq> []"
  by (auto simp: is_plain_date_iff plain_date_re)

lemma state_due_plain: "lesson_state ck newest m today i = Inr st \<Longrightarrow> rs_dueKey st = Some k \<Longrightarrow>
    is_plain_date today \<and> is_plain_date k \<and> (rs_mayComplete st \<longleftrightarrow> key_day k - key_day today \<le> 30)"
  unfolding lesson_state_def by (erule lesson_state_cases) auto

lemma state_mem:
  assumes "list_all2 (\<lambda>i st. lesson_state ck newest m today i = Inr st) ids sts" "st \<in> set sts"
  obtains i where "lesson_state ck newest m today i = Inr st"
  using assms by (auto simp: list_all2_conv_all_nth in_set_conv_nth)

text \<open>The earliest due day of the states.\<close>

lemma due_of_states:
  assumes sts: "list_all2 (\<lambda>i st. lesson_state ck newest m today i = Inr st) ids sts"
    and due: "due = fold earlier_key (map rs_dueKey sts) None"
  shows "due = None \<longleftrightarrow> (\<forall>st \<in> set sts. rs_dueKey st = None)"
    "due = Some k \<Longrightarrow> Some k \<in> rs_dueKey ` set sts \<and> (\<forall>st \<in> set sts. \<forall>x. rs_dueKey st = Some x \<longrightarrow> key_day k \<le> key_day x)"
proof -
  have plain: "st \<in> set sts \<Longrightarrow> rs_dueKey st = Some k \<Longrightarrow> is_plain_date k" for st k
    using state_mem [OF sts] state_due_plain by metis
  have ne: "\<forall>k. Some k \<in> set (None # map rs_dueKey sts) \<longrightarrow> k \<noteq> []"
  proof (intro allI impI)
    fix k assume "Some k \<in> set (None # map rs_dueKey sts)"
    then obtain st where "st \<in> set sts" "rs_dueKey st = Some k" by auto
    then show "k \<noteq> []" using plain plain_not_empty by blast
  qed
  note E = earlier_fold [OF ne, folded due]
  show "due = None \<longleftrightarrow> (\<forall>st \<in> set sts. rs_dueKey st = None)" using E by auto
  assume k: "due = Some k"
  have m: "Some k \<in> rs_dueKey ` set sts" and le: "\<forall>x. Some x \<in> rs_dueKey ` set sts \<longrightarrow> k \<le> x" using E k by auto
  obtain st0 where st0: "st0 \<in> set sts" "rs_dueKey st0 = Some k" using m by (metis imageE)
  have "key_day k \<le> key_day x" if "st \<in> set sts" "rs_dueKey st = Some x" for st x
    using le that plain [OF st0] plain [OF that] key_le_iff [of k x] by (metis image_eqI)
  then show "Some k \<in> rs_dueKey ` set sts \<and> (\<forall>st \<in> set sts. \<forall>x. rs_dueKey st = Some x \<longrightarrow> key_day k \<le> key_day x)" using m by blast
qed

text \<open>A lesson may be completed again exactly when the earliest due day is in the window.\<close>

lemma soon_of_states:
  assumes sts: "list_all2 (\<lambda>i st. lesson_state ck newest m today i = Inr st) ids sts"
    and due: "due = fold earlier_key (map rs_dueKey sts) None" and counts: "list_all rs_counts sts"
  shows "list_ex rs_mayComplete sts \<longleftrightarrow> (case due of None \<Rightarrow> False | Some k \<Rightarrow> key_day k - key_day today \<le> 30)"
proof -
  note E1 = due_of_states(1) [OF sts due] and E2 = due_of_states(2) [OF sts due]
  have counted: "rs_mayComplete st \<longleftrightarrow> (\<exists>k. rs_dueKey st = Some k \<and> key_day k - key_day today \<le> 30)" if st: "st \<in> set sts" for st
  proof -
    obtain i where "lesson_state ck newest m today i = Inr st" using state_mem [OF sts st] by blast
    moreover have "rs_counts st" using counts st by (simp add: list_all_iff)
    ultimately show ?thesis unfolding lesson_state_def by (cases rule: lesson_state_cases) auto
  qed
  show ?thesis
  proof (cases due)
    case None
    then show ?thesis using E1 counted by (auto simp: list_ex_iff)
  next
    case (Some k)
    obtain st0 where st0: "st0 \<in> set sts" "rs_dueKey st0 = Some k" using E2 [OF Some] by (metis imageE)
    have le: "key_day k \<le> key_day x" if "st \<in> set sts" "rs_dueKey st = Some x" for st x using E2 [OF Some] that by blast
    have "list_ex rs_mayComplete sts \<longleftrightarrow> key_day k - key_day today \<le> 30"
      unfolding list_ex_iff using counted st0 le by (metis diff_right_mono order_trans)
    then show ?thesis using Some by simp
  qed
qed

text \<open>C14: The state of a course: it is done when it has lessons and every one counts today, and then due
  soon exactly when some lesson may be renewed; it is overdue when every lesson has a receipt and not
  all count; otherwise it is open. The due day shown is the earliest of its lessons.\<close>

theorem course_status_spec:
  assumes "courseValidity ck ids newest m today = Inr cv"
  shows "\<exists>sts. list_all2 (\<lambda>i st. lesson_state ck newest m today i = Inr st) ids sts \<and>
    cv_completed cv = length (filter rs_counts sts) \<and>
    cv_status cv =
      (if ids \<noteq> [] \<and> list_all rs_counts sts then (if list_ex rs_mayComplete sts then DueSoon else Done)
       else if ids \<noteq> [] \<and> list_all (\<lambda>i. map_of newest i \<noteq> None) ids \<and> \<not> no_validity m then Overdue else Open) \<and>
    (case cv_dueKey cv of None \<Rightarrow> cv_status cv = Open \<or> list_all (\<lambda>st. rs_dueKey st = None) sts
     | Some d \<Rightarrow> Some d \<in> rs_dueKey ` set sts \<and> list_all (\<lambda>st. pred_option (\<lambda>k. key_day d \<le> key_day k) (rs_dueKey st)) sts)"
proof -
  obtain r where r: "scan_lessons ck newest m today ids
      \<lparr>vs_completed = 0, vs_allHaveReceipts = (0 < length ids), vs_dueKey = None, vs_completedAt = None\<rparr> = Inr r"
    using assms by (auto simp: courseValidity_def split: sum.splits)
  from scan_spec [OF r] obtain sts where
    sts: "list_all2 (\<lambda>i st. lesson_state ck newest m today i = Inr st) ids sts" and
    c: "vs_completed r = length (filter rs_counts sts)" and
    h: "vs_allHaveReceipts r \<longleftrightarrow> ids \<noteq> [] \<and> list_all (\<lambda>i. map_of newest i \<noteq> None) ids" and
    d: "vs_dueKey r = fold earlier_key (map rs_dueKey sts) None" by (auto simp: list_all_iff)
  note E1 = due_of_states(1) [OF sts d] and E2 = due_of_states(2) [OF sts d]
  have len: "length sts = length ids" using sts by (simp add: list_all2_lengthD)
  have all: "length (filter rs_counts sts) = length ids \<longleftrightarrow> list_all rs_counts sts"
    unfolding len [symmetric] list_all_iff by (metis filter_True length_filter_less less_irrefl)
  have w: "within_window today k = Inr b \<Longrightarrow> b \<longleftrightarrow> key_day k - key_day today \<le> 30" for k b
    using within_window_Inr by blast
  have "cv_completed cv = length (filter rs_counts sts)"
    using assms r c by (auto simp: courseValidity_def Let_def split: if_splits sum.splits)
  moreover have "cv_status cv =
      (if ids \<noteq> [] \<and> list_all rs_counts sts then (if list_ex rs_mayComplete sts then DueSoon else Done)
       else if ids \<noteq> [] \<and> list_all (\<lambda>i. map_of newest i \<noteq> None) ids \<and> \<not> no_validity m then Overdue else Open)"
  proof (cases "ids \<noteq> [] \<and> list_all rs_counts sts")
    case True
    then have "0 < length ids \<and> vs_completed r = length ids" using all c by simp
    then obtain b where b: "(case vs_dueKey r of None \<Rightarrow> Inr False | Some d \<Rightarrow> within_window today d) = Inr b"
        "cv_status cv = (if b then DueSoon else Done)"
      using assms r by (auto simp: courseValidity_def Let_def split: sum.splits)
    then have "b \<longleftrightarrow> list_ex rs_mayComplete sts" using soon_of_states [OF sts d] True w by (auto split: option.splits)
    then show ?thesis using True b(2) by simp
  next
    case False
    then have "\<not> (0 < length ids \<and> vs_completed r = length ids)" using all c by auto
    then show ?thesis using assms r h False by (auto simp: courseValidity_def Let_def)
  qed
  moreover have "cv_dueKey cv = None \<and> cv_status cv = Open \<or> cv_dueKey cv = vs_dueKey r"
    using assms r by (auto simp: courseValidity_def Let_def split: if_splits sum.splits)
  then have "case cv_dueKey cv of None \<Rightarrow> cv_status cv = Open \<or> list_all (\<lambda>st. rs_dueKey st = None) sts
     | Some d \<Rightarrow> Some d \<in> rs_dueKey ` set sts \<and> list_all (\<lambda>st. pred_option (\<lambda>k. key_day d \<le> key_day k) (rs_dueKey st)) sts"
  proof (cases "cv_dueKey cv")
    case (Some k)
    then have "vs_dueKey r = Some k" using \<open>cv_dueKey cv = None \<and> cv_status cv = Open \<or> cv_dueKey cv = vs_dueKey r\<close> by simp
    from E2 [OF this] show ?thesis unfolding Some by (auto simp: list_all_iff option.pred_set)
  qed (use E1 in \<open>auto simp: list_all_iff\<close>)
  ultimately show ?thesis using sts by blast
qed

section \<open>Examples\<close>

theorem quiz_roundtrip_witness:
  "validateQuiz (quiz_js [\<lparr>qq_question = ''q'', qq_options = [''a'', ''b''], qq_correctIndex = 1\<rparr>])
     = Inr [\<lparr>qq_question = ''q'', qq_options = [''a'', ''b''], qq_correctIndex = 1\<rparr>] \<and>
   parseQuiz (quiz_js [\<lparr>qq_question = ''q'', qq_options = [''a'', ''b''], qq_correctIndex = 1\<rparr>])
     = [\<lparr>qq_question = ''q'', qq_options = [''a'', ''b''], qq_correctIndex = 1\<rparr>] \<and>
   quizAnswersPass [\<lparr>qq_question = ''q'', qq_options = [''a'', ''b''], qq_correctIndex = 1\<rparr>] (JArr [JInt 1])"
proof -
  have "validateQuiz (JArr [JObj [(''question'', JStr '' q''), (''options'', JArr [JStr ''a'', JStr ''b '']), (''correctIndex'', JInt 1)]])
    = Inr [\<lparr>qq_question = ''q'', qq_options = [''a'', ''b''], qq_correctIndex = 1\<rparr>]" by code_simp
  from quiz_roundtrip [OF this, of "JArr [JInt 1]"] show ?thesis by simp
qed

definition demo_url :: url where
  "demo_url = \<lparr>url_protocol = ''https:'', url_hostname = ''youtu.be'', url_pathname = ''/dQw4w9WgXcQ'', url_param = (\<lambda>_. None)\<rparr>"

theorem embed_is_safe_witness:
  "length ''dQw4w9WgXcQ'' = 11 \<and> list_all is_video_char (drop 39 (youtubeEmbedUrl ''dQw4w9WgXcQ'')) \<and>
    take 39 (youtubeEmbedUrl ''dQw4w9WgXcQ'') = ''https://www.youtube-nocookie.com/embed/''"
proof (rule embed_is_safe)
  show "youtubeVideoId (\<lambda>_. Some demo_url) (JStr ''https://youtu.be/dQw4w9WgXcQ'') = Some ''dQw4w9WgXcQ''" by code_simp
qed

text \<open>A clock in UTC that reads one instant, 2026-01-31T12:00:00Z.\<close>

definition demo_clock :: clock where
  "demo_clock = \<lparr>ck_parse = (\<lambda>s. if s = ''2026-01-31T12:00:00Z'' then Some 1769860800000 else None),
     ck_format = civil_format (\<lambda>_. 0), ck_zone = ''UTC''\<rparr>"

definition demo_receipts :: receipts where
  "demo_receipts = newestReceipts demo_clock
     [\<lparr>rr_target = JStr ''l'', rr_completedAt = None\<rparr>, \<lparr>rr_target = JStr ''l'', rr_completedAt = Some ''2026-01-31T12:00:00Z''\<rparr>]"

theorem newest_receipts_spec_witness:
  "case map_of demo_receipts ''l'' of None \<Rightarrow> False | Some v \<Rightarrow> v \<in> {None, Some ''2026-01-31T12:00:00Z''}"
  using newest_receipts_spec [where i = "''l''" and ck = demo_clock and rows =
    "[\<lparr>rr_target = JStr ''l'', rr_completedAt = None\<rparr>, \<lparr>rr_target = JStr ''l'', rr_completedAt = Some ''2026-01-31T12:00:00Z''\<rparr>]"]
  by (auto simp: demo_receipts_def [symmetric] completions_def split: option.splits)

lemma demo_state:
  "lessonReceiptState demo_clock (Some ''2026-01-31T12:00:00Z'') True (Some 1) ''2026-02-01''
    = Inr \<lparr>rs_counts = True, rs_mayComplete = True, rs_dueKey = Some ''2026-02-28''\<rparr>"
  "courseValidity demo_clock [''l''] demo_receipts (Some 1) ''2026-02-01''
    = Inr \<lparr>cv_total = 1, cv_completed = 1, cv_status = DueSoon, cv_dueKey = Some ''2026-02-28'',
        cv_completedAt = Some ''2026-01-31T12:00:00Z''\<rparr>"
  by code_simp+

theorem lesson_never_stuck_witness: "27 \<le> (30 :: int) \<and> key_day ''2026-02-01'' < key_day ''2026-02-28''"
  using lesson_never_stuck [OF demo_state(1)] by simp

theorem course_status_spec_witness:
  "\<exists>sts. list_all2 (\<lambda>i st. lesson_state demo_clock demo_receipts (Some 1) ''2026-02-01'' i = Inr st) [''l''] sts \<and>
    1 = length (filter rs_counts sts) \<and> list_all rs_counts sts \<and> list_ex rs_mayComplete sts"
proof -
  from course_status_spec [OF demo_state(2)] obtain sts where
    "list_all2 (\<lambda>i st. lesson_state demo_clock demo_receipts (Some 1) ''2026-02-01'' i = Inr st) [''l''] sts \<and>
     1 = length (filter rs_counts sts) \<and>
     DueSoon = (if [''l''] \<noteq> [] \<and> list_all rs_counts sts then (if list_ex rs_mayComplete sts then DueSoon else Done)
       else if [''l''] \<noteq> [] \<and> list_all (\<lambda>i. map_of demo_receipts i \<noteq> None) [''l''] \<and> \<not> no_validity (Some 1) then Overdue else Open)"
    unfolding course_validity.simps by blast
  then show ?thesis by (intro exI [of _ sts]) (simp split: if_splits)
qed

end
