(* ===== verification/DocumentLock.thy ===== *)
theory DocumentLock imports Prelude begin

text \<open>
  Document revisions and their lock: \<open>apps/cms/src/utils/document-lock.ts\<close> and the lists of
  \<open>authoring-uids.ts\<close>. \<open>cms\<close> is the part of the database in question: the table \<open>content_versions\<close>
  (its unique index makes it a map) and the rows of every document. A transaction is a function on it
  that answers an error with the database unchanged; the row lock makes transactions on one document
  one after another. The action a middleware wraps is an argument.
\<close>

section \<open>Types under the lock\<close>

definition ANNOUNCEMENT_UID :: string where "ANNOUNCEMENT_UID = ''api::announcement.announcement''"
definition EVENT_UID :: string where "EVENT_UID = ''api::event.event''"
definition DOCUMENT_UID :: string where "DOCUMENT_UID = ''api::document.document''"
definition QUICK_LINK_UID :: string where "QUICK_LINK_UID = ''api::quick-link.quick-link''"
definition WIKI_PAGE_UID :: string where "WIKI_PAGE_UID = ''api::wiki-page.wiki-page''"
definition WIKI_SPACE_UID :: string where "WIKI_SPACE_UID = ''api::wiki-space.wiki-space''"
definition COURSE_UID :: string where "COURSE_UID = ''api::course.course''"
definition LESSON_UID :: string where "LESSON_UID = ''api::lesson.lesson''"
definition DEPARTMENT_UID :: string where "DEPARTMENT_UID = ''api::department.department''"
definition TEAM_UID :: string where "TEAM_UID = ''api::team.team''"
definition DUTY_PLAN_UID :: string where "DUTY_PLAN_UID = ''api::duty-plan.duty-plan''"
definition KPI_UID :: string where "KPI_UID = ''api::kpi.kpi''"
definition POLL_UID :: string where "POLL_UID = ''api::poll.poll''"

lemmas uid_defs = ANNOUNCEMENT_UID_def EVENT_UID_def DOCUMENT_UID_def QUICK_LINK_UID_def WIKI_PAGE_UID_def
  WIKI_SPACE_UID_def COURSE_UID_def LESSON_UID_def DEPARTMENT_UID_def TEAM_UID_def DUTY_PLAN_UID_def KPI_UID_def POLL_UID_def

definition AUTHORED_UIDS :: "string list" where
  "AUTHORED_UIDS = [ANNOUNCEMENT_UID, EVENT_UID, QUICK_LINK_UID, DOCUMENT_UID, POLL_UID, WIKI_SPACE_UID, WIKI_PAGE_UID,
     COURSE_UID, LESSON_UID, DUTY_PLAN_UID, KPI_UID]"

definition DEPARTMENT_AUTHORED_UIDS :: "string list" where
  "DEPARTMENT_AUTHORED_UIDS = [ANNOUNCEMENT_UID, EVENT_UID, DOCUMENT_UID, DUTY_PLAN_UID, KPI_UID]"

definition SCHEDULED_UIDS :: "string list" where
  "SCHEDULED_UIDS = [ANNOUNCEMENT_UID, EVENT_UID, DOCUMENT_UID, QUICK_LINK_UID, WIKI_PAGE_UID, COURSE_UID, LESSON_UID]"

definition UNPUBLISH_SCHEDULED_UIDS :: "string list" where
  "UNPUBLISH_SCHEDULED_UIDS = [DOCUMENT_UID, QUICK_LINK_UID]"

definition GUARDED_UIDS :: "string list" where
  "GUARDED_UIDS = SCHEDULED_UIDS @ [POLL_UID, WIKI_SPACE_UID, DEPARTMENT_UID, TEAM_UID, DUTY_PLAN_UID, KPI_UID]"

definition isGuardedUid :: "js \<Rightarrow> bool" where
  "isGuardedUid uid = (case uid of JStr s \<Rightarrow> s \<in> set GUARDED_UIDS | _ \<Rightarrow> False)"

section \<open>Tokens\<close>

datatype lock_error = RevisionRequired | RevisionStale int | ClassLost int | Wiring | Inner string

definition IF_MATCH_RE :: rx where
  "IF_MATCH_RE = rx_seq [St (Cls is_ws), rx_opt (rx_char CHR 0x22), rx_between 1 9 rx_digit, rx_opt (rx_char CHR 0x22), St (Cls is_ws)]"

definition parseIfMatch :: "js \<Rightarrow> lock_error + int" where
  "parseIfMatch header =
     (case (case header of JArr [] \<Rightarrow> JUndef | JArr (v # _) \<Rightarrow> v | v \<Rightarrow> v) of
        JStr s \<Rightarrow> if rx_match IF_MATCH_RE s then Inr (num_of (filter is_digit s)) else Inl RevisionRequired
      | _ \<Rightarrow> Inl RevisionRequired)"

definition etagOf :: "int \<Rightarrow> string" where
  "etagOf revision = [CHR 0x22] @ str_of_int revision @ [CHR 0x22]"

section \<open>The version table\<close>

type_synonym doc = "string \<times> string"

record 'r cms =
  c_versions :: "(doc, int) jmap"
  c_rows :: "doc \<Rightarrow> 'r list"

definition toRevision :: "int option \<Rightarrow> int" where
  "toRevision v = (case v of Some n \<Rightarrow> if 0 \<le> n then n else 0 | None \<Rightarrow> 0)"

definition readRevision :: "'r cms \<Rightarrow> doc \<Rightarrow> int" where
  "readRevision c d = toRevision (map_of (c_versions c) d)"

definition ensureRow :: "doc \<Rightarrow> 'r cms \<Rightarrow> 'r cms" where
  "ensureRow d c = (if d \<in> fst ` set (c_versions c) then c else c\<lparr>c_versions := c_versions c @ [(d, 0)]\<rparr>)"

definition lockDocument :: "doc \<Rightarrow> 'r cms \<Rightarrow> int \<times> 'r cms" where
  "lockDocument d c = (let c' = ensureRow d c in (readRevision c' d, c'))"

definition advanceRevision :: "doc \<Rightarrow> 'r cms \<Rightarrow> int \<times> 'r cms" where
  "advanceRevision d c =
     (let c1 = ensureRow d c;
          c2 = c1\<lparr>c_versions := map (\<lambda>(k, v). (k, if k = d then v + 1 else v)) (c_versions c1)\<rparr> in
      (readRevision c2 d, c2))"

definition removeRevision :: "doc \<Rightarrow> 'r cms \<Rightarrow> 'r cms" where
  "removeRevision d c = c\<lparr>c_versions := AList.delete d (c_versions c)\<rparr>"

section \<open>The middleware\<close>

record 'r scope =
  sc_uid :: "string option"
  sc_documentId :: "string option"
  sc_expected :: "int option"
  sc_observed :: "int option"
  sc_classify :: "('r cms \<Rightarrow> doc \<Rightarrow> string option) option"
  sc_missingClass :: "int option"
  sc_committed :: "int option"

record locked_action =
  la_uid :: string
  la_documentId :: "string option"
  la_revision :: int

record action_context =
  ac_uid :: js
  ac_action :: "string option"
  ac_params :: js

type_synonym 'r action = "locked_action option \<Rightarrow> 'r cms \<Rightarrow> (lock_error + js) \<times> 'r cms"

definition MUTATING_ACTIONS :: "string list" where
  "MUTATING_ACTIONS = [''create'', ''update'', ''clone'', ''delete'', ''publish'', ''unpublish'', ''discardDraft'']"

definition DOCUMENT_ACTIONS :: "string list" where
  "DOCUMENT_ACTIONS = [''update'', ''delete'', ''publish'', ''unpublish'', ''discardDraft'']"

definition doc_id_of :: "js \<Rightarrow> string option" where
  "doc_id_of v = (case v of JStr s \<Rightarrow> if s = [] then None else Some s | _ \<Rightarrow> None)"

definition assertScope :: "'r scope option \<Rightarrow> lock_error + unit" where
  "assertScope scope =
     (case scope of None \<Rightarrow> Inr ()
      | Some sc \<Rightarrow>
        if (sc_expected sc \<noteq> None \<or> sc_observed sc \<noteq> None) \<and>
           (sc_uid sc = None \<or> sc_documentId sc = None \<or> sc_documentId sc = Some []) then Inl Wiring
        else if (sc_observed sc \<noteq> None) \<noteq> (sc_classify sc \<noteq> None) then Inl Wiring
        else Inr ())"

definition isTarget :: "'r scope option \<Rightarrow> doc \<Rightarrow> bool" where
  "isTarget scope d = (case scope of None \<Rightarrow> False | Some sc \<Rightarrow> sc_uid sc = Some (fst d) \<and> sc_documentId sc = Some (snd d))"

definition compare :: "'r scope \<Rightarrow> int \<Rightarrow> doc \<Rightarrow> 'r cms \<Rightarrow> lock_error + unit" where
  "compare sc locked d c =
     (if (case sc_classify sc of None \<Rightarrow> False | Some classify \<Rightarrow> classify c d = None)
      then Inl (ClassLost (case sc_missingClass sc of None \<Rightarrow> 404 | Some s \<Rightarrow> s))
      else if sc_expected sc \<in> {None, Some locked} \<and> sc_observed sc \<in> {None, Some locked} then Inr ()
      else Inl (RevisionStale locked))"

definition createdDocumentId :: "js \<Rightarrow> string option" where
  "createdDocumentId result = (case result of JObj fs \<Rightarrow> doc_id_of (jget fs ''documentId'') | _ \<Rightarrow> None)"

definition lock_create :: "string \<Rightarrow> 'r scope option \<Rightarrow> 'r action \<Rightarrow> 'r cms \<Rightarrow> (lock_error + js) \<times> 'r cms \<times> 'r scope option" where
  "lock_create uid scope next c =
     (case next (Some \<lparr>la_uid = uid, la_documentId = None, la_revision = 1\<rparr>) c of
        (Inl e, _) \<Rightarrow> (Inl e, c, scope)
      | (Inr result, c1) \<Rightarrow>
        (case createdDocumentId result of
           None \<Rightarrow> (Inr result, c1, scope)
         | Some documentId \<Rightarrow>
           let (revision, c2) = advanceRevision (uid, documentId) c1 in
           (Inr result, c2, case scope of None \<Rightarrow> None
            | Some sc \<Rightarrow> Some (if sc_uid sc = Some uid \<and> sc_documentId sc = None
                then sc\<lparr>sc_documentId := Some documentId, sc_committed := Some revision\<rparr> else sc))))"

definition move_tokens :: "int \<Rightarrow> 'r scope \<Rightarrow> 'r scope" where
  "move_tokens revision sc = sc\<lparr>sc_committed := Some revision,
     sc_expected := map_option (\<lambda>_. revision) (sc_expected sc), sc_observed := map_option (\<lambda>_. revision) (sc_observed sc)\<rparr>"

definition lock_mutate :: "doc \<Rightarrow> 'r scope option \<Rightarrow> 'r action \<Rightarrow> 'r cms \<Rightarrow> (lock_error + js) \<times> 'r cms \<times> 'r scope option" where
  "lock_mutate d scope next c =
     (let (locked, c1) = lockDocument d c; target = isTarget scope d in
      case (if target then compare (the scope) locked d c1 else Inr ()) of
        Inl e \<Rightarrow> (Inl e, c, scope)
      | Inr _ \<Rightarrow>
        (case next (Some \<lparr>la_uid = fst d, la_documentId = Some (snd d), la_revision = locked + 1\<rparr>) c1 of
           (Inl e, _) \<Rightarrow> (Inl e, c, scope)
         | (Inr result, c2) \<Rightarrow>
           let (revision, c3) = (if c_rows c2 d = [] then (locked + 1, removeRevision d c2) else advanceRevision d c2) in
           (Inr result, c3, if target then map_option (move_tokens revision) scope else scope)))"

definition createDocumentLock ::
  "action_context \<Rightarrow> 'r scope option \<Rightarrow> 'r action \<Rightarrow> 'r cms \<Rightarrow> (lock_error + js) \<times> 'r cms \<times> 'r scope option" where
  "createDocumentLock ctx scope next c =
     (let action = (case ac_action ctx of None \<Rightarrow> [] | Some a \<Rightarrow> a) in
      if \<not> isGuardedUid (ac_uid ctx) \<or> action \<notin> set MUTATING_ACTIONS
      then (case next None c of (r, c') \<Rightarrow> (r, c', scope))
      else let uid = (case ac_uid ctx of JStr s \<Rightarrow> s | _ \<Rightarrow> []) in
        case assertScope scope of
          Inl e \<Rightarrow> (Inl e, c, scope)
        | Inr _ \<Rightarrow>
          if action \<notin> set DOCUMENT_ACTIONS then lock_create uid scope next c
          else (case doc_id_of (case ac_params ctx of JObj fs \<Rightarrow> jget fs ''documentId'' | _ \<Rightarrow> JUndef) of
              None \<Rightarrow> (Inl Wiring, c, scope)
            | Some documentId \<Rightarrow> lock_mutate (uid, documentId) scope next c))"

section \<open>The contract of a versioned store\<close>

text \<open>What a user of the version table relies on, and what follows for any mix of its operations.\<close>

datatype 'k version_op = Ensure 'k | Advance 'k | Remove 'k

locale versioned_store =
  fixes ok :: "'s \<Rightarrow> bool"
    and revision :: "'s \<Rightarrow> 'k \<Rightarrow> int"
    and ensure :: "'k \<Rightarrow> 's \<Rightarrow> 's"
    and advance :: "'k \<Rightarrow> 's \<Rightarrow> 's"
    and remove :: "'k \<Rightarrow> 's \<Rightarrow> 's"
  assumes ok_ensure: "ok s \<Longrightarrow> ok (ensure k s)"
    and ok_advance: "ok s \<Longrightarrow> ok (advance k s)"
    and ok_remove: "ok s \<Longrightarrow> ok (remove k s)"
    and revision_nonneg: "ok s \<Longrightarrow> 0 \<le> revision s k"
    and revision_ensure: "ok s \<Longrightarrow> revision (ensure k s) k' = revision s k'"
    and revision_advance: "ok s \<Longrightarrow> revision (advance k s) k' = revision s k' + (if k' = k then 1 else 0)"
    and revision_remove: "ok s \<Longrightarrow> revision (remove k s) k' = (if k' = k then 0 else revision s k')"
begin

fun perform :: "'k version_op \<Rightarrow> 's \<Rightarrow> 's" where
  "perform (Ensure k) s = ensure k s"
| "perform (Advance k) s = advance k s"
| "perform (Remove k) s = remove k s"

lemma ok_perform: "ok s \<Longrightarrow> ok (perform op s)"
  by (cases op) (auto intro: ok_ensure ok_advance ok_remove)

lemma ok_fold: "ok s \<Longrightarrow> ok (fold perform ops s)"
  by (induction ops arbitrary: s) (auto intro: ok_perform)

text \<open>Without a removal the revision counts the advances of its document.\<close>

lemma revision_counts:
  "ok s \<Longrightarrow> Remove k \<notin> set ops \<Longrightarrow>
   revision (fold perform ops s) k = revision s k + int (count_list ops (Advance k))"
proof (induction ops arbitrary: s)
  case (Cons op ops)
  then have "revision (perform op s) k = revision s k + (if op = Advance k then 1 else 0)"
    by (cases op) (auto simp: revision_ensure revision_advance revision_remove)
  then show ?case using Cons ok_perform [of s op] by simp
qed simp

text \<open>The same revision before and after means nothing advanced it in between.\<close>

lemma same_revision:
  "ok s \<Longrightarrow> Remove k \<notin> set ops \<Longrightarrow> revision (fold perform ops s) k = revision s k \<Longrightarrow> Advance k \<notin> set ops"
  using revision_counts [of s k ops] by (simp add: count_list_0_iff)

end

definition versions_ok :: "'r cms \<Rightarrow> bool" where
  "versions_ok c = (jmap_ok (c_versions c) \<and> (\<forall>(k, v) \<in> set (c_versions c). 0 \<le> v))"

lemma map_of_bump: "map_of (map (\<lambda>(k, v). (k, if k = d then v + 1 else v)) m) k =
  (if k = d then map_option (\<lambda>v. v + 1) (map_of m k) else map_of m k)"
  by (induction m) auto

lemma ensureRow_simps [simp]:
  "c_rows (ensureRow d c) = c_rows c" "readRevision (ensureRow d c) k = readRevision c k"
  "map_of (c_versions (ensureRow d c)) d \<noteq> None"
proof -
  show "c_rows (ensureRow d c) = c_rows c" by (simp add: ensureRow_def)
  show "readRevision (ensureRow d c) k = readRevision c k"
  proof (cases "d \<in> fst ` set (c_versions c)")
    case False
    then have "map_of (c_versions c) d = None" by (simp add: map_of_None_iff)
    then show ?thesis using False by (auto simp: ensureRow_def readRevision_def toRevision_def map_add_def split: option.splits)
  qed (simp add: ensureRow_def)
  show "map_of (c_versions (ensureRow d c)) d \<noteq> None"
    unfolding map_of_None_iff by (auto simp: ensureRow_def)
qed

lemma versions_ok_nonneg: "versions_ok c \<Longrightarrow> map_of (c_versions c) k = Some v \<Longrightarrow> 0 \<le> v"
  by (auto simp: versions_ok_def dest!: map_of_SomeD)

lemma ensure_ok: "versions_ok c \<Longrightarrow> versions_ok (ensureRow d c)"
  by (auto simp: versions_ok_def ensureRow_def jmap_ok_def)

lemma advance_ok: "versions_ok c \<Longrightarrow> versions_ok (snd (advanceRevision d c))"
proof -
  assume "versions_ok c"
  then have "versions_ok (ensureRow d c)" by (rule ensure_ok)
  then show ?thesis
    by (auto simp: advanceRevision_def Let_def versions_ok_def jmap_ok_def comp_def case_prod_unfold)
qed

lemma remove_ok: "versions_ok c \<Longrightarrow> versions_ok (removeRevision d c)"
  by (auto simp: versions_ok_def removeRevision_def AList.delete_eq)

lemma advance_revision:
  assumes "versions_ok c"
  shows "readRevision (snd (advanceRevision d c)) k = readRevision c k + (if k = d then 1 else 0)"
proof -
  obtain v where v: "map_of (c_versions (ensureRow d c)) d = Some v" by (metis ensureRow_simps(3) option.exhaust)
  then have "0 \<le> v" using versions_ok_nonneg ensure_ok [OF assms] by blast
  moreover have "readRevision c d = readRevision (ensureRow d c) d" "readRevision c k = readRevision (ensureRow d c) k" by simp_all
  ultimately show ?thesis using v
    by (auto simp: advanceRevision_def Let_def readRevision_def map_of_bump toRevision_def split: option.splits)
qed

interpretation version_table: versioned_store versions_ok readRevision ensureRow "\<lambda>d c. snd (advanceRevision d c)" removeRevision
proof unfold_locales
  fix s :: "'a cms" and k k' :: doc
  assume ok: "versions_ok s"
  show "0 \<le> readRevision s k" by (simp add: readRevision_def toRevision_def split: option.splits)
  show "readRevision (removeRevision k s) k' = (if k' = k then 0 else readRevision s k')"
    by (simp add: readRevision_def removeRevision_def jmap_simps toRevision_def)
qed (simp_all add: ensure_ok advance_ok remove_ok advance_revision)

section \<open>Facts about the lock\<close>

lemma lock_document: "lockDocument d c = (readRevision c d, ensureRow d c)"
  by (simp add: lockDocument_def)

lemma advance_rows [simp]: "c_rows (snd (advanceRevision d c)) = c_rows c"
  by (simp add: advanceRevision_def Let_def)

lemma advance_value: "fst (advanceRevision d c) = readRevision (snd (advanceRevision d c)) d"
  by (simp add: advanceRevision_def Let_def)

lemma remove_rows [simp]: "c_rows (removeRevision d c) = c_rows c"
  by (simp add: removeRevision_def)

text \<open>
  What the wrapped action of the query engine does: it leaves the version table to the lock, it writes
  rows of its own document only, and acting on a document that has no rows creates none.
\<close>

definition plain_action :: "doc \<Rightarrow> 'r action \<Rightarrow> bool" where
  "plain_action d next = (\<forall>f c r c'. next f c = (r, c') \<longrightarrow> c_versions c' = c_versions c \<and>
     (\<forall>k. k \<noteq> d \<longrightarrow> c_rows c' k = c_rows c k) \<and> (c_rows c d = [] \<longrightarrow> c_rows c' d = []))"

definition creating_action :: "string \<Rightarrow> 'r action \<Rightarrow> bool" where
  "creating_action uid next = (\<forall>f c r c'. next f c = (r, c') \<longrightarrow> c_versions c' = c_versions c \<and>
     (\<forall>k. c_rows c' k \<noteq> c_rows c k \<longrightarrow> (\<exists>res i. r = Inr res \<and> createdDocumentId res = Some i \<and> k = (uid, i))))"

lemma read_versions: "c_versions c' = c_versions c \<Longrightarrow> readRevision c' = readRevision c"
  by (simp add: readRevision_def fun_eq_iff)

lemma versions_ok_cong: "c_versions c' = c_versions c \<Longrightarrow> versions_ok c' \<longleftrightarrow> versions_ok c"
  by (simp add: versions_ok_def)

lemma mutate_cases:
  assumes "lock_mutate d scope next c = (Inr res, c', scope')" "plain_action d next" "versions_ok c"
  obtains c2 where
    "next (Some \<lparr>la_uid = fst d, la_documentId = Some (snd d), la_revision = readRevision c d + 1\<rparr>) (ensureRow d c) = (Inr res, c2)"
    "isTarget scope d \<Longrightarrow> compare (the scope) (readRevision c d) d (ensureRow d c) = Inr ()"
    "scope' = (if isTarget scope d then map_option (move_tokens (readRevision c d + 1)) scope else scope)"
    "c_rows c' = c_rows c2" "\<And>k. k \<noteq> d \<Longrightarrow> c_rows c' k = c_rows c k" "c_rows c d = [] \<Longrightarrow> c_rows c' d = []"
    "\<And>k. readRevision c' k = (if k = d then if c_rows c' d = [] then 0 else readRevision c d + 1 else readRevision c k)"
    "versions_ok c'"
proof -
  let ?f = "Some \<lparr>la_uid = fst d, la_documentId = Some (snd d), la_revision = readRevision c d + 1\<rparr>"
  obtain c2 where n: "next ?f (ensureRow d c) = (Inr res, c2)"
    and cmp: "isTarget scope d \<Longrightarrow> compare (the scope) (readRevision c d) d (ensureRow d c) = Inr ()"
    and out: "(let (revision, c3) = (if c_rows c2 d = [] then (readRevision c d + 1, removeRevision d c2) else advanceRevision d c2) in
       (Inr res, c3, if isTarget scope d then map_option (move_tokens revision) scope else scope)) = (Inr res :: lock_error + js, c', scope')"
    using assms(1) by (auto simp: lock_mutate_def lock_document Let_def split: sum.splits prod.splits if_splits)
  have fr: "c_versions c2 = c_versions (ensureRow d c)" "\<And>k. k \<noteq> d \<Longrightarrow> c_rows c2 k = c_rows c k"
    "c_rows c d = [] \<Longrightarrow> c_rows c2 d = []"
    using assms(2) n unfolding plain_action_def by (metis ensureRow_simps(1))+
  have ok: "versions_ok c2" using versions_ok_cong [OF fr(1)] ensure_ok [OF assms(3)] by simp
  have rd: "readRevision c2 k = readRevision c k" for k using read_versions [OF fr(1)] by simp
  have adv: "fst (advanceRevision d c2) = readRevision c d + 1"
    unfolding advance_value using advance_revision [OF ok, of d d] rd by simp
  have c': "c' = (if c_rows c2 d = [] then removeRevision d c2 else snd (advanceRevision d c2))"
    "scope' = (if isTarget scope d then map_option (move_tokens (readRevision c d + 1)) scope else scope)"
    using out adv by (auto simp: Let_def split: prod.splits if_splits)
  show thesis
  proof (rule that [OF n cmp c'(2)])
    show "c_rows c' = c_rows c2" using c'(1) by simp
    then show "\<And>k. k \<noteq> d \<Longrightarrow> c_rows c' k = c_rows c k" "c_rows c d = [] \<Longrightarrow> c_rows c' d = []" using fr by simp_all
    show "readRevision c' k = (if k = d then if c_rows c' d = [] then 0 else readRevision c d + 1 else readRevision c k)" for k
      using version_table.revision_remove [OF ok, of d k] version_table.revision_advance [OF ok, of d k] rd
      by (auto simp: c'(1))
    show "versions_ok c'" using ok by (simp add: c'(1) advance_ok remove_ok)
  qed
qed

lemma mutate_error: "lock_mutate d scope next c = (Inl e, c', scope') \<Longrightarrow> c' = c \<and> scope' = scope"
  by (auto simp: lock_mutate_def Let_def split: sum.splits prod.splits)

lemma create_cases:
  assumes "lock_create uid scope next c = (Inr res, c', scope')" "creating_action uid next" "versions_ok c"
    "createdDocumentId res = Some i"
  shows "k \<noteq> (uid, i) \<Longrightarrow> c_rows c' k = c_rows c k \<and> readRevision c' k = readRevision c k" "versions_ok c'"
proof -
  obtain c1 where n: "next (Some \<lparr>la_uid = uid, la_documentId = None, la_revision = 1\<rparr>) c = (Inr res, c1)"
    and c': "c' = snd (advanceRevision (uid, i) c1)"
    using assms(1,4) by (auto simp: lock_create_def Let_def split: sum.splits prod.splits option.splits)
  have fr: "c_versions c1 = c_versions c" "\<And>k. c_rows c1 k \<noteq> c_rows c k \<Longrightarrow> k = (uid, i)"
    using assms(2) n assms(4) unfolding creating_action_def by (blast, metis Inr_inject option.inject)
  have ok: "versions_ok c1" using versions_ok_cong [OF fr(1)] assms(3) by simp
  show "versions_ok c'" using ok c' by (simp add: advance_ok)
  show "k \<noteq> (uid, i) \<Longrightarrow> c_rows c' k = c_rows c k \<and> readRevision c' k = readRevision c k"
    using fr(2) [of k] version_table.revision_advance [OF ok, of "(uid, i)" k] read_versions [OF fr(1)] by (auto simp: c')
qed

section \<open>No lost update\<close>

text \<open>
  What anyone does to the documents between a form's reading and its saving: locked actions with any
  scope or none, locks alone, and the creation of documents other than \<open>k\<close> (their ids are random).
\<close>

inductive guarded_run :: "doc \<Rightarrow> 'r cms \<Rightarrow> 'r cms \<Rightarrow> bool" for k c0 where
  start: "guarded_run k c0 c0"
| mutate: "guarded_run k c0 c \<Longrightarrow> plain_action d next \<Longrightarrow> lock_mutate d scope next c = (r, c', scope') \<Longrightarrow> guarded_run k c0 c'"
| create: "guarded_run k c0 c \<Longrightarrow> creating_action uid next \<Longrightarrow> lock_create uid scope next c = (Inr res, c', scope') \<Longrightarrow>
    createdDocumentId res = Some i \<Longrightarrow> (uid, i) \<noteq> k \<Longrightarrow> guarded_run k c0 c'"
| lock: "guarded_run k c0 c \<Longrightarrow> guarded_run k c0 (snd (lockDocument d c))"

definition moved :: "doc \<Rightarrow> 'r cms \<Rightarrow> 'r cms \<Rightarrow> bool" where
  "moved k c0 c = (readRevision c k = readRevision c0 k \<and> c_rows c k = c_rows c0 k \<or> readRevision c0 k < readRevision c k \<or>
     c_rows c k = [] \<and> readRevision c k = 0)"

lemma run_moved: "guarded_run k c0 c \<Longrightarrow> versions_ok c0 \<Longrightarrow> versions_ok c \<and> moved k c0 c"
proof (induction rule: guarded_run.induct)
  case (mutate c d _ scope r c' scope')
  then have ih: "versions_ok c" "moved k c0 c" by simp_all
  show ?case
  proof (cases r)
    case (Inl e)
    then show ?thesis using mutate_error mutate.hyps(3) ih by blast
  next
    case (Inr res)
    note m = mutate.hyps(3) [unfolded Inr]
    show ?thesis
    proof (rule mutate_cases [OF m mutate.hyps(2) ih(1)], goal_cases)
      case (1 c2)
      show ?thesis
      proof (cases "k = d")
        case True
        then show ?thesis using ih(2) 1(6-8) version_table.revision_nonneg [OF ih(1), of k]
          by (auto simp: moved_def)
      next
        case False
        then show ?thesis using ih(2) 1(5,7,8) by (simp add: moved_def)
      qed
    qed
  qed
next
  case (create c uid _ scope res c' scope' i)
  then have ih: "versions_ok c" "moved k c0 c" by simp_all
  note cc = create_cases [OF create.hyps(3,2) ih(1) create.hyps(4)]
  show ?case using cc(1) [of k] cc(2) create.hyps(5) ih(2) by (simp add: moved_def)
next
  case (lock c d)
  then show ?case by (simp add: lock_document ensure_ok moved_def)
qed (simp add: moved_def)


text \<open>The lock decides on the locked rows: an accepted change found the class still held and every
  token equal to the stored revision, raised the revision by exactly one, told the recorder inside
  the transaction that same number and moved the tokens to it; a refused one left everything as it
  was.\<close>

theorem lock_commits:
  assumes "lock_mutate d (Some sc) next c = (r, c', scope')" "plain_action d next" "versions_ok c" "isTarget (Some sc) d"
  shows "case r of
      Inl e \<Rightarrow> c' = c \<and> scope' = Some sc
    | Inr res \<Rightarrow>
        sc_expected sc \<in> {None, Some (readRevision c d)} \<and> sc_observed sc \<in> {None, Some (readRevision c d)} \<and>
        pred_option (\<lambda>classify. classify (ensureRow d c) d \<noteq> None) (sc_classify sc) \<and>
        fst (next (Some \<lparr>la_uid = fst d, la_documentId = Some (snd d), la_revision = readRevision c d + 1\<rparr>) (ensureRow d c)) = Inr res \<and>
        scope' = Some (move_tokens (readRevision c d + 1) sc) \<and>
        readRevision c' d = (if c_rows c' d = [] then 0 else readRevision c d + 1)"
proof (cases r)
  case (Inr res)
  show ?thesis
  proof (rule mutate_cases [OF assms(1) [unfolded Inr] assms(2,3)], goal_cases)
    case (1 c2)
    have "compare sc (readRevision c d) d (ensureRow d c) = Inr ()" using 1(2) assms(4) by simp
    then show ?thesis using 1 assms(4) Inr
      by (auto simp: compare_def option.pred_set split: if_splits option.splits)
  qed
qed (use mutate_error [of d "Some sc" "next" c _ c' scope'] assms(1) in auto)

section \<open>An example\<close>

definition demo_doc_ref :: doc where "demo_doc_ref = (EVENT_UID, ''e1'')"

definition demo_cms :: "string cms" where
  "demo_cms = \<lparr>c_versions = [(demo_doc_ref, 4)], c_rows = (\<lambda>d. if d = demo_doc_ref then [''draft''] else [])\<rparr>"

text \<open>An update writes one row of a document that exists.\<close>

definition demo_update :: "string \<Rightarrow> string action" where
  "demo_update text = (\<lambda>f c. (Inr JNull,
     if c_rows c demo_doc_ref = [] then c else c\<lparr>c_rows := (c_rows c)(demo_doc_ref := [text])\<rparr>))"

definition demo_scope :: "string scope" where
  "demo_scope = \<lparr>sc_uid = Some EVENT_UID, sc_documentId = Some ''e1'', sc_expected = Some 4, sc_observed = None,
     sc_classify = None, sc_missingClass = None, sc_committed = None\<rparr>"

lemma demo_update_plain: "plain_action demo_doc_ref (demo_update text)"
  by (auto simp: plain_action_def demo_update_def)

lemma demo_versions: "versions_ok demo_cms" "readRevision demo_cms demo_doc_ref = 4" "isTarget (Some demo_scope) demo_doc_ref"
  by (simp_all add: versions_ok_def demo_cms_def readRevision_def toRevision_def demo_scope_def isTarget_def demo_doc_ref_def)

definition demo_saved :: "(lock_error + js) \<times> string cms \<times> string scope option" where
  "demo_saved = lock_mutate demo_doc_ref (Some demo_scope) (demo_update ''new'') demo_cms"

lemma demo_saved_value: "fst demo_saved = Inr JNull" "snd (snd demo_saved) = Some (move_tokens 5 demo_scope)"
proof -
  have t: "isTarget (Some demo_scope) demo_doc_ref" by (rule demo_versions)
  have e: "sc_expected demo_scope = Some 4" "sc_observed demo_scope = None" "sc_classify demo_scope = None"
    by (simp_all add: demo_scope_def)
  show "fst demo_saved = Inr JNull" "snd (snd demo_saved) = Some (move_tokens 5 demo_scope)"
    by (simp_all add: demo_saved_def lock_mutate_def lock_document demo_versions compare_def demo_update_def Let_def t e
        advanceRevision_def readRevision_def map_of_bump ensureRow_def toRevision_def demo_cms_def)
qed


theorem lock_commits_witness:
  "readRevision (fst (snd demo_saved)) demo_doc_ref =
    (if c_rows (fst (snd demo_saved)) demo_doc_ref = [] then 0 else readRevision demo_cms demo_doc_ref + 1)"
proof -
  have "lock_mutate demo_doc_ref (Some demo_scope) (demo_update ''new'') demo_cms
    = (Inr JNull, fst (snd demo_saved), snd (snd demo_saved))"
    using demo_saved_value by (simp add: demo_saved_def prod_eq_iff)
  from lock_commits [OF this demo_update_plain demo_versions(1,3)] show ?thesis by simp
qed

end
