(* ===== verification/Polls.thy ===== *)
theory Polls imports Roles PlainDate DocumentLock "HOL-Library.Multiset" begin

text \<open>
  Polls: who sees a poll and votes on it (\<open>apps/cms/src/utils/poll-audience.ts\<close>), which ballots count
  (\<open>poll-ballots.ts\<close>) and the casting of a vote under the poll's lock
  (\<open>api/poll-vote/controllers/poll-vote.ts\<close>). Tables are lists of rows; a relation is a link table.
  The SQL statement is the list comprehension it denotes.
\<close>

section \<open>Audience\<close>

record poll =
  po_id :: int
  po_documentId :: string
  po_audience :: "string option"
  po_departments :: "string option list"
  po_visibleToGuests :: js
  po_guestsCanVote :: js
  po_options :: "js list"
  po_closesAt :: "instant option"
  po_votersRemoved :: bool

record viewer =
  vw_roleType :: "string option"
  vw_department :: "string option"

definition isPollTargeted :: "poll \<Rightarrow> bool" where
  "isPollTargeted p = ((po_audience p \<noteq> None \<and> po_audience p \<noteq> Some ''all'') \<or> po_departments p \<noteq> [])"

definition audienceDocumentIds :: "poll \<Rightarrow> string list" where
  "audienceDocumentIds p = filter (\<lambda>d. d \<noteq> []) (List.map_filter id (po_departments p))"

definition isInPollAudience :: "poll \<Rightarrow> viewer option \<Rightarrow> bool" where
  "isInPollAudience p viewer =
     (case viewer of None \<Rightarrow> False
      | Some v \<Rightarrow> if \<not> isPollTargeted p then True
          else (case vw_department v of None \<Rightarrow> False | Some d \<Rightarrow> d \<noteq> [] \<and> d \<in> set (audienceDocumentIds p)))"

definition isGuestViewer :: "viewer option \<Rightarrow> bool" where
  "isGuestViewer viewer = (case viewer of None \<Rightarrow> False | Some v \<Rightarrow> vw_roleType v = Some ''guest'')"

definition isPollVisibleToGuests :: "poll \<Rightarrow> bool" where
  "isPollVisibleToGuests p = (po_visibleToGuests p = JBool True)"

definition canGuestsVoteOnPoll :: "poll \<Rightarrow> bool" where
  "canGuestsVoteOnPoll p = (isPollVisibleToGuests p \<and> po_guestsCanVote p = JBool True)"

definition canSeePoll :: "poll \<Rightarrow> viewer option \<Rightarrow> bool" where
  "canSeePoll p viewer =
     (case viewer of None \<Rightarrow> False
      | Some v \<Rightarrow>
        if (case vw_roleType v of None \<Rightarrow> False | Some r \<Rightarrow> r \<in> set MODERATORS) then True
        else if \<not> isInPollAudience p viewer then False
        else \<not> isGuestViewer viewer \<or> isPollVisibleToGuests p)"

definition canVoteOnPoll :: "poll \<Rightarrow> viewer option \<Rightarrow> bool" where
  "canVoteOnPoll p viewer =
     (if \<not> canSeePoll p viewer \<or> \<not> isInPollAudience p viewer then False
      else \<not> isGuestViewer viewer \<or> canGuestsVoteOnPoll p)"

section \<open>Counting loaded rows\<close>

record ballot =
  ba_id :: int
  ba_option :: "int option"
  ba_voter :: "int option"

record tally =
  ta_counts :: "nat list"
  ta_total :: nat
  ta_mine :: "int option"

definition isOptionIndex :: "int option \<Rightarrow> bool" where
  "isOptionIndex v = (case v of None \<Rightarrow> False | Some i \<Rightarrow> 0 \<le> i)"

fun first_scan :: "ballot list \<Rightarrow> (int, ballot) jmap \<Rightarrow> ballot list \<Rightarrow> ballot list \<times> (int, ballot) jmap" where
  "first_scan [] firstByVoter counted = (counted, firstByVoter)"
| "first_scan (row # rows) firstByVoter counted =
     (case ba_voter row of
        None \<Rightarrow> first_scan rows firstByVoter (counted @ [row])
      | Some voterId \<Rightarrow>
        if (case map_of firstByVoter voterId of None \<Rightarrow> True | Some first \<Rightarrow> ba_id row < ba_id first)
        then first_scan rows (AList.update voterId row firstByVoter) counted
        else first_scan rows firstByVoter counted)"

definition countedBallots :: "ballot list \<Rightarrow> ballot list" where
  "countedBallots rows = (case first_scan rows [] [] of (counted, firstByVoter) \<Rightarrow>
     sort_key ba_id (counted @ map snd firstByVoter))"

text \<open>One step of either tally: an option, its ballots, whether the caller's is among them.\<close>

definition add_count :: "int option \<Rightarrow> nat \<Rightarrow> bool \<Rightarrow> tally \<Rightarrow> tally" where
  "add_count opt n me t =
     \<lparr>ta_counts = (if isOptionIndex opt \<and> nat (the opt) < length (ta_counts t)
        then (ta_counts t)[nat (the opt) := ta_counts t ! nat (the opt) + n] else ta_counts t),
      ta_total = ta_total t + n,
      ta_mine = (if me then (if isOptionIndex opt then opt else None) else ta_mine t)\<rparr>"

definition no_counts :: "nat \<Rightarrow> tally" where
  "no_counts optionCount = \<lparr>ta_counts = replicate optionCount 0, ta_total = 0, ta_mine = None\<rparr>"

definition tallyBallots :: "ballot list \<Rightarrow> nat \<Rightarrow> int option \<Rightarrow> tally" where
  "tallyBallots rows optionCount callerId =
     fold (\<lambda>b. add_count (ba_option b) 1 (callerId \<noteq> None \<and> ba_voter b = callerId)) (countedBallots rows) (no_counts optionCount)"

section \<open>Counting in the database\<close>

record vote_tables =
  vt_votes :: "(int \<times> int option) list"
  vt_polls :: "(int \<times> int) list"
  vt_voters :: "(int \<times> int) list"

record count_row =
  cr_poll :: int
  cr_option :: "int option"
  cr_ballots :: nat
  cr_mine :: nat

text \<open>\<open>FROM votes v JOIN polls pl ON pl.vote = v.id LEFT JOIN voters vl ON vl.vote = v.id WHERE ... AND
  NOT EXISTS (...)\<close>: the poll, the option and the voter of each counted row.\<close>

definition earlier_vote :: "vote_tables \<Rightarrow> int \<Rightarrow> int option \<Rightarrow> int \<Rightarrow> bool" where
  "earlier_vote t poll voter v = list_ex (\<lambda>(vote2, poll2). list_ex (\<lambda>(v2, _). v2 = vote2) (vt_votes t) \<and>
     list_ex (\<lambda>(vl2, user2). vl2 = vote2 \<and> Some user2 = voter) (vt_voters t) \<and> poll2 = poll \<and> vote2 < v) (vt_polls t)"

definition left_join :: "vote_tables \<Rightarrow> int \<Rightarrow> int option list" where
  "left_join t v = (case filter (\<lambda>(vote, _). vote = v) (vt_voters t) of
     [] \<Rightarrow> [None] | links \<Rightarrow> map (\<lambda>(_, user). Some user) links)"

definition counted_rows :: "vote_tables \<Rightarrow> int list \<Rightarrow> (int \<times> int option \<times> int option) list" where
  "counted_rows t pollIds = concat (map (\<lambda>(v, opt).
     concat (map (\<lambda>(vote, poll). map (\<lambda>voter. (poll, opt, voter)) (filter (\<lambda>voter. \<not> earlier_vote t poll voter v) (left_join t v)))
       (filter (\<lambda>(vote, poll). vote = v \<and> poll \<in> set pollIds) (vt_polls t)))) (vt_votes t))"

text \<open>\<open>GROUP BY poll, option\<close>; \<open>caller ?? -1\<close> for the \<open>mine\<close> column.\<close>

definition ballotCounts :: "vote_tables \<Rightarrow> int list \<Rightarrow> int option \<Rightarrow> count_row list" where
  "ballotCounts t pollIds callerId =
     (let rows = counted_rows t pollIds; me = Some (case callerId of None \<Rightarrow> -1 | Some i \<Rightarrow> i) in
      map (\<lambda>(p, opt). \<lparr>cr_poll = p, cr_option = opt,
          cr_ballots = length (filter (\<lambda>(q, o', _). q = p \<and> o' = opt) rows),
          cr_mine = length (filter (\<lambda>(q, o', voter). q = p \<and> o' = opt \<and> voter = me) rows)\<rparr>)
        (remdups (map (\<lambda>(p, opt, _). (p, opt)) rows)))"

definition tallyFromCounts :: "count_row list \<Rightarrow> nat \<Rightarrow> tally" where
  "tallyFromCounts rows optionCount =
     fold (\<lambda>r. add_count (cr_option r) (cr_ballots r) (0 < cr_mine r)) rows (no_counts optionCount)"

text \<open>The database returns the groups in any order: \<open>order\<close> is a permutation.\<close>

definition countPollBallots :: "(count_row list \<Rightarrow> count_row list) \<Rightarrow> vote_tables \<Rightarrow> int \<Rightarrow> int option \<Rightarrow> nat \<Rightarrow> tally" where
  "countPollBallots order t pollId callerId optionCount = tallyFromCounts (order (ballotCounts t [pollId] callerId)) optionCount"

definition MAX_BATCHED_POLLS :: nat where "MAX_BATCHED_POLLS = 50"

definition countPollBallotsMany ::
  "(count_row list \<Rightarrow> count_row list) \<Rightarrow> vote_tables \<Rightarrow> (int \<times> nat) list \<Rightarrow> int option \<Rightarrow> (int, tally) jmap option" where
  "countPollBallotsMany order t polls callerId =
     (if polls = [] then Some []
      else let ids = remdups (map fst polls) in
        if length ids > MAX_BATCHED_POLLS then None
        else let rows = order (ballotCounts t ids callerId) in
          Some (fold (\<lambda>(p, n) m. AList.update p (tallyFromCounts (filter (\<lambda>r. cr_poll r = p) rows) n) m) polls []))"

section \<open>Closing\<close>

text \<open>\<open>packages/domain/src/poll-close.ts\<close>.\<close>

definition isPollClosed :: "(string \<Rightarrow> int option) \<Rightarrow> instant option \<Rightarrow> int \<Rightarrow> bool" where
  "isPollClosed dparse closesAt now =
     (if closesAt = None \<or> closesAt = Some (IText []) then False
      else case instantEpochMs dparse (the closesAt) of None \<Rightarrow> False | Some ms \<Rightarrow> ms \<le> now)"

definition pollClosesAtForDay :: "(string \<Rightarrow> string option) \<Rightarrow> zone_format \<Rightarrow> string \<Rightarrow> string \<Rightarrow> (date_error + int option) option" where
  "pollClosesAtForDay canon fmt day tz =
     (if \<not> is_plain_date day then None else Some (zonedWallTimeToInstant canon fmt day ''23:59:59'' tz Compatible))"

section \<open>Voting\<close>

datatype vote_outcome = VoteNotFound | VoteForbidden string | VoteBad string | Voted int

text \<open>\<open>votes.create\<close>: the next row id, with its two links.\<close>

definition insert_vote :: "int \<Rightarrow> int \<Rightarrow> int \<Rightarrow> int \<Rightarrow> vote_tables \<Rightarrow> vote_tables" where
  "insert_vote i poll voter optionIndex t = \<lparr>vt_votes = vt_votes t @ [(i, Some optionIndex)], vt_polls = vt_polls t @ [(i, poll)],
     vt_voters = vt_voters t @ [(i, voter)]\<rparr>"

definition delete_vote :: "int \<Rightarrow> vote_tables \<Rightarrow> vote_tables" where
  "delete_vote i t = \<lparr>vt_votes = filter (\<lambda>(v, _). v \<noteq> i) (vt_votes t), vt_polls = filter (\<lambda>(v, _). v \<noteq> i) (vt_polls t),
     vt_voters = filter (\<lambda>(v, _). v \<noteq> i) (vt_voters t)\<rparr>"

definition votes_of :: "vote_tables \<Rightarrow> int \<Rightarrow> int \<Rightarrow> int list" where
  "votes_of t poll voter = sort (map fst (filter (\<lambda>(v, _). (v, poll) \<in> set (vt_polls t) \<and> (v, voter) \<in> set (vt_voters t)) (vt_votes t)))"

text \<open>
  \<open>castVote\<close> on the poll read under the lock. \<open>newId\<close> is the id of the inserted row, greater than every
  other. The lock makes the whole a transaction, so the row inserted is there when it is read back.
\<close>

definition castVote ::
  "(string \<Rightarrow> int option) \<Rightarrow> poll option \<Rightarrow> viewer \<Rightarrow> int \<Rightarrow> int \<Rightarrow> js \<Rightarrow> int \<Rightarrow> int \<Rightarrow> vote_tables \<Rightarrow> vote_outcome \<times> vote_tables" where
  "castVote dparse p viewer voterId optionIndex shownOption now newId t =
     (case p of None \<Rightarrow> (VoteNotFound, t)
      | Some poll \<Rightarrow>
        if \<not> canSeePoll poll (Some viewer) then (VoteNotFound, t)
        else if \<not> isInPollAudience poll (Some viewer) then (VoteForbidden ''Not in poll audience'', t)
        else if \<not> canVoteOnPoll poll (Some viewer) then (VoteForbidden ''Guests cannot vote on this poll'', t)
        else if int (length (po_options poll)) \<le> optionIndex then (VoteBad ''Invalid optionIndex'', t)
        else if (case shownOption of JStr s \<Rightarrow> po_options poll ! nat optionIndex \<noteq> JStr s | _ \<Rightarrow> False)
        then (VoteBad ''Poll options changed'', t)
        else if isPollClosed dparse (po_closesAt poll) now \<or> po_votersRemoved poll then (VoteBad ''Poll is closed'', t)
        else if votes_of t (po_id poll) voterId \<noteq> [] then (VoteBad ''Already voted'', t)
        else let t1 = insert_vote newId (po_id poll) voterId optionIndex t;
                 mine = votes_of t1 (po_id poll) voterId;
                 t2 = fold delete_vote (tl mine) t1 in
          if mine \<noteq> [] \<and> hd mine \<noteq> newId then (VoteBad ''Already voted'', t2) else (Voted newId, t2))"

text \<open>
  The route. \<open>seen\<close> is the first read of the poll, \<open>again\<close> the second one, under the lock;
  \<open>optionIndex\<close> is None when the body has no integer there.
\<close>

datatype vote_reply = Unauthorized | OptionIndexRequired | VoteReply vote_outcome

definition vote ::
  "(string \<Rightarrow> int option) \<Rightarrow> (int \<times> viewer) option \<Rightarrow> int option \<Rightarrow> js \<Rightarrow> poll option \<Rightarrow> poll option \<Rightarrow> int \<Rightarrow> int \<Rightarrow>
   'r cms \<Rightarrow> vote_tables \<Rightarrow> vote_reply \<times> 'r cms \<times> vote_tables" where
  "vote dparse user optionIndex shownOption seen again now newId c t =
     (case user of None \<Rightarrow> (Unauthorized, c, t)
      | Some (userId, viewer) \<Rightarrow>
        if \<not> isOptionIndex optionIndex then (OptionIndexRequired, c, t)
        else (case seen of None \<Rightarrow> (VoteReply VoteNotFound, c, t)
          | Some first \<Rightarrow>
            if \<not> canSeePoll first (Some viewer) then (VoteReply VoteNotFound, c, t)
            else let (_, c') = lockDocument (POLL_UID, po_documentId first) c;
                     same = (case again of None \<Rightarrow> None | Some p \<Rightarrow> if po_documentId p = po_documentId first then Some p else None);
                     (outcome, t') = castVote dparse same viewer userId (the optionIndex) shownOption now newId t in
              (VoteReply outcome, c', t')))"

section \<open>The counted ballots\<close>

definition is_first :: "ballot list \<Rightarrow> ballot \<Rightarrow> bool" where
  "is_first rows r = (ba_voter r = None \<or> (\<forall>x \<in> set rows. ba_voter x = ba_voter r \<longrightarrow> ba_id r \<le> ba_id x))"

definition scan_inv :: "ballot list \<Rightarrow> ballot list \<Rightarrow> (int, ballot) jmap \<Rightarrow> bool" where
  "scan_inv seen c m = (set c = {r \<in> set seen. ba_voter r = None} \<and> distinct c \<and> jmap_ok m \<and>
     (\<forall>v b. map_of m v = Some b \<longleftrightarrow> b \<in> set seen \<and> ba_voter b = Some v \<and> is_first seen b))"

lemma ids_inj: "distinct (map ba_id rows) \<Longrightarrow> a \<in> set rows \<Longrightarrow> b \<in> set rows \<Longrightarrow> ba_id a = ba_id b \<Longrightarrow> a = b"
  by (auto simp: distinct_map dest: inj_onD)

lemma has_first:
  assumes "x \<in> set seen" "ba_voter x = Some v"
  obtains b where "b \<in> set seen" "ba_voter b = Some v" "is_first seen b"
proof -
  let ?S = "{r \<in> set seen. ba_voter r = Some v}"
  have "finite ?S" "?S \<noteq> {}" using assms by auto
  then obtain b where "b \<in> ?S" "\<forall>y \<in> ?S. ba_id b \<le> ba_id y"
    using ex_min_if_finite [of "ba_id ` ?S"] by (metis (no_types, lifting) arg_min_if_finite(1) arg_min_least)
  then show thesis using that by (auto simp: is_first_def)
qed

lemma first_unique: "distinct (map ba_id rows) \<Longrightarrow> a \<in> set rows \<Longrightarrow> b \<in> set rows \<Longrightarrow> ba_voter a = Some v \<Longrightarrow> ba_voter b = Some v \<Longrightarrow>
  is_first rows a \<Longrightarrow> is_first rows b \<Longrightarrow> a = b"
  by (rule ids_inj) (auto simp: is_first_def intro: order_antisym)

lemma scan_inv_step_none:
  "scan_inv seen c m \<Longrightarrow> ba_voter r = None \<Longrightarrow> r \<notin> set seen \<Longrightarrow> scan_inv (seen @ [r]) (c @ [r]) m"
  by (auto simp: scan_inv_def is_first_def)

lemma scan_inv_step_some:
  assumes "scan_inv seen c m" "ba_voter r = Some v" "r \<notin> set seen" "distinct (map ba_id (seen @ [r]))"
  shows "scan_inv (seen @ [r]) c (if (case map_of m v of None \<Rightarrow> True | Some f \<Rightarrow> ba_id r < ba_id f) then AList.update v r m else m)"
proof (cases "map_of m v")
  case None
  have no: "\<forall>x \<in> set seen. ba_voter x \<noteq> Some v"
  proof
    fix x assume x: "x \<in> set seen"
    show "ba_voter x \<noteq> Some v"
    proof
      assume "ba_voter x = Some v"
      from has_first [OF x this] obtain b where "b \<in> set seen" "ba_voter b = Some v" "is_first seen b" .
      then have "map_of m v = Some b" using assms(1) by (simp add: scan_inv_def)
      then show False using None by simp
    qed
  qed
  have "(map_of (AList.update v r m) w = Some b) \<longleftrightarrow> b \<in> set (seen @ [r]) \<and> ba_voter b = Some w \<and> is_first (seen @ [r]) b" for w b
  proof (cases "w = v")
    case True
    then show ?thesis using no assms(2) by (auto simp: jmap_simps is_first_def)
  next
    case False
    then show ?thesis using assms(1,2) no by (auto simp: jmap_simps scan_inv_def is_first_def)
  qed
  then show ?thesis using assms(1,2) None by (auto simp: scan_inv_def)
next
  case (Some f)
  then have f: "f \<in> set seen" "ba_voter f = Some v" "is_first seen f" using assms(1) by (auto simp: scan_inv_def)
  have ne: "ba_id r \<noteq> ba_id f" using assms(4) f(1) by auto
  show ?thesis
  proof (cases "ba_id r < ba_id f")
    case True
    have "(map_of (AList.update v r m) w = Some b) \<longleftrightarrow> b \<in> set (seen @ [r]) \<and> ba_voter b = Some w \<and> is_first (seen @ [r]) b" for w b
    proof (cases "w = v")
      case w: True
      have "is_first (seen @ [r]) r" using f True assms(2) by (fastforce simp: is_first_def)
      moreover have "\<not> is_first (seen @ [r]) b" if "b \<in> set seen" "ba_voter b = Some v" for b
        using that f True assms(2) by (fastforce simp: is_first_def)
      ultimately show ?thesis using w assms(2) by (auto simp: jmap_simps)
    next
      case False
      then show ?thesis using assms(1,2) by (auto simp: jmap_simps scan_inv_def is_first_def)
    qed
    then have "scan_inv (seen @ [r]) c (AList.update v r m)" using assms(1,2) by (auto simp: scan_inv_def)
    then show ?thesis using Some True by simp
  next
    case False
    have "\<not> is_first (seen @ [r]) r" using f False ne assms(2) by (fastforce simp: is_first_def)
    moreover have "is_first (seen @ [r]) b \<longleftrightarrow> is_first seen b" if "b \<in> set seen" "ba_voter b = Some w" for b w
    proof (cases "w = v")
      case w: True
      have "is_first seen b \<Longrightarrow> ba_id b \<le> ba_id f" using f that w by (auto simp: is_first_def)
      then show ?thesis using False that w assms(2) by (auto simp: is_first_def)
    qed (use that assms(2) in \<open>auto simp: is_first_def\<close>)
    ultimately have "scan_inv (seen @ [r]) c m" using assms(1,2) by (auto simp: scan_inv_def)
    then show ?thesis using Some False by simp
  qed
qed

lemma first_scan_inv:
  "scan_inv seen c m \<Longrightarrow> distinct (map ba_id (seen @ rows)) \<Longrightarrow> first_scan rows m c = (c', m') \<Longrightarrow> scan_inv (seen @ rows) c' m'"
proof (induction rows arbitrary: seen c m)
  case (Cons r rows)
  have new: "r \<notin> set seen" "distinct (map ba_id (seen @ [r]))" using Cons.prems(2) by auto
  show ?case
  proof (cases "ba_voter r")
    case None
    then show ?thesis
      using Cons.IH [of "seen @ [r]" "c @ [r]" m] scan_inv_step_none [OF Cons.prems(1) None new(1)] Cons.prems by simp
  next
    case (Some v)
    note st = scan_inv_step_some [OF Cons.prems(1) Some new]
    show ?thesis
      using Cons.IH [OF st] Cons.prems(2,3) Some by (cases "case map_of m v of None \<Rightarrow> True | Some f \<Rightarrow> ba_id r < ba_id f") simp_all
  qed
qed simp

lemma counted_mset:
  assumes "distinct (map ba_id rows)"
  shows "mset (countedBallots rows) = mset (filter (is_first rows) rows)"
proof -
  obtain c m where s: "first_scan rows [] [] = (c, m)" by (metis prod.exhaust)
  have i: "scan_inv rows c m"
    using first_scan_inv [of "[]" "[]" "[]" rows c m] assms s by (simp add: scan_inv_def)
  have v: "b \<in> set (map snd m) \<longleftrightarrow> b \<in> set rows \<and> ba_voter b \<noteq> None \<and> is_first rows b" for b
    using i jmap_ok_map_of [of m] unfolding scan_inv_def by (auto simp: image_iff) (metis map_of_SomeD snd_conv)+
  have "distinct (map snd m)"
  proof (subst distinct_map, intro conjI inj_onI)
    have "jmap_ok m" using i by (simp add: scan_inv_def)
    then show "distinct m" by (simp add: jmap_ok_def distinct_map)
    fix x y assume "x \<in> set m" "y \<in> set m" "snd x = snd y"
    then show "x = y" using i jmap_ok_map_of [of m "fst x" "snd x"] jmap_ok_map_of [of m "fst y" "snd y"]
      unfolding scan_inv_def by (metis option.inject prod.collapse)
  qed
  moreover have "set c = {r \<in> set rows. ba_voter r = None}" "distinct c" using i by (simp_all add: scan_inv_def)
  moreover have anon: "is_first rows r" if "ba_voter r = None" for r using that by (simp add: is_first_def)
  moreover have "set (map snd m) = {b \<in> set rows. ba_voter b \<noteq> None \<and> is_first rows b}" using v by blast
  ultimately have "distinct (c @ map snd m)" "set (c @ map snd m) = set (filter (is_first rows) rows)"
    by (auto simp del: set_map)
  moreover have "distinct (filter (is_first rows) rows)" using assms by (simp add: distinct_map)
  ultimately have "mset (c @ map snd m) = mset (filter (is_first rows) rows)" by (metis set_eq_iff_mset_eq_distinct)
  then show ?thesis by (simp add: countedBallots_def s)
qed


section \<open>Tallies do not depend on the order of the ballots\<close>

definition counted_once :: "(int option \<times> nat \<times> bool) list \<Rightarrow> bool" where
  "counted_once xs = (\<forall>o1 n1 o2 n2. (o1, n1, True) \<in> set xs \<longrightarrow> (o2, n2, True) \<in> set xs \<longrightarrow> o1 = o2)"

definition add_counts :: "(int option \<times> nat \<times> bool) list \<Rightarrow> tally \<Rightarrow> tally" where
  "add_counts xs t = fold (\<lambda>(opt, n, me). add_count opt n me) xs t"

lemma add_counts_simps [simp]:
  "add_counts [] t = t"
  "add_counts ((opt, n, me) # xs) t = add_counts xs (add_count opt n me t)"
  by (simp_all add: add_counts_def)

lemma add_counts_total: "ta_total (add_counts xs t) = ta_total t + (\<Sum>(_, n, _) \<leftarrow> xs. n)"
  by (induction xs arbitrary: t) (auto simp: add_count_def)

lemma add_counts_length: "length (ta_counts (add_counts xs t)) = length (ta_counts t)"
  by (induction xs arbitrary: t) (auto simp: add_count_def)

lemma add_counts_nth:
  "i < length (ta_counts t) \<Longrightarrow>
   ta_counts (add_counts xs t) ! i = ta_counts t ! i + (\<Sum>(opt, n, _) \<leftarrow> xs. if opt = Some (int i) then n else 0)"
proof (induction xs arbitrary: t)
  case (Cons x xs)
  obtain opt n me where x: "x = (opt, n, me)" by (cases x) auto
  have "i < length (ta_counts (add_count opt n me t))" using Cons.prems by (simp add: add_count_def)
  moreover have "ta_counts (add_count opt n me t) ! i = ta_counts t ! i + (if opt = Some (int i) then n else 0)"
    using Cons.prems by (auto simp: add_count_def isOptionIndex_def nth_list_update split: option.splits)
  ultimately show ?case using Cons.IH by (simp add: x)
qed simp

lemma add_counts_mine_none: "(\<And>opt n. (opt, n, True) \<notin> set xs) \<Longrightarrow> ta_mine (add_counts xs t) = ta_mine t"
proof (induction xs arbitrary: t)
  case (Cons x xs)
  obtain opt n where x: "x = (opt, n, False)" using Cons.prems by (cases x) force
  show ?case using Cons.IH [of "add_count opt n False t"] Cons.prems by (simp add: x add_count_def)
qed simp

lemma add_counts_mine_some:
  "counted_once xs \<Longrightarrow> (opt, n, True) \<in> set xs \<Longrightarrow> ta_mine (add_counts xs t) = (if isOptionIndex opt then opt else None)"
proof (induction xs arbitrary: t opt n)
  case (Cons x xs)
  obtain o1 n1 m1 where x: "x = (o1, n1, m1)" by (cases x) auto
  have c: "counted_once xs" using Cons.prems(1) by (auto simp: counted_once_def)
  show ?case
  proof (cases "\<exists>o2 n2. (o2, n2, True) \<in> set xs")
    case True
    then obtain o2 n2 where "(o2, n2, True) \<in> set xs" by blast
    moreover have "o2 = opt" using Cons.prems calculation unfolding counted_once_def by (meson list.set_intros(2))
    ultimately show ?thesis using Cons.IH [OF c] by (simp add: x)
  next
    case False
    then have "x = (opt, n, True)" using Cons.prems(2) by auto
    then show ?thesis using add_counts_mine_none [of xs] False by (simp add: add_count_def)
  qed
qed simp

definition tally_view :: "(int option \<times> nat \<times> bool) list \<Rightarrow> (nat \<Rightarrow> nat) \<times> nat \<times> int option set" where
  "tally_view xs = (\<lambda>i. \<Sum>(opt, n, _) \<leftarrow> xs. if opt = Some (int i) then n else 0, \<Sum>(_, n, _) \<leftarrow> xs. n, {opt. \<exists>n. (opt, n, True) \<in> set xs})"

lemma add_counts_cong:
  assumes "tally_view xs = tally_view ys" "counted_once xs" "counted_once ys"
  shows "add_counts xs t = add_counts ys t"
proof -
  have v: "(\<Sum>(opt, n, _) \<leftarrow> xs. if opt = Some (int i) then n else 0) = (\<Sum>(opt, n, _) \<leftarrow> ys. if opt = Some (int i) then n else 0)"
    "(\<Sum>(_, n, _) \<leftarrow> xs. n) = (\<Sum>(_, n, _) \<leftarrow> ys. n)"
    "(\<exists>n. (opt, n, True) \<in> set xs) \<longleftrightarrow> (\<exists>n. (opt, n, True) \<in> set ys)" for i opt
    using assms(1) unfolding tally_view_def by (simp_all add: fun_eq_iff set_eq_iff)
  have "ta_mine (add_counts xs t) = ta_mine (add_counts ys t)"
  proof (cases "\<exists>opt n. (opt, n, True) \<in> set xs")
    case True
    then obtain opt n m where "(opt, n, True) \<in> set xs" "(opt, m, True) \<in> set ys" using v(3) by blast
    then show ?thesis using add_counts_mine_some assms(2,3) by metis
  next
    case False
    then show ?thesis using v(3) add_counts_mine_none by metis
  qed
  moreover have "ta_counts (add_counts xs t) = ta_counts (add_counts ys t)"
    by (rule nth_equalityI) (simp_all add: add_counts_length add_counts_nth v(1))
  ultimately show ?thesis by (intro tally.equality) (simp_all add: add_counts_total v(2))
qed

lemma tally_view_mset: "mset xs = mset ys \<Longrightarrow> tally_view xs = tally_view ys"
proof -
  assume m: "mset xs = mset ys"
  then have "set xs = set ys" by (rule mset_eq_setD)
  moreover have "sum_list (map f xs) = sum_list (map f ys)" for f :: "_ \<Rightarrow> nat"
    using m by (metis mset_map sum_mset_sum_list)
  ultimately show ?thesis by (simp add: tally_view_def)
qed

text \<open>Grouping by a key and adding up the groups counts every row once.\<close>

lemma group_sum_set:
  assumes "finite K" "f ` set F \<subseteq> K"
  shows "(\<Sum>k\<in>K. if P k then length (filter (\<lambda>b. f b = k) F) else 0) = length (filter (\<lambda>b. P (f b)) F)"
  using assms(2)
proof (induction F)
  case (Cons a F)
  have "(\<Sum>k\<in>K. if P k then length (filter (\<lambda>b. f b = k) (a # F)) else 0) =
    (\<Sum>k\<in>K. (if k = f a then (if P (f a) then 1 else 0) else 0) + (if P k then length (filter (\<lambda>b. f b = k) F) else 0))"
    by (rule sum.cong) auto
  also have "\<dots> = (if P (f a) then 1 else 0) + length (filter (\<lambda>b. P (f b)) F)"
    using Cons assms(1) by (simp add: sum.distrib)
  finally show ?case by simp
qed (auto intro!: sum.neutral)

lemma group_sum:
  "(\<Sum>k \<leftarrow> remdups (map f F). if P k then length (filter (\<lambda>b. f b = k) F) else 0) = length (filter (\<lambda>b. P (f b)) F)"
  using group_sum_set [of "set (map f F)" f F P] by (simp add: sum_list_distinct_conv_sum_set)


section \<open>The statement against the reference\<close>

definition tables_ok :: "vote_tables \<Rightarrow> bool" where
  "tables_ok t = (distinct (map fst (vt_votes t)) \<and> distinct (map fst (vt_polls t)) \<and> distinct (map fst (vt_voters t)) \<and>
     list_all (\<lambda>(_, user). 0 < user) (vt_voters t))"

text \<open>The rows of a poll as the results query used to load them, each with its voter.\<close>

definition row_ballot :: "vote_tables \<Rightarrow> int \<times> int option \<Rightarrow> ballot" where
  "row_ballot t = (\<lambda>(v, opt). \<lparr>ba_id = v, ba_option = opt, ba_voter = map_of (vt_voters t) v\<rparr>)"

definition ballots_of :: "vote_tables \<Rightarrow> int \<Rightarrow> ballot list" where
  "ballots_of t p = map (row_ballot t) (filter (\<lambda>(v, _). map_of (vt_polls t) v = Some p) (vt_votes t))"

definition first_ballots :: "vote_tables \<Rightarrow> int \<Rightarrow> ballot list" where
  "first_ballots t p = filter (is_first (ballots_of t p)) (ballots_of t p)"

lemma filter_key: "distinct (map fst m) \<Longrightarrow> filter (\<lambda>(k, x). k = v \<and> Q x) m = (case map_of m v of None \<Rightarrow> [] | Some x \<Rightarrow> if Q x then [(v, x)] else [])"
proof (induction m)
  case (Cons a m)
  obtain k x where a: "a = (k, x)" by (cases a)
  have "map_of m v = None" if "k = v" using that Cons.prems a by (simp add: map_of_eq_None_iff)
  then show ?case using Cons a by auto
qed simp

lemma left_join_ok: "tables_ok t \<Longrightarrow> left_join t v = [map_of (vt_voters t) v]"
  using filter_key [of "vt_voters t" v "\<lambda>_. True"] by (auto simp: left_join_def tables_ok_def split: option.splits)

lemma ballots_ids: "tables_ok t \<Longrightarrow> distinct (map ba_id (ballots_of t p))"
  by (auto simp: tables_ok_def ballots_of_def row_ballot_def distinct_map comp_def case_prod_beta inj_on_def distinct_filter)

lemma mem_ballots: "b \<in> set (ballots_of t p) \<longleftrightarrow>
  (ba_id b, ba_option b) \<in> set (vt_votes t) \<and> map_of (vt_polls t) (ba_id b) = Some p \<and> ba_voter b = map_of (vt_voters t) (ba_id b)"
  by (cases b) (auto simp: ballots_of_def row_ballot_def image_iff)

lemma earlier_vote_iff:
  assumes "tables_ok t"
  shows "earlier_vote t p voter v \<longleftrightarrow> voter \<noteq> None \<and> (\<exists>b \<in> set (ballots_of t p). ba_voter b = voter \<and> ba_id b < v)"
proof -
  have p: "(v2, q) \<in> set (vt_polls t) \<longleftrightarrow> map_of (vt_polls t) v2 = Some q" for v2 q
    using assms by (simp add: tables_ok_def map_of_eq_Some_iff)
  have u: "(v2, q) \<in> set (vt_voters t) \<longleftrightarrow> map_of (vt_voters t) v2 = Some q" for v2 q
    using assms by (simp add: tables_ok_def map_of_eq_Some_iff)
  have "earlier_vote t p voter v \<longleftrightarrow>
    (\<exists>v2 opt u2. (v2, p) \<in> set (vt_polls t) \<and> (v2, opt) \<in> set (vt_votes t) \<and> (v2, u2) \<in> set (vt_voters t) \<and> voter = Some u2 \<and> v2 < v)"
    by (fastforce simp: earlier_vote_def list_ex_iff)
  also have "\<dots> \<longleftrightarrow> (\<exists>v2 opt u2. map_of (vt_polls t) v2 = Some p \<and> (v2, opt) \<in> set (vt_votes t) \<and>
      map_of (vt_voters t) v2 = Some u2 \<and> voter = Some u2 \<and> v2 < v)" by (simp only: p u)
  also have "\<dots> \<longleftrightarrow> voter \<noteq> None \<and> (\<exists>b \<in> set (ballots_of t p). ba_voter b = voter \<and> ba_id b < v)"
  proof (intro iffI; elim exE conjE bexE)
    fix v2 opt u2 assume "map_of (vt_polls t) v2 = Some p" "(v2, opt) \<in> set (vt_votes t)" "map_of (vt_voters t) v2 = Some u2" "voter = Some u2" "v2 < v"
    then show "voter \<noteq> None \<and> (\<exists>b \<in> set (ballots_of t p). ba_voter b = voter \<and> ba_id b < v)"
      by (intro conjI bexI [of _ "\<lparr>ba_id = v2, ba_option = opt, ba_voter = Some u2\<rparr>"]) (simp_all add: mem_ballots)
  qed (auto simp: mem_ballots)
  finally show ?thesis .
qed

lemma counted_rows_ok:
  assumes "tables_ok t"
  shows "counted_rows t ids = concat (map (\<lambda>(v, opt). case map_of (vt_polls t) v of None \<Rightarrow> []
      | Some p \<Rightarrow> if p \<in> set ids \<and> is_first (ballots_of t p) (row_ballot t (v, opt)) then [(p, opt, map_of (vt_voters t) v)] else []) (vt_votes t))"
proof -
  have first: "is_first (ballots_of t p) (row_ballot t (v, opt)) \<longleftrightarrow> \<not> earlier_vote t p (map_of (vt_voters t) v) v" for p v opt
    by (auto simp: earlier_vote_iff [OF assms] is_first_def row_ballot_def not_less)
  have d: "distinct (map fst (vt_polls t))" using assms by (simp add: tables_ok_def)
  show ?thesis unfolding counted_rows_def
    by (intro arg_cong [where f = concat] map_cong refl)
      (auto simp: left_join_ok [OF assms] first filter_key [OF d] split: option.splits)
qed

lemma counted_rows_poll:
  assumes "tables_ok t" "p \<in> set ids"
  shows "filter (\<lambda>(q, _). q = p) (counted_rows t ids) = map (\<lambda>b. (p, ba_option b, ba_voter b)) (first_ballots t p)"
proof -
  have "filter (\<lambda>(q, _). q = p) (concat (map (\<lambda>(v, opt). case map_of (vt_polls t) v of None \<Rightarrow> []
      | Some p \<Rightarrow> if p \<in> set ids \<and> is_first (ballots_of t p) (row_ballot t (v, opt)) then [(p, opt, map_of (vt_voters t) v)] else []) rows))
    = map (\<lambda>b. (p, ba_option b, ba_voter b)) (filter (is_first (ballots_of t p))
        (map (row_ballot t) (filter (\<lambda>(v, _). map_of (vt_polls t) v = Some p) rows)))" for rows
    by (induction rows) (auto simp: assms(2) row_ballot_def split: option.splits)
  then show ?thesis by (simp add: counted_rows_ok [OF assms(1)] first_ballots_def ballots_of_def)
qed


definition count_item :: "count_row \<Rightarrow> int option \<times> nat \<times> bool" where
  "count_item r = (cr_option r, cr_ballots r, 0 < cr_mine r)"

definition ballot_item :: "int option \<Rightarrow> ballot \<Rightarrow> int option \<times> nat \<times> bool" where
  "ballot_item caller b = (ba_option b, 1, caller \<noteq> None \<and> ba_voter b = caller)"

lemma tallyFromCounts_items: "tallyFromCounts rows n = add_counts (map count_item rows) (no_counts n)"
  by (simp add: tallyFromCounts_def add_counts_def count_item_def fold_map comp_def)

lemma tallyBallots_items: "tallyBallots rows n caller = add_counts (map (ballot_item caller) (countedBallots rows)) (no_counts n)"
  by (simp add: tallyBallots_def add_counts_def ballot_item_def fold_map comp_def)

text \<open>The groups of one poll, over the ballots that count.\<close>

definition option_group :: "int \<Rightarrow> int option \<Rightarrow> ballot list \<Rightarrow> int option \<Rightarrow> count_row" where
  "option_group p caller F opt = \<lparr>cr_poll = p, cr_option = opt, cr_ballots = length (filter (\<lambda>b. ba_option b = opt) F),
     cr_mine = length (filter (\<lambda>b. ba_option b = opt \<and> ba_voter b = Some (case caller of None \<Rightarrow> -1 | Some i \<Rightarrow> i)) F)\<rparr>"

lemma filter_remdups: "filter P (remdups xs) = remdups (filter P xs)"
  by (induction xs) auto

lemma remdups_map_inj: "inj_on f (set xs) \<Longrightarrow> remdups (map f xs) = map f (remdups xs)"
  by (induction xs) (auto simp: inj_on_def)

lemma ballotCounts_poll:
  assumes "tables_ok t" "p \<in> set ids"
  shows "filter (\<lambda>r. cr_poll r = p) (ballotCounts t ids caller) =
    map (option_group p caller (first_ballots t p)) (remdups (map ba_option (first_ballots t p)))"
proof -
  let ?rows = "counted_rows t ids" and ?F = "first_ballots t p"
  have rows: "length (filter (\<lambda>(q, o', x). q = p \<and> Q o' x) ?rows) = length (filter (\<lambda>b. Q (ba_option b) (ba_voter b)) ?F)" for Q
  proof -
    have "filter (\<lambda>(q, o', x). q = p \<and> Q o' x) ?rows = filter (\<lambda>(_, o', x). Q o' x) (filter (\<lambda>(q, _). q = p) ?rows)"
      by (simp add: case_prod_beta' conj_commute)
    then show ?thesis by (simp add: counted_rows_poll [OF assms] filter_map comp_def)
  qed
  have r1: "length (filter (\<lambda>x. fst x = p \<and> fst (snd x) = o1) ?rows) = length (filter (\<lambda>b. ba_option b = o1) ?F)" for o1
    using rows [of "\<lambda>o' _. o' = o1"] by (simp add: case_prod_beta')
  have r2: "length (filter (\<lambda>x. fst x = p \<and> fst (snd x) = o1 \<and> snd (snd x) = w) ?rows) = length (filter (\<lambda>b. ba_option b = o1 \<and> ba_voter b = w) ?F)" for o1 w
    using rows [of "\<lambda>o' x. o' = o1 \<and> x = w"] by (simp add: case_prod_beta')
  have "filter (\<lambda>(q, _). q = p) (map (\<lambda>(q, o', _). (q, o')) ?rows) = map (\<lambda>(q, o', _). (q, o')) (filter (\<lambda>(q, _). q = p) ?rows)"
    by (simp add: filter_map comp_def case_prod_beta')
  also have "\<dots> = map (\<lambda>b. (p, ba_option b)) ?F" by (simp add: counted_rows_poll [OF assms])
  finally have keys: "filter (\<lambda>(q, _). q = p) (remdups (map (\<lambda>(q, o', _). (q, o')) ?rows)) = map (Pair p) (remdups (map ba_option ?F))"
    using remdups_map_inj [of "Pair p" "map ba_option ?F"] by (simp add: filter_remdups comp_def inj_on_def)
  have "filter (\<lambda>r. cr_poll r = p) (map g ks) = map g (filter (\<lambda>(q, _). q = p) ks)"
    if "\<And>k. cr_poll (g k) = fst k" for g :: "int \<times> int option \<Rightarrow> count_row" and ks
    by (simp add: filter_map comp_def case_prod_beta' that)
  then show ?thesis unfolding ballotCounts_def Let_def
    by (simp add: case_prod_beta' keys [unfolded case_prod_beta'] option_group_def r1 r2)
qed


lemma first_ballots_one:
  "tables_ok t \<Longrightarrow> a \<in> set (first_ballots t p) \<Longrightarrow> b \<in> set (first_ballots t p) \<Longrightarrow> ba_voter a = Some v \<Longrightarrow> ba_voter b = Some v \<Longrightarrow> a = b"
  using first_unique [OF ballots_ids, of t a p b v] by (auto simp: first_ballots_def)

lemma first_ballots_voter: "tables_ok t \<Longrightarrow> b \<in> set (first_ballots t p) \<Longrightarrow> ba_voter b \<noteq> Some (-1)"
  by (auto simp: first_ballots_def mem_ballots tables_ok_def list_all_iff dest!: map_of_SomeD)

lemma groups_view:
  assumes "tables_ok t"
  shows "tally_view (map (count_item \<circ> option_group p caller (first_ballots t p)) (remdups (map ba_option (first_ballots t p)))) =
    tally_view (map (ballot_item caller) (first_ballots t p))" (is "tally_view ?gs = tally_view ?bs")
proof -
  let ?F = "first_ballots t p" and ?me = "Some (case caller of None \<Rightarrow> -1 | Some i \<Rightarrow> i)"
  have me: "ba_voter b = ?me \<longleftrightarrow> caller \<noteq> None \<and> ba_voter b = caller" if "b \<in> set ?F" for b
    using first_ballots_voter [OF assms that] by (cases caller) auto
  have "(\<Sum>(opt, n, _) \<leftarrow> ?gs. if opt = Some (int i) then n else 0) = (\<Sum>(opt, n, _) \<leftarrow> ?bs. if opt = Some (int i) then n else 0)" for i
  proof -
    have "(\<Sum>(opt, n, _) \<leftarrow> ?bs. if opt = Some (int i) then n else 0) = length (filter (\<lambda>b. ba_option b = Some (int i)) F)"
      if "?bs = map (ballot_item caller) F" for F
      unfolding that by (induction F) (auto simp: ballot_item_def)
    then show ?thesis using group_sum [of "\<lambda>o'. o' = Some (int i)" ba_option ?F]
      by (simp add: comp_def count_item_def option_group_def)
  qed
  moreover have "(\<Sum>(_, n, _) \<leftarrow> ?gs. n) = (\<Sum>(_, n, _) \<leftarrow> ?bs. n)"
  proof -
    have "(\<Sum>(_, n, _) \<leftarrow> map (ballot_item caller) F. n) = length F" for F
      by (induction F) (auto simp: ballot_item_def)
    then show ?thesis using group_sum [of "\<lambda>_. True" ba_option ?F] by (simp add: comp_def count_item_def option_group_def)
  qed
  moreover have "(\<exists>n. (opt, n, True) \<in> set ?gs) \<longleftrightarrow> (\<exists>n. (opt, n, True) \<in> set ?bs)" for opt
  proof -
    have "(\<exists>n. (opt, n, True) \<in> set ?gs) \<longleftrightarrow> (\<exists>b \<in> set ?F. ba_option b = opt \<and> ba_voter b = ?me)"
      by (auto simp: count_item_def option_group_def image_iff filter_empty_conv)
    also have "\<dots> \<longleftrightarrow> (\<exists>n. (opt, n, True) \<in> set ?bs)" using me by (auto simp: ballot_item_def image_iff)
    finally show ?thesis .
  qed
  ultimately show ?thesis by (simp add: tally_view_def)
qed

lemma ballot_items_once: "tables_ok t \<Longrightarrow> counted_once (map (ballot_item caller) (first_ballots t p))"
  using first_ballots_one [of t _ p] by (auto simp: counted_once_def ballot_item_def) metis

lemma view_once: "tally_view xs = tally_view ys \<Longrightarrow> counted_once ys \<Longrightarrow> counted_once xs"
proof -
  assume v: "tally_view xs = tally_view ys" "counted_once ys"
  then have "{opt. \<exists>n. (opt, n, True) \<in> set xs} = {opt. \<exists>n. (opt, n, True) \<in> set ys}" by (simp add: tally_view_def)
  then show ?thesis using v(2) unfolding counted_once_def by blast
qed

lemma statement_tally:
  assumes "tables_ok t" "mset rows = mset (map (option_group p caller (first_ballots t p)) (remdups (map ba_option (first_ballots t p))))"
  shows "tallyFromCounts rows n = tallyBallots (ballots_of t p) n caller"
proof -
  have "mset (map count_item rows) = mset (map (count_item \<circ> option_group p caller (first_ballots t p)) (remdups (map ba_option (first_ballots t p))))"
    using assms(2) by (metis map_map mset_map)
  then have g: "tally_view (map count_item rows) = tally_view (map (ballot_item caller) (first_ballots t p))"
    using tally_view_mset groups_view [OF assms(1)] by metis
  have "mset (countedBallots (ballots_of t p)) = mset (first_ballots t p)"
    using counted_mset ballots_ids [OF assms(1)] by (simp add: first_ballots_def)
  then have b: "tally_view (map (ballot_item caller) (countedBallots (ballots_of t p))) = tally_view (map (ballot_item caller) (first_ballots t p))"
    by (intro tally_view_mset) simp
  show ?thesis unfolding tallyFromCounts_items tallyBallots_items
    using add_counts_cong g b view_once [OF g] view_once [OF b] ballot_items_once [OF assms(1)] by metis
qed

lemma many_tallies:
  "distinct (map fst polls) \<Longrightarrow>
   map_of (fold (\<lambda>(p, n) m. AList.update p (f p n) m) polls m0) q = (case map_of polls q of None \<Rightarrow> map_of m0 q | Some n \<Rightarrow> Some (f q n))"
proof (induction polls arbitrary: m0)
  case (Cons a polls)
  obtain p n where a: "a = (p, n)" by (cases a)
  have "map_of polls p = None" using Cons.prems a by (simp add: map_of_eq_None_iff)
  then show ?case using Cons a by (auto simp: jmap_simps split: option.splits)
qed simp

text \<open>C12: Counting in the database, for one poll or for up to fifty at once and whatever order the groups come back in,
  gives the tally of the loaded rows, duplicate ballots and ballots of deleted accounts included.\<close>

theorem poll_sql_counts:
  assumes "tables_ok t" "\<And>rs. mset (order rs) = mset rs" "distinct (map fst polls)" "polls \<noteq> []" "length polls \<le> 50" "(p, n) \<in> set polls"
  shows "countPollBallots order t p caller n = tallyBallots (ballots_of t p) n caller \<and>
    (case countPollBallotsMany order t polls caller of None \<Rightarrow> False | Some m \<Rightarrow> map_of m p = Some (tallyBallots (ballots_of t p) n caller))"
proof -
  have some: "mset (filter (\<lambda>r. cr_poll r = p) (order (ballotCounts t ids caller))) =
      mset (map (option_group p caller (first_ballots t p)) (remdups (map ba_option (first_ballots t p))))" if "p \<in> set ids" for ids
    by (simp only: mset_filter assms(2) flip: ballotCounts_poll [OF assms(1) that])
  have one: "filter (\<lambda>r. cr_poll r = p) (order (ballotCounts t [p] caller)) = order (ballotCounts t [p] caller)"
  proof (rule filter_True, rule ballI)
    fix r assume "r \<in> set (order (ballotCounts t [p] caller))"
    then have "r \<in> set (ballotCounts t [p] caller)" using assms(2) mset_eq_setD by blast
    then show "cr_poll r = p" by (auto simp: ballotCounts_def Let_def counted_rows_def)
  qed
  have "countPollBallots order t p caller n = tallyBallots (ballots_of t p) n caller"
    unfolding countPollBallots_def by (rule statement_tally [OF assms(1)]) (use some [of "[p]"] one in simp)
  moreover have "map_of polls p = Some n" using assms(3,6) by simp
  moreover have "length (remdups (map fst polls)) \<le> 50" using assms(3,5) by (metis distinct_remdups_id length_map)
  moreover have "p \<in> set (remdups (map fst polls))" using assms(6) by force
  ultimately show ?thesis using assms(4,5) statement_tally [OF assms(1) some]
    by (simp add: countPollBallotsMany_def Let_def MAX_BATCHED_POLLS_def many_tallies [OF assms(3)])
qed


lemma poll_sql_counts_witness:
  "tables_ok \<lparr>vt_votes = [(1, Some 0), (2, Some 1), (3, Some 1)], vt_polls = [(1, 7), (2, 7), (3, 7)], vt_voters = [(1, 5), (2, 5)]\<rparr> \<and>
   countPollBallots rev \<lparr>vt_votes = [(1, Some 0), (2, Some 1), (3, Some 1)], vt_polls = [(1, 7), (2, 7), (3, 7)], vt_voters = [(1, 5), (2, 5)]\<rparr> 7 (Some 5) 2 =
     \<lparr>ta_counts = [1, 1], ta_total = 2, ta_mine = Some 0\<rparr>"
proof -
  let ?t = "\<lparr>vt_votes = [(1, Some 0), (2, Some 1), (3, Some 1)], vt_polls = [(1, 7), (2, 7), (3, 7)], vt_voters = [(1, 5), (2, 5)]\<rparr>"
  have ok: "tables_ok ?t" by (simp add: tables_ok_def)
  have "countPollBallots rev ?t 7 (Some 5) 2 = tallyBallots (ballots_of ?t 7) 2 (Some 5)"
    using poll_sql_counts [of ?t rev "[(7, 2)]" 7 2 "Some 5"] ok by simp
  also have "\<dots> = \<lparr>ta_counts = [1, 1], ta_total = 2, ta_mine = Some 0\<rparr>" by code_simp
  finally show ?thesis using ok by simp
qed

section \<open>Casting a vote\<close>

definition all_below :: "int \<Rightarrow> vote_tables \<Rightarrow> bool" where
  "all_below i t = (list_all (\<lambda>(v, _). v < i) (vt_votes t) \<and> list_all (\<lambda>(v, _). v < i) (vt_polls t) \<and> list_all (\<lambda>(v, _). v < i) (vt_voters t))"

lemma below_new:
  assumes "all_below i t"
  shows "i \<notin> fst ` set (vt_votes t)" "i \<notin> fst ` set (vt_polls t)" "i \<notin> fst ` set (vt_voters t)"
  using assms by (force simp: all_below_def list_all_iff)+

lemma insert_ok: "tables_ok t \<Longrightarrow> all_below i t \<Longrightarrow> 0 < u \<Longrightarrow> tables_ok (insert_vote i p u opt t)"
  using below_new [of i t] by (auto simp: tables_ok_def insert_vote_def)

lemma ballots_insert:
  assumes "all_below i t"
  shows "ballots_of (insert_vote i p u opt t) q =
    ballots_of t q @ (if q = p then [\<lparr>ba_id = i, ba_option = Some opt, ba_voter = Some u\<rparr>] else [])"
proof -
  have ne: "i \<noteq> v" if "(v, o') \<in> set (vt_votes t)" for v o' using below_new [OF assms] that by force
  have n: "map_of (vt_polls t) i = None" "map_of (vt_voters t) i = None" using below_new [OF assms] by (simp_all add: map_of_eq_None_iff)
  have m: "map_of (xs @ [(i, y)]) v = map_of xs v" if "v \<noteq> i" for xs :: "(int \<times> int) list" and y v
    using that by (simp add: map_add_def split: option.splits)
  have "filter (\<lambda>(v, _). map_of (vt_polls t @ [(i, p)]) v = Some q) (vt_votes t) = filter (\<lambda>(v, _). map_of (vt_polls t) v = Some q) (vt_votes t)"
    using ne m by (intro filter_cong refl) force
  moreover have "map (row_ballot (insert_vote i p u opt t)) (filter Q (vt_votes t)) = map (row_ballot t) (filter Q (vt_votes t))" for Q
    using ne m by (intro map_cong refl) (force simp: row_ballot_def insert_vote_def)
  moreover have "row_ballot (insert_vote i p u opt t) (i, Some opt) = \<lparr>ba_id = i, ba_option = Some opt, ba_voter = Some u\<rparr>"
    using n by (simp add: row_ballot_def insert_vote_def map_add_def)
  moreover have "([i \<mapsto> p] ++ map_of (vt_polls t)) i = Some p" using n by (simp add: map_add_def)
  ultimately show ?thesis using n by (auto simp: ballots_of_def insert_vote_def)
qed

lemma votes_of_iff:
  assumes "tables_ok t"
  shows "set (votes_of t p u) = ba_id ` {b \<in> set (ballots_of t p). ba_voter b = Some u}"
proof -
  have "(v, q) \<in> set (vt_polls t) \<longleftrightarrow> map_of (vt_polls t) v = Some q" "(v, q) \<in> set (vt_voters t) \<longleftrightarrow> map_of (vt_voters t) v = Some q" for v q
    using assms by (simp_all add: tables_ok_def map_of_eq_Some_iff)
  then show ?thesis by (force simp: votes_of_def ballots_of_def row_ballot_def image_iff)
qed

lemma votes_distinct: "tables_ok t \<Longrightarrow> distinct (votes_of t p u)"
  by (simp add: votes_of_def tables_ok_def distinct_map_filter)


lemma ballots_below: "all_below i t \<Longrightarrow> b \<in> set (ballots_of t p) \<Longrightarrow> ba_id b < i"
  by (auto simp: mem_ballots all_below_def list_all_iff)

lemma voted_tally:
  assumes "tables_ok t" "all_below i t" "0 < u" "votes_of t p u = []"
  shows "tallyBallots (ballots_of (insert_vote i p u opt t) p) n None = add_count (Some opt) 1 False (tallyBallots (ballots_of t p) n None)"
proof -
  let ?t = "insert_vote i p u opt t" and ?b = "\<lparr>ba_id = i, ba_option = Some opt, ba_voter = Some u\<rparr>"
  have rows: "ballots_of ?t p = ballots_of t p @ [?b]" by (simp add: ballots_insert [OF assms(2)])
  have u: "ba_voter b \<noteq> Some u" if "b \<in> set (ballots_of t p)" for b using votes_of_iff [OF assms(1), of p u] assms(4) that by auto
  have ok: "tables_ok ?t" by (rule insert_ok [OF assms(1-3)])
  have "is_first (ballots_of ?t p) b \<longleftrightarrow> is_first (ballots_of t p) b" if "b \<in> set (ballots_of t p)" for b
    using u [OF that] by (auto simp: rows is_first_def)
  moreover have "is_first (ballots_of ?t p) ?b" using u by (auto simp: rows is_first_def)
  ultimately have "first_ballots ?t p = first_ballots t p @ [?b]" by (simp add: first_ballots_def rows cong: filter_cong)
  moreover have "mset (countedBallots (ballots_of s p)) = mset (first_ballots s p)" if "tables_ok s" for s
    using counted_mset ballots_ids [OF that] by (simp add: first_ballots_def)
  ultimately have "mset (countedBallots (ballots_of ?t p)) = mset (countedBallots (ballots_of t p) @ [?b])"
    using ok assms(1) by simp
  then have "tally_view (map (ballot_item None) (countedBallots (ballots_of ?t p))) = tally_view (map (ballot_item None) (countedBallots (ballots_of t p) @ [?b]))"
    by (intro tally_view_mset) (metis mset_map)
  moreover have "counted_once (map (ballot_item None) xs)" for xs by (auto simp: counted_once_def ballot_item_def)
  ultimately have "tallyBallots (ballots_of ?t p) n None = add_counts (map (ballot_item None) (countedBallots (ballots_of t p) @ [?b])) (no_counts n)"
    unfolding tallyBallots_items by (intro add_counts_cong)
  then show ?thesis by (simp add: tallyBallots_items ballot_item_def) (simp add: add_counts_def)
qed

lemma distinct_single: "distinct xs \<Longrightarrow> set xs = {i} \<Longrightarrow> xs = [i]"
  by (cases xs; cases "tl xs") auto

lemma voted_once:
  assumes "tables_ok t" "all_below i t" "0 < u" "votes_of t p u = []"
  shows "votes_of (insert_vote i p u opt t) p u = [i]"
proof -
  have "set (votes_of (insert_vote i p u opt t) p u) = {i}"
    using votes_of_iff [OF insert_ok [OF assms(1-3)], of p opt p u] votes_of_iff [OF assms(1), of p u] assms(4)
    by (auto simp: ballots_insert [OF assms(2)] intro!: image_eqI [of i ba_id "\<lparr>ba_id = i, ba_option = Some opt, ba_voter = Some u\<rparr>"])
  moreover have "distinct (votes_of (insert_vote i p u opt t) p u)" by (rule votes_distinct [OF insert_ok [OF assms(1-3)]])
  ultimately show ?thesis by (intro distinct_single)
qed

lemma cast_cases:
  assumes "tables_ok t" "all_below i t" "0 < u"
  shows "(\<exists>o1. castVote dparse again viewer u k shown now i t = (o1, t) \<and> (\<forall>j. o1 \<noteq> Voted j)) \<or>
    (\<exists>p. again = Some p \<and> canVoteOnPoll p (Some viewer) \<and> k < int (length (po_options p)) \<and> \<not> isPollClosed dparse (po_closesAt p) now \<and>
      \<not> po_votersRemoved p \<and> votes_of t (po_id p) u = [] \<and>
      castVote dparse again viewer u k shown now i t = (Voted i, insert_vote i (po_id p) u k t))"
proof (cases again)
  case (Some p)
  show ?thesis
  proof (cases "votes_of t (po_id p) u = []")
    case True
    then have "votes_of (insert_vote i (po_id p) u k t) (po_id p) u = [i]" by (rule voted_once [OF assms])
    then show ?thesis using True by (auto simp: Some castVote_def Let_def split: js.splits)
  qed (auto simp: Some castVote_def)
qed (simp add: castVote_def)

text \<open>C13: A vote that is accepted was cast by a caller who may vote on the poll as it is under the lock, while it is open and for one of
  its options; it is that voter's only vote on the poll, raises the count of its option by one and touches no other poll. A
  vote that is refused changes nothing.\<close>

theorem one_vote_counted:
  assumes "tables_ok t" "all_below newId t" "0 < u"
  shows "case vote dparse (Some (u, viewer)) (Some k) shown seen again now newId c t of (reply, c', t') \<Rightarrow>
    tables_ok t' \<and>
    (case reply of
       VoteReply (Voted i) \<Rightarrow> i = newId \<and> 0 \<le> k \<and>
         (\<exists>p. again = Some p \<and> canVoteOnPoll p (Some viewer) \<and> k < int (length (po_options p)) \<and> \<not> isPollClosed dparse (po_closesAt p) now \<and>
           \<not> po_votersRemoved p \<and> votes_of t (po_id p) u = [] \<and> votes_of t' (po_id p) u = [newId] \<and>
           tallyBallots (ballots_of t' (po_id p)) n None = add_count (Some k) 1 False (tallyBallots (ballots_of t (po_id p)) n None) \<and>
           (q = po_id p \<or> ballots_of t' q = ballots_of t q))
     | _ \<Rightarrow> t' = t)"
proof (cases seen)
  case (Some first)
  let ?same = "case again of None \<Rightarrow> None | Some p \<Rightarrow> if po_documentId p = po_documentId first then Some p else None"
  show ?thesis
  proof (cases "0 \<le> k \<and> canSeePoll first (Some viewer)")
    case True
    from cast_cases [OF assms, of dparse ?same viewer k shown now] show ?thesis
    proof (elim disjE exE conjE)
      fix o1 assume "castVote dparse ?same viewer u k shown now newId t = (o1, t)" "\<forall>j. o1 \<noteq> Voted j"
      then show ?thesis using True assms(1) by (cases o1) (simp_all add: vote_def Some isOptionIndex_def lock_document)
    next
      fix p assume p: "?same = Some p" "canVoteOnPoll p (Some viewer)" "k < int (length (po_options p))"
        "\<not> isPollClosed dparse (po_closesAt p) now" "\<not> po_votersRemoved p" "votes_of t (po_id p) u = []"
        "castVote dparse ?same viewer u k shown now newId t = (Voted newId, insert_vote newId (po_id p) u k t)"
      have "again = Some p" using p(1) by (auto split: option.splits if_splits)
      then show ?thesis using True p voted_tally [OF assms p(6)] voted_once [OF assms p(6)] insert_ok [OF assms]
        by (auto simp: vote_def Some isOptionIndex_def lock_document ballots_insert [OF assms(2)])
    qed
  qed (use assms(1) in \<open>auto simp: vote_def Some isOptionIndex_def\<close>)
qed (use assms(1) in \<open>simp add: vote_def\<close>)


lemma one_vote_counted_witness:
  "let p = \<lparr>po_id = 7, po_documentId = ''d'', po_audience = Some ''all'', po_departments = [], po_visibleToGuests = JBool False,
        po_guestsCanVote = JBool False, po_options = [JStr ''yes'', JStr ''no''], po_closesAt = None, po_votersRemoved = False\<rparr>;
      t = \<lparr>vt_votes = [(1, Some 0)], vt_polls = [(1, 7)], vt_voters = [(1, 5)]\<rparr>;
      v = \<lparr>vw_roleType = Some ''authenticated'', vw_department = None\<rparr> in
   case vote (\<lambda>_. None) (Some (6, v)) (Some 1) (JStr ''no'') (Some p) (Some p) 0 2 \<lparr>c_versions = [], c_rows = \<lambda>_. [()]\<rparr> t of (reply, c', t') \<Rightarrow>
     reply = VoteReply (Voted 2) \<and> tables_ok t' \<and> tallyBallots (ballots_of t' 7) 2 None = \<lparr>ta_counts = [1, 1], ta_total = 2, ta_mine = None\<rparr>"
proof -
  let ?p = "\<lparr>po_id = 7, po_documentId = ''d'', po_audience = Some ''all'', po_departments = [], po_visibleToGuests = JBool False,
        po_guestsCanVote = JBool False, po_options = [JStr ''yes'', JStr ''no''], po_closesAt = None, po_votersRemoved = False\<rparr>"
  let ?t = "\<lparr>vt_votes = [(1, Some 0)], vt_polls = [(1, 7)], vt_voters = [(1, 5)]\<rparr> :: vote_tables"
  let ?v = "\<lparr>vw_roleType = Some ''authenticated'', vw_department = None\<rparr>"
  have "fst (vote (\<lambda>_. None) (Some (6, ?v)) (Some 1) (JStr ''no'') (Some ?p) (Some ?p) 0 2 \<lparr>c_versions = [], c_rows = \<lambda>_. [()]\<rparr> ?t) = VoteReply (Voted 2)"
    by code_simp
  moreover have "tallyBallots (ballots_of ?t 7) 2 None = \<lparr>ta_counts = [1, 0], ta_total = 1, ta_mine = None\<rparr>" by code_simp
  ultimately show ?thesis
    using one_vote_counted [where t = ?t and newId = 2 and u = 6 and dparse = "\<lambda>_. None" and viewer = ?v and k = 1 and shown = "JStr ''no''"
      and seen = "Some ?p" and again = "Some ?p" and now = 0 and c = "\<lparr>c_versions = [], c_rows = \<lambda>_. [()]\<rparr>" and n = 2 and q = 7]
    by (auto simp: tables_ok_def all_below_def Let_def add_count_def isOptionIndex_def)
qed

end
