(* ===== verification/CappedStore.thy ===== *)
theory CappedStore imports Prelude begin

text \<open>
  Process-local stores of the services: a JavaScript \<open>Map\<close> used as a queue of keys, oldest first, whose
  size is bounded by evicting. The interface \<open>capped_store\<close> says what a service relies on; the limiters
  and the scheduler interpret it.
\<close>

section \<open>Insertion order\<close>

text \<open>\<open>store.delete(key); store.set(key, value)\<close>.\<close>

definition touch :: "'k \<Rightarrow> 'v \<Rightarrow> ('k, 'v) jmap \<Rightarrow> ('k, 'v) jmap" where
  "touch k v m = AList.update k v (AList.delete k m)"

text \<open>\<open>while (store.size > limit) store.delete(store.keys().next().value)\<close>.\<close>

function drop_oldest :: "nat \<Rightarrow> ('k, 'v) jmap \<Rightarrow> ('k, 'v) jmap" where
  "drop_oldest limit m = (if length m > limit then drop_oldest limit (AList.delete (fst (hd m)) m) else m)"
  by pat_completeness auto
termination
  by (relation "measure (\<lambda>(_, m). length m)") (auto intro!: length_delete_less imageI hd_in_set)

declare drop_oldest.simps [simp del]

lemma not_in_delete [simp]: "k \<notin> fst ` set (AList.delete k m)"
  by (rule AList.delete_notin_dom)

lemma touch_append: "touch k v m = AList.delete k m @ [(k, v)]"
  by (simp add: touch_def update_new)

lemma jmap_ok_touch [simp]: "jmap_ok m \<Longrightarrow> jmap_ok (touch k v m)"
  by (simp add: touch_def)

lemma map_of_touch [jmap_simps]: "map_of (touch k v m) = (map_of m)(k \<mapsto> v)"
  by (simp add: touch_def jmap_simps)

lemma length_touch_le: "length (touch k v m) \<le> Suc (length m)"
  using AList.length_delete_le [of k m] by (simp add: touch_append)

lemma delete_head: "jmap_ok ((k, v) # m) \<Longrightarrow> AList.delete k ((k, v) # m) = m"
  by simp

lemma drop_oldest_drop: "jmap_ok m \<Longrightarrow> drop_oldest limit m = drop (length m - limit) m"
proof (induction "length m" arbitrary: m)
  case (Suc n)
  then obtain k v m' where m: "m = (k, v) # m'" by (cases m) auto
  have "length m' - limit < length m - limit" if "limit < length m" using that by (simp add: m)
  then show ?case using Suc.hyps(1) [of m'] Suc.prems Suc.hyps(2) delete_head [of k v m']
    by (subst drop_oldest.simps) (auto simp: m Suc_diff_le)
qed (simp add: drop_oldest.simps)

lemma map_of_drop: "jmap_ok m \<Longrightarrow> map_of (drop n m) k = Some v \<Longrightarrow> map_of m k = Some v"
  by (metis append_take_drop_id jmap_ok_def jmap_ok_map_of map_of_SomeD in_set_dropD)

section \<open>The interface\<close>

text \<open>What a service relies on when it stores a value: the map stays a map and within its bound, the value is there,
  and of the other keys at worst some are gone.\<close>

locale capped_store =
  fixes put :: "'k \<Rightarrow> 'v \<Rightarrow> ('k, 'v) jmap \<Rightarrow> ('k, 'v) jmap"
    and cap :: nat
  assumes put_ok: "jmap_ok m \<Longrightarrow> jmap_ok (put k v m)"
    and put_length: "jmap_ok m \<Longrightarrow> length m \<le> cap \<Longrightarrow> length (put k v m) \<le> cap"
    and put_lookup: "jmap_ok m \<Longrightarrow> length m \<le> cap \<Longrightarrow> map_of (put k v m) k = Some v"
    and put_other: "jmap_ok m \<Longrightarrow> length m \<le> cap \<Longrightarrow> k' \<noteq> k \<Longrightarrow> map_of (put k v m) k' = Some w \<Longrightarrow> map_of m k' = Some w"
    and put_room: "jmap_ok m \<Longrightarrow> length m < cap \<Longrightarrow> map_of (put k v m) = (map_of m)(k \<mapsto> v)"

definition store_ok :: "nat \<Rightarrow> ('k, 'v) jmap \<Rightarrow> bool" where
  "store_ok cap m = (jmap_ok m \<and> length m \<le> cap)"

lemma store_ok_Nil [simp]: "store_ok cap []"
  by (simp add: store_ok_def)

lemma store_ok_delete [simp]: "store_ok cap m \<Longrightarrow> store_ok cap (AList.delete k m)"
  using AList.length_delete_le [of k m] by (simp add: store_ok_def)

lemma store_ok_update: "store_ok cap m \<Longrightarrow> k \<in> fst ` set m \<Longrightarrow> store_ok cap (AList.update k v m)"
  by (simp add: store_ok_def length_update_old)

context capped_store begin

lemma ok: "store_ok cap m \<Longrightarrow> store_ok cap (put k v m)"
  by (simp add: store_ok_def put_ok put_length)

lemma lookup: "store_ok cap m \<Longrightarrow> map_of (put k v m) k = Some v"
  by (simp add: store_ok_def put_lookup)

lemma other: "store_ok cap m \<Longrightarrow> k' \<noteq> k \<Longrightarrow> map_of (put k v m) k' \<in> {None, map_of m k'}"
  by (cases "map_of (put k v m) k'") (auto simp: store_ok_def dest: put_other)

text \<open>A value that every stored value has is kept by storing another one that has it.\<close>

lemma all_values:
  assumes "store_ok cap m" "P v" "\<And>k' w. map_of m k' = Some w \<Longrightarrow> P w" "map_of (put k v m) k' = Some w"
  shows "P w"
  using assms lookup [OF assms(1), of k v] other [OF assms(1), of k' k v] by (cases "k' = k") auto

end

section \<open>Evicting the oldest\<close>

text \<open>\<open>touch\<close> and then \<open>drop_oldest\<close> is such a store.\<close>

definition put_recent :: "nat \<Rightarrow> 'k \<Rightarrow> 'v \<Rightarrow> ('k, 'v) jmap \<Rightarrow> ('k, 'v) jmap" where
  "put_recent limit k v m = drop_oldest limit (touch k v m)"

lemma put_recent_eq: "jmap_ok m \<Longrightarrow> put_recent limit k v m = drop (length (touch k v m) - limit) (touch k v m)"
  by (simp add: put_recent_def drop_oldest_drop)

lemma drop_last: "xs \<noteq> [] \<Longrightarrow> 0 < limit \<Longrightarrow> length xs \<le> Suc limit \<Longrightarrow> last xs \<in> set (drop (length xs - limit) xs)"
  by (metis Suc_diff_le diff_less drop_eq_Nil last_drop last_in_set leD length_greater_0_conv)

lemma jmap_ok_drop: "jmap_ok m \<Longrightarrow> jmap_ok (drop n m)"
  by (simp add: jmap_ok_def flip: drop_map)

lemma capped_recent: "0 < limit \<Longrightarrow> capped_store (put_recent limit) limit"
proof
  fix m :: "('k, 'v) jmap" and k v k' w
  assume l: "0 < limit" and m: "jmap_ok m"
  note eq = put_recent_eq [OF m, of limit k v]
  show "jmap_ok (put_recent limit k v m)" by (simp add: eq jmap_ok_drop m)
  show "length (put_recent limit k v m) \<le> limit" if "length m \<le> limit" by (simp add: eq)
  show "map_of (put_recent limit k v m) k = Some v" if "length m \<le> limit"
  proof -
    have "last (touch k v m) \<in> set (drop (length (touch k v m) - limit) (touch k v m))"
      using l that length_touch_le [of k v m] by (intro drop_last) (auto simp: touch_append)
    moreover have "last (touch k v m) = (k, v)" by (simp add: touch_append)
    ultimately show ?thesis by (simp add: eq m jmap_ok_map_of jmap_ok_drop)
  qed
  show "map_of m k' = Some w" if "length m \<le> limit" "k' \<noteq> k" "map_of (put_recent limit k v m) k' = Some w"
    using map_of_drop [of "touch k v m"] that m by (force simp: eq jmap_simps)
  show "map_of (put_recent limit k v m) = (map_of m)(k \<mapsto> v)" if "length m < limit"
    using that length_touch_le [of k v m] by (simp add: eq jmap_simps)
qed

end
