(* ===== verification/RateLimit.thy ===== *)
theory RateLimit imports CappedStore begin

text \<open>
  The login limiter of the web app: \<open>apps/web/src/lib/login-rate-limit.ts\<close>. An \<open>Attempt\<close> object that two
  places share is an attempt with an identity; the two Maps keep their insertion order. Every operation is
  synchronous, so a run is a sequence of them; the clock never runs backwards.
\<close>

section \<open>Keys\<close>

definition IP_WINDOW_MS :: int where "IP_WINDOW_MS = 60000"
definition IP_MAX_FAILURES :: nat where "IP_MAX_FAILURES = 10"
definition IDENTIFIER_WINDOW_MS :: int where "IDENTIFIER_WINDOW_MS = 15 * 60000"
definition IDENTIFIER_MAX_FAILURES :: nat where "IDENTIFIER_MAX_FAILURES = 10"
definition MAX_TRACKED_KEYS :: nat where "MAX_TRACKED_KEYS = 10000"
definition EVICTION_SCAN_LIMIT :: nat where "EVICTION_SCAN_LIMIT = 100"

definition normalizeIdentifier :: "string \<Rightarrow> string" where
  "normalizeIdentifier identifier = to_lower (trim identifier)"

definition clientIpFrom :: "(string \<Rightarrow> string option) \<Rightarrow> string" where
  "clientIpFrom headers =
     (let forwarded = map_option (\<lambda>h. trim (hd (split_on CHR '','' h))) (headers ''x-forwarded-for'');
          realIp = map_option trim (headers ''x-real-ip'') in
      case forwarded of
        Some (c # cs) \<Rightarrow> c # cs
      | _ \<Rightarrow> (case realIp of Some (c # cs) \<Rightarrow> c # cs | _ \<Rightarrow> ''unknown''))"

text \<open>\<open>s.split(sep)\<close> up to the first separator: the part before it and, if there is one, what follows.\<close>

fun cut_at :: "string \<Rightarrow> string \<Rightarrow> string \<times> string option" where
  "cut_at sep [] = ([], None)"
| "cut_at sep (c # cs) =
     (if starts_with sep (c # cs) then ([], Some (drop (length sep) (c # cs)))
      else case cut_at sep cs of (a, r) \<Rightarrow> (c # a, r))"

definition ip_parts :: "string \<Rightarrow> string list" where
  "ip_parts part = (if part = [] then [] else split_on CHR '':'' part)"

definition rateLimitKeyForIp :: "string \<Rightarrow> string" where
  "rateLimitKeyForIp ip =
     (if CHR '':'' \<notin> set ip then ip
      else if CHR ''.'' \<in> set ip then last (split_on CHR '':'' ip)
      else
        let (head, rest) = cut_at ''::'' ip;
            tail = (case rest of None \<Rightarrow> [] | Some r \<Rightarrow> fst (cut_at ''::'' r));
            headParts = ip_parts head; tailParts = ip_parts tail;
            groups = (if contains ''::'' ip
              then headParts @ replicate (8 - length headParts - length tailParts) ''0'' @ tailParts else headParts) in
        join '':'' (map (\<lambda>part. pad_start 4 (to_lower part)) (take 4 groups)))"

definition maskIdentifier :: "string \<Rightarrow> string" where
  "maskIdentifier identifier =
     (let normalized = normalizeIdentifier identifier;
          local = takeWhile (\<lambda>c. c \<noteq> CHR ''@'') normalized;
          domain = dropWhile (\<lambda>c. c \<noteq> CHR ''@'') normalized in
      take 2 local @ ''***'' @ domain)"

section \<open>The store\<close>

record attempt =
  at_id :: nat
  at_time :: int
  at_pending :: bool

type_synonym buckets = "(string, attempt list) jmap"

definition live_of :: "int \<Rightarrow> int \<Rightarrow> attempt list \<Rightarrow> attempt list" where
  "live_of windowMs now xs = filter (\<lambda>a. now - at_time a < windowMs) xs"

definition liveAttempts :: "buckets \<Rightarrow> string \<Rightarrow> int \<Rightarrow> int \<Rightarrow> attempt list \<times> buckets" where
  "liveAttempts store key windowMs now =
     (case map_of store key of
        None \<Rightarrow> ([], store)
      | Some attempts \<Rightarrow>
        let live = live_of windowMs now attempts in
        (live, if live = [] then AList.delete key store
               else if length live \<noteq> length attempts then AList.update key live store else store))"

text \<open>The first of the probed buckets that is not blocked.\<close>

fun evict_scan :: "nat \<Rightarrow> int \<Rightarrow> nat \<Rightarrow> int \<Rightarrow> buckets \<Rightarrow> string option" where
  "evict_scan scanned windowMs maxFailures now [] = None"
| "evict_scan scanned windowMs maxFailures now ((key, attempts) # store) =
     (if scanned \<ge> EVICTION_SCAN_LIMIT then None
      else if length (live_of windowMs now attempts) < maxFailures then Some key
      else evict_scan (Suc scanned) windowMs maxFailures now store)"

definition evictOne :: "buckets \<Rightarrow> int \<Rightarrow> nat \<Rightarrow> int \<Rightarrow> buckets" where
  "evictOne store windowMs maxFailures now =
     (case evict_scan 0 windowMs maxFailures now store of
        Some key \<Rightarrow> AList.delete key store
      | None \<Rightarrow> (case store of [] \<Rightarrow> [] | (oldest, _) # _ \<Rightarrow> AList.delete oldest store))"

definition put_bucket :: "int \<Rightarrow> nat \<Rightarrow> int \<Rightarrow> string \<Rightarrow> attempt list \<Rightarrow> buckets \<Rightarrow> buckets" where
  "put_bucket windowMs maxFailures now key live store =
     (let s = AList.delete key store in
      AList.update key live (if length s \<ge> MAX_TRACKED_KEYS then evictOne s windowMs maxFailures now else s))"

definition append_attempt :: "buckets \<Rightarrow> string \<Rightarrow> attempt \<Rightarrow> int \<Rightarrow> nat \<Rightarrow> int \<Rightarrow> buckets" where
  "append_attempt store key attempt windowMs maxFailures now =
     (let (live, s) = liveAttempts store key windowMs now in put_bucket windowMs maxFailures now key (live @ [attempt]) s)"

text \<open>\<open>fresh\<close>: the identity of the attempt object \<open>confirm\<close> makes when the reservation is gone.\<close>

definition confirm :: "buckets \<Rightarrow> string \<Rightarrow> attempt \<Rightarrow> int \<Rightarrow> nat \<Rightarrow> int \<Rightarrow> nat \<Rightarrow> bool \<times> buckets" where
  "confirm store key attempt windowMs maxFailures now fresh =
     (let (live, s1) = liveAttempts store key windowMs now;
          s2 = (if at_id attempt \<in> at_id ` set live
            then AList.update key (map (\<lambda>a. if at_id a = at_id attempt then a\<lparr>at_pending := False\<rparr> else a) live) s1
            else append_attempt s1 key \<lparr>at_id = fresh, at_time = now, at_pending = False\<rparr> windowMs maxFailures now);
          (live2, s3) = liveAttempts s2 key windowMs now in
      (length (filter (\<lambda>a. \<not> at_pending a) live2) = maxFailures, s3))"

definition refund :: "buckets \<Rightarrow> string \<Rightarrow> attempt \<Rightarrow> buckets" where
  "refund store key attempt =
     (case map_of store key of
        None \<Rightarrow> store
      | Some attempts \<Rightarrow>
        if at_id attempt \<notin> at_id ` set attempts then store
        else let rest = filter (\<lambda>a. at_id a \<noteq> at_id attempt) attempts in
          if rest = [] then AList.delete key store else AList.update key rest store)"

section \<open>The limiter\<close>

record reservation =
  rv_ipKey :: string
  rv_identifierKey :: string
  rv_ipAttempt :: attempt
  rv_identifierAttempt :: attempt

record limiter =
  lm_ip :: buckets
  lm_identifier :: buckets
  lm_open :: "(nat, reservation) jmap"
  lm_next :: nat

datatype login_outcome = LoginSuccess | LoginFailure | LoginNeutral

definition createLoginRateLimiter :: limiter where
  "createLoginRateLimiter = \<lparr>lm_ip = [], lm_identifier = [], lm_open = [], lm_next = 0\<rparr>"

definition isBlocked :: "string \<Rightarrow> string \<Rightarrow> int \<Rightarrow> limiter \<Rightarrow> bool \<times> limiter" where
  "isBlocked ip identifier now l =
     (let (liveIp, s) = liveAttempts (lm_ip l) (rateLimitKeyForIp ip) IP_WINDOW_MS now in
      if length liveIp \<ge> IP_MAX_FAILURES then (True, l\<lparr>lm_ip := s\<rparr>)
      else let (live, s') = liveAttempts (lm_identifier l) (normalizeIdentifier identifier) IDENTIFIER_WINDOW_MS now in
        (length live \<ge> IDENTIFIER_MAX_FAILURES, l\<lparr>lm_ip := s, lm_identifier := s'\<rparr>))"

definition tryAcquire :: "string \<Rightarrow> string \<Rightarrow> int \<Rightarrow> limiter \<Rightarrow> nat option \<times> limiter" where
  "tryAcquire ip identifier now l =
     (let (blocked, l1) = isBlocked ip identifier now l in
      if blocked then (None, l1)
      else let ticket = lm_next l1;
               a = \<lparr>at_id = ticket, at_time = now, at_pending = True\<rparr>;
               r = \<lparr>rv_ipKey = rateLimitKeyForIp ip, rv_identifierKey = normalizeIdentifier identifier,
                    rv_ipAttempt = a, rv_identifierAttempt = a\<rparr> in
        (Some ticket,
         l1\<lparr>lm_ip := append_attempt (lm_ip l1) (rv_ipKey r) a IP_WINDOW_MS IP_MAX_FAILURES now,
            lm_identifier := append_attempt (lm_identifier l1) (rv_identifierKey r) a IDENTIFIER_WINDOW_MS IDENTIFIER_MAX_FAILURES now,
            lm_open := AList.update ticket r (lm_open l1), lm_next := Suc ticket\<rparr>))"

definition settle :: "nat \<Rightarrow> login_outcome \<Rightarrow> int \<Rightarrow> limiter \<Rightarrow> bool \<times> limiter" where
  "settle ticket outcome now l =
     (case map_of (lm_open l) ticket of
        None \<Rightarrow> (False, l)
      | Some r \<Rightarrow>
        let l1 = l\<lparr>lm_open := AList.delete ticket (lm_open l)\<rparr> in
        if outcome = LoginFailure then
          let (ipTipped, s) = confirm (lm_ip l1) (rv_ipKey r) (rv_ipAttempt r) IP_WINDOW_MS IP_MAX_FAILURES now (lm_next l1);
              (identifierTipped, s') = confirm (lm_identifier l1) (rv_identifierKey r) (rv_identifierAttempt r)
                 IDENTIFIER_WINDOW_MS IDENTIFIER_MAX_FAILURES now (lm_next l1) in
          (ipTipped \<or> identifierTipped, l1\<lparr>lm_ip := s, lm_identifier := s', lm_next := Suc (lm_next l1)\<rparr>)
        else
          let s = refund (lm_ip l1) (rv_ipKey r) (rv_ipAttempt r);
              s' = refund (lm_identifier l1) (rv_identifierKey r) (rv_identifierAttempt r) in
          (False, l1\<lparr>lm_ip := s, lm_identifier := (if outcome = LoginSuccess then AList.delete (rv_identifierKey r) s' else s')\<rparr>))"

definition limiter_size :: "limiter \<Rightarrow> nat" where
  "limiter_size l = length (lm_ip l) + length (lm_identifier l)"

lemmas limits = IP_WINDOW_MS_def IP_MAX_FAILURES_def IDENTIFIER_WINDOW_MS_def IDENTIFIER_MAX_FAILURES_def


section \<open>The store as a capped store\<close>

lemma evict_scan_in: "evict_scan n w mx now m = Some k \<Longrightarrow> k \<in> fst ` set m"
proof (induction m arbitrary: n)
  case (Cons p m)
  then show ?case by (cases p) (fastforce split: if_splits)
qed simp

lemma evict_one: "m \<noteq> [] \<Longrightarrow> \<exists>k \<in> fst ` set m. evictOne m w mx now = AList.delete k m"
proof (cases "evict_scan 0 w mx now m")
  case (Some k)
  then show ?thesis using evict_scan_in [OF Some] by (auto simp: evictOne_def)
qed (cases m, auto simp: evictOne_def simp del: evict_scan.simps)

lemma evict_shorter: "m \<noteq> [] \<Longrightarrow> length (evictOne m w mx now) < length m"
  using evict_one [of m w mx now] length_delete_less by metis

lemma evict_ok [simp]: "jmap_ok m \<Longrightarrow> jmap_ok (evictOne m w mx now)"
  by (auto simp: evictOne_def split: option.splits list.splits)

lemma evict_lookup: "map_of (evictOne m w mx now) k = Some v \<Longrightarrow> map_of m k = Some v"
  by (auto simp: evictOne_def jmap_simps split: option.splits list.splits if_splits)

lemma evict_keys: "fst ` set (evictOne m w mx now) \<subseteq> fst ` set m"
proof (cases "m = []")
  case False
  then obtain k where "evictOne m w mx now = AList.delete k m" using evict_one by blast
  then show ?thesis using AList.dom_delete_subset [of k m] by simp
qed (simp add: evictOne_def)

interpretation limiter_store: capped_store "put_bucket w mx now" MAX_TRACKED_KEYS
proof
  fix m :: buckets and k v k' x
  have gone: "k \<notin> fst ` set (if MAX_TRACKED_KEYS \<le> length (AList.delete k m) then evictOne (AList.delete k m) w mx now else AList.delete k m)"
    using evict_keys [of "AList.delete k m" w mx now] AList.delete_notin_dom [of k m] by (split if_split) blast
  show "jmap_ok (put_bucket w mx now k v m)" if "jmap_ok m" using that by (simp add: put_bucket_def Let_def)
  show "length (put_bucket w mx now k v m) \<le> MAX_TRACKED_KEYS" if "length m \<le> MAX_TRACKED_KEYS"
  proof -
    have "AList.delete k m \<noteq> []" if "MAX_TRACKED_KEYS \<le> length (AList.delete k m)" using that by (auto simp: MAX_TRACKED_KEYS_def)
    then show ?thesis using that gone evict_shorter [of "AList.delete k m" w mx now] AList.length_delete_le [of k m]
      by (auto simp: put_bucket_def Let_def length_update_new)
  qed
  show "map_of (put_bucket w mx now k v m) k = Some v" by (simp add: put_bucket_def Let_def jmap_simps)
  show "map_of m k' = Some x" if "k' \<noteq> k" "map_of (put_bucket w mx now k v m) k' = Some x"
    using that evict_lookup [of "AList.delete k m" w mx now k' x] by (auto simp: put_bucket_def Let_def jmap_simps split: if_splits)
  show "map_of (put_bucket w mx now k v m) = (map_of m)(k \<mapsto> v)" if "length m < MAX_TRACKED_KEYS"
    using that AList.length_delete_le [of k m] by (auto simp: put_bucket_def Let_def jmap_simps)
qed

section \<open>What a bucket holds\<close>

definition bucket :: "buckets \<Rightarrow> string \<Rightarrow> attempt list" where
  "bucket store key = (case map_of store key of None \<Rightarrow> [] | Some xs \<Rightarrow> xs)"

lemma live_idem [simp]: "live_of w now (live_of w now xs) = live_of w now xs"
  by (simp add: live_of_def)

lemma live_append [simp]: "live_of w now (xs @ ys) = live_of w now xs @ live_of w now ys"
  by (simp add: live_of_def)

lemma live_full: "length (live_of w now xs) = length xs \<Longrightarrow> live_of w now xs = xs"
  unfolding live_of_def by (metis filter_True length_filter_less linorder_neq_iff)

lemma fst_live [simp]: "fst (liveAttempts s k w now) = live_of w now (bucket s k)"
  by (simp add: liveAttempts_def bucket_def Let_def live_of_def split: option.split)

lemma bucket_live: "bucket (snd (liveAttempts s k w now)) k' = (if k' = k then live_of w now (bucket s k) else bucket s k')"
  by (auto simp: liveAttempts_def bucket_def Let_def jmap_simps live_of_def [of w now "[]"] split: option.splits dest: live_full)

lemma live_ok: "store_ok MAX_TRACKED_KEYS s \<Longrightarrow> store_ok MAX_TRACKED_KEYS (snd (liveAttempts s k w now))"
  by (auto simp: liveAttempts_def Let_def intro!: store_ok_update split: option.split dest: map_of_SomeD) (force dest: map_of_SomeD)

lemma live_length: "length (snd (liveAttempts s k w now)) \<le> length s"
  by (auto simp: liveAttempts_def Let_def AList.length_delete_le split: option.split dest!: map_of_SomeD)
     (metis (no_types, lifting) fst_conv image_eqI length_update_old order_refl)

lemma append_eq: "append_attempt s k a w mx now = put_bucket w mx now k (live_of w now (bucket s k) @ [a]) (snd (liveAttempts s k w now))"
  by (simp add: append_attempt_def split_beta)

lemma append_ok: "store_ok MAX_TRACKED_KEYS s \<Longrightarrow> store_ok MAX_TRACKED_KEYS (append_attempt s k a w mx now)"
  by (simp add: append_eq limiter_store.ok live_ok)

lemma bucket_append:
  assumes "store_ok MAX_TRACKED_KEYS s" "length s < MAX_TRACKED_KEYS"
  shows "bucket (append_attempt s k a w mx now) k' = (if k' = k then live_of w now (bucket s k) @ [a] else bucket s k')"
proof -
  have "map_of (put_bucket w mx now k x (snd (liveAttempts s k w now))) = (map_of (snd (liveAttempts s k w now)))(k \<mapsto> x)" for x
    using live_ok [OF assms(1)] live_length [of s k w now] assms(2) by (intro limiter_store.put_room) (auto simp: store_ok_def)
  then show ?thesis using bucket_live [of s k w now k'] by (auto simp: append_eq bucket_def)
qed

lemma keep_all: "i \<notin> f ` set xs \<Longrightarrow> filter (\<lambda>x. f x \<noteq> i) xs = xs"
  by (auto simp: filter_id_conv)

lemma bucket_refund: "bucket (refund s k a) k' = (if k' = k then filter (\<lambda>x. at_id x \<noteq> at_id a) (bucket s k) else bucket s k')"
  by (auto simp: refund_def bucket_def Let_def jmap_simps keep_all split: option.splits)

lemma refund_ok: "store_ok MAX_TRACKED_KEYS s \<Longrightarrow> store_ok MAX_TRACKED_KEYS (refund s k a)"
  by (auto simp: refund_def Let_def intro!: store_ok_update split: option.split dest: map_of_SomeD) (force dest: map_of_SomeD)

definition settled :: "nat \<Rightarrow> attempt \<Rightarrow> attempt" where
  "settled i a = (if at_id a = i then a\<lparr>at_pending := False\<rparr> else a)"

lemma settled_simps [simp]: "at_id (settled i a) = at_id a" "at_time (settled i a) = at_time a"
  by (simp_all add: settled_def)

lemma live_settled: "live_of w now (map (settled i) xs) = map (settled i) (live_of w now xs)"
  by (simp add: live_of_def filter_map comp_def)

lemma confirm_eq:
  "snd (confirm s k a w mx now fresh) =
   snd (liveAttempts (if at_id a \<in> at_id ` set (live_of w now (bucket s k))
     then AList.update k (map (settled (at_id a)) (live_of w now (bucket s k))) (snd (liveAttempts s k w now))
     else append_attempt (snd (liveAttempts s k w now)) k \<lparr>at_id = fresh, at_time = now, at_pending = False\<rparr> w mx now) k w now)"
  by (simp add: confirm_def Let_def split_beta settled_def [abs_def])

lemma bucket_in: "x \<in> set (bucket s k) \<Longrightarrow> k \<in> fst ` set s"
  by (cases "map_of s k") (auto simp: bucket_def dest!: map_of_SomeD intro: image_eqI [where x = "(_, _)"])

lemma confirm_ok: "store_ok MAX_TRACKED_KEYS s \<Longrightarrow> store_ok MAX_TRACKED_KEYS (snd (confirm s k a w mx now fresh))"
proof -
  assume ok: "store_ok MAX_TRACKED_KEYS s"
  have "k \<in> fst ` set (snd (liveAttempts s k w now))" if "at_id a \<in> at_id ` set (live_of w now (bucket s k))"
    using that bucket_live [of s k w now k] bucket_in [of _ "snd (liveAttempts s k w now)" k] by auto
  moreover note ok live_ok [OF ok, of k w now]
  ultimately show ?thesis by (simp add: confirm_eq) (intro conjI impI live_ok append_ok store_ok_update; simp)
qed

lemma bucket_confirm:
  assumes "store_ok MAX_TRACKED_KEYS s" "length s < MAX_TRACKED_KEYS" "0 < w"
  shows "bucket (snd (confirm s k a w mx now fresh)) k' = (if k' \<noteq> k then bucket s k'
     else if at_id a \<in> at_id ` set (live_of w now (bucket s k)) then map (settled (at_id a)) (live_of w now (bucket s k))
     else live_of w now (bucket s k) @ [\<lparr>at_id = fresh, at_time = now, at_pending = False\<rparr>])"
proof -
  have "length (snd (liveAttempts s k w now)) < MAX_TRACKED_KEYS" using live_length [of s k w now] assms(2) by simp
  note b = bucket_append [OF live_ok [OF assms(1)] this]
  have u: "bucket (AList.update k v m) k' = (if k' = k then v else bucket m k')" for v m k' by (simp add: bucket_def jmap_simps)
  show ?thesis using assms(3) by (auto simp: confirm_eq bucket_live b u live_settled) (simp_all add: live_of_def)
qed


section \<open>What has been tried\<close>

text \<open>
  The ledger of one dimension: the attempts in flight and the failures, with their key and the time they began; a
  successful login of an identifier strikes out its lines. \<open>tracked\<close> says that the store counts
  at least what the ledger says, from \<open>t\<close> on.
\<close>

record ledger =
  lg_held :: "(nat \<times> string \<times> int) list"
  lg_failed :: "(string \<times> int) list"

definition in_window :: "int \<Rightarrow> int \<Rightarrow> string \<Rightarrow> ledger \<Rightarrow> nat" where
  "in_window w now k g = length (filter (\<lambda>(_, k', r). k' = k \<and> now - r < w) (lg_held g)) +
     length (filter (\<lambda>(k', r). k' = k \<and> now - r < w) (lg_failed g))"

definition ids_ok :: "nat \<Rightarrow> (string \<Rightarrow> attempt list) \<Rightarrow> bool" where
  "ids_ok n b = (\<forall>k. distinct (map at_id (b k)) \<and> (\<forall>x \<in> set (b k). at_id x < n))"

definition tickets_ok :: "nat \<Rightarrow> (nat \<times> string \<times> int) list \<Rightarrow> ledger \<Rightarrow> bool" where
  "tickets_ok n tk g = (distinct (map fst tk) \<and> distinct (map fst (lg_held g)) \<and> set (lg_held g) \<subseteq> set tk \<and> (\<forall>h \<in> set tk. fst h < n))"

definition owned :: "(nat \<times> string \<times> int) list \<Rightarrow> ledger \<Rightarrow> (string \<Rightarrow> attempt list) \<Rightarrow> bool" where
  "owned tk g b = (\<forall>i k r x. (i, k, r) \<in> set tk \<longrightarrow> x \<in> set (b k) \<longrightarrow> at_id x = i \<longrightarrow> at_time x = r \<and> (i, k, r) \<in> set (lg_held g))"

definition counts :: "int \<Rightarrow> int \<Rightarrow> ledger \<Rightarrow> (string \<Rightarrow> attempt list) \<Rightarrow> bool" where
  "counts w t g b = (\<forall>k now. t \<le> now \<longrightarrow> in_window w now k g \<le> length (live_of w now (b k)))"

definition tracked :: "int \<Rightarrow> int \<Rightarrow> nat \<Rightarrow> (nat \<times> string \<times> int) list \<Rightarrow> ledger \<Rightarrow> (string \<Rightarrow> attempt list) \<Rightarrow> bool" where
  "tracked w t n tk g b = (ids_ok n b \<and> tickets_ok n tk g \<and> owned tk g b \<and> counts w t g b \<and> (\<forall>(_, _, r) \<in> set tk. r \<le> t))"

lemma count_remove:
  "distinct (map f xs) \<Longrightarrow> x \<in> set xs \<Longrightarrow>
   length (filter P xs) = length (filter P (filter (\<lambda>y. f y \<noteq> f x) xs)) + (if P x then 1 else 0)"
proof (induction xs)
  case (Cons a xs)
  show ?case
  proof (cases "x = a")
    case True
    then have "filter (\<lambda>y. f y \<noteq> f x) xs = xs" using Cons.prems(1) by (intro keep_all) simp
    then show ?thesis using True by simp
  next
    case False
    then have "f a \<noteq> f x" using Cons.prems by auto
    then show ?thesis using Cons False by simp
  qed
qed simp

lemma live_later: "now \<le> now' \<Longrightarrow> live_of w now' (live_of w now xs) = live_of w now' xs"
  by (auto simp: live_of_def intro!: filter_cong)

lemma live_set: "x \<in> set (live_of w now xs) \<longleftrightarrow> x \<in> set xs \<and> now - at_time x < w"
  by (auto simp: live_of_def)

lemma live_distinct: "distinct (map f xs) \<Longrightarrow> distinct (map f (live_of w now xs))"
  by (simp add: live_of_def distinct_map_filter)

lemma owned_sub: "owned tk g b \<Longrightarrow> (\<And>k. set (b' k) \<subseteq> set (b k)) \<Longrightarrow> owned tk g b'"
  unfolding owned_def by blast

lemma ids_sub: "ids_ok n b \<Longrightarrow> (\<And>k. distinct (map at_id (b' k))) \<Longrightarrow> (\<And>k. set (b' k) \<subseteq> set (b k)) \<Longrightarrow> ids_ok n b'"
  unfolding ids_ok_def by blast

lemma ids_less: "ids_ok n b \<Longrightarrow> x \<in> set (b k) \<Longrightarrow> at_id x < n"
  by (simp add: ids_ok_def)

lemma ids_distinct: "ids_ok n b \<Longrightarrow> distinct (map at_id (b k))"
  by (simp add: ids_ok_def)

lemma ids_okI: "(\<And>k. distinct (map at_id (b k))) \<Longrightarrow> (\<And>k x. x \<in> set (b k) \<Longrightarrow> at_id x < n) \<Longrightarrow> ids_ok n b"
  by (simp add: ids_ok_def)

lemma ticket_unique: "tickets_ok n tk g \<Longrightarrow> h \<in> set tk \<Longrightarrow> h' \<in> set tk \<Longrightarrow> fst h = fst h' \<Longrightarrow> h = h'"
  by (auto simp: tickets_ok_def distinct_map dest: inj_onD)

lemma tracked_prune:
  assumes "tracked w t n tk g b" "t \<le> now"
  shows "tracked w now n tk g (\<lambda>k. if k \<in> ks then live_of w now (b k) else b k)"
proof -
  have b: "set (if k \<in> ks then live_of w now (b k) else b k) \<subseteq> set (b k)" for k by (auto simp: live_set)
  have "counts w now g (\<lambda>k. if k \<in> ks then live_of w now (b k) else b k)"
    using assms by (simp add: tracked_def counts_def live_later)
  moreover have "ids_ok n (\<lambda>k. if k \<in> ks then live_of w now (b k) else b k)"
    by (rule ids_sub [of n b]) (use assms(1) b in \<open>auto simp: tracked_def intro: ids_distinct live_distinct\<close>)
  moreover have "owned tk g (\<lambda>k. if k \<in> ks then live_of w now (b k) else b k)"
    by (rule owned_sub [of tk g b]) (use assms(1) b in \<open>simp_all add: tracked_def\<close>)
  ultimately show ?thesis using assms by (auto simp: tracked_def)
qed

lemma live_one [simp]: "live_of w now [a] = (if now - at_time a < w then [a] else [])"
  by (simp add: live_of_def)

lemma tracked_reserve:
  assumes "tracked w t n tk g b" "t \<le> now"
  shows "tracked w now (Suc n) (tk @ [(n, k, now)]) (g\<lparr>lg_held := (n, k, now) # lg_held g\<rparr>)
    (\<lambda>k'. if k' = k then live_of w now (b k) @ [\<lparr>at_id = n, at_time = now, at_pending = True\<rparr>] else b k')"
    (is "tracked w now (Suc n) ?tk ?g ?b")
proof -
  note t = assms(1) [unfolded tracked_def]
  have less: "at_id x < n" if "x \<in> set (b k')" for x k' using t that ids_less by blast
  then have n: "n \<notin> fst ` set tk" "n \<notin> at_id ` set (live_of w now (b k'))" for k'
    using t by (auto simp: tickets_ok_def live_set dest: less)
  have "in_window w now' k' ?g \<le> length (live_of w now' (?b k'))" if "now \<le> now'" for k' now'
  proof -
    have "in_window w now' k' g \<le> length (live_of w now' (b k'))" using t that assms(2) by (simp add: counts_def)
    then show ?thesis using that by (auto simp: in_window_def live_later)
  qed
  then have "counts w now ?g ?b" by (simp add: counts_def)
  moreover have "ids_ok (Suc n) ?b"
    using n(2) ids_distinct t less by (intro ids_okI) (auto simp: live_distinct live_set intro: less_SucI split: if_splits)
  moreover have "tickets_ok (Suc n) ?tk ?g" using t n(1) by (auto simp: tickets_ok_def less_Suc_eq)
  moreover have "owned ?tk ?g ?b"
  proof (unfold owned_def, intro allI impI)
    fix i k' r x assume h: "(i, k', r) \<in> set ?tk" "x \<in> set (?b k')" "at_id x = i"
    show "at_time x = r \<and> (i, k', r) \<in> set (lg_held ?g)"
    proof (cases "i = n")
      case True
      then have "k' = k" "r = now" using h(1) n(1) by (auto simp: image_iff)
      moreover have "x \<notin> set (live_of w now (b k))" using n(2) [of k] h(3) True by auto
      ultimately have "x = \<lparr>at_id = n, at_time = now, at_pending = True\<rparr>" using h(2) by simp
      then show ?thesis using True \<open>k' = k\<close> \<open>r = now\<close> by simp
    next
      case False
      then have "(i, k', r) \<in> set tk" "x \<in> set (b k')" using h by (auto simp: live_set split: if_splits)
      then show ?thesis using t h(3) unfolding owned_def by auto
    qed
  qed
  ultimately show ?thesis using t assms by (auto simp: tracked_def)
qed

text \<open>Giving a place back, and what a success does to its identifier.\<close>

lemma tickets_filter: "tickets_ok n tk g \<Longrightarrow> (\<And>h. Q h \<Longrightarrow> P h) \<Longrightarrow> lg_held g' = filter Q (lg_held g) \<Longrightarrow> tickets_ok n (filter P tk) g'"
  by (auto simp: tickets_ok_def distinct_map_filter)

lemma window_sub: "lg_failed g' = lg_failed g \<Longrightarrow> lg_held g' = filter Q (lg_held g) \<Longrightarrow> in_window w now k g' \<le> in_window w now k g"
proof -
  assume "lg_failed g' = lg_failed g" "lg_held g' = filter Q (lg_held g)"
  moreover have "length (filter P (filter Q xs)) \<le> length (filter P xs)" for P and xs :: "(nat \<times> string \<times> int) list"
    by (induction xs) auto
  ultimately show ?thesis by (simp add: in_window_def del: filter_filter)
qed

lemma tracked_refund:
  assumes "tracked w t n tk g b" "t \<le> now" "(i, k, r) \<in> set tk"
  shows "tracked w now n (filter (\<lambda>h. fst h \<noteq> i) tk) (g\<lparr>lg_held := filter (\<lambda>h. fst h \<noteq> i) (lg_held g)\<rparr>)
    (\<lambda>k'. if k' = k then filter (\<lambda>x. at_id x \<noteq> i) (b k) else b k')" (is "tracked w now n ?tk ?g ?b")
proof -
  note t = assms(1) [unfolded tracked_def]
  have "in_window w now' k' ?g \<le> length (live_of w now' (?b k'))" if "now \<le> now'" for k' now'
  proof -
    have old: "in_window w now' k' g \<le> length (live_of w now' (b k'))" using t that assms(2) by (simp add: counts_def)
    have le: "in_window w now' k' ?g \<le> in_window w now' k' g" by (rule window_sub) simp_all
    show ?thesis
    proof (cases "k' = k \<and> i \<in> at_id ` set (b k)")
      case True
      then obtain x where x: "x \<in> set (b k)" "at_id x = i" by auto
      then have h: "at_time x = r" "(i, k, r) \<in> set (lg_held g)" using t assms(3) by (auto simp: owned_def)
      have "length (live_of w now' (b k)) = length (live_of w now' (filter (\<lambda>x. at_id x \<noteq> i) (b k))) + (if now' - r < w then 1 else 0)"
        using count_remove [of at_id "b k" x "\<lambda>a. now' - at_time a < w"] t x h(1) by (simp add: live_of_def ids_ok_def)
      moreover have "in_window w now' k g = in_window w now' k ?g + (if now' - r < w then 1 else 0)"
        using count_remove [of fst "lg_held g" "(i, k, r)" "\<lambda>(_, k', r). k' = k \<and> now' - r < w"] t h(2) by (simp add: in_window_def tickets_ok_def)
      ultimately show ?thesis using old True by simp
    next
      case False
      then have "?b k' = b k'" by (auto simp: keep_all)
      then show ?thesis using le old by simp
    qed
  qed
  then have "counts w now ?g ?b" by (simp add: counts_def)
  moreover have "ids_ok n ?b" by (rule ids_sub [of n b]) (use t in \<open>auto intro: ids_distinct distinct_map_filter\<close>)
  moreover have "tickets_ok n ?tk ?g" using t by (intro tickets_filter [where Q = "\<lambda>h. fst h \<noteq> i"]) auto
  moreover have "owned ?tk ?g ?b" using t unfolding owned_def by auto
  ultimately show ?thesis using t assms by (auto simp: tracked_def)
qed

lemma tracked_clear:
  assumes "tracked w t n tk g b"
  shows "tracked w t n tk \<lparr>lg_held = filter (\<lambda>(_, k', _). k' \<noteq> k) (lg_held g), lg_failed = filter (\<lambda>(k', _). k' \<noteq> k) (lg_failed g)\<rparr>
    (\<lambda>k'. if k' = k then [] else b k')" (is "tracked w t n tk ?g ?b")
proof -
  note t = assms(1) [unfolded tracked_def]
  have "in_window w now k' ?g = (if k' = k then 0 else in_window w now k' g)" for now k'
    by (auto simp: in_window_def filter_empty_conv intro!: arg_cong2 [where f = "(+)"] arg_cong [where f = length] filter_cong)
  then have "counts w t ?g ?b" using t by (simp add: counts_def live_of_def)
  moreover have "ids_ok n ?b" by (rule ids_sub [of n b]) (use t in \<open>auto intro: ids_distinct\<close>)
  moreover have "tickets_ok n tk ?g" using tickets_filter [of n tk g "\<lambda>(_, k', _). k' \<noteq> k" "\<lambda>_. True" ?g] t by simp
  moreover have "owned tk ?g ?b" using t by (auto simp: owned_def)
  ultimately show ?thesis using t assms by (auto simp: tracked_def)
qed


lemma settled_set: "x \<in> set (map (settled i) xs) \<Longrightarrow> \<exists>y \<in> set xs. at_id y = at_id x \<and> at_time y = at_time x"
  by auto

lemma settled_ids [simp]: "map at_id (map (settled i) xs) = map at_id xs" "length (live_of w now (map (settled i) xs)) = length (live_of w now xs)"
  by (simp_all add: live_settled)

lemma tracked_fail:
  assumes "tracked w t n tk g b" "t \<le> now" "(i, k, r) \<in> set tk"
  shows "tracked w now (Suc n) (filter (\<lambda>h. fst h \<noteq> i) tk) \<lparr>lg_held = filter (\<lambda>h. fst h \<noteq> i) (lg_held g), lg_failed = (k, r) # lg_failed g\<rparr>
    (\<lambda>k'. if k' \<noteq> k then b k' else if i \<in> at_id ` set (live_of w now (b k)) then map (settled i) (live_of w now (b k))
      else live_of w now (b k) @ [\<lparr>at_id = n, at_time = now, at_pending = False\<rparr>])" (is "tracked w now (Suc n) ?tk ?g ?b")
proof -
  note t = assms(1) [unfolded tracked_def]
  have r: "r \<le> now" using t assms(2,3) by fastforce
  have less: "at_id x < n" if "x \<in> set (b k')" for x k' using t that ids_less by blast
  have "in_window w now' k' ?g \<le> length (live_of w now' (?b k'))" if "now \<le> now'" for k' now'
  proof -
    let ?h = "g\<lparr>lg_held := filter (\<lambda>h. fst h \<noteq> i) (lg_held g)\<rparr>"
    have old: "in_window w now' k' g \<le> length (live_of w now' (b k'))" using t that assms(2) by (simp add: counts_def)
    have le: "in_window w now' k' ?h \<le> in_window w now' k' g" by (rule window_sub) simp_all
    have new: "in_window w now' k' ?g = in_window w now' k' ?h + (if k' = k \<and> now' - r < w then 1 else 0)" by (simp add: in_window_def)
    show ?thesis
    proof (cases "k' = k \<and> i \<in> at_id ` set (live_of w now (b k))")
      case True
      then obtain x where x: "x \<in> set (b k)" "at_id x = i" by (auto simp: live_set)
      then have h: "(i, k, r) \<in> set (lg_held g)" using t assms(3) by (auto simp: owned_def)
      have "in_window w now' k g = in_window w now' k ?h + (if now' - r < w then 1 else 0)"
        using count_remove [of fst "lg_held g" "(i, k, r)" "\<lambda>(_, k', r). k' = k \<and> now' - r < w"] t h by (simp add: in_window_def tickets_ok_def)
      then show ?thesis using old True that new by (simp add: live_later live_settled)
    next
      case False
      then show ?thesis using le old new r that by (auto simp: live_later)
    qed
  qed
  then have "counts w now ?g ?b" by (simp add: counts_def)
  moreover have "ids_ok (Suc n) ?b"
  proof (rule ids_okI)
    fix k'
    have "distinct (map at_id (live_of w now (b k)))" "distinct (map at_id (b k'))" using t ids_distinct live_distinct by blast+
    moreover have "n \<notin> at_id ` set (live_of w now (b k))" by (auto simp: live_set dest: less)
    ultimately show "distinct (map at_id (?b k'))" by (simp del: map_map)
    show "at_id x < Suc n" if "x \<in> set (?b k')" for x using that by (auto simp: live_set less_Suc_eq dest: less split: if_splits)
  qed
  moreover have "tickets_ok n ?tk ?g" using t by (intro tickets_filter [where Q = "\<lambda>h. fst h \<noteq> i"]) auto
  then have "tickets_ok (Suc n) ?tk ?g" unfolding tickets_ok_def by (blast intro: less_SucI)
  moreover have "owned ?tk ?g ?b"
  proof (unfold owned_def, intro allI impI)
    fix j k' s x assume h: "(j, k', s) \<in> set ?tk" "x \<in> set (?b k')" "at_id x = j"
    have "j \<noteq> n" using h(1) t by (auto simp: tickets_ok_def)
    then have "\<exists>y \<in> set (b k'). at_id y = at_id x \<and> at_time y = at_time x" using h(2,3) by (auto simp: live_set split: if_splits)
    then show "at_time x = s \<and> (j, k', s) \<in> set (lg_held ?g)" using h(1,3) t unfolding owned_def by auto
  qed
  ultimately show ?thesis using t assms by (auto simp: tracked_def)
qed


section \<open>Runs of the limiter\<close>

definition ip_tickets :: "limiter \<Rightarrow> (nat \<times> string \<times> int) list" where
  "ip_tickets l = map (\<lambda>(n, r). (n, rv_ipKey r, at_time (rv_ipAttempt r))) (lm_open l)"

definition identifier_tickets :: "limiter \<Rightarrow> (nat \<times> string \<times> int) list" where
  "identifier_tickets l = map (\<lambda>(n, r). (n, rv_identifierKey r, at_time (rv_identifierAttempt r))) (lm_open l)"

definition reserve_line :: "nat \<Rightarrow> string \<Rightarrow> int \<Rightarrow> ledger \<Rightarrow> ledger" where
  "reserve_line n k now g = g\<lparr>lg_held := (n, k, now) # lg_held g\<rparr>"

definition release_line :: "nat \<Rightarrow> ledger \<Rightarrow> ledger" where
  "release_line n g = g\<lparr>lg_held := filter (\<lambda>h. fst h \<noteq> n) (lg_held g)\<rparr>"

definition fail_line :: "nat \<Rightarrow> string \<Rightarrow> int \<Rightarrow> ledger \<Rightarrow> ledger" where
  "fail_line n k r g = \<lparr>lg_held = filter (\<lambda>h. fst h \<noteq> n) (lg_held g), lg_failed = (k, r) # lg_failed g\<rparr>"

definition clear_lines :: "string \<Rightarrow> ledger \<Rightarrow> ledger" where
  "clear_lines k g = \<lparr>lg_held = filter (\<lambda>(_, k', _). k' \<noteq> k) (lg_held g), lg_failed = filter (\<lambda>(k', _). k' \<noteq> k) (lg_failed g)\<rparr>"

definition settle_ip :: "nat \<Rightarrow> reservation \<Rightarrow> login_outcome \<Rightarrow> ledger \<Rightarrow> ledger" where
  "settle_ip n r outcome g = (if outcome = LoginFailure then fail_line n (rv_ipKey r) (at_time (rv_ipAttempt r)) g else release_line n g)"

definition settle_identifier :: "nat \<Rightarrow> reservation \<Rightarrow> login_outcome \<Rightarrow> ledger \<Rightarrow> ledger" where
  "settle_identifier n r outcome g =
     (if outcome = LoginFailure then fail_line n (rv_identifierKey r) (at_time (rv_identifierAttempt r)) g
      else if outcome = LoginSuccess then clear_lines (rv_identifierKey r) (release_line n g) else release_line n g)"

definition has_room :: "limiter \<Rightarrow> bool" where
  "has_room l = (length (lm_ip l) < MAX_TRACKED_KEYS \<and> length (lm_identifier l) < MAX_TRACKED_KEYS)"

text \<open>A run with the ledgers of both dimensions and the time of the last operation; the limiter is not full.\<close>

inductive limiter_run :: "limiter \<Rightarrow> ledger \<Rightarrow> ledger \<Rightarrow> int \<Rightarrow> bool" where
  start: "limiter_run createLoginRateLimiter \<lparr>lg_held = [], lg_failed = []\<rparr> \<lparr>lg_held = [], lg_failed = []\<rparr> t"
| check: "limiter_run l gi gd t \<Longrightarrow> t \<le> now \<Longrightarrow> isBlocked ip identifier now l = (b, l') \<Longrightarrow> limiter_run l' gi gd now"
| refuse: "limiter_run l gi gd t \<Longrightarrow> t \<le> now \<Longrightarrow> tryAcquire ip identifier now l = (None, l') \<Longrightarrow> limiter_run l' gi gd now"
| grant: "limiter_run l gi gd t \<Longrightarrow> t \<le> now \<Longrightarrow> has_room l \<Longrightarrow> tryAcquire ip identifier now l = (Some n, l') \<Longrightarrow>
    limiter_run l' (reserve_line n (rateLimitKeyForIp ip) now gi) (reserve_line n (normalizeIdentifier identifier) now gd) now"
| settle: "limiter_run l gi gd t \<Longrightarrow> t \<le> now \<Longrightarrow> has_room l \<Longrightarrow> map_of (lm_open l) n = Some r \<Longrightarrow> settle n outcome now l = (b, l') \<Longrightarrow>
    limiter_run l' (settle_ip n r outcome gi) (settle_identifier n r outcome gd) now"

definition limiter_inv :: "limiter \<Rightarrow> ledger \<Rightarrow> ledger \<Rightarrow> int \<Rightarrow> bool" where
  "limiter_inv l gi gd t = (store_ok MAX_TRACKED_KEYS (lm_ip l) \<and> store_ok MAX_TRACKED_KEYS (lm_identifier l) \<and> jmap_ok (lm_open l) \<and>
     (\<forall>(n, r) \<in> set (lm_open l). at_id (rv_ipAttempt r) = n \<and> at_id (rv_identifierAttempt r) = n) \<and>
     tracked IP_WINDOW_MS t (lm_next l) (ip_tickets l) gi (bucket (lm_ip l)) \<and>
     tracked IDENTIFIER_WINDOW_MS t (lm_next l) (identifier_tickets l) gd (bucket (lm_identifier l)))"

lemma bucket_live_fun: "bucket (snd (liveAttempts s k w now)) = (\<lambda>k'. if k' \<in> {k} then live_of w now (bucket s k') else bucket s k')"
  by (rule ext) (auto simp: bucket_live)

lemma blocked_shape:
  "isBlocked ip identifier now l = (b, l') \<Longrightarrow>
   lm_ip l' = snd (liveAttempts (lm_ip l) (rateLimitKeyForIp ip) IP_WINDOW_MS now) \<and>
   (lm_identifier l' = lm_identifier l \<or> lm_identifier l' = snd (liveAttempts (lm_identifier l) (normalizeIdentifier identifier) IDENTIFIER_WINDOW_MS now)) \<and>
   lm_open l' = lm_open l \<and> lm_next l' = lm_next l \<and>
   (b \<or> length (live_of IP_WINDOW_MS now (bucket (lm_ip l) (rateLimitKeyForIp ip))) < IP_MAX_FAILURES \<and>
     length (live_of IDENTIFIER_WINDOW_MS now (bucket (lm_identifier l) (normalizeIdentifier identifier))) < IDENTIFIER_MAX_FAILURES \<and>
     lm_identifier l' = snd (liveAttempts (lm_identifier l) (normalizeIdentifier identifier) IDENTIFIER_WINDOW_MS now))"
  unfolding isBlocked_def
  using fst_live [of "lm_ip l" "rateLimitKeyForIp ip" IP_WINDOW_MS now] fst_live [of "lm_identifier l" "normalizeIdentifier identifier" IDENTIFIER_WINDOW_MS now]
  by (auto simp: Let_def split_beta split: if_splits)

lemma tracked_live: "tracked w t n tk g (bucket s) \<Longrightarrow> t \<le> now \<Longrightarrow> tracked w now n tk g (bucket (snd (liveAttempts s k w now)))"
  unfolding bucket_live_fun by (rule tracked_prune)

lemma tracked_same: "tracked w t n tk g b \<Longrightarrow> t \<le> now \<Longrightarrow> tracked w now n tk g b"
  using tracked_prune [of w t n tk g b now "{}"] by simp

lemma inv_blocked:
  assumes "limiter_inv l gi gd t" "t \<le> now" "isBlocked ip identifier now l = (b, l')"
  shows "limiter_inv l' gi gd now"
proof -
  note s = blocked_shape [OF assms(3)]
  have "tracked IP_WINDOW_MS now (lm_next l') (ip_tickets l') gi (bucket (lm_ip l'))"
    using assms(1,2) s tracked_live [of IP_WINDOW_MS t "lm_next l" "ip_tickets l" gi "lm_ip l" now "rateLimitKeyForIp ip"] by (simp add: limiter_inv_def ip_tickets_def)
  moreover have "tracked IDENTIFIER_WINDOW_MS now (lm_next l') (identifier_tickets l') gd (bucket (lm_identifier l'))"
    using s
  proof (elim conjE disjE [where P = "lm_identifier l' = lm_identifier l"])
    assume "lm_identifier l' = lm_identifier l" "lm_open l' = lm_open l" "lm_next l' = lm_next l"
    then show ?thesis using assms(1,2) tracked_same [of IDENTIFIER_WINDOW_MS t "lm_next l" "identifier_tickets l" gd "bucket (lm_identifier l)" now] by (simp add: limiter_inv_def identifier_tickets_def)
  next
    assume "lm_identifier l' = snd (liveAttempts (lm_identifier l) (normalizeIdentifier identifier) IDENTIFIER_WINDOW_MS now)"
      "lm_open l' = lm_open l" "lm_next l' = lm_next l"
    then show ?thesis using assms(1,2) tracked_live [of IDENTIFIER_WINDOW_MS t "lm_next l" "identifier_tickets l" gd "lm_identifier l" now "normalizeIdentifier identifier"]
      by (simp add: limiter_inv_def identifier_tickets_def)
  qed
  moreover have "store_ok MAX_TRACKED_KEYS (lm_ip l')" "store_ok MAX_TRACKED_KEYS (lm_identifier l')" using assms(1) s by (auto simp: limiter_inv_def intro: live_ok)
  ultimately show ?thesis using assms(1) s by (simp add: limiter_inv_def)
qed


lemma bucket_append_fun:
  "store_ok MAX_TRACKED_KEYS s \<Longrightarrow> length s < MAX_TRACKED_KEYS \<Longrightarrow>
   bucket (append_attempt s k a w mx now) = (\<lambda>k'. if k' = k then live_of w now (bucket s k) @ [a] else bucket s k')"
  by (rule ext) (rule bucket_append)

lemma tracked_append:
  assumes "tracked w t n tk g (bucket s)" "t \<le> now" "store_ok MAX_TRACKED_KEYS s" "length s < MAX_TRACKED_KEYS"
  shows "tracked w now (Suc n) (tk @ [(n, k, now)]) (reserve_line n k now g)
    (bucket (append_attempt (snd (liveAttempts s k w now)) k \<lparr>at_id = n, at_time = now, at_pending = True\<rparr> w mx now))"
proof -
  have l: "length (snd (liveAttempts s k w now)) < MAX_TRACKED_KEYS" using live_length [of s k w now] assms(4) by simp
  show ?thesis unfolding bucket_append_fun [OF live_ok [OF assms(3)] l] reserve_line_def
    by (rule tracked_reserve [OF tracked_live [OF assms(1,2)] order_refl])
qed

lemma acquire_shape:
  assumes "tryAcquire ip identifier now l = (Some n, l')"
  shows "n = lm_next l \<and> lm_next l' = Suc n \<and>
    lm_ip l' = append_attempt (snd (liveAttempts (lm_ip l) (rateLimitKeyForIp ip) IP_WINDOW_MS now)) (rateLimitKeyForIp ip)
      \<lparr>at_id = n, at_time = now, at_pending = True\<rparr> IP_WINDOW_MS IP_MAX_FAILURES now \<and>
    lm_identifier l' = append_attempt (snd (liveAttempts (lm_identifier l) (normalizeIdentifier identifier) IDENTIFIER_WINDOW_MS now))
      (normalizeIdentifier identifier) \<lparr>at_id = n, at_time = now, at_pending = True\<rparr> IDENTIFIER_WINDOW_MS IDENTIFIER_MAX_FAILURES now \<and>
    lm_open l' = AList.update n \<lparr>rv_ipKey = rateLimitKeyForIp ip, rv_identifierKey = normalizeIdentifier identifier,
      rv_ipAttempt = \<lparr>at_id = n, at_time = now, at_pending = True\<rparr>, rv_identifierAttempt = \<lparr>at_id = n, at_time = now, at_pending = True\<rparr>\<rparr> (lm_open l) \<and>
    length (live_of IP_WINDOW_MS now (bucket (lm_ip l) (rateLimitKeyForIp ip))) < IP_MAX_FAILURES \<and>
    length (live_of IDENTIFIER_WINDOW_MS now (bucket (lm_identifier l) (normalizeIdentifier identifier))) < IDENTIFIER_MAX_FAILURES"
proof -
  obtain b l1 where b: "isBlocked ip identifier now l = (b, l1)" by (cases "isBlocked ip identifier now l")
  have "\<not> b" using assms b by (auto simp: tryAcquire_def)
  then show ?thesis using assms b blocked_shape [OF b] by (auto simp: tryAcquire_def Let_def)
qed

lemma inv_refuse: "limiter_inv l gi gd t \<Longrightarrow> t \<le> now \<Longrightarrow> tryAcquire ip identifier now l = (None, l') \<Longrightarrow> limiter_inv l' gi gd now"
  by (auto simp: tryAcquire_def Let_def split: prod.splits if_splits intro: inv_blocked)

lemma inv_grant:
  assumes "limiter_inv l gi gd t" "t \<le> now" "has_room l" "tryAcquire ip identifier now l = (Some n, l')"
  shows "limiter_inv l' (reserve_line n (rateLimitKeyForIp ip) now gi) (reserve_line n (normalizeIdentifier identifier) now gd) now"
proof -
  note s = acquire_shape [OF assms(4)] and i = assms(1) [unfolded limiter_inv_def]
  have "n \<notin> fst ` set (lm_open l)"
    using i s by (force simp: tracked_def tickets_ok_def ip_tickets_def)
  then have o: "lm_open l' = lm_open l @ [(n, \<lparr>rv_ipKey = rateLimitKeyForIp ip, rv_identifierKey = normalizeIdentifier identifier,
      rv_ipAttempt = \<lparr>at_id = n, at_time = now, at_pending = True\<rparr>, rv_identifierAttempt = \<lparr>at_id = n, at_time = now, at_pending = True\<rparr>\<rparr>)]"
    using s by (simp add: update_new)
  have "tracked IP_WINDOW_MS now (lm_next l') (ip_tickets l') (reserve_line n (rateLimitKeyForIp ip) now gi) (bucket (lm_ip l'))"
    using tracked_append [of IP_WINDOW_MS t "lm_next l" "ip_tickets l" gi "lm_ip l" now "rateLimitKeyForIp ip" IP_MAX_FAILURES] i s assms(2,3)
    by (simp add: ip_tickets_def o has_room_def)
  moreover have "tracked IDENTIFIER_WINDOW_MS now (lm_next l') (identifier_tickets l') (reserve_line n (normalizeIdentifier identifier) now gd) (bucket (lm_identifier l'))"
    using tracked_append [of IDENTIFIER_WINDOW_MS t "lm_next l" "identifier_tickets l" gd "lm_identifier l" now "normalizeIdentifier identifier" IDENTIFIER_MAX_FAILURES] i s assms(2,3)
    by (simp add: identifier_tickets_def o has_room_def)
  moreover have "jmap_ok (lm_open l')" using i s by simp
  ultimately show ?thesis using i s by (auto simp: limiter_inv_def o intro!: append_ok live_ok)
qed


lemma bucket_refund_fun: "bucket (refund s k a) = (\<lambda>k'. if k' = k then filter (\<lambda>x. at_id x \<noteq> at_id a) (bucket s k) else bucket s k')"
  by (rule ext) (rule bucket_refund)

lemma bucket_delete_fun: "bucket (AList.delete k s) = (\<lambda>k'. if k' = k then [] else bucket s k')"
  by (rule ext) (simp add: bucket_def jmap_simps)

lemma bucket_confirm_fun:
  "store_ok MAX_TRACKED_KEYS s \<Longrightarrow> length s < MAX_TRACKED_KEYS \<Longrightarrow> 0 < w \<Longrightarrow>
   bucket (snd (confirm s k a w mx now fresh)) = (\<lambda>k'. if k' \<noteq> k then bucket s k'
     else if at_id a \<in> at_id ` set (live_of w now (bucket s k)) then map (settled (at_id a)) (live_of w now (bucket s k))
     else live_of w now (bucket s k) @ [\<lparr>at_id = fresh, at_time = now, at_pending = False\<rparr>])"
  by (rule ext) (simp only: bucket_confirm)

lemma tracked_confirm:
  assumes "tracked w t n tk g (bucket s)" "t \<le> now" "0 < w" "store_ok MAX_TRACKED_KEYS s" "length s < MAX_TRACKED_KEYS" "(at_id a, k, r) \<in> set tk"
  shows "tracked w now (Suc n) (filter (\<lambda>h. fst h \<noteq> at_id a) tk) (fail_line (at_id a) k r g) (bucket (snd (confirm s k a w mx now n)))"
  unfolding bucket_confirm_fun [OF assms(4,5,3)] fail_line_def by (rule tracked_fail [OF assms(1,2,6)])

lemma tracked_release:
  assumes "tracked w t n tk g (bucket s)" "t \<le> now" "(at_id a, k, r) \<in> set tk"
  shows "tracked w now n (filter (\<lambda>h. fst h \<noteq> at_id a) tk) (release_line (at_id a) g) (bucket (refund s k a))"
  unfolding bucket_refund_fun release_line_def by (rule tracked_refund [OF assms])

lemma tracked_delete:
  "tracked w t n tk g (bucket s) \<Longrightarrow> tracked w t n tk (clear_lines k g) (bucket (AList.delete k s))"
  unfolding bucket_delete_fun clear_lines_def by (rule tracked_clear)

lemma tickets_delete: "map f (AList.delete n m) = filter (\<lambda>h. fst h \<noteq> n) (map f m)" if "\<And>p. fst (f p) = fst p" for f :: "nat \<times> 'a \<Rightarrow> nat \<times> 'b"
  by (induction m) (auto simp: that)

lemma inv_settle:
  assumes "limiter_inv l gi gd t" "t \<le> now" "has_room l" "map_of (lm_open l) n = Some r" "settle n outcome now l = (b, l')"
  shows "limiter_inv l' (settle_ip n r outcome gi) (settle_identifier n r outcome gd) now"
proof -
  note i = assms(1) [unfolded limiter_inv_def]
  have nr: "(n, r) \<in> set (lm_open l)" using assms(4) by (rule map_of_SomeD)
  then have a: "at_id (rv_ipAttempt r) = n" "at_id (rv_identifierAttempt r) = n" using i by auto
  have tk: "(n, rv_ipKey r, at_time (rv_ipAttempt r)) \<in> set (ip_tickets l)"
    "(n, rv_identifierKey r, at_time (rv_identifierAttempt r)) \<in> set (identifier_tickets l)"
    using nr by (force simp: ip_tickets_def identifier_tickets_def)+
  have o: "lm_open l' = AList.delete n (lm_open l)" using assms(4,5) by (auto simp: settle_def Let_def split_beta split: if_splits)
  have t': "ip_tickets l' = filter (\<lambda>h. fst h \<noteq> n) (ip_tickets l)" "identifier_tickets l' = filter (\<lambda>h. fst h \<noteq> n) (identifier_tickets l)"
    by (simp_all add: ip_tickets_def identifier_tickets_def o tickets_delete split_beta)
  have open': "jmap_ok (lm_open l')" "\<forall>(n, r) \<in> set (lm_open l'). at_id (rv_ipAttempt r) = n \<and> at_id (rv_identifierAttempt r) = n"
    using i unfolding o by (simp, auto simp: AList.delete_eq)
  have ip: "tracked IP_WINDOW_MS t (lm_next l) (ip_tickets l) gi (bucket (lm_ip l))" "store_ok MAX_TRACKED_KEYS (lm_ip l)" "length (lm_ip l) < MAX_TRACKED_KEYS"
    and idn: "tracked IDENTIFIER_WINDOW_MS t (lm_next l) (identifier_tickets l) gd (bucket (lm_identifier l))"
      "store_ok MAX_TRACKED_KEYS (lm_identifier l)" "length (lm_identifier l) < MAX_TRACKED_KEYS"
    using i assms(3) by (simp_all add: has_room_def)
  show ?thesis
  proof (cases "outcome = LoginFailure")
    case True
    then have l': "lm_ip l' = snd (confirm (lm_ip l) (rv_ipKey r) (rv_ipAttempt r) IP_WINDOW_MS IP_MAX_FAILURES now (lm_next l))"
      "lm_identifier l' = snd (confirm (lm_identifier l) (rv_identifierKey r) (rv_identifierAttempt r) IDENTIFIER_WINDOW_MS IDENTIFIER_MAX_FAILURES now (lm_next l))"
      "lm_next l' = Suc (lm_next l)"
      using assms(4,5) by (auto simp: settle_def Let_def split_beta)
    have "tracked IP_WINDOW_MS now (lm_next l') (ip_tickets l') (settle_ip n r outcome gi) (bucket (lm_ip l'))"
      using tracked_confirm [OF ip(1) assms(2) _ ip(2,3) tk(1) [folded a(1)], of IP_MAX_FAILURES] True
      by (simp add: l' t' settle_ip_def a) (simp add: IP_WINDOW_MS_def)
    moreover have "tracked IDENTIFIER_WINDOW_MS now (lm_next l') (identifier_tickets l') (settle_identifier n r outcome gd) (bucket (lm_identifier l'))"
      using tracked_confirm [OF idn(1) assms(2) _ idn(2,3) tk(2) [folded a(2)], of IDENTIFIER_MAX_FAILURES] True
      by (simp add: l' t' settle_identifier_def a) (simp add: IDENTIFIER_WINDOW_MS_def)
    ultimately show ?thesis using open' ip(2) idn(2) by (simp add: limiter_inv_def) (simp add: l' confirm_ok)
  next
    case False
    then have l': "lm_ip l' = refund (lm_ip l) (rv_ipKey r) (rv_ipAttempt r)"
      "lm_identifier l' = (let s = refund (lm_identifier l) (rv_identifierKey r) (rv_identifierAttempt r) in
         if outcome = LoginSuccess then AList.delete (rv_identifierKey r) s else s)"
      "lm_next l' = lm_next l"
      using assms(4,5) by (auto simp: settle_def Let_def split_beta)
    have "tracked IP_WINDOW_MS now (lm_next l') (ip_tickets l') (settle_ip n r outcome gi) (bucket (lm_ip l'))"
      using tracked_release [OF ip(1) assms(2) tk(1) [folded a(1)]] False by (simp add: l' t' settle_ip_def a)
    moreover have "tracked IDENTIFIER_WINDOW_MS now (lm_next l') (identifier_tickets l') (settle_identifier n r outcome gd) (bucket (lm_identifier l'))"
    proof -
      note rf = tracked_release [OF idn(1) assms(2) tk(2) [folded a(2)]]
      show ?thesis using rf tracked_delete [OF rf, of "rv_identifierKey r"] False
        by (simp add: l' t' settle_identifier_def a Let_def)
    qed
    ultimately show ?thesis using open' ip(2) idn(2) by (simp add: limiter_inv_def) (simp add: l' refund_ok Let_def)
  qed
qed

lemma run_inv: "limiter_run l gi gd t \<Longrightarrow> limiter_inv l gi gd t"
proof (induction rule: limiter_run.induct)
  case (start t)
  then show ?case
    by (simp add: limiter_inv_def createLoginRateLimiter_def tracked_def ids_ok_def tickets_ok_def owned_def counts_def bucket_def
        ip_tickets_def identifier_tickets_def in_window_def)
qed (auto intro: inv_blocked inv_refuse inv_grant inv_settle)




section \<open>Eviction\<close>

lemma evict_scan_finds:
  "n \<le> EVICTION_SCAN_LIMIT \<Longrightarrow> list_ex (\<lambda>(_, xs). length (live_of w now xs) < mx) (take (EVICTION_SCAN_LIMIT - n) m) \<Longrightarrow>
   \<exists>k xs. evict_scan n w mx now m = Some k \<and> (k, xs) \<in> set m \<and> length (live_of w now xs) < mx"
proof (induction m arbitrary: n)
  case (Cons p m)
  obtain k xs where p: "p = (k, xs)" by (cases p)
  have n: "n < EVICTION_SCAN_LIMIT" using Cons.prems by (cases "n = EVICTION_SCAN_LIMIT") auto
  show ?case
  proof (cases "length (live_of w now xs) < mx")
    case False
    then have "list_ex (\<lambda>(_, xs). length (live_of w now xs) < mx) (take (EVICTION_SCAN_LIMIT - Suc n) m)"
      using Cons.prems(2) n by (auto simp: p take_Cons' split: if_splits)
    then show ?thesis using Cons.IH [of "Suc n"] n False by (auto simp: p)
  qed (use n p in auto)
qed simp

text \<open>A lockout cannot be flushed out: storing a bucket for another key keeps every blocked bucket as it is, as long as one
  of the hundred least recently used ones is not blocked.\<close>

theorem lockout_survives:
  assumes "store_ok 10000 m" "list_ex (\<lambda>(_, xs). length (live_of w now xs) < mx) (take 100 (AList.delete k m))"
    "map_of m k' = Some xs" "mx \<le> length (live_of w now xs)" "k' \<noteq> k"
  shows "map_of (put_bucket w mx now k v m) k' = Some xs \<and> length (put_bucket w mx now k v m) \<le> 10000"
proof -
  have ok: "store_ok MAX_TRACKED_KEYS m" using assms(1) by (simp add: MAX_TRACKED_KEYS_def)
  let ?m = "AList.delete k m"
  obtain e ys where e: "evict_scan 0 w mx now ?m = Some e" "(e, ys) \<in> set ?m" "length (live_of w now ys) < mx"
    using evict_scan_finds [of 0 w now mx ?m] assms(2) by (auto simp: EVICTION_SCAN_LIMIT_def)
  have "map_of ?m e = Some ys" using e(2) assms(1) by (simp add: store_ok_def jmap_ok_map_of)
  then have "e \<noteq> k'" using e(3) assms(3-5) by (auto simp: jmap_simps)
  then have "map_of (put_bucket w mx now k v m) k' = Some xs"
    using assms(3,5) e(1) by (simp add: put_bucket_def Let_def evictOne_def jmap_simps)
  then show ?thesis using limiter_store.ok [OF ok, of w mx now k v] by (simp add: store_ok_def MAX_TRACKED_KEYS_def)
qed

lemma lockout_survives_witness:
  "map_of (put_bucket 60000 1 5 ''c'' [] [(''a'', [\<lparr>at_id = 0, at_time = 0, at_pending = False\<rparr>]), (''b'', [])]) ''a'' = Some [\<lparr>at_id = 0, at_time = 0, at_pending = False\<rparr>]"
  using lockout_survives [of "[(''a'', [\<lparr>at_id = 0, at_time = 0, at_pending = False\<rparr>]), (''b'', [])]" 60000 5 1 "''c''" "''a''" "[\<lparr>at_id = 0, at_time = 0, at_pending = False\<rparr>]" "[]"]
  by (simp add: store_ok_def live_of_def)

text \<open>
  A bound the limiter does not have: a successful login also gives back the places of that account's other attempts in
  flight, so ten more can begin while these are still open.
\<close>

definition two_in_flight :: limiter where
  "two_in_flight = snd (tryAcquire ''2'' ''u'' 0 (snd (tryAcquire ''1'' ''u'' 0 createLoginRateLimiter)))"

lemma in_flight_uncounted:
  "let l = snd (settle 1 LoginSuccess 0 two_in_flight) in
   map_option rv_identifierKey (map_of (lm_open l) 0) = Some ''u'' \<and> lm_identifier l = []"
  by code_simp

section \<open>Address keys\<close>

lemma cut_word: "CHR '':'' \<notin> set g \<Longrightarrow> cut_at ''::'' (g @ s) = (case cut_at ''::'' s of (a, r) \<Rightarrow> (g @ a, r))"
  by (induction g) (auto split: prod.splits)

lemma cut_one: "c \<noteq> CHR '':'' \<Longrightarrow> cut_at ''::'' (CHR '':'' # c # s) = (case cut_at ''::'' (c # s) of (a, r) \<Rightarrow> (CHR '':'' # a, r))"
  by (simp split: prod.splits)

definition ip_group :: "string \<Rightarrow> bool" where
  "ip_group g = (g \<noteq> [] \<and> CHR '':'' \<notin> set g \<and> CHR ''.'' \<notin> set g)"

lemma cut_join:
  assumes "list_all ip_group gs" "cut_at ''::'' s = ([], r)"
  shows "cut_at ''::'' (join '':'' gs @ s) = (join '':'' gs, r)"
  using assms(1)
proof (induction gs)
  case (Cons g gs)
  show ?case
  proof (cases gs)
    case Nil
    then show ?thesis using Cons.prems assms(2) by (simp add: ip_group_def cut_word)
  next
    case (Cons g2 gs')
    then obtain c cs where g2: "g2 = c # cs" "c \<noteq> CHR '':''" using Cons.prems by (cases g2) (auto simp: ip_group_def)
    have j: "join '':'' (g # gs) = g @ CHR '':'' # join '':'' gs" by (simp add: Cons)
    have "\<exists>rest. join '':'' gs @ s = c # rest" using g2 by (cases gs') (auto simp: Cons)
    then obtain rest where rest: "join '':'' gs @ s = c # rest" by blast
    have "cut_at ''::'' (join '':'' gs @ s) = (join '':'' gs, r)" using Cons.IH Cons.prems by simp
    then have "cut_at ''::'' (CHR '':'' # (join '':'' gs @ s)) = (CHR '':'' # join '':'' gs, r)" using g2(2) by (simp only: rest cut_one) simp
    then show ?thesis using Cons.prems by (simp add: j cut_word ip_group_def del: cut_at.simps)
  qed
qed (use assms(2) in simp)

lemma contains_cut: "p \<noteq> [] \<Longrightarrow> contains p s \<longleftrightarrow> snd (cut_at p s) \<noteq> None"
  by (induction s) (auto split: prod.splits)

lemma split_join: "list_all ip_group gs \<Longrightarrow> gs \<noteq> [] \<Longrightarrow> split_on CHR '':'' (join '':'' gs) = gs"
proof (induction gs)
  case (Cons g gs)
  then show ?case by (cases gs) (simp_all add: ip_group_def split_on_single split_on_append)
qed simp

lemma parts_join: "list_all ip_group gs \<Longrightarrow> ip_parts (join '':'' gs) = gs"
proof (cases gs)
  case (Cons g gs')
  assume "list_all ip_group gs"
  moreover have "join '':'' gs \<noteq> []" using calculation Cons by (cases gs') (auto simp: ip_group_def)
  ultimately show ?thesis using split_join [of gs] Cons by (simp add: ip_parts_def)
qed (simp add: ip_parts_def)

lemma no_dot: "list_all ip_group gs \<Longrightarrow> CHR ''.'' \<notin> set (join '':'' gs)"
proof (induction gs)
  case (Cons g gs)
  then show ?case by (cases gs) (auto simp: ip_group_def)
qed simp

text \<open>An IPv6 subscriber has one key: the first four groups of the address, whatever the other four are and whether zero
  groups are written out or not.\<close>

theorem ipv6_key:
  assumes "list_all ip_group hs" "list_all ip_group ts" "length hs + length ts < 8" "list_all ip_group gs" "length gs = 8"
    "take 4 gs = take 4 (hs @ replicate (8 - length hs - length ts) ''0'' @ ts)"
  shows "rateLimitKeyForIp (join '':'' hs @ ''::'' @ join '':'' ts) = rateLimitKeyForIp (join '':'' gs) \<and>
    rateLimitKeyForIp (join '':'' gs) = join '':'' (map (pad_start 4 \<circ> to_lower) (take 4 gs))"
proof -
  have c: "cut_at ''::'' (join '':'' hs @ ''::'' @ join '':'' ts) = (join '':'' hs, Some (join '':'' ts))"
    using cut_join [OF assms(1), of "''::'' @ join '':'' ts"] by simp
  have full: "cut_at ''::'' (join '':'' xs) = (join '':'' xs, None)" if "list_all ip_group xs" for xs
    using cut_join [OF that, of "[]"] by simp
  have colon: "CHR '':'' \<in> set (join '':'' gs)"
  proof -
    obtain g1 g2 rest where "gs = g1 # g2 # rest" using assms(5) by (cases gs; cases "tl gs") auto
    then show ?thesis by simp
  qed
  have "rateLimitKeyForIp (join '':'' gs) = join '':'' (map (pad_start 4 \<circ> to_lower) (take 4 gs))"
    using colon no_dot [OF assms(4)] full [OF assms(4)] contains_cut [of "''::''" "join '':'' gs"] parts_join [OF assms(4)]
    by (simp add: rateLimitKeyForIp_def comp_def)
  moreover have "rateLimitKeyForIp (join '':'' hs @ ''::'' @ join '':'' ts) = join '':'' (map (pad_start 4 \<circ> to_lower) (take 4 gs))"
    using no_dot [OF assms(1)] no_dot [OF assms(2)] c full [OF assms(2)] contains_cut [of "''::''" "join '':'' hs @ ''::'' @ join '':'' ts"]
      parts_join [OF assms(1)] parts_join [OF assms(2)] assms(6)
    by (simp add: rateLimitKeyForIp_def comp_def del: take_append)
  ultimately show ?thesis by simp
qed

lemma ipv6_key_witness:
  "rateLimitKeyForIp ''2a03:4000::1'' = ''2a03:4000:0000:0000'' \<and> rateLimitKeyForIp ''2A03:4000:0:0:9:8:7:6'' = ''2a03:4000:0000:0000''"
proof -
  have "rateLimitKeyForIp ''2a03:4000::1'' = rateLimitKeyForIp ''2a03:4000:0:0:9:8:7:6''"
    using ipv6_key [of "[''2a03'', ''4000'']" "[''1'']" "[''2a03'', ''4000'', ''0'', ''0'', ''9'', ''8'', ''7'', ''6'']"]
    by (simp add: ip_group_def numeral_eq_Suc)
  moreover have "rateLimitKeyForIp ''2a03:4000:0:0:9:8:7:6'' = ''2a03:4000:0000:0000''" by code_simp
  moreover have "rateLimitKeyForIp ''2A03:4000:0:0:9:8:7:6'' = ''2a03:4000:0000:0000''" by code_simp
  ultimately show ?thesis by simp
qed

end
