(* ===== verification/Schedule.thy ===== *)
theory Schedule imports DocumentLock CappedStore "HOL-Library.List_Lexorder" "HOL-Library.Char_ord" begin

text \<open>
  Content rows, the schedule's vocabulary and its middleware (\<open>apps/cms/src/utils/schedule.ts\<close>) and publish
  readiness (\<open>publish-readiness.ts\<close>). A row has its datetime columns as instants in milliseconds (the database only holds
  valid ones), the other attributes as JavaScript values and its to-one relations as the documentId
  they point at. The rest of a middleware chain, Strapi's own part included, is \<open>next\<close>.
\<close>

section \<open>Rows\<close>

record row =
  rw_id :: int
  rw_published :: bool
  rw_publishAt :: "int option"
  rw_unpublishAt :: "int option"
  rw_expiresAt :: "int option"
  rw_scheduleError :: "string option"
  rw_fields :: "(string \<times> js) list"
  rw_links :: "(string \<times> string) list"

definition isScheduledUid :: "js \<Rightarrow> bool" where
  "isScheduledUid uid = (case uid of JStr s \<Rightarrow> s \<in> set SCHEDULED_UIDS | _ \<Rightarrow> False)"

definition isUnpublishScheduledUid :: "string \<Rightarrow> bool" where
  "isUnpublishScheduledUid uid = (uid \<in> set UNPUBLISH_SCHEDULED_UIDS)"

text \<open>\<open>query(uid).findOne\<close>, \<open>count\<close> and \<open>updateMany\<close> on the rows of a document.\<close>

definition draftOf :: "doc \<Rightarrow> row cms \<Rightarrow> row option" where
  "draftOf d c = find (\<lambda>r. \<not> rw_published r) (c_rows c d)"

definition publishedCount :: "doc \<Rightarrow> row cms \<Rightarrow> nat" where
  "publishedCount d c = length (filter rw_published (c_rows c d))"

definition update_rows :: "doc \<Rightarrow> (row \<Rightarrow> bool) \<Rightarrow> (row \<Rightarrow> row) \<Rightarrow> row cms \<Rightarrow> nat \<times> row cms" where
  "update_rows d cond f c =
     (length (filter cond (c_rows c d)), c\<lparr>c_rows := (c_rows c)(d := map (\<lambda>r. if cond r then f r else r) (c_rows c d))\<rparr>)"

section \<open>Decisions\<close>

definition SCHEDULE_BATCH :: nat where "SCHEDULE_BATCH = 50"
definition SCHEDULE_TRANSIENT_ATTEMPTS :: nat where "SCHEDULE_TRANSIENT_ATTEMPTS = 5"
definition WITHDRAWAL_BACKOFF_MINUTES :: "int list" where "WITHDRAWAL_BACKOFF_MINUTES = [5, 15, 60]"
definition WITHDRAWAL_RETRY_QUOTA :: nat where "WITHDRAWAL_RETRY_QUOTA = 10"
definition WITHDRAWAL_RETRY_SCAN :: nat where "WITHDRAWAL_RETRY_SCAN = 200"

definition windowEnd :: "string \<Rightarrow> row \<Rightarrow> int option" where
  "windowEnd uid draft =
     (if uid = ANNOUNCEMENT_UID then rw_expiresAt draft
      else if isUnpublishScheduledUid uid then rw_unpublishAt draft
      else None)"

definition windowExpired :: "string \<Rightarrow> row \<Rightarrow> int \<Rightarrow> bool" where
  "windowExpired uid draft now = (case windowEnd uid draft of None \<Rightarrow> False | Some e \<Rightarrow> e \<le> now)"

text \<open>What a publish can throw: the readiness refusal with its keys, Strapi's validation error with its details,
  an application error, anything else; with the error's name and code.\<close>

datatype sched_error =
    NotPublishable "string list"
  | ValidationErr string js
  | ApplicationErr string string
  | OtherErr string string

datatype schedule_failure = Permanent string string | Transient string

definition TRANSIENT_CODES :: "string list" where
  "TRANSIENT_CODES = [''40P01'', ''40001'', ''55P03'', ''57014'', ''57P01'', ''57P02'', ''57P03'', ''53300'', ''08000'', ''08001'',
     ''08003'', ''08004'', ''08006'', ''ECONNRESET'', ''ECONNREFUSED'', ''ETIMEDOUT'', ''EPIPE'', ''SQLITE_BUSY'', ''SQLITE_LOCKED'']"

fun nameOf :: "sched_error \<Rightarrow> string" where
  "nameOf (NotPublishable _) = ''ValidationError''"
| "nameOf (ValidationErr name _) = name"
| "nameOf (ApplicationErr name _) = name"
| "nameOf (OtherErr name _) = name"

fun codeOf :: "sched_error \<Rightarrow> string" where
  "codeOf (ApplicationErr _ code) = code"
| "codeOf (OtherErr _ code) = code"
| "codeOf _ = []"

fun js_texts :: "js list \<Rightarrow> string list" where
  "js_texts [] = []"
| "js_texts (JStr s # xs) = s # js_texts xs"
| "js_texts (_ # xs) = js_texts xs"

text \<open>The path of a field error is an array of names.\<close>

definition error_path :: "js \<Rightarrow> string" where
  "error_path entry = (case entry of
     JObj fs \<Rightarrow> (case jget fs ''path'' of JArr path \<Rightarrow> join ''.'' (js_texts path) | _ \<Rightarrow> [])
   | _ \<Rightarrow> [])"

definition validationPaths :: "js \<Rightarrow> string list" where
  "validationPaths error_details =
     (let details = (case error_details of JObj fs \<Rightarrow> fs | _ \<Rightarrow> []);
          fromErrors = (case jget details ''errors'' of JArr es \<Rightarrow> filter (\<lambda>p. p \<noteq> []) (map error_path es) | _ \<Rightarrow> []);
          fromKeys = (case jget details ''keys'' of JArr ks \<Rightarrow> js_texts ks | _ \<Rightarrow> []) in
      sort (remdups (fromErrors @ fromKeys)))"

definition describeFailure :: "sched_error \<Rightarrow> string" where
  "describeFailure error =
     (case error of
        NotPublishable keys \<Rightarrow> ''keys: '' @ join '', '' keys
      | ValidationErr name details \<Rightarrow>
        (let paths = validationPaths details in if paths \<noteq> [] then name @ '': '' @ join '', '' paths else name)
      | _ \<Rightarrow> if codeOf error \<noteq> [] then nameOf error @ '' '' @ codeOf error else nameOf error)"

definition classifyScheduleFailure :: "sched_error \<Rightarrow> schedule_failure" where
  "classifyScheduleFailure error =
     (let detail = take 200 (describeFailure error) in
      case error of
        NotPublishable _ \<Rightarrow> Permanent ''notPublishable'' detail
      | ValidationErr _ _ \<Rightarrow> Permanent ''invalid'' detail
      | ApplicationErr _ _ \<Rightarrow> Permanent ''rejected'' detail
      | OtherErr _ _ \<Rightarrow> Transient detail)"

definition isKnownTransient :: "sched_error \<Rightarrow> bool" where
  "isKnownTransient error = (codeOf error \<in> set TRANSIENT_CODES)"

section \<open>Failures of this process\<close>

datatype pass = PublishPass | UnpublishPass

record withdrawal =
  wd_failures :: nat
  wd_at :: int
  wd_revision :: int

text \<open>A key is the tuple the source joins with NUL characters.\<close>

record attempts =
  ta_counts :: "(doc \<times> int \<times> pass, nat) jmap"
  ta_withdrawals :: "(doc, withdrawal) jmap"
  ta_cursors :: "(string, int) jmap"

definition TransientAttempts :: attempts where
  "TransientAttempts = \<lparr>ta_counts = [], ta_withdrawals = [], ta_cursors = []\<rparr>"

definition ATTEMPTS_LIMIT :: nat where "ATTEMPTS_LIMIT = 10000"

definition fail_attempt :: "doc \<Rightarrow> int \<Rightarrow> pass \<Rightarrow> attempts \<Rightarrow> bool \<times> attempts" where
  "fail_attempt d revision p ta =
     (let key = (d, revision, p);
          count = (case map_of (ta_counts ta) key of None \<Rightarrow> 0 | Some n \<Rightarrow> n) + 1 in
      (count \<ge> SCHEDULE_TRANSIENT_ATTEMPTS, ta\<lparr>ta_counts := put_recent ATTEMPTS_LIMIT key count (ta_counts ta)\<rparr>))"

definition clear_attempt :: "doc \<Rightarrow> int \<Rightarrow> pass \<Rightarrow> attempts \<Rightarrow> attempts" where
  "clear_attempt d revision p ta = ta\<lparr>ta_counts := AList.delete (d, revision, p) (ta_counts ta)\<rparr>"

definition withdrawalFailures :: "doc \<Rightarrow> attempts \<Rightarrow> nat" where
  "withdrawalFailures d ta = (case map_of (ta_withdrawals ta) d of None \<Rightarrow> 0 | Some w \<Rightarrow> wd_failures w)"

definition deferWithdrawal :: "doc \<Rightarrow> int \<Rightarrow> int \<Rightarrow> attempts \<Rightarrow> int \<times> attempts" where
  "deferWithdrawal d now revision ta =
     (let failures = withdrawalFailures d ta + 1;
          minutes = WITHDRAWAL_BACKOFF_MINUTES ! (min failures (length WITHDRAWAL_BACKOFF_MINUTES) - 1);
          due = now + minutes * 60000 in
      (due, ta\<lparr>ta_withdrawals := put_recent ATTEMPTS_LIMIT d \<lparr>wd_failures = failures, wd_at = due, wd_revision = revision\<rparr> (ta_withdrawals ta)\<rparr>))"

definition withdrawalReady :: "doc \<Rightarrow> int \<Rightarrow> int \<Rightarrow> attempts \<Rightarrow> bool" where
  "withdrawalReady d now revision ta =
     (case map_of (ta_withdrawals ta) d of None \<Rightarrow> True | Some w \<Rightarrow> wd_revision w \<noteq> revision \<or> wd_at w \<le> now)"

definition clearWithdrawal :: "doc \<Rightarrow> attempts \<Rightarrow> attempts" where
  "clearWithdrawal d ta = ta\<lparr>ta_withdrawals := AList.delete d (ta_withdrawals ta)\<rparr>"

definition withdrawalCursor :: "string \<Rightarrow> attempts \<Rightarrow> int" where
  "withdrawalCursor uid ta = (case map_of (ta_cursors ta) uid of None \<Rightarrow> 0 | Some i \<Rightarrow> i)"

definition setWithdrawalCursor :: "string \<Rightarrow> int \<Rightarrow> attempts \<Rightarrow> attempts" where
  "setWithdrawalCursor uid i ta = ta\<lparr>ta_cursors := AList.update uid i (ta_cursors ta)\<rparr>"

interpretation attempt_counts: capped_store "put_recent ATTEMPTS_LIMIT" ATTEMPTS_LIMIT
  by (rule capped_recent) (simp add: ATTEMPTS_LIMIT_def)

section \<open>Schedule-clear\<close>

record schedule_context =
  sx_uid :: js
  sx_action :: "string option"
  sx_params :: js
  sx_attributes :: "string list option"

type_synonym chain = "js \<Rightarrow> row cms \<Rightarrow> (sched_error + js) \<times> row cms"

definition scheduleFields :: "schedule_context \<Rightarrow> string \<Rightarrow> string list" where
  "scheduleFields ctx uid =
     (let allFields = [''publishAt'', ''unpublishAt'', ''scheduleError''] in
      case sx_attributes ctx of
        Some attributes \<Rightarrow> filter (\<lambda>f. f \<in> set attributes) allFields
      | None \<Rightarrow> if isUnpublishScheduledUid uid then allFields else [''publishAt'', ''scheduleError''])"

text \<open>The data with the fields set to null, and the keys this added.\<close>

definition nulled :: "js \<Rightarrow> string list \<Rightarrow> js \<times> string list" where
  "nulled data fieldNames =
     (let base = (case data of JObj fs \<Rightarrow> fs | _ \<Rightarrow> []) in
      (JObj (fold (\<lambda>f. AList.update f JNull) fieldNames base), filter (\<lambda>f. f \<notin> fst ` set base) fieldNames))"

definition field_set :: "string \<Rightarrow> row \<Rightarrow> bool" where
  "field_set f r = (if f = ''publishAt'' then rw_publishAt r \<noteq> None else if f = ''unpublishAt'' then rw_unpublishAt r \<noteq> None
     else f = ''scheduleError'' \<and> rw_scheduleError r \<noteq> None)"

definition clear_field :: "string \<Rightarrow> row \<Rightarrow> row" where
  "clear_field f r = (if f = ''publishAt'' then r\<lparr>rw_publishAt := None\<rparr> else if f = ''unpublishAt'' then r\<lparr>rw_unpublishAt := None\<rparr>
     else if f = ''scheduleError'' then r\<lparr>rw_scheduleError := None\<rparr> else r)"

definition clearDraft :: "string \<Rightarrow> js \<Rightarrow> string list \<Rightarrow> row cms \<Rightarrow> row cms" where
  "clearDraft uid documentId fieldNames c =
     (case doc_id_of documentId of
        None \<Rightarrow> c
      | Some i \<Rightarrow>
        if fieldNames = [] then c
        else snd (update_rows (uid, i) (\<lambda>r. \<not> rw_published r \<and> list_ex (\<lambda>f. field_set f r) fieldNames) (fold clear_field fieldNames) c))"

definition set_data :: "(string \<times> js) list \<Rightarrow> js \<Rightarrow> js" where
  "set_data params data = JObj (AList.update ''data'' data params)"

definition createScheduleClear :: "schedule_context \<Rightarrow> chain \<Rightarrow> row cms \<Rightarrow> ((sched_error + js) \<times> row cms) \<times> string list" where
  "createScheduleClear ctx next c =
     (if \<not> isScheduledUid (sx_uid ctx) then (next (sx_params ctx) c, [])
      else let uid = (case sx_uid ctx of JStr s \<Rightarrow> s | _ \<Rightarrow> []);
               fieldNames = scheduleFields ctx uid;
               has = (\<lambda>f. f \<in> set fieldNames);
               documentId = (case sx_params ctx of JObj ps \<Rightarrow> jget ps ''documentId'' | _ \<Rightarrow> JUndef) in
        if sx_action ctx = Some ''publish''
        then (next (sx_params ctx) (clearDraft uid documentId (filter has [''publishAt'', ''scheduleError'']) c), [])
        else if sx_action ctx = Some ''unpublish''
        then (next (sx_params ctx) (clearDraft uid documentId (filter has [''publishAt'']) c), [])
        else if sx_action ctx = Some ''clone''
        then (case sx_params ctx of
            JObj ps \<Rightarrow> let (data, added) = nulled (jget ps ''data'') fieldNames in (next (set_data ps data) c, added)
          | _ \<Rightarrow> (next (sx_params ctx) c, []))
        else if sx_action ctx \<in> {Some ''create'', Some ''update''}
        then (case sx_params ctx of
            JObj ps \<Rightarrow>
              let clear = (if jget ps ''status'' = JStr ''published'' then filter has [''publishAt'', ''scheduleError'']
                           else filter has [''scheduleError'']);
                  (data, added) = nulled (jget ps ''data'') clear in (next (set_data ps data) c, added)
          | _ \<Rightarrow> (next (sx_params ctx) c, []))
        else (next (sx_params ctx) c, []))"

end
