(* ===== verification/Readiness.thy ===== *)
theory Readiness imports Schedule begin

text \<open>
  Publish readiness: \<open>apps/cms/src/utils/publish-readiness.ts\<close>. The schema of a type is an argument, as is the way
  JavaScript reads a string as a number; \<open>docs\<close> lists the documents a table holds rows of.
\<close>

section \<open>Blockers\<close>

record attribute =
  ab_type :: "string option"
  ab_required :: bool
  ab_min :: "rat option"
  ab_minLength :: "nat option"
  ab_target :: "string option"

type_synonym schema = "string \<Rightarrow> (string \<times> attribute) list"

definition READINESS_RELATIONS :: "string \<Rightarrow> string list" where
  "READINESS_RELATIONS uid = (if uid = LESSON_UID then [''course''] else if uid = WIKI_PAGE_UID then [''parent''] else [])"

definition SKIPPED_TYPES :: "string list" where
  "SKIPPED_TYPES = [''relation'', ''media'', ''component'', ''dynamiczone'']"

definition NUMBER_TYPES :: "string list" where
  "NUMBER_TYPES = [''integer'', ''biginteger'', ''float'', ''decimal'']"

definition STRING_TYPES :: "string list" where
  "STRING_TYPES = [''string'', ''text'', ''richtext'', ''email'', ''password'', ''uid'']"

text \<open>\<open>new NotPublishableError(keys)\<close>.\<close>

definition not_publishable :: "string list \<Rightarrow> sched_error" where
  "not_publishable keys = NotPublishable (sort (remdups keys))"

datatype relation_ref = RefDocument string | RefRow int

lemma size_last: "xs \<noteq> [] \<Longrightarrow> size (last xs) < size (JArr xs)"
  by (induction xs) auto

lemma size_jget: "size (jget fs k) < size (JObj fs)"
proof (induction fs)
  case (Cons p fs)
  then show ?case by (cases p) auto
qed simp

lemma size_set_last: "jget fs k = JArr s \<Longrightarrow> s \<noteq> [] \<Longrightarrow> size (last s) < size (JObj fs)"
  using size_jget [of fs k] size_last [of s] by simp

function refOf :: "js \<Rightarrow> relation_ref option" where
  "refOf v = (case v of
     JStr s \<Rightarrow> if s = [] then None else Some (RefDocument s)
   | JInt i \<Rightarrow> Some (RefRow i)
   | JArr xs \<Rightarrow> if xs = [] then None else refOf (last xs)
   | JObj fs \<Rightarrow>
       (case jget fs ''set'' of
          JArr s \<Rightarrow> if s = [] then None else refOf (last s)
        | _ \<Rightarrow>
          if (case jget fs ''connect'' of JArr (x # xs) \<Rightarrow> True | _ \<Rightarrow> False) then refOf (jget fs ''connect'')
          else (case jget fs ''documentId'' of
              JStr (c # cs) \<Rightarrow> Some (RefDocument (c # cs))
            | _ \<Rightarrow> (case jget fs ''id'' of JInt i \<Rightarrow> Some (RefRow i) | _ \<Rightarrow> None)))
   | _ \<Rightarrow> None)"
  by pat_completeness auto
termination
  apply (relation "measure size")
  subgoal by simp
  subgoal using size_last by simp
  by (use size_jget size_set_last in simp_all)

declare refOf.simps [simp del]

definition all_rows :: "(string \<Rightarrow> string list) \<Rightarrow> string \<Rightarrow> row cms \<Rightarrow> (string \<times> row) list" where
  "all_rows docs uid c = concat (map (\<lambda>d. map (Pair d) (c_rows c (uid, d))) (docs uid))"

definition targetDocumentId :: "(string \<Rightarrow> string list) \<Rightarrow> string \<Rightarrow> relation_ref \<Rightarrow> row cms \<Rightarrow> string option" where
  "targetDocumentId docs target ref c =
     (case ref of
        RefDocument d \<Rightarrow> Some d
      | RefRow i \<Rightarrow> map_option fst (find (\<lambda>(_, r). rw_id r = i) (all_rows docs target c)))"

definition hasPublishedRow :: "string \<Rightarrow> string \<Rightarrow> row cms \<Rightarrow> bool" where
  "hasPublishedRow target documentId c = (0 < publishedCount (target, documentId) c)"

text \<open>\<open>Number(value)\<close>, None for NaN and the infinities.\<close>

fun js_number :: "(string \<Rightarrow> rat option) \<Rightarrow> js \<Rightarrow> rat option" where
  "js_number to_num (JInt i) = Some (of_int i)"
| "js_number to_num (JFrac q) = Some q"
| "js_number to_num (JBool b) = Some (if b then 1 else 0)"
| "js_number to_num (JStr s) = to_num s"
| "js_number to_num _ = None"

definition blocks :: "(string \<Rightarrow> rat option) \<Rightarrow> attribute \<Rightarrow> js \<Rightarrow> bool" where
  "blocks to_num a v =
     (case ab_type a of
        None \<Rightarrow> False
      | Some t \<Rightarrow>
        if t = [] \<or> t \<in> set SKIPPED_TYPES then False
        else if ab_required a \<and> nullish v then True
        else if t \<in> set NUMBER_TYPES \<and> ab_min a \<noteq> None \<and> \<not> nullish v \<and>
            (case js_number to_num v of None \<Rightarrow> False | Some x \<Rightarrow> x < the (ab_min a)) then True
        else t \<in> set STRING_TYPES \<and> ab_minLength a \<noteq> None \<and> (case v of JStr s \<Rightarrow> length s < the (ab_minLength a) | _ \<Rightarrow> False))"

definition relation_blocks :: "(string \<Rightarrow> string list) \<Rightarrow> schema \<Rightarrow> string \<Rightarrow> (string \<times> js) list \<Rightarrow> row cms \<Rightarrow> string \<Rightarrow> bool" where
  "relation_blocks docs schema uid draft c key =
     (case Option.bind (map_of (schema uid) key) ab_target of
        None \<Rightarrow> False
      | Some target \<Rightarrow>
        if target = [] then False
        else (case refOf (jget draft key) of
            None \<Rightarrow> uid = LESSON_UID
          | Some ref \<Rightarrow> (case targetDocumentId docs target ref c of None \<Rightarrow> True | Some d \<Rightarrow> \<not> hasPublishedRow target d c)))"

definition publishBlockers ::
  "(string \<Rightarrow> rat option) \<Rightarrow> (string \<Rightarrow> string list) \<Rightarrow> schema \<Rightarrow> string \<Rightarrow> (string \<times> js) list \<Rightarrow> row cms \<Rightarrow> string list" where
  "publishBlockers to_num docs schema uid draft c =
     sort (map fst (filter (\<lambda>(key, a). blocks to_num a (jget draft key)) (schema uid)) @
       filter (relation_blocks docs schema uid draft c) (READINESS_RELATIONS uid))"

section \<open>The middleware\<close>

definition publishesInAction :: "string option \<Rightarrow> js \<Rightarrow> bool" where
  "publishesInAction action params =
     (action = Some ''publish'' \<or>
      action \<in> {Some ''create'', Some ''update''} \<and> (case params of JObj ps \<Rightarrow> jget ps ''status'' = JStr ''published'' | _ \<Rightarrow> False))"

text \<open>A stored row as the record a query with the readiness relations populated answers.\<close>

definition row_record :: "row \<Rightarrow> (string \<times> js) list" where
  "row_record r = rw_fields r @ map (\<lambda>(k, d). (k, JObj [(''documentId'', JStr d)])) (rw_links r)"

definition storedDraft :: "doc \<Rightarrow> row cms \<Rightarrow> (string \<times> js) list option" where
  "storedDraft d c = map_option row_record (draftOf d c)"

definition draftPublishBlockers ::
  "(string \<Rightarrow> rat option) \<Rightarrow> (string \<Rightarrow> string list) \<Rightarrow> schema \<Rightarrow> doc \<Rightarrow> row cms \<Rightarrow> string list option" where
  "draftPublishBlockers to_num docs schema d c =
     map_option (\<lambda>stored. publishBlockers to_num docs schema (fst d) stored c) (storedDraft d c)"

definition overlay_field :: "string \<times> js \<Rightarrow> (string \<times> js) list \<Rightarrow> (string \<times> js) list" where
  "overlay_field kv merged =
     (case kv of (key, v) \<Rightarrow>
       (case v of
          JObj fs \<Rightarrow>
            if map_of fs ''set'' \<noteq> None \<or> map_of fs ''connect'' \<noteq> None \<or> map_of fs ''disconnect'' \<noteq> None then
              (case jget fs ''set'' of
                 JArr s \<Rightarrow> AList.update key (JArr s) merged
               | _ \<Rightarrow>
                 (case jget fs ''connect'' of
                    JArr (x # xs) \<Rightarrow> AList.update key (JArr (x # xs)) merged
                  | _ \<Rightarrow> (case jget fs ''disconnect'' of JArr (x # xs) \<Rightarrow> AList.update key JNull merged | _ \<Rightarrow> merged)))
            else AList.update key v merged
        | _ \<Rightarrow> AList.update key v merged))"

definition overlayDraft :: "(string \<times> js) list option \<Rightarrow> js \<Rightarrow> (string \<times> js) list" where
  "overlayDraft stored data =
     (let merged = (case stored of None \<Rightarrow> [] | Some s \<Rightarrow> s) in
      case data of JObj fs \<Rightarrow> fold overlay_field fs merged | _ \<Rightarrow> merged)"

definition lostLinks :: "doc \<Rightarrow> row cms \<Rightarrow> string list" where
  "lostLinks d c =
     (case (find (\<lambda>r. \<not> rw_published r) (c_rows c d), find rw_published (c_rows c d)) of
        (Some draft, Some published) \<Rightarrow>
          filter (\<lambda>key. map_of (rw_links draft) key \<noteq> None \<and> map_of (rw_links published) key = None) (READINESS_RELATIONS (fst d))
      | _ \<Rightarrow> [])"

definition documentIdOf :: "js \<Rightarrow> js \<Rightarrow> string option" where
  "documentIdOf params result =
     (case (case params of JObj ps \<Rightarrow> doc_id_of (jget ps ''documentId'') | _ \<Rightarrow> None) of
        Some d \<Rightarrow> Some d
      | None \<Rightarrow> (case result of JObj fs \<Rightarrow> (case jget fs ''documentId'' of JStr d \<Rightarrow> Some d | _ \<Rightarrow> None) | _ \<Rightarrow> None))"

text \<open>An error after \<open>next\<close> rolls back with the lock's transaction.\<close>

definition createPublishReadiness ::
  "(string \<Rightarrow> rat option) \<Rightarrow> (string \<Rightarrow> string list) \<Rightarrow> schema \<Rightarrow> schedule_context \<Rightarrow> chain \<Rightarrow> row cms \<Rightarrow> (sched_error + js) \<times> row cms" where
  "createPublishReadiness to_num docs schema ctx next c =
     (if \<not> isScheduledUid (sx_uid ctx) \<or> \<not> publishesInAction (sx_action ctx) (sx_params ctx) then next (sx_params ctx) c
      else let uid = (case sx_uid ctx of JStr s \<Rightarrow> s | _ \<Rightarrow> []);
               params = (case sx_params ctx of JObj ps \<Rightarrow> JObj ps | _ \<Rightarrow> JObj []);
               stored = Option.bind (documentIdOf params JNull) (\<lambda>d. storedDraft (uid, d) c) in
        if sx_action ctx = Some ''publish'' \<and> stored = None then next (sx_params ctx) c
        else let draft = (if sx_action ctx = Some ''publish'' then the stored
                          else overlayDraft stored (case params of JObj ps \<Rightarrow> jget ps ''data'' | _ \<Rightarrow> JUndef));
                 blockers = publishBlockers to_num docs schema uid draft c in
          if blockers \<noteq> [] then (Inl (not_publishable blockers), c)
          else (case next (sx_params ctx) c of
              (Inl e, c') \<Rightarrow> (Inl e, c')
            | (Inr result, c') \<Rightarrow>
              (case documentIdOf params result of
                 None \<Rightarrow> (Inr result, c')
               | Some d \<Rightarrow>
                 let lost = (if d = [] then [] else lostLinks (uid, d) c') in
                 if lost \<noteq> [] then (Inl (not_publishable lost), c') else (Inr result, c'))))"

section \<open>What a publish leaves\<close>

lemma insort_empty [simp]: "sort xs = [] \<longleftrightarrow> xs = []"
  by (metis length_0_conv length_sort)



definition demo_schema :: schema where
  "demo_schema uid = (if uid = LESSON_UID then
     [(''title'', \<lparr>ab_type = Some ''string'', ab_required = True, ab_min = None, ab_minLength = Some 1, ab_target = None\<rparr>),
      (''course'', \<lparr>ab_type = Some ''relation'', ab_required = False, ab_min = None, ab_minLength = None, ab_target = Some COURSE_UID\<rparr>)] else [])"

definition demo_row :: "int \<Rightarrow> bool \<Rightarrow> (string \<times> js) list \<Rightarrow> (string \<times> string) list \<Rightarrow> row" where
  "demo_row i published fs ls = \<lparr>rw_id = i, rw_published = published, rw_publishAt = None, rw_unpublishAt = None, rw_expiresAt = None,
     rw_scheduleError = None, rw_fields = fs, rw_links = ls\<rparr>"

definition demo_lessons :: "bool \<Rightarrow> row cms" where
  "demo_lessons published = \<lparr>c_versions = [], c_rows = \<lambda>d.
     if d = (LESSON_UID, ''l'') then
       (if published then [demo_row 3 True [(''title'', JStr ''Fire'')] [(''course'', ''c'')]] else []) @ [demo_row 1 False [(''title'', JStr ''Fire'')] [(''course'', ''c'')]]
     else if d = (COURSE_UID, ''c'') then [demo_row 2 True [] []] else []\<rparr>"


end
