(* ===== verification/Scheduler.thy ===== *)
theory Scheduler imports Readiness begin

text \<open>
  The scheduled publisher: \<open>apps/cms/src/cron/scheduled-publish.ts\<close>. Strapi's Document Service (with the middleware
  chain around it), the module switches and the clock are arguments; a transaction that throws leaves nothing. The
  selections read the rows of the documents \<open>docs\<close> lists for a type.
\<close>

section \<open>Environment and results\<close>

record service =
  sv_publish :: "doc \<Rightarrow> row cms \<Rightarrow> sched_error + row cms"
  sv_unpublish :: "doc \<Rightarrow> row cms \<Rightarrow> sched_error + row cms"
  sv_docs :: "string \<Rightarrow> string list"
  sv_schema :: schema
  sv_number :: "string \<Rightarrow> rat option"
  sv_off :: "string \<Rightarrow> bool"

datatype sched_outcome = Published | Unpublished | Cleared | WindowExpired | Failed | Retrying | Skipped

record audit =
  au_action :: string
  au_target :: doc
  au_revision :: int
  au_detail :: string

text \<open>The database with its audit log; a step keeps both or, when it throws, neither.\<close>

record world =
  w_cms :: "row cms"
  w_audit :: "audit list"

definition DEPENDENCY_WAIT_MS :: int where "DEPENDENCY_WAIT_MS = 60 * 60000"

definition READINESS_TARGETS :: "string \<Rightarrow> (string \<times> string) option" where
  "READINESS_TARGETS uid = (if uid = LESSON_UID then Some (''course'', COURSE_UID)
     else if uid = WIKI_PAGE_UID then Some (''parent'', WIKI_PAGE_UID) else None)"

definition isDue :: "int option \<Rightarrow> int \<Rightarrow> bool" where
  "isDue v now = (case v of None \<Rightarrow> False | Some a \<Rightarrow> a \<le> now)"

definition linkedDocumentId :: "row \<Rightarrow> string \<Rightarrow> string option" where
  "linkedDocumentId r key = (case map_of (rw_links r) key of None \<Rightarrow> None | Some d \<Rightarrow> if d = [] then None else Some d)"

section \<open>Selections\<close>

text \<open>\<open>ORDER BY column, id LIMIT n\<close>.\<close>

definition ordered_rows :: "(row \<Rightarrow> int option) \<Rightarrow> nat \<Rightarrow> (string \<times> row) list \<Rightarrow> string list" where
  "ordered_rows col n rows = map fst (take n (sort_key (\<lambda>(_, r). the (col r)) (sort_key (\<lambda>(_, r). rw_id r) rows)))"

definition is_published :: "doc \<Rightarrow> row cms \<Rightarrow> bool" where
  "is_published d c = (0 < publishedCount d c)"

definition due_draft :: "doc \<Rightarrow> int \<Rightarrow> row cms \<Rightarrow> bool" where
  "due_draft d now c = list_ex (\<lambda>r. \<not> rw_published r \<and> isDue (rw_publishAt r) now) (c_rows c d)"

definition waits :: "string \<Rightarrow> row \<Rightarrow> int \<Rightarrow> row cms \<Rightarrow> bool" where
  "waits uid d now c =
     (case READINESS_TARGETS uid of
        None \<Rightarrow> False
      | Some (key, target) \<Rightarrow>
        \<not> isDue (rw_publishAt d) (now - DEPENDENCY_WAIT_MS) \<and>
        (case map_of (rw_links d) key of None \<Rightarrow> False
         | Some p \<Rightarrow> due_draft (target, p) now c \<and> \<not> is_published (target, p) c))"

definition duePublishes :: "service \<Rightarrow> string \<Rightarrow> int \<Rightarrow> row cms \<Rightarrow> string list" where
  "duePublishes sv uid now c =
     filter (\<lambda>i. i \<noteq> []) (ordered_rows rw_publishAt SCHEDULE_BATCH (filter (\<lambda>(i, d).
       \<not> rw_published d \<and> isDue (rw_publishAt d) now \<and>
       \<not> (isUnpublishScheduledUid uid \<and> isDue (rw_unpublishAt d) now \<and> is_published (uid, i) c) \<and>
       \<not> waits uid d now c) (all_rows (sv_docs sv) uid c)))"

definition backoffOver :: "doc \<Rightarrow> int \<Rightarrow> attempts \<Rightarrow> row cms \<Rightarrow> bool" where
  "backoffOver d now ta c = (if withdrawalFailures d ta = 0 then True else withdrawalReady d now (readRevision c d) ta)"

definition healthyWithdrawals :: "service \<Rightarrow> string \<Rightarrow> int \<Rightarrow> attempts \<Rightarrow> nat \<Rightarrow> row cms \<Rightarrow> string list" where
  "healthyWithdrawals sv uid now ta limit c =
     filter (\<lambda>i. i \<noteq> [] \<and> backoffOver (uid, i) now ta c) (ordered_rows rw_unpublishAt limit (filter (\<lambda>(i, d).
       \<not> rw_published d \<and> isDue (rw_unpublishAt d) now \<and> rw_scheduleError d = None \<and>
       \<not> (rw_publishAt d \<noteq> None \<and> \<not> is_published (uid, i) c)) (all_rows (sv_docs sv) uid c)))"

text \<open>The failing withdrawals of a type by ascending row id; whether one may be attempted now.\<close>

definition failing_rows :: "service \<Rightarrow> string \<Rightarrow> int \<Rightarrow> row cms \<Rightarrow> (string \<times> row) list" where
  "failing_rows sv uid now c = sort_key (\<lambda>(_, r). rw_id r) (filter (\<lambda>(_, d).
     \<not> rw_published d \<and> isDue (rw_unpublishAt d) now \<and> rw_scheduleError d \<noteq> None) (all_rows (sv_docs sv) uid c))"

definition retry_ready :: "string \<Rightarrow> int \<Rightarrow> attempts \<Rightarrow> row cms \<Rightarrow> string \<times> row \<Rightarrow> bool" where
  "retry_ready uid now ta c p = (case p of (i, d) \<Rightarrow>
     i \<noteq> [] \<and> \<not> (\<not> is_published (uid, i) c \<and> rw_publishAt d \<noteq> None) \<and> backoffOver (uid, i) now ta c)"

fun examine :: "(string \<times> row \<Rightarrow> bool) \<Rightarrow> (string \<times> row) list \<Rightarrow> nat \<times> int \<times> string list \<Rightarrow> nat \<times> int \<times> string list" where
  "examine ready [] st = st"
| "examine ready ((i, d) # rows) (examined, cursor, picked) =
     (if ready (i, d)
      then (let picked' = picked @ [i] in
        if length picked' \<ge> WITHDRAWAL_RETRY_QUOTA then (examined + 1, rw_id d, picked')
        else examine ready rows (examined + 1, rw_id d, picked'))
      else examine ready rows (examined + 1, rw_id d, picked))"

lemma examine_counts:
  "examine ready rows (e, cur, p) = (e', cur', p') \<Longrightarrow> length p < WITHDRAWAL_RETRY_QUOTA \<Longrightarrow>
   e \<le> e' \<and> (length p' < WITHDRAWAL_RETRY_QUOTA \<longrightarrow> e' = e + length rows)"
proof (induction rows arbitrary: e cur p)
  case (Cons r rows)
  obtain i d where "r = (i, d)" by (cases r)
  then show ?case using Cons.prems Cons.IH [of "e + 1" "rw_id d" p] Cons.IH [of "e + 1" "rw_id d" "p @ [i]"]
    by (auto simp: Let_def not_le split: if_splits)
qed simp

text \<open>The loop: read from the cursor on, at the end wrap once to the rows up to where the run started.\<close>

function retry_loop :: "(string \<times> row \<Rightarrow> bool) \<Rightarrow> (string \<times> row) list \<Rightarrow> int \<Rightarrow> bool \<Rightarrow> nat \<times> int \<times> string list \<Rightarrow> int \<times> string list" where
  "retry_loop ready failing start wrapped (examined, cursor, picked) =
     (if examined < WITHDRAWAL_RETRY_SCAN \<and> length picked < WITHDRAWAL_RETRY_QUOTA
      then (let limit = WITHDRAWAL_RETRY_SCAN - examined;
                rows = take limit (filter (\<lambda>(_, r). cursor < rw_id r \<and> (wrapped \<longrightarrow> rw_id r \<le> start)) failing);
                (examined', cursor', picked') = examine ready rows (examined, cursor, picked) in
        if length picked' \<ge> WITHDRAWAL_RETRY_QUOTA \<or> length rows = limit
        then retry_loop ready failing start wrapped (examined', cursor', picked')
        else if wrapped \<or> start = 0 then (0, picked')
        else retry_loop ready failing start True (examined', 0, picked'))
      else (cursor, picked))"
  by pat_completeness auto
termination
proof (relation "measure (\<lambda>(_, _, _, wrapped, examined, _, picked).
    if examined < WITHDRAWAL_RETRY_SCAN \<and> length picked < WITHDRAWAL_RETRY_QUOTA then if wrapped then 1 else 2 else 0)", goal_cases)
  case (2 ready failing start wrapped examined cursor picked limit rows x examined' xa cursor' picked')
  then have eq: "examine ready rows (examined, cursor, picked) = (examined', cursor', picked')"
    and c: "examined < WITHDRAWAL_RETRY_SCAN" "length picked < WITHDRAWAL_RETRY_QUOTA"
    and d: "WITHDRAWAL_RETRY_QUOTA \<le> length picked' \<or> length rows = WITHDRAWAL_RETRY_SCAN - examined" by auto
  have "\<not> (examined' < WITHDRAWAL_RETRY_SCAN \<and> length picked' < WITHDRAWAL_RETRY_QUOTA)"
    using examine_counts [OF eq c(2)] d c(1) by auto
  then show ?case using c by (auto simp del: not_less)
qed auto

declare retry_loop.simps [simp del]

definition retryWithdrawals :: "service \<Rightarrow> string \<Rightarrow> int \<Rightarrow> attempts \<Rightarrow> row cms \<Rightarrow> string list \<times> attempts" where
  "retryWithdrawals sv uid now ta c =
     (let start = withdrawalCursor uid ta;
          (cursor, picked) = retry_loop (retry_ready uid now ta c) (failing_rows sv uid now c) start False (0, start, []) in
      (picked, setWithdrawalCursor uid cursor ta))"

definition dueUnpublishes :: "service \<Rightarrow> string \<Rightarrow> int \<Rightarrow> attempts \<Rightarrow> row cms \<Rightarrow> string list \<times> attempts" where
  "dueUnpublishes sv uid now ta c =
     (let (retries, ta') = retryWithdrawals sv uid now ta c;
          healthy = healthyWithdrawals sv uid now ta' (SCHEDULE_BATCH - length retries) c in
      (healthy @ retries, ta'))"

section \<open>One document\<close>

definition auditScheduleFailed :: "doc \<Rightarrow> int \<Rightarrow> string \<Rightarrow> string \<Rightarrow> world \<Rightarrow> world" where
  "auditScheduleFailed d revision detail action w =
     w\<lparr>w_audit := w_audit w @ [\<lparr>au_action = action, au_target = d, au_revision = revision, au_detail = detail\<rparr>]\<rparr>"

definition unpublishOne :: "service \<Rightarrow> doc \<Rightarrow> int \<Rightarrow> int \<Rightarrow> world \<Rightarrow> sched_error + sched_outcome \<times> world" where
  "unpublishOne sv d r atv w =
     (let (locked, c1) = lockDocument d (w_cms w); w1 = w\<lparr>w_cms := c1\<rparr> in
      if locked \<noteq> r then Inr (Skipped, w1)
      else (case draftOf d c1 of
          None \<Rightarrow> Inr (Skipped, w1)
        | Some draft \<Rightarrow>
          if \<not> isDue (rw_unpublishAt draft) atv then Inr (Skipped, w1)
          else let published = publishedCount d c1 in
            if published = 0 \<and> rw_publishAt draft \<noteq> None then Inr (Skipped, w1)
            else let (claim, c2) = update_rows d (\<lambda>r. rw_unpublishAt r \<noteq> None) (\<lambda>r. r\<lparr>rw_unpublishAt := None\<rparr>) c1 in
              if claim < 1 then Inr (Skipped, w\<lparr>w_cms := c2\<rparr>)
              else let c3 = (if rw_scheduleError draft \<noteq> None
                             then snd (update_rows d (\<lambda>r. \<not> rw_published r) (\<lambda>r. r\<lparr>rw_scheduleError := None\<rparr>) c2) else c2) in
                if published = 0
                then let (revision, c4) = advanceRevision d c3 in
                  Inr (Cleared, auditScheduleFailed d revision ''nothing was published; the withdrawal time passed'' ''scheduleUnpublish''
                    (w\<lparr>w_cms := c4\<rparr>))
                else (case sv_unpublish sv d c3 of Inl e \<Rightarrow> Inl e | Inr c4 \<Rightarrow> Inr (Unpublished, w\<lparr>w_cms := c4\<rparr>))))"

definition publishOne :: "service \<Rightarrow> doc \<Rightarrow> int \<Rightarrow> int \<Rightarrow> world \<Rightarrow> sched_error + sched_outcome \<times> world" where
  "publishOne sv d r atv w =
     (let (locked, c1) = lockDocument d (w_cms w); w1 = w\<lparr>w_cms := c1\<rparr> in
      if locked \<noteq> r then Inr (Skipped, w1)
      else (case draftOf d c1 of
          None \<Rightarrow> Inr (Skipped, w1)
        | Some draft \<Rightarrow>
          if \<not> isDue (rw_publishAt draft) atv then Inr (Skipped, w1)
          else if isUnpublishScheduledUid (fst d) \<and> isDue (rw_unpublishAt draft) atv \<and> 0 < publishedCount d c1 then Inr (Skipped, w1)
          else if windowExpired (fst d) draft atv
          then let (_, c2) = update_rows d (\<lambda>r. \<not> rw_published r) (\<lambda>r. r\<lparr>rw_publishAt := None,
                     rw_unpublishAt := (if isUnpublishScheduledUid (fst d) then None else rw_unpublishAt r),
                     rw_scheduleError := Some ''windowExpired''\<rparr>) c1;
                   (revision, c3) = advanceRevision d c2 in
            Inr (WindowExpired, auditScheduleFailed d revision ''windowExpired'' ''scheduleFailed'' (w\<lparr>w_cms := c3\<rparr>))
          else let (claim, c2) = update_rows d (\<lambda>r. rw_id r = rw_id draft \<and> rw_publishAt r \<noteq> None) (\<lambda>r. r\<lparr>rw_publishAt := None\<rparr>) c1 in
            if claim \<noteq> 1 then Inr (Skipped, w\<lparr>w_cms := c2\<rparr>)
            else (case sv_publish sv d c2 of Inl e \<Rightarrow> Inl e | Inr c3 \<Rightarrow> Inr (Published, w\<lparr>w_cms := c3\<rparr>))))"

datatype recorded = Superseded | Stale | Recorded int

definition recordScheduleFailure ::
  "doc \<Rightarrow> int \<Rightarrow> pass \<Rightarrow> string \<Rightarrow> string \<Rightarrow> (row cms \<Rightarrow> bool) option \<Rightarrow> world \<Rightarrow> recorded \<times> world" where
  "recordScheduleFailure d r p code detail stillApplies w =
     (let (locked, c1) = lockDocument d (w_cms w); w1 = w\<lparr>w_cms := c1\<rparr> in
      if locked \<noteq> r then (Superseded, w1)
      else if (case stillApplies of None \<Rightarrow> False | Some f \<Rightarrow> \<not> f c1) then (Stale, w1)
      else if p = UnpublishPass \<and> (case draftOf d c1 of None \<Rightarrow> False | Some draft \<Rightarrow> rw_scheduleError draft = Some code) then (Recorded r, w1)
      else let (_, c2) = update_rows d (\<lambda>r. \<not> rw_published r) (\<lambda>r. if p = PublishPass
                 then r\<lparr>rw_scheduleError := Some code, rw_publishAt := None\<rparr> else r\<lparr>rw_scheduleError := Some code\<rparr>) c1;
               (revision, c3) = advanceRevision d c2;
               prefix = (if p = UnpublishPass then ''unpublish '' else []) in
        (Recorded revision, auditScheduleFailed d revision (prefix @ code @ '': '' @ detail) ''scheduleFailed'' (w\<lparr>w_cms := c3\<rparr>)))"

datatype dependency = DepPublished | DepWaiting | DepNone

definition dependencyState :: "doc \<Rightarrow> int \<Rightarrow> row cms \<Rightarrow> dependency" where
  "dependencyState d now c =
     (case READINESS_TARGETS (fst d) of
        None \<Rightarrow> DepNone
      | Some (key, target) \<Rightarrow>
        (case draftOf d c of
           None \<Rightarrow> DepNone
         | Some draft \<Rightarrow>
           (case linkedDocumentId draft key of
              None \<Rightarrow> DepNone
            | Some t \<Rightarrow>
              if is_published (target, t) c then DepPublished
              else (case rw_publishAt draft of
                  None \<Rightarrow> DepNone
                | Some due \<Rightarrow>
                  if now \<ge> due + DEPENDENCY_WAIT_MS then DepNone
                  else if due_draft (target, t) now c then DepWaiting else DepNone))))"

definition refusalStillHolds :: "service \<Rightarrow> doc \<Rightarrow> int \<Rightarrow> row cms \<Rightarrow> bool" where
  "refusalStillHolds sv d now c =
     (case draftPublishBlockers (sv_number sv) (sv_docs sv) (sv_schema sv) d c of
        None \<Rightarrow> False
      | Some blockers \<Rightarrow>
        if blockers = [] then False
        else (case READINESS_TARGETS (fst d) of
            None \<Rightarrow> True
          | Some (key, _) \<Rightarrow> if key \<notin> set blockers then True else dependencyState d now c = DepNone))"

text \<open>
  The clock under the document's lock, under the failure record's lock and when a withdrawal is deferred; the error a
  database throws in the transaction, if it does, and whether recording a failure fails too.
\<close>

record ticks =
  tk_lock :: int
  tk_record :: int
  tk_defer :: int
  tk_trouble :: "sched_error option"
  tk_broken :: bool

text \<open>
  \<open>runScheduledDocument\<close>: what happened, the world and this process's attempts. A transaction that throws leaves the world as it was.
\<close>

definition runScheduledDocument ::
  "service \<Rightarrow> doc \<Rightarrow> pass \<Rightarrow> ticks \<Rightarrow> int \<Rightarrow> world \<Rightarrow> attempts \<Rightarrow> sched_outcome \<times> world \<times> attempts" where
  "runScheduledDocument sv d p t r w ta =
     (case (case tk_trouble t of Some e \<Rightarrow> Inl e
       | None \<Rightarrow> if p = PublishPass then publishOne sv d r (tk_lock t) w else unpublishOne sv d r (tk_lock t) w) of
        Inr (outcome, w') \<Rightarrow>
          (outcome, w', if outcome = Skipped then ta
            else let ta1 = clear_attempt d r p ta in if p = UnpublishPass then clearWithdrawal d ta1 else ta1)
      | Inl error \<Rightarrow>
        let failure = classifyScheduleFailure error;
            deferred = (p = UnpublishPass \<and> 0 < withdrawalFailures d ta);
            retry = (\<not> deferred \<and> (case failure of Transient _ \<Rightarrow> True | _ \<Rightarrow> False));
            stillApplies = (if p = PublishPass \<and> (case error of NotPublishable _ \<Rightarrow> True | _ \<Rightarrow> False)
              then Some (refusalStillHolds sv d (tk_record t)) else None);
            (exhausted, ta1) = (if retry then fail_attempt d r p ta else (True, ta)) in
        if \<not> exhausted then (Retrying, w, ta1)
        else let code = (if retry then ''retryExhausted'' else case failure of Permanent c _ \<Rightarrow> c | Transient _ \<Rightarrow> ''retryExhausted'');
                 detail = (case failure of Permanent _ x \<Rightarrow> x | Transient x \<Rightarrow> x) in
          if tk_broken t then (Retrying, w, ta1)
          else (case recordScheduleFailure d r p code detail stillApplies w of
              (Stale, w') \<Rightarrow> (Retrying, w', ta1)
            | (Superseded, w') \<Rightarrow> (Skipped, w', ta1)
            | (Recorded revision, w') \<Rightarrow>
              let ta2 = clear_attempt d r p ta1 in
              (Failed, w', if p = UnpublishPass then snd (deferWithdrawal d (tk_defer t) revision ta2) else ta2)))"

section \<open>A run\<close>

type_synonym run_state = "(sched_outcome \<times> doc) list \<times> world \<times> attempts"

definition run_document :: "service \<Rightarrow> (doc \<Rightarrow> pass \<Rightarrow> ticks) \<Rightarrow> string \<Rightarrow> pass \<Rightarrow> string \<Rightarrow> run_state \<Rightarrow> run_state" where
  "run_document sv clock uid p i st =
     (case st of (result, w, ta) \<Rightarrow>
       let d = (uid, i); r = readRevision (w_cms w) d;
           (outcome, w', ta') = runScheduledDocument sv d p (clock d p) r w ta in
       (result @ [(outcome, d)], w', ta'))"

definition run_type :: "service \<Rightarrow> int \<Rightarrow> (doc \<Rightarrow> pass \<Rightarrow> ticks) \<Rightarrow> string \<Rightarrow> run_state \<Rightarrow> run_state" where
  "run_type sv now clock uid st =
     (if sv_off sv uid then st
      else let st1 = (if isUnpublishScheduledUid uid
                 then (case st of (result, w, ta) \<Rightarrow>
                   let (ids, ta') = dueUnpublishes sv uid now ta (w_cms w) in
                   fold (run_document sv clock uid UnpublishPass) ids (result, w, ta'))
                 else st) in
        fold (run_document sv clock uid PublishPass) (duePublishes sv uid now (w_cms (fst (snd st1)))) st1)"

definition runScheduledPublishing :: "service \<Rightarrow> int \<Rightarrow> (doc \<Rightarrow> pass \<Rightarrow> ticks) \<Rightarrow> world \<Rightarrow> attempts \<Rightarrow> run_state" where
  "runScheduledPublishing sv now clock w ta = fold (run_type sv now clock) SCHEDULED_UIDS ([], w, ta)"


section \<open>Publishing\<close>

lemma locked: "lockDocument d c = (readRevision c d, ensureRow d c)"
  by (rule lock_document)

lemma draft_ensure [simp]: "draftOf d (ensureRow k c) = draftOf d c" "publishedCount d (ensureRow k c) = publishedCount d c"
  by (simp_all add: draftOf_def publishedCount_def)

lemma rows_update [simp]: "c_rows (snd (update_rows d P f c)) = (c_rows c)(d := map (\<lambda>r. if P r then f r else r) (c_rows c d))"
  by (simp add: update_rows_def)

text \<open>C16: The scheduler never publishes what a deadline ended: what it publishes is due, unchanged since it was selected, inside its
  window at a time read under the lock and not a published document whose withdrawal is due; its claim is taken first.\<close>

theorem publish_within_window:
  assumes "runScheduledDocument sv d PublishPass t r w ta = (Published, w', ta')"
  shows "\<exists>draft c2. draftOf d (w_cms w) = Some draft \<and> readRevision (w_cms w) d = r \<and> isDue (rw_publishAt draft) (tk_lock t) \<and>
    \<not> windowExpired (fst d) draft (tk_lock t) \<and>
    (isUnpublishScheduledUid (fst d) \<and> isDue (rw_unpublishAt draft) (tk_lock t) \<longrightarrow> publishedCount d (w_cms w) = 0) \<and>
    sv_publish sv d c2 = Inr (w_cms w') \<and>
    c_rows c2 = (c_rows (w_cms w))(d := map (\<lambda>r. if rw_id r = rw_id draft then r\<lparr>rw_publishAt := None\<rparr> else r) (c_rows (w_cms w) d)) \<and>
    w_audit w' = w_audit w"
proof -
  have "publishOne sv d r (tk_lock t) w = Inr (Published, w')"
    using assms by (auto simp: runScheduledDocument_def Let_def split: option.splits sum.splits prod.splits if_splits recorded.splits)
  then obtain draft c2 where p: "draftOf d (w_cms w) = Some draft" "readRevision (w_cms w) d = r" "isDue (rw_publishAt draft) (tk_lock t)"
      "\<not> windowExpired (fst d) draft (tk_lock t)"
      "isUnpublishScheduledUid (fst d) \<and> isDue (rw_unpublishAt draft) (tk_lock t) \<longrightarrow> publishedCount d (w_cms w) = 0"
      "c2 = snd (update_rows d (\<lambda>r. rw_id r = rw_id draft \<and> rw_publishAt r \<noteq> None) (\<lambda>r. r\<lparr>rw_publishAt := None\<rparr>) (ensureRow d (w_cms w)))"
      "sv_publish sv d c2 = Inr (w_cms w')" "w_audit w' = w_audit w"
    by (auto simp: publishOne_def locked Let_def split: option.splits sum.splits prod.splits if_splits)
  have "map (\<lambda>r. if rw_id r = rw_id draft \<and> rw_publishAt r \<noteq> None then r\<lparr>rw_publishAt := None\<rparr> else r) rs =
      map (\<lambda>r. if rw_id r = rw_id draft then r\<lparr>rw_publishAt := None\<rparr> else r) rs" for rs :: "row list"
    by (induction rs) auto
  then have "c_rows c2 = (c_rows (w_cms w))(d := map (\<lambda>r. if rw_id r = rw_id draft then r\<lparr>rw_publishAt := None\<rparr> else r) (c_rows (w_cms w) d))"
    by (simp only: p(6) rows_update ensureRow_simps(1))
  then show ?thesis using p by blast
qed

section \<open>Withdrawals\<close>

lemma find_map: "find P (map f xs) = map_option f (find (P \<circ> f) xs)"
  by (induction xs) auto

lemma marked_draft:
  assumes "draftOf d c = Some draft" "\<And>r. rw_published (f r) = rw_published r"
  shows "draftOf d (snd (update_rows d (\<lambda>r. \<not> rw_published r) f c)) = Some (f draft)"
proof -
  have "(\<lambda>r. \<not> rw_published r) \<circ> (\<lambda>r. if \<not> rw_published r then f r else r) = (\<lambda>r. \<not> rw_published r)" using assms(2) by auto
  moreover have "\<not> rw_published draft" using assms(1) by (auto simp: draftOf_def find_Some_iff)
  ultimately show ?thesis using assms(1) by (simp add: draftOf_def find_map)
qed

lemma draft_advance [simp]: "draftOf d (snd (advanceRevision k c)) = draftOf d c"
  by (simp add: draftOf_def)

lemma unpublish_cases:
  assumes "unpublishOne sv d r now w = Inr (outcome, w')" "draftOf d (w_cms w) = Some draft" "rw_unpublishAt draft \<noteq> None"
  shows "(outcome = Skipped \<and> c_rows (w_cms w') = c_rows (w_cms w)) \<or>
    (outcome = Cleared \<and> publishedCount d (w_cms w) = 0) \<or>
    (outcome = Unpublished \<and> (\<exists>c2. sv_unpublish sv d c2 = Inr (w_cms w')))"
proof -
  have "draft \<in> set (c_rows (w_cms w) d)" using assms(2) by (auto simp: draftOf_def find_Some_iff)
  then have "filter (\<lambda>r. rw_unpublishAt r \<noteq> None) (c_rows (w_cms w) d) \<noteq> []" using assms(3) by (auto simp: filter_empty_conv)
  then have "\<not> length (filter (\<lambda>r. rw_unpublishAt r \<noteq> None) (c_rows (w_cms w) d)) < 1" by simp
  then show ?thesis using assms(1,2)
    by (auto simp: unpublishOne_def locked Let_def update_rows_def split: option.splits sum.splits prod.splits if_splits)
qed

definition attempts_ok :: "attempts \<Rightarrow> bool" where
  "attempts_ok ta = (store_ok ATTEMPTS_LIMIT (ta_counts ta) \<and> store_ok ATTEMPTS_LIMIT (ta_withdrawals ta))"

lemma backoff_minutes: "WITHDRAWAL_BACKOFF_MINUTES ! (min (Suc n) (length WITHDRAWAL_BACKOFF_MINUTES) - 1) \<in> {5, 15, 60}"
proof -
  have "[5, 15, 60 :: int] ! k \<in> {5, 15, 60}" if "k \<in> {0, 1, 2}" for k using that by auto
  moreover have "min (Suc n) 3 - 1 \<in> {0, 1, 2 :: nat}" by auto
  ultimately show ?thesis unfolding WITHDRAWAL_BACKOFF_MINUTES_def by (simp only: list.size) (simp add: numeral_eq_Suc)
qed

lemma defer_ready:
  assumes "attempts_ok ta" "now + 60 * 60000 \<le> later"
  shows "withdrawalReady d later rv (snd (deferWithdrawal d now revision ta))"
  using assms backoff_minutes [of "withdrawalFailures d ta"] attempt_counts.lookup [of "ta_withdrawals ta" d]
  by (auto simp: deferWithdrawal_def Let_def withdrawalReady_def attempts_ok_def)


lemma attempts_ok_fail: "attempts_ok ta \<Longrightarrow> attempts_ok (snd (fail_attempt d r p ta))"
  by (simp add: attempts_ok_def fail_attempt_def Let_def attempt_counts.ok)

lemma attempts_ok_clear: "attempts_ok ta \<Longrightarrow> attempts_ok (clear_attempt d r p ta)" "attempts_ok ta \<Longrightarrow> attempts_ok (clearWithdrawal d ta)"
  by (simp_all add: attempts_ok_def clear_attempt_def clearWithdrawal_def)

lemma attempts_ok_defer: "attempts_ok ta \<Longrightarrow> attempts_ok (snd (deferWithdrawal d now r ta))"
  by (simp add: attempts_ok_def deferWithdrawal_def Let_def attempt_counts.ok)

lemma recorded_unpublish:
  assumes "recordScheduleFailure d r UnpublishPass code detail None w = (rec, w')" "draftOf d (w_cms w) = Some draft"
  shows "(rec = Superseded \<and> c_rows (w_cms w') = c_rows (w_cms w)) \<or>
    (\<exists>n. rec = Recorded n \<and> draftOf d (w_cms w') = Some (draft\<lparr>rw_scheduleError := Some code\<rparr>))"
proof -
  have m: "draftOf d (snd (update_rows d (\<lambda>r. \<not> rw_published r) (\<lambda>r. r\<lparr>rw_scheduleError := Some code\<rparr>) (ensureRow d (w_cms w)))) =
      Some (draft\<lparr>rw_scheduleError := Some code\<rparr>)" using assms(2) by (intro marked_draft) simp_all
  show ?thesis
  proof (cases "rw_scheduleError draft = Some code")
    case True
    then have "draft = draft\<lparr>rw_scheduleError := Some code\<rparr>" by simp
    then show ?thesis using assms True by (auto simp: recordScheduleFailure_def locked Let_def split: if_splits)
  next
    case False
    then show ?thesis using assms m draft_advance [of d d]
      by (auto simp: recordScheduleFailure_def locked Let_def auditScheduleFailed_def split_beta split: if_splits)
  qed
qed



section \<open>The retry tier\<close>

abbreviation row_no :: "string \<times> row \<Rightarrow> int" where
  "row_no p \<equiv> rw_id (snd p)"

definition by_number :: "(string \<times> row) list \<Rightarrow> bool" where
  "by_number = sorted_wrt (\<lambda>a b. row_no a < row_no b)"

text \<open>The rows in the order a run starting after \<open>start\<close> reads them.\<close>

definition rotation :: "int \<Rightarrow> (string \<times> row) list \<Rightarrow> (string \<times> row) list" where
  "rotation start rows = filter (\<lambda>p. start < row_no p) rows @ filter (\<lambda>p. row_no p \<le> start) rows"

lemma examine_picks:
  "length p < WITHDRAWAL_RETRY_QUOTA \<Longrightarrow>
   snd (snd (examine ready rows (e, cur, p))) = take WITHDRAWAL_RETRY_QUOTA (p @ map fst (filter ready rows)) \<and>
   fst (examine ready rows (e, cur, p)) \<le> e + length rows \<and>
   (WITHDRAWAL_RETRY_QUOTA \<le> length (p @ map fst (filter ready rows)) \<longrightarrow>
     fst (snd (examine ready rows (e, cur, p))) = row_no (filter ready rows ! (WITHDRAWAL_RETRY_QUOTA - Suc (length p))))"
proof (induction rows arbitrary: e cur p)
  case (Cons r rows)
  obtain i d where r: "r = (i, d)" by (cases r)
  show ?case
  proof (cases "ready r \<and> Suc (length p) < WITHDRAWAL_RETRY_QUOTA")
    case True
    then show ?thesis using Cons.IH [of "p @ [i]" "e + 1" "rw_id d"] by (auto simp: r Let_def Suc_diff_Suc nth_Cons')
  next
    case False
    show ?thesis
    proof (cases "ready r")
      case True
      then have "WITHDRAWAL_RETRY_QUOTA = Suc (length p)" using False Cons.prems by simp
      then have "WITHDRAWAL_RETRY_QUOTA - length p = Suc 0" "Suc (length p) = WITHDRAWAL_RETRY_QUOTA" by simp_all
      then show ?thesis using True by (simp add: r Let_def)
    qed (use Cons.IH [of p "e + 1" "rw_id d"] Cons.prems in \<open>simp add: r\<close>)
  qed
qed simp

lemma run_picks:
  assumes "length failing < WITHDRAWAL_RETRY_SCAN" "list_all (\<lambda>p. 0 < row_no p) failing" "0 \<le> start"
    "retry_loop ready failing start False (0, start, []) = (cursor, picked)"
  defines "R \<equiv> filter ready (rotation start failing)"
  shows "picked = map fst (take WITHDRAWAL_RETRY_QUOTA R) \<and>
    cursor = (if WITHDRAWAL_RETRY_QUOTA \<le> length R then row_no (R ! (WITHDRAWAL_RETRY_QUOTA - 1)) else 0)"
proof -
  let ?A = "filter (\<lambda>p. start < row_no p) failing" and ?B = "filter (\<lambda>p. row_no p \<le> start) failing"
  have R: "R = filter ready ?A @ filter ready ?B" by (simp add: R_def rotation_def)
  have len: "length ?A + length ?B < WITHDRAWAL_RETRY_SCAN"
    using assms(1) sum_length_filter_compl [of "\<lambda>p. start < row_no p" failing] by (simp add: not_less)
  have B: "filter (\<lambda>(_, r). 0 < rw_id r \<and> rw_id r \<le> start) failing = ?B"
    using assms(2) by (intro filter_cong) (auto simp: list_all_iff)
  have A: "filter (\<lambda>(_, r). start < rw_id r) failing = ?A" by (intro filter_cong) auto
  obtain e1 c1 p1 where x1: "examine ready ?A (0, start, []) = (e1, c1, p1)" by (metis prod.exhaust)
  have q: "0 < WITHDRAWAL_RETRY_QUOTA" "0 < WITHDRAWAL_RETRY_SCAN" by (simp_all add: WITHDRAWAL_RETRY_QUOTA_def WITHDRAWAL_RETRY_SCAN_def)
  have e1: "p1 = map fst (take WITHDRAWAL_RETRY_QUOTA (filter ready ?A))" "e1 \<le> length ?A"
    "WITHDRAWAL_RETRY_QUOTA \<le> length (filter ready ?A) \<Longrightarrow> c1 = row_no (filter ready ?A ! (WITHDRAWAL_RETRY_QUOTA - 1))"
    using examine_picks [of "[]" ready ?A 0 start] x1 q(1) by (simp_all add: take_map)
  have n: "\<not> length ?A = WITHDRAWAL_RETRY_SCAN" "length ?A \<le> WITHDRAWAL_RETRY_SCAN" using len by auto
  have "retry_loop ready failing start False (0, start, []) = (if WITHDRAWAL_RETRY_QUOTA \<le> length p1 then retry_loop ready failing start False (e1, c1, p1)
      else if start = 0 then (0, p1) else retry_loop ready failing start True (e1, 0, p1))"
    using q n by (subst retry_loop.simps) (simp add: A x1)
  then have step: "(cursor, picked) = (if WITHDRAWAL_RETRY_QUOTA \<le> length p1 then retry_loop ready failing start False (e1, c1, p1)
      else if start = 0 then (0, p1) else retry_loop ready failing start True (e1, 0, p1))" using assms(4) by simp
  show ?thesis
  proof (cases "WITHDRAWAL_RETRY_QUOTA \<le> length (filter ready ?A)")
    case True
    then have "WITHDRAWAL_RETRY_QUOTA \<le> length p1" by (simp add: e1(1))
    then have "(cursor, picked) = (c1, p1)" using step by (simp add: retry_loop.simps)
    then show ?thesis using True e1 q(1) by (simp add: R nth_append)
  next
    case False
    then have p1: "p1 = map fst (filter ready ?A)" "length p1 < WITHDRAWAL_RETRY_QUOTA" using e1(1) by simp_all
    show ?thesis
    proof (cases "start = 0")
      case True
      then have "?B = []" using assms(2) by (auto simp: filter_empty_conv list_all_iff not_le)
      then show ?thesis using step p1 True False by (simp add: R)
    next
      case nz: False
      obtain e2 c2 p2 where x2: "examine ready ?B (e1, 0, p1) = (e2, c2, p2)" by (metis prod.exhaust)
      have e2: "p2 = take WITHDRAWAL_RETRY_QUOTA (map fst R)"
        "WITHDRAWAL_RETRY_QUOTA \<le> length R \<Longrightarrow> c2 = row_no (R ! (WITHDRAWAL_RETRY_QUOTA - 1))"
        using examine_picks [of p1 ready ?B e1 0] x2 p1 False by (simp_all add: R nth_append)
      have l: "e1 < WITHDRAWAL_RETRY_SCAN" "length ?B < WITHDRAWAL_RETRY_SCAN - e1" using e1(2) len by auto
      have "retry_loop ready failing start True (e1, 0, p1) =
          (if WITHDRAWAL_RETRY_QUOTA \<le> length p2 then retry_loop ready failing start True (e2, c2, p2) else (0, p2))"
        using p1(2) l by (subst retry_loop.simps) (simp add: B x2)
      then have "(cursor, picked) = (if WITHDRAWAL_RETRY_QUOTA \<le> length p2 then retry_loop ready failing start True (e2, c2, p2) else (0, p2))"
        using step p1(2) nz by simp
      moreover have "retry_loop ready failing start True (e2, c2, p2) = (c2, p2)" if "WITHDRAWAL_RETRY_QUOTA \<le> length p2"
        using that by (simp add: retry_loop.simps)
      ultimately show ?thesis using e2 by (auto simp: take_map)
    qed
  qed
qed

lemma pivot:
  assumes "by_number (ys @ x # zs)"
  shows "rotation (row_no x) (ys @ x # zs) = zs @ ys @ [x]"
proof -
  have "\<forall>y \<in> set ys. row_no y < row_no x" "\<forall>z \<in> set zs. row_no x < row_no z"
    using assms by (auto simp: by_number_def sorted_wrt_append)
  then have "filter (\<lambda>p. row_no x < row_no p) ys = []" "filter (\<lambda>p. row_no x < row_no p) zs = zs"
      "filter (\<lambda>p. row_no p \<le> row_no x) ys = ys" "filter (\<lambda>p. row_no p \<le> row_no x) zs = []"
    by (fastforce simp: filter_empty_conv filter_id_conv)+
  then show ?thesis by (simp add: rotation_def)
qed

lemma rotation_split: "by_number rows \<Longrightarrow> rows = filter (\<lambda>p. row_no p \<le> start) rows @ filter (\<lambda>p. start < row_no p) rows"
proof (induction rows)
  case (Cons r rows)
  show ?case
  proof (cases "row_no r \<le> start")
    case False
    then have "\<forall>p \<in> set (r # rows). start < row_no p" using Cons.prems by (auto simp: by_number_def)
    then show ?thesis by (fastforce simp: filter_id_conv filter_empty_conv)
  qed (use Cons in \<open>auto simp: by_number_def\<close>)
qed simp

lemma rotation_next:
  assumes "by_number rows" "n < length rows"
  shows "rotation (row_no (rotation start rows ! n)) rows = drop (Suc n) (rotation start rows) @ take (Suc n) (rotation start rows)"
proof -
  let ?A = "filter (\<lambda>p. start < row_no p) rows" and ?B = "filter (\<lambda>p. row_no p \<le> start) rows"
  have rows: "rows = ?B @ ?A" by (rule rotation_split [OF assms(1)])
  then have len: "length rows = length ?B + length ?A" by (metis length_append)
  show ?thesis
  proof (cases "n < length ?A")
    case True
    then have "rows = (?B @ take n ?A) @ ?A ! n # drop (Suc n) ?A" using rows id_take_nth_drop [of n ?A] by (metis append.assoc)
    then have "rotation (row_no (?A ! n)) rows = drop (Suc n) ?A @ (?B @ take n ?A) @ [?A ! n]" using pivot assms(1) by metis
    then show ?thesis using True by (simp add: rotation_def nth_append take_Suc_conv_app_nth)
  next
    case False
    define m where "m = n - length ?A"
    have m: "m < length ?B" "n = length ?A + m" using False assms(2) len by (auto simp: m_def)
    then have "rows = take m ?B @ ?B ! m # (drop (Suc m) ?B @ ?A)" using rows id_take_nth_drop [of m ?B] by (metis append.assoc append_Cons)
    then have "rotation (row_no (?B ! m)) rows = (drop (Suc m) ?B @ ?A) @ take m ?B @ [?B ! m]" using pivot assms(1) by metis
    then show ?thesis using m by (simp add: rotation_def nth_append take_Suc_conv_app_nth Suc_diff_le)
  qed
qed

lemma filter_rotation: "filter ready (rotation start rows) = rotation start (filter ready rows)"
  by (simp add: rotation_def conj_commute)

fun retry_runs :: "(string \<times> row \<Rightarrow> bool) \<Rightarrow> (string \<times> row) list \<Rightarrow> nat \<Rightarrow> int \<Rightarrow> string list" where
  "retry_runs ready failing 0 start = []"
| "retry_runs ready failing (Suc k) start =
     (case retry_loop ready failing start False (0, start, []) of (cursor, picked) \<Rightarrow> picked @ retry_runs ready failing k cursor)"

lemma retry_covers:
  assumes "length failing < WITHDRAWAL_RETRY_SCAN" "list_all (\<lambda>p. 0 < row_no p) failing" "by_number failing"
  shows "0 \<le> start \<Longrightarrow> set (map fst (take (WITHDRAWAL_RETRY_QUOTA * k) (rotation start (filter ready failing)))) \<subseteq> set (retry_runs ready failing k start)"
proof (induction k arbitrary: start)
  case (Suc k)
  let ?q = WITHDRAWAL_RETRY_QUOTA and ?R = "rotation start (filter ready failing)"
  obtain cursor picked where run: "retry_loop ready failing start False (0, start, []) = (cursor, picked)" by (metis prod.exhaust)
  note p = run_picks [OF assms(1,2) Suc.prems run, unfolded filter_rotation]
  have q: "0 < ?q" by (simp add: WITHDRAWAL_RETRY_QUOTA_def)
  show ?case
  proof (cases "?q \<le> length ?R")
    case True
    have n: "by_number (filter ready failing)" using assms(3) by (simp add: by_number_def sorted_wrt_filter)
    have len: "length ?R = length (filter ready failing)"
      using sum_length_filter_compl [of "\<lambda>p. start < row_no p" "filter ready failing"] by (simp add: rotation_def not_less)
    have next_rot: "rotation cursor (filter ready failing) = drop ?q ?R @ take ?q ?R"
      using rotation_next [OF n, of "?q - 1" start] p True len q by simp
    have "?R ! (?q - 1) \<in> set ?R" using True q by (intro nth_mem) simp
    then have "0 \<le> cursor" using p True assms(2) by (auto simp: rotation_def list_all_iff)
    from Suc.IH [OF this] have "set (map fst (take (?q * k) (drop ?q ?R))) \<subseteq> set (retry_runs ready failing k cursor)"
      unfolding next_rot by auto
    moreover have "take (?q * Suc k) ?R = take ?q ?R @ take (?q * k) (drop ?q ?R)" by (simp add: take_add)
    ultimately show ?thesis using p run by auto
  next
    case False
    then have "set (map fst ?R) \<subseteq> set picked" using p by simp
    then show ?thesis using run set_take_subset [of "?q * Suc k" ?R] by auto
  qed
qed simp



section \<open>Examples\<close>

definition demo_document :: "int option \<Rightarrow> int option \<Rightarrow> row cms" where
  "demo_document p u = \<lparr>c_versions = [((DOCUMENT_UID, ''x''), 4)], c_rows = \<lambda>d.
     if d = (DOCUMENT_UID, ''x'') then [(demo_row 1 False [] [])\<lparr>rw_publishAt := p, rw_unpublishAt := u\<rparr>, demo_row 2 True [] []] else []\<rparr>"

definition demo_service :: "sched_error option \<Rightarrow> service" where
  "demo_service e = \<lparr>sv_publish = \<lambda>d c. case e of None \<Rightarrow> Inr (snd (advanceRevision d c)) | Some x \<Rightarrow> Inl x,
     sv_unpublish = \<lambda>d c. case e of None \<Rightarrow> Inr (snd (advanceRevision d c)) | Some x \<Rightarrow> Inl x,
     sv_docs = \<lambda>_. [''x''], sv_schema = \<lambda>_. [], sv_number = \<lambda>_. None, sv_off = \<lambda>_. False\<rparr>"

definition demo_ticks :: ticks where
  "demo_ticks = \<lparr>tk_lock = 7, tk_record = 8, tk_defer = 9, tk_trouble = None, tk_broken = False\<rparr>"

definition demo_ref :: doc where "demo_ref = (DOCUMENT_UID, ''x'')"

lemmas demo_simps = runScheduledDocument_def publishOne_def unpublishOne_def lockDocument_def ensureRow_def readRevision_def toRevision_def draftOf_def
  publishedCount_def update_rows_def isDue_def windowExpired_def windowEnd_def isUnpublishScheduledUid_def UNPUBLISH_SCHEDULED_UIDS_def
  demo_document_def demo_row_def demo_service_def demo_ticks_def demo_ref_def uid_defs Let_def

lemma publish_within_window_witness:
  "\<exists>c2. sv_publish (demo_service None) demo_ref c2 = Inr (w_cms (fst (snd (runScheduledDocument (demo_service None) demo_ref PublishPass demo_ticks 4
     \<lparr>w_cms = demo_document (Some 5) None, w_audit = []\<rparr> TransientAttempts))))"
proof -
  let ?run = "runScheduledDocument (demo_service None) demo_ref PublishPass demo_ticks 4 \<lparr>w_cms = demo_document (Some 5) None, w_audit = []\<rparr> TransientAttempts"
  have "fst ?run = Published" by (simp add: demo_simps)
  then have "?run = (Published, fst (snd ?run), snd (snd ?run))" by (metis prod.collapse)
  from publish_within_window [OF this] show ?thesis by blast
qed



end
