(* ===== verification/Validators.thy ===== *)
theory Validators imports Roles PlainDate Training begin

text \<open>
  The value checks of the authoring API: \<open>packages/domain/src/authoring/validators.ts\<close>, \<open>poll-options.ts\<close> and
  \<open>icons.ts\<close>. \<open>dparse\<close> is \<open>Date.parse\<close>, \<open>parse_web\<close> the URL parser of the platform. A check answers
  the field code it refuses a value with, or None.
\<close>

section \<open>Predicates\<close>

definition MAX_STRING_LENGTH :: nat where "MAX_STRING_LENGTH = 255"
definition MAX_MARKDOWN_LENGTH :: nat where "MAX_MARKDOWN_LENGTH = 200000"
definition MIN_ORDER :: int where "MIN_ORDER = 0"
definition MAX_ORDER :: int where "MAX_ORDER = 10000"
definition MAX_INT32 :: int where "MAX_INT32 = 2147483647"
definition MIN_SCHEDULE_LEAD_MS :: int where "MIN_SCHEDULE_LEAD_MS = 60000"

definition OFFSET_INSTANT :: rx where
  "OFFSET_INSTANT = rx_seq
     [rx_rep 4 rx_digit, rx_char CHR ''-'', rx_rep 2 rx_digit, rx_char CHR ''-'', rx_rep 2 rx_digit, rx_char CHR ''T'',
      rx_rep 2 rx_digit, rx_char CHR '':'', rx_rep 2 rx_digit,
      rx_opt (rx_seq [rx_char CHR '':'', rx_rep 2 rx_digit, rx_opt (Sq (rx_char CHR ''.'') (rx_between 1 9 rx_digit))]),
      Al (rx_char CHR ''Z'') (rx_seq [Cls (\<lambda>c. c = CHR ''+'' \<or> c = CHR ''-''), rx_rep 2 rx_digit, rx_char CHR '':'', rx_rep 2 rx_digit])]"

definition offsetInstantMs :: "(string \<Rightarrow> int option) \<Rightarrow> js \<Rightarrow> int option" where
  "offsetInstantMs dparse v =
     (case v of
        JStr s \<Rightarrow> if rx_match OFFSET_INSTANT s \<and> startsWithRealDay s then dparse s else None
      | _ \<Rightarrow> None)"

definition isOffsetInstant :: "(string \<Rightarrow> int option) \<Rightarrow> js \<Rightarrow> bool" where
  "isOffsetInstant dparse v = (offsetInstantMs dparse v \<noteq> None)"

definition hasUnsafeUrlChar :: "string \<Rightarrow> bool" where
  "hasUnsafeUrlChar s = list_ex (\<lambda>c. let code = of_char c :: nat in code < 0x20 \<or> code = 0x7f \<or> code = 0x5c) s"

record parsed_url =
  pu_protocol :: string
  pu_username :: string
  pu_password :: string
  pu_hostname :: string

definition isWebUrl :: "(string \<Rightarrow> parsed_url option) \<Rightarrow> js \<Rightarrow> bool" where
  "isWebUrl parse_web v =
     (case v of
        JStr s \<Rightarrow>
          if s = [] \<or> length s > MAX_STRING_LENGTH then False
          else if hasUnsafeUrlChar s \<or> list_ex is_ws s then False
          else (case parse_web s of
              None \<Rightarrow> False
            | Some u \<Rightarrow> (pu_protocol u = ''https:'' \<or> pu_protocol u = ''http:'') \<and> pu_hostname u \<noteq> [] \<and>
                pu_username u = [] \<and> pu_password u = [])
      | _ \<Rightarrow> False)"

definition isInternalPath :: "js \<Rightarrow> bool" where
  "isInternalPath v =
     (case v of
        JStr s \<Rightarrow>
          if length s > MAX_STRING_LENGTH then False
          else if hasUnsafeUrlChar s \<or> list_ex is_ws s then False
          else starts_with ''/'' s \<and> \<not> starts_with ''//'' s
      | _ \<Rightarrow> False)"

definition isQuickLinkUrl :: "(string \<Rightarrow> parsed_url option) \<Rightarrow> js \<Rightarrow> bool" where
  "isQuickLinkUrl parse_web v = (isWebUrl parse_web v \<or> isInternalPath v)"

section \<open>Field checks\<close>

definition checkRequiredString :: "js \<Rightarrow> string option" where
  "checkRequiredString v =
     (if nullish v then Some ''required''
      else case v of
        JStr s \<Rightarrow> if trim s = [] then Some ''required'' else if length s > MAX_STRING_LENGTH then Some ''tooLong'' else None
      | _ \<Rightarrow> Some ''invalid'')"

definition checkNullableString :: "js \<Rightarrow> string option" where
  "checkNullableString v =
     (case v of
        JNull \<Rightarrow> None
      | JStr s \<Rightarrow> if length s > MAX_STRING_LENGTH then Some ''tooLong'' else None
      | _ \<Rightarrow> Some ''invalid'')"

definition checkMarkdown :: "js \<Rightarrow> string option" where
  "checkMarkdown v =
     (case v of
        JNull \<Rightarrow> None
      | JStr s \<Rightarrow> if length s > MAX_MARKDOWN_LENGTH then Some ''tooLong'' else None
      | _ \<Rightarrow> Some ''invalid'')"

definition checkBoolean :: "js \<Rightarrow> string option" where
  "checkBoolean v = (case v of JBool _ \<Rightarrow> None | _ \<Rightarrow> Some ''invalid'')"

definition checkInstant :: "(string \<Rightarrow> int option) \<Rightarrow> js \<Rightarrow> string option" where
  "checkInstant dparse v =
     (if nullish v \<or> v = JStr [] then Some ''required'' else if isOffsetInstant dparse v then None else Some ''invalidInstant'')"

definition checkNullableInstant :: "(string \<Rightarrow> int option) \<Rightarrow> js \<Rightarrow> string option" where
  "checkNullableInstant dparse v = (if v = JNull \<or> isOffsetInstant dparse v then None else Some ''invalidInstant'')"

definition checkEnum :: "string list \<Rightarrow> js \<Rightarrow> string option" where
  "checkEnum vs v = (if is_string_in v vs then None else Some ''invalid'')"

definition checkWebUrl :: "(string \<Rightarrow> parsed_url option) \<Rightarrow> js \<Rightarrow> string option" where
  "checkWebUrl parse_web v =
     (if nullish v \<or> v = JStr [] then Some ''required'' else if isWebUrl parse_web v then None else Some ''invalidUrl'')"

definition checkNullableWebUrl :: "(string \<Rightarrow> parsed_url option) \<Rightarrow> js \<Rightarrow> string option" where
  "checkNullableWebUrl parse_web v = (if v = JNull \<or> isWebUrl parse_web v then None else Some ''invalidUrl'')"

definition checkQuickLinkUrl :: "(string \<Rightarrow> parsed_url option) \<Rightarrow> js \<Rightarrow> string option" where
  "checkQuickLinkUrl parse_web v =
     (if nullish v \<or> v = JStr [] then Some ''required'' else if isQuickLinkUrl parse_web v then None else Some ''invalidUrl'')"

definition ICON_KEYS :: "string list" where
  "ICON_KEYS = [''Award'', ''BarChart3'', ''BookOpen'', ''Briefcase'', ''Building2'', ''Calendar'', ''Code'', ''Contact'', ''ExternalLink'',
     ''FileText'', ''Globe'', ''GraduationCap'', ''Heart'', ''Home'', ''LifeBuoy'', ''Link2'', ''Megaphone'', ''Settings'', ''ShoppingBag'',
     ''Ticket'', ''Users2'', ''Wallet'', ''Wrench'']"

definition isIconKey :: "js \<Rightarrow> bool" where
  "isIconKey v = is_string_in v ICON_KEYS"

definition checkIconKey :: "js \<Rightarrow> string option" where
  "checkIconKey v = (if v = JNull \<or> isIconKey v then None else Some ''invalid'')"

definition checkOrder :: "js \<Rightarrow> string option" where
  "checkOrder v = (case v of JInt n \<Rightarrow> if MIN_ORDER \<le> n \<and> n \<le> MAX_ORDER then None else Some ''invalid'' | _ \<Rightarrow> Some ''invalid'')"

definition checkPositiveIntOrNull :: "js \<Rightarrow> string option" where
  "checkPositiveIntOrNull v =
     (case v of
        JNull \<Rightarrow> None
      | JInt n \<Rightarrow> if 1 \<le> n \<and> n \<le> MAX_INT32 then None else Some ''invalid''
      | _ \<Rightarrow> Some ''invalid'')"

section \<open>Checks across fields\<close>

definition scheduleCodes :: "(string \<Rightarrow> int option) \<Rightarrow> (string \<times> js) list \<Rightarrow> int \<Rightarrow> bool \<Rightarrow> (string \<times> string) list" where
  "scheduleCodes dparse merged now publishAtChanged =
     (let unpublishAt = offsetInstantMs dparse (jget merged ''unpublishAt'');
          expiresAt = offsetInstantMs dparse (jget merged ''expiresAt'') in
      case offsetInstantMs dparse (jget merged ''publishAt'') of
        None \<Rightarrow> []
      | Some publishAt \<Rightarrow>
        (if publishAtChanged \<and> publishAt < now + MIN_SCHEDULE_LEAD_MS then [(''publishAt'', ''scheduleInPast'')] else []) @
        (case unpublishAt of None \<Rightarrow> [] | Some u \<Rightarrow> if u \<le> publishAt then [(''unpublishAt'', ''unpublishBeforePublish'')] else []) @
        (case expiresAt of None \<Rightarrow> [] | Some e \<Rightarrow> if e \<le> publishAt then [(''expiresAt'', ''expiresBeforePublish'')] else []))"

definition eventSpanCode :: "(string \<Rightarrow> int option) \<Rightarrow> js \<Rightarrow> js \<Rightarrow> string option" where
  "eventSpanCode dparse start end' =
     (case (offsetInstantMs dparse start, offsetInstantMs dparse end') of
        (Some s, Some e) \<Rightarrow> if e < s then Some ''endBeforeStart'' else None
      | _ \<Rightarrow> None)"

section \<open>Poll options\<close>

definition MIN_POLL_OPTIONS :: nat where "MIN_POLL_OPTIONS = 2"
definition MAX_POLL_OPTIONS :: nat where "MAX_POLL_OPTIONS = 20"
definition MAX_POLL_OPTION_LENGTH :: nat where "MAX_POLL_OPTION_LENGTH = 200"

datatype poll_options_error = OptionCount | OptionEmpty nat | OptionRepeats nat

fun poll_options_from :: "nat \<Rightarrow> string list \<Rightarrow> js list \<Rightarrow> poll_options_error + string list" where
  "poll_options_from i options [] = Inr options"
| "poll_options_from i options (v # vs) =
     (case v of
        JStr s \<Rightarrow>
          if trim s = [] then Inl (OptionEmpty i)
          else if trim s \<in> set options then Inl (OptionRepeats i)
          else poll_options_from (Suc i) (options @ [trim s]) vs
      | _ \<Rightarrow> Inl (OptionEmpty i))"

definition validatePollOptions :: "js \<Rightarrow> poll_options_error + string list" where
  "validatePollOptions raw =
     (case raw of
        JArr vs \<Rightarrow> if length vs < MIN_POLL_OPTIONS \<or> length vs > MAX_POLL_OPTIONS then Inl OptionCount else poll_options_from 0 [] vs
      | _ \<Rightarrow> Inl OptionCount)"

fun options_code :: "nat option \<Rightarrow> string list \<Rightarrow> js list \<Rightarrow> string option" where
  "options_code maxLength seen [] = None"
| "options_code maxLength seen (v # vs) =
     (case v of
        JStr s \<Rightarrow>
          (let text = trim s in
           if text = [] then Some ''required''
           else if (case maxLength of None \<Rightarrow> False | Some m \<Rightarrow> length text > m) then Some ''tooLong''
           else if text \<in> set seen then Some ''optionDuplicate''
           else options_code maxLength (seen @ [text]) vs)
      | _ \<Rightarrow> Some ''invalid'')"

definition pollOptionsCode :: "nat option \<Rightarrow> js \<Rightarrow> string option" where
  "pollOptionsCode maxLength raw =
     (case raw of
        JArr vs \<Rightarrow>
          if length vs < MIN_POLL_OPTIONS \<or> length vs > MAX_POLL_OPTIONS then Some ''optionCount''
          else options_code maxLength [] vs
      | _ \<Rightarrow> Some ''invalid'')"

text \<open>\<open>===\<close> between values of two documents: arrays and objects of one are never those of the other, NaN equals nothing.\<close>

fun strict_equal :: "js \<Rightarrow> js \<Rightarrow> bool" where
  "strict_equal (JArr _) _ = False"
| "strict_equal (JObj _) _ = False"
| "strict_equal JNonFinite _ = False"
| "strict_equal a b = (a = b)"

definition same_option :: "js \<Rightarrow> js \<Rightarrow> bool" where
  "same_option a b = (case (a, b) of (JStr s, JStr t) \<Rightarrow> trim s = trim t | _ \<Rightarrow> strict_equal a b)"

definition samePollOptions :: "js \<Rightarrow> js \<Rightarrow> bool" where
  "samePollOptions a b =
     (case (a, b) of
        (JArr as, JArr bs) \<Rightarrow> length as = length bs \<and> list_all2 same_option as bs
      | _ \<Rightarrow> strict_equal a b)"

lemma poll_options_from_iff:
  "poll_options_from i acc vs = Inr os \<longleftrightarrow>
   (\<exists>ss. vs = map JStr ss \<and> os = acc @ map trim ss \<and> list_all (\<lambda>s. trim s \<noteq> []) ss \<and> distinct (map trim ss) \<and> set (map trim ss) \<inter> set acc = {})"
proof (induction vs arbitrary: i acc)
  case (Cons v vs)
  show ?case
  proof (cases v)
    case (JStr s)
    have "(\<exists>ss. v # vs = map JStr ss \<and> P ss) \<longleftrightarrow> (\<exists>ss. vs = map JStr ss \<and> P (s # ss))" for P
      unfolding JStr by (metis (no_types, opaque_lifting) js.inject(4) list.simps(9) map_eq_Cons_D)
    then show ?thesis using JStr Cons.IH [of "Suc i" "acc @ [trim s]"] by auto
  qed auto
qed auto

lemma options_code_iff:
  "options_code m acc vs = None \<longleftrightarrow>
   (\<exists>ss. vs = map JStr ss \<and> list_all (\<lambda>s. trim s \<noteq> []) ss \<and> distinct (map trim ss) \<and> set (map trim ss) \<inter> set acc = {} \<and>
     list_all (\<lambda>s. case m of None \<Rightarrow> True | Some k \<Rightarrow> length (trim s) \<le> k) ss)"
proof (induction vs arbitrary: acc)
  case (Cons v vs)
  show ?case
  proof (cases v)
    case (JStr s)
    have "(\<exists>ss. v # vs = map JStr ss \<and> P ss) \<longleftrightarrow> (\<exists>ss. vs = map JStr ss \<and> P (s # ss))" for P
      unfolding JStr by (metis (no_types, opaque_lifting) js.inject(4) list.simps(9) map_eq_Cons_D)
    then show ?thesis using JStr Cons.IH [of "acc @ [trim s]"] by (auto simp: Let_def not_less split: option.splits)
  qed auto
qed auto


lemma same_option_trim: "same_option (JStr s) (JStr (trim s))"
  by (simp add: same_option_def)

text \<open>Poll options: what the form and the allowlist accept the lifecycle stores, every answer at its index with the text a voter
  saw, none empty, none twice; storing the result again changes nothing.\<close>

theorem poll_options_kept:
  assumes "pollOptionsCode m raw = None"
  shows "\<exists>os. validatePollOptions raw = Inr os \<and> samePollOptions raw (JArr (map JStr os)) \<and> validatePollOptions (JArr (map JStr os)) = Inr os \<and>
    distinct os \<and> [] \<notin> set os \<and> 2 \<le> length os \<and> length os \<le> 20"
proof -
  obtain vs where raw: "raw = JArr vs" "2 \<le> length vs" "length vs \<le> 20" "options_code m [] vs = None"
    using assms by (auto simp: pollOptionsCode_def MIN_POLL_OPTIONS_def MAX_POLL_OPTIONS_def not_less split: js.splits if_splits)
  then obtain ss where ss: "vs = map JStr ss" "list_all (\<lambda>s. trim s \<noteq> []) ss" "distinct (map trim ss)"
    using options_code_iff [of m "[]" vs] by auto
  let ?os = "map trim ss"
  have v: "validatePollOptions raw = Inr ?os"
    using raw ss poll_options_from_iff [of 0 "[]" vs ?os]
    by (auto simp: validatePollOptions_def MIN_POLL_OPTIONS_def MAX_POLL_OPTIONS_def)
  have "poll_options_from 0 [] (map JStr ?os) = Inr ?os"
    unfolding poll_options_from_iff using ss by (intro exI [of _ ?os]) (simp add: list_all_iff comp_def)
  then have v': "validatePollOptions (JArr (map JStr ?os)) = Inr ?os"
    using raw(2,3) ss(1) by (simp add: validatePollOptions_def MIN_POLL_OPTIONS_def MAX_POLL_OPTIONS_def)
  have "list_all2 same_option (map JStr ss) (map JStr ?os)"
    by (auto simp: list_all2_conv_all_nth same_option_trim)
  then have "samePollOptions raw (JArr (map JStr ?os))" by (simp add: samePollOptions_def raw(1) ss(1))
  moreover have "[] \<notin> set ?os" using ss(2) by (auto simp: list_all_iff)
  ultimately show ?thesis using v v' ss(1,3) raw(2,3) by (intro exI [of _ ?os]) simp
qed

lemma poll_options_kept_witness:
  "list_ex (\<lambda>os. validatePollOptions (JArr [JStr '' Yes'', JStr ''No '']) = Inr os \<and> 2 \<le> length os) [[''Yes'', ''No'']]"
proof -
  have "pollOptionsCode (Some 200) (JArr [JStr '' Yes'', JStr ''No '']) = None" by code_simp
  from poll_options_kept [OF this] obtain os where "validatePollOptions (JArr [JStr '' Yes'', JStr ''No '']) = Inr os \<and> 2 \<le> length os" by blast
  moreover have "validatePollOptions (JArr [JStr '' Yes'', JStr ''No '']) = Inr [''Yes'', ''No'']" by code_simp
  ultimately show ?thesis by simp
qed

end
