(* ===== verification/IsoInstant.thy ===== *)
theory IsoInstant imports SecretCrypto begin

text \<open>
  \<open>toISOString\<close> and the readers of instants agree: the text of a valid date has the shape the components accept,
  starts with a real day and reads as the date it was printed from, given what \<open>Date.parse\<close> documents.
\<close>

definition honest_parse :: "(string \<Rightarrow> int option) \<Rightarrow> bool" where
  "honest_parse dparse = ((\<forall>s t. dparse s = Some t \<longrightarrow> time_clip t = Some t) \<and>
     (\<forall>t. time_clip t = Some t \<longrightarrow> dparse (iso_string t) = Some t))"

lemma trim_no_ws:
  assumes "\<forall>c \<in> set s. \<not> is_ws c"
  shows "trim s = s"
proof -
  have "dropWhile is_ws xs = xs" if "\<forall>c \<in> set xs. \<not> is_ws c" for xs using that by (cases xs) auto
  from this [of s] this [of "rev s"] show ?thesis using assms by (simp add: trim_def)
qed

lemma digit_not_ws: "is_digit c \<Longrightarrow> \<not> is_ws c"
  by (auto simp: is_digit_def is_ws_def Let_def)

lemma pad_no_ws: "0 \<le> n \<Longrightarrow> c \<in> set (pad n w) \<Longrightarrow> \<not> is_ws c"
  using pad_digits digit_not_ws by blast

lemma iso_no_ws: "c \<in> set (iso_string t) \<Longrightarrow> \<not> is_ws c"
proof -
  obtain y m d where c: "utc_civil t = (y, m, d)" by (metis prod_cases3)
  note f = iso_fields [OF c]
  have ch: "\<not> is_ws CHR ''-''" "\<not> is_ws CHR ''+''" "\<not> is_ws CHR ''T''" "\<not> is_ws CHR '':''" "\<not> is_ws CHR ''.''" "\<not> is_ws CHR ''Z''"
    by (simp_all add: is_ws_def)
  assume "c \<in> set (iso_string t)"
  then show ?thesis unfolding iso_string_eq [OF c] iso_rest_def
    using f(1,3) ch by (auto split: if_splits dest!: pad_no_ws [rotated])
qed


lemma seq_digits: "length a = n \<Longrightarrow> \<forall>c \<in> set a. is_digit c \<Longrightarrow> rx_lang (rx_seq rs) b \<Longrightarrow> rx_lang (rx_seq (rx_rep n rx_digit # rs)) (a @ b)"
  unfolding rx_lang_seq_Cons by (intro exI [of _ a] exI [of _ b]) (simp add: rx_lang_rep_Cls)

lemma seq_char: "f c \<Longrightarrow> rx_lang (rx_seq rs) b \<Longrightarrow> rx_lang (rx_seq (Cls f # rs)) (c # b)"
  unfolding rx_lang_seq_Cls by blast

lemma seq_any: "rx_lang (rx_seq rs) b \<Longrightarrow> rx_lang (rx_seq (St (Cls (\<lambda>_. True)) # rs)) (a @ b)"
  unfolding rx_lang_seq_Cons by (intro exI [of _ a] exI [of _ b]) (simp add: rx_lang_St_Cls)

lemma seq_opt: "rx_lang r a \<Longrightarrow> rx_lang (rx_seq rs) b \<Longrightarrow> rx_lang (rx_seq (rx_opt r # rs)) (a @ b)"
  unfolding rx_lang_seq_Cons by (intro exI [of _ a] exI [of _ b]) (simp add: rx_opt_def)

lemma plus_digits: "a \<noteq> [] \<Longrightarrow> \<forall>c \<in> set a. is_digit c \<Longrightarrow> rx_lang (rx_plus rx_digit) a"
  by (cases a) (auto simp: rx_plus_def rx_lang_Sq_Cls rx_lang_St_Cls)

lemma instant_shape:
  assumes "length h = 2" "length mi = 2" "length s = 2" "f \<noteq> []" "\<forall>c \<in> set (h @ mi @ s @ f). is_digit c"
  shows "rx_match INSTANT_RE (p @ ''T'' @ h @ '':'' @ mi @ '':'' @ s @ ''.'' @ f @ ''Z'')"
proof -
  let ?frac = "rx_opt (Sq (rx_char CHR ''.'') (rx_plus rx_digit))"
  have fr: "rx_lang (rx_seq [?frac]) (CHR ''.'' # f)"
    using assms(4,5) by (simp add: rx_opt_def rx_lang_Sq_Cls plus_digits)
  have "rx_lang (rx_seq [rx_char CHR '':'', rx_rep 2 rx_digit, ?frac]) (CHR '':'' # s @ CHR ''.'' # f)"
    using assms fr by (intro seq_char seq_digits) auto
  then have "rx_lang (rx_seq [rx_opt (rx_seq [rx_char CHR '':'', rx_rep 2 rx_digit, ?frac]),
      Al (Cls (\<lambda>c. c = CHR ''Z'' \<or> c = CHR ''z'')) (rx_seq [Cls (\<lambda>c. c = CHR ''+'' \<or> c = CHR ''-''), rx_rep 2 rx_digit,
        rx_opt (Sq (rx_opt (rx_char CHR '':'')) (rx_rep 2 rx_digit))])]) ((CHR '':'' # s @ CHR ''.'' # f) @ ''Z'')"
    by (rule seq_opt) simp
  then have "rx_lang INSTANT_RE (p @ CHR ''T'' # h @ CHR '':'' # mi @ (CHR '':'' # s @ CHR ''.'' # f) @ ''Z'')"
    unfolding INSTANT_RE_def using assms by (intro seq_any seq_char seq_digits) auto
  then show ?thesis by (simp add: rx_match_lang)
qed

lemma iso_instant_re: "rx_match INSTANT_RE (iso_string t)"
proof -
  obtain y m d where c: "utc_civil t = (y, m, d)" by (metis prod_cases3)
  note f = iso_fields [OF c]
  let ?u = "t mod DAY_MS"
  have eq: "iso_string t = ((if 0 \<le> y \<and> y \<le> 9999 then pad y 4 else (if y < 0 then CHR ''-'' else CHR ''+'') # pad \<bar>y\<bar> 6)
      @ ''-'' @ pad (m + 1) 2 @ ''-'' @ pad d 2) @ ''T'' @ pad (?u div 3600000) 2 @ '':'' @ pad (?u div 60000 mod 60) 2 @ '':''
      @ pad (?u div 1000 mod 60) 2 @ ''.'' @ pad (?u mod 1000) 3 @ ''Z''"
    by (simp only: iso_string_eq [OF c] iso_rest_def append_assoc)
  have l3: "length (pad (?u mod 1000) 3) = 3" using f(12,13) by (rule length_pad3)
  have dg: "\<forall>c \<in> set (pad (?u div 3600000) 2 @ pad (?u div 60000 mod 60) 2 @ pad (?u div 1000 mod 60) 2 @ pad (?u mod 1000) 3). is_digit c"
    unfolding set_append using pad_digits [OF f(6)] pad_digits [OF f(8)] pad_digits [OF f(10)] pad_digits [OF f(12)] by blast
  have "pad (?u mod 1000) 3 \<noteq> []" using l3 by (metis list.size(3) zero_neq_numeral)
  then show ?thesis unfolding eq
    using length_pad2 [OF f(6,7)] length_pad2 [OF f(8,9)] length_pad2 [OF f(10,11)] dg by (intro instant_shape)
qed

abbreviation day_tail :: "rx list" where
  "day_tail \<equiv> [rx_char CHR ''-'', rx_rep 2 rx_digit, rx_char CHR ''-'', rx_rep 2 rx_digit, St (Cls (\<lambda>_. True))]"

lemma day_tail_match:
  assumes "0 \<le> m + 1" "m + 1 < 100" "0 \<le> d" "d < 100"
  shows "rx_lang (rx_seq day_tail) (''-'' @ pad (m + 1) 2 @ ''-'' @ pad d 2 @ r)"
proof -
  have "rx_lang (rx_seq day_tail) (CHR ''-'' # pad (m + 1) 2 @ CHR ''-'' # pad d 2 @ r)"
    using assms pad_digits by (intro seq_char seq_digits) (auto simp: length_pad2 rx_lang_St_Cls)
  then show ?thesis by simp
qed

lemma iso_real_day:
  assumes "time_clip t = Some t"
  shows "startsWithRealDay (iso_string t)"
proof -
  obtain y m d where c: "utc_civil t = (y, m, d)" by (metis prod_cases3)
  note f = iso_fields [OF c]
  define r where "r = ''T'' @ pad (t mod DAY_MS div 3600000) 2 @ '':'' @ pad (t mod DAY_MS div 60000 mod 60) 2 @ '':'' @ pad (t mod DAY_MS div 1000 mod 60) 2
      @ ''.'' @ pad (t mod DAY_MS mod 1000) 3 @ ''Z''"
  let ?day = "''-'' @ pad (m + 1) 2 @ ''-'' @ pad d 2 @ r"
  have civ: "civil_of_day (t div DAY_MS) = (y, m, d)" using c by (simp add: utc_civil_def)
  note real = day_of_civil_of_day [OF civ]
  have md: "1 \<le> m + 1" "m + 1 \<le> 12" "1 \<le> d" using real(1) by (auto simp: real_civil_def)
  have "\<bar>t\<bar> \<le> 8640000000000000" using assms by (simp add: time_clip_def split: if_splits)
  then have "- 100000000 \<le> t div DAY_MS" "t div DAY_MS \<le> 100000000" by simp_all
  then have probe: "time_clip (day_of_civil y m d * DAY_MS) = Some (day_of_civil y m d * DAY_MS)"
    "utc_civil (day_of_civil y m d * DAY_MS) = (y, m, d)"
    using civ real(2) by (simp_all add: time_clip_def utc_civil_def abs_le_iff)
  have yb: "\<bar>y\<bar> < 1000000" using year_bound [OF assms c] .
  have l2: "length (pad (m + 1) 2) = 2" "length (pad d 2) = 2" using f(1-4) by (simp_all add: length_pad2)
  have n2: "num_of (pad (m + 1) 2) = m + 1" "num_of (pad d 2) = d" using f(1,3) by simp_all
  have tail: "rx_lang (rx_seq day_tail) ?day" by (rule day_tail_match [OF f(1-4)])
  show ?thesis
  proof (cases "0 \<le> y \<and> y \<le> 9999")
    case True
    have iso: "iso_string t = pad y 4 @ ?day" using True by (simp add: iso_string_eq [OF c] iso_rest_def r_def)
    have l4: "length (pad y 4) = 4" using True by (simp add: length_pad4)
    have short: "rx_match (rx_seq (rx_rep 4 rx_digit # day_tail)) (iso_string t)"
      unfolding rx_match_lang iso using l4 tail True pad_digits by (intro seq_digits) auto
    obtain x xs where "pad y 4 = x # xs" "is_digit x" using pad_hd_digit [of y 4 3] True l4 by auto
    then have long: "\<not> rx_match (rx_seq (Cls (\<lambda>c. c = CHR ''+'' \<or> c = CHR ''-'') # rx_rep 6 rx_digit # day_tail)) (iso_string t)"
      unfolding rx_match_lang iso rx_lang_seq_Cls by (auto simp: is_digit_def)
    have "take 4 (iso_string t) = pad y 4" "take 2 (drop 5 (iso_string t)) = pad (m + 1) 2" "take 2 (drop 8 (iso_string t)) = pad d 2"
      using l4 l2 by (simp_all add: iso)
    then show ?thesis using short long True md probe n2 by (simp add: startsWithRealDay_def Let_def)
  next
    case False
    define sg where "sg = (if y < 0 then CHR ''-'' else CHR ''+'')"
    have iso: "iso_string t = sg # pad \<bar>y\<bar> 6 @ ?day" by (simp only: iso_string_eq [OF c] iso_rest_def r_def sg_def if_not_P [OF False] append_assoc append_Cons)
    have l6: "length (pad \<bar>y\<bar> 6) = 6" using yb by (simp add: length_pad6)
    have long: "rx_match (rx_seq (Cls (\<lambda>c. c = CHR ''+'' \<or> c = CHR ''-'') # rx_rep 6 rx_digit # day_tail)) (iso_string t)"
      unfolding rx_match_lang iso using l6 tail pad_digits [of "\<bar>y\<bar>"] by (intro seq_char seq_digits) (auto simp: sg_def)
    have "hd (iso_string t) = sg" "take 6 (tl (iso_string t)) = pad \<bar>y\<bar> 6" "take 2 (drop 8 (iso_string t)) = pad (m + 1) 2" "take 2 (drop 11 (iso_string t)) = pad d 2"
      using l6 l2 by (simp_all add: iso numeral_eq_Suc)
    then show ?thesis using long md probe n2 by (auto simp: startsWithRealDay_def Let_def sg_def)
  qed
qed

lemma reads_iso:
  assumes "honest_parse dparse" "time_clip t = Some t"
  shows "instantEpochMs dparse (IText (iso_string t)) = Some t"
proof -
  have "trim (iso_string t) = iso_string t" using iso_no_ws by (intro trim_no_ws) blast
  then show ?thesis using assms iso_instant_re iso_real_day [OF assms(2)] by (simp add: instantEpochMs_def honest_parse_def)
qed

lemma read_clipped: "honest_parse dparse \<Longrightarrow> instantEpochMs dparse (IText s) = Some t \<Longrightarrow> time_clip t = Some t"
  by (auto simp: instantEpochMs_def Let_def honest_parse_def split: if_splits)


text \<open>A reader of exactly these texts, to show that the contract of \<open>Date.parse\<close> can hold.\<close>

definition read_iso :: "string \<Rightarrow> int option" where
  "read_iso s =
     (let signed = (s \<noteq> [] \<and> (hd s = CHR ''+'' \<or> hd s = CHR ''-''));
          y = (if signed then (if hd s = CHR ''-'' then - num_of (take 6 (tl s)) else num_of (take 6 (tl s))) else num_of (take 4 s));
          r = drop (if signed then 7 else 4) s;
          t = day_of_civil y (num_of (take 2 (drop 1 r)) - 1) (num_of (take 2 (drop 4 r))) * DAY_MS +
            (num_of (take 2 (drop 7 r)) * 3600000 + num_of (take 2 (drop 10 r)) * 60000 + num_of (take 2 (drop 13 r)) * 1000 + num_of (take 3 (drop 16 r))) in
      if time_clip t = Some t \<and> iso_string t = s then Some t else None)"

lemma iso_slices:
  assumes "length a = 2" "length b = 2" "length c = 2" "length d = 2" "length e = 2" "length f = 3"
    "r = ''-'' @ a @ ''-'' @ b @ ''T'' @ c @ '':'' @ d @ '':'' @ e @ ''.'' @ f @ ''Z''"
  shows "take 2 (drop 1 r) = a" "take 2 (drop 4 r) = b" "take 2 (drop 7 r) = c" "take 2 (drop 10 r) = d" "take 2 (drop 13 r) = e"
    "take 3 (drop 16 r) = f"
  using assms(1-6) by (simp_all add: assms(7))

lemma iso_rest_fields:
  assumes "utc_civil t = (y, m, d)"
  defines "r \<equiv> iso_rest m d (t mod DAY_MS)"
  shows "num_of (take 2 (drop 1 r)) = m + 1" "num_of (take 2 (drop 4 r)) = d" "num_of (take 2 (drop 7 r)) = t mod DAY_MS div 3600000"
    "num_of (take 2 (drop 10 r)) = t mod DAY_MS div 60000 mod 60" "num_of (take 2 (drop 13 r)) = t mod DAY_MS div 1000 mod 60"
    "num_of (take 3 (drop 16 r)) = t mod DAY_MS mod 1000"
proof -
  note f = iso_fields [OF assms(1)]
  note L = length_pad2 [OF f(1,2)] length_pad2 [OF f(3,4)] length_pad2 [OF f(6,7)] length_pad2 [OF f(8,9)] length_pad2 [OF f(10,11)]
    length_pad3 [OF f(12,13)]
  have "r = iso_rest m d (t mod DAY_MS)" by (simp only: r_def)
  note S = iso_slices [OF L this [unfolded iso_rest_def]]
  show "num_of (take 2 (drop 1 r)) = m + 1" "num_of (take 2 (drop 4 r)) = d" "num_of (take 2 (drop 7 r)) = t mod DAY_MS div 3600000"
    "num_of (take 2 (drop 10 r)) = t mod DAY_MS div 60000 mod 60" "num_of (take 2 (drop 13 r)) = t mod DAY_MS div 1000 mod 60"
    "num_of (take 3 (drop 16 r)) = t mod DAY_MS mod 1000"
    using f(1,3,6,8,10,12) by (simp_all only: S num_of_pad')
qed

lemma read_iso_iso:
  assumes "time_clip t = Some t"
  shows "read_iso (iso_string t) = Some t"
proof -
  obtain y m d where c: "utc_civil t = (y, m, d)" by (metis prod_cases3)
  define r where "r = iso_rest m d (t mod DAY_MS)"
  note f = iso_fields [OF c] and F = iso_rest_fields [OF c, folded r_def]
  have yb: "\<bar>y\<bar> < 1000000" using year_bound [OF assms c] .
  have dg: "\<not> is_digit CHR ''+''" "\<not> is_digit CHR ''-''" by (simp_all add: is_digit_def)
  have s: "(iso_string t \<noteq> [] \<and> (hd (iso_string t) = CHR ''+'' \<or> hd (iso_string t) = CHR ''-'')) = (\<not> (0 \<le> y \<and> y \<le> 9999))"
    "drop (if \<not> (0 \<le> y \<and> y \<le> 9999) then 7 else 4) (iso_string t) = r"
    "(if \<not> (0 \<le> y \<and> y \<le> 9999) then (if hd (iso_string t) = CHR ''-'' then - num_of (take 6 (tl (iso_string t))) else num_of (take 6 (tl (iso_string t))))
      else num_of (take 4 (iso_string t))) = y"
  proof -
    consider (short) "0 \<le> y" "y \<le> 9999" | (long) "\<not> (0 \<le> y \<and> y \<le> 9999)" by blast
    then show "(iso_string t \<noteq> [] \<and> (hd (iso_string t) = CHR ''+'' \<or> hd (iso_string t) = CHR ''-'')) = (\<not> (0 \<le> y \<and> y \<le> 9999))"
      "drop (if \<not> (0 \<le> y \<and> y \<le> 9999) then 7 else 4) (iso_string t) = r"
      "(if \<not> (0 \<le> y \<and> y \<le> 9999) then (if hd (iso_string t) = CHR ''-'' then - num_of (take 6 (tl (iso_string t))) else num_of (take 6 (tl (iso_string t))))
      else num_of (take 4 (iso_string t))) = y"
    proof (atomize (full), cases)
      case short
      have i: "iso_string t = pad y 4 @ r" using short by (simp add: iso_string_eq [OF c] r_def)
      have l: "length (pad y 4) = 4" using short by (simp add: length_pad4)
      obtain x xs where "pad y 4 = x # xs" "is_digit x" using pad_hd_digit [of y 4 3] short l by auto
      then show "((iso_string t \<noteq> [] \<and> (hd (iso_string t) = CHR ''+'' \<or> hd (iso_string t) = CHR ''-'')) = (\<not> (0 \<le> y \<and> y \<le> 9999))) \<and>
        drop (if \<not> (0 \<le> y \<and> y \<le> 9999) then 7 else 4) (iso_string t) = r \<and>
        (if \<not> (0 \<le> y \<and> y \<le> 9999) then (if hd (iso_string t) = CHR ''-'' then - num_of (take 6 (tl (iso_string t))) else num_of (take 6 (tl (iso_string t))))
          else num_of (take 4 (iso_string t))) = y"
        using short l dg num_of_pad' [of y 4] by (auto simp: i)
    next
      case long
      define sg where "sg = (if y < 0 then CHR ''-'' else CHR ''+'')"
      have i: "iso_string t = sg # pad \<bar>y\<bar> 6 @ r" by (simp only: iso_string_eq [OF c] r_def sg_def if_not_P [OF long] append_Cons)
      have l: "length (pad \<bar>y\<bar> 6) = 6" using yb by (simp add: length_pad6)
      have "drop 7 (iso_string t) = r" "take 6 (tl (iso_string t)) = pad \<bar>y\<bar> 6" "hd (iso_string t) = sg" using l by (simp_all add: i)
      then show "((iso_string t \<noteq> [] \<and> (hd (iso_string t) = CHR ''+'' \<or> hd (iso_string t) = CHR ''-'')) = (\<not> (0 \<le> y \<and> y \<le> 9999))) \<and>
        drop (if \<not> (0 \<le> y \<and> y \<le> 9999) then 7 else 4) (iso_string t) = r \<and>
        (if \<not> (0 \<le> y \<and> y \<le> 9999) then (if hd (iso_string t) = CHR ''-'' then - num_of (take 6 (tl (iso_string t))) else num_of (take 6 (tl (iso_string t))))
          else num_of (take 4 (iso_string t))) = y"
        using long num_of_pad' [of "\<bar>y\<bar>" 6] i by (auto simp: sg_def)
    qed
  qed
  have "day_of_civil y m d * DAY_MS + (t mod DAY_MS div 3600000 * 3600000 + t mod DAY_MS div 60000 mod 60 * 60000 + t mod DAY_MS div 1000 mod 60 * 1000 + t mod DAY_MS mod 1000) = t"
    using f(5) tod_split [of "t mod DAY_MS"] by simp
  then show ?thesis using assms unfolding read_iso_def Let_def s F by simp
qed

lemma honest_read_iso: "honest_parse read_iso"
  by (auto simp: honest_parse_def read_iso_iso) (auto simp: read_iso_def Let_def split: if_splits)

end
