(* ===== verification/Duty.thy ===== *)
theory Duty imports KeyOrder IsoInstant "HOL-Library.Multiset" begin

text \<open>
  Duty plans: \<open>packages/domain/src/duty.ts\<close>. \<open>dparse\<close>, \<open>canon\<close> and \<open>fmt\<close> are the platform's as in
  \<open>PlainDate\<close>.
\<close>

section \<open>Templates\<close>

record duty_template =
  dt_label :: string
  dt_start :: string
  dt_end :: string

record duty_shift =
  ds_userId :: int
  ds_startsAt :: string
  ds_endsAt :: string

definition MAX_DUTY_TEMPLATES :: nat where "MAX_DUTY_TEMPLATES = 12"
definition MAX_DUTY_SHIFTS :: nat where "MAX_DUTY_SHIFTS = 400"
definition MAX_DUTY_LABEL :: nat where "MAX_DUTY_LABEL = 60"
definition MAX_DUTY_SHIFT_DAYS :: int where "MAX_DUTY_SHIFT_DAYS = 14"
definition DUTY_HISTORY_DAYS :: int where "DUTY_HISTORY_DAYS = 28"

definition WALL_TIME :: rx where
  "WALL_TIME = rx_seq
     [Al (Sq (Cls (\<lambda>c. c = CHR ''0'' \<or> c = CHR ''1'')) rx_digit) (Sq (rx_char CHR ''2'') (Cls (char_in CHR ''0'' CHR ''3''))),
      rx_char CHR '':'', Cls (char_in CHR ''0'' CHR ''5''), rx_digit]"

text \<open>The messages of the validators, with the index each names.\<close>

datatype duty_error =
    TemplatesNotArray
  | TemplateLabel nat
  | TemplateTimes nat
  | TemplateTwice nat string
  | ShiftsNotArray
  | ShiftUser nat
  | ShiftInstants nat
  | ShiftEnd nat

definition wall_time_text :: "js \<Rightarrow> bool" where
  "wall_time_text v = (case v of JStr s \<Rightarrow> rx_match WALL_TIME s | _ \<Rightarrow> False)"

fun templates_from :: "nat \<Rightarrow> duty_template list \<Rightarrow> js list \<Rightarrow> duty_error + duty_template list" where
  "templates_from i templates [] = Inr templates"
| "templates_from i templates (entry # es) =
     (case entry of
        JObj fs \<Rightarrow>
          (let label = (case jget fs ''label'' of JStr s \<Rightarrow> trim s | _ \<Rightarrow> []) in
           if label = [] \<or> length label > MAX_DUTY_LABEL then Inl (TemplateLabel i)
           else (case (jget fs ''start'', jget fs ''end'') of
               (JStr s, JStr e) \<Rightarrow>
                 if \<not> rx_match WALL_TIME s \<or> \<not> rx_match WALL_TIME e \<or> s = e then Inl (TemplateTimes i)
                 else if list_ex (\<lambda>t. dt_label t = label) templates then Inl (TemplateTwice i label)
                 else templates_from (Suc i) (templates @ [\<lparr>dt_label = label, dt_start = s, dt_end = e\<rparr>]) es
             | _ \<Rightarrow> Inl (TemplateTimes i)))
      | _ \<Rightarrow> Inl (TemplateLabel i))"

definition validateDutyTemplates :: "js \<Rightarrow> duty_error + duty_template list" where
  "validateDutyTemplates raw =
     (if nullish raw then Inr []
      else case raw of
        JArr es \<Rightarrow> if length es > MAX_DUTY_TEMPLATES then Inl TemplatesNotArray else templates_from 0 [] es
      | _ \<Rightarrow> Inl TemplatesNotArray)"

definition label_too_long :: "js \<Rightarrow> bool" where
  "label_too_long t = (case t of JObj fs \<Rightarrow> (case jget fs ''label'' of JStr s \<Rightarrow> length (trim s) > MAX_DUTY_LABEL | _ \<Rightarrow> False) | _ \<Rightarrow> False)"

definition dutyTemplatesCode :: "js \<Rightarrow> string option" where
  "dutyTemplatesCode raw =
     (case validateDutyTemplates raw of
        Inr _ \<Rightarrow> None
      | Inl _ \<Rightarrow> if (case raw of JArr es \<Rightarrow> list_ex label_too_long es | _ \<Rightarrow> False) then Some ''tooLong'' else Some ''invalid'')"

section \<open>Shifts\<close>

text \<open>A checked shift with its two instants.\<close>

record timed_shift =
  ts_userId :: int
  ts_start :: int
  ts_end :: int

definition validateShift :: "(string \<Rightarrow> int option) \<Rightarrow> nat \<Rightarrow> js \<Rightarrow> duty_error + timed_shift" where
  "validateShift dparse i entry =
     (case entry of
        JObj fs \<Rightarrow>
          (case jget fs ''userId'' of
             JInt u \<Rightarrow>
               if \<not> is_row_id u then Inl (ShiftUser i)
               else (case (case jget fs ''startsAt'' of JStr s \<Rightarrow> instantEpochMs dparse (IText s) | _ \<Rightarrow> None,
                           case jget fs ''endsAt'' of JStr s \<Rightarrow> instantEpochMs dparse (IText s) | _ \<Rightarrow> None) of
                   (Some start, Some end') \<Rightarrow>
                     if end' \<le> start \<or> end' - start > MAX_DUTY_SHIFT_DAYS * DAY_MS then Inl (ShiftEnd i)
                     else Inr \<lparr>ts_userId = u, ts_start = start, ts_end = end'\<rparr>
                 | _ \<Rightarrow> Inl (ShiftInstants i))
           | _ \<Rightarrow> Inl (ShiftUser i))
      | _ \<Rightarrow> Inl (ShiftUser i))"

fun shifts_from :: "(string \<Rightarrow> int option) \<Rightarrow> nat \<Rightarrow> js list \<Rightarrow> duty_error + timed_shift list" where
  "shifts_from dparse i [] = Inr []"
| "shifts_from dparse i (entry # es) =
     (case validateShift dparse i entry of
        Inl e \<Rightarrow> Inl e
      | Inr s \<Rightarrow> (case shifts_from dparse (Suc i) es of Inl e \<Rightarrow> Inl e | Inr ss \<Rightarrow> Inr (s # ss)))"

text \<open>\<open>toISOString\<close> on both ends.\<close>

definition shift_text :: "timed_shift \<Rightarrow> duty_shift" where
  "shift_text s = \<lparr>ds_userId = ts_userId s, ds_startsAt = iso_string (ts_start s), ds_endsAt = iso_string (ts_end s)\<rparr>"

definition sort_shifts :: "timed_shift list \<Rightarrow> timed_shift list" where
  "sort_shifts ss = sort_key ts_start (sort_key ts_userId ss)"

definition validateDutyShifts :: "(string \<Rightarrow> int option) \<Rightarrow> js \<Rightarrow> duty_error + duty_shift list" where
  "validateDutyShifts dparse raw =
     (if nullish raw then Inr []
      else case raw of
        JArr es \<Rightarrow>
          if length es > MAX_DUTY_SHIFTS then Inl ShiftsNotArray
          else (case shifts_from dparse 0 es of Inl e \<Rightarrow> Inl e | Inr ss \<Rightarrow> Inr (map shift_text (sort_shifts ss)))
      | _ \<Rightarrow> Inl ShiftsNotArray)"

definition dutyShiftsCode :: "(string \<Rightarrow> int option) \<Rightarrow> js \<Rightarrow> string option" where
  "dutyShiftsCode dparse raw =
     (case validateDutyShifts dparse raw of
        Inr _ \<Rightarrow> None
      | Inl (ShiftEnd _) \<Rightarrow> Some ''endBeforeStart''
      | Inl _ \<Rightarrow> Some ''invalid'')"

text \<open>Comparisons with NaN are false.\<close>

definition ms_le :: "int option \<Rightarrow> int \<Rightarrow> bool" where
  "ms_le a t = (case a of None \<Rightarrow> False | Some x \<Rightarrow> x \<le> t)"

definition ms_gt :: "int option \<Rightarrow> int \<Rightarrow> bool" where
  "ms_gt a t = (case a of None \<Rightarrow> False | Some x \<Rightarrow> t < x)"

definition ms_lt :: "int option \<Rightarrow> int \<Rightarrow> bool" where
  "ms_lt a t = (case a of None \<Rightarrow> False | Some x \<Rightarrow> x < t)"

definition dutyShiftsAt :: "(string \<Rightarrow> int option) \<Rightarrow> duty_shift list \<Rightarrow> int \<Rightarrow> duty_shift list" where
  "dutyShiftsAt dparse shifts ms = filter (\<lambda>s. ms_le (dparse (ds_startsAt s)) ms \<and> ms_gt (dparse (ds_endsAt s)) ms) shifts"

definition dutyShiftsBetween :: "(string \<Rightarrow> int option) \<Rightarrow> duty_shift list \<Rightarrow> int \<Rightarrow> int \<Rightarrow> duty_shift list" where
  "dutyShiftsBetween dparse shifts from to =
     filter (\<lambda>s. ms_lt (dparse (ds_startsAt s)) to \<and> ms_gt (dparse (ds_endsAt s)) from) shifts"

text \<open>The pairs in the order of the two loops.\<close>

definition shift_span :: "(string \<Rightarrow> int option) \<Rightarrow> duty_shift \<Rightarrow> (int \<times> int) option" where
  "shift_span dparse s =
     (case (instantEpochMs dparse (IText (ds_startsAt s)), instantEpochMs dparse (IText (ds_endsAt s))) of
        (Some a, Some b) \<Rightarrow> Some (a, b)
      | _ \<Rightarrow> None)"

definition spans_overlap :: "(int \<times> int) option \<Rightarrow> (int \<times> int) option \<Rightarrow> bool" where
  "spans_overlap x y =
     (case (x, y) of
        (Some (startI, endI), Some (startJ, endJ)) \<Rightarrow> startI < endJ \<and> startJ < endI
      | _ \<Rightarrow> False)"

definition dutyShiftOverlaps :: "(string \<Rightarrow> int option) \<Rightarrow> duty_shift list \<Rightarrow> (nat \<times> nat) list" where
  "dutyShiftOverlaps dparse shifts =
     (let spans = map (shift_span dparse) shifts; n = length shifts in
      concat (map (\<lambda>i. List.map_filter (\<lambda>j. if spans_overlap (spans ! i) (spans ! j) then Some (i, j) else None) [Suc i..<n]) [0..<n]))"

section \<open>Copies\<close>

text \<open>\<open>toISOString\<close> of a date that may be invalid.\<close>

definition to_iso :: "int option \<Rightarrow> date_error + string" where
  "to_iso t = (case t of None \<Rightarrow> Inl InvalidDate | Some ms \<Rightarrow> Inr (iso_string ms))"

definition wall_instant ::
  "(string \<Rightarrow> string option) \<Rightarrow> zone_format \<Rightarrow> string \<Rightarrow> string \<Rightarrow> string \<Rightarrow> disambiguation \<Rightarrow> date_error + string" where
  "wall_instant canon fmt day time tz mode =
     (case zonedWallTimeToInstant canon fmt day time tz mode of Inl e \<Rightarrow> Inl e | Inr t \<Rightarrow> to_iso t)"

definition dutyShiftFromTemplate ::
  "(string \<Rightarrow> string option) \<Rightarrow> zone_format \<Rightarrow> duty_template \<Rightarrow> string \<Rightarrow> int \<Rightarrow> string \<Rightarrow> date_error + duty_shift" where
  "dutyShiftFromTemplate canon fmt template day userId tz =
     (case (if dt_end template \<le> dt_start template then addDaysToKey day (JInt 1) else Inr day) of
        Inl e \<Rightarrow> Inl e
      | Inr endDay \<Rightarrow>
        (case wall_instant canon fmt day (dt_start template) tz Compatible of
           Inl e \<Rightarrow> Inl e
         | Inr a \<Rightarrow>
           (case wall_instant canon fmt endDay (dt_end template) tz Compatible of
              Inl e \<Rightarrow> Inl e
            | Inr b \<Rightarrow> Inr \<lparr>ds_userId = userId, ds_startsAt = a, ds_endsAt = b\<rparr>)))"

fun is_wall_time_error :: "date_error \<Rightarrow> bool" where
  "is_wall_time_error (WallTimeRepeated _ _ _) = True"
| "is_wall_time_error (WallTimeSkipped _ _ _) = True"
| "is_wall_time_error _ = False"

definition move_instant ::
  "(string \<Rightarrow> int option) \<Rightarrow> (string \<Rightarrow> string option) \<Rightarrow> zone_format \<Rightarrow> int \<Rightarrow> string \<Rightarrow> string \<Rightarrow> date_error + string" where
  "move_instant dparse canon fmt days tz i =
     (case zonedDateKey dparse fmt (IText i) tz of
        Inl e \<Rightarrow> Inl e
      | Inr key \<Rightarrow>
        (case addDaysToKey key (JInt days) of
           Inl e \<Rightarrow> Inl e
         | Inr day \<Rightarrow>
           (case zonedTimeOfDay dparse fmt (IText i) tz of
              Inl e \<Rightarrow> Inl e
            | Inr time \<Rightarrow>
              (case wall_instant canon fmt day time tz Reject of
                 Inr s \<Rightarrow> Inr s
               | Inl e \<Rightarrow> if is_wall_time_error e then Inr (day @ ''T'' @ time) else Inl e))))"

definition moveDutyShift ::
  "(string \<Rightarrow> int option) \<Rightarrow> (string \<Rightarrow> string option) \<Rightarrow> zone_format \<Rightarrow> duty_shift \<Rightarrow> int \<Rightarrow> string \<Rightarrow> date_error + duty_shift" where
  "moveDutyShift dparse canon fmt shift days tz =
     (case move_instant dparse canon fmt days tz (ds_startsAt shift) of
        Inl e \<Rightarrow> Inl e
      | Inr a \<Rightarrow>
        (case move_instant dparse canon fmt days tz (ds_endsAt shift) of
           Inl e \<Rightarrow> Inl e
         | Inr b \<Rightarrow> Inr (shift\<lparr>ds_startsAt := a, ds_endsAt := b\<rparr>)))"

fun sum_all :: "('e + 'a) list \<Rightarrow> 'e + 'a list" where
  "sum_all [] = Inr []"
| "sum_all (x # xs) = (case x of Inl e \<Rightarrow> Inl e | Inr a \<Rightarrow> (case sum_all xs of Inl e \<Rightarrow> Inl e | Inr as \<Rightarrow> Inr (a # as)))"

text \<open>\<open>filter\<close> with a condition that may throw.\<close>

fun sum_filter :: "('a \<Rightarrow> 'e + bool) \<Rightarrow> 'a list \<Rightarrow> 'e + 'a list" where
  "sum_filter P [] = Inr []"
| "sum_filter P (x # xs) =
     (case P x of Inl e \<Rightarrow> Inl e
      | Inr b \<Rightarrow> (case sum_filter P xs of Inl e \<Rightarrow> Inl e | Inr ys \<Rightarrow> Inr (if b then x # ys else ys)))"

definition copyDutyWeek ::
  "(string \<Rightarrow> int option) \<Rightarrow> (string \<Rightarrow> string option) \<Rightarrow> zone_format \<Rightarrow> duty_shift list \<Rightarrow> string \<Rightarrow> string \<Rightarrow> date_error + duty_shift list" where
  "copyDutyWeek dparse canon fmt shifts weekStart tz =
     (case addDaysToKey weekStart (JInt 7) of
        Inl e \<Rightarrow> Inl e
      | Inr weekEnd \<Rightarrow>
        (case sum_filter (\<lambda>s. case zonedDateKey dparse fmt (IText (ds_startsAt s)) tz of
              Inl e \<Rightarrow> Inl e | Inr day \<Rightarrow> Inr (weekStart \<le> day \<and> day < weekEnd))
            (filter (\<lambda>s. shift_span dparse s \<noteq> None) shifts) of
           Inl e \<Rightarrow> Inl e
         | Inr chosen \<Rightarrow> sum_all (map (\<lambda>s. moveDutyShift dparse canon fmt s 7 tz) chosen)))"

definition pruneDutyShifts :: "(string \<Rightarrow> int option) \<Rightarrow> duty_shift list \<Rightarrow> int \<Rightarrow> int \<Rightarrow> duty_shift list" where
  "pruneDutyShifts dparse shifts now keepDays =
     (let cutoff = now - keepDays * DAY_MS in
      filter (\<lambda>s. case instantEpochMs dparse (IText (ds_endsAt s)) of None \<Rightarrow> True | Some e \<Rightarrow> cutoff \<le> e) shifts)"

section \<open>What is stored\<close>

lemma sort_key_twice: "sort_key f (sort_key g (sort_key f (sort_key g xs))) = sort_key f (sort_key g xs)"
proof -
  let ?ys = "sort_key f (sort_key g xs)"
  have "filter (\<lambda>x. f k = f x) ?ys = filter (\<lambda>x. f k = f x) (sort_key g ?ys)" for k
  proof -
    have "filter (\<lambda>x. f x = f k) ?ys = filter (\<lambda>x. f x = f k) (sort_key g xs)" by (rule sort_key_stable)
    also have "\<dots> = sort_key g (filter (\<lambda>x. f x = f k) xs)" by (rule filter_sort)
    finally have e: "filter (\<lambda>x. f x = f k) ?ys = sort_key g (filter (\<lambda>x. f x = f k) xs)" .
    have "filter (\<lambda>x. f x = f k) (sort_key g ?ys) = sort_key g (filter (\<lambda>x. f x = f k) ?ys)" by (rule filter_sort)
    also have "\<dots> = sort_key g (filter (\<lambda>x. f x = f k) xs)" unfolding e by (rule sort_key_id_if_sorted) simp
    finally show ?thesis using e by (simp add: eq_commute)
  qed
  then show ?thesis by (intro properties_for_sort_key) simp_all
qed

definition shift_ok :: "timed_shift \<Rightarrow> bool" where
  "shift_ok s = (is_row_id (ts_userId s) \<and> time_clip (ts_start s) = Some (ts_start s) \<and> time_clip (ts_end s) = Some (ts_end s) \<and>
     ts_start s < ts_end s \<and> ts_end s - ts_start s \<le> MAX_DUTY_SHIFT_DAYS * DAY_MS)"

definition shift_js :: "duty_shift \<Rightarrow> js" where
  "shift_js s = JObj [(''userId'', JInt (ds_userId s)), (''startsAt'', JStr (ds_startsAt s)), (''endsAt'', JStr (ds_endsAt s))]"

lemma validateShift_ok: "honest_parse dparse \<Longrightarrow> validateShift dparse i e = Inr s \<Longrightarrow> shift_ok s"
  by (auto simp: validateShift_def shift_ok_def read_clipped split: js.splits option.splits if_splits)

lemma shifts_from_ok: "honest_parse dparse \<Longrightarrow> shifts_from dparse i es = Inr ss \<Longrightarrow> list_all shift_ok ss \<and> length ss = length es"
  by (induction es arbitrary: i ss) (auto split: sum.splits dest: validateShift_ok)

lemma validateShift_text: "honest_parse dparse \<Longrightarrow> shift_ok s \<Longrightarrow> validateShift dparse i (shift_js (shift_text s)) = Inr s"
  by (simp add: validateShift_def shift_js_def shift_text_def shift_ok_def reads_iso del: rx_match.simps)

lemma shifts_from_text:
  "honest_parse dparse \<Longrightarrow> list_all shift_ok ss \<Longrightarrow> shifts_from dparse i (map (shift_js \<circ> shift_text) ss) = Inr ss"
  by (induction ss arbitrary: i) (simp_all add: validateShift_text)

lemma validated_shifts:
  assumes "honest_parse dparse" "validateDutyShifts dparse raw = Inr ss"
  obtains ts where "ss = map shift_text ts" "list_all shift_ok ts" "length ts \<le> MAX_DUTY_SHIFTS" "sort_shifts ts = ts"
proof (cases "nullish raw")
  case True
  then have "ss = []" using assms(2) by (simp add: validateDutyShifts_def)
  then show ?thesis by (intro that [of "[]"]) (simp_all add: sort_shifts_def)
next
  case False
  then obtain es us where e: "shifts_from dparse 0 es = Inr us" "ss = map shift_text (sort_shifts us)" "length es \<le> MAX_DUTY_SHIFTS"
    using assms(2) by (auto simp: validateDutyShifts_def not_less split: js.splits if_splits sum.splits)
  note ok = shifts_from_ok [OF assms(1) e(1)]
  show ?thesis
  proof (rule that [of "sort_shifts us"])
    show "list_all shift_ok (sort_shifts us)" using ok by (simp add: list_all_iff sort_shifts_def)
    show "sort_shifts (sort_shifts us) = sort_shifts us" by (simp only: sort_shifts_def sort_key_twice)
  qed (use e ok in \<open>simp_all add: sort_shifts_def\<close>)
qed

text \<open>C20: Stored shifts are in normal form: validating them again changes nothing, they are sorted by their start, and every one
  ends after it starts, at most fourteen days later.\<close>

theorem duty_shifts_normal:
  assumes "honest_parse dparse" "validateDutyShifts dparse raw = Inr ss"
  shows "validateDutyShifts dparse (JArr (map shift_js ss)) = Inr ss \<and> length ss \<le> 400 \<and>
    (\<exists>spans. map (shift_span dparse) ss = map Some spans \<and> sorted (map fst spans) \<and>
      list_all (\<lambda>(a, b). a < b \<and> b - a \<le> 14 * DAY_MS) spans)"
proof -
  obtain ts where t: "ss = map shift_text ts" "list_all shift_ok ts" "length ts \<le> MAX_DUTY_SHIFTS" "sort_shifts ts = ts"
    using validated_shifts [OF assms] by blast
  have "validateDutyShifts dparse (JArr (map shift_js ss)) = Inr ss"
    using t(3,4) shifts_from_text [OF assms(1) t(2)] by (simp add: validateDutyShifts_def t(1) comp_def)
  moreover have "map (shift_span dparse) ss = map Some (map (\<lambda>s. (ts_start s, ts_end s)) ts)"
    using t(2) assms(1) by (auto simp: t(1) shift_span_def shift_text_def list_all_iff shift_ok_def reads_iso)
  moreover have "sorted (map fst (map (\<lambda>s. (ts_start s, ts_end s)) ts))"
    using t(4) sorted_sort_key [of ts_start "sort_key ts_userId ts"] by (simp add: sort_shifts_def comp_def)
  moreover have "list_all (\<lambda>(a, b). a < b \<and> b - a \<le> 14 * DAY_MS) (map (\<lambda>s. (ts_start s, ts_end s)) ts)"
    using t(2) by (auto simp: list_all_iff shift_ok_def MAX_DUTY_SHIFT_DAYS_def)
  moreover have "length ss \<le> 400" using t(1,3) by (simp add: MAX_DUTY_SHIFTS_def)
  ultimately show ?thesis by blast
qed


lemma overlap_at:
  "shift_ok s \<Longrightarrow> shift_ok s' \<Longrightarrow> ts_start s < ts_end s' \<and> ts_start s' < ts_end s \<longleftrightarrow>
   (\<exists>t. ts_start s \<le> t \<and> t < ts_end s \<and> ts_start s' \<le> t \<and> t < ts_end s')"
  by (auto simp: shift_ok_def intro!: exI [of _ "max (ts_start s) (ts_start s')"])

lemma on_duty: "honest_parse dparse \<Longrightarrow> shift_ok s \<Longrightarrow>
  shift_text s \<in> set (dutyShiftsAt dparse [shift_text s] t) \<longleftrightarrow> ts_start s \<le> t \<and> t < ts_end s"
  by (simp add: dutyShiftsAt_def shift_text_def ms_le_def ms_gt_def honest_parse_def shift_ok_def)

lemma overlaps_iff: "(i, j) \<in> set (dutyShiftOverlaps dparse ss) \<longleftrightarrow>
  i < j \<and> j < length ss \<and> spans_overlap (shift_span dparse (ss ! i)) (shift_span dparse (ss ! j))"
  by (auto simp: dutyShiftOverlaps_def Let_def List.map_filter_def intro!: bexI [of _ i] image_eqI [of _ _ j] split: if_splits)

text \<open>The hint names exactly the shifts that run at the same time: two stored shifts are listed when at some moment both are on
  duty, the end of a shift not included, and each pair is listed once.\<close>

theorem duty_overlaps_exact:
  assumes "honest_parse dparse" "validateDutyShifts dparse raw = Inr ss"
  shows "(i, j) \<in> set (dutyShiftOverlaps dparse ss) \<longleftrightarrow>
    i < j \<and> j < length ss \<and> (\<exists>t. ss ! i \<in> set (dutyShiftsAt dparse [ss ! i] t) \<and> ss ! j \<in> set (dutyShiftsAt dparse [ss ! j] t))"
proof (cases "i < j \<and> j < length ss")
  case True
  obtain ts where t: "ss = map shift_text ts" "list_all shift_ok ts" using validated_shifts [OF assms] by blast
  then have ok: "shift_ok (ts ! i)" "shift_ok (ts ! j)" using True by (auto simp: list_all_length)
  have span: "shift_span dparse (shift_text s) = Some (ts_start s, ts_end s)" if "shift_ok s" for s
    using that assms(1) by (simp add: shift_span_def shift_text_def shift_ok_def reads_iso)
  show ?thesis using True ok overlap_at [OF ok] on_duty [OF assms(1)]
    by (auto simp: overlaps_iff t(1) span spans_overlap_def)
qed (auto simp: overlaps_iff)

lemma digit_char_in: "0 \<le> d \<Longrightarrow> d \<le> k \<Longrightarrow> k < 10 \<Longrightarrow> char_in CHR ''0'' (digit_char k) (digit_char d)"
  by (simp add: char_in_def of_char_digit_char le_nat_iff)

lemma clock_text:
  assumes "0 \<le> h" "h < 24" "0 \<le> mi" "mi < 60"
  shows "rx_match WALL_TIME_RE (pad h 2 @ '':'' @ pad mi 2)" "length (pad h 2 @ '':'' @ pad mi 2) = 5"
    "wall_time_groups (pad h 2 @ '':'' @ pad mi 2) = (h, mi, 0)"
proof -
  have p: "pad h 2 = [digit_char (h div 10), digit_char (h mod 10)]" "pad mi 2 = [digit_char (mi div 10), digit_char (mi mod 10)]"
    using pad2 [of h] pad2 [of mi] assms by (simp_all add: pad_def)
  have c: "digit_char 0 = CHR ''0''" "digit_char 1 = CHR ''1''" "digit_char 2 = CHR ''2''" "digit_char 3 = CHR ''3''" "digit_char 5 = CHR ''5''"
    by code_simp+
  have "h div 10 = 0 \<or> h div 10 = 1 \<or> h div 10 = 2 \<and> h mod 10 \<le> 3" using assms by presburger
  then have hh: "rx_lang (Al (Sq (Cls (\<lambda>c. c = CHR ''0'' \<or> c = CHR ''1'')) rx_digit)
         (Sq (rx_char CHR ''2'') (Cls (char_in CHR ''0'' CHR ''3'')))) (pad h 2)"
    using digit_char_in [of "h mod 10" 3] by (auto simp: p rx_lang_Sq_Cls c)
  have mm: "char_in CHR ''0'' CHR ''5'' (digit_char (mi div 10))" "is_digit (digit_char (mi mod 10))"
    using digit_char_in [of "mi div 10" 5] assms by (simp_all add: c)
  have "rx_lang (rx_seq [rx_char CHR '':'', Cls (char_in CHR ''0'' CHR ''5''), rx_digit,
      rx_opt (rx_seq [rx_char CHR '':'', Cls (char_in CHR ''0'' CHR ''5''), rx_digit])]) (CHR '':'' # pad mi 2)"
  proof -
    have "rx_lang (rx_seq [rx_opt (rx_seq [rx_char CHR '':'', Cls (char_in CHR ''0'' CHR ''5''), rx_digit])]) []" by (simp add: rx_opt_def)
    from seq_char [of is_digit, OF mm(2) this] show ?thesis
      unfolding p(2) by (rule seq_char [of "\<lambda>x. x = CHR '':''", OF refl seq_char [of "char_in CHR ''0'' CHR ''5''", OF mm(1)]])
  qed
  with hh have "rx_lang WALL_TIME_RE (pad h 2 @ CHR '':'' # pad mi 2)"
    unfolding WALL_TIME_RE_def by (subst rx_lang_seq_Cons) (rule exI [of _ "pad h 2"], rule exI [of _ "CHR '':'' # pad mi 2"], intro conjI refl)
  then show "rx_match WALL_TIME_RE (pad h 2 @ '':'' @ pad mi 2)" by (simp add: rx_match_lang)
  show "length (pad h 2 @ '':'' @ pad mi 2) = 5" by (simp add: p)
  show "wall_time_groups (pad h 2 @ '':'' @ pad mi 2) = (h, mi, 0)"
  proof -
    have l: "length (pad h 2) = 2" "length (pad mi 2) = 2" by (simp_all add: p)
    have t: "take 2 (pad h 2 @ '':'' @ pad mi 2) = pad h 2" "take 2 (drop 3 (pad h 2 @ '':'' @ pad mi 2)) = pad mi 2"
      "length (pad h 2 @ '':'' @ pad mi 2) = 5" by (simp_all add: l)
    show ?thesis unfolding wall_time_groups_def t using assms(1,3) by simp
  qed
qed

text \<open>A shift moved by days keeps its wall time: its new end points either read back, on the calendar and the clock of the zone, as
  the moved day and the old time, or, when the clock change skips or repeats that time, stay as typed text.\<close>

theorem duty_move_keeps_wall_time:
  assumes "honest_parse dparse" "honest_zone fmt tz off" "\<forall>w. one_change off w" "isValidTimeZone canon tz"
    "instantEpochMs dparse (IText i) = Some t" "n = wall_ms off t div DAY_MS" "FIRST_DAY \<le> n" "n \<le> LAST_DAY"
    "FIRST_DAY + 2 \<le> n + days" "n + days \<le> LAST_DAY - 2"
  shows "\<exists>time s. zonedDateKey dparse fmt (IText i) tz = Inr (day_key n) \<and> zonedTimeOfDay dparse fmt (IText i) tz = Inr time \<and>
    move_instant dparse canon fmt days tz i = Inr s \<and>
    (if card (showing off (named_wall (day_key (n + days)) time)) = 1
     then zonedDateKey dparse fmt (IText s) tz = Inr (day_key (n + days)) \<and> zonedTimeOfDay dparse fmt (IText s) tz = Inr time
     else s = day_key (n + days) @ ''T'' @ time)"
proof -
  let ?w = "wall_ms off t"
  define h mi where "h = ?w mod DAY_MS div 3600000" and "mi = ?w mod DAY_MS div 60000 mod 60"
  define time where "time = pad h 2 @ '':'' @ pad mi 2"
  define day where "day = day_key (n + days)"
  note yr = year_of_day_range [OF assms(7,8)]
  have yr': "1 \<le> year_of_day (?w div DAY_MS)" "year_of_day (?w div DAY_MS) \<le> 9999"
    using yr unfolding assms(6) by linarith+
  note W = wall_clock_honest [OF assms(2) yr']
  have hm: "0 \<le> h" "h < 24" "0 \<le> mi" "mi < 60" by (simp_all add: h_def mi_def)
  note T = clock_text [OF hm, folded time_def]
  obtain y m d where c: "civil_of_day n = (y, m, d)" by (metis prod_cases3)
  have "(wc_year (wallClockAt fmt t tz), wc_month (wallClockAt fmt t tz) - 1, wc_day (wallClockAt fmt t tz)) = (y, m, d)"
    using W(1) by (simp add: utc_civil_def assms(6) [symmetric] c)
  then have "wc_year (wallClockAt fmt t tz) = y" "wc_month (wallClockAt fmt t tz) = m + 1" "wc_day (wallClockAt fmt t tz) = d" by auto
  then have key: "zonedDateKey dparse fmt (IText i) tz = Inr (day_key n)"
    by (simp add: zonedDateKey_def toEpochMs_def assms(5) Let_def day_key_def c)
  have tod: "zonedTimeOfDay dparse fmt (IText i) tz = Inr time"
    using W(2,3) by (simp add: zonedTimeOfDay_def toEpochMs_def assms(5) Let_def time_def h_def mi_def)
  have pd: "is_plain_date (day_key n)" "key_day (day_key n) = n" by (rule day_key_plain [OF assms(7,8)])+
  have "FIRST_DAY \<le> n + days" "n + days \<le> LAST_DAY" using assms(9,10) by linarith+
  then have dd: "is_plain_date day" "key_day day = n + days" unfolding day_def by (rule day_key_plain)+
  have add: "addDaysToKey (day_key n) (JInt days) = Inr day" using addDays_plain_iff [OF pd(1) dd(1)] pd dd by simp
  have rng: "FIRST_DAY + 2 \<le> key_day day" "key_day day \<le> LAST_DAY - 2" using assms(9,10) dd by simp_all
  let ?S = "showing off (named_wall day time)"
  note z = zoned_wall_time_eq [OF dd(1) rng T(1) assms(4,2) assms(3) [rule_format], of Reject]
  have mv: "move_instant dparse canon fmt days tz i = (if card ?S = 1 then Inr (iso_string (Min ?S)) else Inr (day @ ''T'' @ time))"
    by (auto simp: move_instant_def key tod add wall_instant_def z Let_def to_iso_def)
  show ?thesis
  proof (cases "card ?S = 1")
    case True
    then obtain u where u: "?S = {u}" by (auto simp: card_1_singleton_iff)
    then have in_S: "u \<in> ?S" by simp
    note R = zoned_reads_back [OF dd(1) rng T(1) assms(2) in_S]
    have "u = named_wall day time - off u" using in_S by (simp add: showing_def)
    then have "u = (n + days) * DAY_MS + (h * 3600000 + mi * 60000) - off u" by (simp add: named_wall_def T(3) dd(2))
    moreover have "\<bar>off u\<bar> < DAY_MS" by (rule honest_offset [OF assms(2)])
    moreover have "\<bar>n + days\<bar> \<le> 90000000" using assms(9,10) unfolding first_last_day by linarith
    ultimately have "time_clip u = Some u" using hm by (simp add: time_clip_def)
    then have "toEpochMs dparse (IText (iso_string u)) = toEpochMs dparse (IDate (Some u))"
      using reads_iso [OF assms(1)] by (simp add: toEpochMs_def instantEpochMs_def [of _ "IDate _"])
    moreover have "move_instant dparse canon fmt days tz i = Inr (iso_string u)" using mv True u by simp
    ultimately show ?thesis using R key tod True T(2)
      by (intro exI [of _ time] exI [of _ "iso_string u"]) (simp add: zonedDateKey_def zonedTimeOfDay_def day_def [symmetric])
  qed (use mv key tod in \<open>simp add: day_def [symmetric]\<close>)
qed

section \<open>Examples\<close>

definition demo_shifts :: js where
  "demo_shifts = JArr [JObj [(''userId'', JInt 7), (''startsAt'', JStr ''1970-01-02T00:00:00.000Z''), (''endsAt'', JStr ''1970-01-02T08:00:00.000Z'')],
     JObj [(''userId'', JInt 8), (''startsAt'', JStr ''1970-01-01T00:00:00.000Z''), (''endsAt'', JStr ''1970-01-02T06:00:00.000Z'')]]"

definition demo_stored :: "duty_shift list" where
  "demo_stored = [\<lparr>ds_userId = 8, ds_startsAt = ''1970-01-01T00:00:00.000Z'', ds_endsAt = ''1970-01-02T06:00:00.000Z''\<rparr>,
     \<lparr>ds_userId = 7, ds_startsAt = ''1970-01-02T00:00:00.000Z'', ds_endsAt = ''1970-01-02T08:00:00.000Z''\<rparr>]"

lemma demo_texts: "iso_string 0 = ''1970-01-01T00:00:00.000Z''" "iso_string 86400000 = ''1970-01-02T00:00:00.000Z''"
  "iso_string 108000000 = ''1970-01-02T06:00:00.000Z''" "iso_string 115200000 = ''1970-01-02T08:00:00.000Z''"
  by code_simp+

lemma demo_reads: "instantEpochMs read_iso (IText ''1970-01-01T00:00:00.000Z'') = Some 0"
  "instantEpochMs read_iso (IText ''1970-01-02T00:00:00.000Z'') = Some 86400000"
  "instantEpochMs read_iso (IText ''1970-01-02T06:00:00.000Z'') = Some 108000000"
  "instantEpochMs read_iso (IText ''1970-01-02T08:00:00.000Z'') = Some 115200000"
  unfolding demo_texts [symmetric] by (rule reads_iso [OF honest_read_iso]; simp add: time_clip_def)+

lemma demo_validated: "validateDutyShifts read_iso demo_shifts = Inr demo_stored"
  by (simp add: validateDutyShifts_def demo_shifts_def demo_stored_def validateShift_def demo_reads is_row_id_def MAX_ROW_ID_def
      MAX_DUTY_SHIFT_DAYS_def MAX_DUTY_SHIFTS_def sort_shifts_def shift_text_def demo_texts)

lemma duty_shifts_normal_witness: "validateDutyShifts read_iso (JArr (map shift_js demo_stored)) = Inr demo_stored"
  using duty_shifts_normal [OF honest_read_iso demo_validated] by blast

lemma duty_overlaps_exact_witness: "(0, 1) \<in> set (dutyShiftOverlaps read_iso demo_stored)"
proof -
  have "demo_stored ! 0 \<in> set (dutyShiftsAt read_iso [demo_stored ! 0] 90000000) \<and> demo_stored ! 1 \<in> set (dutyShiftsAt read_iso [demo_stored ! 1] 90000000)"
    by (simp add: demo_stored_def dutyShiftsAt_def ms_le_def ms_gt_def demo_texts [symmetric] read_iso_iso time_clip_def)
  then have "\<exists>t. demo_stored ! 0 \<in> set (dutyShiftsAt read_iso [demo_stored ! 0] t) \<and> demo_stored ! 1 \<in> set (dutyShiftsAt read_iso [demo_stored ! 1] t)"
    by (rule exI)
  moreover have "length demo_stored = 2" by (simp add: demo_stored_def)
  ultimately show ?thesis using duty_overlaps_exact [OF honest_read_iso demo_validated, of 0 1] by simp
qed

lemma duty_move_keeps_wall_time_witness:
  "\<exists>s. move_instant read_iso any_zone (civil_format cet_offset) 7 ''Europe/Berlin'' ''1970-01-02T08:00:00.000Z'' = Inr s"
proof -
  have "wall_ms cet_offset 115200000 div DAY_MS = 1" by (simp add: wall_ms_def cet_offset_def)
  moreover have "isValidTimeZone any_zone ''Europe/Berlin''" by (rule cet_hyps(6))
  moreover have "\<forall>w. one_change cet_offset w" by (simp add: cet_one_change)
  ultimately show ?thesis
    using duty_move_keeps_wall_time [OF honest_read_iso cet_honest, of any_zone "''Europe/Berlin''" "''1970-01-02T08:00:00.000Z''" 115200000 1 7] demo_reads(4)
    by (auto simp: first_last_day)
qed

end
