(* ===== verification/Kpi.thy ===== *)
theory Kpi imports KeyOrder begin

text \<open>
  Key figures: \<open>packages/domain/src/kpi.ts\<close>. A figure is the rational a JavaScript number stands for; \<open>fadd\<close> is the
  addition of JavaScript numbers. Stored values are an object, an association list with distinct keys.
\<close>

section \<open>Periods\<close>

datatype kpi_period = Month | Quarter | Year

datatype kpi_aggregation = Total | Last

fun period_name :: "kpi_period \<Rightarrow> string" where
  "period_name Month = ''month''"
| "period_name Quarter = ''quarter''"
| "period_name Year = ''year''"

definition KPI_PERIODS :: "string list" where "KPI_PERIODS = [''month'', ''quarter'', ''year'']"
definition KPI_AGGREGATIONS :: "string list" where "KPI_AGGREGATIONS = [''sum'', ''last'']"
definition MAX_KPI_VALUES :: nat where "MAX_KPI_VALUES = 600"
definition MAX_KPI_ABS :: rat where "MAX_KPI_ABS = 1000000000000"
definition KPI_WINDOW :: nat where "KPI_WINDOW = 12"

definition isKpiPeriod :: "js \<Rightarrow> kpi_period option" where
  "isKpiPeriod v = (case v of JStr s \<Rightarrow> find (\<lambda>p. period_name p = s) [Month, Quarter, Year] | _ \<Rightarrow> None)"

fun MONTHS_OF :: "kpi_period \<Rightarrow> int" where
  "MONTHS_OF Month = 1"
| "MONTHS_OF Quarter = 3"
| "MONTHS_OF Year = 12"

definition kpiPeriodStart :: "string \<Rightarrow> kpi_period \<Rightarrow> string" where
  "kpiPeriodStart day p =
     (let (year, month, _) = key_parts day;
          first = (if p = Year then 1 else if p = Quarter then month - (month - 1) mod 3 else month) in
      key_of year first 1)"

definition addKpiPeriods :: "string \<Rightarrow> kpi_period \<Rightarrow> int \<Rightarrow> string" where
  "addKpiPeriods start p count =
     (let (year, month, _) = key_parts start;
          index = year * 12 + (month - 1) + count * MONTHS_OF p;
          y = index div 12;
          m = index - y * 12 + 1 in
      key_of y m 1)"

definition recentKpiPeriods :: "string \<Rightarrow> kpi_period \<Rightarrow> nat \<Rightarrow> string list" where
  "recentKpiPeriods today p count =
     (let current = kpiPeriodStart today p in map (\<lambda>i. addKpiPeriods current p (- int i)) [0..<count])"

section \<open>Values\<close>

datatype kpi_error = KpiNotObject | KpiTooMany | KpiNoDate string | KpiMisaligned string kpi_period | KpiNumber string

definition kpi_number :: "js \<Rightarrow> rat option" where
  "kpi_number v = (case v of JInt i \<Rightarrow> if \<bar>of_int i\<bar> > MAX_KPI_ABS then None else Some (of_int i)
     | JFrac q \<Rightarrow> if \<bar>q\<bar> > MAX_KPI_ABS then None else Some q
     | _ \<Rightarrow> None)"

fun kpi_values_from :: "kpi_period option \<Rightarrow> (string \<times> js) list \<Rightarrow> string list \<Rightarrow> kpi_error + (string \<times> rat) list" where
  "kpi_values_from p raw [] = Inr []"
| "kpi_values_from p raw (key # keys) =
     (if \<not> is_plain_date key then Inl (KpiNoDate key)
      else if (case p of None \<Rightarrow> False | Some q \<Rightarrow> kpiPeriodStart key q \<noteq> key) then Inl (KpiMisaligned key (the p))
      else (case kpi_number (jget raw key) of
          None \<Rightarrow> Inl (KpiNumber key)
        | Some v \<Rightarrow> (case kpi_values_from p raw keys of Inl e \<Rightarrow> Inl e | Inr vs \<Rightarrow> Inr ((key, v) # vs))))"

definition validateKpiValues :: "js \<Rightarrow> kpi_period option \<Rightarrow> kpi_error + (string \<times> rat) list" where
  "validateKpiValues raw p =
     (if nullish raw then Inr []
      else case raw of
        JObj fs \<Rightarrow>
          (let keys = sort (map fst fs) in
           if length keys > MAX_KPI_VALUES then Inl KpiTooMany else kpi_values_from p fs keys)
      | _ \<Rightarrow> Inl KpiNotObject)"

definition kpiValuesCode :: "js \<Rightarrow> kpi_period option \<Rightarrow> string option" where
  "kpiValuesCode raw p = (case validateKpiValues raw p of Inl _ \<Rightarrow> Some ''invalid'' | Inr _ \<Rightarrow> None)"

section \<open>Summary\<close>

record kpi_summary =
  ks_latest :: "(string \<times> rat) option"
  ks_previous :: "(string \<times> rat option) option"
  ks_yearToDate :: "rat option"
  ks_series :: "(string \<times> rat option) list"

definition kpiSummary ::
  "(rat \<Rightarrow> rat \<Rightarrow> rat) \<Rightarrow> (string \<times> rat) list \<Rightarrow> kpi_period \<Rightarrow> kpi_aggregation \<Rightarrow> string \<Rightarrow> kpi_summary" where
  "kpiSummary fadd values p aggregation today =
     (let current = kpiPeriodStart today p;
          reported = sort (filter (\<lambda>k. k \<le> current) (map fst values));
          val = (\<lambda>k. the (map_of values k));
          latestKey = (if reported = [] then None else Some (last reported));
          previousKey = map_option (\<lambda>k. addKpiPeriods k p (- 1)) latestKey;
          yearStart = take 4 today @ ''-01-01'';
          thisYear = filter (\<lambda>k. yearStart \<le> k) reported in
      \<lparr>ks_latest = map_option (\<lambda>k. (k, val k)) latestKey,
       ks_previous = map_option (\<lambda>k. (k, map_of values k)) previousKey,
       ks_yearToDate = (if thisYear = [] then None
          else if aggregation = Total then Some (foldl (\<lambda>total k. fadd total (val k)) 0 thisYear)
          else Some (val (last thisYear))),
       ks_series = map (\<lambda>k. (k, map_of values k))
         (rev (recentKpiPeriods (if map_of values current = None then addKpiPeriods current p (- 1) else current) p KPI_WINDOW))\<rparr>)"

section \<open>Periods tile the calendar\<close>

text \<open>The number of a month.\<close>

definition month_no :: "string \<Rightarrow> int" where
  "month_no key = (case key_parts key of (y, m, d) \<Rightarrow> y * 12 + (m - 1))"

lemma plain_parts:
  assumes "is_plain_date a"
  obtains y m d where "key_parts a = (y, m, d)" "plain_date_groups a = (y, m, d)" "a = key_of y m d" "100 \<le> y" "y \<le> 9999" "1 \<le> m" "m \<le> 12"
    "1 \<le> d" "real_civil y (m - 1) d"
proof -
  obtain y m d where g: "plain_date_groups a = (y, m, d)" by (metis prod_cases3)
  with assms have re: "rx_match PLAIN_DATE_RE a" and y: "100 \<le> y" and r: "real_civil y (m - 1) d" by (auto simp: is_plain_date_iff)
  note k = re_key_of [OF re g]
  show ?thesis using that [OF _ g k(1) y _ _ _ _ r] plain_date_key(1) [OF assms] g k r by (auto simp: real_civil_def)
qed

lemma first_of_month:
  assumes "100 \<le> y" "y \<le> 9999" "1 \<le> m" "m \<le> 12"
  shows "is_plain_date (key_of y m 1)" "key_parts (key_of y m 1) = (y, m, 1)"
proof -
  have k: "rx_match PLAIN_DATE_RE (key_of y m 1)" "plain_date_groups (key_of y m 1) = (y, m, 1)"
    using assms by (intro key_of_re; simp)+
  have "real_civil y (m - 1) 1" using assms month_len_pos [of "m - 1" y] by (simp add: real_civil_def)
  then show p: "is_plain_date (key_of y m 1)" using k assms by (simp add: is_plain_date_iff)
  show "key_parts (key_of y m 1) = (y, m, 1)" using plain_date_key(1) [OF p] k(2) by simp
qed

text \<open>Keys are ordered by their month, then their day.\<close>

lemma key_less_month:
  assumes "is_plain_date a" "is_plain_date b" "month_no a < month_no b"
  shows "a < b"
proof -
  obtain y m d where a: "key_parts a = (y, m, d)" "plain_date_groups a = (y, m, d)" "1 \<le> m" "m \<le> 12" "real_civil y (m - 1) d"
    using plain_parts [OF assms(1)] by metis
  obtain y' m' d' where b: "key_parts b = (y', m', d')" "plain_date_groups b = (y', m', d')" "1 \<le> m'" "m' \<le> 12" "real_civil y' (m' - 1) d'"
    using plain_parts [OF assms(2)] by metis
  have "y < y' \<or> y = y' \<and> m - 1 < m' - 1" using assms(3) a(3,4) b(3,4) by (simp add: month_no_def a(1) b(1)) linarith
  then have "key_day a < key_day b" using real_civil_less [OF a(5) b(5)] by (auto simp: key_day_def a(2) b(2))
  then show ?thesis using key_less_iff [OF assms(1,2)] by simp
qed

lemma first_le:
  assumes "is_plain_date a" "is_plain_date b" "month_no a = month_no b" "key_parts a = (y, m, 1)"
  shows "a \<le> b"
proof -
  obtain m0 d0 where a: "plain_date_groups a = (y, m, 1)" "a = key_of y m 1" "1 \<le> m" "m \<le> 12" "real_civil y (m - 1) 1"
    using plain_parts [OF assms(1)] assms(4) by (metis Pair_inject)
  obtain y' m' d' where b: "key_parts b = (y', m', d')" "plain_date_groups b = (y', m', d')" "b = key_of y' m' d'" "1 \<le> m'" "m' \<le> 12" "1 \<le> d'" "real_civil y' (m' - 1) d'"
    using plain_parts [OF assms(2)] by metis
  have e: "y' = y" "m' = m" using assms(3) a(3,4) b(4,5) by (auto simp: month_no_def assms(4) b(1)) presburger+
  show ?thesis
  proof (cases "d' = 1")
    case True
    then show ?thesis using a(2) b(3) e by simp
  next
    case False
    then have "key_day a < key_day b" using real_civil_less [OF a(5) b(7)] b(6) e by (simp add: key_day_def a(1) b(2))
    then show ?thesis using key_less_iff [OF assms(1,2)] by simp
  qed
qed

lemma month_no_key: "1 \<le> m \<Longrightarrow> m \<le> 12 \<Longrightarrow> (y * 12 + (m - 1)) div 12 = y \<and> (y * 12 + (m - 1)) mod 12 = m - (1 :: int)"
  by presburger

lemma period_start:
  assumes "is_plain_date a"
  shows "is_plain_date (kpiPeriodStart a p)" "\<exists>y m. key_parts (kpiPeriodStart a p) = (y, m, 1)"
    "month_no (kpiPeriodStart a p) = month_no a div MONTHS_OF p * MONTHS_OF p"
proof -
  obtain y m d where a: "key_parts a = (y, m, d)" "100 \<le> y" "y \<le> 9999" "1 \<le> m" "m \<le> 12" using plain_parts [OF assms] by metis
  define f where "f = (if p = Year then 1 else if p = Quarter then m - (m - 1) mod 3 else m)"
  have s: "kpiPeriodStart a p = key_of y f 1" by (simp add: kpiPeriodStart_def a(1) f_def)
  have "1 \<le> m - (m - 1) mod 3" "m - (m - 1) mod 3 \<le> 12" using a(4,5) by presburger+
  then have f: "1 \<le> f" "f \<le> 12" using a(4,5) by (simp_all add: f_def)
  note K = first_of_month [OF a(2,3) f]
  show "is_plain_date (kpiPeriodStart a p)" unfolding s by (rule K)
  show "\<exists>y m. key_parts (kpiPeriodStart a p) = (y, m, 1)" unfolding s using K(2) by blast
  have "y * 12 + (f - 1) = (y * 12 + (m - 1)) div MONTHS_OF p * MONTHS_OF p"
    using a(4,5) by (cases p) (simp_all add: f_def, presburger+)
  then show "month_no (kpiPeriodStart a p) = month_no a div MONTHS_OF p * MONTHS_OF p" by (simp add: s month_no_def K(2) a(1))
qed

lemma next_period:
  assumes "is_plain_date a" "key_parts a = (y, m, 1)" "1200 \<le> month_no a + c * MONTHS_OF p" "month_no a + c * MONTHS_OF p < 120000"
  shows "is_plain_date (addKpiPeriods a p c)" "\<exists>y m. key_parts (addKpiPeriods a p c) = (y, m, 1)"
    "month_no (addKpiPeriods a p c) = month_no a + c * MONTHS_OF p"
proof -
  define index where "index = month_no a + c * MONTHS_OF p"
  have i: "y * 12 + (m - 1) + c * MONTHS_OF p = index" by (simp add: index_def month_no_def assms(2))
  have s: "addKpiPeriods a p c = key_of (index div 12) (index mod 12 + 1) 1"
    unfolding addKpiPeriods_def assms(2) Let_def prod.case i by (simp add: minus_div_mult_eq_mod)
  have r: "100 \<le> index div 12" "index div 12 \<le> 9999" "1 \<le> index mod 12 + 1" "index mod 12 + 1 \<le> 12"
    using assms(3,4) unfolding index_def [symmetric] by (presburger+)
  note K = first_of_month [OF r]
  show "is_plain_date (addKpiPeriods a p c)" unfolding s by (rule K)
  show "\<exists>y m. key_parts (addKpiPeriods a p c) = (y, m, 1)" unfolding s using K(2) by blast
  show "month_no (addKpiPeriods a p c) = month_no a + c * MONTHS_OF p" by (simp add: s month_no_def [of "key_of _ _ _"] K(2) index_def [symmetric])
qed

lemma first_le_iff:
  "is_plain_date a \<Longrightarrow> is_plain_date b \<Longrightarrow> key_parts a = (y, m, 1) \<Longrightarrow> a \<le> b \<longleftrightarrow> month_no a \<le> month_no b"
  using key_less_month [of b a] key_less_month [of a b] first_le [of a b y m]
  by (cases "month_no a < month_no b"; cases "month_no a = month_no b") auto

lemma before_9999: "is_plain_date a \<Longrightarrow> a < ''9999-01-01'' \<Longrightarrow> month_no a < 119988"
proof -
  assume a: "is_plain_date a" "a < ''9999-01-01''"
  have k: "is_plain_date ''9999-01-01''" "key_parts ''9999-01-01'' = (9999, 1, 1)" by code_simp+
  then show ?thesis using first_le_iff [OF k(1) a(1) k(2)] a(2) by (simp add: month_no_def [of "''9999-01-01''"] not_le [symmetric])
qed

lemma month_no_low: "is_plain_date a \<Longrightarrow> 1200 \<le> month_no a"
  by (auto simp: month_no_def elim!: plain_parts)

lemma same_start_iff:
  assumes "is_plain_date a" "is_plain_date b"
  shows "kpiPeriodStart a p = kpiPeriodStart b p \<longleftrightarrow> month_no a div MONTHS_OF p = month_no b div MONTHS_OF p"
proof -
  note A = period_start [OF assms(1), of p] and B = period_start [OF assms(2), of p]
  have "kpiPeriodStart a p = kpiPeriodStart b p \<longleftrightarrow> month_no (kpiPeriodStart a p) = month_no (kpiPeriodStart b p)"
    using first_le_iff [OF A(1) B(1)] first_le_iff [OF B(1) A(1)] A(2) B(2) by (metis eq_iff)
  then show ?thesis using A(3) B(3) by (cases p) simp_all
qed

text \<open>The periods of a rhythm tile the calendar: a day is in the period of another exactly when it lies between that period's
  start and the start of the next, compared as strings.\<close>

theorem kpi_periods_tile:
  assumes "is_plain_date a" "is_plain_date b" "a < ''9999-01-01''"
  shows "kpiPeriodStart b p = kpiPeriodStart a p \<longleftrightarrow> kpiPeriodStart a p \<le> b \<and> b < addKpiPeriods (kpiPeriodStart a p) p 1"
proof -
  let ?s = "kpiPeriodStart a p" and ?k = "MONTHS_OF p"
  note S = period_start [OF assms(1), of p]
  obtain y m where y: "key_parts ?s = (y, m, 1)" using S(2) by blast
  have k: "?k \<in> {1, 3, 12}" by (cases p) simp_all
  have low: "1200 \<le> month_no a div ?k * ?k" using month_no_low [OF S(1)] by (simp add: S(3))
  have up: "month_no a div ?k * ?k \<le> month_no a" using k by auto
  have "month_no ?s + 1 * ?k < 120000" using before_9999 [OF assms(1,3)] up k by (auto simp: S(3))
  moreover have "1200 \<le> month_no ?s + 1 * ?k" using low k by (auto simp: S(3))
  ultimately have "is_plain_date (addKpiPeriods ?s p 1)" "\<exists>y m. key_parts (addKpiPeriods ?s p 1) = (y, m, 1)"
    "month_no (addKpiPeriods ?s p 1) = month_no ?s + 1 * ?k"
    using next_period [OF S(1) y] by blast+
  then have "b < addKpiPeriods ?s p 1 \<longleftrightarrow> month_no b < month_no a div ?k * ?k + ?k"
    using first_le_iff [OF _ assms(2)] by (metis S(3) mult_1 not_le)
  moreover have "?s \<le> b \<longleftrightarrow> month_no a div ?k * ?k \<le> month_no b" using first_le_iff [OF S(1) assms(2) y] by (simp add: S(3))
  moreover have "month_no b div ?k = month_no a div ?k \<longleftrightarrow> month_no a div ?k * ?k \<le> month_no b \<and> month_no b < month_no a div ?k * ?k + ?k"
    using k by (elim insertE emptyE) (simp_all, presburger+)
  ultimately show ?thesis using same_start_iff [OF assms(2,1)] by simp
qed

section \<open>Stored values and the summary\<close>

definition number_js :: "rat \<Rightarrow> js" where
  "number_js q = (if q = of_int \<lfloor>q\<rfloor> then JInt \<lfloor>q\<rfloor> else JFrac q)"

definition values_js :: "(string \<times> rat) list \<Rightarrow> js" where
  "values_js vs = JObj (map (\<lambda>(k, q). (k, number_js q)) vs)"

definition value_ok :: "kpi_period option \<Rightarrow> string \<times> rat \<Rightarrow> bool" where
  "value_ok p kv = (case kv of (k, q) \<Rightarrow> is_plain_date k \<and> (case p of None \<Rightarrow> True | Some p' \<Rightarrow> kpiPeriodStart k p' = k) \<and> \<bar>q\<bar> \<le> MAX_KPI_ABS)"

lemma kpi_number_js: "\<bar>q\<bar> \<le> MAX_KPI_ABS \<Longrightarrow> kpi_number (number_js q) = Some q"
  by (auto simp: kpi_number_def number_js_def)

lemma kpi_number_bound: "kpi_number v = Some q \<Longrightarrow> \<bar>q\<bar> \<le> MAX_KPI_ABS"
  by (auto simp: kpi_number_def split: js.splits if_splits)

lemma kpi_values_from_ok:
  "kpi_values_from p fs keys = Inr vs \<Longrightarrow> map fst vs = keys \<and> list_all (value_ok p) vs"
  by (induction keys arbitrary: vs) (auto simp: value_ok_def kpi_number_bound split: if_splits option.splits sum.splits)

lemma kpi_values_from_js:
  "list_all (value_ok p) vs \<Longrightarrow> list_all (\<lambda>(k, q). jget fs k = number_js q) vs \<Longrightarrow> kpi_values_from p fs (map fst vs) = Inr vs"
  by (induction vs) (auto simp: value_ok_def kpi_number_js split: option.splits)

lemma jget_values: "distinct (map fst vs) \<Longrightarrow> (k, q) \<in> set vs \<Longrightarrow> jget (map (\<lambda>(k, q). (k, number_js q)) vs) k = number_js q"
  by (induction vs) (auto simp: image_iff)

text \<open>Stored figures are in normal form: validating them again gives the same, their keys are ascending starts of periods, each
  once, and no value is beyond the bound.\<close>

theorem kpi_values_normal:
  assumes "validateKpiValues (JObj fs) (Some p) = Inr vs" "distinct (map fst fs)"
  shows "validateKpiValues (values_js vs) (Some p) = Inr vs \<and> sorted_wrt (<) (map fst vs) \<and> length vs \<le> 600 \<and>
    list_all (\<lambda>(k, q). is_plain_date k \<and> kpiPeriodStart k p = k \<and> \<bar>q\<bar> \<le> 1000000000000) vs"
proof -
  have f: "kpi_values_from (Some p) fs (sort (map fst fs)) = Inr vs" "length fs \<le> MAX_KPI_VALUES"
    using assms(1) by (auto simp: validateKpiValues_def Let_def not_less split: if_splits)
  note ok = kpi_values_from_ok [OF f(1)]
  have len: "length vs = length fs" using ok by (metis length_map length_sort)
  have d: "distinct (map fst vs)" and so: "sorted (map fst vs)" using ok assms(2) by simp_all
  have "list_all (\<lambda>(k, q). jget (map (\<lambda>(k, q). (k, number_js q)) vs) k = number_js q) vs"
    using jget_values [OF d] by (auto simp: list_all_iff)
  then have "kpi_values_from (Some p) (map (\<lambda>(k, q). (k, number_js q)) vs) (map fst vs) = Inr vs"
    using ok by (intro kpi_values_from_js) simp_all
  moreover have m: "map fst (map (\<lambda>(k, q). (k, number_js q)) vs) = map fst vs" by (induction vs) auto
  ultimately have "validateKpiValues (values_js vs) (Some p) = Inr vs"
    using f(2) len unfolding validateKpiValues_def values_js_def
    by (simp only: nullish.simps if_False js.simps m sorted_sort_id [OF so] Let_def length_map not_less [symmetric])
  moreover have "sorted_wrt (<) (map fst vs)" using d so by (simp add: strict_sorted_iff)
  moreover have "list_all (\<lambda>(k, q). is_plain_date k \<and> kpiPeriodStart k p = k \<and> \<bar>q\<bar> \<le> 1000000000000) vs"
    using ok by (auto simp: list_all_iff value_ok_def MAX_KPI_ABS_def)
  ultimately show ?thesis using f(2) len by (simp add: MAX_KPI_VALUES_def)
qed

lemma last_sort_max:
  fixes reported :: "string list"
  shows "reported \<noteq> [] \<Longrightarrow> last (sort reported) \<in> set reported \<and> (\<forall>k \<in> set reported. k \<le> last (sort reported))"
proof -
  assume n: "reported \<noteq> []"
  then have "sort reported \<noteq> []" by (metis length_0_conv length_sort)
  then have l: "last (sort reported) \<in> set (sort reported)" by (rule last_in_set)
  have "k \<le> last (sort reported)" if "k \<in> set (sort reported)" for k
  proof -
    obtain i where i: "i < length (sort reported)" "k = sort reported ! i" using \<open>k \<in> _\<close> by (metis in_set_conv_nth)
    have "sort reported ! i \<le> sort reported ! (length (sort reported) - 1)"
      using i by (intro sorted_nth_mono) auto
    then show ?thesis using i \<open>sort reported \<noteq> []\<close> by (simp add: last_conv_nth)
  qed
  then show ?thesis using l by simp
qed

text \<open>What the summary shows as latest is the figure of the newest period that has begun, whatever the order of the stored
  values: a period of the future is never shown, and none is overlooked.\<close>

theorem kpi_latest_begun:
  assumes "is_plain_date today" "list_all (value_ok (Some p)) values" "distinct (map fst values)"
  shows "ks_latest (kpiSummary fadd values p agg today) = Some (k, q) \<longleftrightarrow>
    (k, q) \<in> set values \<and> k \<le> today \<and> list_all (\<lambda>(k', _). today < k' \<or> k' \<le> k) values"
proof -
  let ?c = "kpiPeriodStart today p"
  note C = period_start [OF assms(1), of p]
  have al: "k' \<le> ?c \<longleftrightarrow> k' \<le> today" if kv: "(k', q') \<in> set values" for k' q'
  proof -
    have k': "is_plain_date k'" "kpiPeriodStart k' p = k'" using assms(2) kv by (auto simp: list_all_iff value_ok_def)
    note K = period_start [OF k'(1), of p, unfolded k'(2)]
    obtain y m where y: "key_parts k' = (y, m, 1)" using K(2) by blast
    have "month_no k' div MONTHS_OF p * MONTHS_OF p = month_no k'" using K(3) by simp
    then have "month_no k' \<le> month_no today div MONTHS_OF p * MONTHS_OF p \<longleftrightarrow> month_no k' \<le> month_no today"
      by (cases p) (simp_all, presburger+)
    then show ?thesis using first_le_iff [OF k'(1) C(1) y] first_le_iff [OF k'(1) assms(1) y] C(3) by simp
  qed
  define reported where "reported = filter (\<lambda>k. k \<le> ?c) (map fst values)"
  have set_r: "k' \<in> set reported \<longleftrightarrow> k' \<in> fst ` set values \<and> k' \<le> today" for k' using al by (auto simp: reported_def)
  have l: "ks_latest (kpiSummary fadd values p agg today) = (if sort reported = [] then None else Some (last (sort reported), the (map_of values (last (sort reported)))))"
    by (simp add: kpiSummary_def Let_def reported_def)
  have e: "sort reported = [] \<longleftrightarrow> reported = []" by (metis length_0_conv length_sort)
  have mv: "(k', q') \<in> set values \<longleftrightarrow> map_of values k' = Some q'" for k' q' using assms(3) by simp
  have all: "list_all (\<lambda>(k', _). today < k' \<or> k' \<le> k) values \<longleftrightarrow> (\<forall>k' \<in> set reported. k' \<le> k)"
  proof -
    have "list_all (\<lambda>(k', _). today < k' \<or> k' \<le> k) values \<longleftrightarrow> (\<forall>k' \<in> fst ` set values. today < k' \<or> k' \<le> k)"
      by (auto simp: list_all_iff)
    also have "\<dots> \<longleftrightarrow> (\<forall>k'. k' \<in> fst ` set values \<and> k' \<le> today \<longrightarrow> k' \<le> k)" unfolding Ball_def by (metis not_le)
    finally show ?thesis by (simp only: Ball_def set_r)
  qed
  show ?thesis
  proof (cases "reported = []")
    case True
    then show ?thesis using l e set_r by (force simp: image_iff)
  next
    case False
    note M = last_sort_max [OF False]
    have "last (sort reported) = k \<longleftrightarrow> k \<in> set reported \<and> (\<forall>k' \<in> set reported. k' \<le> k)" using M by (metis order_antisym)
    moreover have "\<exists>q. map_of values (last (sort reported)) = Some q" using M set_r by (metis (no_types) imageE map_of_eq_None_iff not_Some_eq)
    moreover have "k' \<in> set reported \<longleftrightarrow> map_of values k' \<noteq> None \<and> k' \<le> today" for k' using set_r [of k'] by (simp add: map_of_eq_None_iff)
    ultimately show ?thesis unfolding l all mv using e False by auto
  qed
qed

section \<open>Examples\<close>

lemma kpi_periods_tile_witness:
  "kpiPeriodStart ''2026-06-30'' Quarter = ''2026-04-01'' \<and> kpiPeriodStart ''2026-04-01'' Quarter = kpiPeriodStart ''2026-06-30'' Quarter"
proof -
  have p: "is_plain_date ''2026-06-30''" "is_plain_date ''2026-04-01''" by code_simp+
  have s: "kpiPeriodStart ''2026-06-30'' Quarter = ''2026-04-01''" "addKpiPeriods ''2026-04-01'' Quarter 1 = ''2026-07-01''" by code_simp+
  then show ?thesis using kpi_periods_tile [OF p, of Quarter] by simp
qed

lemma kpi_values_normal_witness:
  "validateKpiValues (values_js [(''2026-01-01'', 3), (''2026-02-01'', 5 / 2)]) (Some Month) = Inr [(''2026-01-01'', 3), (''2026-02-01'', 5 / 2)]"
proof -
  have p: "is_plain_date ''2026-01-01''" "is_plain_date ''2026-02-01''" "kpiPeriodStart ''2026-01-01'' Month = ''2026-01-01''"
    "kpiPeriodStart ''2026-02-01'' Month = ''2026-02-01''" by code_simp+
  have "validateKpiValues (JObj [(''2026-02-01'', JFrac (5 / 2)), (''2026-01-01'', JInt 3)]) (Some Month) = Inr [(''2026-01-01'', 3), (''2026-02-01'', 5 / 2)]"
    by (simp add: validateKpiValues_def MAX_KPI_VALUES_def p kpi_number_def MAX_KPI_ABS_def)
  from kpi_values_normal [OF this] show ?thesis by simp
qed

lemma kpi_latest_begun_witness:
  "ks_latest (kpiSummary (+) [(''2026-01-01'', 3), (''2026-02-01'', 4)] Month Last ''2026-01-20'') = Some (''2026-01-01'', 3)"
proof -
  have p: "is_plain_date ''2026-01-01''" "is_plain_date ''2026-02-01''" "kpiPeriodStart ''2026-01-01'' Month = ''2026-01-01''"
    "kpiPeriodStart ''2026-02-01'' Month = ''2026-02-01''" "is_plain_date ''2026-01-20''" by code_simp+
  have "list_all (value_ok (Some Month)) [(''2026-01-01'', 3), (''2026-02-01'', 4)]" by (simp add: value_ok_def p MAX_KPI_ABS_def)
  from kpi_latest_begun [OF p(5) this] show ?thesis by simp
qed

end
