(* ===== verification/WriteRules.thy ===== *)
theory WriteRules imports Validators Duty Kpi DocumentLock begin

text \<open>
  The write rules of \<open>apps/cms/src/utils/write-allowlist.ts\<close>: the shape of a rule, the input of relations, the checks and
  the table of types, actions and role classes. An object is the list of its own properties. The platform's parsers,
  the slug generator, the random suffix and the switches are the record \<open>platform\<close>; the checks that ask the
  database are functions in the environment.
\<close>

type_synonym fields = "(string \<times> js) list"

section \<open>Relation input\<close>

datatype target_ref = TargetRow int | TargetDoc string

text \<open>\<open>ti_target\<close>: None leaves the relation, Some None clears it.\<close>

record to_one_input =
  ti_target :: "target_ref option option"
  ti_disconnect :: "target_ref list"

record resolved_to_one =
  rt_target :: "string option option"
  rt_disconnect :: "string list"

definition DOCUMENT_ID :: rx where
  "DOCUMENT_ID = Sq (Cls (\<lambda>c. char_in CHR ''A'' CHR ''Z'' c \<or> char_in CHR ''a'' CHR ''z'' c \<or> c = CHR ''_''))
     (rx_between 0 63 (Cls (\<lambda>c. char_in CHR ''A'' CHR ''Z'' c \<or> char_in CHR ''a'' CHR ''z'' c \<or> is_digit c \<or> c = CHR ''_'' \<or> c = CHR ''-'')))"

definition doc_ref :: "js \<Rightarrow> target_ref option" where
  "doc_ref v = (case v of JStr s \<Rightarrow> if rx_match DOCUMENT_ID s then Some (TargetDoc s) else None | _ \<Rightarrow> None)"

definition parseRef :: "js \<Rightarrow> target_ref option" where
  "parseRef v =
     (case v of
        JObj [(key, x)] \<Rightarrow>
          if key = ''id'' then map_option TargetRow (parseRowId x)
          else if key = ''documentId'' then doc_ref x
          else None
      | JObj _ \<Rightarrow> None
      | _ \<Rightarrow> (case parseRowId v of Some i \<Rightarrow> Some (TargetRow i) | None \<Rightarrow> doc_ref v))"

definition parseRefList :: "js \<Rightarrow> target_ref list option" where
  "parseRefList v =
     (let items = (case v of JArr xs \<Rightarrow> xs | _ \<Rightarrow> [v]) in
      if list_all (\<lambda>x. parseRef x \<noteq> None) items then Some (map (the \<circ> parseRef) items) else None)"

definition fromSet :: "js \<Rightarrow> to_one_input option" where
  "fromSet v =
     (case parseRefList v of
        None \<Rightarrow> None
      | Some refs \<Rightarrow> if length refs > 1 then None
          else Some \<lparr>ti_target = Some (if refs = [] then None else Some (hd refs)), ti_disconnect = []\<rparr>)"

definition has_key :: "string \<Rightarrow> (string \<times> 'a) list \<Rightarrow> bool" where
  "has_key k fs = (k \<in> fst ` set fs)"

definition parseToOneRelation :: "js \<Rightarrow> to_one_input option" where
  "parseToOneRelation v =
     (case v of
        JNull \<Rightarrow> Some \<lparr>ti_target = Some None, ti_disconnect = []\<rparr>
      | JArr _ \<Rightarrow> fromSet v
      | _ \<Rightarrow>
        (case (case v of JObj fs \<Rightarrow> if \<not> has_key ''id'' fs \<and> \<not> has_key ''documentId'' fs then Some fs else None | _ \<Rightarrow> None) of
           Some fs \<Rightarrow>
             if has_key ''set'' fs then (if length fs = 1 then fromSet (jget fs ''set'') else None)
             else if fs = [] \<or> list_ex (\<lambda>(k, _). k \<noteq> ''connect'' \<and> k \<noteq> ''disconnect'') fs then None
             else (case (if has_key ''connect'' fs then parseRefList (jget fs ''connect'') else Some [],
                         if has_key ''disconnect'' fs then parseRefList (jget fs ''disconnect'') else Some []) of
                 (Some connect, Some disconnect) \<Rightarrow>
                   if length connect > 1 then None
                   else Some \<lparr>ti_target = (if connect = [] then None else Some (Some (hd connect))), ti_disconnect = disconnect\<rparr>
               | _ \<Rightarrow> None)
         | None \<Rightarrow> map_option (\<lambda>ref. \<lparr>ti_target = Some (Some ref), ti_disconnect = []\<rparr>) (parseRef v)))"

definition parseRelationList :: "js \<Rightarrow> nat \<Rightarrow> target_ref list option" where
  "parseRelationList v limit =
     (case v of
        JNull \<Rightarrow> Some []
      | _ \<Rightarrow>
        (case (case v of JArr _ \<Rightarrow> v | JObj [(key, x)] \<Rightarrow> if key = ''set'' then x else JUndef | _ \<Rightarrow> JUndef) of
           JArr xs \<Rightarrow> if length xs > limit then None else if xs = [] then Some [] else parseRefList (JArr xs)
         | _ \<Rightarrow> None))"

definition delta_list :: "js \<Rightarrow> target_ref list option" where
  "delta_list raw =
     (case raw of
        JUndef \<Rightarrow> Some []
      | JArr xs \<Rightarrow> if xs = [] then Some [] else parseRefList raw
      | _ \<Rightarrow> None)"

definition parseRelationDelta :: "js \<Rightarrow> nat \<Rightarrow> (target_ref list \<times> target_ref list) option" where
  "parseRelationDelta v limit =
     (case v of
        JObj fs \<Rightarrow>
          if fs = [] \<or> list_ex (\<lambda>(k, _). k \<noteq> ''connect'' \<and> k \<noteq> ''disconnect'') fs then None
          else (case (delta_list (jget fs ''connect''), delta_list (jget fs ''disconnect'')) of
              (Some connect, Some disconnect) \<Rightarrow> if length connect + length disconnect > limit then None else Some (connect, disconnect)
            | _ \<Rightarrow> None)
      | _ \<Rightarrow> None)"

definition parseRoleTypes :: "js \<Rightarrow> string list \<Rightarrow> nat \<Rightarrow> string list option" where
  "parseRoleTypes v allowed limit =
     (case v of
        JNull \<Rightarrow> Some []
      | JArr items \<Rightarrow>
          if length items > limit then None
          else if list_all (\<lambda>item. is_string_in item allowed) items
          then Some (rev (remdups (rev (map (\<lambda>item. case item of JStr s \<Rightarrow> s | _ \<Rightarrow> []) items))))
          else None
      | _ \<Rightarrow> None)"

text \<open>None is a refused value, Some None clears the field.\<close>

definition parseMedia :: "js \<Rightarrow> int option option" where
  "parseMedia v =
     (case v of
        JNull \<Rightarrow> Some None
      | _ \<Rightarrow> map_option Some (parseRowId (case v of JObj [(key, x)] \<Rightarrow> if key = ''id'' then x else JUndef | _ \<Rightarrow> v)))"

definition documents_js :: "string list \<Rightarrow> js" where
  "documents_js ds = JArr (map (\<lambda>d. JObj [(''documentId'', JStr d)]) ds)"

definition set_js :: "string list \<Rightarrow> js" where
  "set_js ds = JObj [(''set'', documents_js ds)]"

text \<open>None is OMIT.\<close>

definition toStrapiRelation :: "resolved_to_one \<Rightarrow> js option" where
  "toStrapiRelation r =
     (case rt_target r of
        Some None \<Rightarrow> Some JNull
      | Some (Some d) \<Rightarrow> Some (set_js [d])
      | None \<Rightarrow> if rt_disconnect r \<noteq> [] then Some (JObj [(''disconnect'', documents_js (rt_disconnect r))]) else None)"

section \<open>Rules\<close>

text \<open>What a check answers: a boolean, or a code or null.\<close>

datatype check_answer = CBool bool | CCode "string option"

fun verdict :: "check_answer \<Rightarrow> bool \<times> string option" where
  "verdict (CBool b) = (b, None)"
| "verdict (CCode None) = (True, None)"
| "verdict (CCode (Some c)) = (False, Some c)"

datatype field_spec =
    ValueField "js \<Rightarrow> check_answer" "(string \<times> (js \<Rightarrow> js \<Rightarrow> bool)) option"
  | ControllerField "js \<Rightarrow> check_answer"
  | RelationField string bool bool
  | RelationListField string nat bool bool
  | RoleTypesField "string list" nat
  | MediaField string

datatype write_error = MissingData | Refused "string list" "(string \<times> string) list" | Wiring | Thrown

record write_env =
  we_callerId :: int
  we_create :: bool
  we_relationChecks :: "string \<Rightarrow> (to_one_input \<Rightarrow> (string \<times> resolved_to_one) list \<Rightarrow> resolved_to_one option) option"
  we_listChecks :: "string \<Rightarrow> (target_ref list \<Rightarrow> string list option) option"
  we_roleTypesCheck :: "(string list \<Rightarrow> string list option) option"
  we_mediaChecks :: "string \<Rightarrow> (int \<Rightarrow> string \<Rightarrow> int option) option"
  we_frozenChecks :: "string \<Rightarrow> bool option"
  we_existing :: "fields option"
  we_published :: "fields option"
  we_callerDepartment :: "(int \<times> string) option"
  we_readiness :: "(fields \<Rightarrow> string list) option"
  we_now :: int

record write_rule =
  wr_fields :: "(string \<times> field_spec) list"
  wr_callerFields :: "string list"
  wr_derivedFields :: "(string \<times> (fields \<Rightarrow> js)) list"
  wr_derivedFromMerged :: "(string \<times> string list \<times> (fields \<Rightarrow> js)) list"
  wr_derivedOnCreate :: "(string \<times> (write_env \<Rightarrow> write_error + js)) list"
  wr_crossCheck :: "(fields \<Rightarrow> string list \<Rightarrow> write_env \<Rightarrow> write_error + (string \<times> string) list) option"
  wr_readinessWhenScheduled :: bool

definition plain_rule :: "(string \<times> field_spec) list \<Rightarrow> write_rule" where
  "plain_rule fs = \<lparr>wr_fields = fs, wr_callerFields = [], wr_derivedFields = [], wr_derivedFromMerged = [], wr_derivedOnCreate = [],
     wr_crossCheck = None, wr_readinessWhenScheduled = False\<rparr>"

text \<open>The platform: the parsers, the zone setting and formatter, the switches, the slug generator and its random suffix.\<close>

record platform =
  pf_parse :: "string \<Rightarrow> int option"
  pf_web :: "string \<Rightarrow> parsed_url option"
  pf_video :: "string \<Rightarrow> url option"
  pf_canon :: "string \<Rightarrow> string option"
  pf_fmt :: zone_format
  pf_zone :: "string option"
  pf_off :: "string \<Rightarrow> bool"
  pf_slug :: "string \<Rightarrow> string"
  pf_hex :: string

section \<open>Value checks\<close>

definition INT32_MIN :: int where "INT32_MIN = - 2147483648"
definition INT32_MAX :: int where "INT32_MAX = 2147483647"
definition MAX_TAGS :: nat where "MAX_TAGS = 50"
definition MAX_TAG_LENGTH :: nat where "MAX_TAG_LENGTH = 100"

definition requiredString :: "js \<Rightarrow> check_answer" where
  "requiredString v = CBool (case v of JStr s \<Rightarrow> 0 < length (trim s) \<and> length s \<le> MAX_STRING_LENGTH | _ \<Rightarrow> False)"

definition nullableText :: "js \<Rightarrow> check_answer" where
  "nullableText v = CBool (case v of JNull \<Rightarrow> True | JStr _ \<Rightarrow> True | _ \<Rightarrow> False)"

definition boolean :: "js \<Rightarrow> check_answer" where
  "boolean v = CBool (case v of JBool _ \<Rightarrow> True | _ \<Rightarrow> False)"

definition int32 :: "js \<Rightarrow> check_answer" where
  "int32 v = CBool (case v of JInt n \<Rightarrow> INT32_MIN \<le> n \<and> n \<le> INT32_MAX | _ \<Rightarrow> False)"

definition hexColor :: "js \<Rightarrow> check_answer" where
  "hexColor v = CBool (case v of
     JStr s \<Rightarrow> rx_match (Sq (rx_char CHR ''#'') (rx_rep 6 (Cls (\<lambda>c. is_digit c \<or> char_in CHR ''a'' CHR ''f'' c \<or> char_in CHR ''A'' CHR ''F'' c)))) s
   | _ \<Rightarrow> False)"

definition tags :: "js \<Rightarrow> check_answer" where
  "tags v = CBool (case v of
     JNull \<Rightarrow> True
   | JArr ts \<Rightarrow> length ts \<le> MAX_TAGS \<and> list_all (\<lambda>t. case t of JStr s \<Rightarrow> 0 < length (trim s) \<and> length s \<le> MAX_TAG_LENGTH | _ \<Rightarrow> False) ts
   | _ \<Rightarrow> False)"

definition checkNullablePlainDate :: "js \<Rightarrow> string option" where
  "checkNullablePlainDate v = (if v = JNull \<or> isPlainDate v then None else Some ''invalidDate'')"

definition checkAckFlag :: "platform \<Rightarrow> js \<Rightarrow> string option" where
  "checkAckFlag pf v =
     (case checkBoolean v of
        Some c \<Rightarrow> Some c
      | None \<Rightarrow> if v = JBool True \<and> pf_off pf ''read-confirmations'' then Some ''invalid'' else None)"

definition checkPollOptions :: "js \<Rightarrow> string option" where
  "checkPollOptions v = pollOptionsCode (Some MAX_POLL_OPTION_LENGTH) v"

definition QUICK_LINK_CATEGORIES :: "string list" where "QUICK_LINK_CATEGORIES = [''hr'', ''it'', ''tools'', ''extern'']"
definition DOCUMENT_CATEGORIES :: "string list" where "DOCUMENT_CATEGORIES = [''policy'', ''form'', ''template'', ''guide'', ''other'']"
definition MAX_TARGET_DEPARTMENTS :: nat where "MAX_TARGET_DEPARTMENTS = 50"
definition WIKI_SPACE_VISIBILITIES :: "string list" where "WIKI_SPACE_VISIBILITIES = [''public'', ''role'', ''department'', ''team'']"
definition MAX_VALIDITY_MONTHS :: int where "MAX_VALIDITY_MONTHS = 120"

definition plain_value :: "(js \<Rightarrow> check_answer) \<Rightarrow> field_spec" where
  "plain_value check = ValueField check None"

definition coded :: "(js \<Rightarrow> string option) \<Rightarrow> field_spec" where
  "coded check = ValueField (\<lambda>v. CCode (check v)) None"

definition toOne :: "string \<Rightarrow> field_spec" where "toOne check = RelationField check False False"
definition toOneRequired :: "string \<Rightarrow> field_spec" where "toOneRequired check = RelationField check True False"
definition toOneCaller :: "string \<Rightarrow> field_spec" where "toOneCaller check = RelationField check False True"
definition toMany :: "string \<Rightarrow> field_spec" where "toMany check = RelationListField check MAX_TARGET_DEPARTMENTS False False"
definition toManyCaller :: "string \<Rightarrow> field_spec" where "toManyCaller check = RelationListField check MAX_TARGET_DEPARTMENTS True False"
definition media :: "string \<Rightarrow> field_spec" where "media check = MediaField check"
definition roleTypes :: "string list \<Rightarrow> field_spec" where "roleTypes allowed = RoleTypesField allowed (length allowed)"

definition sameFlag :: "js \<Rightarrow> js \<Rightarrow> bool" where
  "sameFlag a b = ((a = JBool True) = (b = JBool True))"

definition frozen :: "(js \<Rightarrow> string option) \<Rightarrow> (js \<Rightarrow> js \<Rightarrow> bool) \<Rightarrow> field_spec" where
  "frozen check same = ValueField (\<lambda>v. CCode (check v)) (Some (''pollHasVotes'', same))"

section \<open>Derived fields\<close>

definition SLUG_BASE_MAX_LENGTH :: nat where "SLUG_BASE_MAX_LENGTH = 60"
definition SLUG_FALLBACK_BASE :: string where "SLUG_FALLBACK_BASE = ''page''"

definition is_slug_char :: "char \<Rightarrow> bool" where
  "is_slug_char c = (char_in CHR ''a'' CHR ''z'' c \<or> is_digit c)"

definition SLUG_RE :: rx where
  "SLUG_RE = Sq (rx_plus (Cls is_slug_char)) (St (Sq (rx_char CHR ''-'') (rx_plus (Cls is_slug_char))))"

definition uniqueSlugFrom :: "platform \<Rightarrow> string \<Rightarrow> fields \<Rightarrow> js" where
  "uniqueSlugFrom pf source accepted =
     (let text = (case jget accepted source of JStr s \<Rightarrow> pf_slug pf s | _ \<Rightarrow> []);
          base = rev (dropWhile (\<lambda>c. c = CHR ''-'') (rev (take SLUG_BASE_MAX_LENGTH text)));
          safeBase = (if rx_match SLUG_RE base then base else SLUG_FALLBACK_BASE) in
      JStr (safeBase @ ''-'' @ pf_hex pf))"

definition linked :: "js \<Rightarrow> bool" where
  "linked v = (case v of JArr xs \<Rightarrow> 0 < length xs | _ \<Rightarrow> \<not> nullish v)"

definition audience_flag :: "bool \<Rightarrow> js" where
  "audience_flag targeted = JStr (if targeted then ''departments'' else ''all'')"

definition ANNOUNCEMENT_AUDIENCE :: "string list \<times> (fields \<Rightarrow> js)" where
  "ANNOUNCEMENT_AUDIENCE = ([''department'', ''team''], \<lambda>merged. audience_flag (linked (jget merged ''department'') \<or> linked (jget merged ''team'')))"

definition ANNOUNCEMENT_RETARGET :: "string list \<times> (fields \<Rightarrow> js)" where
  "ANNOUNCEMENT_RETARGET = ([''department'', ''team'', ''audienceRoles''], \<lambda>_. JBool False)"

definition DEPARTMENTS_FLAG :: "string list \<times> (fields \<Rightarrow> js)" where
  "DEPARTMENTS_FLAG = ([''departments''], \<lambda>merged. audience_flag (linked (jget merged ''departments'')))"

definition OWNER_DEPARTMENT :: "write_env \<Rightarrow> write_error + js" where
  "OWNER_DEPARTMENT env = (case we_callerDepartment env of None \<Rightarrow> Inl Thrown | Some (_, d) \<Rightarrow> Inr (set_js [d]))"

section \<open>Checks across fields\<close>

definition carriesAny :: "string list \<Rightarrow> string list \<Rightarrow> bool" where
  "carriesAny carried keys = list_ex (\<lambda>k. k \<in> set carried) keys"

definition scheduleCheck :: "platform \<Rightarrow> fields \<Rightarrow> string list \<Rightarrow> write_env \<Rightarrow> (string \<times> string) list" where
  "scheduleCheck pf merged carried env =
     filter (\<lambda>(k, _). if k = ''publishAt'' then ''publishAt'' \<in> set carried else carriesAny carried [''publishAt'', k])
       (scheduleCodes (pf_parse pf) merged (we_now env) (''publishAt'' \<in> set carried))"

definition scheduledCrossCheck :: "platform \<Rightarrow> fields \<Rightarrow> string list \<Rightarrow> write_env \<Rightarrow> write_error + (string \<times> string) list" where
  "scheduledCrossCheck pf merged carried env = Inr (scheduleCheck pf merged carried env)"

definition announcementCrossCheck :: "platform \<Rightarrow> fields \<Rightarrow> string list \<Rightarrow> write_env \<Rightarrow> write_error + (string \<times> string) list" where
  "announcementCrossCheck pf merged carried env =
     Inr (scheduleCheck pf merged carried env @
       (if carriesAny carried [''ackDeadline'', ''requiresAck''] \<and> \<not> nullish (jget merged ''ackDeadline'') \<and> jget merged ''requiresAck'' \<noteq> JBool True
        then [(''ackDeadline'', ''ackDeadlineWithoutAck'')] else []))"

definition isZonedMidnight :: "platform \<Rightarrow> string \<Rightarrow> string \<Rightarrow> write_error + bool" where
  "isZonedMidnight pf i tz =
     (case pf_parse pf i of
        None \<Rightarrow> Inr False
      | Some ms \<Rightarrow>
        (case zonedDateKey (pf_parse pf) (pf_fmt pf) (IText i) tz of
           Inl _ \<Rightarrow> Inl Thrown
         | Inr key \<Rightarrow> (case zonedDayStart (pf_canon pf) (pf_fmt pf) key tz of Inl _ \<Rightarrow> Inl Thrown | Inr t \<Rightarrow> Inr (t = Some ms))))"

definition midnight_code :: "platform \<Rightarrow> string \<Rightarrow> fields \<Rightarrow> string \<Rightarrow> (string \<times> string) list \<Rightarrow> write_error + (string \<times> string) list" where
  "midnight_code pf zone merged key out =
     (case jget merged key of
        JStr i \<Rightarrow>
          (case isZonedMidnight pf i zone of
             Inl e \<Rightarrow> Inl e
           | Inr ok \<Rightarrow> Inr (if \<not> ok \<and> \<not> has_key key out then out @ [(key, ''notMidnight'')] else out))
      | _ \<Rightarrow> Inr out)"

definition eventCrossCheck :: "platform \<Rightarrow> fields \<Rightarrow> string list \<Rightarrow> write_env \<Rightarrow> write_error + (string \<times> string) list" where
  "eventCrossCheck pf merged carried env =
     (let out = scheduleCheck pf merged carried env;
          out1 = (if carriesAny carried [''start'', ''end'']
                  then (case eventSpanCode (pf_parse pf) (jget merged ''start'') (jget merged ''end'') of None \<Rightarrow> out | Some c \<Rightarrow> AList.update ''end'' c out)
                  else out) in
      if carriesAny carried [''start'', ''end'', ''allDay''] \<and> jget merged ''allDay'' = JBool True
      then (case resolveAppTimeZone (pf_canon pf) (pf_zone pf) of
          Inl _ \<Rightarrow> Inl Thrown
        | Inr zone \<Rightarrow>
          (case midnight_code pf zone merged ''start'' out1 of Inl e \<Rightarrow> Inl e | Inr out2 \<Rightarrow> midnight_code pf zone merged ''end'' out2))
      else Inr out1)"

definition WIKI_SPACE_VISIBILITY_TARGETS :: "string \<Rightarrow> string option" where
  "WIKI_SPACE_VISIBILITY_TARGETS v =
     (if v = ''role'' then Some ''allowedRoles'' else if v = ''department'' then Some ''department'' else if v = ''team'' then Some ''team'' else None)"

definition wikiSpaceCrossCheck :: "fields \<Rightarrow> string list \<Rightarrow> write_env \<Rightarrow> write_error + (string \<times> string) list" where
  "wikiSpaceCrossCheck merged carried env =
     (if \<not> carriesAny carried [''visibility'', ''allowedRoles'', ''department'', ''team''] then Inr []
      else (case (case jget merged ''visibility'' of JStr v \<Rightarrow> WIKI_SPACE_VISIBILITY_TARGETS v | _ \<Rightarrow> None) of
          None \<Rightarrow> Inr []
        | Some target \<Rightarrow> if linked (jget merged target) then Inr [] else Inr [(target, ''visibilityTarget'')]))"

definition kpiCrossCheck :: "fields \<Rightarrow> string list \<Rightarrow> write_env \<Rightarrow> write_error + (string \<times> string) list" where
  "kpiCrossCheck merged carried env =
     (if \<not> carriesAny carried [''period'', ''values''] then Inr []
      else let period = (case isKpiPeriod (jget merged ''period'') of None \<Rightarrow> Month | Some p \<Rightarrow> p) in
        if kpiValuesCode (jget merged ''values'') (Some period) = None then Inr []
        else Inr [(if ''values'' \<in> set carried then ''values'' else ''period'', ''invalid'')])"

section \<open>The table\<close>

text \<open>\<open>{ ...a, ...b }\<close>.\<close>

definition spread :: "('k \<times> 'v) list \<Rightarrow> ('k \<times> 'v) list \<Rightarrow> ('k \<times> 'v) list" where
  "spread a b = fold (\<lambda>(k, v). AList.update k v) b a"

definition WIKI_PAGE_CONTENT :: "(string \<times> field_spec) list" where
  "WIKI_PAGE_CONTENT = [(''title'', plain_value requiredString), (''body'', plain_value nullableText), (''summary'', plain_value nullableText),
     (''tags'', plain_value tags), (''tocEnabled'', plain_value boolean), (''order'', plain_value int32)]"

definition REVISION_SUMMARY :: field_spec where "REVISION_SUMMARY = ControllerField nullableText"

definition WIKI_PAGE_EDIT :: write_rule where
  "WIKI_PAGE_EDIT = (plain_rule (spread WIKI_PAGE_CONTENT [(''parent'', toOne ''wikiParent''), (''revisionSummary'', REVISION_SUMMARY)]))
     \<lparr>wr_callerFields := [''lastEditor'']\<rparr>"

definition WIKI_PAGE_AUTHOR_CREATE :: "platform \<Rightarrow> write_rule" where
  "WIKI_PAGE_AUTHOR_CREATE pf = (plain_rule (spread WIKI_PAGE_CONTENT [(''space'', toOneRequired ''wikiSpace''), (''parent'', toOne ''wikiParent'')]))
     \<lparr>wr_callerFields := [''author'', ''lastEditor''], wr_derivedFields := [(''slug'', uniqueSlugFrom pf ''title'')]\<rparr>"

definition WIKI_PAGE_MODERATOR_COMMON :: "platform \<Rightarrow> (string \<times> field_spec) list" where
  "WIKI_PAGE_MODERATOR_COMMON pf = [(''parent'', toOne ''wikiParent''), (''department'', toOne ''department''), (''team'', toOne ''team''),
     (''publishAt'', coded (checkNullableInstant (pf_parse pf))), (''revisionSummary'', REVISION_SUMMARY)]"

definition WIKI_PAGE_MODERATOR_CREATE :: "platform \<Rightarrow> write_rule" where
  "WIKI_PAGE_MODERATOR_CREATE pf = (plain_rule (spread (spread WIKI_PAGE_CONTENT [(''space'', toOneRequired ''wikiSpace'')]) (WIKI_PAGE_MODERATOR_COMMON pf)))
     \<lparr>wr_callerFields := [''author'', ''lastEditor''], wr_derivedFields := [(''slug'', uniqueSlugFrom pf ''title'')],
      wr_crossCheck := Some (scheduledCrossCheck pf), wr_readinessWhenScheduled := True\<rparr>"

definition WIKI_PAGE_MODERATOR_UPDATE :: "platform \<Rightarrow> write_rule" where
  "WIKI_PAGE_MODERATOR_UPDATE pf = (plain_rule (spread WIKI_PAGE_CONTENT (WIKI_PAGE_MODERATOR_COMMON pf)))
     \<lparr>wr_callerFields := [''lastEditor''], wr_crossCheck := Some (scheduledCrossCheck pf), wr_readinessWhenScheduled := True\<rparr>"

definition WIKI_SPACE_MODERATOR :: write_rule where
  "WIKI_SPACE_MODERATOR = (plain_rule [(''name'', coded checkRequiredString), (''icon'', coded checkIconKey), (''description'', coded checkMarkdown),
     (''visibility'', coded (checkEnum WIKI_SPACE_VISIBILITIES)), (''allowedRoles'', roleTypes ROLE_PRIVILEGE_ORDER),
     (''department'', toOne ''department''), (''team'', toOne ''team'')])\<lparr>wr_crossCheck := Some wikiSpaceCrossCheck\<rparr>"

definition TEAM_EDIT :: write_rule where
  "TEAM_EDIT = plain_rule [(''description'', coded checkMarkdown)]"

definition DEPARTMENT_EDIT :: write_rule where
  "DEPARTMENT_EDIT = plain_rule [(''description'', coded checkMarkdown), (''color'', plain_value hexColor)]"

definition MAX_TEAM_MEMBERS :: nat where "MAX_TEAM_MEMBERS = 1000"

definition DEPARTMENT_MODERATOR :: write_rule where
  "DEPARTMENT_MODERATOR = plain_rule (spread (wr_fields DEPARTMENT_EDIT)
     [(''name'', coded checkRequiredString), (''headerImage'', media ''ownUpload''), (''head'', toOne ''user'')])"

definition TEAM_MODERATOR :: write_rule where
  "TEAM_MODERATOR = plain_rule (spread (wr_fields TEAM_EDIT)
     [(''name'', coded checkRequiredString), (''avatar'', media ''ownUpload''), (''department'', toOne ''department''), (''lead'', toOne ''user''),
      (''members'', RelationListField ''users'' MAX_TEAM_MEMBERS False True)])"

definition checkValidityMonths :: "js \<Rightarrow> string option" where
  "checkValidityMonths raw =
     (case raw of
        JNull \<Rightarrow> None
      | JInt n \<Rightarrow> if 1 \<le> n \<and> n \<le> MAX_VALIDITY_MONTHS then None else Some ''invalid''
      | _ \<Rightarrow> Some ''invalid'')"

definition COURSE_MODERATOR :: "platform \<Rightarrow> write_rule" where
  "COURSE_MODERATOR pf = (plain_rule [(''title'', coded checkRequiredString), (''description'', coded checkMarkdown), (''mandatory'', coded checkBoolean),
     (''completionMode'', coded (checkEnum [''confirm'', ''quizGate'', ''exam''])), (''validityMonths'', coded checkValidityMonths),
     (''contact'', coded checkNullableString), (''departments'', toMany ''departments''), (''coverImage'', media ''ownUpload''),
     (''publishAt'', coded (checkNullableInstant (pf_parse pf)))])
     \<lparr>wr_derivedFromMerged := [(''audience'', DEPARTMENTS_FLAG)], wr_crossCheck := Some (scheduledCrossCheck pf), wr_readinessWhenScheduled := True\<rparr>"

definition checkVideoUrl :: "platform \<Rightarrow> js \<Rightarrow> string option" where
  "checkVideoUrl pf raw =
     (if raw = JNull \<or> raw = JStr [] then None
      else case checkNullableString raw of
        Some c \<Rightarrow> Some c
      | None \<Rightarrow> if youtubeVideoId (pf_video pf) raw \<noteq> None then None else Some ''videoUrlNotYoutube'')"

definition checkQuiz :: "js \<Rightarrow> string option" where
  "checkQuiz raw = (case validateQuiz raw of Inl _ \<Rightarrow> Some ''quizInvalid'' | Inr _ \<Rightarrow> None)"

definition LESSON_MODERATOR :: "platform \<Rightarrow> write_rule" where
  "LESSON_MODERATOR pf = (plain_rule [(''title'', coded checkRequiredString), (''body'', coded checkMarkdown), (''order'', coded checkOrder),
     (''course'', toOne ''course''), (''videoUrl'', coded (checkVideoUrl pf)), (''quiz'', coded checkQuiz),
     (''publishAt'', coded (checkNullableInstant (pf_parse pf)))])
     \<lparr>wr_crossCheck := Some (scheduledCrossCheck pf), wr_readinessWhenScheduled := True\<rparr>"

definition ANNOUNCEMENT_COMMON :: "platform \<Rightarrow> (string \<times> field_spec) list" where
  "ANNOUNCEMENT_COMMON pf = [(''title'', coded checkRequiredString), (''body'', coded checkMarkdown), (''expiresAt'', coded (checkNullableInstant (pf_parse pf)))]"

definition ANNOUNCEMENT_DERIVED :: "(string \<times> string list \<times> (fields \<Rightarrow> js)) list" where
  "ANNOUNCEMENT_DERIVED = [(''audience'', ANNOUNCEMENT_AUDIENCE), (''retargetRequired'', ANNOUNCEMENT_RETARGET)]"

definition ANNOUNCEMENT_MODERATOR :: "platform \<Rightarrow> write_rule" where
  "ANNOUNCEMENT_MODERATOR pf = (plain_rule (spread (ANNOUNCEMENT_COMMON pf)
     [(''pinned'', coded checkBoolean), (''department'', toOne ''department''), (''team'', toOne ''team''), (''audienceRoles'', roleTypes ROLE_PRIVILEGE_ORDER),
      (''requiresAck'', coded (checkAckFlag pf)), (''ackDeadline'', coded checkNullablePlainDate), (''publishAt'', coded (checkNullableInstant (pf_parse pf)))]))
     \<lparr>wr_derivedFromMerged := ANNOUNCEMENT_DERIVED, wr_crossCheck := Some (announcementCrossCheck pf), wr_readinessWhenScheduled := True\<rparr>"

definition ANNOUNCEMENT_DEPARTMENT_AUTHOR :: "platform \<Rightarrow> write_rule" where
  "ANNOUNCEMENT_DEPARTMENT_AUTHOR pf = (plain_rule (spread (ANNOUNCEMENT_COMMON pf)
     [(''department'', toOneCaller ''callerDepartment''), (''team'', toOne ''teamOfCallerDepartment''), (''audienceRoles'', roleTypes STAFF_ROLES)]))
     \<lparr>wr_derivedFromMerged := ANNOUNCEMENT_DERIVED, wr_crossCheck := Some (announcementCrossCheck pf)\<rparr>"

definition EVENT_COMMON :: "platform \<Rightarrow> (string \<times> field_spec) list" where
  "EVENT_COMMON pf = [(''title'', coded checkRequiredString), (''description'', coded checkMarkdown), (''start'', coded (checkInstant (pf_parse pf))),
     (''end'', coded (checkNullableInstant (pf_parse pf))), (''allDay'', coded checkBoolean), (''location'', coded checkNullableString),
     (''url'', coded (checkNullableWebUrl (pf_web pf))), (''rsvpEnabled'', coded checkBoolean), (''capacity'', coded checkPositiveIntOrNull)]"

definition EVENT_MODERATOR :: "platform \<Rightarrow> write_rule" where
  "EVENT_MODERATOR pf = (plain_rule (spread (EVENT_COMMON pf) [(''departments'', toMany ''departments''), (''publishAt'', coded (checkNullableInstant (pf_parse pf)))]))
     \<lparr>wr_derivedFromMerged := [(''notifyAudience'', DEPARTMENTS_FLAG)], wr_crossCheck := Some (eventCrossCheck pf), wr_readinessWhenScheduled := True\<rparr>"

definition EVENT_DEPARTMENT_AUTHOR :: "platform \<Rightarrow> write_rule" where
  "EVENT_DEPARTMENT_AUTHOR pf = (plain_rule (spread (EVENT_COMMON pf) [(''departments'', toManyCaller ''callerDepartments'')]))
     \<lparr>wr_derivedFromMerged := [(''notifyAudience'', DEPARTMENTS_FLAG)], wr_crossCheck := Some (eventCrossCheck pf)\<rparr>"

definition QUICK_LINK_MODERATOR :: "platform \<Rightarrow> write_rule" where
  "QUICK_LINK_MODERATOR pf = (plain_rule [(''label'', coded checkRequiredString), (''url'', coded (checkQuickLinkUrl (pf_web pf))), (''icon'', coded checkIconKey),
     (''category'', coded (checkEnum QUICK_LINK_CATEGORIES)), (''order'', coded checkOrder), (''departments'', toMany ''departments''),
     (''publishAt'', coded (checkNullableInstant (pf_parse pf))), (''unpublishAt'', coded (checkNullableInstant (pf_parse pf)))])
     \<lparr>wr_derivedFromMerged := [(''audience'', DEPARTMENTS_FLAG)], wr_crossCheck := Some (scheduledCrossCheck pf), wr_readinessWhenScheduled := True\<rparr>"

definition DOCUMENT_COMMON :: "(string \<times> field_spec) list" where
  "DOCUMENT_COMMON = [(''title'', coded checkRequiredString), (''description'', coded checkMarkdown), (''category'', coded (checkEnum DOCUMENT_CATEGORIES))]"

definition DOCUMENT_MODERATOR :: "platform \<Rightarrow> write_rule" where
  "DOCUMENT_MODERATOR pf = (plain_rule (spread DOCUMENT_COMMON
     [(''departments'', toMany ''departments''), (''file'', media ''ownUpload''), (''requiresAck'', coded (checkAckFlag pf)),
      (''publishAt'', coded (checkNullableInstant (pf_parse pf))), (''unpublishAt'', coded (checkNullableInstant (pf_parse pf)))]))
     \<lparr>wr_derivedFromMerged := [(''audience'', DEPARTMENTS_FLAG)], wr_crossCheck := Some (scheduledCrossCheck pf), wr_readinessWhenScheduled := True\<rparr>"

definition DOCUMENT_DEPARTMENT_AUTHOR :: "platform \<Rightarrow> write_rule" where
  "DOCUMENT_DEPARTMENT_AUTHOR pf = (plain_rule (spread DOCUMENT_COMMON [(''departments'', toManyCaller ''callerDepartments''), (''file'', media ''ownUpload'')]))
     \<lparr>wr_derivedFromMerged := [(''audience'', DEPARTMENTS_FLAG)], wr_crossCheck := Some (scheduledCrossCheck pf)\<rparr>"

definition POLL_MODERATOR :: "platform \<Rightarrow> write_rule" where
  "POLL_MODERATOR pf = (plain_rule [(''question'', coded checkRequiredString), (''options'', frozen checkPollOptions samePollOptions),
     (''closesAt'', coded (checkNullableInstant (pf_parse pf))), (''anonymous'', frozen checkBoolean sameFlag), (''departments'', toMany ''departments''),
     (''visibleToGuests'', coded checkBoolean), (''guestsCanVote'', coded checkBoolean)])
     \<lparr>wr_derivedFromMerged := [(''audience'', DEPARTMENTS_FLAG)]\<rparr>"

definition create_rule :: "write_rule \<Rightarrow> string \<Rightarrow> bool \<Rightarrow> write_rule" where
  "create_rule rule callerField owner = rule\<lparr>wr_callerFields := [callerField],
     wr_derivedOnCreate := (if owner then [(''ownerDepartment'', OWNER_DEPARTMENT)] else wr_derivedOnCreate rule)\<rparr>"

definition DUTY_PLAN_COMMON :: "platform \<Rightarrow> (string \<times> field_spec) list" where
  "DUTY_PLAN_COMMON pf = [(''name'', coded checkRequiredString), (''note'', coded checkNullableString), (''shiftTemplates'', coded dutyTemplatesCode),
     (''shifts'', coded (dutyShiftsCode (pf_parse pf)))]"

definition DUTY_PLAN_OWNER :: "string list \<times> (fields \<Rightarrow> js)" where
  "DUTY_PLAN_OWNER = ([''department''], \<lambda>merged. case jget merged ''department'' of JStr d \<Rightarrow> set_js [d] | _ \<Rightarrow> JNull)"

definition DUTY_PLAN_MODERATOR :: "platform \<Rightarrow> write_rule" where
  "DUTY_PLAN_MODERATOR pf = (plain_rule (spread (DUTY_PLAN_COMMON pf) [(''department'', toOne ''department'')]))
     \<lparr>wr_derivedFromMerged := [(''ownerDepartment'', DUTY_PLAN_OWNER)]\<rparr>"

definition DUTY_PLAN_DEPARTMENT_AUTHOR :: "platform \<Rightarrow> write_rule" where
  "DUTY_PLAN_DEPARTMENT_AUTHOR pf = plain_rule (spread (DUTY_PLAN_COMMON pf) [(''department'', toOneCaller ''callerDepartment'')])"

definition KPI_COMMON :: "(string \<times> field_spec) list" where
  "KPI_COMMON = [(''name'', coded checkRequiredString), (''unit'', coded checkNullableString), (''description'', coded checkNullableString),
     (''period'', coded (checkEnum KPI_PERIODS)), (''aggregation'', coded (checkEnum KPI_AGGREGATIONS)), (''values'', coded (\<lambda>v. kpiValuesCode v None))]"

definition KPI_MODERATOR :: write_rule where
  "KPI_MODERATOR = (plain_rule (spread KPI_COMMON [(''department'', toOne ''department'')]))
     \<lparr>wr_derivedFromMerged := [(''ownerDepartment'', DUTY_PLAN_OWNER)], wr_crossCheck := Some kpiCrossCheck\<rparr>"

definition KPI_DEPARTMENT_AUTHOR :: write_rule where
  "KPI_DEPARTMENT_AUTHOR = (plain_rule (spread KPI_COMMON [(''department'', toOneCaller ''callerDepartment'')]))\<lparr>wr_crossCheck := Some kpiCrossCheck\<rparr>"

type_synonym classes = "(string \<times> write_rule) list"

text \<open>Each type with its rules for create and for update.\<close>

definition WRITE_ALLOWLIST :: "platform \<Rightarrow> (string \<times> classes \<times> classes) list" where
  "WRITE_ALLOWLIST pf =
     [(COURSE_UID,
        [(''moderator'', (COURSE_MODERATOR pf)\<lparr>wr_derivedFields := [(''slug'', uniqueSlugFrom pf ''title'')]\<rparr>)],
        [(''moderator'', COURSE_MODERATOR pf)]),
      (LESSON_UID,
        [(''moderator'', (LESSON_MODERATOR pf)\<lparr>wr_fields := spread (wr_fields (LESSON_MODERATOR pf)) [(''course'', toOneRequired ''course'')]\<rparr>)],
        [(''moderator'', LESSON_MODERATOR pf)]),
      (DEPARTMENT_UID,
        [(''moderator'', DEPARTMENT_MODERATOR\<lparr>wr_derivedFields := [(''slug'', uniqueSlugFrom pf ''name'')]\<rparr>)],
        [(''moderator'', DEPARTMENT_MODERATOR), (''departmentHead'', DEPARTMENT_EDIT)]),
      (TEAM_UID,
        [(''moderator'', (plain_rule (spread (wr_fields TEAM_MODERATOR) [(''department'', toOneRequired ''department'')]))
           \<lparr>wr_derivedFields := [(''slug'', uniqueSlugFrom pf ''name'')]\<rparr>)],
        [(''moderator'', TEAM_MODERATOR), (''teamLead'', TEAM_EDIT), (''departmentHead'', TEAM_EDIT)]),
      (WIKI_PAGE_UID,
        [(''author'', WIKI_PAGE_AUTHOR_CREATE pf), (''moderator'', WIKI_PAGE_MODERATOR_CREATE pf)],
        [(''author'', WIKI_PAGE_EDIT), (''departmentHead'', WIKI_PAGE_EDIT), (''teamLead'', WIKI_PAGE_EDIT), (''moderator'', WIKI_PAGE_MODERATOR_UPDATE pf)]),
      (WIKI_SPACE_UID,
        [(''moderator'', WIKI_SPACE_MODERATOR\<lparr>wr_derivedFields := [(''slug'', uniqueSlugFrom pf ''name'')]\<rparr>)],
        [(''moderator'', WIKI_SPACE_MODERATOR)]),
      (ANNOUNCEMENT_UID,
        [(''moderator'', create_rule (ANNOUNCEMENT_MODERATOR pf) ''author'' False), (''departmentAuthor'', create_rule (ANNOUNCEMENT_DEPARTMENT_AUTHOR pf) ''author'' True)],
        [(''moderator'', ANNOUNCEMENT_MODERATOR pf), (''departmentAuthor'', ANNOUNCEMENT_DEPARTMENT_AUTHOR pf)]),
      (EVENT_UID,
        [(''moderator'', create_rule (EVENT_MODERATOR pf) ''organizer'' False), (''departmentAuthor'', create_rule (EVENT_DEPARTMENT_AUTHOR pf) ''organizer'' True)],
        [(''moderator'', EVENT_MODERATOR pf), (''departmentAuthor'', EVENT_DEPARTMENT_AUTHOR pf)]),
      (QUICK_LINK_UID, [(''moderator'', QUICK_LINK_MODERATOR pf)], [(''moderator'', QUICK_LINK_MODERATOR pf)]),
      (DOCUMENT_UID,
        [(''moderator'', create_rule (DOCUMENT_MODERATOR pf) ''uploadedBy'' False), (''departmentAuthor'', create_rule (DOCUMENT_DEPARTMENT_AUTHOR pf) ''uploadedBy'' True)],
        [(''moderator'', DOCUMENT_MODERATOR pf), (''departmentAuthor'', DOCUMENT_DEPARTMENT_AUTHOR pf)]),
      (POLL_UID, [(''moderator'', create_rule (POLL_MODERATOR pf) ''author'' False)], [(''moderator'', POLL_MODERATOR pf)]),
      (DUTY_PLAN_UID,
        [(''moderator'', create_rule (DUTY_PLAN_MODERATOR pf) ''author'' False), (''departmentAuthor'', create_rule (DUTY_PLAN_DEPARTMENT_AUTHOR pf) ''author'' True)],
        [(''moderator'', DUTY_PLAN_MODERATOR pf), (''departmentAuthor'', DUTY_PLAN_DEPARTMENT_AUTHOR pf)]),
      (KPI_UID,
        [(''moderator'', create_rule KPI_MODERATOR ''author'' False), (''departmentAuthor'', create_rule KPI_DEPARTMENT_AUTHOR ''author'' True)],
        [(''moderator'', KPI_MODERATOR), (''departmentAuthor'', KPI_DEPARTMENT_AUTHOR)])]"

definition action_classes :: "platform \<Rightarrow> string \<Rightarrow> bool \<Rightarrow> classes" where
  "action_classes pf uid create = (case map_of (WRITE_ALLOWLIST pf) uid of None \<Rightarrow> [] | Some (c, u) \<Rightarrow> if create then c else u)"

definition writeRuleFor :: "platform \<Rightarrow> string \<Rightarrow> bool \<Rightarrow> string \<Rightarrow> write_rule option" where
  "writeRuleFor pf uid create roleClass = map_of (action_classes pf uid create) roleClass"

definition writeClassesFor :: "platform \<Rightarrow> string \<Rightarrow> bool \<Rightarrow> string list" where
  "writeClassesFor pf uid create = sort (map fst (action_classes pf uid create))"

text \<open>\<open>REFUSED_ATTRIBUTES\<close>: the attributes no class may write.\<close>

definition REFUSED_ATTRIBUTES :: "(string \<times> string list) list" where
  "REFUSED_ATTRIBUTES =
     [(COURSE_UID, [''slug'', ''lessons'', ''audience'', ''scheduleError'']),
      (LESSON_UID, [''scheduleError'']),
      (DEPARTMENT_UID, [''slug'', ''members'', ''teams'', ''pages'']),
      (TEAM_UID, [''slug'', ''pages'']),
      (ANNOUNCEMENT_UID, [''author'', ''audience'', ''retargetRequired'', ''ownerDepartment'', ''scheduleError'']),
      (EVENT_UID, [''organizer'', ''notifyAudience'', ''ownerDepartment'', ''scheduleError'']),
      (QUICK_LINK_UID, [''audience'', ''scheduleError'']),
      (DOCUMENT_UID, [''audience'', ''uploadedBy'', ''ownerDepartment'', ''scheduleError'']),
      (POLL_UID, [''audience'', ''author'', ''votersRemovedAt'']),
      (DUTY_PLAN_UID, [''author'', ''ownerDepartment'']),
      (KPI_UID, [''author'', ''ownerDepartment'']),
      (WIKI_PAGE_UID, [''slug'', ''children'', ''revisions'', ''author'', ''lastEditor'', ''scheduleError'']),
      (WIKI_SPACE_UID, [''slug'', ''pages''])]"

end
