(* ===== verification/Allowlist.thy ===== *)
theory Allowlist imports WriteRules begin

text \<open>
  The enforcement of the write rules (\<open>applyWriteRule\<close> and \<open>enforceWriteAllowlist\<close> of
  \<open>apps/cms/src/utils/write-allowlist.ts\<close>). The checks of the environment answer from one state of the database. A
  \<open>ValidationError\<close> is \<open>Refused\<close> with its keys and codes, a missing check \<open>Wiring\<close>.
\<close>

section \<open>Reading the payload\<close>

datatype entry =
    EntryRefuse "string option"
  | EntryValue js bool
  | EntryRelation string to_one_input
  | EntryList string "target_ref list"
  | EntryDelta string "target_ref list" "target_ref list"
  | EntryRoles "string list"
  | EntryMedia string "int option"

definition value_entry :: "(js \<Rightarrow> check_answer) \<Rightarrow> bool \<Rightarrow> js \<Rightarrow> entry" where
  "value_entry check candidate raw = (case verdict (check raw) of (ok, code) \<Rightarrow> if ok then EntryValue raw candidate else EntryRefuse code)"

definition read_entry :: "field_spec option \<Rightarrow> js \<Rightarrow> entry" where
  "read_entry spec raw =
     (case spec of
        None \<Rightarrow> EntryRefuse None
      | Some (RelationField check required _) \<Rightarrow>
        (case parseToOneRelation raw of
           None \<Rightarrow> EntryRefuse None
         | Some input \<Rightarrow>
           let singleTarget = (ti_target input \<notin> {None, Some None} \<and> ti_disconnect input = []) in
           if required \<and> \<not> singleTarget then EntryRefuse None else EntryRelation check input)
      | Some (RelationListField check limit _ delta) \<Rightarrow>
        if delta then (case parseRelationDelta raw limit of None \<Rightarrow> EntryRefuse None | Some (c, d) \<Rightarrow> EntryDelta check c d)
        else (case parseRelationList raw limit of None \<Rightarrow> EntryRefuse None | Some refs \<Rightarrow> EntryList check refs)
      | Some (RoleTypesField allowed limit) \<Rightarrow>
        (case parseRoleTypes raw allowed limit of None \<Rightarrow> EntryRefuse None | Some types \<Rightarrow> EntryRoles types)
      | Some (MediaField check) \<Rightarrow> (case parseMedia raw of None \<Rightarrow> EntryRefuse None | Some m \<Rightarrow> EntryMedia check m)
      | Some (ValueField check frozenWhen) \<Rightarrow> value_entry check (frozenWhen \<noteq> None) raw
      | Some (ControllerField check) \<Rightarrow> value_entry check False raw)"

definition read_payload :: "write_rule \<Rightarrow> fields \<Rightarrow> (string \<times> entry) list" where
  "read_payload rule payload = map (\<lambda>(k, raw). (k, read_entry (map_of (wr_fields rule) k) raw)) payload"

definition pinned :: "field_spec \<Rightarrow> bool" where
  "pinned spec = (case spec of RelationField _ _ p \<Rightarrow> p | RelationListField _ _ p _ \<Rightarrow> p | _ \<Rightarrow> False)"

fun create_defaults :: "write_env \<Rightarrow> (string \<times> field_spec) list \<Rightarrow> fields \<Rightarrow> write_error + fields" where
  "create_defaults env [] payload = Inr payload"
| "create_defaults env ((key, spec) # fs) payload =
     (if has_key key payload \<or> \<not> pinned spec then create_defaults env fs payload
      else case we_callerDepartment env of
        None \<Rightarrow> Inl Wiring
      | Some (_, d) \<Rightarrow> create_defaults env fs (payload @ [(key, case spec of RelationField _ _ _ \<Rightarrow> JStr d | _ \<Rightarrow> JArr [JStr d])]))"

definition refuseKeys :: "string list \<Rightarrow> (string \<times> string) list \<Rightarrow> write_error" where
  "refuseKeys keys codes =
     (let sorted = sort (remdups keys) in
      Refused sorted (List.map_filter (\<lambda>k. map_option (Pair k) (map_of codes k)) sorted))"

definition refused_of :: "write_rule \<Rightarrow> fields \<Rightarrow> string list" where
  "refused_of rule payload =
     map fst (filter (\<lambda>(_, e). case e of EntryRefuse _ \<Rightarrow> True | _ \<Rightarrow> False) (read_payload rule payload)) @
     map fst (filter (\<lambda>(k, spec). (case spec of RelationField _ required _ \<Rightarrow> required | _ \<Rightarrow> False) \<and> \<not> has_key k payload) (wr_fields rule))"

definition refused_codes :: "write_rule \<Rightarrow> fields \<Rightarrow> (string \<times> string) list" where
  "refused_codes rule payload =
     List.map_filter (\<lambda>(k, e). case e of EntryRefuse (Some c) \<Rightarrow> Some (k, c) | _ \<Rightarrow> None) (read_payload rule payload)"

section \<open>Loops\<close>

text \<open>A loop whose body may throw.\<close>

fun fold_err :: "('a \<Rightarrow> 's \<Rightarrow> 'e + 's) \<Rightarrow> 'a list \<Rightarrow> 's \<Rightarrow> 'e + 's" where
  "fold_err f [] s = Inr s"
| "fold_err f (x # xs) s = (case f x s of Inl e \<Rightarrow> Inl e | Inr s' \<Rightarrow> fold_err f xs s')"

lemma fold_err_invariant:
  assumes "fold_err f xs s = Inr s'" "P s" "\<And>x s s'. x \<in> set xs \<Longrightarrow> P s \<Longrightarrow> f x s = Inr s' \<Longrightarrow> P s'"
  shows "P s'"
  using assms
proof (induction xs arbitrary: s)
  case Nil
  then show ?case by simp
next
  case (Cons x xs)
  from Cons.prems(1) obtain t where t: "f x s = Inr t" "fold_err f xs t = Inr s'" by (auto split: sum.splits)
  show ?case
    by (rule Cons.IH [OF t(2)]) (auto intro: Cons.prems(2,3) t(1) elim: Cons.prems(3) [rotated 2])
qed

record accepted =
  ac_out :: fields
  ac_merged :: fields
  ac_resolved :: "(string \<times> resolved_to_one) list"
  ac_noTarget :: "string list"

definition relation_step :: "write_env \<Rightarrow> (string \<times> string \<times> to_one_input) list \<Rightarrow> string \<times> field_spec \<Rightarrow> accepted \<Rightarrow> write_error + accepted" where
  "relation_step env inputs f a =
     (case f of (key, spec) \<Rightarrow>
        (case (spec, map_of inputs key) of
           (RelationField _ _ _, Some (name, input)) \<Rightarrow>
             (case we_relationChecks env name of
                None \<Rightarrow> Inl Wiring
              | Some check \<Rightarrow>
                (case check input (ac_resolved a) of
                   None \<Rightarrow> Inl (refuseKeys [key] [])
                 | Some result \<Rightarrow>
                   let out = (case toStrapiRelation result of None \<Rightarrow> ac_out a | Some v \<Rightarrow> AList.update key v (ac_out a)) in
                   Inr (case rt_target result of
                       Some t \<Rightarrow> a\<lparr>ac_out := out, ac_resolved := AList.update key result (ac_resolved a),
                         ac_merged := AList.update key (case t of None \<Rightarrow> JNull | Some d \<Rightarrow> JStr d) (ac_merged a)\<rparr>
                     | None \<Rightarrow> a\<lparr>ac_out := out, ac_resolved := AList.update key result (ac_resolved a), ac_noTarget := key # ac_noTarget a\<rparr>)))
         | _ \<Rightarrow> Inr a))"

definition list_step :: "write_env \<Rightarrow> string \<times> string \<times> target_ref list \<Rightarrow> accepted \<Rightarrow> write_error + accepted" where
  "list_step env x a =
     (case x of (key, name, refs) \<Rightarrow>
        (case we_listChecks env name of
           None \<Rightarrow> Inl Wiring
         | Some check \<Rightarrow>
           (case check refs of
              None \<Rightarrow> Inl (refuseKeys [key] [])
            | Some ds \<Rightarrow> Inr (a\<lparr>ac_out := AList.update key (set_js ds) (ac_out a), ac_merged := AList.update key (JArr (map JStr ds)) (ac_merged a)\<rparr>))))"

definition delta_js :: "string list \<Rightarrow> string list \<Rightarrow> js" where
  "delta_js connect disconnect = JObj [(''connect'', documents_js connect), (''disconnect'', documents_js disconnect)]"

definition delta_step :: "write_env \<Rightarrow> string \<times> string \<times> target_ref list \<times> target_ref list \<Rightarrow> accepted \<Rightarrow> write_error + accepted" where
  "delta_step env x a =
     (case x of (key, name, c, d) \<Rightarrow>
        (case we_listChecks env name of
           None \<Rightarrow> Inl Wiring
         | Some check \<Rightarrow>
           (case (check c, check d) of
              (Some connect, Some disconnect) \<Rightarrow>
                if list_ex (\<lambda>i. i \<in> set disconnect) connect then Inl (refuseKeys [key] [])
                else Inr (a\<lparr>ac_out := AList.update key (delta_js connect disconnect) (ac_out a)\<rparr>)
            | _ \<Rightarrow> Inl (refuseKeys [key] []))))"

definition roles_step :: "write_env \<Rightarrow> string \<times> string list \<Rightarrow> accepted \<Rightarrow> write_error + accepted" where
  "roles_step env x a =
     (case x of (key, types) \<Rightarrow>
        (case (if types = [] then Inr (Some []) else case we_roleTypesCheck env of None \<Rightarrow> Inl Wiring | Some check \<Rightarrow> Inr (check types)) of
           Inl e \<Rightarrow> Inl e
         | Inr None \<Rightarrow> Inl (refuseKeys [key] [])
         | Inr (Some ds) \<Rightarrow>
           Inr (a\<lparr>ac_out := AList.update key (set_js ds) (ac_out a), ac_merged := AList.update key (JArr (map JStr types)) (ac_merged a)\<rparr>)))"

text \<open>The id of the stored draft's file.\<close>

definition current_file :: "write_env \<Rightarrow> string \<Rightarrow> js" where
  "current_file env key =
     (case (case we_existing env of None \<Rightarrow> JUndef | Some existing \<Rightarrow> jget existing key) of
        JObj fs \<Rightarrow> jget fs ''id''
      | v \<Rightarrow> v)"

definition media_step :: "write_env \<Rightarrow> string \<times> string \<times> int option \<Rightarrow> accepted \<Rightarrow> write_error + accepted" where
  "media_step env x a =
     (case x of (key, name, file) \<Rightarrow>
        let put = (\<lambda>v. a\<lparr>ac_out := AList.update key v (ac_out a), ac_merged := AList.update key v (ac_merged a)\<rparr>) in
        (case file of
           None \<Rightarrow> Inr (put JNull)
         | Some fileId \<Rightarrow>
           if current_file env key = JInt fileId then Inr (put (JInt fileId))
           else (case we_mediaChecks env name of
               None \<Rightarrow> Inl Wiring
             | Some check \<Rightarrow> (case check fileId key of None \<Rightarrow> Inl (refuseKeys [key] []) | Some i \<Rightarrow> Inr (put (JInt i))))))"

section \<open>Enforcement\<close>

definition plain_values :: "(string \<times> entry) list \<Rightarrow> fields" where
  "plain_values es = List.map_filter (\<lambda>(k, e). case e of EntryValue v _ \<Rightarrow> Some (k, v) | _ \<Rightarrow> None) es"

definition relation_inputs :: "(string \<times> entry) list \<Rightarrow> (string \<times> string \<times> to_one_input) list" where
  "relation_inputs es = List.map_filter (\<lambda>(k, e). case e of EntryRelation c i \<Rightarrow> Some (k, c, i) | _ \<Rightarrow> None) es"

definition list_inputs :: "(string \<times> entry) list \<Rightarrow> (string \<times> string \<times> target_ref list) list" where
  "list_inputs es = List.map_filter (\<lambda>(k, e). case e of EntryList c r \<Rightarrow> Some (k, c, r) | _ \<Rightarrow> None) es"

definition delta_inputs :: "(string \<times> entry) list \<Rightarrow> (string \<times> string \<times> target_ref list \<times> target_ref list) list" where
  "delta_inputs es = List.map_filter (\<lambda>(k, e). case e of EntryDelta c x y \<Rightarrow> Some (k, c, x, y) | _ \<Rightarrow> None) es"

definition role_inputs :: "(string \<times> entry) list \<Rightarrow> (string \<times> string list) list" where
  "role_inputs es = List.map_filter (\<lambda>(k, e). case e of EntryRoles t \<Rightarrow> Some (k, t) | _ \<Rightarrow> None) es"

definition media_inputs :: "(string \<times> entry) list \<Rightarrow> (string \<times> string \<times> int option) list" where
  "media_inputs es = List.map_filter (\<lambda>(k, e). case e of EntryMedia c m \<Rightarrow> Some (k, c, m) | _ \<Rightarrow> None) es"

text \<open>Every value of the payload resolved, in the order of the source.\<close>

definition resolve_all :: "write_rule \<Rightarrow> write_env \<Rightarrow> (string \<times> entry) list \<Rightarrow> write_error + accepted" where
  "resolve_all rule env es =
     (let a0 = \<lparr>ac_out = plain_values es, ac_merged = plain_values es, ac_resolved = [], ac_noTarget = []\<rparr> in
      case fold_err (relation_step env (relation_inputs es)) (wr_fields rule) a0 of Inl e \<Rightarrow> Inl e | Inr a1 \<Rightarrow>
      (case fold_err (list_step env) (list_inputs es) a1 of Inl e \<Rightarrow> Inl e | Inr a2 \<Rightarrow>
      (case fold_err (delta_step env) (delta_inputs es) a2 of Inl e \<Rightarrow> Inl e | Inr a3 \<Rightarrow>
      (case fold_err (roles_step env) (role_inputs es) a3 of Inl e \<Rightarrow> Inl e | Inr a4 \<Rightarrow> fold_err (media_step env) (media_inputs es) a4))))"

definition frozen_of :: "write_rule \<Rightarrow> string \<Rightarrow> (string \<times> (js \<Rightarrow> js \<Rightarrow> bool)) option" where
  "frozen_of rule key = (case map_of (wr_fields rule) key of Some (ValueField _ f) \<Rightarrow> f | _ \<Rightarrow> None)"

definition frozen_changes :: "write_rule \<Rightarrow> write_env \<Rightarrow> (string \<times> entry) list \<Rightarrow> fields \<Rightarrow> string list" where
  "frozen_changes rule env es out =
     map fst (filter (\<lambda>(k, e). (case e of EntryValue _ True \<Rightarrow> True | _ \<Rightarrow> False) \<and>
       (case we_published env of
          None \<Rightarrow> False
        | Some published \<Rightarrow> (case frozen_of rule k of None \<Rightarrow> True | Some (_, same) \<Rightarrow> \<not> same (jget out k) (jget published k)))) es)"

definition check_frozen :: "write_rule \<Rightarrow> write_env \<Rightarrow> string list \<Rightarrow> write_error + unit" where
  "check_frozen rule env changed =
     (case changed of
        [] \<Rightarrow> Inr ()
      | k # _ \<Rightarrow>
        (case we_frozenChecks env (case frozen_of rule k of None \<Rightarrow> ''pollHasVotes'' | Some (name, _) \<Rightarrow> name) of
           None \<Rightarrow> Inl Wiring
         | Some holds \<Rightarrow> if holds then Inl (refuseKeys changed (map (\<lambda>k. (k, ''frozenAfterVotes'')) changed)) else Inr ()))"

definition check_cross :: "write_rule \<Rightarrow> write_env \<Rightarrow> fields \<Rightarrow> string list \<Rightarrow> write_error + unit" where
  "check_cross rule env merged carried =
     (case wr_crossCheck rule of
        None \<Rightarrow> Inr ()
      | Some cross \<Rightarrow>
        (case cross merged carried env of
           Inl e \<Rightarrow> Inl e
         | Inr codes \<Rightarrow> if codes \<noteq> [] then Inl (refuseKeys (map fst codes) codes) else Inr ()))"

definition check_readiness :: "write_rule \<Rightarrow> write_env \<Rightarrow> fields \<Rightarrow> string list \<Rightarrow> fields \<Rightarrow> write_error + unit" where
  "check_readiness rule env merged carried derived =
     (if wr_readinessWhenScheduled rule \<and> ''publishAt'' \<in> set carried \<and> \<not> nullish (jget merged ''publishAt'')
      then (case we_readiness env of
          None \<Rightarrow> Inl Wiring
        | Some readiness \<Rightarrow>
          let blockers = readiness (spread merged derived) in
          if blockers \<noteq> [] then Inl (refuseKeys blockers (map (\<lambda>k. (k, ''notPublishable'')) blockers)) else Inr ())
      else Inr ())"

text \<open>The fields the server sets.\<close>

definition derive_merged :: "write_rule \<Rightarrow> fields \<Rightarrow> string list \<Rightarrow> fields" where
  "derive_merged rule merged carried =
     List.map_filter (\<lambda>(f, triggers, derive). if carriesAny carried triggers then Some (f, derive merged) else None) (wr_derivedFromMerged rule)"

definition derive_create :: "write_rule \<Rightarrow> write_env \<Rightarrow> fields \<Rightarrow> write_error + fields" where
  "derive_create rule env out =
     (if we_create env
      then fold_err (\<lambda>(f, derive) out. case derive env of Inl e \<Rightarrow> Inl e | Inr v \<Rightarrow> Inr (AList.update f v out)) (wr_derivedOnCreate rule) out
      else Inr out)"

definition set_callers :: "write_rule \<Rightarrow> write_env \<Rightarrow> fields \<Rightarrow> fields" where
  "set_callers rule env out = spread out (map (\<lambda>f. (f, JInt (we_callerId env))) (wr_callerFields rule))"

definition applyWriteRule :: "js \<Rightarrow> write_rule \<Rightarrow> write_env \<Rightarrow> write_error + fields" where
  "applyWriteRule data rule env =
     (case data of
        JObj fs \<Rightarrow>
          (case (if we_create env then create_defaults env (wr_fields rule) fs else Inr fs) of
             Inl e \<Rightarrow> Inl e
           | Inr payload \<Rightarrow>
             let refused = refused_of rule payload; es = read_payload rule payload in
             if refused \<noteq> [] then Inl (refuseKeys refused (refused_codes rule payload))
             else (case resolve_all rule env es of
                 Inl e \<Rightarrow> Inl e
               | Inr a \<Rightarrow>
                 (case check_frozen rule env (frozen_changes rule env es (ac_out a)) of
                    Inl e \<Rightarrow> Inl e
                  | Inr _ \<Rightarrow>
                    let carried = filter (\<lambda>k. k \<notin> set (ac_noTarget a)) (map fst payload);
                        merged = spread (case we_existing env of None \<Rightarrow> [] | Some x \<Rightarrow> x) (ac_merged a);
                        derived = map (\<lambda>(f, derive). (f, derive (ac_out a))) (wr_derivedFields rule) in
                    (case check_cross rule env merged carried of
                       Inl e \<Rightarrow> Inl e
                     | Inr _ \<Rightarrow>
                       (case check_readiness rule env merged carried derived of
                          Inl e \<Rightarrow> Inl e
                        | Inr _ \<Rightarrow>
                          (case derive_create rule env (spread (spread (ac_out a) derived) (derive_merged rule merged carried)) of
                             Inl e \<Rightarrow> Inl e
                           | Inr out \<Rightarrow> Inr (set_callers rule env out)))))))
      | _ \<Rightarrow> Inl MissingData)"

definition forcePublishedStatus :: "fields \<Rightarrow> fields" where
  "forcePublishedStatus query =
     AList.delete ''hasPublishedVersion'' (AList.delete ''publicationFilter'' (AList.delete ''publicationState'' (AList.update ''status'' (JStr ''published'') query)))"

text \<open>The answer with the request's body and query afterwards.\<close>

definition enforceWriteAllowlist ::
  "platform \<Rightarrow> string \<Rightarrow> string \<Rightarrow> bool \<Rightarrow> js \<Rightarrow> fields \<Rightarrow> write_env \<Rightarrow> (write_error + bool) \<times> js \<times> fields" where
  "enforceWriteAllowlist pf uid roleClass pin body query env =
     (case writeRuleFor pf uid (we_create env) roleClass of
        None \<Rightarrow> (Inr False, body, query)
      | Some rule \<Rightarrow>
        let query' = (if pin then forcePublishedStatus query else query) in
        (case body of
           JObj fs \<Rightarrow>
             (case applyWriteRule (jget fs ''data'') rule env of
                Inl e \<Rightarrow> (Inl e, body, query')
              | Inr out \<Rightarrow> (Inr True, JObj (AList.update ''data'' (JObj out) fs), query'))
         | _ \<Rightarrow> (Inl MissingData, body, query')))"

text \<open>The id of a write route, None where the route has none.\<close>

definition hasTargetId :: "string option \<Rightarrow> bool" where
  "hasTargetId idParam = (idParam \<notin> {None, Some []})"

definition targetRowWhere :: "string option \<Rightarrow> target_ref option" where
  "targetRowWhere idParam = (case idParam of None \<Rightarrow> None | Some s \<Rightarrow> if s = [] then None else parseRef (JStr s))"

end
