(* ===== verification/WriteSafety.thy ===== *)
theory WriteSafety imports Allowlist begin

text \<open>
  What the enforcement of the write rules guarantees: nothing is stored that its rule does not authorise, a refused
  key is refused before any check of the database runs, a flag of the audience never changes unless the payload
  names its targets, and what a department author creates belongs to the author's department.
\<close>

section \<open>Objects\<close>

lemma map_of_spread: "map_of (spread a b) k = (case map_of (rev b) k of None \<Rightarrow> map_of a k | Some v \<Rightarrow> Some v)"
  by (induction b arbitrary: a) (auto simp: spread_def update_conv' map_add_def split: option.splits)

lemma map_of_alist_update [simp]: "map_of (AList.update k v a) = (map_of a)(k \<mapsto> v)"
  by (simp add: update_conv')

lemma map_of_map_filter_some: "map_of (List.map_filter f xs) k = Some v \<Longrightarrow> \<exists>x \<in> set xs. f x = Some (k, v)"
  by (drule map_of_SomeD) (auto simp: map_filter_def)

section \<open>What a rule authorises\<close>

text \<open>
  A stored value of a field: a checked value, the answer of the named check to references within the limit, role
  types of the field's list, a file the check released or the draft's own.
\<close>

definition authorised :: "write_env \<Rightarrow> string \<Rightarrow> field_spec \<Rightarrow> js \<Rightarrow> bool" where
  "authorised env key spec v =
     (case spec of
        ValueField check _ \<Rightarrow> fst (verdict (check v))
      | ControllerField check \<Rightarrow> fst (verdict (check v))
      | RelationField name required _ \<Rightarrow>
          (\<exists>check input done r. we_relationChecks env name = Some check \<and> check input done = Some r \<and> toStrapiRelation r = Some v \<and>
             (required \<longrightarrow> ti_target input \<notin> {None, Some None} \<and> ti_disconnect input = []))
      | RelationListField name limit _ delta \<Rightarrow>
          (\<exists>check. we_listChecks env name = Some check \<and>
             (if delta
              then \<exists>c d c' d'. check c = Some c' \<and> check d = Some d' \<and> length c + length d \<le> limit \<and> set c' \<inter> set d' = {} \<and> v = delta_js c' d'
              else \<exists>refs ds. check refs = Some ds \<and> length refs \<le> limit \<and> v = set_js ds))
      | RoleTypesField allowed limit \<Rightarrow>
          (\<exists>types ds. set types \<subseteq> set allowed \<and> length types \<le> limit \<and> v = set_js ds \<and>
             (if types = [] then ds = [] else \<exists>check. we_roleTypesCheck env = Some check \<and> check types = Some ds))
      | MediaField name \<Rightarrow>
          v = JNull \<or> v = current_file env key \<or> (\<exists>check i j. we_mediaChecks env name = Some check \<and> check i key = Some j \<and> v = JInt j))"

definition all_ok :: "write_rule \<Rightarrow> write_env \<Rightarrow> fields \<Rightarrow> bool" where
  "all_ok rule env out = (\<forall>k v. map_of out k = Some v \<longrightarrow> (\<exists>spec. map_of (wr_fields rule) k = Some spec \<and> authorised env k spec v))"

lemma all_ok_update [intro]:
  "all_ok rule env out \<Longrightarrow> map_of (wr_fields rule) k = Some spec \<Longrightarrow> authorised env k spec v \<Longrightarrow> all_ok rule env (AList.update k v out)"
  by (simp add: all_ok_def)

lemma all_ok_None: "all_ok rule env out \<Longrightarrow> map_of (wr_fields rule) k = None \<Longrightarrow> map_of out k = None"
  by (cases "map_of out k") (auto simp: all_ok_def dest!: spec [of _ k])

lemma read_payload_mem: "(k, e) \<in> set (read_payload rule payload) \<Longrightarrow> \<exists>raw. (k, raw) \<in> set payload \<and> e = read_entry (map_of (wr_fields rule) k) raw"
  by (auto simp: read_payload_def)

lemma read_entry_value: "read_entry spec raw = EntryValue v c \<Longrightarrow> \<exists>s. spec = Some s \<and> authorised env k s v"
  by (auto simp: read_entry_def value_entry_def authorised_def Let_def split: option.splits field_spec.splits prod.splits if_splits)

lemma read_entry_relation:
  "read_entry spec raw = EntryRelation name input \<Longrightarrow>
   \<exists>required p. spec = Some (RelationField name required p) \<and> (required \<longrightarrow> ti_target input \<notin> {None, Some None} \<and> ti_disconnect input = [])"
  by (auto simp: read_entry_def value_entry_def Let_def split: option.splits field_spec.splits prod.splits if_splits)

lemma parseRefList_length: "parseRefList (JArr xs) = Some refs \<Longrightarrow> length refs = length xs"
  by (auto simp: parseRefList_def Let_def split: if_splits)

lemma parseRelationList_limit: "parseRelationList v limit = Some refs \<Longrightarrow> length refs \<le> limit"
  by (auto simp: parseRelationList_def split: js.splits if_splits list.splits prod.splits dest!: parseRefList_length)

lemma parseRelationDelta_limit: "parseRelationDelta v limit = Some (c, d) \<Longrightarrow> length c + length d \<le> limit"
  by (auto simp: parseRelationDelta_def split: js.splits if_splits option.splits)

lemma parseRoleTypes_allowed:
  "parseRoleTypes v allowed limit = Some types \<Longrightarrow> set types \<subseteq> set allowed \<and> length types \<le> limit"
  by (force simp: parseRoleTypes_def list_all_iff is_string_in_iff split: js.splits if_splits intro: order_trans [OF length_remdups_leq])

lemma read_entry_list:
  "read_entry spec raw = EntryList name refs \<Longrightarrow> \<exists>limit p. spec = Some (RelationListField name limit p False) \<and> length refs \<le> limit"
  by (auto simp: read_entry_def value_entry_def Let_def split: option.splits field_spec.splits prod.splits if_splits dest: parseRelationList_limit)

lemma read_entry_delta:
  "read_entry spec raw = EntryDelta name c d \<Longrightarrow> \<exists>limit p. spec = Some (RelationListField name limit p True) \<and> length c + length d \<le> limit"
  by (auto simp: read_entry_def value_entry_def Let_def split: option.splits field_spec.splits prod.splits if_splits dest: parseRelationDelta_limit)

lemma read_entry_roles:
  "read_entry spec raw = EntryRoles types \<Longrightarrow>
   \<exists>allowed limit. spec = Some (RoleTypesField allowed limit) \<and> set types \<subseteq> set allowed \<and> length types \<le> limit"
  by (auto simp: read_entry_def value_entry_def Let_def split: option.splits field_spec.splits prod.splits if_splits dest: parseRoleTypes_allowed)

lemma read_entry_media: "read_entry spec raw = EntryMedia name m \<Longrightarrow> spec = Some (MediaField name)"
  by (auto simp: read_entry_def value_entry_def Let_def split: option.splits field_spec.splits prod.splits if_splits)

section \<open>The steps keep to the rule\<close>

lemma plain_values_mem: "map_of (plain_values es) k = Some v \<Longrightarrow> \<exists>c. (k, EntryValue v c) \<in> set es"
  by (auto simp: plain_values_def dest!: map_of_map_filter_some split: entry.splits)

lemma plain_values_ok: "all_ok rule env (plain_values (read_payload rule payload))"
proof -
  have "\<exists>spec. map_of (wr_fields rule) k = Some spec \<and> authorised env k spec v"
    if "map_of (plain_values (read_payload rule payload)) k = Some v" for k v
  proof -
    from plain_values_mem [OF that] obtain c where "(k, EntryValue v c) \<in> set (read_payload rule payload)" by blast
    then obtain raw where "read_entry (map_of (wr_fields rule) k) raw = EntryValue v c" by (auto dest!: read_payload_mem)
    then show ?thesis by (rule read_entry_value)
  qed
  then show ?thesis by (simp add: all_ok_def)
qed

text \<open>The entries of one kind, with the field they come from.\<close>

lemma relation_step_ok:
  assumes "relation_step env inputs f a = Inr a'" "all_ok rule env (ac_out a)"
    "\<And>k name input. map_of inputs k = Some (name, input) \<Longrightarrow> \<exists>required p. map_of (wr_fields rule) k = Some (RelationField name required p) \<and>
       (required \<longrightarrow> ti_target input \<notin> {None, Some None} \<and> ti_disconnect input = [])"
  shows "all_ok rule env (ac_out a')"
proof -
  obtain key spec where f: "f = (key, spec)" by (cases f)
  show ?thesis
  proof (cases "map_of inputs key")
    case None
    with assms(1,2) f show ?thesis by (auto simp: relation_step_def split: field_spec.splits)
  next
    case (Some ni)
    obtain name input where ni: "ni = (name, input)" by (cases ni)
    from assms(3) [of key name input] Some ni obtain required p where
      field: "map_of (wr_fields rule) key = Some (RelationField name required p)"
      and req: "required \<longrightarrow> ti_target input \<notin> {None, Some None} \<and> ti_disconnect input = []" by auto
    show ?thesis
    proof (cases "ac_out a' = ac_out a")
      case True
      with assms(2) show ?thesis by simp
    next
      case False
      with assms(1) f Some ni obtain check r v where
        "we_relationChecks env name = Some check" "check input (ac_resolved a) = Some r" "toStrapiRelation r = Some v"
        and out: "ac_out a' = AList.update key v (ac_out a)"
        by (auto simp: relation_step_def Let_def split: field_spec.splits option.splits)
      then have "authorised env key (RelationField name required p) v" using req by (auto simp: authorised_def)
      with field out assms(2) show ?thesis by auto
    qed
  qed
qed

lemma authorised_list:
  "we_listChecks env name = Some check \<Longrightarrow> check refs = Some ds \<Longrightarrow> length refs \<le> limit \<Longrightarrow>
   authorised env k (RelationListField name limit p False) (set_js ds)"
  by (auto simp: authorised_def)

lemma authorised_delta:
  "we_listChecks env name = Some check \<Longrightarrow> check c = Some c' \<Longrightarrow> check d = Some d' \<Longrightarrow> length c + length d \<le> limit \<Longrightarrow>
   set c' \<inter> set d' = {} \<Longrightarrow> authorised env k (RelationListField name limit p True) (delta_js c' d')"
  by (simp add: authorised_def) blast

lemma authorised_roles:
  "set types \<subseteq> set allowed \<Longrightarrow> length types \<le> limit \<Longrightarrow>
   (if types = [] then ds = [] else \<exists>check. we_roleTypesCheck env = Some check \<and> check types = Some ds) \<Longrightarrow>
   authorised env k (RoleTypesField allowed limit) (set_js ds)"
  unfolding authorised_def field_spec.case by blast

lemma authorised_media:
  "v = JNull \<or> v = current_file env k \<or> (\<exists>check i j. we_mediaChecks env name = Some check \<and> check i k = Some j \<and> v = JInt j) \<Longrightarrow>
   authorised env k (MediaField name) v"
  by (simp add: authorised_def)

lemma list_step_ok:
  assumes "list_step env (k, name, refs) a = Inr a'" "all_ok rule env (ac_out a)"
    "map_of (wr_fields rule) k = Some (RelationListField name limit p False)" "length refs \<le> limit"
  shows "all_ok rule env (ac_out a')"
  using assms(1,2,4) by (auto simp: list_step_def split: option.splits intro!: all_ok_update [OF _ assms(3)] authorised_list)

lemma delta_step_ok:
  assumes "delta_step env (k, name, c, d) a = Inr a'" "all_ok rule env (ac_out a)"
    "map_of (wr_fields rule) k = Some (RelationListField name limit p True)" "length c + length d \<le> limit"
  shows "all_ok rule env (ac_out a')"
  using assms(1,2,4)
  by (auto simp: delta_step_def list_ex_iff split: option.splits if_splits intro!: all_ok_update [OF _ assms(3)] authorised_delta)

lemma roles_step_ok:
  assumes "roles_step env (k, types) a = Inr a'" "all_ok rule env (ac_out a)"
    "map_of (wr_fields rule) k = Some (RoleTypesField allowed limit)" "set types \<subseteq> set allowed" "length types \<le> limit"
  shows "all_ok rule env (ac_out a')"
  using assms(1,2,5)
  by (auto simp: roles_step_def split: option.splits sum.splits if_splits
      intro!: all_ok_update [OF _ assms(3)] authorised_roles [OF assms(4)])

lemma media_step_ok:
  assumes "media_step env (k, name, m) a = Inr a'" "all_ok rule env (ac_out a)" "map_of (wr_fields rule) k = Some (MediaField name)"
  shows "all_ok rule env (ac_out a')"
  using assms(1,2)
  by (auto simp: media_step_def Let_def split: option.splits if_splits intro!: all_ok_update [OF _ assms(3)] authorised_media)

lemma relation_inputs_field:
  "map_of (relation_inputs (read_payload rule payload)) k = Some (name, input) \<Longrightarrow>
   \<exists>required p. map_of (wr_fields rule) k = Some (RelationField name required p) \<and>
     (required \<longrightarrow> ti_target input \<notin> {None, Some None} \<and> ti_disconnect input = [])"
  unfolding relation_inputs_def
  by (fastforce dest!: map_of_map_filter_some read_payload_mem split: entry.splits intro: read_entry_relation)

lemma inputs_mem:
  "(k, c, r) \<in> set (list_inputs es) \<Longrightarrow> (k, EntryList c r) \<in> set es"
  "(k, c, x, y) \<in> set (delta_inputs es) \<Longrightarrow> (k, EntryDelta c x y) \<in> set es"
  "(k, t) \<in> set (role_inputs es) \<Longrightarrow> (k, EntryRoles t) \<in> set es"
  "(k, c, m) \<in> set (media_inputs es) \<Longrightarrow> (k, EntryMedia c m) \<in> set es"
  by (auto simp: list_inputs_def delta_inputs_def role_inputs_def media_inputs_def map_filter_mem split: entry.splits)

lemma list_inputs_field:
  "(k, name, refs) \<in> set (list_inputs (read_payload rule payload)) \<Longrightarrow>
   \<exists>limit p. map_of (wr_fields rule) k = Some (RelationListField name limit p False) \<and> length refs \<le> limit"
  by (drule inputs_mem(1), drule read_payload_mem) (metis read_entry_list)

lemma delta_inputs_field:
  "(k, name, c, d) \<in> set (delta_inputs (read_payload rule payload)) \<Longrightarrow>
   \<exists>limit p. map_of (wr_fields rule) k = Some (RelationListField name limit p True) \<and> length c + length d \<le> limit"
  by (drule inputs_mem(2), drule read_payload_mem) (metis read_entry_delta)

lemma role_inputs_field:
  "(k, types) \<in> set (role_inputs (read_payload rule payload)) \<Longrightarrow>
   \<exists>allowed limit. map_of (wr_fields rule) k = Some (RoleTypesField allowed limit) \<and> set types \<subseteq> set allowed \<and> length types \<le> limit"
  by (drule inputs_mem(3), drule read_payload_mem) (metis read_entry_roles)

lemma media_inputs_field:
  "(k, name, m) \<in> set (media_inputs (read_payload rule payload)) \<Longrightarrow>
   map_of (wr_fields rule) k = Some (MediaField name)"
  by (drule inputs_mem(4), drule read_payload_mem) (metis read_entry_media)

lemma resolve_all_steps:
  assumes "resolve_all rule env es = Inr a"
  obtains a1 a2 a3 a4 where
    "fold_err (relation_step env (relation_inputs es)) (wr_fields rule)
       \<lparr>ac_out = plain_values es, ac_merged = plain_values es, ac_resolved = [], ac_noTarget = []\<rparr> = Inr a1"
    "fold_err (list_step env) (list_inputs es) a1 = Inr a2" "fold_err (delta_step env) (delta_inputs es) a2 = Inr a3"
    "fold_err (roles_step env) (role_inputs es) a3 = Inr a4" "fold_err (media_step env) (media_inputs es) a4 = Inr a"
  using assms by (simp add: resolve_all_def Let_def split: sum.splits)

lemma resolve_all_ok:
  assumes "resolve_all rule env (read_payload rule payload) = Inr a"
  shows "all_ok rule env (ac_out a)"
proof -
  let ?es = "read_payload rule payload"
  let ?ok = "\<lambda>a. all_ok rule env (ac_out a)"
  from assms obtain a1 a2 a3 a4 where steps:
    "fold_err (relation_step env (relation_inputs ?es)) (wr_fields rule)
       \<lparr>ac_out = plain_values ?es, ac_merged = plain_values ?es, ac_resolved = [], ac_noTarget = []\<rparr> = Inr a1"
    "fold_err (list_step env) (list_inputs ?es) a1 = Inr a2" "fold_err (delta_step env) (delta_inputs ?es) a2 = Inr a3"
    "fold_err (roles_step env) (role_inputs ?es) a3 = Inr a4" "fold_err (media_step env) (media_inputs ?es) a4 = Inr a"
    by (rule resolve_all_steps)
  have "?ok a1"
    by (rule fold_err_invariant [where P = ?ok, OF steps(1)])
      (auto simp: plain_values_ok intro: relation_step_ok relation_inputs_field)
  then have "?ok a2"
    by (rule fold_err_invariant [where P = ?ok, OF steps(2)]) (auto dest!: list_inputs_field intro: list_step_ok)
  then have "?ok a3"
    by (rule fold_err_invariant [where P = ?ok, OF steps(3)]) (auto dest!: delta_inputs_field intro: delta_step_ok)
  then have "?ok a4"
    by (rule fold_err_invariant [where P = ?ok, OF steps(4)]) (auto dest!: role_inputs_field intro: roles_step_ok)
  then show "?ok a"
    by (rule fold_err_invariant [where P = ?ok, OF steps(5)]) (auto dest!: media_inputs_field intro: media_step_ok)
qed

section \<open>A write, step by step\<close>

definition write_payload :: "write_rule \<Rightarrow> write_env \<Rightarrow> fields \<Rightarrow> write_error + fields" where
  "write_payload rule env fs = (if we_create env then create_defaults env (wr_fields rule) fs else Inr fs)"

definition write_carried :: "fields \<Rightarrow> accepted \<Rightarrow> string list" where
  "write_carried payload a = filter (\<lambda>k. k \<notin> set (ac_noTarget a)) (map fst payload)"

definition write_merged :: "write_env \<Rightarrow> accepted \<Rightarrow> fields" where
  "write_merged env a = spread (case we_existing env of None \<Rightarrow> [] | Some x \<Rightarrow> x) (ac_merged a)"

definition write_derived :: "write_rule \<Rightarrow> write_env \<Rightarrow> fields \<Rightarrow> accepted \<Rightarrow> fields" where
  "write_derived rule env payload a =
     spread (spread (ac_out a) (map (\<lambda>(f, derive). (f, derive (ac_out a))) (wr_derivedFields rule)))
       (derive_merged rule (write_merged env a) (write_carried payload a))"

lemma apply_steps:
  assumes "applyWriteRule (JObj fs) rule env = Inr out"
  obtains payload a out' where
    "write_payload rule env fs = Inr payload" "refused_of rule payload = []"
    "resolve_all rule env (read_payload rule payload) = Inr a"
    "derive_create rule env (write_derived rule env payload a) = Inr out'" "out = set_callers rule env out'"
    "check_frozen rule env (frozen_changes rule env (read_payload rule payload) (ac_out a)) = Inr ()"
  using assms
  by (auto simp: applyWriteRule_def write_payload_def write_derived_def write_carried_def write_merged_def Let_def
      split: sum.splits if_splits)

lemma map_of_set_callers:
  "map_of (set_callers rule env out) k = (if k \<in> set (wr_callerFields rule) then Some (JInt (we_callerId env)) else map_of out k)"
proof -
  have "map_of (rev (map (\<lambda>f. (f, c)) fs)) k = (if k \<in> set fs then Some c else None)" for fs :: "string list" and c :: js
    by (induction fs) (auto simp: map_add_def split: option.splits)
  then show ?thesis by (simp add: set_callers_def map_of_spread)
qed

lemma derive_create_other:
  assumes "derive_create rule env out = Inr out'" "k \<notin> fst ` set (wr_derivedOnCreate rule)"
  shows "map_of out' k = map_of out k"
proof (cases "we_create env")
  case False
  with assms show ?thesis by (simp add: derive_create_def)
next
  case True
  with assms(1) have "fold_err (\<lambda>(f, derive) out. case derive env of Inl e \<Rightarrow> Inl e | Inr v \<Rightarrow> Inr (AList.update f v out)) (wr_derivedOnCreate rule) out = Inr out'"
    by (simp add: derive_create_def)
  then show ?thesis
    by (rule fold_err_invariant [where P = "\<lambda>x. map_of x k = map_of out k"]) (use assms(2) in \<open>force split: sum.splits\<close>)+
qed

definition server_set :: "write_rule \<Rightarrow> string \<Rightarrow> bool" where
  "server_set rule k =
     (k \<in> fst ` set (wr_derivedFields rule) \<or> k \<in> fst ` set (wr_derivedFromMerged rule) \<or> k \<in> fst ` set (wr_derivedOnCreate rule))"

lemma derive_merged_key: "k \<notin> fst ` set (wr_derivedFromMerged rule) \<Longrightarrow> map_of (rev (derive_merged rule m c)) k = None"
  by (force simp: map_of_eq_None_iff derive_merged_def map_filter_mem split: if_splits)

lemma derived_fields_key: "k \<notin> fst ` set fs \<Longrightarrow> map_of (rev (map (\<lambda>(f, derive). (f, derive x)) fs)) k = None"
  by (force simp: map_of_eq_None_iff)

lemma write_derived_other:
  assumes "\<not> server_set rule k"
  shows "map_of (write_derived rule env payload a) k = map_of (ac_out a) k"
proof -
  have "map_of (rev (map (\<lambda>(f, derive). (f, derive (ac_out a))) (wr_derivedFields rule))) k = None"
    by (rule derived_fields_key) (use assms in \<open>simp add: server_set_def\<close>)
  with derive_merged_key [of k rule] assms show ?thesis by (simp add: write_derived_def map_of_spread server_set_def)
qed

lemma stored_accepted:
  assumes "derive_create rule env (write_derived rule env payload a) = Inr out'" "\<not> server_set rule k"
  shows "map_of out' k = map_of (ac_out a) k"
  using derive_create_other [OF assms(1)] write_derived_other [OF assms(2)] assms(2) by (simp add: server_set_def)

lemma stored_ok:
  assumes "applyWriteRule (JObj fs) rule env = Inr out" "map_of out k = Some v" "k \<notin> set (wr_callerFields rule)" "\<not> server_set rule k"
  shows "\<exists>spec. map_of (wr_fields rule) k = Some spec \<and> authorised env k spec v"
proof -
  from assms(1) obtain payload a out' where
    a: "resolve_all rule env (read_payload rule payload) = Inr a"
    and out': "derive_create rule env (write_derived rule env payload a) = Inr out'" and out: "out = set_callers rule env out'"
    by (rule apply_steps)
  from stored_accepted [OF out' assms(4)] assms(2,3) out have "map_of (ac_out a) k = Some v" by (simp add: map_of_set_callers)
  with resolve_all_ok [OF a] show ?thesis by (simp add: all_ok_def)
qed

lemma stored_caller:
  assumes "applyWriteRule (JObj fs) rule env = Inr out" "map_of out k = Some v" "k \<in> set (wr_callerFields rule)"
  shows "v = JInt (we_callerId env)"
  using assms(1) by (rule apply_steps) (use assms(2,3) in \<open>simp add: map_of_set_callers\<close>)

text \<open>C21: Every stored field is the caller's id, set by the server, or authorised by the rule's own field of that name.\<close>

theorem stored_fields_authorised:
  assumes "applyWriteRule (JObj fs) rule env = Inr out" "map_of out k = Some v"
  shows "if k \<in> set (wr_callerFields rule) then v = JInt (we_callerId env)
    else server_set rule k \<or> (\<exists>spec. map_of (wr_fields rule) k = Some spec \<and> authorised env k spec v)"
  using stored_ok [OF assms] stored_caller [OF assms] by auto

definition sample_env :: write_env where
  "sample_env = \<lparr>we_callerId = 3, we_create = False,
     we_relationChecks = (\<lambda>name. if name = ''user''
       then Some (\<lambda>input _. case ti_target input of
           Some (Some (TargetRow i)) \<Rightarrow> if i = 7 then Some \<lparr>rt_target = Some (Some ''u7''), rt_disconnect = []\<rparr> else None
         | _ \<Rightarrow> None) else None),
     we_listChecks = (\<lambda>name. if name \<in> {''departments'', ''callerDepartments''} then Some (\<lambda>refs. if refs = [] then Some [] else Some [''d1'']) else None),
     we_roleTypesCheck = None, we_mediaChecks = (\<lambda>_. None), we_frozenChecks = (\<lambda>_. Some False),
     we_existing = Some [], we_published = None, we_callerDepartment = Some (4, ''hr''), we_readiness = None, we_now = 0\<rparr>"

lemma lead_written:
  "applyWriteRule (JObj [(''lead'', JInt 7)]) TEAM_MODERATOR sample_env = Inr [(''lead'', set_js [''u7''])]"
  by code_simp

theorem stored_fields_authorised_witness:
  "\<not> server_set TEAM_MODERATOR ''lead'' \<and> (\<exists>spec. map_of (wr_fields TEAM_MODERATOR) ''lead'' = Some spec \<and> authorised sample_env ''lead'' spec (set_js [''u7'']))"
proof -
  have "wr_callerFields TEAM_MODERATOR = []" "\<not> server_set TEAM_MODERATOR ''lead''"
    by (simp_all add: TEAM_MODERATOR_def plain_rule_def server_set_def)
  with stored_fields_authorised [OF lead_written, of "''lead''" "set_js [''u7'']"] show ?thesis by simp
qed

section \<open>Refusals\<close>

text \<open>The environment without its checks, its stored rows and its readiness.\<close>

definition blind :: "write_env \<Rightarrow> write_env" where
  "blind env = env\<lparr>we_relationChecks := (\<lambda>_. None), we_listChecks := (\<lambda>_. None), we_roleTypesCheck := None,
     we_mediaChecks := (\<lambda>_. None), we_frozenChecks := (\<lambda>_. None), we_existing := None, we_published := None, we_readiness := None\<rparr>"

lemma create_defaults_blind: "create_defaults (blind env) fs payload = create_defaults env fs payload"
  by (induction env fs payload rule: create_defaults.induct) (simp_all add: blind_def split: option.split)

lemma create_defaults_mem:
  "create_defaults env fs payload = Inr payload' \<Longrightarrow> x \<in> set payload \<Longrightarrow> x \<in> set payload'"
  by (induction env fs payload rule: create_defaults.induct) (auto split: if_splits option.splits prod.splits)

lemma create_defaults_total:
  "we_callerDepartment env \<noteq> None \<Longrightarrow> \<exists>payload'. create_defaults env fs payload = Inr payload'"
  by (induction env fs payload rule: create_defaults.induct) (auto split: option.splits prod.splits)

lemma refused_payload:
  assumes "write_payload rule env fs = Inr payload" "refused_of rule payload \<noteq> []"
  shows "applyWriteRule (JObj fs) rule env = Inl (refuseKeys (refused_of rule payload) (refused_codes rule payload))"
  using assms by (simp add: applyWriteRule_def write_payload_def Let_def)

lemma write_payload_total:
  assumes "\<not> we_create env \<or> we_callerDepartment env \<noteq> None" "x \<in> set fs"
  obtains payload where "write_payload rule env fs = Inr payload" "x \<in> set payload"
  using assms create_defaults_total [of env "wr_fields rule" fs] create_defaults_mem [of env "wr_fields rule" fs]
  by (cases "we_create env") (auto simp: write_payload_def)

text \<open>A value its field cannot take, decided without the database.\<close>

definition refuses_value :: "field_spec \<Rightarrow> js \<Rightarrow> bool" where
  "refuses_value spec raw = (case read_entry (Some spec) raw of EntryRefuse _ \<Rightarrow> True | _ \<Rightarrow> False)"

lemma refused_of_mem:
  assumes "(k, raw) \<in> set payload" "case map_of (wr_fields rule) k of None \<Rightarrow> True | Some spec \<Rightarrow> refuses_value spec raw"
  shows "k \<in> set (refused_of rule payload)"
proof -
  obtain c where "read_entry (map_of (wr_fields rule) k) raw = EntryRefuse c"
    using assms(2) by (auto simp: refuses_value_def read_entry_def split: option.splits entry.splits)
  with assms(1) have "(k, EntryRefuse c) \<in> set (read_payload rule payload)" by (force simp: read_payload_def)
  then show ?thesis by (force simp: refused_of_def)
qed



section \<open>The table\<close>

lemmas rule_defs = plain_rule_def create_rule_def COURSE_MODERATOR_def LESSON_MODERATOR_def DEPARTMENT_MODERATOR_def DEPARTMENT_EDIT_def
  TEAM_MODERATOR_def TEAM_EDIT_def WIKI_PAGE_EDIT_def WIKI_PAGE_AUTHOR_CREATE_def WIKI_PAGE_MODERATOR_COMMON_def
  WIKI_PAGE_MODERATOR_CREATE_def WIKI_PAGE_MODERATOR_UPDATE_def WIKI_PAGE_CONTENT_def WIKI_SPACE_MODERATOR_def
  ANNOUNCEMENT_COMMON_def ANNOUNCEMENT_DERIVED_def ANNOUNCEMENT_MODERATOR_def ANNOUNCEMENT_DEPARTMENT_AUTHOR_def
  EVENT_COMMON_def EVENT_MODERATOR_def EVENT_DEPARTMENT_AUTHOR_def QUICK_LINK_MODERATOR_def DOCUMENT_COMMON_def
  DOCUMENT_MODERATOR_def DOCUMENT_DEPARTMENT_AUTHOR_def POLL_MODERATOR_def DUTY_PLAN_COMMON_def DUTY_PLAN_MODERATOR_def
  DUTY_PLAN_DEPARTMENT_AUTHOR_def KPI_COMMON_def KPI_MODERATOR_def KPI_DEPARTMENT_AUTHOR_def

lemmas uid_defs = COURSE_UID_def LESSON_UID_def DEPARTMENT_UID_def TEAM_UID_def WIKI_PAGE_UID_def WIKI_SPACE_UID_def ANNOUNCEMENT_UID_def
  EVENT_UID_def QUICK_LINK_UID_def DOCUMENT_UID_def POLL_UID_def DUTY_PLAN_UID_def KPI_UID_def

text \<open>A property of every rule of a type, from the type's rows.\<close>

lemma rule_cases:
  assumes "writeRuleFor pf uid create cls = Some rule"
  obtains c u where "(uid, c, u) \<in> set (WRITE_ALLOWLIST pf)" "(cls, rule) \<in> set (if create then c else u)"
  using assms by (auto simp: writeRuleFor_def action_classes_def split: option.splits dest!: map_of_SomeD)

lemma refused_attributes_unlisted_aux:
  "list_all (\<lambda>(uid, c, u). case map_of REFUSED_ATTRIBUTES uid of None \<Rightarrow> True
     | Some attrs \<Rightarrow> list_all (\<lambda>(_, rule). list_all (\<lambda>a. map_of (wr_fields rule) a = None) attrs) (c @ u)) (WRITE_ALLOWLIST pf)"
  by (simp add: WRITE_ALLOWLIST_def REFUSED_ATTRIBUTES_def uid_defs) (simp add: rule_defs spread_def)

text \<open>No rule of a type takes an attribute that \<open>REFUSED_ATTRIBUTES\<close> names, so a payload with one is refused.\<close>

theorem refused_attribute_refused:
  assumes "writeRuleFor pf uid (we_create env) cls = Some rule" "map_of REFUSED_ATTRIBUTES uid = Some attrs" "a \<in> set attrs" "has_key a fs"
    "\<not> we_create env \<or> we_callerDepartment env \<noteq> None"
  shows "\<exists>keys codes. applyWriteRule (JObj fs) rule env = Inl (Refused keys codes) \<and> a \<in> set keys"
proof -
  from assms(1) obtain c u where row: "(uid, c, u) \<in> set (WRITE_ALLOWLIST pf)" "(cls, rule) \<in> set (c @ u)"
    by (rule rule_cases) (auto split: if_splits)
  from refused_attributes_unlisted_aux [of pf, unfolded list_all_iff] row assms(2,3)
  have unlisted: "map_of (wr_fields rule) a = None" by fastforce
  from assms(4) obtain raw where raw: "(a, raw) \<in> set fs" by (auto simp: has_key_def)
  from refused_of_mem unlisted have mem: "(a, raw) \<in> set payload \<Longrightarrow> a \<in> set (refused_of rule payload)" for payload by simp
  obtain payload where payload: "write_payload rule env fs = Inr payload" "(a, raw) \<in> set payload"
    by (rule write_payload_total [OF assms(5) raw])
  from mem [OF payload(2)] have "refused_of rule payload \<noteq> []" by auto
  from refused_payload [OF payload(1) this] mem [OF payload(2)] show ?thesis
    by (auto simp: refuseKeys_def Let_def)
qed

theorem refused_attribute_refused_witness:
  "\<exists>keys codes. applyWriteRule (JObj [(''slug'', JStr ''ops'')]) TEAM_MODERATOR sample_env = Inl (Refused keys codes) \<and> ''slug'' \<in> set keys"
proof -
  have "writeRuleFor pf TEAM_UID (we_create sample_env) ''moderator'' = Some TEAM_MODERATOR" for pf
    by (simp add: writeRuleFor_def action_classes_def WRITE_ALLOWLIST_def uid_defs sample_env_def)
  from refused_attribute_refused [OF this, of "[''slug'', ''pages'']" "''slug''" "[(''slug'', JStr ''ops'')]"]
  show ?thesis by (simp add: REFUSED_ATTRIBUTES_def uid_defs has_key_def sample_env_def)
qed

section \<open>Flags of the audience\<close>

lemma filter_update:
  "filter (\<lambda>p. fst p = key) (AList.update k v xs) =
     (if k = key then AList.update k v (filter (\<lambda>p. fst p = key) xs) else filter (\<lambda>p. fst p = key) xs)"
  by (induction xs) auto

lemma map_of_rev_filter: "map_of (rev xs) key = map_of (rev (filter (\<lambda>p. fst p = key) xs)) key"
  by (induction xs) (auto simp: map_add_def split: option.splits)

text \<open>What a list of targets comes to: stored and merged alike, or neither.\<close>

definition list_inv :: "string \<Rightarrow> accepted \<Rightarrow> bool" where
  "list_inv key a = (key \<notin> set (ac_noTarget a) \<and>
     (case map_of (ac_out a) key of
        None \<Rightarrow> filter (\<lambda>p. fst p = key) (ac_merged a) = []
      | Some v \<Rightarrow> \<exists>ds. v = set_js ds \<and> filter (\<lambda>p. fst p = key) (ac_merged a) = [(key, JArr (map JStr ds))]))"

definition other_step :: "string \<Rightarrow> accepted \<Rightarrow> accepted \<Rightarrow> bool" where
  "other_step key a a' = (map_of (ac_out a') key = map_of (ac_out a) key \<and>
     filter (\<lambda>p. fst p = key) (ac_merged a') = filter (\<lambda>p. fst p = key) (ac_merged a) \<and>
     (key \<in> set (ac_noTarget a') \<longrightarrow> key \<in> set (ac_noTarget a)))"

lemma other_step_inv: "other_step key a a' \<Longrightarrow> list_inv key a \<Longrightarrow> list_inv key a'"
  by (auto simp: other_step_def list_inv_def split: option.splits)

lemma other_step_refl: "other_step key a a"
  by (simp add: other_step_def)

lemma other_step_trans: "other_step key a b \<Longrightarrow> other_step key b c \<Longrightarrow> other_step key a c"
  by (auto simp: other_step_def)

lemma relation_step_other:
  "relation_step env inputs f a = Inr a' \<Longrightarrow> map_of inputs key = None \<Longrightarrow> other_step key a a'"
  by (cases f) (auto simp: relation_step_def other_step_def filter_update Let_def split: field_spec.splits option.splits)

lemma list_step_other: "list_step env (k, name, refs) a = Inr a' \<Longrightarrow> k \<noteq> key \<Longrightarrow> other_step key a a'"
  by (auto simp: list_step_def other_step_def filter_update split: option.splits)

lemma delta_step_other: "delta_step env (k, name, c, d) a = Inr a' \<Longrightarrow> k \<noteq> key \<Longrightarrow> other_step key a a'"
  by (auto simp: delta_step_def other_step_def filter_update split: option.splits if_splits)

lemma roles_step_other: "roles_step env (k, types) a = Inr a' \<Longrightarrow> k \<noteq> key \<Longrightarrow> other_step key a a'"
  by (auto simp: roles_step_def other_step_def filter_update split: option.splits if_splits sum.splits)

lemma media_step_other: "media_step env (k, name, m) a = Inr a' \<Longrightarrow> k \<noteq> key \<Longrightarrow> other_step key a a'"
  by (auto simp: media_step_def other_step_def filter_update Let_def split: option.splits if_splits)

lemma list_step_own:
  "list_step env (key, name, refs) a = Inr a' \<Longrightarrow> list_inv key a \<Longrightarrow> list_inv key a' \<and> map_of (ac_out a') key \<noteq> None"
  by (auto simp: list_step_def list_inv_def filter_update split: option.splits)

lemma fold_other_step:
  assumes "fold_err f xs a = Inr a'" "\<And>x s s'. x \<in> set xs \<Longrightarrow> f x s = Inr s' \<Longrightarrow> other_step key s s'"
  shows "other_step key a a'"
  using assms(1) other_step_refl
  by (rule fold_err_invariant [where P = "other_step key a"]) (auto intro: other_step_trans assms(2))

lemma fold_list_steps:
  "fold_err (list_step env) xs a = Inr a' \<Longrightarrow> list_inv key a \<Longrightarrow>
   list_inv key a' \<and> (map_of (ac_out a') key = None \<longleftrightarrow> map_of (ac_out a) key = None \<and> key \<notin> fst ` set xs)"
proof (induction xs arbitrary: a)
  case Nil
  then show ?case by simp
next
  case (Cons x xs)
  obtain k name refs where x: "x = (k, name, refs)" by (cases x)
  from Cons.prems(1) x obtain b where b: "list_step env (k, name, refs) a = Inr b" "fold_err (list_step env) xs b = Inr a'"
    by (auto split: sum.splits)
  show ?case
  proof (cases "k = key")
    case True
    with list_step_own [of env key name refs a b] b(1) Cons.prems(2) Cons.IH [OF b(2)] x show ?thesis by auto
  next
    case False
    from list_step_other [OF b(1) False] have o: "other_step key a b" .
    from Cons.IH [OF b(2) other_step_inv [OF o Cons.prems(2)]] o x False show ?thesis by (auto simp: other_step_def)
  qed
qed

text \<open>Only the step of the lists may touch the field of a list, and none the field of a value.\<close>

lemma resolve_all_frame:
  assumes "resolve_all rule env (read_payload rule payload) = Inr a"
    and field: "case map_of (wr_fields rule) key of Some (ValueField _ _) \<Rightarrow> True | Some (RelationListField _ _ _ delta) \<Rightarrow> \<not> delta | _ \<Rightarrow> False"
  obtains a1 a2 where
    "other_step key \<lparr>ac_out = plain_values (read_payload rule payload), ac_merged = plain_values (read_payload rule payload),
       ac_resolved = [], ac_noTarget = []\<rparr> a1"
    "fold_err (list_step env) (list_inputs (read_payload rule payload)) a1 = Inr a2" "other_step key a2 a"
proof -
  let ?es = "read_payload rule payload"
  let ?a0 = "\<lparr>ac_out = plain_values ?es, ac_merged = plain_values ?es, ac_resolved = [], ac_noTarget = []\<rparr>"
  from assms(1) obtain a1 a2 a3 a4 where steps:
    "fold_err (relation_step env (relation_inputs ?es)) (wr_fields rule) ?a0 = Inr a1"
    "fold_err (list_step env) (list_inputs ?es) a1 = Inr a2" "fold_err (delta_step env) (delta_inputs ?es) a2 = Inr a3"
    "fold_err (roles_step env) (role_inputs ?es) a3 = Inr a4" "fold_err (media_step env) (media_inputs ?es) a4 = Inr a"
    by (rule resolve_all_steps)
  have "map_of (relation_inputs ?es) key = None"
    using relation_inputs_field [of rule payload key] field by (cases "map_of (relation_inputs ?es) key") auto
  then have o1: "other_step key ?a0 a1" by (auto intro: fold_other_step [OF steps(1)] relation_step_other)
  have o3: "other_step key a2 a3"
    by (rule fold_other_step [OF steps(3)]) (use field in \<open>auto dest!: delta_inputs_field intro: delta_step_other\<close>)
  have o4: "other_step key a3 a4"
    by (rule fold_other_step [OF steps(4)]) (use field in \<open>auto dest!: role_inputs_field intro: roles_step_other\<close>)
  have o5: "other_step key a4 a"
    by (rule fold_other_step [OF steps(5)]) (use field in \<open>auto dest!: media_inputs_field intro: media_step_other\<close>)
  show thesis by (rule that [OF o1 steps(2) other_step_trans [OF o3 other_step_trans [OF o4 o5]]])
qed

lemma resolve_all_list:
  assumes "resolve_all rule env (read_payload rule payload) = Inr a" "map_of (wr_fields rule) key = Some (RelationListField name limit p False)"
  shows "list_inv key a \<and> (map_of (ac_out a) key = None \<longleftrightarrow> key \<notin> fst ` set (list_inputs (read_payload rule payload)))"
proof -
  let ?es = "read_payload rule payload"
  let ?a0 = "\<lparr>ac_out = plain_values ?es, ac_merged = plain_values ?es, ac_resolved = [], ac_noTarget = []\<rparr>"
  from assms(2) have "case map_of (wr_fields rule) key of Some (ValueField _ _) \<Rightarrow> True | Some (RelationListField _ _ _ delta) \<Rightarrow> \<not> delta | _ \<Rightarrow> False"
    by simp
  with assms(1) obtain a1 a2 where o1: "other_step key ?a0 a1" and lists: "fold_err (list_step env) (list_inputs ?es) a1 = Inr a2" and o2: "other_step key a2 a"
    by (rule resolve_all_frame)
  have "(key, v) \<notin> set (plain_values ?es)" for v
    using assms(2) by (auto simp: plain_values_def map_filter_mem read_entry_def Let_def split: entry.splits dest!: read_payload_mem
        split: option.splits)
  then have "filter (\<lambda>p. fst p = key) (plain_values ?es) = []" "map_of (plain_values ?es) key = None"
    by (auto simp: filter_empty_conv map_of_eq_None_iff)
  then have a0: "list_inv key ?a0" "map_of (ac_out ?a0) key = None" by (simp_all add: list_inv_def)
  from fold_list_steps [OF lists other_step_inv [OF o1 a0(1)]] o1 o2 a0(2) other_step_inv [OF o2]
  show ?thesis by (simp add: other_step_def)
qed

lemma list_inputs_carried:
  assumes "refused_of rule payload = []" "map_of (wr_fields rule) key = Some (RelationListField name limit p False)"
  shows "key \<in> fst ` set (list_inputs (read_payload rule payload)) \<longleftrightarrow> key \<in> fst ` set payload"
proof -
  have "\<exists>refs. (key, name, refs) \<in> set (list_inputs (read_payload rule payload))" if "(key, raw) \<in> set payload" for raw
  proof -
    have "\<not> refuses_value (RelationListField name limit p False) raw"
      using refused_of_mem [OF that, of rule] assms by auto
    then obtain refs where "read_entry (map_of (wr_fields rule) key) raw = EntryList name refs"
      using assms(2) by (auto simp: refuses_value_def read_entry_def split: option.splits)
    with that have "(key, EntryList name refs) \<in> set (read_payload rule payload)" by (force simp: read_payload_def)
    then show ?thesis by (force simp: list_inputs_def map_filter_mem)
  qed
  moreover have "key \<in> fst ` set payload" if "x \<in> set (list_inputs (read_payload rule payload))" "fst x = key" for x
  proof -
    obtain k c r where x: "x = (k, c, r)" by (cases x)
    from inputs_mem(1) [OF that(1) [unfolded x]] that(2) x show ?thesis by (force dest!: read_payload_mem)
  qed
  ultimately show ?thesis by force
qed

text \<open>The types whose flag repeats whether departments are targeted.\<close>

definition DEPARTMENT_FLAGS :: "(string \<times> string) list" where
  "DEPARTMENT_FLAGS = [(COURSE_UID, ''audience''), (EVENT_UID, ''notifyAudience''), (QUICK_LINK_UID, ''audience''),
     (DOCUMENT_UID, ''audience''), (POLL_UID, ''audience'')]"

definition flag_row :: "string \<Rightarrow> write_rule \<Rightarrow> bool" where
  "flag_row flag rule =
     (wr_derivedFromMerged rule = [(flag, DEPARTMENTS_FLAG)] \<and> map_of (wr_fields rule) flag = None \<and> flag \<noteq> ''departments'' \<and>
      (\<exists>name p. map_of (wr_fields rule) ''departments'' = Some (RelationListField name MAX_TARGET_DEPARTMENTS p False)) \<and>
      list_all (\<lambda>k. k \<notin> set (wr_callerFields rule) \<and> k \<notin> fst ` set (wr_derivedFields rule) \<and> k \<notin> fst ` set (wr_derivedOnCreate rule))
        [flag, ''departments''])"

lemma department_flags_aux:
  "list_all (\<lambda>(uid, c, u). case map_of DEPARTMENT_FLAGS uid of None \<Rightarrow> True
     | Some flag \<Rightarrow> list_all (\<lambda>(_, rule). flag_row flag rule) (c @ u)) (WRITE_ALLOWLIST pf)"
  by (simp add: WRITE_ALLOWLIST_def DEPARTMENT_FLAGS_def uid_defs)
    (simp add: flag_row_def rule_defs spread_def toMany_def toManyCaller_def, (intro conjI; blast))

lemma flag_row_follows:
  assumes row: "flag_row flag rule" and "applyWriteRule (JObj fs) rule env = Inr out"
  shows "case map_of out ''departments'' of
      None \<Rightarrow> map_of out flag = None
    | Some v \<Rightarrow> \<exists>ds. v = set_js ds \<and> map_of out flag = Some (JStr (if ds = [] then ''all'' else ''departments''))"
proof -
  let ?d = "''departments''"
  from row obtain name p where field: "map_of (wr_fields rule) ?d = Some (RelationListField name MAX_TARGET_DEPARTMENTS p False)"
    by (auto simp: flag_row_def)
  from assms(2) obtain payload a out' where payload: "refused_of rule payload = []"
    and a: "resolve_all rule env (read_payload rule payload) = Inr a"
    and out': "derive_create rule env (write_derived rule env payload a) = Inr out'" and out: "out = set_callers rule env out'"
    by (rule apply_steps)
  have departments: "map_of out ?d = map_of (ac_out a) ?d"
    using row stored_accepted [OF out', of ?d] by (auto simp: out map_of_set_callers flag_row_def server_set_def)
  have none: "map_of (ac_out a) flag = None" by (rule all_ok_None [OF resolve_all_ok [OF a]]) (use row in \<open>simp add: flag_row_def\<close>)
  have derived: "map_of (rev (map (\<lambda>(f, derive). (f, derive (ac_out a))) (wr_derivedFields rule))) flag = None"
    by (rule derived_fields_key) (use row in \<open>simp add: flag_row_def\<close>)
  have "map_of out flag = map_of (write_derived rule env payload a) flag"
    using row derive_create_other [OF out'] by (simp add: out map_of_set_callers flag_row_def)
  also have "\<dots> = (if ?d \<in> set (write_carried payload a) then Some (audience_flag (linked (jget (write_merged env a) ?d))) else None)"
    using row none derived
    by (simp add: write_derived_def map_of_spread derive_merged_def flag_row_def DEPARTMENTS_FLAG_def carriesAny_def)
  finally have flag: "map_of out flag = (if ?d \<in> set (write_carried payload a) then Some (audience_flag (linked (jget (write_merged env a) ?d))) else None)" .
  from resolve_all_list [OF a field] list_inputs_carried [OF payload field]
  have inv: "list_inv ?d a" and carried: "map_of (ac_out a) ?d = None \<longleftrightarrow> ?d \<notin> set (write_carried payload a)"
    by (auto simp: write_carried_def list_inv_def)
  show ?thesis
  proof (cases "map_of (ac_out a) ?d")
    case None
    with departments flag carried show ?thesis by simp
  next
    case (Some v)
    with inv obtain ds where ds: "v = set_js ds" "filter (\<lambda>p. fst p = ?d) (ac_merged a) = [(?d, JArr (map JStr ds))]" by (auto simp: list_inv_def)
    then have "jget (write_merged env a) ?d = JArr (map JStr ds)"
      using map_of_rev_filter [of "ac_merged a" ?d] by (simp add: write_merged_def jget_def map_of_spread)
    with departments flag carried Some ds(1) show ?thesis by (auto simp: linked_def audience_flag_def)
  qed
qed

text \<open>C23: The flag is written exactly when the departments are, and says all exactly when the list is cleared.\<close>

theorem flag_follows_departments:
  assumes "writeRuleFor pf uid (we_create env) cls = Some rule" "map_of DEPARTMENT_FLAGS uid = Some flag"
    "applyWriteRule (JObj fs) rule env = Inr out"
  shows "case map_of out ''departments'' of
      None \<Rightarrow> map_of out flag = None
    | Some v \<Rightarrow> \<exists>ds. v = set_js ds \<and> map_of out flag = Some (JStr (if ds = [] then ''all'' else ''departments''))"
proof (rule flag_row_follows [OF _ assms(3)])
  from assms(1) obtain c u where "(uid, c, u) \<in> set (WRITE_ALLOWLIST pf)" "(cls, rule) \<in> set (c @ u)"
    by (rule rule_cases) (auto split: if_splits)
  with department_flags_aux [of pf, unfolded list_all_iff] assms(2) show "flag_row flag rule" by fastforce
qed

definition sample_platform :: platform where
  "sample_platform = \<lparr>pf_parse = (\<lambda>_. None), pf_web = (\<lambda>_. None), pf_video = (\<lambda>_. None), pf_canon = (\<lambda>_. None), pf_fmt = (\<lambda>_ _. []),
    pf_zone = None, pf_off = (\<lambda>_. False), pf_slug = (\<lambda>s. s), pf_hex = []\<rparr>"

lemma quick_link_rule: "writeRuleFor pf QUICK_LINK_UID (we_create sample_env) ''moderator'' = Some (QUICK_LINK_MODERATOR pf)"
  by (simp add: writeRuleFor_def action_classes_def WRITE_ALLOWLIST_def uid_defs sample_env_def)

theorem flag_follows_departments_witness:
  "\<exists>ds. set_js [] = set_js ds \<and> Some (JStr ''all'') = Some (JStr (if ds = [] then ''all'' else ''departments''))"
proof -
  have "applyWriteRule (JObj [(''departments'', JNull)]) (QUICK_LINK_MODERATOR sample_platform) sample_env = Inr [(''departments'', set_js []), (''audience'', JStr ''all'')]"
    by code_simp
  from flag_follows_departments [OF quick_link_rule _ this, of "''audience''"] show ?thesis
    by (simp add: DEPARTMENT_FLAGS_def uid_defs)
qed

section \<open>Frozen fields\<close>

lemma resolve_all_value:
  assumes "resolve_all rule env (read_payload rule payload) = Inr a" "map_of (wr_fields rule) key = Some (ValueField check f)"
  shows "map_of (ac_out a) key = map_of (plain_values (read_payload rule payload)) key"
proof -
  let ?es = "read_payload rule payload"
  let ?a0 = "\<lparr>ac_out = plain_values ?es, ac_merged = plain_values ?es, ac_resolved = [], ac_noTarget = []\<rparr>"
  from assms(2) have "case map_of (wr_fields rule) key of Some (ValueField _ _) \<Rightarrow> True | Some (RelationListField _ _ _ delta) \<Rightarrow> \<not> delta | _ \<Rightarrow> False"
    by simp
  with assms(1) obtain a1 a2 where o1: "other_step key ?a0 a1" and lists: "fold_err (list_step env) (list_inputs ?es) a1 = Inr a2" and o2: "other_step key a2 a"
    by (rule resolve_all_frame)
  have "other_step key a1 a2"
    by (rule fold_other_step [OF lists]) (use assms(2) in \<open>auto dest!: list_inputs_field intro: list_step_other\<close>)
  with o1 o2 show ?thesis by (simp add: other_step_def)
qed

lemma frozen_kept:
  assumes "check_frozen rule env (frozen_changes rule env (read_payload rule payload) (ac_out a)) = Inr ()"
    and a: "resolve_all rule env (read_payload rule payload) = Inr a"
    and "map_of (wr_fields rule) k = Some (ValueField check (Some (name, same)))" "map_of (ac_out a) k = Some v"
    and "we_published env = Some p" "\<And>n. we_frozenChecks env n = Some True"
  shows "same v (jget p k)"
proof -
  from resolve_all_value [OF a assms(3)] assms(4) obtain c where c: "(k, EntryValue v c) \<in> set (read_payload rule payload)"
    using plain_values_mem by fastforce
  then obtain raw where "read_entry (map_of (wr_fields rule) k) raw = EntryValue v c" by (auto dest!: read_payload_mem)
  with assms(3) have "c" by (auto simp: read_entry_def value_entry_def split: prod.splits if_splits)
  moreover have "frozen_changes rule env (read_payload rule payload) (ac_out a) = []"
    using assms(1,6) by (auto simp: check_frozen_def split: list.splits option.splits)
  ultimately show ?thesis
    using c assms(3-5) by (auto simp: frozen_changes_def filter_empty_conv frozen_of_def jget_def)
qed

text \<open>C24: Once a published poll has a vote, a stored write keeps its options and its anonymity.\<close>

theorem poll_frozen_after_votes:
  assumes "writeRuleFor pf POLL_UID (we_create env) ''moderator'' = Some rule" "applyWriteRule (JObj fs) rule env = Inr out"
    "we_published env = Some p" "we_frozenChecks env = (\<lambda>_. Some True)"
  shows "pred_option (\<lambda>v. samePollOptions v (jget p ''options'')) (map_of out ''options'') \<and>
    pred_option (\<lambda>v. sameFlag v (jget p ''anonymous'')) (map_of out ''anonymous'')"
proof -
  have rule: "map_of (wr_fields rule) ''options'' = Some (frozen checkPollOptions samePollOptions)"
    "map_of (wr_fields rule) ''anonymous'' = Some (frozen checkBoolean sameFlag)"
    "\<not> server_set rule ''options''" "\<not> server_set rule ''anonymous''"
    "''options'' \<notin> set (wr_callerFields rule)" "''anonymous'' \<notin> set (wr_callerFields rule)"
    using assms(1)
    by (auto simp: writeRuleFor_def action_classes_def WRITE_ALLOWLIST_def uid_defs POLL_MODERATOR_def create_rule_def plain_rule_def server_set_def
        split: if_splits)
  from assms(2) obtain payload a out' where a: "resolve_all rule env (read_payload rule payload) = Inr a"
    and out': "derive_create rule env (write_derived rule env payload a) = Inr out'" and out: "out = set_callers rule env out'"
    and frozen: "check_frozen rule env (frozen_changes rule env (read_payload rule payload) (ac_out a)) = Inr ()"
    by (rule apply_steps)
  have holds: "\<And>n. we_frozenChecks env n = Some True" using assms(4) by simp
  note kept = frozen_kept [OF frozen a _ _ assms(3) holds]
  have "map_of out ''options'' = map_of (ac_out a) ''options''" "map_of out ''anonymous'' = map_of (ac_out a) ''anonymous''"
    using rule(5,6) by (simp_all add: out map_of_set_callers stored_accepted [OF out' rule(3)] stored_accepted [OF out' rule(4)])
  with kept [OF rule(1) [unfolded frozen_def]] kept [OF rule(2) [unfolded frozen_def]] show ?thesis
    by (auto simp: pred_option_def)
qed

definition voted_env :: write_env where
  "voted_env = sample_env\<lparr>we_frozenChecks := (\<lambda>_. Some True), we_published := Some [(''anonymous'', JBool True)]\<rparr>"

lemma poll_kept_written:
  "applyWriteRule (JObj [(''anonymous'', JBool True)]) (POLL_MODERATOR sample_platform) voted_env = Inr [(''anonymous'', JBool True)]"
  "applyWriteRule (JObj [(''anonymous'', JBool False)]) (POLL_MODERATOR sample_platform) voted_env = Inl (Refused [''anonymous''] [(''anonymous'', ''frozenAfterVotes'')])"
  by code_simp+

theorem poll_frozen_after_votes_witness:
  "pred_option (\<lambda>v. sameFlag v (JBool True)) (map_of [(''anonymous'', JBool True)] ''anonymous'')"
proof -
  have "writeRuleFor sample_platform POLL_UID (we_create voted_env) ''moderator'' = Some (POLL_MODERATOR sample_platform)"
    by (simp add: writeRuleFor_def action_classes_def WRITE_ALLOWLIST_def uid_defs voted_env_def sample_env_def)
  from poll_frozen_after_votes [OF this poll_kept_written(1)] show ?thesis by (simp add: voted_env_def)
qed

section \<open>Department authors\<close>

definition MODERATOR_ONLY :: "string list" where
  "MODERATOR_ONLY = [''pinned'', ''requiresAck'', ''ackDeadline'', ''publishAt'', ''unpublishAt'', ''guestsCanVote'', ''visibleToGuests'']"

definition author_row :: "write_rule \<Rightarrow> bool" where
  "author_row rule =
     (wr_derivedOnCreate rule = [(''ownerDepartment'', OWNER_DEPARTMENT)] \<and> ''ownerDepartment'' \<notin> set (wr_callerFields rule) \<and>
      list_all (\<lambda>k. map_of (wr_fields rule) k = None \<and> k \<notin> set (wr_callerFields rule) \<and> \<not> server_set rule k) MODERATOR_ONLY)"

lemma author_rows_aux:
  "list_all (\<lambda>(uid, c, u). list_all (\<lambda>(cls, rule). cls = ''departmentAuthor'' \<longrightarrow> author_row rule) c) (WRITE_ALLOWLIST pf)"
  by (simp add: WRITE_ALLOWLIST_def uid_defs) (simp add: author_row_def MODERATOR_ONLY_def server_set_def rule_defs spread_def)

text \<open>What a department author creates belongs to the author's department and has no field of the moderators.\<close>

theorem author_creates_for_own_department:
  assumes "writeRuleFor pf uid (we_create env) ''departmentAuthor'' = Some rule" "we_create env" "applyWriteRule (JObj fs) rule env = Inr out"
  shows "\<exists>i d. we_callerDepartment env = Some (i, d) \<and> map_of out ''ownerDepartment'' = Some (set_js [d]) \<and>
    list_all (\<lambda>k. map_of out k = None) MODERATOR_ONLY"
proof -
  from assms(1,2) author_rows_aux [of pf, unfolded list_all_iff] have row: "author_row rule"
    by (auto elim!: rule_cases) fastforce
  from assms(3) obtain payload a out' where a: "resolve_all rule env (read_payload rule payload) = Inr a"
    and out': "derive_create rule env (write_derived rule env payload a) = Inr out'" and out: "out = set_callers rule env out'"
    by (rule apply_steps)
  from row out' assms(2) obtain i d where d: "we_callerDepartment env = Some (i, d)" "map_of out' ''ownerDepartment'' = Some (set_js [d])"
    by (auto simp: author_row_def derive_create_def OWNER_DEPARTMENT_def split: sum.splits option.splits)
  have "map_of out k = None" if "k \<in> set MODERATOR_ONLY" for k
  proof -
    from row that have k: "map_of (wr_fields rule) k = None" "k \<notin> set (wr_callerFields rule)" "\<not> server_set rule k"
      by (auto simp: author_row_def list_all_iff)
    with stored_accepted [OF out' k(3)] all_ok_None [OF resolve_all_ok [OF a] k(1)] show ?thesis
      by (simp add: out map_of_set_callers)
  qed
  with d row show ?thesis by (auto simp: out map_of_set_callers author_row_def list_all_iff)
qed

lemma document_created:
  "applyWriteRule (JObj [(''title'', JStr ''Form'')]) (create_rule (DOCUMENT_DEPARTMENT_AUTHOR sample_platform) ''uploadedBy'' True) (sample_env\<lparr>we_create := True\<rparr>) =
   Inr [(''title'', JStr ''Form''), (''departments'', set_js [''d1'']), (''audience'', JStr ''departments''),
     (''ownerDepartment'', set_js [''hr'']), (''uploadedBy'', JInt 3)]"
  by code_simp

theorem author_creates_for_own_department_witness:
  "\<exists>i d. we_callerDepartment (sample_env\<lparr>we_create := True\<rparr>) = Some (i, d) \<and> set_js [''hr''] = set_js [d]"
proof -
  have "writeRuleFor sample_platform DOCUMENT_UID (we_create (sample_env\<lparr>we_create := True\<rparr>)) ''departmentAuthor'' =
      Some (create_rule (DOCUMENT_DEPARTMENT_AUTHOR sample_platform) ''uploadedBy'' True)"
    by (simp add: writeRuleFor_def action_classes_def WRITE_ALLOWLIST_def uid_defs)
  from author_creates_for_own_department [OF this _ document_created]
  show ?thesis by (simp add: sample_env_def MODERATOR_ONLY_def)
qed

end
