(* ===== verification/Rsvp.thy ===== *)
theory Rsvp imports Roles PlainDate "HOL-Library.Product_Lexorder" begin

text \<open>
  Answers to events: the pure rules (\<open>apps/cms/src/utils/rsvp.ts\<close>), the handlers of
  \<open>api/event-rsvp/controllers/event-rsvp.ts\<close> with the gates of their routes, and the nightly retention
  (\<open>cron/prune-rsvps.ts\<close>). A handler runs alone on the database here; \<open>new Date(s).getTime()\<close> on text is the
  parameter \<open>dparse\<close>, the id and documentId of an inserted row are the database's.
\<close>

section \<open>Rows\<close>

definition RSVP_STATUSES :: "string list" where
  "RSVP_STATUSES = [''yes'', ''no'', ''maybe'']"

definition isRsvpStatus :: "js \<Rightarrow> bool" where
  "isRsvpStatus v = is_string_in v RSVP_STATUSES"

record rsvp_user =
  ru_id :: js
  ru_displayName :: js
  ru_blocked :: js

record rsvp_row =
  rv_id :: int
  rv_documentId :: string
  rv_status :: js
  rv_respondedAt :: "instant option"
  rv_target :: js
  rv_user :: "rsvp_user option"

definition respondedTime :: "(string \<Rightarrow> int option) \<Rightarrow> rsvp_row \<Rightarrow> int" where
  "respondedTime dparse row =
     (case rv_respondedAt row of
        None \<Rightarrow> 0
      | Some (IDate d) \<Rightarrow> (case d of None \<Rightarrow> 0 | Some t \<Rightarrow> t)
      | Some (IText s) \<Rightarrow> if s = [] then 0 else (case dparse s of None \<Rightarrow> 0 | Some t \<Rightarrow> t))"

text \<open>Negative where \<open>a\<close> is the newer.\<close>

definition compareNewestFirst :: "(string \<Rightarrow> int option) \<Rightarrow> rsvp_row \<Rightarrow> rsvp_row \<Rightarrow> int" where
  "compareNewestFirst dparse a b =
     (let d = respondedTime dparse b - respondedTime dparse a in if d \<noteq> 0 then d else rv_id b - rv_id a)"

definition newest_key :: "(string \<Rightarrow> int option) \<Rightarrow> rsvp_row \<Rightarrow> int \<times> int" where
  "newest_key dparse r = (- respondedTime dparse r, - rv_id r)"

text \<open>The stable sort by the comparison: by the key it compares.\<close>

definition newestFirst :: "(string \<Rightarrow> int option) \<Rightarrow> rsvp_row list \<Rightarrow> rsvp_row list" where
  "newestFirst dparse rows = sort_key (newest_key dparse) rows"

definition pickSurvivor :: "(string \<Rightarrow> int option) \<Rightarrow> rsvp_row list \<Rightarrow> rsvp_row option" where
  "pickSurvivor dparse rows = (case newestFirst dparse rows of [] \<Rightarrow> None | r # _ \<Rightarrow> Some r)"

definition rowUserId :: "rsvp_row \<Rightarrow> int option" where
  "rowUserId row = (case rv_user row of None \<Rightarrow> None | Some u \<Rightarrow> (case ru_id u of JInt n \<Rightarrow> Some n | _ \<Rightarrow> None))"

text \<open>The Map both rules group by: key to rows in the order they come.\<close>

definition push_row :: "'k \<Rightarrow> rsvp_row \<Rightarrow> ('k, rsvp_row list) jmap \<Rightarrow> ('k, rsvp_row list) jmap" where
  "push_row k row m = (case map_of m k of Some rows \<Rightarrow> AList.update k (rows @ [row]) m | None \<Rightarrow> AList.update k [row] m)"

definition group_rows :: "(rsvp_row \<Rightarrow> 'k option) \<Rightarrow> rsvp_row list \<Rightarrow> ('k, rsvp_row list) jmap" where
  "group_rows key rows = fold (\<lambda>r m. case key r of None \<Rightarrow> m | Some k \<Rightarrow> push_row k r m) rows []"

definition seatHolders :: "(string \<Rightarrow> int option) \<Rightarrow> rsvp_row list \<Rightarrow> int option \<Rightarrow> nat" where
  "seatHolders dparse rows exclude =
     (let byUser = group_rows (\<lambda>r. case rowUserId r of None \<Rightarrow> None | Some i \<Rightarrow> if exclude = Some i then None else Some i) rows in
      length (filter (\<lambda>(_, list). case pickSurvivor dparse list of None \<Rightarrow> False | Some r \<Rightarrow> rv_status r = JStr ''yes'') byUser))"

text \<open>Whether the event is full.\<close>

definition capacityDecision :: "js \<Rightarrow> nat \<Rightarrow> bool" where
  "capacityDecision capacity yesUsers = (case capacity of JInt n \<Rightarrow> if n \<le> 0 then False else n \<le> int yesUsers | _ \<Rightarrow> False)"

section \<open>Reading\<close>

definition stripPrivateUsers :: "rsvp_row list \<Rightarrow> user_row option \<Rightarrow> rsvp_row list" where
  "stripPrivateUsers rows caller =
     (if hasRole caller [ADMIN] then rows
      else map (\<lambda>r. if rv_status r = JStr ''yes'' then r
        else if (case caller of None \<Rightarrow> False | Some c \<Rightarrow> (case rv_user r of None \<Rightarrow> False | Some u \<Rightarrow> ru_id u = JInt (ur_id c))) then r
        else r\<lparr>rv_user := None\<rparr>) rows)"

text \<open>The work list of \<open>filtersReferenceUser\<close>; a parsed query is a tree, so no object is met twice.\<close>

definition names_user :: "string \<Rightarrow> bool" where
  "names_user key = (key = ''user'' \<or> take 5 key = ''user.'')"

function pending_user :: "js list \<Rightarrow> bool" where
  "pending_user [] = False"
| "pending_user (node # pending) =
     (case node of
        JArr xs \<Rightarrow> pending_user (rev xs @ pending)
      | JObj fs \<Rightarrow> if list_ex (\<lambda>(k, _). names_user k) fs then True else pending_user (rev (map snd fs) @ pending)
      | _ \<Rightarrow> pending_user pending)"
  by pat_completeness auto

fun js_nodes :: "js \<Rightarrow> nat" where
  "js_nodes (JArr xs) = Suc (sum_list (map js_nodes xs))"
| "js_nodes (JObj fs) = Suc (sum_list (map (\<lambda>(_, v). js_nodes v) fs))"
| "js_nodes _ = 1"

lemma js_nodes_rev: "sum_list (map js_nodes (rev xs)) = sum_list (map js_nodes xs)"
  by (simp add: rev_map [symmetric] sum_list_rev)

lemma js_nodes_values: "sum_list (map js_nodes (map snd fs)) = sum_list (map (\<lambda>(_, v). js_nodes v) fs)"
  by (induction fs) auto

termination pending_user
  by (relation "measure (\<lambda>ns. sum_list (map js_nodes ns))")
    (auto simp del: map_map simp: js_nodes_rev js_nodes_values rev_map [symmetric] gr0_conv_Suc)

definition filtersReferenceUser :: "js \<Rightarrow> bool" where
  "filtersReferenceUser filters = pending_user [filters]"

text \<open>\<open>String(item).trim() !== ""\<close>: only empty text, an empty list, or a list of such values is blank.\<close>

fun blank_text :: "js \<Rightarrow> bool" where
  "blank_text (JStr s) = (trim s = [])"
| "blank_text (JArr xs) = (case xs of [] \<Rightarrow> True | [x] \<Rightarrow> nullish x \<or> blank_text x | _ \<Rightarrow> False)"
| "blank_text _ = False"

definition requestsLegacyFormat :: "js \<Rightarrow> bool" where
  "requestsLegacyFormat headers =
     (case headers of
        JObj fs \<Rightarrow>
          (case jget fs ''strapi-response-format'' of
             JArr xs \<Rightarrow> list_ex (\<lambda>item. \<not> blank_text item) xs
           | v \<Rightarrow> \<not> nullish v \<and> \<not> blank_text v)
      | _ \<Rightarrow> False)"

definition refusesLegacyFormat :: "user_row option \<Rightarrow> js \<Rightarrow> bool" where
  "refusesLegacyFormat user headers = (if hasRole user [ADMIN] then False else requestsLegacyFormat headers)"

section \<open>The summary\<close>

definition MAX_SUMMARY_TARGETS :: nat where "MAX_SUMMARY_TARGETS = 50"

fun add_ids :: "string list \<Rightarrow> string list \<Rightarrow> string list option" where
  "add_ids [] targets = Some targets"
| "add_ids (i # rest) targets =
     (if \<not> is_document_id i then None else add_ids rest (if i \<in> set targets then targets else targets @ [i]))"

fun add_parts :: "js list \<Rightarrow> string list \<Rightarrow> string list option" where
  "add_parts [] targets = Some targets"
| "add_parts (part # parts) targets =
     (case part of
        JStr s \<Rightarrow> (case add_ids (split_on CHR '','' s) targets of None \<Rightarrow> None | Some t \<Rightarrow> add_parts parts t)
      | _ \<Rightarrow> None)"

definition parseSummaryTargets :: "js \<Rightarrow> string + string list" where
  "parseSummaryTargets raw =
     (let parts = (case raw of JStr _ \<Rightarrow> [raw] | JArr xs \<Rightarrow> xs | _ \<Rightarrow> if nullish raw then [] else [raw]) in
      case add_parts parts [] of
        None \<Rightarrow> Inl ''Invalid targets''
      | Some targets \<Rightarrow>
          if targets = [] then Inl ''targets required''
          else if length targets > MAX_SUMMARY_TARGETS then Inl ''At most 50 targets''
          else Inr targets)"

record rsvp_summary =
  rs_target :: string
  rs_yes :: nat
  rs_maybe :: nat
  rs_no :: nat
  rs_names :: "string list"
  rs_mine :: "string option"

definition no_answers :: "string \<Rightarrow> rsvp_summary" where
  "no_answers target = \<lparr>rs_target = target, rs_yes = 0, rs_maybe = 0, rs_no = 0, rs_names = [], rs_mine = None\<rparr>"

text \<open>The key of an answer: its event, and its user or, without one, the row itself.\<close>

definition answer_key :: "string list \<Rightarrow> rsvp_row \<Rightarrow> (string \<times> (int + int)) option" where
  "answer_key targets row =
     (case rv_target row of
        JStr t \<Rightarrow> if t \<in> set targets then Some (t, case rowUserId row of Some u \<Rightarrow> Inl u | None \<Rightarrow> Inr (rv_id row)) else None
      | _ \<Rightarrow> None)"

definition shown_name :: "rsvp_row \<Rightarrow> string option" where
  "shown_name row =
     (case rv_user row of
        None \<Rightarrow> None
      | Some u \<Rightarrow> if ru_blocked u = JBool True then None
          else (case ru_displayName u of JStr s \<Rightarrow> if s = [] then None else Some s | _ \<Rightarrow> None))"

definition count_answer :: "int option \<Rightarrow> rsvp_row \<Rightarrow> rsvp_summary \<Rightarrow> rsvp_summary" where
  "count_answer callerId row s =
     (let s1 = (if rv_status row = JStr ''yes''
                then s\<lparr>rs_yes := rs_yes s + 1, rs_names := rs_names s @ (case shown_name row of None \<Rightarrow> [] | Some n \<Rightarrow> [n])\<rparr>
                else if rv_status row = JStr ''maybe'' then s\<lparr>rs_maybe := rs_maybe s + 1\<rparr>
                else s\<lparr>rs_no := rs_no s + 1\<rparr>) in
      if callerId \<noteq> None \<and> rowUserId row = callerId
      then s1\<lparr>rs_mine := (case rv_status row of JStr t \<Rightarrow> Some t | _ \<Rightarrow> None)\<rparr> else s1)"

definition tally_row :: "int option \<Rightarrow> rsvp_row \<Rightarrow> (string, rsvp_summary) jmap \<Rightarrow> (string, rsvp_summary) jmap" where
  "tally_row callerId row m =
     (case rv_target row of
        JStr t \<Rightarrow> (case map_of m t of
            None \<Rightarrow> m
          | Some s \<Rightarrow> if \<not> isRsvpStatus (rv_status row) then m else AList.update t (count_answer callerId row s) m)
      | _ \<Rightarrow> m)"

text \<open>Oldest first: the comparison with its arguments swapped.\<close>

definition oldest_key :: "(string \<Rightarrow> int option) \<Rightarrow> rsvp_row \<Rightarrow> int \<times> int" where
  "oldest_key dparse r = (respondedTime dparse r, rv_id r)"

definition survivors :: "(string \<Rightarrow> int option) \<Rightarrow> string list \<Rightarrow> rsvp_row list \<Rightarrow> rsvp_row list" where
  "survivors dparse targets rows =
     sort_key (oldest_key dparse) (List.map_filter (\<lambda>(_, list). pickSurvivor dparse list) (group_rows (answer_key targets) rows))"

definition summarizeRsvps :: "(string \<Rightarrow> int option) \<Rightarrow> rsvp_row list \<Rightarrow> string list \<Rightarrow> int option \<Rightarrow> rsvp_summary list" where
  "summarizeRsvps dparse rows targets callerId =
     (let byTarget = fold (\<lambda>t. AList.update t (no_answers t)) targets [];
          counted = fold (tally_row callerId) (survivors dparse targets rows) byTarget in
      map (\<lambda>t. the (map_of counted t)) targets)"

section \<open>Handlers\<close>

record event_row =
  er_documentId :: string
  er_published :: bool
  er_rsvpEnabled :: js
  er_capacity :: js
  er_start :: "instant option"
  er_end :: "instant option"

record rsvp_db =
  rd_rows :: "rsvp_row list"
  rd_events :: "event_row list"

datatype rsvp_answer =
    RsvpUnauthorized
  | RsvpBadRequest string
  | RsvpNotFound
  | RsvpForbidden
  | RsvpSent rsvp_row

fun js_truthy :: "js \<Rightarrow> bool" where
  "js_truthy (JBool b) = b"
| "js_truthy (JInt n) = (n \<noteq> 0)"
| "js_truthy (JFrac q) = (q \<noteq> 0)"
| "js_truthy (JStr s) = (s \<noteq> [])"
| "js_truthy (JArr _) = True"
| "js_truthy (JObj _) = True"
| "js_truthy _ = False"

definition prop_of :: "js \<Rightarrow> string \<Rightarrow> js" where
  "prop_of v k = (case v of JObj fs \<Rightarrow> jget fs k | _ \<Rightarrow> JUndef)"

text \<open>\<open>body.data ?? body\<close>.\<close>

definition rsvp_input :: "js \<Rightarrow> js" where
  "rsvp_input body = (let d = prop_of body ''data'' in if nullish d then body else d)"

definition published_event :: "rsvp_db \<Rightarrow> js \<Rightarrow> event_row option" where
  "published_event db target = find (\<lambda>e. target = JStr (er_documentId e) \<and> er_published e) (rd_events db)"

definition open_event :: "rsvp_db \<Rightarrow> js \<Rightarrow> event_row option" where
  "open_event db target = (case published_event db target of None \<Rightarrow> None | Some e \<Rightarrow> if js_truthy (er_rsvpEnabled e) then Some e else None)"

definition rows_of :: "rsvp_db \<Rightarrow> js \<Rightarrow> rsvp_row list" where
  "rows_of db target = filter (\<lambda>r. rv_target r = target) (rd_rows db)"

definition countYesUsers :: "(string \<Rightarrow> int option) \<Rightarrow> rsvp_db \<Rightarrow> string \<Rightarrow> int option \<Rightarrow> nat" where
  "countYesUsers dparse db target exclude = seatHolders dparse (rows_of db (JStr target)) exclude"

definition MAX_SAFE_INTEGER :: nat where "MAX_SAFE_INTEGER = 9007199254740991"

definition isAtCapacity :: "(string \<Rightarrow> int option) \<Rightarrow> rsvp_db \<Rightarrow> event_row \<Rightarrow> int option \<Rightarrow> bool" where
  "isAtCapacity dparse db e userId =
     (if \<not> capacityDecision (er_capacity e) MAX_SAFE_INTEGER then False
      else capacityDecision (er_capacity e) (countYesUsers dparse db (er_documentId e) userId))"

definition delete_row :: "int \<Rightarrow> rsvp_db \<Rightarrow> rsvp_db" where
  "delete_row i db = db\<lparr>rd_rows := filter (\<lambda>r. rv_id r \<noteq> i) (rd_rows db)\<rparr>"

definition own_rows :: "rsvp_db \<Rightarrow> int \<Rightarrow> js \<Rightarrow> rsvp_row list" where
  "own_rows db userId target = filter (\<lambda>r. rowUserId r = Some userId \<and> rv_target r = target) (rd_rows db)"

text \<open>\<open>POST /api/event-rsvps\<close>: \<open>fresh\<close> is the id and documentId of the row the database would insert; an answer has no relations.\<close>

definition rsvp_create ::
  "(string \<Rightarrow> int option) \<Rightarrow> user_row option \<Rightarrow> js \<Rightarrow> int \<Rightarrow> int \<times> string \<Rightarrow> rsvp_db \<Rightarrow> rsvp_answer \<times> rsvp_db" where
  "rsvp_create dparse caller body now fresh db =
     (case caller of
        None \<Rightarrow> (RsvpUnauthorized, db)
      | Some user \<Rightarrow>
        let data = rsvp_input body; target = prop_of data ''targetDocumentId''; status = prop_of data ''status'' in
        (case target of
           JStr t \<Rightarrow>
             if t = [] then (RsvpBadRequest ''targetDocumentId required'', db)
             else if \<not> isRsvpStatus status then (RsvpBadRequest ''Invalid status'', db)
             else (case open_event db target of
                 None \<Rightarrow> (RsvpBadRequest ''Event not available for RSVP'', db)
               | Some e \<Rightarrow>
                 let existingRows = newestFirst dparse (own_rows db (ur_id user) target);
                     db1 = fold (\<lambda>stale. delete_row (rv_id stale)) (tl existingRows) db;
                     existing = (case existingRows of [] \<Rightarrow> None | r # _ \<Rightarrow> Some r) in
                 if status = JStr ''yes'' \<and> (case existing of None \<Rightarrow> True | Some r \<Rightarrow> rv_status r \<noteq> JStr ''yes'')
                    \<and> isAtCapacity dparse db1 e (Some (ur_id user))
                 then (RsvpBadRequest ''Event is at capacity'', db1)
                 else (case existing of
                     Some r \<Rightarrow>
                       let r' = r\<lparr>rv_status := status, rv_respondedAt := Some (IDate (Some now))\<rparr> in
                       (RsvpSent (r'\<lparr>rv_user := None\<rparr>), db1\<lparr>rd_rows := map (\<lambda>x. if rv_id x = rv_id r then x\<lparr>rv_status := status, rv_respondedAt := Some (IDate (Some now))\<rparr> else x) (rd_rows db1)\<rparr>)
                   | None \<Rightarrow>
                       let r' = \<lparr>rv_id = fst fresh, rv_documentId = snd fresh, rv_status = status, rv_respondedAt = Some (IDate (Some now)),
                           rv_target = target,
                           rv_user = Some \<lparr>ru_id = JInt (ur_id user), ru_displayName = ur_displayName user, ru_blocked = ur_blocked user\<rparr>\<rparr> in
                       (RsvpSent (r'\<lparr>rv_user := None\<rparr>), db1\<lparr>rd_rows := rd_rows db1 @ [r']\<rparr>)))
         | _ \<Rightarrow> (RsvpBadRequest ''targetDocumentId required'', db)))"

text \<open>\<open>GET /api/event-rsvps/summary\<close>.\<close>

datatype summary_answer = SummaryUnauthorized | SummaryBadRequest string | SummarySent "rsvp_summary list"

definition rsvp_summary_action :: "(string \<Rightarrow> int option) \<Rightarrow> user_row option \<Rightarrow> js \<Rightarrow> rsvp_db \<Rightarrow> summary_answer" where
  "rsvp_summary_action dparse caller raw db =
     (case caller of
        None \<Rightarrow> SummaryUnauthorized
      | Some user \<Rightarrow>
        (case parseSummaryTargets raw of
           Inl e \<Rightarrow> SummaryBadRequest e
         | Inr parsed \<Rightarrow>
           let targets = filter (\<lambda>t. list_ex (\<lambda>e. er_documentId e = t \<and> er_published e) (rd_events db)) parsed in
           if targets = [] then SummarySent []
           else SummarySent (summarizeRsvps dparse (filter (\<lambda>r. rv_target r \<in> JStr ` set targets) (rd_rows db)) targets (Some (ur_id user)))))"

definition find_rsvp :: "rsvp_db \<Rightarrow> js \<Rightarrow> rsvp_row option" where
  "find_rsvp db idParam =
     (case parseEntryRef idParam of
        None \<Rightarrow> None
      | Some (RefId i) \<Rightarrow> find (\<lambda>r. rv_id r = i) (rd_rows db)
      | Some (RefDocument d) \<Rightarrow> find (\<lambda>r. rv_documentId r = d) (rd_rows db))"

text \<open>\<open>global::is-event-rsvp-owner\<close>, the gate of the update route.\<close>

definition rsvp_owner_gate :: "user_row option \<Rightarrow> js \<Rightarrow> rsvp_db \<Rightarrow> bool" where
  "rsvp_owner_gate caller idParam db =
     (case caller of
        None \<Rightarrow> False
      | Some user \<Rightarrow>
        if hasRole caller [ADMIN] then True
        else if \<not> is_row_id (ur_id user) then False
        else (case find_rsvp db idParam of
            None \<Rightarrow> False
          | Some r \<Rightarrow> (case rv_user r of None \<Rightarrow> False | Some u \<Rightarrow> ru_id u = JInt (ur_id user))))"

text \<open>\<open>PUT /api/event-rsvps/:id\<close>; the core update writes the rows of the document.\<close>

definition rsvp_update ::
  "(string \<Rightarrow> int option) \<Rightarrow> user_row option \<Rightarrow> js \<Rightarrow> js \<Rightarrow> int \<Rightarrow> rsvp_db \<Rightarrow> rsvp_answer \<times> rsvp_db" where
  "rsvp_update dparse caller idParam body now db =
     (case caller of
        None \<Rightarrow> (RsvpUnauthorized, db)
      | Some _ \<Rightarrow>
        (case find_rsvp db idParam of
           None \<Rightarrow> (RsvpNotFound, db)
         | Some entity \<Rightarrow>
           let status = prop_of (rsvp_input body) ''status'' in
           if \<not> isRsvpStatus status then (RsvpBadRequest ''Invalid status'', db)
           else if status = JStr ''yes'' \<and> rv_status entity \<noteq> JStr ''yes'' \<and> open_event db (rv_target entity) = None
           then (RsvpBadRequest ''Event not available for RSVP'', db)
           else if status = JStr ''yes'' \<and> rv_status entity \<noteq> JStr ''yes'' \<and>
             isAtCapacity dparse db (the (open_event db (rv_target entity))) (rowUserId entity)
           then (RsvpBadRequest ''Event is at capacity'', db)
           else let change = (\<lambda>x. x\<lparr>rv_status := status, rv_respondedAt := Some (IDate (Some now))\<rparr>) in
             (RsvpSent ((change entity)\<lparr>rv_user := None\<rparr>),
              db\<lparr>rd_rows := map (\<lambda>x. if rv_documentId x = rv_documentId entity then change x else x) (rd_rows db)\<rparr>)))"

definition rsvp_put ::
  "(string \<Rightarrow> int option) \<Rightarrow> user_row option \<Rightarrow> js \<Rightarrow> js \<Rightarrow> int \<Rightarrow> rsvp_db \<Rightarrow> rsvp_answer \<times> rsvp_db" where
  "rsvp_put dparse caller idParam body now db =
     (if rsvp_owner_gate caller idParam db then rsvp_update dparse caller idParam body now db else (RsvpForbidden, db))"

section \<open>Retention\<close>

definition RSVP_RETENTION_DAYS :: int where "RSVP_RETENTION_DAYS = 180"
definition RSVP_PRUNE_MAX_EVENTS :: nat where "RSVP_PRUNE_MAX_EVENTS = 500"
definition DAY_MS :: int where "DAY_MS = 86400000"

text \<open>\<open>instantMsOrNull\<close> of text is the parameter \<open>tparse\<close> (Temporal, strict).\<close>

definition msOf :: "(string \<Rightarrow> int option) \<Rightarrow> instant option \<Rightarrow> int option" where
  "msOf tparse v =
     (case v of
        None \<Rightarrow> None
      | Some (IDate d) \<Rightarrow> d
      | Some (IText s) \<Rightarrow> if s = [] then None else tparse (trim s))"

definition rsvpsExpired :: "(string \<Rightarrow> int option) \<Rightarrow> event_row list \<Rightarrow> int \<Rightarrow> int \<Rightarrow> bool" where
  "rsvpsExpired tparse rows now days =
     (if rows = [] then True
      else let cutoff = now - days * DAY_MS in
        list_all (\<lambda>e. let end' = (if er_end e = None \<or> er_end e = Some (IText []) then er_start e else er_end e) in
          case msOf tparse end' of None \<Rightarrow> False | Some ms \<Rightarrow> ms < cutoff) rows)"

definition event_rows :: "rsvp_db \<Rightarrow> string \<Rightarrow> event_row list" where
  "event_rows db d = filter (\<lambda>e. er_documentId e = d) (rd_events db)"

definition delete_answers :: "string \<Rightarrow> rsvp_db \<Rightarrow> nat \<times> rsvp_db" where
  "delete_answers d db = (length (rows_of db (JStr d)), db\<lparr>rd_rows := filter (\<lambda>r. rv_target r \<noteq> JStr d) (rd_rows db)\<rparr>)"

text \<open>One event, on the rows \<open>seen\<close> under its lock.\<close>

definition pruneEvent :: "(string \<Rightarrow> int option) \<Rightarrow> string \<Rightarrow> bool \<Rightarrow> int \<Rightarrow> rsvp_db \<Rightarrow> nat \<times> rsvp_db" where
  "pruneEvent tparse d exists' now db =
     (if \<not> exists' then delete_answers d db
      else if \<not> rsvpsExpired tparse (event_rows db d) now RSVP_RETENTION_DAYS then (0, db)
      else delete_answers d db)"

definition answered :: "rsvp_db \<Rightarrow> string list" where
  "answered db = remdups (List.map_filter (\<lambda>r. case rv_target r of JStr s \<Rightarrow> if s = [] then None else Some s | _ \<Rightarrow> None) (rd_rows db))"

text \<open>The run: the events are read once, \<open>between\<close> is what commits before each deletion, \<open>fails\<close> the events whose deletion throws.\<close>

fun prune_loop ::
  "(string \<Rightarrow> int option) \<Rightarrow> (string \<Rightarrow> rsvp_db \<Rightarrow> rsvp_db) \<Rightarrow> (string \<Rightarrow> bool) \<Rightarrow> (string \<Rightarrow> bool) \<Rightarrow> int \<Rightarrow> string list \<Rightarrow> nat \<times> rsvp_db \<Rightarrow> nat \<times> rsvp_db" where
  "prune_loop tparse between fails exists' now [] (n, db) = (n, db)"
| "prune_loop tparse between fails exists' now (d # due) (n, db) =
     (let db1 = between d db in
      if fails d then prune_loop tparse between fails exists' now due (n, db1)
      else let (k, db2) = pruneEvent tparse d (exists' d) now db1 in prune_loop tparse between fails exists' now due (n + k, db2))"

definition pruneRsvps ::
  "(string \<Rightarrow> int option) \<Rightarrow> (string \<Rightarrow> rsvp_db \<Rightarrow> rsvp_db) \<Rightarrow> (string \<Rightarrow> bool) \<Rightarrow> int \<Rightarrow> rsvp_db \<Rightarrow> nat \<times> rsvp_db" where
  "pruneRsvps tparse between fails now db =
     (let due = filter (\<lambda>d. rsvpsExpired tparse (event_rows db d) now RSVP_RETENTION_DAYS) (answered db) in
      prune_loop tparse between fails (\<lambda>d. event_rows db d \<noteq> []) now (take RSVP_PRUNE_MAX_EVENTS due) (0, db))"

section \<open>Groups and survivors\<close>

lemma group_rows_snoc:
  "group_rows key (rows @ [r]) = (case key r of None \<Rightarrow> group_rows key rows | Some k \<Rightarrow> push_row k r (group_rows key rows))"
  unfolding group_rows_def by simp

lemma push_row_ok [simp]: "jmap_ok m \<Longrightarrow> jmap_ok (push_row k r m)"
  by (simp add: push_row_def split: option.splits)

lemma group_rows_ok [simp]: "jmap_ok (group_rows key rows)"
  by (induction rows rule: rev_induct) (auto simp: group_rows_snoc group_rows_def [of key "[]"] split: option.splits)

lemma map_of_group_rows:
  "map_of (group_rows key rows) k = (if filter (\<lambda>r. key r = Some k) rows = [] then None else Some (filter (\<lambda>r. key r = Some k) rows))"
  by (induction rows rule: rev_induct)
    (auto simp: group_rows_snoc group_rows_def [of key "[]"] push_row_def jmap_simps split: option.splits if_splits)

lemma length_filter_jmap:
  assumes "jmap_ok m"
  shows "length (filter (\<lambda>(k, v). P v) m) = card {k. \<exists>v. map_of m k = Some v \<and> P v}"
proof -
  have "distinct (map fst (filter (\<lambda>(k, v). P v) m))" using assms by (simp add: jmap_ok_def distinct_map_filter)
  then have "card (fst ` set (filter (\<lambda>(k, v). P v) m)) = length (filter (\<lambda>(k, v). P v) m)"
    by (metis distinct_card length_map set_map)
  moreover have "fst ` set (filter (\<lambda>(k, v). P v) m) = {k. \<exists>v. map_of m k = Some v \<and> P v}"
    using assms by (force simp: jmap_ok_def dest: map_of_SomeD)
  ultimately show ?thesis by simp
qed

lemma pickSurvivor_Nil [simp]: "pickSurvivor dparse [] = None"
  by (simp add: pickSurvivor_def newestFirst_def)

lemma pickSurvivor_single [simp]: "pickSurvivor dparse [r] = Some r"
  by (simp add: pickSurvivor_def newestFirst_def)

lemma pickSurvivor_eq_None [simp]: "pickSurvivor dparse rows = None \<longleftrightarrow> rows = []"
  by (auto simp: pickSurvivor_def newestFirst_def split: list.splits dest: arg_cong [of _ _ set])

lemma pickSurvivor_mem: "pickSurvivor dparse rows = Some r \<Longrightarrow> r \<in> set rows"
  by (auto simp: pickSurvivor_def newestFirst_def split: list.splits) (metis list.set_intros(1) set_sort)

text \<open>Whether a user holds a seat: the newest of their rows says yes.\<close>

definition holds_seat :: "(string \<Rightarrow> int option) \<Rightarrow> rsvp_row list \<Rightarrow> int \<Rightarrow> bool" where
  "holds_seat dparse rows u = (case pickSurvivor dparse (filter (\<lambda>r. rowUserId r = Some u) rows) of None \<Rightarrow> False | Some r \<Rightarrow> rv_status r = JStr ''yes'')"

lemma seatHolders_card: "seatHolders dparse rows exclude = card {u. exclude \<noteq> Some u \<and> holds_seat dparse rows u}"
proof -
  let ?key = "\<lambda>r. case rowUserId r of None \<Rightarrow> None | Some i \<Rightarrow> if exclude = Some i then None else Some i"
  have "filter (\<lambda>r. ?key r = Some u) rows = (if exclude = Some u then [] else filter (\<lambda>r. rowUserId r = Some u) rows)" for u
    by (auto intro!: filter_cong [OF refl] simp: filter_empty_conv split: option.splits if_splits)
  then have "{u. \<exists>v. map_of (group_rows ?key rows) u = Some v \<and> (case pickSurvivor dparse v of None \<Rightarrow> False | Some r \<Rightarrow> rv_status r = JStr ''yes'')} =
      {u. exclude \<noteq> Some u \<and> holds_seat dparse rows u}"
    by (auto simp: map_of_group_rows holds_seat_def)
  then show ?thesis by (simp add: seatHolders_def length_filter_jmap)
qed

lemma holds_seat_finite [simp]: "finite {u. holds_seat dparse rows u}"
proof (rule finite_subset)
  show "{u. holds_seat dparse rows u} \<subseteq> the ` rowUserId ` set rows"
    by (force simp: holds_seat_def split: option.splits dest!: pickSurvivor_mem)
qed simp

section \<open>Capacity\<close>

lemma fold_delete_rows:
  "fold (\<lambda>stale. delete_row (rv_id stale)) rs db = db\<lparr>rd_rows := filter (\<lambda>r. rv_id r \<notin> rv_id ` set rs) (rd_rows db)\<rparr>"
  by (induction rs arbitrary: db) (auto simp: delete_row_def intro!: rsvp_db.equality filter_cong)

text \<open>Ids and documentIds of rows are distinct, and a user has one row for an event.\<close>

definition answer_of :: "rsvp_row \<Rightarrow> js \<times> int option" where
  "answer_of r = (rv_target r, rowUserId r)"

definition rows_ok :: "rsvp_row list \<Rightarrow> bool" where
  "rows_ok rows = (distinct (map rv_id rows) \<and> distinct (map rv_documentId rows) \<and>
     distinct (map answer_of (filter (\<lambda>r. rowUserId r \<noteq> None) rows)))"

definition user_rows :: "rsvp_row list \<Rightarrow> js \<Rightarrow> int \<Rightarrow> rsvp_row list" where
  "user_rows rows target u = filter (\<lambda>r. rowUserId r = Some u \<and> rv_target r = target) rows"

definition seat :: "rsvp_row list \<Rightarrow> js \<Rightarrow> int \<Rightarrow> bool" where
  "seat rows target u = list_ex (\<lambda>r. rv_status r = JStr ''yes'') (user_rows rows target u)"

lemma distinct_map_filter_single:
  "distinct (map f (filter P xs)) \<Longrightarrow> x \<in> set xs \<Longrightarrow> P x \<Longrightarrow> (\<And>y. y \<in> set xs \<Longrightarrow> Q y \<longleftrightarrow> P y \<and> f y = f x) \<Longrightarrow> filter Q xs = [x]"
proof (induction xs)
  case (Cons y ys)
  show ?case
  proof (cases "y = x")
    case True
    have "\<not> Q z" if "z \<in> set ys" for z using Cons.prems(1,3) Cons.prems(4) [of z] True that by (auto simp: image_iff)
    then have "filter Q ys = []" by (simp add: filter_empty_conv)
    moreover have "Q y" using Cons.prems(3,4) True by simp
    ultimately show ?thesis using True by simp
  next
    case False
    then have x: "x \<in> set ys" using Cons.prems(2) by simp
    then have "\<not> Q y" using Cons.prems(1,3) Cons.prems(4) [of y] by (auto simp: image_iff)
    then show ?thesis using Cons.IH [OF _ x Cons.prems(3)] Cons.prems(1,4) by (simp split: if_splits)
  qed
qed simp

lemma user_rows_single:
  assumes "rows_ok rows" "r \<in> set rows" "rowUserId r = Some u"
  shows "user_rows rows (rv_target r) u = [r]"
  unfolding user_rows_def
  by (rule distinct_map_filter_single [where f = answer_of and P = "\<lambda>r. rowUserId r \<noteq> None"])
    (use assms in \<open>auto simp: rows_ok_def answer_of_def\<close>)

lemma user_rows_cases:
  assumes "rows_ok rows"
  obtains "user_rows rows target u = []" | r where "user_rows rows target u = [r]" "r \<in> set rows" "rowUserId r = Some u" "rv_target r = target"
proof (cases "user_rows rows target u")
  case (Cons r rs)
  then have "r \<in> set (user_rows rows target u)" by simp
  then have r: "r \<in> set rows" "rowUserId r = Some u" "rv_target r = target" by (auto simp: user_rows_def)
  from user_rows_single [OF assms r(1,2)] r that(2) show thesis by simp
qed (use that(1) in simp)

lemma holds_seat_iff:
  assumes "rows_ok (rd_rows db)"
  shows "holds_seat dparse (rows_of db target) u = seat (rd_rows db) target u"
proof -
  have e: "filter (\<lambda>r. rowUserId r = Some u) (rows_of db target) = user_rows (rd_rows db) target u"
    by (simp add: rows_of_def user_rows_def conj_commute)
  show ?thesis by (rule user_rows_cases [OF assms, of target u]) (simp_all add: holds_seat_def e seat_def)
qed

definition seats :: "rsvp_row list \<Rightarrow> js \<Rightarrow> int set" where
  "seats rows target = {u. seat rows target u}"

lemma seats_finite [simp]: "finite (seats rows target)"
proof (rule finite_subset)
  show "seats rows target \<subseteq> the ` rowUserId ` set rows" by (force simp: seats_def seat_def user_rows_def list_ex_iff)
qed simp

lemma countYesUsers_seats:
  "rows_ok (rd_rows db) \<Longrightarrow> countYesUsers dparse db t exclude = card {u \<in> seats (rd_rows db) (JStr t). exclude \<noteq> Some u}"
  by (simp add: countYesUsers_def seatHolders_card holds_seat_iff seats_def conj_commute)

text \<open>A row changed in place, and a row added.\<close>

definition answered_now :: "js \<Rightarrow> int \<Rightarrow> rsvp_row \<Rightarrow> rsvp_row" where
  "answered_now status now x = x\<lparr>rv_status := status, rv_respondedAt := Some (IDate (Some now))\<rparr>"

lemma answered_now_simps [simp]:
  "rv_id (answered_now s n x) = rv_id x" "rv_documentId (answered_now s n x) = rv_documentId x"
  "rowUserId (answered_now s n x) = rowUserId x" "rv_target (answered_now s n x) = rv_target x"
  "rv_status (answered_now s n x) = s"
  by (simp_all add: answered_now_def rowUserId_def)

lemma rows_ok_change:
  assumes "rows_ok rows"
  shows "rows_ok (map (\<lambda>x. if P x then answered_now s n x else x) rows)"
proof -
  have "filter (\<lambda>r. rowUserId r \<noteq> None) (map (\<lambda>x. if P x then answered_now s n x else x) rows) =
      map (\<lambda>x. if P x then answered_now s n x else x) (filter (\<lambda>r. rowUserId r \<noteq> None) rows)"
    by (induction rows) auto
  moreover have "map answer_of (map (\<lambda>x. if P x then answered_now s n x else x) ys) = map answer_of ys"
    "map rv_id (map (\<lambda>x. if P x then answered_now s n x else x) ys) = map rv_id ys"
    "map rv_documentId (map (\<lambda>x. if P x then answered_now s n x else x) ys) = map rv_documentId ys" for ys
    by (simp_all add: answer_of_def)
  ultimately show ?thesis using assms by (simp only: rows_ok_def)
qed

lemma rows_ok_filter: "rows_ok rows \<Longrightarrow> rows_ok (filter P rows)"
proof -
  assume ok: "rows_ok rows"
  have "filter (\<lambda>r. rowUserId r \<noteq> None) (filter P rows) = filter P (filter (\<lambda>r. rowUserId r \<noteq> None) rows)"
    by (simp only: filter_filter conj_commute)
  with ok show ?thesis by (simp only: rows_ok_def distinct_map_filter simp_thms)
qed

lemma rows_ok_snoc:
  "rows_ok rows \<Longrightarrow> rv_id r \<notin> rv_id ` set rows \<Longrightarrow> rv_documentId r \<notin> rv_documentId ` set rows \<Longrightarrow>
   user_rows rows (rv_target r) u = [] \<Longrightarrow> rowUserId r = Some u \<Longrightarrow> rows_ok (rows @ [r])"
  by (force simp: rows_ok_def answer_of_def user_rows_def filter_empty_conv)

lemma user_rows_append: "user_rows (xs @ ys) target u = user_rows xs target u @ user_rows ys target u"
  by (simp add: user_rows_def)

lemma user_rows_change:
  "user_rows (map (\<lambda>x. if P x then answered_now s n x else x) rows) target u = map (\<lambda>x. if P x then answered_now s n x else x) (user_rows rows target u)"
  by (induction rows) (auto simp: user_rows_def)

text \<open>One user's answer changes the seats by that user at most.\<close>

lemma seats_change_other:
  assumes "rows_ok rows" "r \<in> set rows" "\<And>x. x \<in> set rows \<Longrightarrow> P x \<longleftrightarrow> x = r"
  shows "seats (map (\<lambda>x. if P x then answered_now s n x else x) rows) target =
    (case rowUserId r of None \<Rightarrow> seats rows target
     | Some u \<Rightarrow> if rv_target r \<noteq> target then seats rows target
         else if s = JStr ''yes'' then insert u (seats rows target) else seats rows target - {u})"
proof -
  have other: "seat (map (\<lambda>x. if P x then answered_now s n x else x) rows) target u = seat rows target u"
    if "rowUserId r \<noteq> Some u \<or> rv_target r \<noteq> target" for u
  proof -
    have "map (\<lambda>x. if P x then answered_now s n x else x) (user_rows rows target u) = user_rows rows target u"
      by (rule map_idI) (use assms(3) that in \<open>auto simp: user_rows_def\<close>)
    then show ?thesis by (simp add: seat_def user_rows_change)
  qed
  have own: "seat (map (\<lambda>x. if P x then answered_now s n x else x) rows) target u \<longleftrightarrow> s = JStr ''yes''"
    if "rowUserId r = Some u" "rv_target r = target" for u
    using user_rows_single [OF assms(1,2) that(1)] that(2) assms(2,3) by (auto simp: seat_def user_rows_change)
  show ?thesis
  proof (cases "rowUserId r")
    case None
    then show ?thesis by (simp add: seats_def other)
  next
    case (Some u)
    show ?thesis
    proof (cases "rv_target r = target")
      case True
      have "seat (map (\<lambda>x. if P x then answered_now s n x else x) rows) target v \<longleftrightarrow> (if v = u then s = JStr ''yes'' else seat rows target v)" for v
        using own [OF Some True] other [of v] Some by simp
      then show ?thesis by (auto simp: Some True seats_def split: if_splits)
    next
      case False
      then show ?thesis by (simp add: Some seats_def other)
    qed
  qed
qed

text \<open>The seats of the event are within its capacity.\<close>

definition within_capacity :: "rsvp_db \<Rightarrow> event_row \<Rightarrow> bool" where
  "within_capacity db e = (case er_capacity e of
     JInt n \<Rightarrow> if n \<le> 0 \<or> int MAX_SAFE_INTEGER < n then True else int (card (seats (rd_rows db) (JStr (er_documentId e)))) \<le> n
   | _ \<Rightarrow> True)"

lemma within_subset:
  "within_capacity db e \<Longrightarrow> seats (rd_rows db') (JStr (er_documentId e)) \<subseteq> seats (rd_rows db) (JStr (er_documentId e)) \<Longrightarrow> within_capacity db' e"
  by (auto simp: within_capacity_def split: js.splits dest!: card_mono [rotated])

lemma within_insert:
  assumes "\<not> isAtCapacity dparse db e exclude" "rows_ok (rd_rows db)" "within_capacity db e"
    "seats (rd_rows db') (JStr (er_documentId e)) = insert u (seats (rd_rows db) (JStr (er_documentId e)))" "exclude = Some u"
  shows "within_capacity db' e"
proof -
  let ?S = "seats (rd_rows db) (JStr (er_documentId e))"
  have "insert u ?S = insert u {v \<in> ?S. v \<noteq> u}" by auto
  then have c: "card (insert u ?S) = Suc (card {v \<in> ?S. v \<noteq> u})" by simp
  have "countYesUsers dparse db (er_documentId e) (Some u) = card {v \<in> ?S. v \<noteq> u}"
    by (simp add: countYesUsers_seats [OF assms(2)]) (rule arg_cong [where f = card], auto)
  with assms(1,4,5) c show ?thesis
    by (auto simp: within_capacity_def isAtCapacity_def capacityDecision_def split: js.splits if_splits)
qed

text \<open>Changes of a row by its id or its documentId are changes of that row.\<close>

lemma same_row:
  assumes "rows_ok rows" "r \<in> set rows" "x \<in> set rows"
  shows "rv_id x = rv_id r \<longleftrightarrow> x = r" "rv_documentId x = rv_documentId r \<longleftrightarrow> x = r"
  using assms by (auto simp: rows_ok_def distinct_map dest: inj_onD)

lemma own_rows_eq: "own_rows db u target = user_rows (rd_rows db) target u"
  by (simp add: own_rows_def user_rows_def)

lemma published_event_doc: "published_event db target = Some e \<Longrightarrow> target = JStr (er_documentId e)"
  by (auto simp: published_event_def find_Some_iff)

lemma open_event_published: "open_event db target = Some e \<Longrightarrow> published_event db target = Some e"
  by (auto simp: open_event_def split: option.splits if_splits)

text \<open>What a handler comes to where a user has at most one row.\<close>

lemma create_outcome:
  assumes ok: "rows_ok (rd_rows db)" and run: "rsvp_create dparse caller body now fresh db = (a, db')"
  obtains "db' = db"
  | user e status r where "published_event db (rv_target r) = Some e" "rowUserId r = Some user" "r \<in> set (rd_rows db)"
      "db' = db\<lparr>rd_rows := map (\<lambda>x. if rv_id x = rv_id r then answered_now status now x else x) (rd_rows db)\<rparr>"
      "status = JStr ''yes'' \<and> rv_status r \<noteq> JStr ''yes'' \<longrightarrow> \<not> isAtCapacity dparse db e (Some user)"
  | user e r where "published_event db (rv_target r) = Some e" "user_rows (rd_rows db) (rv_target r) user = []" "rowUserId r = Some user"
      "rv_id r = fst fresh" "rv_documentId r = snd fresh" "db' = db\<lparr>rd_rows := rd_rows db @ [r]\<rparr>"
      "rv_status r = JStr ''yes'' \<longrightarrow> \<not> isAtCapacity dparse db e (Some user)"
proof (cases "db' = db")
  case False
  let ?target = "prop_of (rsvp_input body) ''targetDocumentId''" and ?status = "prop_of (rsvp_input body) ''status''"
  from False run obtain user where user: "caller = Some user" by (auto simp: rsvp_create_def split: option.splits)
  from False run user obtain t where t: "?target = JStr t" by (auto simp: rsvp_create_def Let_def split: js.splits)
  from False run user t obtain e where e: "open_event db ?target = Some e"
    by (auto simp: rsvp_create_def Let_def split: if_splits option.splits)
  from open_event_published [OF e] have pub: "published_event db ?target = Some e" .
  show thesis
  proof (rule user_rows_cases [OF ok, of ?target "ur_id user"])
    assume none: "user_rows (rd_rows db) ?target (ur_id user) = []"
    from run False user t e none show thesis
      by (intro that(3)) (auto simp: rsvp_create_def own_rows_eq newestFirst_def Let_def pub [unfolded t] rowUserId_def split: if_splits)
  next
    fix r assume r: "user_rows (rd_rows db) ?target (ur_id user) = [r]" "r \<in> set (rd_rows db)" "rowUserId r = Some (ur_id user)" "rv_target r = ?target"
    from run False user t e r(1) show thesis
      by (intro that(2) [of r e "ur_id user" ?status])
        (auto simp: rsvp_create_def own_rows_eq newestFirst_def Let_def pub [unfolded t] r(2,3) r(4) [unfolded t] answered_now_def split: if_splits)
  qed
qed (rule that(1))

lemma put_outcome:
  assumes ok: "rows_ok (rd_rows db)" and run: "rsvp_put dparse caller idParam body now db = (a, db')"
  obtains "db' = db"
  | status r where "r \<in> set (rd_rows db)"
      "db' = db\<lparr>rd_rows := map (\<lambda>x. if rv_documentId x = rv_documentId r then answered_now status now x else x) (rd_rows db)\<rparr>"
      "status = JStr ''yes'' \<and> rv_status r \<noteq> JStr ''yes'' \<longrightarrow>
         (\<exists>e. published_event db (rv_target r) = Some e \<and> \<not> isAtCapacity dparse db e (rowUserId r))"
proof (cases "db' = db")
  case False
  with run obtain r where r: "find_rsvp db idParam = Some r" by (auto simp: rsvp_put_def rsvp_update_def split: if_splits option.splits)
  then have mem: "r \<in> set (rd_rows db)" by (auto simp: find_rsvp_def find_Some_iff split: option.splits entry_ref.splits)
  show thesis
  proof (cases "open_event db (rv_target r)")
    case None
    with run False r show thesis
      by (intro that(2) [OF mem, of "prop_of (rsvp_input body) ''status''"])
        (auto simp: rsvp_put_def rsvp_update_def Let_def answered_now_def split: if_splits option.splits)
  next
    case (Some e)
    with run False r show thesis
      by (intro that(2) [OF mem, of "prop_of (rsvp_input body) ''status''"])
        (auto simp: rsvp_put_def rsvp_update_def Let_def answered_now_def open_event_published [OF Some] split: if_splits option.splits)
  qed
qed (rule that(1))

text \<open>What commits: an answer, a changed answer, a deletion of the retention.\<close>

inductive rsvp_step :: "(string \<Rightarrow> int option) \<Rightarrow> (string \<Rightarrow> int option) \<Rightarrow> rsvp_db \<Rightarrow> rsvp_db \<Rightarrow> bool" for dparse tparse where
  answers: "rsvp_create dparse caller body now fresh db = (a, db') \<Longrightarrow> fst fresh \<notin> rv_id ` set (rd_rows db) \<Longrightarrow>
    snd fresh \<notin> rv_documentId ` set (rd_rows db) \<Longrightarrow> rsvp_step dparse tparse db db'"
| changes: "rsvp_put dparse caller idParam body now db = (a, db') \<Longrightarrow> rsvp_step dparse tparse db db'"
| prunes: "pruneEvent tparse d exists' now db = (n, db') \<Longrightarrow> rsvp_step dparse tparse db db'"

definition rsvp_inv :: "event_row \<Rightarrow> rsvp_db \<Rightarrow> bool" where
  "rsvp_inv e db = (rows_ok (rd_rows db) \<and> published_event db (JStr (er_documentId e)) = Some e \<and> within_capacity db e)"

lemma answered_inv:
  assumes inv: "rsvp_inv e db" and r: "r \<in> set (rd_rows db)" "\<And>x. x \<in> set (rd_rows db) \<Longrightarrow> P x \<longleftrightarrow> x = r"
    and db': "db' = db\<lparr>rd_rows := map (\<lambda>x. if P x then answered_now s n x else x) (rd_rows db)\<rparr>"
    and gate: "s = JStr ''yes'' \<and> rv_status r \<noteq> JStr ''yes'' \<longrightarrow>
      (\<exists>e. published_event db (rv_target r) = Some e \<and> \<not> isAtCapacity dparse db e (rowUserId r))"
  shows "rsvp_inv e db'"
proof -
  let ?t = "JStr (er_documentId e)"
  from inv have ok: "rows_ok (rd_rows db)" and pub: "published_event db ?t = Some e" and within: "within_capacity db e"
    by (auto simp: rsvp_inv_def)
  have S: "seats (rd_rows db') ?t = (case rowUserId r of None \<Rightarrow> seats (rd_rows db) ?t
     | Some u \<Rightarrow> if rv_target r \<noteq> ?t then seats (rd_rows db) ?t
         else if s = JStr ''yes'' then insert u (seats (rd_rows db) ?t) else seats (rd_rows db) ?t - {u})"
    unfolding db' using seats_change_other [OF ok r] by simp
  have "within_capacity db' e"
  proof (cases "\<exists>u. rowUserId r = Some u \<and> rv_target r = ?t \<and> s = JStr ''yes'' \<and> rv_status r \<noteq> JStr ''yes''")
    case True
    then obtain u where u: "rowUserId r = Some u" "rv_target r = ?t" "s = JStr ''yes''" "rv_status r \<noteq> JStr ''yes''" by blast
    with gate pub have "\<not> isAtCapacity dparse db e (Some u)" by auto
    then show ?thesis by (rule within_insert [OF _ ok within]) (use S u in simp_all)
  next
    case False
    have own: "u \<in> seats (rd_rows db) ?t" if "rowUserId r = Some u" "rv_target r = ?t" "rv_status r = JStr ''yes''" for u
      using user_rows_single [OF ok r(1) that(1)] that by (simp add: seats_def seat_def)
    show ?thesis by (rule within_subset [OF within]) (use S False own in \<open>auto split: option.splits if_splits\<close>)
  qed
  with rows_ok_change [OF ok] pub show ?thesis by (simp add: rsvp_inv_def db' published_event_def)
qed

lemma seats_append: "rv_target r \<noteq> target \<or> rowUserId r = None \<Longrightarrow> seats (rows @ [r]) target = seats rows target"
  by (auto simp: seats_def seat_def user_rows_def)

lemma seats_append_own:
  "rv_target r = target \<Longrightarrow> rowUserId r = Some u \<Longrightarrow> seats (rows @ [r]) target = (if rv_status r = JStr ''yes'' then insert u (seats rows target) else seats rows target)"
  by (auto simp: seats_def seat_def user_rows_def)

lemma seats_filter: "seats (filter P rows) target \<subseteq> seats rows target"
  by (auto simp: seats_def seat_def user_rows_def list_ex_iff)

lemma rsvp_step_inv:
  assumes "rsvp_step dparse tparse db db'" "rsvp_inv e db"
  shows "rsvp_inv e db'"
  using assms(1)
proof cases
  case (answers caller body now fresh a)
  let ?t = "JStr (er_documentId e)"
  from assms(2) have ok: "rows_ok (rd_rows db)" and pub: "published_event db ?t = Some e" and within: "within_capacity db e"
    by (auto simp: rsvp_inv_def)
  from answers(1) show ?thesis
  proof (rule create_outcome [OF ok])
    fix user e2 status r
    assume r: "published_event db (rv_target r) = Some e2" "rowUserId r = Some user" "r \<in> set (rd_rows db)"
      "db' = db\<lparr>rd_rows := map (\<lambda>x. if rv_id x = rv_id r then answered_now status now x else x) (rd_rows db)\<rparr>"
      "status = JStr ''yes'' \<and> rv_status r \<noteq> JStr ''yes'' \<longrightarrow> \<not> isAtCapacity dparse db e2 (Some user)"
    show ?thesis
      by (rule answered_inv [OF assms(2) r(3) _ r(4), where dparse = dparse]) (use same_row [OF ok r(3)] r(1,2,5) in auto)
  next
    fix user e2 r
    assume r: "published_event db (rv_target r) = Some e2" "user_rows (rd_rows db) (rv_target r) user = []" "rowUserId r = Some user"
      "rv_id r = fst fresh" "rv_documentId r = snd fresh" "db' = db\<lparr>rd_rows := rd_rows db @ [r]\<rparr>"
      "rv_status r = JStr ''yes'' \<longrightarrow> \<not> isAtCapacity dparse db e2 (Some user)"
    have "within_capacity db' e"
    proof (cases "rv_target r = ?t \<and> rv_status r = JStr ''yes''")
      case True
      with r(1,7) pub have "\<not> isAtCapacity dparse db e (Some user)" by auto
      then show ?thesis
        by (rule within_insert [OF _ ok within]) (use True r(3,6) in \<open>simp_all add: seats_append_own\<close>)
    next
      case False
      then have "seats (rd_rows db') ?t \<subseteq> seats (rd_rows db) ?t"
        by (cases "rv_target r = ?t") (simp_all add: r(6) seats_append seats_append_own [OF _ r(3)])
      then show ?thesis by (rule within_subset [OF within])
    qed
    moreover have "rows_ok (rd_rows db')" using rows_ok_snoc [OF ok, of r user] answers(2,3) r(2-6) by simp
    ultimately show ?thesis using pub r(6) by (simp add: rsvp_inv_def published_event_def)
  qed (use assms(2) in simp)
next
  case (changes caller idParam body now a)
  from assms(2) have ok: "rows_ok (rd_rows db)" by (simp add: rsvp_inv_def)
  from changes show ?thesis
  proof (rule put_outcome [OF ok])
    fix status r
    assume r: "r \<in> set (rd_rows db)"
      "db' = db\<lparr>rd_rows := map (\<lambda>x. if rv_documentId x = rv_documentId r then answered_now status now x else x) (rd_rows db)\<rparr>"
      "status = JStr ''yes'' \<and> rv_status r \<noteq> JStr ''yes'' \<longrightarrow>
         (\<exists>e. published_event db (rv_target r) = Some e \<and> \<not> isAtCapacity dparse db e (rowUserId r))"
    show ?thesis by (rule answered_inv [OF assms(2) r(1) _ r(2,3)]) (use same_row [OF ok r(1)] in auto)
  qed (use assms(2) in simp)
next
  case (prunes d exists' now n)
  then have "db' = db \<or> db' = db\<lparr>rd_rows := filter (\<lambda>r. rv_target r \<noteq> JStr d) (rd_rows db)\<rparr>"
    by (auto simp: pruneEvent_def delete_answers_def split: if_splits)
  then show ?thesis
  proof
    assume db': "db' = db\<lparr>rd_rows := filter (\<lambda>r. rv_target r \<noteq> JStr d) (rd_rows db)\<rparr>"
    have "within_capacity db e" using assms(2) by (simp add: rsvp_inv_def)
    then have "within_capacity db' e" by (rule within_subset) (simp add: db' seats_filter)
    with assms(2) db' show ?thesis by (simp add: rsvp_inv_def published_event_def rows_ok_filter)
  qed (use assms(2) in simp)
qed


definition small_event :: event_row where
  "small_event = \<lparr>er_documentId = ''e'', er_published = True, er_rsvpEnabled = JBool True, er_capacity = JInt 1, er_start = None, er_end = None\<rparr>"

definition sample_person :: "int \<Rightarrow> user_row" where
  "sample_person i = \<lparr>ur_id = i, ur_displayName = JStr ''P'', ur_username = JStr ''p'', ur_blocked = JBool False, ur_role = JStr ''member'',
     ur_department = None, ur_tokenVersion = JInt 0, ur_totpEnabledAt = JNull\<rparr>"

definition yes_body :: js where
  "yes_body = JObj [(''data'', JObj [(''targetDocumentId'', JStr ''e''), (''status'', JStr ''yes'')])]"

definition first_yes :: rsvp_db where
  "first_yes = snd (rsvp_create (\<lambda>_. None) (Some (sample_person 7)) yes_body 5 (1, ''r1'') \<lparr>rd_rows = [], rd_events = [small_event]\<rparr>)"


text \<open>
  The race may leave two rows of a user. Changing the older one, which says yes and holds no seat, then takes a seat
  without the question of the capacity: the row's own status is compared, not the user's answer.
\<close>

definition raced :: rsvp_db where
  "raced = (let person = (\<lambda>i. Some \<lparr>ru_id = JInt i, ru_displayName = JStr ''P'', ru_blocked = JBool False\<rparr>);
       row = (\<lambda>i status t u. \<lparr>rv_id = i, rv_documentId = ''aaaaaaaaaaaaaaaaaaaaaaa'' @ nat_digits (nat i), rv_status = JStr status, rv_respondedAt = Some (IDate (Some t)),
         rv_target = JStr ''e'', rv_user = person u\<rparr>) in
     \<lparr>rd_rows = [row 1 ''yes'' 10 7, row 2 ''no'' 11 7, row 3 ''yes'' 12 8], rd_events = [small_event]\<rparr>)"

lemma stale_yes_put:
  "seatHolders (\<lambda>_. None) (rows_of raced (JStr ''e'')) None = 1"
  "seatHolders (\<lambda>_. None) (rows_of (snd (rsvp_put (\<lambda>_. None) (Some (sample_person 7)) (JInt 1) yes_body 20 raced)) (JStr ''e'')) None = 2"
  by code_simp+

section \<open>The summary and the seats\<close>

lemma map_of_no_answers:
  "map_of (fold (\<lambda>t. AList.update t (no_answers t)) targets m) t = (if t \<in> set targets then Some (no_answers t) else map_of m t)"
  by (induction targets arbitrary: m) (auto simp: update_conv')

lemma map_of_tally:
  "map_of m t = Some s \<Longrightarrow> map_of (fold (tally_row c) rows m) t =
     Some (fold (count_answer c) (filter (\<lambda>r. rv_target r = JStr t \<and> isRsvpStatus (rv_status r)) rows) s)"
  by (induction rows arbitrary: m s) (auto simp: tally_row_def update_conv' split: js.splits option.splits)

lemma count_answer_target [simp]: "rs_target (count_answer c r s) = rs_target s"
  by (simp add: count_answer_def Let_def)

lemma fold_count_target [simp]: "rs_target (fold (count_answer c) rows s) = rs_target s"
  by (induction rows arbitrary: s) simp_all

lemma fold_count_yes: "rs_yes (fold (count_answer c) rows s) = rs_yes s + length (filter (\<lambda>r. rv_status r = JStr ''yes'') rows)"
  by (induction rows arbitrary: s) (simp_all add: count_answer_def Let_def)

lemma fold_count_names:
  "rs_names (fold (count_answer c) rows s) = rs_names s @ List.map_filter shown_name (filter (\<lambda>r. rv_status r = JStr ''yes'') rows)"
  by (induction rows arbitrary: s) (simp_all add: count_answer_def Let_def map_filter_simps split: option.split)

definition valid_of :: "string \<Rightarrow> rsvp_row list \<Rightarrow> rsvp_row list" where
  "valid_of t rows = filter (\<lambda>r. rv_target r = JStr t \<and> isRsvpStatus (rv_status r)) rows"

lemma summary_mem:
  assumes "s \<in> set (summarizeRsvps dparse rows targets c)"
  shows "rs_target s \<in> set targets \<and> s = fold (count_answer c) (valid_of (rs_target s) (survivors dparse targets rows)) (no_answers (rs_target s))"
proof -
  from assms obtain t where t: "t \<in> set targets"
    "s = the (map_of (fold (tally_row c) (survivors dparse targets rows) (fold (\<lambda>t. AList.update t (no_answers t)) targets [])) t)"
    by (auto simp: summarizeRsvps_def Let_def)
  have "s = fold (count_answer c) (valid_of t (survivors dparse targets rows)) (no_answers t)"
    unfolding t(2) valid_of_def by (subst map_of_tally) (simp_all add: map_of_no_answers t(1))
  moreover from this have "rs_target s = t" by (simp add: no_answers_def)
  ultimately show ?thesis using t(1) by simp
qed

lemma length_filter_sort_key: "length (filter P (sort_key f xs)) = length (filter P xs)"
  by (metis filter_sort length_sort)

lemma length_filter_map_filter: "length (filter P (List.map_filter f xs)) = length (filter (\<lambda>x. case f x of None \<Rightarrow> False | Some y \<Rightarrow> P y) xs)"
  by (induction xs) (auto simp: map_filter_simps split: option.splits)

lemma length_survivors:
  "length (filter P (survivors dparse targets rows)) =
     card {k. case pickSurvivor dparse (filter (\<lambda>r. answer_key targets r = Some k) rows) of None \<Rightarrow> False | Some r \<Rightarrow> P r}"
proof -
  let ?Q = "\<lambda>l. case pickSurvivor dparse l of None \<Rightarrow> False | Some r \<Rightarrow> P r"
  have "length (filter P (survivors dparse targets rows)) = length (filter (\<lambda>(k, l). ?Q l) (group_rows (answer_key targets) rows))"
    unfolding survivors_def length_filter_sort_key length_filter_map_filter by (rule arg_cong [where f = length], rule filter_cong) auto
  also have "\<dots> = card {k. \<exists>l. map_of (group_rows (answer_key targets) rows) k = Some l \<and> ?Q l}" by (rule length_filter_jmap) simp
  also have "{k. \<exists>l. map_of (group_rows (answer_key targets) rows) k = Some l \<and> ?Q l} = {k. ?Q (filter (\<lambda>r. answer_key targets r = Some k) rows)}"
    by (auto simp: map_of_group_rows split: if_splits)
  finally show ?thesis .
qed

lemma answer_key_target: "answer_key targets r = Some (t, x) \<Longrightarrow> rv_target r = JStr t"
  by (auto simp: answer_key_def split: js.splits if_splits)

lemma answer_key_user:
  assumes "t \<in> set targets"
  shows "filter (\<lambda>r. answer_key targets r = Some (t, Inl u)) rows = filter (\<lambda>r. rowUserId r = Some u) (filter (\<lambda>r. rv_target r = JStr t) rows)"
proof -
  have "answer_key targets r = Some (t, Inl u) \<longleftrightarrow> rv_target r = JStr t \<and> rowUserId r = Some u" for r
    using assms by (auto simp: answer_key_def split: js.splits if_splits option.splits)
  then show ?thesis by (simp add: conj_commute)
qed

definition ownerless_yes :: "rsvp_row list \<Rightarrow> string \<Rightarrow> rsvp_row list" where
  "ownerless_yes rows t = filter (\<lambda>r. rv_target r = JStr t \<and> rowUserId r = None \<and> rv_status r = JStr ''yes'') rows"

lemma answer_key_row:
  assumes "t \<in> set targets" "distinct (map rv_id rows)"
  shows "(case pickSurvivor dparse (filter (\<lambda>r. answer_key targets r = Some (t, Inr i)) rows) of None \<Rightarrow> False
      | Some r \<Rightarrow> rv_target r = JStr t \<and> rv_status r = JStr ''yes'') \<longleftrightarrow> i \<in> rv_id ` set (ownerless_yes rows t)"
proof -
  have key: "answer_key targets r = Some (t, Inr i) \<longleftrightarrow> rv_target r = JStr t \<and> rowUserId r = None \<and> rv_id r = i" for r
    using assms(1) by (auto simp: answer_key_def split: js.splits if_splits option.splits)
  show ?thesis
  proof (cases "filter (\<lambda>r. answer_key targets r = Some (t, Inr i)) rows")
    case Nil
    then show ?thesis by (auto simp: ownerless_yes_def filter_empty_conv key)
  next
    case (Cons r rs)
    then have "r \<in> set (filter (\<lambda>r. answer_key targets r = Some (t, Inr i)) rows)" by simp
    then have r: "r \<in> set rows" "rv_target r = JStr t" "rowUserId r = None" "rv_id r = i" by (auto simp: key)
    have same: "y = r" if "y \<in> set rows" "rv_id y = i" for y
      using assms(2) that r(1,4) by (auto simp: distinct_map dest: inj_onD)
    have "filter (\<lambda>r. answer_key targets r = Some (t, Inr i)) rows = [r]"
      by (rule distinct_map_filter_single [where f = rv_id and P = "\<lambda>_. True"]) (use assms(2) r in \<open>auto simp: key dest: same\<close>)
    moreover have "i \<in> rv_id ` set (ownerless_yes rows t) \<longleftrightarrow> rv_status r = JStr ''yes''"
    proof
      assume "i \<in> rv_id ` set (ownerless_yes rows t)"
      then obtain y where "y \<in> set rows" "rv_id y = i" "rv_status y = JStr ''yes''" by (auto simp: ownerless_yes_def)
      with same [of y] show "rv_status r = JStr ''yes''" by simp
    next
      assume "rv_status r = JStr ''yes''"
      with r show "i \<in> rv_id ` set (ownerless_yes rows t)" by (force simp: ownerless_yes_def)
    qed
    ultimately show ?thesis using r(2) by simp
  qed
qed

text \<open>C34: 
  The number of attendees the events page shows is the number of seats the capacity counts, plus the answers whose user
  is gone: those hold no seat but are counted as attending.
\<close>

theorem summary_counts_seats:
  assumes "distinct (map rv_id rows)" "s \<in> set (summarizeRsvps dparse rows targets callerId)"
  shows "rs_yes s = seatHolders dparse (filter (\<lambda>r. rv_target r = JStr (rs_target s)) rows) None + length (ownerless_yes rows (rs_target s))"
proof -
  define t where "t = rs_target s"
  from summary_mem [OF assms(2)] have t: "t \<in> set targets"
    and s: "s = fold (count_answer callerId) (valid_of t (survivors dparse targets rows)) (no_answers t)" by (auto simp: t_def)
  let ?P = "\<lambda>r. rv_target r = JStr t \<and> rv_status r = JStr ''yes''"
  let ?Q = "\<lambda>k. case pickSurvivor dparse (filter (\<lambda>r. answer_key targets r = Some k) rows) of None \<Rightarrow> False | Some r \<Rightarrow> ?P r"
  let ?rows = "filter (\<lambda>r. rv_target r = JStr t) rows"
  let ?U = "{u. holds_seat dparse ?rows u}" and ?I = "rv_id ` set (ownerless_yes rows t)"
  have other: "t' = t" if "?Q (t', x)" for t' x
    using that by (auto split: option.splits dest!: pickSurvivor_mem answer_key_target)
  have user: "?Q (t, Inl u) \<longleftrightarrow> holds_seat dparse ?rows u" for u
    unfolding answer_key_user [OF t] holds_seat_def by (auto split: option.splits dest!: pickSurvivor_mem)
  have row: "?Q (t, Inr i) \<longleftrightarrow> i \<in> ?I" for i by (rule answer_key_row [OF t assms(1)])
  have "{k. ?Q k} = (\<lambda>u. (t, Inl u)) ` ?U \<union> (\<lambda>i. (t, Inr i)) ` ?I"
  proof (rule set_eqI)
    fix k :: "string \<times> (int + int)"
    obtain t' x where k: "k = (t', x)" by (cases k)
    show "k \<in> {k. ?Q k} \<longleftrightarrow> k \<in> (\<lambda>u. (t, Inl u)) ` ?U \<union> (\<lambda>i. (t, Inr i)) ` ?I"
    proof (cases "t' = t")
      case True
      with user row show ?thesis unfolding k by (cases x) auto
    next
      case False
      with other [of t' x] show ?thesis unfolding k by auto
    qed
  qed
  then have "card {k. ?Q k} = card ((\<lambda>u. (t, Inl u :: int + int)) ` ?U) + card ((\<lambda>i. (t, Inr i :: int + int)) ` ?I)"
    by (simp only:) (subst card_Un_disjoint, auto)
  also have "\<dots> = card ?U + card ?I" by (simp add: card_image inj_on_def)
  also have "card ?I = length (ownerless_yes rows t)"
  proof -
    have "distinct (map rv_id (ownerless_yes rows t))" using assms(1) by (simp add: ownerless_yes_def distinct_map_filter)
    then show ?thesis by (metis distinct_card length_map set_map)
  qed
  finally have count: "length (filter ?P (survivors dparse targets rows)) = card ?U + length (ownerless_yes rows t)"
    by (simp add: length_survivors)
  have "rs_yes s = length (filter (\<lambda>r. rv_status r = JStr ''yes'') (valid_of t (survivors dparse targets rows)))"
    unfolding s fold_count_yes by (simp add: no_answers_def)
  also have "\<dots> = length (filter ?P (survivors dparse targets rows))"
    unfolding valid_of_def filter_filter by (rule arg_cong [where f = length], rule filter_cong) (auto simp: isRsvpStatus_def RSVP_STATUSES_def)
  finally show ?thesis using count by (simp add: seatHolders_card t_def)
qed

definition two_yes :: "rsvp_row list" where
  "two_yes = map (\<lambda>(i, u). \<lparr>rv_id = i, rv_documentId = [], rv_status = JStr ''yes'', rv_respondedAt = None, rv_target = JStr ''e'', rv_user = u\<rparr>)
     [(1, Some \<lparr>ru_id = JInt 7, ru_displayName = JStr ''P'', ru_blocked = JBool False\<rparr>), (2, None)]"

definition two_yes_summary :: rsvp_summary where
  "two_yes_summary = \<lparr>rs_target = ''e'', rs_yes = 2, rs_maybe = 0, rs_no = 0, rs_names = [''P''], rs_mine = Some ''yes''\<rparr>"

theorem summary_counts_seats_witness:
  "rs_yes two_yes_summary = seatHolders (\<lambda>_. None) (filter (\<lambda>r. rv_target r = JStr (rs_target two_yes_summary)) two_yes) None +
     length (ownerless_yes two_yes (rs_target two_yes_summary)) \<and> ownerless_yes two_yes ''e'' \<noteq> []"
proof -
  have "summarizeRsvps (\<lambda>_. None) two_yes [''e''] (Some 7) = [two_yes_summary]" "distinct (map rv_id two_yes)" "ownerless_yes two_yes ''e'' \<noteq> []"
    by code_simp+
  with summary_counts_seats [of two_yes two_yes_summary "\<lambda>_. None" "[''e'']" "Some 7"] show ?thesis by simp
qed

section \<open>Privacy\<close>

lemma sort_key_mem: "r \<in> set (survivors dparse targets rows) \<longleftrightarrow>
  (\<exists>k. pickSurvivor dparse (filter (\<lambda>x. answer_key targets x = Some k) rows) = Some r)"
proof -
  have "r \<in> set (survivors dparse targets rows) \<longleftrightarrow> (\<exists>k l. (k, l) \<in> set (group_rows (answer_key targets) rows) \<and> pickSurvivor dparse l = Some r)"
    by (force simp: survivors_def map_filter_mem)
  also have "\<dots> \<longleftrightarrow> (\<exists>k l. map_of (group_rows (answer_key targets) rows) k = Some l \<and> pickSurvivor dparse l = Some r)"
    by (metis group_rows_ok jmap_ok_map_of map_of_SomeD)
  also have "\<dots> \<longleftrightarrow> (\<exists>k. pickSurvivor dparse (filter (\<lambda>x. answer_key targets x = Some k) rows) = Some r)"
  proof -
    have "(\<exists>l. map_of (group_rows (answer_key targets) rows) k = Some l \<and> pickSurvivor dparse l = Some r) \<longleftrightarrow>
        pickSurvivor dparse (filter (\<lambda>x. answer_key targets x = Some k) rows) = Some r" for k
      by (cases "filter (\<lambda>x. answer_key targets x = Some k) rows = []") (simp_all add: map_of_group_rows)
    then show ?thesis by (rule ex_cong1)
  qed
  finally show ?thesis .
qed

text \<open>A summary names nobody but those whose newest answer to the event is yes.\<close>

theorem summary_names_attendees:
  assumes "s \<in> set (summarizeRsvps dparse rows targets callerId)"
  shows "list_all (\<lambda>n. list_ex (\<lambda>r. rv_status r = JStr ''yes'' \<and> shown_name r = Some n \<and> answer_key targets r \<noteq> None \<and> rv_target r = JStr (rs_target s) \<and>
      pickSurvivor dparse (filter (\<lambda>x. answer_key targets x = answer_key targets r) rows) = Some r) rows) (rs_names s) \<and>
    length (rs_names s) \<le> rs_yes s"
proof -
  define t where "t = rs_target s"
  from summary_mem [OF assms] have s: "s = fold (count_answer callerId) (valid_of t (survivors dparse targets rows)) (no_answers t)" by (simp add: t_def)
  have names: "rs_names s = List.map_filter shown_name (filter (\<lambda>r. rv_status r = JStr ''yes'') (valid_of t (survivors dparse targets rows)))"
    unfolding s fold_count_names by (simp add: no_answers_def)
  have "length (List.map_filter f xs) \<le> length xs" for f :: "rsvp_row \<Rightarrow> string option" and xs
    by (induction xs) (auto simp: map_filter_simps split: option.split)
  then have "length (rs_names s) \<le> rs_yes s" unfolding names by (simp add: s fold_count_yes no_answers_def)
  moreover have "\<exists>r \<in> set rows. rv_status r = JStr ''yes'' \<and> shown_name r = Some n \<and> answer_key targets r \<noteq> None \<and> rv_target r = JStr t \<and>
      pickSurvivor dparse (filter (\<lambda>x. answer_key targets x = answer_key targets r) rows) = Some r" if n: "n \<in> set (rs_names s)" for n
  proof -
    from n obtain r where r: "r \<in> set (survivors dparse targets rows)" "rv_status r = JStr ''yes''" "rv_target r = JStr t" "shown_name r = Some n"
      by (auto simp: names map_filter_def valid_of_def)
    from r(1) obtain k where k: "pickSurvivor dparse (filter (\<lambda>x. answer_key targets x = Some k) rows) = Some r" by (auto simp: sort_key_mem)
    from pickSurvivor_mem [OF k] have "r \<in> set rows" "answer_key targets r = Some k" by auto
    with r(2-4) k show ?thesis by auto
  qed
  ultimately show ?thesis by (simp add: list_all_iff list_ex_iff t_def)
qed

theorem summary_names_attendees_witness:
  "list_all (\<lambda>n. list_ex (\<lambda>r. rv_status r = JStr ''yes'' \<and> shown_name r = Some n) two_yes) (rs_names two_yes_summary)"
proof -
  have "summarizeRsvps (\<lambda>_. None) two_yes [''e''] (Some 7) = [two_yes_summary]" by code_simp
  with summary_names_attendees [of two_yes_summary "\<lambda>_. None" two_yes "[''e'']" "Some 7"] show ?thesis
    by (auto simp: list_all_iff list_ex_iff)
qed

section \<open>The filter of the raw reads\<close>

text \<open>What the walk decides: a key that names the user anywhere in the tree.\<close>

fun mentions_user :: "js \<Rightarrow> bool" where
  "mentions_user (JArr xs) = list_ex mentions_user xs"
| "mentions_user (JObj fs) = list_ex (\<lambda>(k, v). names_user k \<or> mentions_user v) fs"
| "mentions_user _ = False"

lemma list_ex_pairs: "list_ex (\<lambda>(k, v). P k \<or> Q v) fs \<longleftrightarrow> list_ex (\<lambda>(k, _). P k) fs \<or> list_ex Q (map snd fs)"
  by (induction fs) auto

lemma pending_user_iff: "pending_user ns \<longleftrightarrow> list_ex mentions_user ns"
proof (induction ns rule: pending_user.induct)
  case (2 node pending)
  have r: "list_ex P (rev xs) = list_ex P xs" for P and xs :: "js list" by (simp add: list_ex_iff)
  show ?case
  proof (cases node)
    case (JObj fs)
    show ?thesis
    proof (cases "list_ex (\<lambda>(k, _). names_user k) fs")
      case True
      then show ?thesis by (simp add: JObj list_ex_pairs)
    next
      case False
      with "2.IH" show ?thesis by (simp add: JObj list_ex_pairs r list_ex_append del: map_map)
    qed
  qed (use 2 in \<open>simp_all add: r\<close>)
qed simp

text \<open>The iterative walk refuses a filter exactly when some key in it names the user.\<close>

theorem filters_reference_user: "filtersReferenceUser filters = mentions_user filters"
  by (simp add: filtersReferenceUser_def pending_user_iff)

section \<open>What retention keeps\<close>

definition effective_end :: "event_row \<Rightarrow> instant option" where
  "effective_end e = (if er_end e = None \<or> er_end e = Some (IText []) then er_start e else er_end e)"

text \<open>A row whose end is within the retention, or not a usable date.\<close>

definition keeps_answers :: "(string \<Rightarrow> int option) \<Rightarrow> int \<Rightarrow> event_row \<Rightarrow> bool" where
  "keeps_answers tparse now e = (case msOf tparse (effective_end e) of None \<Rightarrow> True | Some ms \<Rightarrow> now - RSVP_RETENTION_DAYS * DAY_MS \<le> ms)"

lemma rsvps_expired_iff: "rsvpsExpired tparse rows now RSVP_RETENTION_DAYS \<longleftrightarrow> rows = [] \<or> list_all (\<lambda>e. \<not> keeps_answers tparse now e) rows"
  by (auto simp: rsvpsExpired_def keeps_answers_def effective_end_def Let_def list_all_iff split: option.splits)

lemma prune_event_keeps:
  assumes "pruneEvent tparse d exists' now db = (n, db')" "r \<in> set (rd_rows db)" "rv_target r = JStr d \<longrightarrow> exists'"
    "rv_target r = JStr d \<longrightarrow> list_ex (\<lambda>e. er_documentId e = d \<and> keeps_answers tparse now e) (rd_events db)"
  shows "r \<in> set (rd_rows db')"
proof (cases "rv_target r = JStr d")
  case True
  with assms(4) have "\<not> rsvpsExpired tparse (event_rows db d) now RSVP_RETENTION_DAYS"
    by (auto simp: rsvps_expired_iff event_rows_def list_ex_iff list_all_iff filter_empty_conv)
  with assms(1-3) True show ?thesis by (simp add: pruneEvent_def)
next
  case False
  with assms(1,2) show ?thesis by (auto simp: pruneEvent_def delete_answers_def split: if_splits)
qed

lemma prune_loop_keeps:
  assumes "prune_loop tparse between fails exists' now due (n0, db) = (n, db')" "r \<in> set (rd_rows db)" "rv_target r = JStr d" "exists' d"
    "\<And>x db1. r \<in> set (rd_rows db1) \<Longrightarrow> r \<in> set (rd_rows (between x db1))"
    "\<And>db1. list_ex (\<lambda>e. er_documentId e = d \<and> keeps_answers tparse now e) (rd_events (between d db1))"
  shows "r \<in> set (rd_rows db')"
  using assms(1,2)
proof (induction due arbitrary: n0 db)
  case (Cons x due)
  obtain k db2 where k: "pruneEvent tparse x (exists' x) now (between x db) = (k, db2)" by fastforce
  have "r \<in> set (rd_rows (between x db))" by (rule assms(5) [OF Cons.prems(2)])
  then have "r \<in> set (rd_rows db2)"
    by (rule prune_event_keeps [OF k]) (use assms(3,4,6) in auto)
  with Cons.IH Cons.prems assms(5) k show ?case by (auto simp: Let_def split: if_splits)
qed simp

text \<open>
  An answer stays when its event exists and, under its lock, has a row that ended within the retention or has no usable
  date: a reschedule that commits after the run read the events is seen.
\<close>

theorem retention_keeps:
  assumes "pruneRsvps tparse between fails now db = (n, db')" "r \<in> set (rd_rows db)" "rv_target r = JStr d" "event_rows db d \<noteq> []"
    "\<And>x db1. r \<in> set (rd_rows db1) \<Longrightarrow> r \<in> set (rd_rows (between x db1))"
    "\<And>db1. list_ex (\<lambda>e. er_documentId e = d \<and> keeps_answers tparse now e) (rd_events (between d db1))"
  shows "r \<in> set (rd_rows db')"
  using assms(1) [unfolded pruneRsvps_def Let_def] assms(2-6) by (rule prune_loop_keeps) auto

definition old_event :: event_row where
  "old_event = \<lparr>er_documentId = ''e'', er_published = True, er_rsvpEnabled = JBool True, er_capacity = JNull, er_start = Some (IDate (Some 0)), er_end = None\<rparr>"

theorem retention_keeps_witness:
  "rd_rows (snd (pruneRsvps (\<lambda>_. None) (\<lambda>_ db. db\<lparr>rd_events := [old_event\<lparr>er_start := Some (IDate (Some 20000000000))\<rparr>]\<rparr>) (\<lambda>_. False) 20000000000
     \<lparr>rd_rows = two_yes, rd_events = [old_event]\<rparr>)) \<noteq> []"
proof -
  let ?between = "\<lambda>_ db. db\<lparr>rd_events := [old_event\<lparr>er_start := Some (IDate (Some 20000000000))\<rparr>]\<rparr>"
  let ?db = "\<lparr>rd_rows = two_yes, rd_events = [old_event]\<rparr>"
  let ?r = "hd two_yes"
  obtain n db' where run: "pruneRsvps (\<lambda>_. None) ?between (\<lambda>_. False) 20000000000 ?db = (n, db')" by fastforce
  have "?r \<in> set (rd_rows ?db)" "rv_target ?r = JStr ''e''" "event_rows ?db ''e'' \<noteq> []" by (simp_all add: two_yes_def event_rows_def old_event_def)
  then have "?r \<in> set (rd_rows db')"
    by (rule retention_keeps [OF run])
      (simp_all add: old_event_def keeps_answers_def effective_end_def msOf_def RSVP_RETENTION_DAYS_def DAY_MS_def)
  with run show ?thesis by auto
qed

end
