(* ===== verification/AuthoringChecks.thy ===== *)
theory AuthoringChecks imports Allowlist begin

text \<open>
  The checks of the authoring rules against the database (\<open>apps/cms/src/utils/authoring-checks.ts\<close>): what a payload
  names is resolved to documentIds, and anything else is refused alike. A table is the list of its rows, relations
  populated, as \<open>strapi.db.query\<close> returns them.
\<close>

type_synonym tables = "string \<Rightarrow> fields list"

definition USER_UID :: string where "USER_UID = ''plugin::users-permissions.user''"
definition ROLE_UID :: string where "ROLE_UID = ''plugin::users-permissions.role''"
definition FILE_UID :: string where "FILE_UID = ''plugin::upload.file''"
definition POLL_VOTE_UID :: string where "POLL_VOTE_UID = ''api::poll-vote.poll-vote''"

section \<open>The upload table\<close>

definition UPLOAD_FORMATS :: "string list" where
  "UPLOAD_FORMATS = [''pdf'', ''docx'', ''xlsx'', ''pptx'', ''jpeg'', ''png'', ''webp'']"

text \<open>Mime and kind of a format (True: an image).\<close>

definition UPLOAD_FORMAT_SPECS :: "(string \<times> string \<times> bool) list" where
  "UPLOAD_FORMAT_SPECS =
     [(''pdf'', ''application/pdf'', False),
      (''docx'', ''application/vnd.openxmlformats-officedocument.wordprocessingml.document'', False),
      (''xlsx'', ''application/vnd.openxmlformats-officedocument.spreadsheetml.sheet'', False),
      (''pptx'', ''application/vnd.openxmlformats-officedocument.presentationml.presentation'', False),
      (''jpeg'', ''image/jpeg'', True), (''png'', ''image/png'', True), (''webp'', ''image/webp'', True)]"

definition mime_of :: "string \<Rightarrow> string" where
  "mime_of format = (case map_of UPLOAD_FORMAT_SPECS format of Some (mime, _) \<Rightarrow> mime | None \<Rightarrow> [])"

definition DOCUMENT_FILE_MIME_TYPES :: "string list" where
  "DOCUMENT_FILE_MIME_TYPES = map mime_of UPLOAD_FORMATS"

definition IMAGE_FORMATS :: "string list" where
  "IMAGE_FORMATS = filter (\<lambda>format. case map_of UPLOAD_FORMAT_SPECS format of Some (_, img) \<Rightarrow> img | None \<Rightarrow> False) UPLOAD_FORMATS"

definition MEDIA_CLAIM_FIELDS :: "string \<Rightarrow> string \<Rightarrow> string list option" where
  "MEDIA_CLAIM_FIELDS uid field =
     map_of [((DOCUMENT_UID, ''file''), DOCUMENT_FILE_MIME_TYPES), ((COURSE_UID, ''coverImage''), map mime_of IMAGE_FORMATS),
       ((DEPARTMENT_UID, ''headerImage''), map mime_of IMAGE_FORMATS), ((TEAM_UID, ''avatar''), map mime_of IMAGE_FORMATS)] (uid, field)"

section \<open>The checks\<close>

definition row_id :: "js \<Rightarrow> int option" where
  "row_id v = (case v of JInt i \<Rightarrow> Some i | _ \<Rightarrow> None)"

definition doc_of :: "fields \<Rightarrow> string option" where
  "doc_of row = (case jget row ''documentId'' of JStr d \<Rightarrow> Some d | _ \<Rightarrow> None)"

definition row_matches :: "target_ref \<Rightarrow> fields \<Rightarrow> bool" where
  "row_matches ref row = (case ref of TargetRow i \<Rightarrow> jget row ''id'' = JInt i | TargetDoc d \<Rightarrow> jget row ''documentId'' = JStr d)"

definition rowOf :: "tables \<Rightarrow> string \<Rightarrow> target_ref \<Rightarrow> fields option" where
  "rowOf t uid ref =
     (case List.find (row_matches ref) (t uid) of None \<Rightarrow> None | Some row \<Rightarrow> if doc_of row \<noteq> None then Some row else None)"

fun resolve_docs :: "tables \<Rightarrow> string \<Rightarrow> target_ref list \<Rightarrow> string list option" where
  "resolve_docs t uid [] = Some []"
| "resolve_docs t uid (ref # refs) =
     (case rowOf t uid ref of
        None \<Rightarrow> None
      | Some row \<Rightarrow> map_option (Cons (the (doc_of row))) (resolve_docs t uid refs))"

record to_one_options =
  to_allowClear :: bool
  to_allowDisconnect :: bool
  to_requireTarget :: bool

definition EXACTLY_ONE_OR_CLEAR :: to_one_options where
  "EXACTLY_ONE_OR_CLEAR = \<lparr>to_allowClear = True, to_allowDisconnect = False, to_requireTarget = True\<rparr>"

definition toOneCheck ::
  "tables \<Rightarrow> string \<Rightarrow> (fields \<Rightarrow> bool) \<Rightarrow> to_one_options \<Rightarrow> to_one_input \<Rightarrow> (string \<times> resolved_to_one) list \<Rightarrow> resolved_to_one option" where
  "toOneCheck t uid accept options input resolved =
     (if ti_target input = Some None \<and> \<not> to_allowClear options then None
      else if ti_disconnect input \<noteq> [] \<and> \<not> to_allowDisconnect options then None
      else if ti_target input = None \<and> to_requireTarget options then None
      else case (case ti_target input of
            None \<Rightarrow> Some None
          | Some None \<Rightarrow> Some (Some None)
          | Some (Some ref) \<Rightarrow>
              (case rowOf t uid ref of None \<Rightarrow> None | Some row \<Rightarrow> if accept row then Some (Some (doc_of row)) else None)) of
          None \<Rightarrow> None
        | Some target \<Rightarrow> map_option (\<lambda>ds. \<lparr>rt_target = target, rt_disconnect = ds\<rparr>) (resolve_docs t uid (ti_disconnect input)))"

fun list_scan :: "tables \<Rightarrow> string \<Rightarrow> (fields \<Rightarrow> bool) \<Rightarrow> target_ref list \<Rightarrow> string list \<Rightarrow> string list option" where
  "list_scan t uid accept [] documentIds = Some documentIds"
| "list_scan t uid accept (ref # refs) documentIds =
     (case rowOf t uid ref of
        None \<Rightarrow> None
      | Some row \<Rightarrow>
        if \<not> accept row then None
        else let d = the (doc_of row) in list_scan t uid accept refs (if d \<in> set documentIds then documentIds else documentIds @ [d]))"

definition listCheck :: "tables \<Rightarrow> string \<Rightarrow> (fields \<Rightarrow> bool) \<Rightarrow> target_ref list \<Rightarrow> string list option" where
  "listCheck t uid accept refs = list_scan t uid accept refs []"

definition teamDepartmentId :: "fields \<Rightarrow> int option" where
  "teamDepartmentId row = (case jget row ''department'' of JObj fs \<Rightarrow> row_id (jget fs ''id'') | _ \<Rightarrow> None)"

fun role_docs :: "fields list \<Rightarrow> string list \<Rightarrow> string list option" where
  "role_docs rows [] = Some []"
| "role_docs rows (type # types) =
     (case List.find (\<lambda>candidate. jget candidate ''type'' = JStr type) rows of
        None \<Rightarrow> None
      | Some row \<Rightarrow> (case doc_of row of None \<Rightarrow> None | Some d \<Rightarrow> map_option (Cons d) (role_docs rows types)))"

definition roleTypesCheck :: "tables \<Rightarrow> string list \<Rightarrow> string list option" where
  "roleTypesCheck t types =
     (if \<not> list_all (\<lambda>type. isRoleType (JStr type)) types then None
      else role_docs (filter (\<lambda>row. jget row ''type'' \<in> JStr ` set types) (t ROLE_UID)) types)"

record check_context =
  cc_callerId :: int
  cc_department :: "(int \<times> string) option"
  cc_uid :: string
  cc_documentId :: "string option"
  cc_ownRowIds :: "int list"

definition metadata :: "fields \<Rightarrow> string \<Rightarrow> js" where
  "metadata file key = (case jget file ''provider_metadata'' of JObj fs \<Rightarrow> jget fs key | _ \<Rightarrow> JUndef)"

definition uploadedByOf :: "fields \<Rightarrow> int option" where
  "uploadedByOf file = row_id (metadata file ''uploadedBy'')"

definition isTombstoned :: "fields \<Rightarrow> bool" where
  "isTombstoned file = (case metadata file ''removing'' of JStr _ \<Rightarrow> True | _ \<Rightarrow> False)"

definition foreign_link :: "check_context \<Rightarrow> js \<Rightarrow> bool" where
  "foreign_link ctx link =
     (case link of
        JObj fs \<Rightarrow>
          (case jget fs ''__type'' of JStr s \<Rightarrow> s \<noteq> cc_uid ctx | _ \<Rightarrow> False) \<or>
          (case row_id (jget fs ''id'') of None \<Rightarrow> True | Some i \<Rightarrow> i \<notin> set (cc_ownRowIds ctx))
      | _ \<Rightarrow> True)"

definition ownUploadCheck :: "tables \<Rightarrow> check_context \<Rightarrow> int \<Rightarrow> string \<Rightarrow> int option" where
  "ownUploadCheck t ctx fileId field =
     (case List.find (row_matches (TargetRow fileId)) (t FILE_UID) of
        None \<Rightarrow> None
      | Some file \<Rightarrow>
        if uploadedByOf file \<noteq> Some (cc_callerId ctx) then None
        else if isTombstoned file then None
        else if (case (jget file ''mime'', MEDIA_CLAIM_FIELDS (cc_uid ctx) field) of (JStr mime, Some mimes) \<Rightarrow> mime \<notin> set mimes | _ \<Rightarrow> True) then None
        else let related = (case jget file ''related'' of JArr xs \<Rightarrow> xs | _ \<Rightarrow> []) in
          if list_ex (foreign_link ctx) related then None else Some fileId)"

definition pollHasVotes :: "tables \<Rightarrow> string \<Rightarrow> bool" where
  "pollHasVotes t d = list_ex (\<lambda>row. case jget row ''poll'' of JObj fs \<Rightarrow> jget fs ''documentId'' = JStr d | _ \<Rightarrow> False) (t POLL_VOTE_UID)"

definition callerDepartments :: "tables \<Rightarrow> int \<times> string \<Rightarrow> target_ref list \<Rightarrow> string list option" where
  "callerDepartments t mine refs =
     (if refs = [] then None
      else case listCheck t DEPARTMENT_UID (\<lambda>row. jget row ''id'' = JInt (fst mine)) refs of
          None \<Rightarrow> None
        | Some ds \<Rightarrow> if length ds = 1 then Some ds else None)"

definition relation_checks ::
  "tables \<Rightarrow> check_context \<Rightarrow> string \<Rightarrow> (to_one_input \<Rightarrow> (string \<times> resolved_to_one) list \<Rightarrow> resolved_to_one option) option" where
  "relation_checks t ctx name =
     (let one = EXACTLY_ONE_OR_CLEAR; target = EXACTLY_ONE_OR_CLEAR\<lparr>to_allowClear := False\<rparr>; anyRow = (\<lambda>_. True) in
      if name = ''course'' then Some (toOneCheck t COURSE_UID anyRow target)
      else if name = ''department'' then Some (toOneCheck t DEPARTMENT_UID anyRow one)
      else if name = ''team'' then Some (toOneCheck t TEAM_UID anyRow one)
      else if name = ''callerDepartment'' then
        (case cc_department ctx of
           None \<Rightarrow> Some (\<lambda>_ _. None)
         | Some mine \<Rightarrow> Some (toOneCheck t DEPARTMENT_UID (\<lambda>row. jget row ''id'' = JInt (fst mine)) target))
      else if name = ''teamOfCallerDepartment'' then
        (case cc_department ctx of
           None \<Rightarrow> Some (\<lambda>_ _. None)
         | Some mine \<Rightarrow> Some (toOneCheck t TEAM_UID (\<lambda>row. teamDepartmentId row = Some (fst mine)) one))
      else if name = ''user'' then Some (toOneCheck t USER_UID anyRow one)
      else None)"

definition list_checks :: "tables \<Rightarrow> check_context \<Rightarrow> string \<Rightarrow> (target_ref list \<Rightarrow> string list option) option" where
  "list_checks t ctx name =
     (if name = ''departments'' then Some (listCheck t DEPARTMENT_UID (\<lambda>_. True))
      else if name = ''users'' then Some (listCheck t USER_UID (\<lambda>_. True))
      else if name = ''callerDepartments'' then
        (case cc_department ctx of None \<Rightarrow> Some (\<lambda>_. None) | Some mine \<Rightarrow> Some (callerDepartments t mine))
      else None)"

definition authoringChecks :: "tables \<Rightarrow> check_context \<Rightarrow> write_env \<Rightarrow> write_env" where
  "authoringChecks t ctx env = env\<lparr>
     we_relationChecks := relation_checks t ctx,
     we_listChecks := list_checks t ctx,
     we_roleTypesCheck := Some (roleTypesCheck t),
     we_mediaChecks := (\<lambda>name. if name = ''ownUpload'' then Some (ownUploadCheck t ctx) else None),
     we_frozenChecks := (\<lambda>name. if name = ''pollHasVotes''
       then Some (case cc_documentId ctx of None \<Rightarrow> False | Some d \<Rightarrow> if d = [] then False else pollHasVotes t d) else None)\<rparr>"

end
