(* ===== verification/WriteGate.thy ===== *)
theory WriteGate imports AuthoringChecks WriteSafety begin

text \<open>
  The gate of the authoring routes (\<open>apps/cms/src/utils/write-gate.ts\<close>): the class of the caller, the rows of the
  document read after its revision, the scope of a department author and the one call of the write rules. The
  instants of a row are ISO text; the early readiness is the parameter \<open>readiness\<close>.
\<close>

section \<open>Roles\<close>

definition DEPARTMENT_AUTHOR_ROLES :: "string list" where "DEPARTMENT_AUTHOR_ROLES = [''department_head'']"
definition DUTY_PLAN_AUTHOR_ROLES :: "string list" where "DUTY_PLAN_AUTHOR_ROLES = [''department_head'', ''team_lead'']"

definition departmentAuthorRolesOf :: "string \<Rightarrow> string list" where
  "departmentAuthorRolesOf uid =
     (if uid \<notin> set DEPARTMENT_AUTHORED_UIDS then []
      else if uid = DUTY_PLAN_UID then DUTY_PLAN_AUTHOR_ROLES else DEPARTMENT_AUTHOR_ROLES)"

definition MODERATOR_CLASS :: string where "MODERATOR_CLASS = ''moderator''"
definition DEPARTMENT_AUTHOR_CLASS :: string where "DEPARTMENT_AUTHOR_CLASS = ''departmentAuthor''"

definition roleClassFor :: "user_row option \<Rightarrow> string \<Rightarrow> string option" where
  "roleClassFor user uid =
     (if hasRole user MODERATORS then Some MODERATOR_CLASS
      else if hasRole user (departmentAuthorRolesOf uid) then Some DEPARTMENT_AUTHOR_CLASS
      else None)"

section \<open>Rows\<close>

record authoring_rows =
  ro_documentId :: string
  ro_draft :: "fields option"
  ro_published :: "fields option"

record gate_host =
  gh_tables :: tables
  gh_versions :: "(doc, int) jmap"

text \<open>The rows and revisions as the document lock has them.\<close>

definition cms_of :: "gate_host \<Rightarrow> fields cms" where
  "cms_of h = \<lparr>c_versions = gh_versions h, c_rows = (\<lambda>(uid, d). filter (\<lambda>row. jget row ''documentId'' = JStr d) (gh_tables h uid))\<rparr>"

definition isRow :: "fields \<Rightarrow> bool" where
  "isRow row = (row_id (jget row ''id'') \<noteq> None \<and> doc_of row \<noteq> None)"

definition loadDocumentRows :: "fields cms \<Rightarrow> string \<Rightarrow> string \<Rightarrow> authoring_rows" where
  "loadDocumentRows c uid documentId =
     (let rows = filter isRow (c_rows c (uid, documentId)) in
      \<lparr>ro_documentId = documentId,
       ro_draft = List.find (\<lambda>row. nullish (jget row ''publishedAt'')) rows,
       ro_published = List.find (\<lambda>row. \<not> nullish (jget row ''publishedAt'')) rows\<rparr>)"

definition loadAuthoringRows :: "gate_host \<Rightarrow> string \<Rightarrow> js \<Rightarrow> (int \<times> authoring_rows) option" where
  "loadAuthoringRows h uid idParam =
     (case parseEntryRef idParam of
        None \<Rightarrow> None
      | Some ref \<Rightarrow>
        (case (case ref of
                 RefDocument d \<Rightarrow> Some d
               | RefId i \<Rightarrow> (case List.find (\<lambda>row. jget row ''id'' = JInt i) (gh_tables h uid) of
                     None \<Rightarrow> None | Some row \<Rightarrow> if isRow row then doc_of row else None)) of
           None \<Rightarrow> None
         | Some documentId \<Rightarrow>
           let observedRevision = readRevision (cms_of h) (uid, documentId);
               rows = loadDocumentRows (cms_of h) uid documentId in
           if ro_draft rows = None then None else Some (observedRevision, rows)))"

section \<open>Department authors\<close>

definition relationId :: "js \<Rightarrow> int option" where
  "relationId v = (case v of JObj fs \<Rightarrow> row_id (jget fs ''id'') | _ \<Rightarrow> None)"

definition relationIds :: "js \<Rightarrow> int list" where
  "relationIds v = (case v of JArr xs \<Rightarrow> List.map_filter relationId xs | _ \<Rightarrow> [])"

definition staff_role :: "js \<Rightarrow> bool" where
  "staff_role role = (case role of JObj fs \<Rightarrow> is_string_in (jget fs ''type'') STAFF_ROLES | _ \<Rightarrow> False)"

definition rowInDepartmentScope :: "string \<Rightarrow> fields \<Rightarrow> int \<times> string \<Rightarrow> bool" where
  "rowInDepartmentScope uid row department =
     (if relationId (jget row ''ownerDepartment'') \<noteq> Some (fst department) then False
      else if uid = ANNOUNCEMENT_UID then
        if relationId (jget row ''department'') \<noteq> Some (fst department) then False
        else if \<not> nullish (jget row ''team'') \<and>
          (case jget row ''team'' of JObj team \<Rightarrow> relationId (jget team ''department'') \<noteq> Some (fst department) | _ \<Rightarrow> True) then False
        else list_all staff_role (case jget row ''audienceRoles'' of JArr roles \<Rightarrow> roles | _ \<Rightarrow> [])
      else if uid = EVENT_UID \<or> uid = DOCUMENT_UID then relationIds (jget row ''departments'') = [fst department]
      else if uid = DUTY_PLAN_UID \<or> uid = KPI_UID then relationId (jget row ''department'') = Some (fst department)
      else False)"

definition departmentAuthorOwns :: "string \<Rightarrow> authoring_rows \<Rightarrow> (int \<times> string) option \<Rightarrow> bool" where
  "departmentAuthorOwns uid rows department =
     (case department of
        None \<Rightarrow> False
      | Some d \<Rightarrow>
        if uid \<notin> set DEPARTMENT_AUTHORED_UIDS then False
        else (case ro_draft rows of
            None \<Rightarrow> False
          | Some draft \<Rightarrow> list_all (\<lambda>row. rowInDepartmentScope uid row d) (draft # (case ro_published rows of None \<Rightarrow> [] | Some p \<Rightarrow> [p]))))"

definition loadCallerDepartment :: "tables \<Rightarrow> int \<Rightarrow> (int \<times> string) option" where
  "loadCallerDepartment t callerId =
     (case List.find (\<lambda>row. jget row ''id'' = JInt callerId) (t USER_UID) of
        None \<Rightarrow> None
      | Some user \<Rightarrow>
        (case jget user ''department'' of
           JObj fs \<Rightarrow> (case (jget fs ''id'', jget fs ''documentId'') of (JInt i, JStr d) \<Rightarrow> Some (i, d) | _ \<Rightarrow> None)
         | _ \<Rightarrow> None))"

definition scopeClassifier :: "string \<Rightarrow> (int \<times> string) option \<Rightarrow> fields cms \<Rightarrow> doc \<Rightarrow> string option" where
  "scopeClassifier roleClass department c d =
     (if roleClass = MODERATOR_CLASS
      then (if filter (\<lambda>row. nullish (jget row ''publishedAt'')) (c_rows c d) \<noteq> [] then Some MODERATOR_CLASS else None)
      else let rows = loadDocumentRows c (fst d) (snd d) in
        if ro_draft rows = None then None
        else if departmentAuthorOwns (fst d) rows department then Some DEPARTMENT_AUTHOR_CLASS else None)"

section \<open>Normalised rows\<close>

definition JSON_LISTS :: "string list" where "JSON_LISTS = [''quiz'', ''shiftTemplates'', ''shifts'']"

definition js_record :: "js \<Rightarrow> bool" where
  "js_record v = (case v of JObj _ \<Rightarrow> True | _ \<Rightarrow> False)"

definition text_prop :: "string \<Rightarrow> js \<Rightarrow> string option" where
  "text_prop k v = (case v of JObj fs \<Rightarrow> (case jget fs k of JStr s \<Rightarrow> Some s | _ \<Rightarrow> None) | _ \<Rightarrow> None)"

definition normal_value :: "string \<Rightarrow> js \<Rightarrow> js" where
  "normal_value key v =
     (if key = ''audienceRoles'' \<or> key = ''allowedRoles''
      then (case v of JArr roles \<Rightarrow> JArr (map JStr (List.map_filter (text_prop ''type'') roles)) | _ \<Rightarrow> JArr [])
      else case v of
          JArr xs \<Rightarrow> if key \<notin> set JSON_LISTS \<and> list_all js_record xs then JArr (map JStr (List.map_filter (text_prop ''documentId'') xs)) else v
        | JObj fs \<Rightarrow>
            (case jget fs ''documentId'' of
               JStr d \<Rightarrow> JStr d
             | _ \<Rightarrow> (case row_id (jget fs ''id'') of Some i \<Rightarrow> JObj [(''id'', JInt i)] | None \<Rightarrow> v))
        | _ \<Rightarrow> v)"

definition normaliseRow :: "fields option \<Rightarrow> fields option" where
  "normaliseRow row = map_option (map (\<lambda>(key, v). (key, normal_value key v))) row"

section \<open>The gate\<close>

definition DOCUMENT_INTENTS :: "string list" where
  "DOCUMENT_INTENTS = [''update'', ''publish'', ''unpublish'', ''discardDraft'', ''editable'']"

definition CUSTOM_DOCUMENT_INTENTS :: "string list" where
  "CUSTOM_DOCUMENT_INTENTS = [''publish'', ''unpublish'', ''discardDraft'', ''editable'']"

definition KNOWN_INTENTS :: "string list" where
  "KNOWN_INTENTS = [''create'', ''update'', ''publish'', ''unpublish'', ''discardDraft'', ''editable'', ''authoringList'']"

definition intentOf :: "string option \<Rightarrow> string option \<Rightarrow> string option" where
  "intentOf configured idParam =
     (case configured of
        None \<Rightarrow> Some (if hasTargetId idParam then ''update'' else ''create'')
      | Some i \<Rightarrow> if i \<in> set KNOWN_INTENTS then Some i else None)"

record authoring_gate =
  ag_uid :: string
  ag_intent :: string
  ag_roleClass :: string
  ag_callerId :: int
  ag_department :: "(int \<times> string) option"
  ag_documentId :: "string option"
  ag_observed :: "int option"
  ag_rows :: "authoring_rows option"
  ag_classify :: "(fields cms \<Rightarrow> doc \<Rightarrow> string option) option"

datatype gate_answer = GateFalse | GateNotFound | GateError write_error | GatePass authoring_gate

definition refuse :: "string option \<Rightarrow> gate_answer" where
  "refuse intent = (case intent of None \<Rightarrow> GateFalse | Some i \<Rightarrow> if i \<in> set CUSTOM_DOCUMENT_INTENTS then GateNotFound else GateFalse)"

definition id_param :: "string option \<Rightarrow> js" where
  "id_param p = (case p of None \<Rightarrow> JUndef | Some s \<Rightarrow> JStr s)"

definition own_row_ids :: "authoring_rows option \<Rightarrow> int list" where
  "own_row_ids rows =
     (case rows of
        None \<Rightarrow> []
      | Some r \<Rightarrow> List.map_filter (\<lambda>row. row_id (jget row ''id''))
          ((case ro_draft r of None \<Rightarrow> [] | Some x \<Rightarrow> [x]) @ (case ro_published r of None \<Rightarrow> [] | Some x \<Rightarrow> [x])))"

definition gate_env ::
  "gate_host \<Rightarrow> (string \<Rightarrow> fields \<Rightarrow> string list) \<Rightarrow> int \<Rightarrow> int \<Rightarrow> (int \<times> string) option \<Rightarrow> string \<Rightarrow> bool \<Rightarrow> authoring_rows option \<Rightarrow> write_env" where
  "gate_env h readiness now callerId department uid create rows =
     authoringChecks (gh_tables h)
       \<lparr>cc_callerId = callerId, cc_department = department, cc_uid = uid, cc_documentId = map_option ro_documentId rows, cc_ownRowIds = own_row_ids rows\<rparr>
       \<lparr>we_callerId = callerId, we_create = create, we_relationChecks = (\<lambda>_. None), we_listChecks = (\<lambda>_. None), we_roleTypesCheck = None,
        we_mediaChecks = (\<lambda>_. None), we_frozenChecks = (\<lambda>_. None),
        we_existing = normaliseRow (case rows of None \<Rightarrow> None | Some r \<Rightarrow> ro_draft r),
        we_published = normaliseRow (case rows of None \<Rightarrow> None | Some r \<Rightarrow> ro_published r),
        we_callerDepartment = department, we_readiness = Some (readiness uid), we_now = now\<rparr>"

text \<open>\<open>global::can-author\<close>: the decision, with the body and query the controller then reads.\<close>

definition writeGate ::
  "platform \<Rightarrow> gate_host \<Rightarrow> (string \<Rightarrow> fields \<Rightarrow> string list) \<Rightarrow> int \<Rightarrow> user_row option \<Rightarrow> string option \<Rightarrow> string option \<Rightarrow> string option \<Rightarrow> js \<Rightarrow> fields \<Rightarrow>
   gate_answer \<times> js \<times> fields" where
  "writeGate pf h readiness now user configUid configIntent idParam body query =
     (let intent = intentOf configIntent idParam;
          caller = (case user of None \<Rightarrow> None | Some u \<Rightarrow> if is_row_id (ur_id u) then Some u else None) in
      case (intent, caller, configUid) of
        (Some i, Some u, Some uid) \<Rightarrow>
          if uid \<notin> set AUTHORED_UIDS \<or> uid = WIKI_PAGE_UID then (refuse intent, body, query)
          else (case roleClassFor caller uid of
              None \<Rightarrow> (refuse intent, body, query)
            | Some roleClass \<Rightarrow>
              let department = (if roleClass = DEPARTMENT_AUTHOR_CLASS then loadCallerDepartment (gh_tables h) (ur_id u) else None) in
              if roleClass = DEPARTMENT_AUTHOR_CLASS \<and> department = None then (refuse intent, body, query)
              else let loaded = (if i \<in> set DOCUMENT_INTENTS then loadAuthoringRows h uid (id_param idParam) else None) in
                if i \<in> set DOCUMENT_INTENTS \<and>
                  (case loaded of None \<Rightarrow> True | Some (_, rows) \<Rightarrow> roleClass = DEPARTMENT_AUTHOR_CLASS \<and> \<not> departmentAuthorOwns uid rows department)
                then (refuse intent, body, query)
                else let rows = map_option snd loaded;
                    gate = \<lparr>ag_uid = uid, ag_intent = i, ag_roleClass = roleClass, ag_callerId = ur_id u, ag_department = department,
                      ag_documentId = map_option ro_documentId rows, ag_observed = map_option fst loaded, ag_rows = rows,
                      ag_classify = map_option (\<lambda>_. scopeClassifier roleClass department) loaded\<rparr> in
                  if i = ''create'' \<or> i = ''update''
                  then (case enforceWriteAllowlist pf uid roleClass False body query (gate_env h readiness now (ur_id u) department uid (i = ''create'') rows) of
                      (Inl e, body', query') \<Rightarrow> (GateError e, body', query')
                    | (Inr passed, body', query') \<Rightarrow> (if passed then GatePass gate else GateFalse, body', query'))
                  else (GatePass gate, body, query))
      | _ \<Rightarrow> (refuse intent, body, query))"

end
