(* ===== verification/GateScope.thy ===== *)
theory GateScope imports WriteGate begin

text \<open>
  The gate, its checks and the write rules together: what a department author stores lies in the author's own
  department. The Document Service that stores a payload is the parameter \<open>store\<close>; what is used of it is that it
  leaves other attributes and resolves the relations of a payload to the rows they name (\<open>stores_relations\<close>).
\<close>

section \<open>The database and the Document Service\<close>

definition related :: "tables \<Rightarrow> string \<Rightarrow> string \<Rightarrow> js" where
  "related t uid d = (case List.find (row_matches (TargetDoc d)) (t uid) of None \<Rightarrow> JNull | Some row \<Rightarrow> JObj row)"

definition TO_ONE :: "(string \<times> string) list" where
  "TO_ONE = [(''department'', DEPARTMENT_UID), (''ownerDepartment'', DEPARTMENT_UID), (''team'', TEAM_UID)]"

definition TO_MANY :: "(string \<times> string) list" where
  "TO_MANY = [(''departments'', DEPARTMENT_UID), (''audienceRoles'', ROLE_UID)]"

definition stores_relations :: "tables \<Rightarrow> (fields \<Rightarrow> fields \<Rightarrow> fields) \<Rightarrow> bool" where
  "stores_relations t store = (\<forall>out row k.
     (map_of out k = None \<longrightarrow> jget (store out row) k = jget row k) \<and>
     (\<forall>uid. map_of TO_ONE k = Some uid \<longrightarrow>
        (\<forall>d. map_of out k = Some (set_js [d]) \<longrightarrow> jget (store out row) k = related t uid d) \<and>
        (map_of out k = Some JNull \<longrightarrow> jget (store out row) k = JNull)) \<and>
     (\<forall>uid. map_of TO_MANY k = Some uid \<longrightarrow>
        (\<forall>ds. map_of out k = Some (set_js ds) \<longrightarrow> jget (store out row) k = JArr (map (related t uid) ds))))"

text \<open>Departments, teams and roles are single rows per document, and a user's department is one of them.\<close>

definition single_rows :: "fields list \<Rightarrow> bool" where
  "single_rows rows = distinct (map (\<lambda>row. jget row ''documentId'') rows)"

definition gate_tables_ok :: "tables \<Rightarrow> bool" where
  "gate_tables_ok t =
     (single_rows (t DEPARTMENT_UID) \<and> single_rows (t TEAM_UID) \<and> single_rows (t ROLE_UID) \<and>
      list_all (\<lambda>user. case jget user ''department'' of
          JObj fs \<Rightarrow> list_ex (\<lambda>row. jget row ''id'' = jget fs ''id'' \<and> jget row ''documentId'' = jget fs ''documentId'') (t DEPARTMENT_UID)
        | _ \<Rightarrow> True) (t USER_UID))"

lemma find_single:
  assumes "single_rows rows" "row \<in> set rows" "jget row ''documentId'' = JStr d"
  shows "List.find (row_matches (TargetDoc d)) rows = Some row"
  using assms by (induction rows) (auto simp: single_rows_def row_matches_def image_iff)

lemma related_row: "single_rows (t uid) \<Longrightarrow> row \<in> set (t uid) \<Longrightarrow> doc_of row = Some d \<Longrightarrow> related t uid d = JObj row"
  by (auto simp: related_def doc_of_def find_single split: js.splits)

section \<open>What the checks answer\<close>

lemma rowOf_Some: "rowOf t uid ref = Some row \<Longrightarrow> row \<in> set (t uid) \<and> (\<exists>d. doc_of row = Some d)"
  by (auto simp: rowOf_def find_Some_iff split: option.splits if_splits)

lemma to_one_target:
  assumes "toOneCheck t uid accept (EXACTLY_ONE_OR_CLEAR\<lparr>to_allowClear := False\<rparr>) input resolved = Some r"
  shows "\<exists>row d. row \<in> set (t uid) \<and> accept row \<and> doc_of row = Some d \<and> toStrapiRelation r = Some (set_js [d]) \<and> rt_target r = Some (Some d)"
  using assms
  by (auto simp: toOneCheck_def EXACTLY_ONE_OR_CLEAR_def toStrapiRelation_def split: if_splits option.splits dest!: rowOf_Some)

lemma to_one_or_clear:
  assumes "toOneCheck t uid accept EXACTLY_ONE_OR_CLEAR input resolved = Some r"
  shows "toStrapiRelation r = Some JNull \<or>
    (\<exists>row d. row \<in> set (t uid) \<and> accept row \<and> doc_of row = Some d \<and> toStrapiRelation r = Some (set_js [d]))"
  using assms
  by (auto simp: toOneCheck_def EXACTLY_ONE_OR_CLEAR_def toStrapiRelation_def split: if_splits option.splits dest!: rowOf_Some)

lemma list_scan_mem:
  "list_scan t uid accept refs ds = Some ds' \<Longrightarrow> (\<forall>d \<in> set ds. \<exists>row \<in> set (t uid). accept row \<and> doc_of row = Some d) \<Longrightarrow>
   \<forall>d \<in> set ds'. \<exists>row \<in> set (t uid). accept row \<and> doc_of row = Some d"
proof (induction refs arbitrary: ds)
  case (Cons ref refs)
  from Cons.prems(1) obtain row where row: "rowOf t uid ref = Some row" "accept row" by (auto split: option.splits if_splits)
  then obtain d where d: "doc_of row = Some d" "row \<in> set (t uid)" using rowOf_Some by blast
  let ?ds = "if d \<in> set ds then ds else ds @ [d]"
  have "list_scan t uid accept refs ?ds = Some ds'" using Cons.prems(1) row d(1) by (simp add: Let_def)
  moreover have "\<forall>d \<in> set ?ds. \<exists>row \<in> set (t uid). accept row \<and> doc_of row = Some d"
    using Cons.prems(2) row(2) d by (cases "d \<in> set ds") (simp_all, blast)
  ultimately show ?case by (rule Cons.IH)
qed simp

lemma caller_departments:
  assumes "callerDepartments t mine refs = Some ds"
  shows "\<exists>row d. ds = [d] \<and> row \<in> set (t DEPARTMENT_UID) \<and> jget row ''id'' = JInt (fst mine) \<and> doc_of row = Some d"
proof -
  from assms obtain d where d: "ds = [d]" "listCheck t DEPARTMENT_UID (\<lambda>row. jget row ''id'' = JInt (fst mine)) refs = Some [d]"
    by (auto simp: callerDepartments_def length_Suc_conv split: if_splits option.splits)
  from list_scan_mem [OF d(2) [unfolded listCheck_def]] d(1) show ?thesis by auto
qed

lemma role_docs_mem:
  "role_docs rows types = Some ds \<Longrightarrow> d \<in> set ds \<Longrightarrow> \<exists>row \<in> set rows. \<exists>type \<in> set types. jget row ''type'' = JStr type \<and> doc_of row = Some d"
proof (induction types arbitrary: ds)
  case (Cons ty types)
  from Cons.prems(1) obtain row e es where row: "List.find (\<lambda>candidate. jget candidate ''type'' = JStr ty) rows = Some row"
    and e: "doc_of row = Some e" "role_docs rows types = Some es" "ds = e # es"
    by (auto split: option.splits)
  from row have "row \<in> set rows" "jget row ''type'' = JStr ty" by (auto simp: find_Some_iff)
  with e(1) have own: "\<exists>row \<in> set rows. \<exists>type \<in> set (ty # types). jget row ''type'' = JStr type \<and> doc_of row = Some e" by auto
  show ?case
  proof (cases "d = e")
    case True
    with own show ?thesis by simp
  next
    case False
    with Cons.prems(2) e(3) have "d \<in> set es" by simp
    from Cons.IH [OF e(2) this] show ?thesis by auto
  qed
qed simp

lemma role_types_mem:
  "roleTypesCheck t types = Some ds \<Longrightarrow> d \<in> set ds \<Longrightarrow> \<exists>row \<in> set (t ROLE_UID). \<exists>type \<in> set types. jget row ''type'' = JStr type \<and> doc_of row = Some d"
  by (auto simp: roleTypesCheck_def split: if_splits dest!: role_docs_mem)

section \<open>The rules of department authors\<close>

definition scope_fields :: "string \<Rightarrow> (string \<times> field_spec) list" where
  "scope_fields uid =
     (if uid = ANNOUNCEMENT_UID then
        [(''department'', toOneCaller ''callerDepartment''), (''team'', toOne ''teamOfCallerDepartment''), (''audienceRoles'', roleTypes STAFF_ROLES)]
      else if uid = EVENT_UID \<or> uid = DOCUMENT_UID then [(''departments'', toManyCaller ''callerDepartments'')]
      else [(''department'', toOneCaller ''callerDepartment'')])"

definition own_row :: "string \<Rightarrow> bool \<Rightarrow> write_rule \<Rightarrow> bool" where
  "own_row uid create rule =
     (uid \<in> set DEPARTMENT_AUTHORED_UIDS \<and> map_of (wr_fields rule) ''ownerDepartment'' = None \<and>
      wr_derivedOnCreate rule = (if create then [(''ownerDepartment'', OWNER_DEPARTMENT)] else []) \<and> wr_derivedFields rule = [] \<and>
      list_all (\<lambda>k. k \<notin> set (wr_callerFields rule) \<and> k \<notin> fst ` set (wr_derivedFromMerged rule))
        [''ownerDepartment'', ''department'', ''departments'', ''team'', ''audienceRoles''] \<and>
      list_all (\<lambda>(k, spec). map_of (wr_fields rule) k = Some spec) (scope_fields uid))"

lemma own_rows_aux:
  "list_all (\<lambda>(uid, c, u). list_all (\<lambda>(cls, rule). cls = ''departmentAuthor'' \<longrightarrow> own_row uid True rule) c \<and>
     list_all (\<lambda>(cls, rule). cls = ''departmentAuthor'' \<longrightarrow> own_row uid False rule) u) (WRITE_ALLOWLIST pf)"
  by (simp add: WRITE_ALLOWLIST_def uid_defs)
    (simp add: own_row_def scope_fields_def uid_defs DEPARTMENT_AUTHORED_UIDS_def rule_defs spread_def)

lemma author_rule:
  assumes "writeRuleFor pf uid create DEPARTMENT_AUTHOR_CLASS = Some rule"
  shows "own_row uid create rule"
proof -
  from assms obtain c u where "(uid, c, u) \<in> set (WRITE_ALLOWLIST pf)" "(''departmentAuthor'', rule) \<in> set (if create then c else u)"
    unfolding DEPARTMENT_AUTHOR_CLASS_def by (rule rule_cases)
  with own_rows_aux [of pf, unfolded list_all_iff] show ?thesis by (cases create) fastforce+
qed

section \<open>Passing the gate\<close>

lemma loaded_draft: "loadAuthoringRows h uid p = Some (v, rows) \<Longrightarrow> \<exists>draft. ro_draft rows = Some draft"
  by (auto simp: loadAuthoringRows_def Let_def split: option.splits if_splits)

lemma enforce_passed:
  assumes "enforceWriteAllowlist pf uid cls False body query env = (Inr True, body', query')"
  obtains rule fs out where "writeRuleFor pf uid (we_create env) cls = Some rule" "body = JObj fs"
    "applyWriteRule (jget fs ''data'') rule env = Inr out" "body' = JObj (AList.update ''data'' (JObj out) fs)"
  using assms by (auto simp: enforceWriteAllowlist_def Let_def split: option.splits js.splits sum.splits)

lemma gate_env_create [simp]: "we_create (gate_env h readiness now c dept uid create rows) = create"
  by (simp add: gate_env_def authoringChecks_def)

lemma gate_env_department [simp]: "we_callerDepartment (gate_env h readiness now c dept uid create rows) = dept"
  by (simp add: gate_env_def authoringChecks_def)

text \<open>A write of a department author that passed: its department, its rule, its payload and the rows it was decided on.\<close>

lemma author_passed:
  assumes "writeGate pf h readiness now user (Some uid) intent idParam body query = (GatePass gate, body', query')"
    "ag_roleClass gate = DEPARTMENT_AUTHOR_CLASS" "ag_intent gate \<in> {''create'', ''update''}"
  obtains mine rule fs out where
    "ag_department gate = Some mine" "loadCallerDepartment (gh_tables h) (ag_callerId gate) = Some mine"
    "writeRuleFor pf uid (ag_intent gate = ''create'') DEPARTMENT_AUTHOR_CLASS = Some rule"
    "applyWriteRule (jget fs ''data'') rule
       (gate_env h readiness now (ag_callerId gate) (Some mine) uid (ag_intent gate = ''create'') (ag_rows gate)) = Inr out"
    "body' = JObj (AList.update ''data'' (JObj out) fs)"
    "ag_intent gate = ''update'' \<longrightarrow> (\<exists>rows draft. ag_rows gate = Some rows \<and> ro_draft rows = Some draft \<and> departmentAuthorOwns uid rows (Some mine))"
    "ag_intent gate = ''create'' \<longrightarrow> ag_rows gate = None"
proof -
  let ?i = "ag_intent gate"
  from assms(1) obtain u where u: "user = Some u"
    by (auto simp: writeGate_def Let_def refuse_def split: option.splits if_splits)
  define loaded where "loaded = (if ?i \<in> set DOCUMENT_INTENTS then loadAuthoringRows h uid (id_param idParam) else None)"
  from assms u obtain mine where d: "loadCallerDepartment (gh_tables h) (ur_id u) = Some mine"
    by (auto simp: writeGate_def Let_def refuse_def split: option.splits if_splits prod.splits sum.splits)
  from assms u d have
    loaded: "?i \<in> set DOCUMENT_INTENTS \<longrightarrow> (\<exists>v rows. loaded = Some (v, rows) \<and> departmentAuthorOwns uid rows (Some mine))"
    and gate: "ag_callerId gate = ur_id u" "ag_department gate = Some mine" "ag_rows gate = map_option snd loaded"
    and pass: "enforceWriteAllowlist pf uid DEPARTMENT_AUTHOR_CLASS False body query
      (gate_env h readiness now (ur_id u) (Some mine) uid (?i = ''create'') (map_option snd loaded)) = (Inr True, body', query')"
    by (auto simp: loaded_def writeGate_def Let_def refuse_def split: option.splits if_splits prod.splits sum.splits)
  have owns: "?i = ''update'' \<longrightarrow> (\<exists>rows draft. ag_rows gate = Some rows \<and> ro_draft rows = Some draft \<and> departmentAuthorOwns uid rows (Some mine))"
    using loaded gate(3) loaded_draft [of h uid "id_param idParam"] by (force simp: DOCUMENT_INTENTS_def loaded_def)
  have fresh: "?i = ''create'' \<longrightarrow> ag_rows gate = None" using gate(3) by (simp add: loaded_def DOCUMENT_INTENTS_def)
  from pass show thesis
    by (rule enforce_passed) (rule that [OF gate(2) d [folded gate(1)] _ _ _ owns fresh], simp_all add: gate(1,3))
qed

section \<open>Stored targets\<close>

lemma relation_checks_department:
  "we_relationChecks (gate_env h readiness now c (Some mine) uid create rows) ''callerDepartment'' =
     Some (toOneCheck (gh_tables h) DEPARTMENT_UID (\<lambda>row. jget row ''id'' = JInt (fst mine)) (EXACTLY_ONE_OR_CLEAR\<lparr>to_allowClear := False\<rparr>))"
  "we_relationChecks (gate_env h readiness now c (Some mine) uid create rows) ''teamOfCallerDepartment'' =
     Some (toOneCheck (gh_tables h) TEAM_UID (\<lambda>row. teamDepartmentId row = Some (fst mine)) EXACTLY_ONE_OR_CLEAR)"
  "we_listChecks (gate_env h readiness now c (Some mine) uid create rows) ''callerDepartments'' = Some (callerDepartments (gh_tables h) mine)"
  "we_roleTypesCheck (gate_env h readiness now c (Some mine) uid create rows) = Some (roleTypesCheck (gh_tables h))"
  by (simp_all add: gate_env_def authoringChecks_def relation_checks_def list_checks_def Let_def)

lemma own_row_key:
  assumes "own_row uid create rule" "k \<in> {''department'', ''departments'', ''team'', ''audienceRoles''}"
  shows "k \<notin> set (wr_callerFields rule)" "\<not> server_set rule k"
proof -
  from assms(2) have "k \<in> set [''ownerDepartment'', ''department'', ''departments'', ''team'', ''audienceRoles'']"
    unfolding list.set by blast
  from bspec [OF _ this] assms(1) have "k \<notin> set (wr_callerFields rule) \<and> k \<notin> fst ` set (wr_derivedFromMerged rule)"
    unfolding own_row_def list_all_iff by iprover
  moreover have "wr_derivedFields rule = []" "fst ` set (wr_derivedOnCreate rule) \<subseteq> {''ownerDepartment''}"
    using assms(1) by (cases create; simp add: own_row_def)+
  moreover have "k \<noteq> ''ownerDepartment''" using assms(2) by auto
  ultimately show "k \<notin> set (wr_callerFields rule)" "\<not> server_set rule k" unfolding server_set_def by auto
qed

lemma stored_scope_field:
  assumes "own_row uid create rule" "applyWriteRule (JObj fs) rule env = Inr out" "map_of (scope_fields uid) k = Some spec" "map_of out k = Some v"
  shows "authorised env k spec v"
proof -
  have k: "k \<in> {''department'', ''departments'', ''team'', ''audienceRoles''}"
    using assms(3) by (auto simp: scope_fields_def split: if_splits)
  have "map_of (wr_fields rule) k = Some spec"
    using assms(1) map_of_SomeD [OF assms(3)] by (auto simp: own_row_def list_all_iff)
  with stored_ok [OF assms(2,4) own_row_key [OF assms(1) k]] show ?thesis by auto
qed

definition dept_row :: "tables \<Rightarrow> int \<times> string \<Rightarrow> js \<Rightarrow> bool" where
  "dept_row t mine v = (\<exists>row d. v = set_js [d] \<and> row \<in> set (t DEPARTMENT_UID) \<and> jget row ''id'' = JInt (fst mine) \<and> doc_of row = Some d)"

lemma authorised_relation:
  "authorised env k (RelationField name required p) v \<Longrightarrow> we_relationChecks env name = Some check \<Longrightarrow>
   \<exists>input done r. check input done = Some r \<and> toStrapiRelation r = Some v"
  by (auto simp: authorised_def)

lemma authorised_targets:
  "authorised env k (RelationListField name limit p False) v \<Longrightarrow> we_listChecks env name = Some check \<Longrightarrow>
   \<exists>refs ds. check refs = Some ds \<and> v = set_js ds"
  by (auto simp: authorised_def)

lemma department_authorised:
  "authorised (gate_env h readiness now c (Some mine) uid create rows) k (toOneCaller ''callerDepartment'') v \<Longrightarrow> dept_row (gh_tables h) mine v"
  unfolding toOneCaller_def dept_row_def
  by (drule authorised_relation [OF _ relation_checks_department(1)]) (fastforce dest: to_one_target)

lemma departments_authorised:
  "authorised (gate_env h readiness now c (Some mine) uid create rows) k (toManyCaller ''callerDepartments'') v \<Longrightarrow> dept_row (gh_tables h) mine v"
  unfolding toManyCaller_def dept_row_def
  by (drule authorised_targets [OF _ relation_checks_department(3)]) (auto dest!: caller_departments)

lemma team_authorised:
  "authorised (gate_env h readiness now c (Some mine) uid create rows) k (toOne ''teamOfCallerDepartment'') v \<Longrightarrow>
   v = JNull \<or> (\<exists>row d. v = set_js [d] \<and> row \<in> set (gh_tables h TEAM_UID) \<and> teamDepartmentId row = Some (fst mine) \<and> doc_of row = Some d)"
  unfolding toOne_def by (drule authorised_relation [OF _ relation_checks_department(2)]) (fastforce dest: to_one_or_clear)

lemma roles_authorised:
  "authorised (gate_env h readiness now c (Some mine) uid create rows) k (roleTypes STAFF_ROLES) v \<Longrightarrow>
   \<exists>ds. v = set_js ds \<and> (\<forall>d \<in> set ds. \<exists>row \<in> set (gh_tables h ROLE_UID). \<exists>type \<in> set STAFF_ROLES. jget row ''type'' = JStr type \<and> doc_of row = Some d)"
proof -
  assume "authorised (gate_env h readiness now c (Some mine) uid create rows) k (roleTypes STAFF_ROLES) v"
  then obtain types ds where t: "set types \<subseteq> set STAFF_ROLES" "v = set_js ds"
    "if types = [] then ds = [] else \<exists>check. Some (roleTypesCheck (gh_tables h)) = Some check \<and> check types = Some ds"
    unfolding authorised_def roleTypes_def field_spec.case relation_checks_department by blast
  have "\<exists>row \<in> set (gh_tables h ROLE_UID). \<exists>type \<in> set STAFF_ROLES. jget row ''type'' = JStr type \<and> doc_of row = Some d" if "d \<in> set ds" for d
    using role_types_mem [of "gh_tables h" types ds d] t(1,3) that by (auto split: if_splits)
  with t(2) show ?thesis by blast
qed

text \<open>The stored relation, after the Document Service resolved it.\<close>

lemma stored_department:
  assumes "stores_relations t store" "gate_tables_ok t" "dept_row t mine v" "map_of out k = Some v" "k \<in> {''department'', ''ownerDepartment''}"
  shows "relationId (jget (store out row) k) = Some (fst mine)"
proof -
  from assms(3) obtain r d where r: "v = set_js [d]" "r \<in> set (t DEPARTMENT_UID)" "jget r ''id'' = JInt (fst mine)" "doc_of r = Some d"
    by (auto simp: dept_row_def)
  have "map_of TO_ONE k = Some DEPARTMENT_UID" using assms(5) by (auto simp: TO_ONE_def)
  with assms(1,4) r(1) have "jget (store out row) k = related t DEPARTMENT_UID d" by (auto simp: stores_relations_def)
  with related_row [of t DEPARTMENT_UID r d] assms(2) r show ?thesis by (simp add: gate_tables_ok_def relationId_def row_id_def)
qed

lemma stored_departments:
  assumes "stores_relations t store" "gate_tables_ok t" "dept_row t mine v" "map_of out ''departments'' = Some v"
  shows "relationIds (jget (store out row) ''departments'') = [fst mine]"
proof -
  from assms(3) obtain r d where r: "v = set_js [d]" "r \<in> set (t DEPARTMENT_UID)" "jget r ''id'' = JInt (fst mine)" "doc_of r = Some d"
    by (auto simp: dept_row_def)
  have "map_of TO_MANY ''departments'' = Some DEPARTMENT_UID" by (simp add: TO_MANY_def)
  with assms(1,4) r(1) have "jget (store out row) ''departments'' = JArr [related t DEPARTMENT_UID d]"
    by (fastforce simp: stores_relations_def)
  with related_row [of t DEPARTMENT_UID r d] assms(2) r show ?thesis
    by (simp add: gate_tables_ok_def relationIds_def relationId_def row_id_def map_filter_simps)
qed

definition team_ok :: "int \<times> string \<Rightarrow> js \<Rightarrow> bool" where
  "team_ok mine v = (nullish v \<or> (case v of JObj team \<Rightarrow> relationId (jget team ''department'') = Some (fst mine) | _ \<Rightarrow> False))"

lemma stored_team:
  assumes "stores_relations t store" "gate_tables_ok t" "map_of out ''team'' = Some v"
    "v = JNull \<or> (\<exists>row d. v = set_js [d] \<and> row \<in> set (t TEAM_UID) \<and> teamDepartmentId row = Some (fst mine) \<and> doc_of row = Some d)"
  shows "team_ok mine (jget (store out row) ''team'')"
proof -
  have "map_of TO_ONE ''team'' = Some TEAM_UID" by (simp add: TO_ONE_def)
  with assms(1) have st: "\<And>d. v = set_js [d] \<Longrightarrow> jget (store out row) ''team'' = related t TEAM_UID d" "v = JNull \<Longrightarrow> jget (store out row) ''team'' = JNull"
    using assms(3) by (fastforce simp: stores_relations_def)+
  from assms(4) show ?thesis
  proof (elim disjE exE conjE)
    assume "v = JNull"
    with st(2) show ?thesis by (simp add: team_ok_def)
  next
    fix r d assume "v = set_js [d]" "r \<in> set (t TEAM_UID)" "teamDepartmentId r = Some (fst mine)" "doc_of r = Some d"
    with st(1) [of d] related_row [of t TEAM_UID r d] assms(2) show ?thesis
      by (auto simp: team_ok_def gate_tables_ok_def teamDepartmentId_def relationId_def split: js.splits)
  qed
qed

lemma stored_roles:
  assumes "stores_relations t store" "gate_tables_ok t" "map_of out ''audienceRoles'' = Some (set_js ds)"
    "\<forall>d \<in> set ds. \<exists>row \<in> set (t ROLE_UID). \<exists>type \<in> set STAFF_ROLES. jget row ''type'' = JStr type \<and> doc_of row = Some d"
  shows "list_all staff_role (case jget (store out row) ''audienceRoles'' of JArr roles \<Rightarrow> roles | _ \<Rightarrow> [])"
proof -
  have "map_of TO_MANY ''audienceRoles'' = Some ROLE_UID" by (simp add: TO_MANY_def)
  with assms(1,3) have st: "jget (store out row) ''audienceRoles'' = JArr (map (related t ROLE_UID) ds)"
    by (fastforce simp: stores_relations_def)
  have "staff_role (related t ROLE_UID d)" if "d \<in> set ds" for d
  proof -
    from assms(4) that obtain r type where "r \<in> set (t ROLE_UID)" "type \<in> set STAFF_ROLES" "jget r ''type'' = JStr type" "doc_of r = Some d" by blast
    with related_row [of t ROLE_UID r d] assms(2) show ?thesis by (simp add: staff_role_def gate_tables_ok_def)
  qed
  with st show ?thesis by (simp add: list_all_iff)
qed

section \<open>A created row names its department\<close>

lemma fold_err_reaches:
  assumes "fold_err f xs s = Inr s'" "x \<in> set xs" "\<And>s s'. f x s = Inr s' \<Longrightarrow> P s'" "\<And>y s s'. P s \<Longrightarrow> f y s = Inr s' \<Longrightarrow> P s'"
  shows "P s'"
  using assms(1,2)
proof (induction xs arbitrary: s)
  case (Cons y ys)
  from Cons.prems(1) obtain t where t: "f y s = Inr t" "fold_err f ys t = Inr s'" by (auto split: sum.splits)
  show ?case
  proof (cases "x \<in> set ys")
    case False
    with Cons.prems(2) t(1) have "P t" by (auto intro: assms(3))
    with t(2) show ?thesis by (rule fold_err_invariant) (rule assms(4))
  qed (use Cons.IH [OF t(2)] in simp)
qed simp

lemma steps_keep:
  "relation_step env inputs f a = Inr a' \<Longrightarrow> map_of (ac_out a) k \<noteq> None \<Longrightarrow> map_of (ac_out a') k \<noteq> None"
  "list_step env x1 a = Inr a' \<Longrightarrow> map_of (ac_out a) k \<noteq> None \<Longrightarrow> map_of (ac_out a') k \<noteq> None"
  "delta_step env x2 a = Inr a' \<Longrightarrow> map_of (ac_out a) k \<noteq> None \<Longrightarrow> map_of (ac_out a') k \<noteq> None"
  "roles_step env x3 a = Inr a' \<Longrightarrow> map_of (ac_out a) k \<noteq> None \<Longrightarrow> map_of (ac_out a') k \<noteq> None"
  "media_step env x4 a = Inr a' \<Longrightarrow> map_of (ac_out a) k \<noteq> None \<Longrightarrow> map_of (ac_out a') k \<noteq> None"
  by (auto simp: relation_step_def list_step_def delta_step_def roles_step_def media_step_def Let_def
      split: prod.splits field_spec.splits option.splits if_splits sum.splits)

text \<open>A relation whose check always names a target is stored when the payload has it.\<close>

lemma resolve_all_relation:
  assumes "resolve_all rule env (read_payload rule payload) = Inr a" "refused_of rule payload = []"
    "map_of (wr_fields rule) k = Some (RelationField name required p)" "k \<in> fst ` set payload"
    and check: "we_relationChecks env name = Some check" "\<And>input done r. check input done = Some r \<Longrightarrow> toStrapiRelation r \<noteq> None"
  shows "map_of (ac_out a) k \<noteq> None"
proof -
  let ?es = "read_payload rule payload"
  from assms(4) obtain raw where raw: "(k, raw) \<in> set payload" by auto
  have "\<not> refuses_value (RelationField name required p) raw" using refused_of_mem [OF raw, of rule] assms(2,3) by auto
  then obtain input where "read_entry (map_of (wr_fields rule) k) raw = EntryRelation name input"
    using assms(3) by (auto simp: refuses_value_def read_entry_def Let_def split: option.splits if_splits)
  with raw have "(k, EntryRelation name input) \<in> set ?es" by (force simp: read_payload_def)
  then have "k \<in> fst ` set (relation_inputs ?es)" by (force simp: relation_inputs_def map_filter_mem)
  then obtain ni where "map_of (relation_inputs ?es) k = Some ni"
    by (cases "map_of (relation_inputs ?es) k") (auto simp: map_of_eq_None_iff)
  moreover obtain name' input' where ni: "ni = (name', input')" by (cases ni)
  ultimately have input: "map_of (relation_inputs ?es) k = Some (name, input')"
    using relation_inputs_field [of rule payload k name' input'] assms(3) by auto
  have own: "map_of (ac_out s') k \<noteq> None" if "relation_step env (relation_inputs ?es) (k, RelationField name required p) s = Inr s'" for s s'
    using that input check(1) by (auto simp: relation_step_def Let_def split: option.splits dest: check(2))
  from assms(1) obtain a1 a2 a3 a4 where steps:
    "fold_err (relation_step env (relation_inputs ?es)) (wr_fields rule) \<lparr>ac_out = plain_values ?es, ac_merged = plain_values ?es, ac_resolved = [], ac_noTarget = []\<rparr> = Inr a1"
    "fold_err (list_step env) (list_inputs ?es) a1 = Inr a2" "fold_err (delta_step env) (delta_inputs ?es) a2 = Inr a3"
    "fold_err (roles_step env) (role_inputs ?es) a3 = Inr a4" "fold_err (media_step env) (media_inputs ?es) a4 = Inr a"
    by (auto simp: resolve_all_def Let_def split: sum.splits)
  let ?P = "\<lambda>s. map_of (ac_out s) k \<noteq> None"
  have "?P a1" by (rule fold_err_reaches [OF steps(1) map_of_SomeD [OF assms(3)]]) (erule own, rule steps_keep(1))
  then have "?P a2" by (rule fold_err_invariant [OF steps(2)]) (rule steps_keep(2))
  then have "?P a3" by (rule fold_err_invariant [OF steps(3)]) (rule steps_keep(3))
  then have "?P a4" by (rule fold_err_invariant [OF steps(4)]) (rule steps_keep(4))
  then show ?thesis by (rule fold_err_invariant [OF steps(5)]) (rule steps_keep(5))
qed

lemma create_defaults_pins:
  "create_defaults env fs payload = Inr payload' \<Longrightarrow> (k, spec) \<in> set fs \<Longrightarrow> pinned spec \<Longrightarrow> k \<in> fst ` set payload'"
proof (induction env fs payload rule: create_defaults.induct)
  case (2 env key sp fs payload)
  show ?case
  proof (cases "has_key key payload \<or> \<not> pinned sp")
    case True
    show ?thesis
    proof (cases "(k, spec) \<in> set fs")
      case True
      with 2 \<open>has_key key payload \<or> \<not> pinned sp\<close> show ?thesis by simp
    next
      case False
      with 2(4,5) True have "k = key" "has_key key payload" by auto
      then obtain v where v: "(k, v) \<in> set payload" by (auto simp: has_key_def)
      from 2(3) \<open>has_key key payload \<or> \<not> pinned sp\<close> have "create_defaults env fs payload = Inr payload'" by simp
      from create_defaults_mem [OF this v] show ?thesis by force
    qed
  next
    case False
    with 2(3) obtain i d where d: "we_callerDepartment env = Some (i, d)" by (auto split: option.splits)
    let ?p = "payload @ [(key, case sp of RelationField _ _ _ \<Rightarrow> JStr d | _ \<Rightarrow> JArr [JStr d])]"
    from False d 2(3) have rest: "create_defaults env fs ?p = Inr payload'" by simp
    show ?thesis
    proof (cases "(k, spec) \<in> set fs")
      case True
      with 2(2) [OF False d refl] rest 2(5) show ?thesis by simp
    next
      case notin: False
      with 2(4) have "k = key" by auto
      with create_defaults_mem [OF rest, of "(key, case sp of RelationField _ _ _ \<Rightarrow> JStr d | _ \<Rightarrow> JArr [JStr d])"] show ?thesis by force
    qed
  qed
qed simp

section \<open>What is stored lies in the department\<close>

lemma target_always: "toOneCheck t uid accept (EXACTLY_ONE_OR_CLEAR\<lparr>to_allowClear := False\<rparr>) input done = Some r \<Longrightarrow> toStrapiRelation r \<noteq> None"
  by (drule to_one_target) auto

text \<open>On create the pinned department is stored, whether the payload names it or not.\<close>

lemma created_department:
  assumes "applyWriteRule (JObj fs) rule (gate_env h readiness now c (Some mine) uid True rows) = Inr out" "own_row uid True rule"
    "map_of (scope_fields uid) k = Some spec" "spec \<in> {toOneCaller ''callerDepartment'', toManyCaller ''callerDepartments''}"
  shows "map_of out k \<noteq> None"
proof -
  let ?env = "gate_env h readiness now c (Some mine) uid True rows"
  have field: "map_of (wr_fields rule) k = Some spec"
    using assms(2) map_of_SomeD [OF assms(3)] by (auto simp: own_row_def list_all_iff)
  have key: "k \<in> {''department'', ''departments'', ''team'', ''audienceRoles''}"
    using assms(3) by (auto simp: scope_fields_def split: if_splits)
  from assms(1) obtain payload a out' where payload: "write_payload rule ?env fs = Inr payload" "refused_of rule payload = []"
    and a: "resolve_all rule ?env (read_payload rule payload) = Inr a"
    and out': "derive_create rule ?env (write_derived rule ?env payload a) = Inr out'" and out: "out = set_callers rule ?env out'"
    by (rule apply_steps)
  have "create_defaults ?env (wr_fields rule) fs = Inr payload" using payload(1) by (simp add: write_payload_def)
  from create_defaults_pins [OF this map_of_SomeD [OF field]] assms(4) have carried: "k \<in> fst ` set payload"
    by (auto simp: pinned_def toOneCaller_def toManyCaller_def)
  have "map_of (ac_out a) k \<noteq> None"
  proof (cases "spec = toOneCaller ''callerDepartment''")
    case True
    from resolve_all_relation [OF a payload(2) field [unfolded True toOneCaller_def] carried relation_checks_department(1) target_always] show ?thesis .
  next
    case False
    with assms(4) have many: "spec = toManyCaller ''callerDepartments''" by simp
    note f = field [unfolded many toManyCaller_def]
    from resolve_all_list [OF a f] list_inputs_carried [OF payload(2) f] carried show ?thesis by simp
  qed
  with stored_accepted [OF out' own_row_key(2) [OF assms(2) key]] own_row_key(1) [OF assms(2) key] out show ?thesis
    by (simp add: map_of_set_callers)
qed

definition roles_ok :: "js \<Rightarrow> bool" where
  "roles_ok v = list_all staff_role (case v of JArr roles \<Rightarrow> roles | _ \<Rightarrow> [])"

lemma scope_parts:
  assumes "uid \<in> set DEPARTMENT_AUTHORED_UIDS"
  shows "rowInDepartmentScope uid row mine \<longleftrightarrow>
    relationId (jget row ''ownerDepartment'') = Some (fst mine) \<and>
    (if uid = EVENT_UID \<or> uid = DOCUMENT_UID then relationIds (jget row ''departments'') = [fst mine]
     else relationId (jget row ''department'') = Some (fst mine)) \<and>
    (uid = ANNOUNCEMENT_UID \<longrightarrow> team_ok mine (jget row ''team'') \<and> roles_ok (jget row ''audienceRoles''))"
  using assms
  by (auto simp: rowInDepartmentScope_def team_ok_def roles_ok_def DEPARTMENT_AUTHORED_UIDS_def uid_defs split: js.splits)

lemma unchanged: "stores_relations t store \<Longrightarrow> map_of out k = None \<Longrightarrow> jget (store out row) k = jget row k"
  by (simp add: stores_relations_def)

lemma stored_in_scope:
  assumes rule: "own_row uid create rule"
    and out: "applyWriteRule (JObj fs) rule (gate_env h readiness now c (Some mine) uid create rows) = Inr out"
    and docs: "stores_relations (gh_tables h) store" "gate_tables_ok (gh_tables h)"
    and owner: "relationId (jget (store out row) ''ownerDepartment'') = Some (fst mine)"
    and before: "create \<and> row = [] \<or> rowInDepartmentScope uid row mine"
  shows "rowInDepartmentScope uid (store out row) mine"
proof -
  have uid: "uid \<in> set DEPARTMENT_AUTHORED_UIDS" using rule by (simp add: own_row_def)
  note field = stored_scope_field [OF rule out]
  have announced: "team_ok mine (jget row ''team'') \<and> roles_ok (jget row ''audienceRoles'')" if "uid = ANNOUNCEMENT_UID"
    using before scope_parts [OF uid, of row mine] that by (auto simp: team_ok_def roles_ok_def)
  have old: "rowInDepartmentScope uid row mine" if "map_of (scope_fields uid) k = Some spec"
    "spec \<in> {toOneCaller ''callerDepartment'', toManyCaller ''callerDepartments''}" "map_of out k = None" for k spec
    using before that created_department [of fs rule h readiness now c mine uid rows out k spec] rule out by auto
  have departments: "relationIds (jget (store out row) ''departments'') = [fst mine]" if u: "uid = EVENT_UID \<or> uid = DOCUMENT_UID"
  proof -
    have k: "map_of (scope_fields uid) ''departments'' = Some (toManyCaller ''callerDepartments'')"
      using u by (auto simp: scope_fields_def uid_defs)
    show ?thesis
    proof (cases "map_of out ''departments''")
      case None
      with old [OF k] unchanged [OF docs(1) None] u show ?thesis by (simp add: scope_parts [OF uid])
    next
      case (Some v)
      show ?thesis by (rule stored_departments [OF docs departments_authorised [OF field [OF k Some]] Some])
    qed
  qed
  have department: "relationId (jget (store out row) ''department'') = Some (fst mine)" if u: "\<not> (uid = EVENT_UID \<or> uid = DOCUMENT_UID)"
  proof -
    have k: "map_of (scope_fields uid) ''department'' = Some (toOneCaller ''callerDepartment'')"
      using u by (auto simp: scope_fields_def)
    show ?thesis
    proof (cases "map_of out ''department''")
      case None
      with old [OF k] unchanged [OF docs(1) None] u show ?thesis by (simp add: scope_parts [OF uid])
    next
      case (Some v)
      show ?thesis by (rule stored_department [OF docs department_authorised [OF field [OF k Some]] Some]) simp
    qed
  qed
  have team: "team_ok mine (jget (store out row) ''team'')" if u: "uid = ANNOUNCEMENT_UID"
  proof -
    have k: "map_of (scope_fields uid) ''team'' = Some (toOne ''teamOfCallerDepartment'')" using u by (simp add: scope_fields_def)
    show ?thesis
    proof (cases "map_of out ''team''")
      case None
      with announced [OF u] unchanged [OF docs(1) None] show ?thesis by simp
    next
      case (Some v)
      show ?thesis by (rule stored_team [OF docs Some team_authorised [OF field [OF k Some]]])
    qed
  qed
  have roles: "roles_ok (jget (store out row) ''audienceRoles'')" if u: "uid = ANNOUNCEMENT_UID"
  proof -
    have k: "map_of (scope_fields uid) ''audienceRoles'' = Some (roleTypes STAFF_ROLES)" using u by (simp add: scope_fields_def)
    show ?thesis
    proof (cases "map_of out ''audienceRoles''")
      case None
      with announced [OF u] unchanged [OF docs(1) None] show ?thesis by simp
    next
      case (Some v)
      from roles_authorised [OF field [OF k Some]] obtain ds where "v = set_js ds"
        "\<forall>d \<in> set ds. \<exists>row \<in> set (gh_tables h ROLE_UID). \<exists>type \<in> set STAFF_ROLES. jget row ''type'' = JStr type \<and> doc_of row = Some d" by blast
      with stored_roles [OF docs, of out ds row] Some show ?thesis by (simp add: roles_ok_def)
    qed
  qed
  show ?thesis using owner departments department team roles by (simp add: scope_parts [OF uid])
qed

lemma found_row: "List.find P xs = Some x \<Longrightarrow> x \<in> set xs \<and> P x"
  by (auto simp: find_Some_iff)

lemma own_department_row:
  assumes "loadCallerDepartment t c = Some (i, d)" "gate_tables_ok t"
  shows "dept_row t (i, d) (set_js [d])"
proof -
  from assms(1) obtain user dept where u: "user \<in> set (t USER_UID)" "jget user ''department'' = JObj dept" "jget dept ''id'' = JInt i" "jget dept ''documentId'' = JStr d"
    by (auto simp: loadCallerDepartment_def split: option.splits js.splits dest!: found_row)
  from assms(2) u(1) have "case jget user ''department'' of
      JObj fs \<Rightarrow> list_ex (\<lambda>row. jget row ''id'' = jget fs ''id'' \<and> jget row ''documentId'' = jget fs ''documentId'') (t DEPARTMENT_UID) | _ \<Rightarrow> True"
    by (simp add: gate_tables_ok_def list_all_iff)
  with u obtain row where "row \<in> set (t DEPARTMENT_UID)" "jget row ''id'' = JInt i" "doc_of row = Some d"
    by (auto simp: list_ex_iff doc_of_def)
  then show ?thesis by (auto simp: dept_row_def)
qed

lemma owner_written:
  assumes rule: "own_row uid create rule"
    and "applyWriteRule (JObj fs) rule (gate_env h readiness now c (Some mine) uid create rows) = Inr out"
  shows "map_of out ''ownerDepartment'' = (if create then Some (set_js [snd mine]) else None)"
proof -
  let ?k = "''ownerDepartment''" and ?env = "gate_env h readiness now c (Some mine) uid create rows"
  from assms(2) obtain payload a out' where a: "resolve_all rule ?env (read_payload rule payload) = Inr a"
    and out': "derive_create rule ?env (write_derived rule ?env payload a) = Inr out'" and out: "out = set_callers rule ?env out'"
    by (rule apply_steps)
  have out_k: "map_of out ?k = map_of out' ?k" using rule by (simp add: out map_of_set_callers own_row_def)
  show ?thesis
  proof (cases create)
    case True
    with rule out' have "map_of out' ?k = Some (set_js [snd mine])"
      by (auto simp: own_row_def derive_create_def OWNER_DEPARTMENT_def split: sum.splits prod.splits)
    with out_k True show ?thesis by simp
  next
    case False
    with rule have "\<not> server_set rule ?k" by (simp add: own_row_def server_set_def)
    moreover have "map_of (ac_out a) ?k = None"
      by (rule all_ok_None [OF resolve_all_ok [OF a]]) (use rule in \<open>simp add: own_row_def\<close>)
    ultimately show ?thesis using stored_accepted [OF out'] out_k False by simp
  qed
qed

definition payload_of :: "js \<Rightarrow> fields" where
  "payload_of body = (case body of JObj fs \<Rightarrow> (case jget fs ''data'' of JObj out \<Rightarrow> out | _ \<Rightarrow> []) | _ \<Rightarrow> [])"

text \<open>The row the payload is written over: none on create, the draft otherwise.\<close>

definition row_before :: "authoring_gate \<Rightarrow> fields" where
  "row_before gate = (case ag_rows gate of None \<Rightarrow> [] | Some rows \<Rightarrow> (case ro_draft rows of None \<Rightarrow> [] | Some draft \<Rightarrow> draft))"

lemma author_scope:
  assumes "writeGate pf h readiness now user (Some uid) intent idParam body query = (GatePass gate, body', query')"
    "ag_roleClass gate = DEPARTMENT_AUTHOR_CLASS" "ag_intent gate \<in> {''create'', ''update''}"
    "gate_tables_ok (gh_tables h)" "stores_relations (gh_tables h) store"
  shows "\<exists>mine. ag_department gate = Some mine \<and> rowInDepartmentScope uid (store (payload_of body') (row_before gate)) mine"
proof -
  let ?create = "ag_intent gate = ''create''"
  from assms(1-3) obtain mine rule fs out where gate: "ag_department gate = Some mine" "loadCallerDepartment (gh_tables h) (ag_callerId gate) = Some mine"
    and rule: "writeRuleFor pf uid ?create DEPARTMENT_AUTHOR_CLASS = Some rule"
    and out: "applyWriteRule (jget fs ''data'') rule (gate_env h readiness now (ag_callerId gate) (Some mine) uid ?create (ag_rows gate)) = Inr out"
    and body: "body' = JObj (AList.update ''data'' (JObj out) fs)"
    and update: "ag_intent gate = ''update'' \<longrightarrow> (\<exists>rows draft. ag_rows gate = Some rows \<and> ro_draft rows = Some draft \<and> departmentAuthorOwns uid rows (Some mine))"
    and fresh: "?create \<longrightarrow> ag_rows gate = None"
    by (rule author_passed)
  from out obtain data where data: "jget fs ''data'' = JObj data" by (auto simp: applyWriteRule_def split: js.splits)
  note out = out [unfolded data]
  have own: "own_row uid ?create rule" by (rule author_rule [OF rule])
  have payload: "payload_of body' = out" by (simp add: payload_of_def body jget_def)
  have before: "?create \<and> row_before gate = [] \<or> rowInDepartmentScope uid (row_before gate) mine"
    using assms(3) update fresh by (cases "?create") (auto simp: row_before_def departmentAuthorOwns_def split: if_splits)
  have owner: "relationId (jget (store out (row_before gate)) ''ownerDepartment'') = Some (fst mine)"
  proof (cases "?create")
    case True
    with owner_written [OF own out] have "map_of out ''ownerDepartment'' = Some (set_js [snd mine])" by simp
    with own_department_row [of "gh_tables h" "ag_callerId gate" "fst mine" "snd mine"] gate(2) assms(4) stored_department [OF assms(5,4)]
    show ?thesis by simp
  next
    case False
    with owner_written [OF own out] have "map_of out ''ownerDepartment'' = None" by simp
    with unchanged [OF assms(5)] before False own show ?thesis by (simp add: scope_parts own_row_def)
  qed
  have "rowInDepartmentScope uid (store out (row_before gate)) mine"
    by (rule stored_in_scope [OF own out assms(5,4) owner before])
  with gate(1) payload show ?thesis by simp
qed

text \<open>C25: What a department author creates or changes lies, once stored, in the scope of the author's own department.\<close>

theorem author_keeps_scope:
  assumes "writeGate pf h readiness now user (Some uid) intent idParam body query = (GatePass gate, body', query')"
    "ag_roleClass gate = DEPARTMENT_AUTHOR_CLASS" "ag_intent gate \<in> {''create'', ''update''}"
    "gate_tables_ok (gh_tables h)" "stores_relations (gh_tables h) store"
  shows "\<exists>mine. ag_department gate = Some mine \<and> rowInDepartmentScope uid (store (payload_of body') (row_before gate)) mine"
  by (rule author_scope [OF assms])

text \<open>A Document Service that resolves relations as documented.\<close>

definition set_documents :: "js \<Rightarrow> string list" where
  "set_documents v = (case v of
     JObj fs \<Rightarrow> (case jget fs ''set'' of
         JArr xs \<Rightarrow> map (\<lambda>x. case x of JObj f \<Rightarrow> (case jget f ''documentId'' of JStr d \<Rightarrow> d | _ \<Rightarrow> []) | _ \<Rightarrow> []) xs
       | _ \<Rightarrow> [])
   | _ \<Rightarrow> [])"

definition stored_value :: "tables \<Rightarrow> string \<Rightarrow> js \<Rightarrow> js" where
  "stored_value t k v =
     (case map_of TO_ONE k of
        Some uid \<Rightarrow> (case set_documents v of [d] \<Rightarrow> related t uid d | _ \<Rightarrow> v)
      | None \<Rightarrow> (case map_of TO_MANY k of Some uid \<Rightarrow> JArr (map (related t uid) (set_documents v)) | None \<Rightarrow> v))"

definition sample_store :: "tables \<Rightarrow> fields \<Rightarrow> fields \<Rightarrow> fields" where
  "sample_store t out row = map (\<lambda>(k, v). (k, stored_value t k v)) out @ row"

lemma set_documents_set [simp]: "set_documents (set_js ds) = ds" "set_documents JNull = []"
  by (simp_all add: set_documents_def set_js_def documents_js_def jget_def comp_def)

lemma map_of_stored: "map_of (map (\<lambda>(k, v). (k, f k v)) xs) k = map_option (f k) (map_of xs k)"
  by (induction xs) auto

lemma sample_store_get:
  "jget (sample_store t out row) k = (case map_of out k of None \<Rightarrow> jget row k | Some v \<Rightarrow> stored_value t k v)"
  by (simp add: sample_store_def jget_def map_add_def map_of_stored split: option.split)

lemma TO_ONE_not_many: "map_of TO_MANY k = Some uid \<Longrightarrow> map_of TO_ONE k = None"
  by (auto simp: TO_ONE_def TO_MANY_def split: if_splits)

lemma sample_store_stores: "stores_relations t (sample_store t)"
  by (simp add: stores_relations_def sample_store_get stored_value_def TO_ONE_not_many)

definition sample_tables :: tables where
  "sample_tables uid =
     (if uid = USER_UID then [[(''id'', JInt 3), (''documentId'', JStr ''u3''), (''department'', JObj [(''id'', JInt 2), (''documentId'', JStr ''hr'')])]]
      else if uid = DEPARTMENT_UID then [[(''id'', JInt 2), (''documentId'', JStr ''hr'')], [(''id'', JInt 5), (''documentId'', JStr ''it'')]]
      else [])"

definition sample_host :: gate_host where
  "sample_host = \<lparr>gh_tables = sample_tables, gh_versions = []\<rparr>"

definition sample_head :: user_row where
  "sample_head = \<lparr>ur_id = 3, ur_displayName = JNull, ur_username = JNull, ur_blocked = JBool False, ur_role = JStr ''department_head'',
     ur_department = Some 2, ur_tokenVersion = JNull, ur_totpEnabledAt = JNull\<rparr>"

definition sample_write :: "string \<Rightarrow> gate_answer \<times> js \<times> fields" where
  "sample_write department =
     writeGate sample_platform sample_host (\<lambda>_ _. []) 0 (Some sample_head) (Some DOCUMENT_UID) None None
       (JObj [(''data'', JObj [(''title'', JStr ''Form''), (''departments'', JArr [JStr department])])]) []"

text \<open>The head of HR writes a form for HR, and is refused one for another department.\<close>

lemma sample_writes:
  "case fst (sample_write ''hr'') of
     GatePass gate \<Rightarrow> ag_roleClass gate = DEPARTMENT_AUTHOR_CLASS \<and> ag_intent gate = ''create'' \<and> ag_department gate = Some (2, ''hr'')
   | _ \<Rightarrow> False"
  "case fst (sample_write ''it'') of GateError (Refused keys codes) \<Rightarrow> keys = [''departments''] \<and> codes = [] | _ \<Rightarrow> False"
  by code_simp+

theorem author_keeps_scope_witness:
  "\<exists>gate. fst (sample_write ''hr'') = GatePass gate \<and>
     rowInDepartmentScope DOCUMENT_UID (sample_store sample_tables (payload_of (fst (snd (sample_write ''hr'')))) (row_before gate)) (2, ''hr'')"
proof -
  have tables: "gh_tables sample_host = sample_tables" by (simp add: sample_host_def)
  have ok: "gate_tables_ok sample_tables" by code_simp
  from sample_writes(1) obtain gate where gate: "fst (sample_write ''hr'') = GatePass gate" "ag_roleClass gate = DEPARTMENT_AUTHOR_CLASS"
    "ag_intent gate \<in> {''create'', ''update''}" "ag_department gate = Some (2, ''hr'')"
    by (auto split: gate_answer.splits)
  then have "sample_write ''hr'' = (GatePass gate, fst (snd (sample_write ''hr'')), snd (snd (sample_write ''hr'')))"
    by (simp add: prod_eq_iff)
  from author_keeps_scope [OF this [unfolded sample_write_def] gate(2,3), unfolded tables, OF ok sample_store_stores] gate(1,4)
  show ?thesis by (simp add: sample_write_def)
qed

end
