(* ===== verification/Audience.thy ===== *)
theory Audience imports AuthoringChecks begin

text \<open>
  Who an announcement, an event or a department-scoped item is for: \<open>packages/domain/src/audience.ts\<close>, the scopes and
  recipients of \<open>apps/cms/src/utils/visible-ids.ts\<close>, the expiry (\<open>announcement-expiry.ts\<close>) and the reading in pages
  (\<open>paged-read.ts\<close>). A row is an object with its relations populated; \<open>dparse\<close> reads an instant.
\<close>

section \<open>The rules of the domain package\<close>

definition AUDIENCE_DEPARTMENTS :: string where "AUDIENCE_DEPARTMENTS = ''departments''"

text \<open>\<open>link?.id\<close>.\<close>

definition link_id :: "js \<Rightarrow> js" where
  "link_id v = (case v of JObj fs \<Rightarrow> jget fs ''id'' | _ \<Rightarrow> JUndef)"

definition list_of :: "js \<Rightarrow> js list" where
  "list_of v = (case v of JArr xs \<Rightarrow> xs | _ \<Rightarrow> [])"

definition hasLinks :: "js \<Rightarrow> bool" where
  "hasLinks links = (list_of links \<noteq> [])"

definition announcementNeedsRetarget :: "fields \<Rightarrow> bool" where
  "announcementNeedsRetarget row =
     (if jget row ''retargetRequired'' = JBool True then True
      else jget row ''audience'' = JStr AUDIENCE_DEPARTMENTS \<and> nullish (jget row ''department'') \<and> nullish (jget row ''team''))"

definition scopedNeedsRetarget :: "fields \<Rightarrow> bool" where
  "scopedNeedsRetarget row = (jget row ''audience'' = JStr AUDIENCE_DEPARTMENTS \<and> \<not> hasLinks (jget row ''departments''))"

definition isInScopedAudience :: "fields \<Rightarrow> js \<Rightarrow> bool" where
  "isInScopedAudience row departmentId =
     (let departments = list_of (jget row ''departments'') in
      if departments = [] then jget row ''audience'' \<noteq> JStr AUDIENCE_DEPARTMENTS
      else \<not> nullish departmentId \<and> list_ex (\<lambda>department. link_id department = departmentId) departments)"

definition eventNeedsRetarget :: "fields \<Rightarrow> bool" where
  "eventNeedsRetarget row = (jget row ''notifyAudience'' = JStr AUDIENCE_DEPARTMENTS \<and> \<not> hasLinks (jget row ''departments''))"

record audience_scope =
  as_roleId :: js
  as_departmentId :: js
  as_teamIds :: "js list"

text \<open>None is an anonymous caller.\<close>

definition isAnnouncementTargetedTo :: "fields \<Rightarrow> audience_scope option \<Rightarrow> bool" where
  "isAnnouncementTargetedTo announcement scope =
     (if announcementNeedsRetarget announcement then False
      else let department = jget announcement ''department''; team = jget announcement ''team'';
          roles = list_of (jget announcement ''audienceRoles'') in
        if \<not> nullish department \<and>
          (case scope of None \<Rightarrow> True | Some s \<Rightarrow> nullish (as_departmentId s) \<or> as_departmentId s \<noteq> link_id department) then False
        else if \<not> nullish team \<and> link_id team \<notin> set (case scope of None \<Rightarrow> [] | Some s \<Rightarrow> as_teamIds s) then False
        else if roles \<noteq> [] \<and>
          (case scope of None \<Rightarrow> True | Some s \<Rightarrow> nullish (as_roleId s) \<or> \<not> list_ex (\<lambda>role. link_id role = as_roleId s) roles) then False
        else True)"

text \<open>The index of the acknowledgement report: user id to team ids.\<close>

definition index_add :: "js \<Rightarrow> js \<Rightarrow> (js \<times> js list) list \<Rightarrow> (js \<times> js list) list" where
  "index_add userId teamId index =
     (if nullish userId then index
      else case map_of index userId of
          Some current \<Rightarrow> if teamId \<in> set current then index else AList.update userId (current @ [teamId]) index
        | None \<Rightarrow> AList.update userId [teamId] index)"

definition index_team :: "fields \<Rightarrow> (js \<times> js list) list \<Rightarrow> (js \<times> js list) list" where
  "index_team team index =
     fold (\<lambda>member. index_add (link_id member) (jget team ''id'')) (list_of (jget team ''members''))
       (index_add (link_id (jget team ''lead'')) (jget team ''id'') index)"

definition teamIdsByUser :: "fields list \<Rightarrow> (js \<times> js list) list" where
  "teamIdsByUser teams = fold index_team teams []"

section \<open>Expiry\<close>

definition isAnnouncementExpired :: "(string \<Rightarrow> int option) \<Rightarrow> fields \<Rightarrow> int \<Rightarrow> bool" where
  "isAnnouncementExpired instantMs row now =
     (case jget row ''expiresAt'' of
        JStr s \<Rightarrow> (case (if s = [] then None else instantMs s) of None \<Rightarrow> False | Some t \<Rightarrow> t \<le> now)
      | _ \<Rightarrow> False)"

text \<open>The rows the query engine keeps; the column holds instants or null.\<close>

definition notExpiredWhere :: "(string \<Rightarrow> int option) \<Rightarrow> int \<Rightarrow> fields \<Rightarrow> bool" where
  "notExpiredWhere instantMs now row =
     (case jget row ''expiresAt'' of
        JStr s \<Rightarrow> (case instantMs s of None \<Rightarrow> False | Some t \<Rightarrow> now < t)
      | v \<Rightarrow> nullish v)"

section \<open>Reading in pages\<close>

definition LOADER_PAGE :: nat where "LOADER_PAGE = 5000"

definition db_page :: "('a \<Rightarrow> int) \<Rightarrow> 'a list \<Rightarrow> int \<Rightarrow> nat \<Rightarrow> 'a list" where
  "db_page key rows afterId limit = take limit (sort_key key (filter (\<lambda>r. afterId < key r) rows))"

lemma db_page_after: "r \<in> set (db_page key rows afterId limit) \<Longrightarrow> r \<in> set rows \<and> afterId < key r"
  unfolding db_page_def by (drule in_set_takeD) simp

text \<open>None is the error of a page that does not advance.\<close>

function paged :: "('a \<Rightarrow> int) \<Rightarrow> 'a list \<Rightarrow> nat \<Rightarrow> int \<Rightarrow> 'a list option" where
  "paged key rows pageSize afterId =
     (let list = db_page key rows afterId pageSize in
      if length list < pageSize then Some list
      else if list = [] \<or> key (last list) \<le> afterId then None
      else map_option (\<lambda>rest. list @ rest) (paged key rows pageSize (key (last list))))"
  by pat_completeness auto

termination
proof (relation "measure (\<lambda>(key, rows, pageSize, afterId). length (filter (\<lambda>r. afterId < key r) rows))", simp)
  fix key :: "'a \<Rightarrow> int" and rows pageSize afterId list
  assume list: "list = db_page key rows afterId pageSize" "\<not> (list = [] \<or> key (last list) \<le> afterId)"
  then have "last list \<in> set list" by simp
  with list(1) have row: "last list \<in> set rows" "afterId < key (last list)" using db_page_after by metis+
  have "filter (\<lambda>r. key (last list) < key r) rows = filter (\<lambda>r. key (last list) < key r) (filter (\<lambda>r. afterId < key r) rows)"
    using row(2) by (auto intro: filter_cong)
  also have "length \<dots> < length (filter (\<lambda>r. afterId < key r) rows)"
    by (rule length_filter_less [of "last list"]) (use row in auto)
  finally show "((key, rows, pageSize, key (last list)), key, rows, pageSize, afterId)
      \<in> measure (\<lambda>(key, rows, pageSize, afterId). length (filter (\<lambda>r. afterId < key r) rows))" by simp
qed

declare paged.simps [simp del]

definition findAllPaged :: "('a \<Rightarrow> int) \<Rightarrow> 'a list \<Rightarrow> nat \<Rightarrow> 'a list option" where
  "findAllPaged key rows pageSize = paged key rows pageSize 0"

lemma sorted_rest:
  assumes "sorted_wrt (\<lambda>a b. key a < (key b :: int)) ys" "0 < n" "n \<le> length ys"
  shows "filter (\<lambda>r. key (last (take n ys)) < key r) ys = drop n ys"
proof -
  from assms(2,3) have ne: "take n ys \<noteq> []" by auto
  have s: "sorted_wrt (\<lambda>a b. key a < key b) (take n ys @ drop n ys)" using assms(1) by simp
  then have "\<forall>a \<in> set (take n ys). \<forall>b \<in> set (drop n ys). key a < key b" unfolding sorted_wrt_append by blast
  with ne have later: "\<forall>b \<in> set (drop n ys). key (last (take n ys)) < key b" by simp
  obtain xs x where x: "take n ys = xs @ [x]" using ne by (metis append_butlast_last_id)
  with s have "\<forall>a \<in> set (take n ys). key a \<le> key (last (take n ys))" by (auto simp: sorted_wrt_append)
  with later have "filter (\<lambda>r. key (last (take n ys)) < key r) (take n ys @ drop n ys) = drop n ys"
    by (auto simp: filter_empty_conv not_less filter_id_conv simp del: append_take_drop_id)
  then show ?thesis by simp
qed

lemma strictly_sorted: "distinct (map key rows) \<Longrightarrow> sorted_wrt (\<lambda>a b. key a < (key b :: int)) (sort_key key rows)"
proof -
  assume "distinct (map key rows)"
  then have "distinct (map key (sort_key key rows))" by (simp add: distinct_map)
  moreover have "sorted (map key (sort_key key rows))" by simp
  ultimately have "sorted_wrt (<) (map key (sort_key key rows))" by (simp add: strict_sorted_iff)
  then show ?thesis by (simp add: sorted_wrt_map)
qed

lemma filter_key_twice: "a < (b :: int) \<Longrightarrow> filter (\<lambda>r. b < key r) (filter (\<lambda>r. a < key r) rows) = filter (\<lambda>r. b < key r) rows"
  by (auto intro: filter_cong)

lemma paged_all:
  "distinct (map key rows) \<Longrightarrow> 0 < pageSize \<Longrightarrow> paged key rows pageSize afterId = Some (sort_key key (filter (\<lambda>r. afterId < key r) rows))"
proof (induction key rows pageSize afterId rule: paged.induct)
  case (1 key rows pageSize afterId)
  let ?ys = "sort_key key (filter (\<lambda>r. afterId < key r) rows)"
  let ?list = "db_page key rows afterId pageSize"
  have list: "?list = take pageSize ?ys" by (simp add: db_page_def)
  have sorted: "sorted_wrt (\<lambda>a b. key a < key b) ?ys" by (rule strictly_sorted) (use "1.prems"(1) in \<open>auto simp: distinct_map inj_on_def\<close>)
  show ?case
  proof (cases "length ?list < pageSize")
    case True
    then show ?thesis by (subst paged.simps) (auto simp: list Let_def)
  next
    case False
    then have n: "pageSize \<le> length ?ys" by (simp add: list)
    with "1.prems"(2) have "length ?ys \<noteq> 0" by linarith
    then have "?ys \<noteq> []" unfolding length_0_conv .
    with "1.prems"(2) have ne: "?list \<noteq> []" by (simp add: list)
    then have "last ?list \<in> set ?list" by (rule last_in_set)
    with db_page_after have after: "afterId < key (last ?list)" by metis
    have "filter (\<lambda>r. key (last ?list) < key r) ?ys = drop pageSize ?ys"
      unfolding list by (rule sorted_rest [OF sorted "1.prems"(2) n])
    then have rest: "sort_key key (filter (\<lambda>r. key (last ?list) < key r) rows) = drop pageSize ?ys"
      unfolding filter_sort filter_key_twice [OF after] .
    from "1.IH" [OF refl False _ "1.prems"] ne after
    have "paged key rows pageSize (key (last ?list)) = Some (drop pageSize ?ys)" by (simp add: rest)
    with False ne after show ?thesis by (subst paged.simps) (simp add: list Let_def)
  qed
qed

text \<open>A read in pages returns every row once, in the order of the ids, whatever the size of a page.\<close>

theorem paged_reads_all:
  assumes "distinct (map key rows)" "list_all (\<lambda>r. 0 < key r) rows" "0 < pageSize"
  shows "findAllPaged key rows pageSize = Some (sort_key key rows)"
proof -
  have "filter (\<lambda>r. 0 < key r) rows = rows" using assms(2) by (simp add: filter_id_conv list_all_iff)
  with paged_all [OF assms(1,3), of 0] show ?thesis by (simp add: findAllPaged_def)
qed

theorem paged_reads_all_witness: "findAllPaged id [5, 1, 4, 2, 3] 2 = Some [1, 2, 3, 4, 5]"
proof -
  have "findAllPaged id [5, 1, 4, 2, 3] 2 = Some (sort_key id [5, 1, 4, 2, 3])" by (rule paged_reads_all) simp_all
  then show ?thesis by simp
qed

section \<open>Scopes and recipients\<close>

record user_scope =
  us_roleId :: js
  us_departmentId :: js
  us_teamIds :: "js list"
  us_ledTeamIds :: "js list"

record recipient_scope = user_scope +
  rs_userId :: js
  rs_roleType :: js

definition readUserScope :: "tables \<Rightarrow> int \<Rightarrow> user_scope" where
  "readUserScope t userId =
     (let me = (case List.find (\<lambda>row. jget row ''id'' = JInt userId) (t USER_UID) of None \<Rightarrow> [] | Some row \<Rightarrow> row) in
      \<lparr>us_roleId = link_id (jget me ''role''), us_departmentId = link_id (jget me ''department''),
       us_teamIds = map link_id (list_of (jget me ''teams'')),
       us_ledTeamIds = map (\<lambda>team. jget team ''id'') (filter (\<lambda>team. link_id (jget team ''lead'') = JInt userId) (t TEAM_UID))\<rparr>)"

text \<open>The same in a request: a known scope answers again, a read one is remembered.\<close>

definition loadUserScope :: "tables \<Rightarrow> int \<Rightarrow> (int \<times> user_scope) list option \<Rightarrow> user_scope \<times> (int \<times> user_scope) list option" where
  "loadUserScope t userId memo =
     (case memo of
        None \<Rightarrow> (readUserScope t userId, None)
      | Some scopes \<Rightarrow>
        (case map_of scopes userId of
           Some known \<Rightarrow> (known, memo)
         | None \<Rightarrow> let pending = readUserScope t userId in (pending, Some (AList.update userId pending scopes))))"

definition led_add :: "fields \<Rightarrow> (js \<times> js list) list \<Rightarrow> (js \<times> js list) list" where
  "led_add team led =
     (let leadId = link_id (jget team ''lead'') in
      if nullish leadId then led
      else AList.update leadId ((case map_of led leadId of None \<Rightarrow> [] | Some ids \<Rightarrow> ids) @ [jget team ''id'']) led)"

definition ledTeamMap :: "fields list \<Rightarrow> (js \<times> js list) list" where
  "ledTeamMap teams = fold led_add teams []"

definition NOT_BLOCKED :: "fields \<Rightarrow> bool" where
  "NOT_BLOCKED user = (jget user ''blocked'' = JBool False \<or> nullish (jget user ''blocked''))"

definition recipient_of :: "(js \<times> js list) list \<Rightarrow> fields \<Rightarrow> recipient_scope" where
  "recipient_of led user =
     \<lparr>us_roleId = link_id (jget user ''role''), us_departmentId = link_id (jget user ''department''),
      us_teamIds = map link_id (list_of (jget user ''teams'')),
      us_ledTeamIds = (case map_of led (jget user ''id'') of None \<Rightarrow> [] | Some ids \<Rightarrow> ids),
      rs_userId = jget user ''id'',
      rs_roleType = (let v = (case jget user ''role'' of JObj fs \<Rightarrow> jget fs ''type'' | _ \<Rightarrow> JUndef) in if nullish v then JNull else v)\<rparr>"

definition loadAllUserScopes :: "tables \<Rightarrow> recipient_scope list" where
  "loadAllUserScopes t = map (recipient_of (ledTeamMap (t TEAM_UID))) (filter NOT_BLOCKED (t USER_UID))"

definition toAudienceScope :: "('a user_scope_scheme) option \<Rightarrow> audience_scope option" where
  "toAudienceScope scope = map_option (\<lambda>s. \<lparr>as_roleId = us_roleId s, as_departmentId = us_departmentId s,
     as_teamIds = us_teamIds s @ us_ledTeamIds s\<rparr>) scope"

definition PERMISSION_UID :: string where "PERMISSION_UID = ''plugin::users-permissions.permission''"

definition loadRoleGrants :: "tables \<Rightarrow> string list \<Rightarrow> string \<Rightarrow> int list" where
  "loadRoleGrants t actions action =
     (if action \<notin> set actions then []
      else List.map_filter (\<lambda>row. if jget row ''action'' = JStr action then row_id (link_id (jget row ''role'')) else None) (t PERMISSION_UID))"

definition holdsGrant :: "('a user_scope_scheme) \<Rightarrow> int list \<Rightarrow> bool" where
  "holdsGrant scope roles = (case us_roleId scope of JInt i \<Rightarrow> i \<in> set roles | _ \<Rightarrow> False)"

definition announcementRecipients :: "fields \<Rightarrow> recipient_scope list \<Rightarrow> int list \<Rightarrow> recipient_scope list" where
  "announcementRecipients announcement scopes readers =
     filter (\<lambda>scope. holdsGrant scope readers \<and> isAnnouncementTargetedTo announcement (toAudienceScope (Some scope))) scopes"

section \<open>Flags read again\<close>

definition raise_row :: "fields \<Rightarrow> fields option \<Rightarrow> fields" where
  "raise_row row now =
     (case now of
        None \<Rightarrow> AList.update ''retargetRequired'' (JBool True) row
      | Some fresh \<Rightarrow>
        AList.update ''retargetRequired'' (JBool (jget row ''retargetRequired'' = JBool True \<or> jget fresh ''retargetRequired'' = JBool True))
          (AList.update ''audience''
            (if jget row ''audience'' = JStr AUDIENCE_DEPARTMENTS \<or> jget fresh ''audience'' = JStr AUDIENCE_DEPARTMENTS
             then JStr AUDIENCE_DEPARTMENTS else jget row ''audience'') row))"

text \<open>A Map of the reread rows: the last row of an id counts.\<close>

definition withFreshAnnouncementFlags :: "fields list \<Rightarrow> fields list \<Rightarrow> fields list" where
  "withFreshAnnouncementFlags rows reread =
     map (\<lambda>row. raise_row row (List.find (\<lambda>now. jget now ''id'' = jget row ''id'') (rev reread))) rows"

definition visible_rows :: "audience_scope option \<Rightarrow> fields list \<Rightarrow> fields list \<Rightarrow> js list" where
  "visible_rows scope rows reread =
     map (\<lambda>row. jget row ''id'') (filter (\<lambda>row. isAnnouncementTargetedTo row scope) (withFreshAnnouncementFlags rows reread))"

definition visibleAnnouncementIds :: "(string \<Rightarrow> int option) \<Rightarrow> int \<Rightarrow> tables \<Rightarrow> int option \<Rightarrow> js list" where
  "visibleAnnouncementIds instantMs now t user =
     (let rows = filter (notExpiredWhere instantMs now) (t ANNOUNCEMENT_UID) in
      visible_rows (toAudienceScope (map_option (readUserScope t) user)) rows rows)"

section \<open>Departments\<close>

definition callerDepartmentId :: "tables \<Rightarrow> int option \<Rightarrow> js" where
  "callerDepartmentId t user =
     (case user of
        None \<Rightarrow> JUndef
      | Some i \<Rightarrow>
        (case List.find (\<lambda>row. jget row ''id'' = JInt i) (t USER_UID) of
           None \<Rightarrow> JUndef
         | Some me \<Rightarrow> (case link_id (jget me ''department'') of JInt d \<Rightarrow> JInt d | _ \<Rightarrow> JUndef)))"

definition departmentScopedIds :: "tables \<Rightarrow> string \<Rightarrow> int option \<Rightarrow> js list" where
  "departmentScopedIds t uid user =
     (let departmentId = callerDepartmentId t user in
      map (\<lambda>row. jget row ''id'') (filter (\<lambda>row. row_id (jget row ''id'') \<noteq> None \<and>
        (let departments = list_of (jget row ''departments'') in
         departments = [] \<and> jget row ''audience'' \<noteq> JStr AUDIENCE_DEPARTMENTS \<or>
         \<not> nullish departmentId \<and> list_ex (\<lambda>department. link_id department = departmentId) departments)) (t uid)))"

section \<open>Wiki spaces\<close>

definition isSpaceVisible :: "fields \<Rightarrow> ('a user_scope_scheme) option \<Rightarrow> bool" where
  "isSpaceVisible space scope =
     (case jget space ''visibility'' of
        JStr v \<Rightarrow>
          if v = ''public'' then True
          else if v = ''role'' then
            (case scope of None \<Rightarrow> False
             | Some s \<Rightarrow> \<not> nullish (us_roleId s) \<and> list_ex (\<lambda>r. link_id r = us_roleId s) (list_of (jget space ''allowedRoles'')))
          else if v = ''department'' then
            (case scope of None \<Rightarrow> False
             | Some s \<Rightarrow> \<not> nullish (us_departmentId s) \<and> link_id (jget space ''department'') = us_departmentId s)
          else if v = ''team'' then
            (case scope of None \<Rightarrow> False
             | Some s \<Rightarrow> \<not> nullish (link_id (jget space ''team'')) \<and> link_id (jget space ''team'') \<in> set (us_teamIds s))
          else False
      | _ \<Rightarrow> False)"

definition visibleWikiSpaceIds :: "tables \<Rightarrow> ('a user_scope_scheme) option \<Rightarrow> js list" where
  "visibleWikiSpaceIds t scope = map (\<lambda>s. jget s ''id'') (filter (\<lambda>s. isSpaceVisible s scope) (t WIKI_SPACE_UID))"

end
