(* ===== verification/Targeting.thy ===== *)
theory Targeting imports Audience WriteGate "HOL-Library.Sublist" begin

text \<open>
  The targeting flags (\<open>apps/cms/src/utils/targeting-flags.ts\<close>, \<open>department-delete-restrict.ts\<close>,
  \<open>poll-department-delete.ts\<close>) and the delete hooks of departments and teams, with the cascade of the database behind
  them: whoever reads an item after a delete could read it before, also when the read overlaps the delete.
\<close>

section \<open>Flags\<close>

definition TARGETING_FLAGS_PAGE :: nat where "TARGETING_FLAGS_PAGE = 200"

record targeting_flag_type =
  tf_uid :: string
  tf_flag :: string
  tf_links :: "string list"

definition ANNOUNCEMENT_TARGETING :: targeting_flag_type where
  "ANNOUNCEMENT_TARGETING = \<lparr>tf_uid = ANNOUNCEMENT_UID, tf_flag = ''audience'', tf_links = [''department'', ''team'']\<rparr>"

definition EVENT_TARGETING :: targeting_flag_type where
  "EVENT_TARGETING = \<lparr>tf_uid = EVENT_UID, tf_flag = ''notifyAudience'', tf_links = [''departments'']\<rparr>"

definition TARGETING_FLAG_TYPES :: "targeting_flag_type list" where
  "TARGETING_FLAG_TYPES = [ANNOUNCEMENT_TARGETING, EVENT_TARGETING]"

definition isLinked :: "js \<Rightarrow> bool" where
  "isLinked v = (case v of JArr xs \<Rightarrow> xs \<noteq> [] | JObj _ \<Rightarrow> True | _ \<Rightarrow> False)"

text \<open>Slices of a list, as the loops over \<open>slice(start, start + n)\<close> take them.\<close>

function chunks :: "nat \<Rightarrow> 'a list \<Rightarrow> 'a list list" where
  "chunks n xs = (if xs = [] \<or> n = 0 then [] else take n xs # chunks n (drop n xs))"
  by pat_completeness auto
termination by (relation "measure (\<lambda>(n, xs). length xs)") auto

declare chunks.simps [simp del]

lemma concat_chunks: "0 < n \<Longrightarrow> concat (chunks n xs) = xs"
  by (induction n xs rule: chunks.induct) (subst chunks.simps, auto)

definition id_in :: "int list \<Rightarrow> fields \<Rightarrow> bool" where
  "id_in ids row = (case jget row ''id'' of JInt i \<Rightarrow> i \<in> set ids | _ \<Rightarrow> False)"

definition flag_pending :: "string \<Rightarrow> bool \<Rightarrow> fields \<Rightarrow> bool" where
  "flag_pending flag marker row =
     (jget row flag \<noteq> JStr AUDIENCE_DEPARTMENTS \<or> marker \<and> jget row ''retargetRequired'' \<noteq> JBool True)"

definition raise_flags :: "string \<Rightarrow> bool \<Rightarrow> fields \<Rightarrow> fields" where
  "raise_flags flag marker row =
     (let raised = AList.update flag (JStr AUDIENCE_DEPARTMENTS) row in
      if marker then AList.update ''retargetRequired'' (JBool True) raised else raised)"

definition raise_chunk :: "string \<Rightarrow> bool \<Rightarrow> int list \<Rightarrow> fields list \<Rightarrow> nat \<times> fields list" where
  "raise_chunk flag marker ids rows =
     (length (filter (\<lambda>row. id_in ids row \<and> flag_pending flag marker row) rows),
      map (\<lambda>row. if id_in ids row \<and> flag_pending flag marker row then raise_flags flag marker row else row) rows)"

text \<open>A loop over pages that counts the rows it changes.\<close>

definition run_pages :: "('p \<Rightarrow> 'a \<Rightarrow> nat \<times> 'a) \<Rightarrow> 'p list \<Rightarrow> 'a \<Rightarrow> nat \<times> 'a" where
  "run_pages f pages rows = fold (\<lambda>page (changed, rows). case f page rows of (n, rows') \<Rightarrow> (changed + n, rows')) pages (0, rows)"

definition raiseTargetingFlags :: "string \<Rightarrow> bool \<Rightarrow> int list \<Rightarrow> fields list \<Rightarrow> nat \<times> fields list" where
  "raiseTargetingFlags flag marker ids rows = run_pages (raise_chunk flag marker) (chunks TARGETING_FLAGS_PAGE ids) rows"

definition text_in :: "string \<Rightarrow> string list \<Rightarrow> fields \<Rightarrow> bool" where
  "text_in key ts row = (case jget row key of JStr s \<Rightarrow> s \<in> set ts | _ \<Rightarrow> False)"

definition flagLinkedTargetingRows :: "targeting_flag_type \<Rightarrow> string list \<Rightarrow> fields list \<Rightarrow> int list \<times> fields list" where
  "flagLinkedTargetingRows type documentIds rows =
     (let toFlag = concat (map (\<lambda>chunk. List.map_filter (\<lambda>row. row_id (jget row ''id''))
            (filter (\<lambda>row. text_in ''documentId'' chunk row \<and> list_ex (\<lambda>link. isLinked (jget row link)) (tf_links type) \<and>
               jget row (tf_flag type) \<noteq> JStr AUDIENCE_DEPARTMENTS) rows)) (chunks TARGETING_FLAGS_PAGE documentIds)) in
      (toFlag, if toFlag = [] then rows else snd (raiseTargetingFlags (tf_flag type) False toFlag rows)))"

section \<open>The guard of writes\<close>

definition POLL_WRITE_ACTIONS :: "string list" where
  "POLL_WRITE_ACTIONS = [''create'', ''update'', ''clone'', ''publish'', ''unpublish'', ''discardDraft'']"

definition named_document :: "js \<Rightarrow> string list" where
  "named_document v = (case v of JObj fs \<Rightarrow> (case jget fs ''documentId'' of JStr s \<Rightarrow> if s = [] then [] else [s] | _ \<Rightarrow> []) | _ \<Rightarrow> [])"

definition affectedDocumentIds :: "js \<Rightarrow> js \<Rightarrow> string list" where
  "affectedDocumentIds params result =
     remdups (named_document params @ named_document result @
       (case result of JObj fs \<Rightarrow> concat (map named_document (list_of (jget fs ''entries''))) | _ \<Rightarrow> []))"

definition patch_row :: "string \<Rightarrow> int list \<Rightarrow> js \<Rightarrow> js" where
  "patch_row flag flagged v =
     (case v of
        JObj fs \<Rightarrow> if id_in flagged fs \<and> has_key flag fs then JObj (AList.update flag (JStr AUDIENCE_DEPARTMENTS) fs) else v
      | _ \<Rightarrow> v)"

definition patchResult :: "js \<Rightarrow> string \<Rightarrow> int list \<Rightarrow> js" where
  "patchResult result flag flagged =
     (case result of
        JObj fs \<Rightarrow>
          (case jget fs ''entries'' of
             JArr rows \<Rightarrow> JObj (AList.update ''entries'' (JArr (map (patch_row flag flagged) rows)) fs)
           | _ \<Rightarrow> patch_row flag flagged result)
      | _ \<Rightarrow> result)"

definition createTargetingFlagsGuard ::
  "string \<Rightarrow> string \<Rightarrow> js \<Rightarrow> (fields list \<Rightarrow> ('e + js) \<times> fields list) \<Rightarrow> fields list \<Rightarrow> ('e + js) \<times> fields list" where
  "createTargetingFlagsGuard uid action params next rows =
     (case List.find (\<lambda>candidate. tf_uid candidate = uid) TARGETING_FLAG_TYPES of
        None \<Rightarrow> next rows
      | Some type \<Rightarrow>
        if action \<notin> set POLL_WRITE_ACTIONS then next rows
        else (case next rows of
            (Inl e, _) \<Rightarrow> (Inl e, rows)
          | (Inr result, rows1) \<Rightarrow>
            (case flagLinkedTargetingRows type (affectedDocumentIds params result) rows1 of
               (flagged, rows2) \<Rightarrow> (Inr (if flagged = [] then result else patchResult result (tf_flag type) flagged), rows2))))"

section \<open>Delete hooks\<close>

definition DEPARTMENT_LINKED_DOCUMENTS :: "(string \<times> string list) list" where
  "DEPARTMENT_LINKED_DOCUMENTS =
     [(ANNOUNCEMENT_UID, [''department'', ''ownerDepartment'']), (EVENT_UID, [''departments'', ''ownerDepartment'']),
      (DOCUMENT_UID, [''departments'', ''ownerDepartment'']), (DUTY_PLAN_UID, [''department'', ''ownerDepartment'']),
      (KPI_UID, [''department'', ''ownerDepartment'']), (WIKI_PAGE_UID, [''department''])]"

definition TEAM_LINKED_DOCUMENTS :: "(string \<times> string list) list" where
  "TEAM_LINKED_DOCUMENTS = [(ANNOUNCEMENT_UID, [''team'']), (WIKI_PAGE_UID, [''team''])]"

definition row_key :: "fields \<Rightarrow> int" where
  "row_key row = (case jget row ''id'' of JInt i \<Rightarrow> i | _ \<Rightarrow> 0)"

text \<open>The rows the delete matches, read in pages; the locks of Postgres keep them.\<close>

definition lockMatchedRows :: "(fields \<Rightarrow> bool) \<Rightarrow> fields list \<Rightarrow> int list" where
  "lockMatchedRows matches rows =
     (case findAllPaged row_key (filter matches rows) TARGETING_FLAGS_PAGE of None \<Rightarrow> [] | Some page \<Rightarrow> map row_key page)"

definition linked_ids :: "js \<Rightarrow> js list" where
  "linked_ids v = (case v of JArr xs \<Rightarrow> map link_id xs | JObj _ \<Rightarrow> [link_id v] | _ \<Rightarrow> [])"

definition links_any :: "string \<Rightarrow> int list \<Rightarrow> fields \<Rightarrow> bool" where
  "links_any attribute ids row = list_ex (\<lambda>i. case i of JInt n \<Rightarrow> n \<in> set ids | _ \<Rightarrow> False) (linked_ids (jget row attribute))"

definition rowIdsLinking :: "fields list \<Rightarrow> string \<Rightarrow> int list \<Rightarrow> int list" where
  "rowIdsLinking rows attribute targetIds =
     sort (remdups (List.map_filter (\<lambda>row. row_id (jget row ''id'')) (filter (links_any attribute targetIds) rows)))"

definition documentsLinking :: "tables \<Rightarrow> (string \<times> string list) list \<Rightarrow> int list \<Rightarrow> doc list" where
  "documentsLinking t relations targetIds =
     (if targetIds = [] then []
      else sort_key fst (sort_key snd (remdups (concat (map (\<lambda>(uid, attributes).
        concat (map (\<lambda>attribute.
          List.map_filter (\<lambda>row. case jget row ''documentId'' of JStr d \<Rightarrow> if d = [] then None else Some (uid, d) | _ \<Rightarrow> None)
            (filter (id_in (rowIdsLinking (t uid) attribute targetIds)) (t uid))) attributes)) relations)))))"

definition advanceRevisionsOf :: "doc list \<Rightarrow> 'r cms \<Rightarrow> 'r cms" where
  "advanceRevisionsOf refs c = fold (\<lambda>d c. snd (advanceRevision d (snd (lockDocument d c)))) refs c"

definition markAnnouncementsLinking :: "string \<Rightarrow> int list \<Rightarrow> fields list \<Rightarrow> nat \<times> fields list" where
  "markAnnouncementsLinking relation targetIds rows =
     (if targetIds = [] then (0, rows) else raiseTargetingFlags ''audience'' True (rowIdsLinking rows relation targetIds) rows)"

definition flagEventsLinking :: "int list \<Rightarrow> fields list \<Rightarrow> nat \<times> fields list" where
  "flagEventsLinking departmentIds rows =
     (if departmentIds = [] then (0, rows) else raiseTargetingFlags ''notifyAudience'' False (rowIdsLinking rows ''departments'' departmentIds) rows)"

definition DEPARTMENT_SCOPED_TYPES :: "string list" where
  "DEPARTMENT_SCOPED_TYPES = [DOCUMENT_UID, QUICK_LINK_UID, COURSE_UID]"

text \<open>The link table of an attribute: a row and the linked row each.\<close>

definition link_rows :: "string \<Rightarrow> fields list \<Rightarrow> (int \<times> int) list" where
  "link_rows attribute rows =
     concat (map (\<lambda>row. case row_id (jget row ''id'') of
         None \<Rightarrow> []
       | Some i \<Rightarrow> List.map_filter (\<lambda>v. case v of JInt d \<Rightarrow> Some (i, d) | _ \<Rightarrow> None) (linked_ids (jget row attribute))) rows)"

definition DEPARTMENT_DELETE_PAGE :: nat where "DEPARTMENT_DELETE_PAGE = 500"

definition POLL_DEPARTMENT_DELETE_PAGE :: nat where "POLL_DEPARTMENT_DELETE_PAGE = 500"

definition POLL_AUDIENCE_GUARD_CHUNK :: nat where "POLL_AUDIENCE_GUARD_CHUNK = 200"

definition setDepartmentsAudience :: "int list \<Rightarrow> fields list \<Rightarrow> nat \<times> fields list" where
  "setDepartmentsAudience ids rows = run_pages (raise_chunk ''audience'' False) (chunks DEPARTMENT_DELETE_PAGE ids) rows"

definition setDepartmentsFlag :: "int list \<Rightarrow> fields list \<Rightarrow> nat \<times> fields list" where
  "setDepartmentsFlag ids rows = run_pages (raise_chunk ''audience'' False) (chunks POLL_AUDIENCE_GUARD_CHUNK ids) rows"

definition links_to :: "int list \<Rightarrow> fields list \<Rightarrow> (int \<times> int) list" where
  "links_to departmentIds rows = filter (\<lambda>l. snd l \<in> set departmentIds) (link_rows ''departments'' rows)"

definition restrictRowsLinking :: "int list \<Rightarrow> fields list \<Rightarrow> nat \<times> fields list" where
  "restrictRowsLinking departmentIds rows =
     run_pages (\<lambda>page. setDepartmentsAudience (remdups (map fst page))) (chunks DEPARTMENT_DELETE_PAGE (links_to departmentIds rows)) rows"

definition flagPollsLinkingDepartments :: "int list \<Rightarrow> fields list \<Rightarrow> nat \<times> fields list" where
  "flagPollsLinkingDepartments departmentIds rows =
     run_pages (\<lambda>page. setDepartmentsFlag (remdups (map fst page))) (chunks POLL_DEPARTMENT_DELETE_PAGE (links_to departmentIds rows)) rows"

definition on_table :: "string \<Rightarrow> (fields list \<Rightarrow> nat \<times> fields list) \<Rightarrow> tables \<Rightarrow> tables" where
  "on_table uid f t = t(uid := snd (f (t uid)))"

text \<open>The departments the delete matches, which the locks keep, page by page.\<close>

definition restrictRowsOfDeletedDepartments :: "int list \<Rightarrow> tables \<Rightarrow> tables" where
  "restrictRowsOfDeletedDepartments departmentIds t =
     fold (\<lambda>page t. fold (\<lambda>uid. on_table uid (restrictRowsLinking page)) DEPARTMENT_SCOPED_TYPES t)
       (chunks DEPARTMENT_DELETE_PAGE departmentIds) t"

definition flagPollsOfDeletedDepartments :: "int list \<Rightarrow> tables \<Rightarrow> tables" where
  "flagPollsOfDeletedDepartments departmentIds t =
     on_table POLL_UID (run_pages flagPollsLinkingDepartments (chunks POLL_DEPARTMENT_DELETE_PAGE departmentIds)) t"

definition advance_host :: "doc list \<Rightarrow> gate_host \<Rightarrow> gate_host" where
  "advance_host refs h = h\<lparr>gh_versions := c_versions (advanceRevisionsOf refs (cms_of h))\<rparr>"

definition keepTargetsRestricted_team :: "(fields \<Rightarrow> bool) \<Rightarrow> gate_host \<Rightarrow> gate_host" where
  "keepTargetsRestricted_team matches h =
     (let teamIds = lockMatchedRows matches (gh_tables h TEAM_UID) in
      if teamIds = [] then h
      else let h1 = advance_host (documentsLinking (gh_tables h) TEAM_LINKED_DOCUMENTS teamIds) h in
        h1\<lparr>gh_tables := on_table ANNOUNCEMENT_UID (markAnnouncementsLinking ''team'' teamIds) (gh_tables h1)\<rparr>)"

definition keepTargetsRestricted_department :: "(fields \<Rightarrow> bool) \<Rightarrow> gate_host \<Rightarrow> gate_host" where
  "keepTargetsRestricted_department matches h =
     (let departmentIds = lockMatchedRows matches (gh_tables h DEPARTMENT_UID) in
      if departmentIds = [] then h
      else let h1 = advance_host (documentsLinking (gh_tables h) DEPARTMENT_LINKED_DOCUMENTS departmentIds) h;
          t1 = flagPollsOfDeletedDepartments departmentIds (gh_tables h1);
          t2 = restrictRowsOfDeletedDepartments departmentIds t1;
          t3 = on_table ANNOUNCEMENT_UID (markAnnouncementsLinking ''department'' departmentIds) t2;
          t4 = on_table EVENT_UID (flagEventsLinking departmentIds) t3 in
        h1\<lparr>gh_tables := t4\<rparr>)"

section \<open>The delete\<close>

text \<open>What the database does after the hook: the rows and every link to them are gone.\<close>

definition unlink :: "int list \<Rightarrow> js \<Rightarrow> js" where
  "unlink ids v =
     (case v of
        JArr xs \<Rightarrow> JArr (filter (\<lambda>x. case link_id x of JInt n \<Rightarrow> n \<notin> set ids | _ \<Rightarrow> True) xs)
      | JObj fs \<Rightarrow> (case jget fs ''id'' of JInt n \<Rightarrow> if n \<in> set ids then JNull else v | _ \<Rightarrow> v)
      | _ \<Rightarrow> v)"

definition unlink_row :: "string list \<Rightarrow> int list \<Rightarrow> fields \<Rightarrow> fields" where
  "unlink_row attributes ids row = map (\<lambda>(k, v). (k, if k \<in> set attributes then unlink ids v else v)) row"

definition DEPARTMENT_RELATIONS :: "string list" where
  "DEPARTMENT_RELATIONS = [''department'', ''departments'', ''ownerDepartment'']"

definition TEAM_RELATIONS :: "string list" where "TEAM_RELATIONS = [''team'', ''teams'']"

definition cascade :: "string \<Rightarrow> string list \<Rightarrow> int list \<Rightarrow> tables \<Rightarrow> tables" where
  "cascade uid attributes ids t =
     (\<lambda>u. map (unlink_row attributes ids) (if u = uid then filter (\<lambda>row. \<not> id_in ids row) (t u) else t u))"

definition deleteTeams :: "(fields \<Rightarrow> bool) \<Rightarrow> gate_host \<Rightarrow> gate_host" where
  "deleteTeams matches h =
     (let h1 = keepTargetsRestricted_team matches h in
      h1\<lparr>gh_tables := cascade TEAM_UID TEAM_RELATIONS (lockMatchedRows matches (gh_tables h TEAM_UID)) (gh_tables h1)\<rparr>)"

definition deleteDepartments :: "(fields \<Rightarrow> bool) \<Rightarrow> gate_host \<Rightarrow> gate_host" where
  "deleteDepartments matches h =
     (let h1 = keepTargetsRestricted_department matches h in
      h1\<lparr>gh_tables := cascade DEPARTMENT_UID DEPARTMENT_RELATIONS (lockMatchedRows matches (gh_tables h DEPARTMENT_UID)) (gh_tables h1)\<rparr>)"

datatype org_delete = DeleteTeams "fields \<Rightarrow> bool" | DeleteDepartments "fields \<Rightarrow> bool"

fun run_delete :: "org_delete \<Rightarrow> gate_host \<Rightarrow> gate_host" where
  "run_delete (DeleteTeams m) h = deleteTeams m h"
| "run_delete (DeleteDepartments m) h = deleteDepartments m h"

definition run_deletes :: "org_delete list \<Rightarrow> gate_host \<Rightarrow> gate_host" where
  "run_deletes ds h = fold run_delete ds h"

text \<open>An announcement read while deletes commit: its scalars first, then one statement per relation.\<close>

definition relation_of :: "tables \<Rightarrow> js \<Rightarrow> string \<Rightarrow> js" where
  "relation_of t i key = (case List.find (\<lambda>row. jget row ''id'' = i) (t ANNOUNCEMENT_UID) of None \<Rightarrow> JNull | Some row \<Rightarrow> jget row key)"

definition torn_row :: "tables \<Rightarrow> tables \<Rightarrow> tables \<Rightarrow> fields \<Rightarrow> fields" where
  "torn_row t1 t2 t3 row =
     (let i = jget row ''id'' in
      AList.update ''audienceRoles'' (relation_of t3 i ''audienceRoles'')
        (AList.update ''team'' (relation_of t2 i ''team'') (AList.update ''department'' (relation_of t1 i ''department'') row)))"

section \<open>What raising does\<close>

definition raised :: "string \<Rightarrow> bool \<Rightarrow> int list \<Rightarrow> fields \<Rightarrow> fields" where
  "raised flag marker ids row = (if id_in ids row \<and> flag_pending flag marker row then raise_flags flag marker row else row)"

lemma jget_update [simp]: "jget (AList.update k v fs) x = (if x = k then v else jget fs x)"
  by (simp add: jget_def update_conv')

lemma jget_raise: "jget (raise_flags flag marker row) k =
   (if marker \<and> k = ''retargetRequired'' then JBool True else if k = flag then JStr AUDIENCE_DEPARTMENTS else jget row k)"
  by (simp add: raise_flags_def Let_def)

lemma id_in_raise: "flag \<noteq> ''id'' \<Longrightarrow> id_in ids (raise_flags flag marker row) = id_in ids row"
  by (simp add: id_in_def jget_raise)

lemma raised_twice:
  assumes "flag \<noteq> ''id''" "flag \<noteq> ''retargetRequired''"
  shows "raised flag marker ids2 (raised flag marker ids1 row) = raised flag marker (ids1 @ ids2) row"
proof -
  have "\<not> flag_pending flag marker (raise_flags flag marker row)" using assms by (simp add: flag_pending_def jget_raise)
  moreover have "id_in (ids1 @ ids2) row \<longleftrightarrow> id_in ids1 row \<or> id_in ids2 row" by (auto simp: id_in_def split: js.splits)
  ultimately show ?thesis by (auto simp: raised_def)
qed

lemma raise_chunk_map: "snd (raise_chunk flag marker ids rows) = map (raised flag marker ids) rows"
  by (simp add: raise_chunk_def raised_def)

lemma run_pages_rows: "snd (run_pages f pages rows) = fold (\<lambda>page rows. snd (f page rows)) pages rows"
proof -
  have "snd (fold (\<lambda>page (changed, rows). case f page rows of (n, rows') \<Rightarrow> (changed + n, rows')) pages (m, rows)) =
      fold (\<lambda>page rows. snd (f page rows)) pages rows" for m
    by (induction pages arbitrary: m rows) (simp_all add: case_prod_unfold)
  then show ?thesis by (simp add: run_pages_def)
qed

lemma raised_cong: "set xs = set ys \<Longrightarrow> raised flag marker xs = raised flag marker ys"
proof -
  assume eq: "set xs = set ys"
  have "id_in xs row = id_in ys row" for row by (simp add: id_in_def eq split: js.split)
  then show ?thesis by (simp add: raised_def fun_eq_iff)
qed

lemma raised_none [simp]: "raised flag marker [] = id"
  by (rule ext) (simp add: raised_def id_in_def split: js.splits)

lemma raise_pages:
  assumes "flag \<noteq> ''id''" "flag \<noteq> ''retargetRequired''" "\<And>page xs. snd (f page (map (raised flag marker xs) rows)) = map (raised flag marker (g page)) (map (raised flag marker xs) rows)"
  shows "fold (\<lambda>page rows. snd (f page rows)) pages rows = map (raised flag marker (concat (map g pages))) rows"
proof -
  have "fold (\<lambda>page rows. snd (f page rows)) pages (map (raised flag marker xs) rows) = map (raised flag marker (xs @ concat (map g pages))) rows" for xs
  proof (induction pages arbitrary: xs)
    case (Cons page pages)
    have "snd (f page (map (raised flag marker xs) rows)) = map (raised flag marker (xs @ g page)) rows"
      unfolding assms(3) by (simp add: raised_twice [OF assms(1,2)])
    then show ?case by (simp add: Cons.IH)
  qed simp
  from this [of "[]"] show ?thesis by simp
qed

lemma raise_chunks:
  assumes "flag \<noteq> ''id''" "flag \<noteq> ''retargetRequired''" "0 < n"
  shows "snd (run_pages (raise_chunk flag marker) (chunks n ids) rows) = map (raised flag marker ids) rows"
proof -
  have "fold (\<lambda>page rows. snd (raise_chunk flag marker page rows)) (chunks n ids) rows =
      map (raised flag marker (concat (map (\<lambda>page. page) (chunks n ids)))) rows"
    by (rule raise_pages [OF assms(1,2)]) (rule raise_chunk_map)
  then show ?thesis by (simp add: run_pages_rows concat_chunks [OF assms(3)])
qed

lemma raise_all:
  "flag \<noteq> ''id'' \<Longrightarrow> flag \<noteq> ''retargetRequired'' \<Longrightarrow>
     snd (raiseTargetingFlags flag marker ids rows) = map (raised flag marker ids) rows"
  unfolding raiseTargetingFlags_def by (rule raise_chunks) (simp_all add: TARGETING_FLAGS_PAGE_def)

section \<open>What the cascade does\<close>

lemma unlink_undef [simp]: "unlink ids JUndef = JUndef" "unlink ids JNull = JNull"
  by (simp_all add: unlink_def)

lemma jget_unlink: "jget (unlink_row attributes ids row) k = (if k \<in> set attributes then unlink ids (jget row k) else jget row k)"
proof -
  have "map_of (unlink_row attributes ids row) k = map_option (\<lambda>v. if k \<in> set attributes then unlink ids v else v) (map_of row k)"
    by (induction row) (auto simp: unlink_row_def)
  then show ?thesis by (simp add: jget_def split: option.split)
qed

lemma unlink_same: "\<not> list_ex (\<lambda>i. case i of JInt n \<Rightarrow> n \<in> set ids | _ \<Rightarrow> False) (linked_ids v) \<Longrightarrow> unlink ids v = v"
  by (auto simp: unlink_def linked_ids_def link_id_def list_ex_iff filter_id_conv split: js.splits)

lemma unlink_link: "link_id (unlink ids v) = link_id v \<or> nullish (link_id (unlink ids v))"
  by (auto simp: unlink_def link_id_def split: js.splits)

lemma unlink_list: "set (list_of (unlink ids v)) \<subseteq> set (list_of v)"
  by (auto simp: unlink_def list_of_def split: js.splits)

lemma links_any_unlink: "\<not> links_any k ids row \<Longrightarrow> k' = k \<Longrightarrow> jget (unlink_row attributes ids row) k' = jget row k"
  by (simp add: jget_unlink links_any_def unlink_same)

section \<open>One delete\<close>

definition keyed_rows :: "fields list \<Rightarrow> bool" where
  "keyed_rows rows = (list_all (\<lambda>row. row_id (jget row ''id'') \<noteq> None) rows \<and> distinct (map row_key rows))"

lemma keyed_rows_id: "keyed_rows rows \<Longrightarrow> row \<in> set rows \<Longrightarrow> jget row ''id'' = JInt (row_key row)"
  by (auto simp: keyed_rows_def list_all_iff row_id_def row_key_def split: js.splits)

lemma linking_in:
  assumes "keyed_rows rows" "row \<in> set rows" "links_any k ids row"
  shows "id_in (rowIdsLinking rows k ids) row"
proof -
  note i = keyed_rows_id [OF assms(1,2)]
  have "row_key row \<in> set (rowIdsLinking rows k ids)"
    using assms(2,3) by (force simp: rowIdsLinking_def map_filter_mem row_id_def i)
  with i show ?thesis by (simp add: id_in_def)
qed

text \<open>The tables after a delete, as one map over their rows.\<close>

definition hook_row :: "string \<Rightarrow> string \<Rightarrow> fields list \<Rightarrow> int list \<Rightarrow> fields \<Rightarrow> fields" where
  "hook_row uid relation rows ids =
     (if uid = ANNOUNCEMENT_UID then raised ''audience'' True (rowIdsLinking rows relation ids)
      else if relation = ''team'' then id
      else if uid = EVENT_UID then raised ''notifyAudience'' False (rowIdsLinking rows ''departments'' ids)
      else if uid \<in> {DOCUMENT_UID, QUICK_LINK_UID, COURSE_UID, POLL_UID} then raised ''audience'' False (rowIdsLinking rows ''departments'' ids)
      else id)"

text \<open>The types are different ones.\<close>

lemma uid_neq [simp]:
  "ANNOUNCEMENT_UID \<noteq> EVENT_UID" "ANNOUNCEMENT_UID \<noteq> DOCUMENT_UID" "ANNOUNCEMENT_UID \<noteq> QUICK_LINK_UID"
  "ANNOUNCEMENT_UID \<noteq> COURSE_UID" "ANNOUNCEMENT_UID \<noteq> POLL_UID" "EVENT_UID \<noteq> ANNOUNCEMENT_UID"
  "EVENT_UID \<noteq> DOCUMENT_UID" "EVENT_UID \<noteq> QUICK_LINK_UID" "EVENT_UID \<noteq> COURSE_UID"
  "EVENT_UID \<noteq> POLL_UID" "DOCUMENT_UID \<noteq> ANNOUNCEMENT_UID" "DOCUMENT_UID \<noteq> EVENT_UID"
  "DOCUMENT_UID \<noteq> QUICK_LINK_UID" "DOCUMENT_UID \<noteq> COURSE_UID" "DOCUMENT_UID \<noteq> POLL_UID"
  "QUICK_LINK_UID \<noteq> ANNOUNCEMENT_UID" "QUICK_LINK_UID \<noteq> EVENT_UID" "QUICK_LINK_UID \<noteq> DOCUMENT_UID"
  "QUICK_LINK_UID \<noteq> COURSE_UID" "QUICK_LINK_UID \<noteq> POLL_UID" "COURSE_UID \<noteq> ANNOUNCEMENT_UID"
  "COURSE_UID \<noteq> EVENT_UID" "COURSE_UID \<noteq> DOCUMENT_UID" "COURSE_UID \<noteq> QUICK_LINK_UID"
  "COURSE_UID \<noteq> POLL_UID" "POLL_UID \<noteq> ANNOUNCEMENT_UID" "POLL_UID \<noteq> EVENT_UID"
  "POLL_UID \<noteq> DOCUMENT_UID" "POLL_UID \<noteq> QUICK_LINK_UID" "POLL_UID \<noteq> COURSE_UID"
  "USER_UID \<noteq> ANNOUNCEMENT_UID" "USER_UID \<noteq> EVENT_UID" "USER_UID \<noteq> DOCUMENT_UID"
  "USER_UID \<noteq> QUICK_LINK_UID" "USER_UID \<noteq> COURSE_UID" "USER_UID \<noteq> POLL_UID"
  "TEAM_UID \<noteq> ANNOUNCEMENT_UID" "TEAM_UID \<noteq> EVENT_UID" "TEAM_UID \<noteq> DOCUMENT_UID"
  "TEAM_UID \<noteq> QUICK_LINK_UID" "TEAM_UID \<noteq> COURSE_UID" "TEAM_UID \<noteq> POLL_UID"
  "DEPARTMENT_UID \<noteq> ANNOUNCEMENT_UID" "DEPARTMENT_UID \<noteq> EVENT_UID" "DEPARTMENT_UID \<noteq> DOCUMENT_UID"
  "DEPARTMENT_UID \<noteq> QUICK_LINK_UID" "DEPARTMENT_UID \<noteq> COURSE_UID" "DEPARTMENT_UID \<noteq> POLL_UID"
  "WIKI_SPACE_UID \<noteq> ANNOUNCEMENT_UID" "WIKI_SPACE_UID \<noteq> EVENT_UID" "WIKI_SPACE_UID \<noteq> DOCUMENT_UID"
  "WIKI_SPACE_UID \<noteq> QUICK_LINK_UID" "WIKI_SPACE_UID \<noteq> COURSE_UID" "WIKI_SPACE_UID \<noteq> POLL_UID"
  by (simp_all add: uid_defs USER_UID_def)

lemma linking_none [simp]: "rowIdsLinking rows k [] = []"
proof -
  have "\<not> links_any k [] row" for row by (auto simp: links_any_def list_ex_iff split: js.splits)
  then show ?thesis by (simp add: rowIdsLinking_def)
qed

lemma mark_rows: "snd (markAnnouncementsLinking relation ids rows) = map (raised ''audience'' True (rowIdsLinking rows relation ids)) rows"
  by (simp add: markAnnouncementsLinking_def raise_all)

lemma event_rows_flagged: "snd (flagEventsLinking ids rows) = map (raised ''notifyAudience'' False (rowIdsLinking rows ''departments'' ids)) rows"
  by (simp add: flagEventsLinking_def raise_all)

lemma links_any_iff: "links_any k ids row \<longleftrightarrow> (\<exists>d \<in> set ids. JInt d \<in> set (linked_ids (jget row k)))"
proof -
  have "(case v of JInt n \<Rightarrow> n \<in> set ids | _ \<Rightarrow> False) \<longleftrightarrow> (\<exists>d \<in> set ids. v = JInt d)" for v by (cases v) auto
  then show ?thesis by (auto simp: links_any_def list_ex_iff)
qed

lemma link_mem: "(i, d) \<in> set (link_rows k rows) \<longleftrightarrow> (\<exists>row \<in> set rows. row_id (jget row ''id'') = Some i \<and> JInt d \<in> set (linked_ids (jget row k)))"
proof -
  have int: "(case v of JInt d \<Rightarrow> Some (i', d) | _ \<Rightarrow> None) = Some (i, d) \<longleftrightarrow> i' = i \<and> v = JInt d" for v and i' :: int by (cases v) auto
  have "(i, d) \<in> set (case row_id (jget row ''id'') of None \<Rightarrow> []
       | Some i \<Rightarrow> List.map_filter (\<lambda>v. case v of JInt d \<Rightarrow> Some (i, d) | _ \<Rightarrow> None) (linked_ids (jget row k))) \<longleftrightarrow>
     row_id (jget row ''id'') = Some i \<and> JInt d \<in> set (linked_ids (jget row k))" for row
    by (cases "row_id (jget row ''id'')") (auto simp only: option.case map_filter_mem int list.set empty_iff option.inject option.distinct)
  then show ?thesis by (auto simp: link_rows_def simp del: split_paired_Ex)
qed

lemma links_ids: "fst ` set (links_to ids rows) = set (rowIdsLinking rows ''departments'' ids)"
proof (rule set_eqI)
  fix i
  have "i \<in> fst ` set (links_to ids rows) \<longleftrightarrow> (\<exists>d \<in> set ids. (i, d) \<in> set (link_rows ''departments'' rows))"
    by (force simp: links_to_def)
  also have "\<dots> \<longleftrightarrow> (\<exists>row \<in> set rows. links_any ''departments'' ids row \<and> row_id (jget row ''id'') = Some i)"
    unfolding links_any_iff link_mem by blast
  also have "\<dots> \<longleftrightarrow> i \<in> set (rowIdsLinking rows ''departments'' ids)" by (auto simp: rowIdsLinking_def map_filter_mem)
  finally show "i \<in> fst ` set (links_to ids rows) \<longleftrightarrow> i \<in> set (rowIdsLinking rows ''departments'' ids)" .
qed

lemma linking_raised: "flag \<noteq> ''id'' \<Longrightarrow> k \<notin> {flag, ''retargetRequired''} \<Longrightarrow> rowIdsLinking (map (raised flag marker xs) rows) k ids = rowIdsLinking rows k ids"
proof -
  assume k: "flag \<noteq> ''id''" "k \<notin> {flag, ''retargetRequired''}"
  then have "links_any k ids (raised flag marker xs row) = links_any k ids row" "jget (raised flag marker xs row) ''id'' = jget row ''id''" for row
    by (simp_all add: links_any_def raised_def jget_raise)
  then have "(row_id (jget row ''id''), links_any k ids row) = (row_id (jget (raised flag marker xs row) ''id''), links_any k ids (raised flag marker xs row))" for row by simp
  then show ?thesis by (simp add: rowIdsLinking_def map_filter_def filter_map comp_def)
qed

lemma restrict_pages:
  assumes "\<And>ids rows. snd (set_flag ids rows) = map (raised ''audience'' False ids) rows" "0 < n"
  shows "snd (run_pages (\<lambda>page. set_flag (remdups (map fst page))) (chunks n (links_to ids rows)) rows) =
    map (raised ''audience'' False (rowIdsLinking rows ''departments'' ids)) rows"
proof -
  have "snd (run_pages (\<lambda>page. set_flag (remdups (map fst page))) (chunks n (links_to ids rows)) rows) =
      map (raised ''audience'' False (concat (map (\<lambda>page. remdups (map fst page)) (chunks n (links_to ids rows))))) rows"
    unfolding run_pages_rows by (rule raise_pages) (simp_all add: assms(1))
  moreover have "set (concat (map (\<lambda>page. remdups (map fst page)) (chunks n (links_to ids rows)))) = fst ` set (concat (chunks n (links_to ids rows)))"
    by auto
  ultimately show ?thesis
    by (simp only: concat_chunks [OF assms(2)] links_ids raised_cong [of "concat _" "rowIdsLinking rows ''departments'' ids"])
qed

lemma restricted_rows: "snd (restrictRowsLinking ids rows) = map (raised ''audience'' False (rowIdsLinking rows ''departments'' ids)) rows"
  unfolding restrictRowsLinking_def
  by (rule restrict_pages) (simp_all add: setDepartmentsAudience_def raise_chunks DEPARTMENT_DELETE_PAGE_def)

lemma polls_flagged: "snd (flagPollsLinkingDepartments ids rows) = map (raised ''audience'' False (rowIdsLinking rows ''departments'' ids)) rows"
  unfolding flagPollsLinkingDepartments_def
  by (rule restrict_pages) (simp_all add: setDepartmentsFlag_def raise_chunks POLL_AUDIENCE_GUARD_CHUNK_def POLL_DEPARTMENT_DELETE_PAGE_def)

lemma department_pages:
  assumes "\<And>ids rows. snd (f ids rows) = map (raised ''audience'' False (rowIdsLinking rows ''departments'' ids)) rows" "0 < n"
  shows "fold (\<lambda>page rows. snd (f page rows)) (chunks n ids) rows = map (raised ''audience'' False (rowIdsLinking rows ''departments'' ids)) rows"
proof -
  have "fold (\<lambda>page rows. snd (f page rows)) (chunks n ids) rows =
      map (raised ''audience'' False (concat (map (rowIdsLinking rows ''departments'') (chunks n ids)))) rows"
    by (rule raise_pages) (simp_all only: assms(1) linking_raised, simp_all add: linking_raised)
  moreover have "set (concat (map (rowIdsLinking rows ''departments'') pages)) = set (rowIdsLinking rows ''departments'' (concat pages))" for pages
    by (fastforce simp: rowIdsLinking_def map_filter_mem links_any_def list_ex_iff split: js.splits)
  ultimately show ?thesis by (simp only: concat_chunks [OF assms(2)] raised_cong [of "concat _" "rowIdsLinking rows ''departments'' ids"])
qed

lemma polls_restricted:
  "flagPollsOfDeletedDepartments ids t = t(POLL_UID := map (raised ''audience'' False (rowIdsLinking (t POLL_UID) ''departments'' ids)) (t POLL_UID))"
  by (simp add: flagPollsOfDeletedDepartments_def on_table_def run_pages_rows department_pages [OF polls_flagged] POLL_DEPARTMENT_DELETE_PAGE_def)

lemma scoped_restricted:
  "restrictRowsOfDeletedDepartments ids t u =
     (if u \<in> set DEPARTMENT_SCOPED_TYPES then map (raised ''audience'' False (rowIdsLinking (t u) ''departments'' ids)) (t u) else t u)"
proof -
  let ?step = "\<lambda>page t. fold (\<lambda>uid. on_table uid (restrictRowsLinking page)) DEPARTMENT_SCOPED_TYPES t"
  have one: "?step page t u = (if u \<in> set DEPARTMENT_SCOPED_TYPES then snd (restrictRowsLinking page (t u)) else t u)" for page t
    by (simp add: DEPARTMENT_SCOPED_TYPES_def on_table_def)
  have "fold ?step pages t u = (if u \<in> set DEPARTMENT_SCOPED_TYPES then fold (\<lambda>page rows. snd (restrictRowsLinking page rows)) pages (t u) else t u)" for pages
    by (induction pages arbitrary: t) (simp_all add: one)
  then show ?thesis by (simp add: restrictRowsOfDeletedDepartments_def department_pages [OF restricted_rows] DEPARTMENT_DELETE_PAGE_def)
qed

lemma advance_tables [simp]: "gh_tables (advance_host refs h) = gh_tables h"
  by (simp add: advance_host_def)

lemma hook_row_none [simp]: "hook_row uid relation rows [] = id"
  by (simp add: hook_row_def)

lemma hook_team: "gh_tables (keepTargetsRestricted_team m h) u =
    map (hook_row u ''team'' (gh_tables h u) (lockMatchedRows m (gh_tables h TEAM_UID))) (gh_tables h u)"
  by (cases "lockMatchedRows m (gh_tables h TEAM_UID) = []")
    (simp_all add: keepTargetsRestricted_team_def Let_def on_table_def mark_rows hook_row_def)

lemma hook_department: "gh_tables (keepTargetsRestricted_department m h) u =
    map (hook_row u ''department'' (gh_tables h u) (lockMatchedRows m (gh_tables h DEPARTMENT_UID))) (gh_tables h u)"
  by (cases "lockMatchedRows m (gh_tables h DEPARTMENT_UID) = []")
    (simp_all add: keepTargetsRestricted_department_def Let_def on_table_def mark_rows event_rows_flagged hook_row_def
      polls_restricted scoped_restricted DEPARTMENT_SCOPED_TYPES_def)

definition gone :: "org_delete \<Rightarrow> gate_host \<Rightarrow> string \<times> string \<times> string list \<times> int list" where
  "gone d h = (case d of
     DeleteTeams m \<Rightarrow> (TEAM_UID, ''team'', TEAM_RELATIONS, lockMatchedRows m (gh_tables h TEAM_UID))
   | DeleteDepartments m \<Rightarrow> (DEPARTMENT_UID, ''department'', DEPARTMENT_RELATIONS, lockMatchedRows m (gh_tables h DEPARTMENT_UID)))"

lemma id_in_unlinked: "id_in ids (hook_row u relation rows xs row) = id_in ids row"
  by (simp add: hook_row_def raised_def id_in_raise)

lemma tables_after:
  assumes "gone d h = (uid, relation, attributes, ids)"
  shows "gh_tables (run_delete d h) u =
    map (\<lambda>row. unlink_row attributes ids (hook_row u relation (gh_tables h u) ids row))
      (if u = uid then filter (\<lambda>row. \<not> id_in ids row) (gh_tables h u) else gh_tables h u)"
  using assms
  by (cases d) (auto simp: gone_def deleteTeams_def deleteDepartments_def Let_def cascade_def hook_team hook_department comp_def filter_map id_in_unlinked)

section \<open>Announcements\<close>

definition marked :: "fields \<Rightarrow> bool" where
  "marked row = (jget row ''retargetRequired'' = JBool True)"

definition TARGET_KEYS :: "string list" where
  "TARGET_KEYS = [''department'', ''team'', ''audienceRoles'', ''audience'', ''retargetRequired'']"

text \<open>A row of an announcement before and after deletes: marked, or targeted as before.\<close>

definition row_rel :: "fields \<Rightarrow> fields \<Rightarrow> bool" where
  "row_rel r r' =
     (jget r' ''id'' = jget r ''id'' \<and> jget r' ''expiresAt'' = jget r ''expiresAt'' \<and> (marked r \<longrightarrow> marked r') \<and>
      (marked r' \<or> list_all (\<lambda>k. jget r' k = jget r k) TARGET_KEYS))"

lemma row_rel_refl: "row_rel r r"
  by (simp add: row_rel_def list_all_iff)

lemma row_rel_trans: "row_rel a b \<Longrightarrow> row_rel b c \<Longrightarrow> row_rel a c"
  by (auto simp: row_rel_def list_all_iff)

lemma raised_mark: "id_in ids row \<Longrightarrow> marked (raised ''audience'' True ids row)"
  by (auto simp: raised_def marked_def flag_pending_def jget_raise)

lemma announcement_step:
  assumes "gone d h = (uid, relation, attributes, ids)" "keyed_rows rows" "row \<in> set rows"
  shows "row_rel row (unlink_row attributes ids (hook_row ANNOUNCEMENT_UID relation rows ids row))"
proof -
  let ?ids = "rowIdsLinking rows relation ids"
  have attributes: "attributes = TEAM_RELATIONS \<and> relation = ''team'' \<or> attributes = DEPARTMENT_RELATIONS \<and> relation = ''department''"
    using assms(1) by (cases d) (auto simp: gone_def)
  then have other: "''id'' \<notin> set attributes" "''expiresAt'' \<notin> set attributes" "''retargetRequired'' \<notin> set attributes"
      "''audience'' \<notin> set attributes" "''audienceRoles'' \<notin> set attributes"
    by (auto simp: TEAM_RELATIONS_def DEPARTMENT_RELATIONS_def)
  have hook: "hook_row ANNOUNCEMENT_UID relation rows ids row = raised ''audience'' True ?ids row" by (simp add: hook_row_def)
  show ?thesis
  proof (cases "id_in ?ids row")
    case True
    from raised_mark [OF this] have "marked (unlink_row attributes ids (raised ''audience'' True ?ids row))"
      using other by (simp add: marked_def jget_unlink)
    then show ?thesis unfolding hook row_rel_def using other by (simp add: jget_unlink) (simp add: raised_def jget_raise)
  next
    case False
    with linking_in [OF assms(2,3)] have "\<not> links_any relation ids row" by blast
    from links_any_unlink [OF this refl] have kept: "jget (unlink_row attributes ids row) relation = jget row relation" .
    have "jget (unlink_row attributes ids row) k = jget row k" if "k \<in> set TARGET_KEYS" for k
      using that kept attributes other by (auto simp: TARGET_KEYS_def jget_unlink TEAM_RELATIONS_def DEPARTMENT_RELATIONS_def)
    then show ?thesis unfolding hook row_rel_def using False other by (simp add: raised_def jget_unlink marked_def list_all_iff)
  qed
qed

definition org_ok :: "gate_host \<Rightarrow> bool" where
  "org_ok h = (\<forall>uid. keyed_rows (gh_tables h uid))"

lemma kept_id: "gone d h = (uid, relation, attributes, ids) \<Longrightarrow> jget (unlink_row attributes ids (hook_row u relation rows ids row)) ''id'' = jget row ''id''"
  by (cases d) (auto simp: gone_def jget_unlink TEAM_RELATIONS_def DEPARTMENT_RELATIONS_def hook_row_def raised_def jget_raise)

lemma keyed_rows_map:
  assumes "keyed_rows rows" "\<And>row. row \<in> set rows \<Longrightarrow> jget (f row) ''id'' = jget row ''id''"
  shows "keyed_rows (map f rows)"
proof -
  have "map row_key (map f rows) = map row_key rows" using assms(2) by (simp add: row_key_def)
  then show ?thesis using assms by (simp add: keyed_rows_def list_all_iff del: map_map)
qed

lemma keyed_rows_filter: "keyed_rows rows \<Longrightarrow> keyed_rows (filter P rows)"
  by (auto simp: keyed_rows_def list_all_iff distinct_map_filter)

lemma delete_ok: "org_ok h \<Longrightarrow> org_ok (run_delete d h)"
proof -
  obtain uid relation attributes ids where g: "gone d h = (uid, relation, attributes, ids)" by (metis prod_cases4)
  assume "org_ok h"
  then have "keyed_rows (gh_tables h u)" for u by (simp add: org_ok_def)
  then show ?thesis unfolding org_ok_def tables_after [OF g]
    by (auto intro!: keyed_rows_map keyed_rows_filter kept_id [OF g])
qed

lemma deletes_ok: "org_ok h \<Longrightarrow> org_ok (run_deletes ds h)"
  by (induction ds arbitrary: h) (simp_all add: run_deletes_def delete_ok)

lemma delete_rows_rel: "org_ok h \<Longrightarrow> list_all2 row_rel (gh_tables h ANNOUNCEMENT_UID) (gh_tables (run_delete d h) ANNOUNCEMENT_UID)"
proof -
  obtain uid relation attributes ids where g: "gone d h = (uid, relation, attributes, ids)" by (metis prod_cases4)
  assume ok: "org_ok h"
  have "uid = TEAM_UID \<or> uid = DEPARTMENT_UID" using g by (cases d) (auto simp: gone_def)
  then have "uid \<noteq> ANNOUNCEMENT_UID" by (elim disjE) simp_all
  with not_sym [OF this] announcement_step [OF g] ok show ?thesis
    by (simp add: tables_after [OF g] list.rel_map list.rel_refl_strong org_ok_def)
qed

lemma deletes_rows: "org_ok h \<Longrightarrow> list_all2 row_rel (gh_tables h ANNOUNCEMENT_UID) (gh_tables (run_deletes ds h) ANNOUNCEMENT_UID)"
proof (induction ds arbitrary: h)
  case Nil
  then show ?case by (simp add: run_deletes_def list.rel_refl row_rel_refl)
next
  case (Cons d ds)
  from list_all2_trans [of row_rel row_rel row_rel, OF row_rel_trans delete_rows_rel [OF Cons.prems] Cons.IH [OF delete_ok [OF Cons.prems]]]
  show ?case by (simp add: run_deletes_def)
qed

lemma targeted_unmarked: "isAnnouncementTargetedTo row scope \<Longrightarrow> \<not> marked row"
  by (auto simp: isAnnouncementTargetedTo_def announcementNeedsRetarget_def marked_def)

lemma targeted_cong: "list_all (\<lambda>k. jget r' k = jget r k) TARGET_KEYS \<Longrightarrow> isAnnouncementTargetedTo r' scope = isAnnouncementTargetedTo r scope"
  by (simp add: TARGET_KEYS_def isAnnouncementTargetedTo_def announcementNeedsRetarget_def)

lemma targeted_back: "row_rel r r' \<Longrightarrow> isAnnouncementTargetedTo r' scope \<Longrightarrow> isAnnouncementTargetedTo r scope"
  using targeted_unmarked targeted_cong by (auto simp: row_rel_def)

section \<open>Readers\<close>

definition scope_le :: "user_scope \<Rightarrow> user_scope \<Rightarrow> bool" where
  "scope_le s' s =
     (us_roleId s' = us_roleId s \<and> (us_departmentId s' = us_departmentId s \<or> nullish (us_departmentId s')) \<and>
      set (us_teamIds s') \<subseteq> set (us_teamIds s) \<and> set (us_ledTeamIds s') \<subseteq> set (us_ledTeamIds s))"

lemma scope_le_refl: "scope_le s s"
  by (simp add: scope_le_def)

lemma scope_le_trans: "scope_le a b \<Longrightarrow> scope_le b c \<Longrightarrow> scope_le a c"
  by (auto simp: scope_le_def)

lemma targeted_mono:
  "scope_le s' s \<Longrightarrow> isAnnouncementTargetedTo row (toAudienceScope (Some s')) \<Longrightarrow> isAnnouncementTargetedTo row (toAudienceScope (Some s))"
  by (auto simp: isAnnouncementTargetedTo_def Let_def toAudienceScope_def scope_le_def split: if_splits)

lemma space_mono: "scope_le s' s \<Longrightarrow> isSpaceVisible row (Some s') \<Longrightarrow> isSpaceVisible row (Some s)"
  by (auto simp: isSpaceVisible_def scope_le_def split: js.splits if_splits)

lemma found_at: "List.find P xs = Some x \<Longrightarrow> x \<in> set xs \<and> P x"
  by (auto simp: find_Some_iff)

lemma find_of_map: "List.find P (map f xs) = map_option f (List.find (P \<circ> f) xs)"
  by (induction xs) auto

lemma link_list: "set (map link_id (list_of (unlink ids v))) \<subseteq> set (map link_id (list_of v))"
  using unlink_list [of ids v] by auto

lemma scope_step:
  assumes g: "gone d h = (uid, relation, attributes, ids)"
  shows "scope_le (readUserScope (gh_tables (run_delete d h)) u) (readUserScope (gh_tables h) u)"
proof -
  have cases: "attributes = TEAM_RELATIONS \<and> uid = TEAM_UID \<or> attributes = DEPARTMENT_RELATIONS \<and> uid = DEPARTMENT_UID"
    using g by (cases d) (auto simp: gone_def)
  then have keys: "''id'' \<notin> set attributes" "''role'' \<notin> set attributes" "''lead'' \<notin> set attributes"
    by (auto simp: TEAM_RELATIONS_def DEPARTMENT_RELATIONS_def)
  have uid: "USER_UID \<noteq> uid" using cases by (elim disjE conjE) (simp_all add: uid_defs USER_UID_def)
  have users: "gh_tables (run_delete d h) USER_UID = map (unlink_row attributes ids) (gh_tables h USER_UID)"
    using uid by (simp add: tables_after [OF g] hook_row_def)
  have teams: "gh_tables (run_delete d h) TEAM_UID =
      map (unlink_row attributes ids) (if TEAM_UID = uid then filter (\<lambda>row. \<not> id_in ids row) (gh_tables h TEAM_UID) else gh_tables h TEAM_UID)"
    by (simp add: tables_after [OF g] hook_row_def)
  let ?P = "\<lambda>row. jget row ''id'' = JInt u"
  have "?P \<circ> unlink_row attributes ids = ?P" using keys(1) by (simp add: jget_unlink fun_eq_iff)
  then have found: "List.find ?P (gh_tables (run_delete d h) USER_UID) = map_option (unlink_row attributes ids) (List.find ?P (gh_tables h USER_UID))"
    by (simp add: users find_of_map)
  have led: "set (us_ledTeamIds (readUserScope (gh_tables (run_delete d h)) u)) \<subseteq> set (us_ledTeamIds (readUserScope (gh_tables h) u))"
    using keys by (auto simp: readUserScope_def teams jget_unlink Let_def split: if_splits)
  show ?thesis
  proof (cases "List.find ?P (gh_tables h USER_UID)")
    case None
    with found led show ?thesis by (simp add: scope_le_def readUserScope_def Let_def)
  next
    case (Some me)
    have "link_id (unlink ids (jget me ''department'')) = link_id (jget me ''department'') \<or> nullish (link_id (unlink ids (jget me ''department'')))"
      by (rule unlink_link)
    with Some found led keys link_list [of ids "jget me ''teams''"] show ?thesis by (auto simp: scope_le_def readUserScope_def jget_unlink Let_def)
  qed
qed

lemma deletes_scope: "scope_le (readUserScope (gh_tables (run_deletes ds h)) u) (readUserScope (gh_tables h) u)"
proof (induction ds arbitrary: h)
  case Nil
  then show ?case by (simp add: run_deletes_def scope_le_refl)
next
  case (Cons d ds)
  obtain uid relation attributes ids where g: "gone d h = (uid, relation, attributes, ids)" by (metis prod_cases4)
  from scope_le_trans [OF Cons.IH scope_step [OF g]] show ?case by (simp add: run_deletes_def)
qed

lemma raise_same [simp]: "isAnnouncementTargetedTo (raise_row row (Some row)) scope = isAnnouncementTargetedTo row scope"
  by (auto simp: raise_row_def isAnnouncementTargetedTo_def announcementNeedsRetarget_def split: if_splits)

lemma fresh_same:
  assumes "keyed_rows rows"
  shows "withFreshAnnouncementFlags rows rows = map (\<lambda>row. raise_row row (Some row)) rows"
proof -
  have "List.find (\<lambda>now. jget now ''id'' = jget row ''id'') (rev rows) = Some row" if "row \<in> set rows" for row
  proof -
    have ok: "keyed_rows (rev rows)" using assms by (simp add: keyed_rows_def rev_map [symmetric])
    have "x = row" if "x \<in> set rows" "jget x ''id'' = jget row ''id''" for x
      using assms that \<open>row \<in> set rows\<close> by (auto simp: keyed_rows_def distinct_map inj_on_def row_key_def)
    with that show ?thesis
      by (cases "List.find (\<lambda>now. jget now ''id'' = jget row ''id'') (rev rows)") (auto simp: find_None_iff dest!: found_at)
  qed
  then show ?thesis by (simp add: withFreshAnnouncementFlags_def)
qed

lemma visible_same:
  "keyed_rows rows \<Longrightarrow> visible_rows scope rows rows = map (\<lambda>row. jget row ''id'') (filter (\<lambda>row. isAnnouncementTargetedTo row scope) rows)"
  by (simp add: visible_rows_def fresh_same filter_map comp_def) (simp add: raise_row_def)

lemma visible_ids:
  assumes "org_ok h"
  shows "visibleAnnouncementIds f now (gh_tables h) user = map (\<lambda>row. jget row ''id'')
    (filter (\<lambda>row. isAnnouncementTargetedTo row (toAudienceScope (map_option (readUserScope (gh_tables h)) user)))
      (filter (notExpiredWhere f now) (gh_tables h ANNOUNCEMENT_UID)))"
  using assms by (simp add: visibleAnnouncementIds_def Let_def visible_same keyed_rows_filter org_ok_def)

lemma all2_in: "list_all2 R xs ys \<Longrightarrow> y \<in> set ys \<Longrightarrow> \<exists>x \<in> set xs. R x y"
  by (induction rule: list_all2_induct) auto

lemma announcements_shrink:
  assumes ok: "org_ok h" and i: "i \<in> set (visibleAnnouncementIds f now (gh_tables (run_deletes ds h)) user)"
  shows "i \<in> set (visibleAnnouncementIds f now (gh_tables h) user)"
proof -
  let ?s = "\<lambda>h. toAudienceScope (map_option (readUserScope (gh_tables h)) user)"
  from i obtain r' where r': "r' \<in> set (gh_tables (run_deletes ds h) ANNOUNCEMENT_UID)" "notExpiredWhere f now r'"
    "isAnnouncementTargetedTo r' (?s (run_deletes ds h))" "i = jget r' ''id''"
    by (auto simp: visible_ids [OF deletes_ok [OF ok]])
  from all2_in [OF deletes_rows [OF ok] r'(1)] obtain r where r: "r \<in> set (gh_tables h ANNOUNCEMENT_UID)" "row_rel r r'" by blast
  have "isAnnouncementTargetedTo r' (?s h)"
    using r'(3) targeted_mono [OF deletes_scope] by (cases user) auto
  with targeted_back [OF r(2)] have "isAnnouncementTargetedTo r (?s h)" by blast
  moreover have "notExpiredWhere f now r" "jget r ''id'' = i" using r'(2,4) r(2) by (simp_all add: row_rel_def notExpiredWhere_def)
  ultimately show ?thesis using r(1) by (force simp: visible_ids [OF ok])
qed

section \<open>Department-scoped items and wiki spaces\<close>

lemma scoped_audience: "departmentScopedIds t uid user =
    map (\<lambda>row. jget row ''id'') (filter (\<lambda>row. row_id (jget row ''id'') \<noteq> None \<and> isInScopedAudience row (callerDepartmentId t user)) (t uid))"
  unfolding departmentScopedIds_def Let_def
  by (rule arg_cong [of _ _ "map _"], rule filter_cong) (auto simp: isInScopedAudience_def Let_def)

definition SCOPED_UIDS :: "string list" where "SCOPED_UIDS = DEPARTMENT_SCOPED_TYPES @ [POLL_UID]"

lemma scoped_step:
  assumes "gone d h = (uid, relation, attributes, ids)" "keyed_rows rows" "row \<in> set rows" "u \<in> set SCOPED_UIDS"
    "isInScopedAudience (unlink_row attributes ids (hook_row u relation rows ids row)) departmentId"
  shows "isInScopedAudience row departmentId"
proof -
  let ?ids = "rowIdsLinking rows ''departments'' ids"
  have u: "u \<noteq> ANNOUNCEMENT_UID" "u \<noteq> EVENT_UID" "u \<in> {DOCUMENT_UID, QUICK_LINK_UID, COURSE_UID, POLL_UID}"
    using assms(4) by (auto simp: SCOPED_UIDS_def DEPARTMENT_SCOPED_TYPES_def)
  consider "attributes = TEAM_RELATIONS" "relation = ''team''" | "attributes = DEPARTMENT_RELATIONS" "relation = ''department''"
    using assms(1) by (cases d) (auto simp: gone_def)
  then show ?thesis
  proof cases
    case 1
    with u assms(5) show ?thesis by (auto simp: hook_row_def isInScopedAudience_def jget_unlink TEAM_RELATIONS_def Let_def)
  next
    case 2
    let ?row = "raised ''audience'' False ?ids row"
    have hook: "hook_row u relation rows ids row = ?row" using u 2 by (simp add: hook_row_def)
    have departments: "jget (unlink_row attributes ids ?row) ''departments'' = unlink ids (jget row ''departments'')"
      "jget (unlink_row attributes ids ?row) ''audience'' = jget ?row ''audience''"
      using 2 by (simp_all add: jget_unlink DEPARTMENT_RELATIONS_def raised_def jget_raise)
    show ?thesis
    proof (cases "id_in ?ids row")
      case True
      then have "jget ?row ''audience'' = JStr AUDIENCE_DEPARTMENTS" by (auto simp: raised_def flag_pending_def jget_raise)
      with assms(5) unlink_list [of ids "jget row ''departments''"] show ?thesis
        by (auto simp: hook isInScopedAudience_def Let_def departments list_ex_iff split: if_splits)
    next
      case False
      with linking_in [OF assms(2,3)] have "\<not> links_any ''departments'' ids row" by blast
      then have "unlink ids (jget row ''departments'') = jget row ''departments''" by (simp add: links_any_def unlink_same)
      moreover have "?row = row" using False by (simp add: raised_def)
      ultimately show ?thesis using assms(5) departments by (auto simp: hook isInScopedAudience_def Let_def split: if_splits)
    qed
  qed
qed

lemma department_of_scope: "callerDepartmentId t user =
    (case user of None \<Rightarrow> JUndef | Some i \<Rightarrow> (case us_departmentId (readUserScope t i) of JInt d \<Rightarrow> JInt d | _ \<Rightarrow> JUndef))"
  by (simp add: callerDepartmentId_def readUserScope_def Let_def link_id_def jget_def split: option.split)

lemma scoped_mono:
  assumes "scope_le s' s" "isInScopedAudience row (case us_departmentId s' of JInt d \<Rightarrow> JInt d | _ \<Rightarrow> JUndef)"
  shows "isInScopedAudience row (case us_departmentId s of JInt d \<Rightarrow> JInt d | _ \<Rightarrow> JUndef)"
  using assms by (auto simp: scope_le_def isInScopedAudience_def Let_def split: js.splits if_splits)

lemma scoped_back:
  assumes "org_ok h" "i \<in> set (departmentScopedIds (gh_tables (run_delete d h)) u user)" "u \<in> set SCOPED_UIDS"
  shows "i \<in> set (departmentScopedIds (gh_tables h) u user)"
proof -
  obtain uid relation attributes ids where g: "gone d h = (uid, relation, attributes, ids)" by (metis prod_cases4)
  have "uid = TEAM_UID \<or> uid = DEPARTMENT_UID" using g by (cases d) (auto simp: gone_def)
  with assms(3) have u: "u \<noteq> uid" by (auto simp: SCOPED_UIDS_def DEPARTMENT_SCOPED_TYPES_def uid_defs)
  from assms(2) u obtain row where row: "row \<in> set (gh_tables h u)"
    "isInScopedAudience (unlink_row attributes ids (hook_row u relation (gh_tables h u) ids row)) (callerDepartmentId (gh_tables (run_delete d h)) user)"
    "i = jget row ''id''" "row_id (jget row ''id'') \<noteq> None"
    by (auto simp: scoped_audience tables_after [OF g] kept_id [OF g])
  have "keyed_rows (gh_tables h u)" using assms(1) by (simp add: org_ok_def)
  from scoped_step [OF g this row(1) assms(3) row(2)]
  have "isInScopedAudience row (callerDepartmentId (gh_tables h) user)"
    using scoped_mono [OF scope_step [OF g]] by (cases user) (auto simp: department_of_scope)
  with row show ?thesis by (force simp: scoped_audience)
qed

lemma scoped_shrink:
  "org_ok h \<Longrightarrow> u \<in> set SCOPED_UIDS \<Longrightarrow> i \<in> set (departmentScopedIds (gh_tables (run_deletes ds h)) u user) \<Longrightarrow>
   i \<in> set (departmentScopedIds (gh_tables h) u user)"
proof (induction ds arbitrary: h)
  case (Cons d ds)
  from Cons.IH [OF delete_ok [OF Cons.prems(1)] Cons.prems(2)] Cons.prems(3)
  have "i \<in> set (departmentScopedIds (gh_tables (run_delete d h)) u user)" by (simp add: run_deletes_def)
  from scoped_back [OF Cons.prems(1) this Cons.prems(2)] show ?case .
qed (simp add: run_deletes_def)

lemma space_step:
  assumes "gone d h = (uid, relation, attributes, ids)" "isSpaceVisible (unlink_row attributes ids row) scope"
  shows "isSpaceVisible row scope"
proof -
  have keys: "''visibility'' \<notin> set attributes" "''allowedRoles'' \<notin> set attributes"
    using assms(1) by (cases d; auto simp: gone_def TEAM_RELATIONS_def DEPARTMENT_RELATIONS_def)+
  have link: "link_id (jget (unlink_row attributes ids row) k) = link_id (jget row k) \<or> nullish (link_id (jget (unlink_row attributes ids row) k))" for k
    using unlink_link [of ids "jget row k"] by (simp add: jget_unlink)
  show ?thesis
    using assms(2) keys link [of "''department''"] link [of "''team''"]
    by (auto simp: isSpaceVisible_def jget_unlink split: js.splits if_splits option.splits)
qed

lemma space_back:
  assumes "i \<in> set (visibleWikiSpaceIds (gh_tables (run_delete d h)) (map_option (readUserScope (gh_tables (run_delete d h))) user))"
  shows "i \<in> set (visibleWikiSpaceIds (gh_tables h) (map_option (readUserScope (gh_tables h)) user))"
proof -
  obtain uid relation attributes ids where g: "gone d h = (uid, relation, attributes, ids)" by (metis prod_cases4)
  have "uid = TEAM_UID \<or> uid = DEPARTMENT_UID" using g by (cases d) (auto simp: gone_def)
  then have u: "WIKI_SPACE_UID \<noteq> uid" by (auto simp: uid_defs)
  have hook: "hook_row WIKI_SPACE_UID relation rows ids = id" for rows by (simp add: hook_row_def)
  have kept: "jget (unlink_row attributes ids row) ''id'' = jget row ''id''" for row
    using kept_id [OF g, of WIKI_SPACE_UID "[]" row] by (simp add: hook)
  from assms u obtain row where row: "row \<in> set (gh_tables h WIKI_SPACE_UID)" "i = jget row ''id''"
    "isSpaceVisible (unlink_row attributes ids row) (map_option (readUserScope (gh_tables (run_delete d h))) user)"
    by (auto simp: visibleWikiSpaceIds_def tables_after [OF g] hook kept)
  from space_step [OF g row(3)] have "isSpaceVisible row (map_option (readUserScope (gh_tables h)) user)"
    using space_mono [OF scope_step [OF g]] by (cases user) auto
  with row show ?thesis by (auto simp: visibleWikiSpaceIds_def)
qed

lemma space_shrink:
  "i \<in> set (visibleWikiSpaceIds (gh_tables (run_deletes ds h)) (map_option (readUserScope (gh_tables (run_deletes ds h))) user)) \<Longrightarrow>
   i \<in> set (visibleWikiSpaceIds (gh_tables h) (map_option (readUserScope (gh_tables h)) user))"
proof (induction ds arbitrary: h)
  case (Cons d ds)
  have "run_deletes (d # ds) h = run_deletes ds (run_delete d h)" by (simp add: run_deletes_def)
  from space_back [OF Cons.IH [OF Cons.prems [unfolded this]]] show ?case .
qed (simp add: run_deletes_def)

section \<open>Deletes never widen\<close>

text \<open>C35: Whatever departments and teams are deleted, nobody reads an item afterwards that nobody showed them before.\<close>

theorem deletes_never_widen:
  assumes "org_ok h"
  shows "set (visibleAnnouncementIds f now (gh_tables (run_deletes ds h)) user) \<subseteq> set (visibleAnnouncementIds f now (gh_tables h) user) \<and>
    list_all (\<lambda>uid. set (departmentScopedIds (gh_tables (run_deletes ds h)) uid user) \<subseteq> set (departmentScopedIds (gh_tables h) uid user)) SCOPED_UIDS \<and>
    set (visibleWikiSpaceIds (gh_tables (run_deletes ds h)) (map_option (readUserScope (gh_tables (run_deletes ds h))) user)) \<subseteq>
      set (visibleWikiSpaceIds (gh_tables h) (map_option (readUserScope (gh_tables h)) user))"
proof (intro conjI subsetI)
  fix i assume "i \<in> set (visibleAnnouncementIds f now (gh_tables (run_deletes ds h)) user)"
  then show "i \<in> set (visibleAnnouncementIds f now (gh_tables h) user)" by (rule announcements_shrink [OF assms])
next
  show "list_all (\<lambda>uid. set (departmentScopedIds (gh_tables (run_deletes ds h)) uid user) \<subseteq> set (departmentScopedIds (gh_tables h) uid user)) SCOPED_UIDS"
    using scoped_shrink [OF assms] by (auto simp: list_all_iff)
next
  fix i assume "i \<in> set (visibleWikiSpaceIds (gh_tables (run_deletes ds h)) (map_option (readUserScope (gh_tables (run_deletes ds h))) user))"
  then show "i \<in> set (visibleWikiSpaceIds (gh_tables h) (map_option (readUserScope (gh_tables h)) user))" by (rule space_shrink)
qed

definition sample_link :: "int \<Rightarrow> js" where "sample_link i = JObj [(''id'', JInt i)]"

definition sample_org :: gate_host where
  "sample_org = \<lparr>gh_tables = (\<lambda>uid.
     if uid = ANNOUNCEMENT_UID then
       [[(''id'', JInt 1), (''documentId'', JStr ''a''), (''department'', sample_link 2), (''team'', sample_link 7), (''audience'', JStr ''departments'')],
        [(''id'', JInt 2), (''documentId'', JStr ''b''), (''department'', JNull), (''team'', JNull), (''audience'', JStr ''all'')]]
     else if uid = USER_UID then [[(''id'', JInt 3), (''department'', sample_link 2), (''teams'', JArr [sample_link 7])],
        [(''id'', JInt 4), (''department'', sample_link 2), (''teams'', JArr [])]]
     else if uid = DEPARTMENT_UID then [[(''id'', JInt 2)]]
     else if uid = TEAM_UID then [[(''id'', JInt 7), (''lead'', JNull)]]
     else []), gh_versions = [((ANNOUNCEMENT_UID, ''a''), 5)]\<rparr>"

definition sample_deletes :: "org_delete list" where
  "sample_deletes = [DeleteTeams (\<lambda>row. jget row ''id'' = JInt 7)]"

lemma sample_org_ok: "org_ok sample_org"
  by (simp add: org_ok_def sample_org_def keyed_rows_def row_id_def row_key_def jget_def)

text \<open>The announcement of the team is for nobody once the team is gone, and not for the rest of the department.\<close>

theorem deletes_never_widen_witness:
  "visibleAnnouncementIds (\<lambda>_. None) 0 (gh_tables sample_org) (Some 3) = [JInt 1, JInt 2] \<and>
   set (visibleAnnouncementIds (\<lambda>_. None) 0 (gh_tables (run_deletes sample_deletes sample_org)) (Some 3)) \<subseteq> {JInt 1, JInt 2} \<and>
   visibleAnnouncementIds (\<lambda>_. None) 0 (gh_tables (run_deletes sample_deletes sample_org)) (Some 4) = [JInt 2]"
proof -
  have "visibleAnnouncementIds (\<lambda>_. None) 0 (gh_tables sample_org) (Some 3) = [JInt 1, JInt 2]"
    "visibleAnnouncementIds (\<lambda>_. None) 0 (gh_tables (run_deletes sample_deletes sample_org)) (Some 4) = [JInt 2]"
    by code_simp+
  with deletes_never_widen [OF sample_org_ok, of "\<lambda>_. None" 0 sample_deletes "Some 3"] show ?thesis by simp
qed

section \<open>Reads that overlap deletes\<close>

lemma same_keyed: "keyed_rows rows \<Longrightarrow> x \<in> set rows \<Longrightarrow> y \<in> set rows \<Longrightarrow> jget x ''id'' = jget y ''id'' \<Longrightarrow> x = y"
  by (auto simp: keyed_rows_def distinct_map inj_on_def row_key_def)

text \<open>The row read at a prefix of the deletes, when its mark is not set at the end.\<close>

lemma row_between:
  assumes ok: "org_ok h" and ds: "prefix d ds" and r: "r \<in> set (gh_tables h ANNOUNCEMENT_UID)"
    and r4: "r4 \<in> set (gh_tables (run_deletes ds h) ANNOUNCEMENT_UID)" "jget r4 ''id'' = jget r ''id''" "\<not> marked r4"
    and k: "k \<in> set TARGET_KEYS"
  shows "relation_of (gh_tables (run_deletes d h)) (jget r ''id'') k = jget r k \<and> jget r4 k = jget r k"
proof -
  from ds obtain rest where rest: "ds = d @ rest" by (auto elim: prefixE)
  let ?h1 = "run_deletes d h"
  have ok1: "org_ok ?h1" by (rule deletes_ok [OF ok])
  have run: "run_deletes ds h = run_deletes rest ?h1" by (simp add: run_deletes_def rest)
  from all2_in [OF deletes_rows [OF ok1] r4(1) [unfolded run]] obtain r1 where
    r1: "r1 \<in> set (gh_tables ?h1 ANNOUNCEMENT_UID)" "row_rel r1 r4" by blast
  from all2_in [OF deletes_rows [OF ok] r1(1)] obtain r0 where r0: "r0 \<in> set (gh_tables h ANNOUNCEMENT_UID)" "row_rel r0 r1" by blast
  have ids: "jget r1 ''id'' = jget r ''id''" "jget r0 ''id'' = jget r ''id''" using r0(2) r1(2) r4(2) by (simp_all add: row_rel_def)
  have "r0 = r" using same_keyed [OF _ r0(1) r ids(2)] ok by (simp add: org_ok_def)
  moreover have "\<not> marked r1" using r1(2) r4(3) by (auto simp: row_rel_def)
  ultimately have "jget r1 k = jget r k" "jget r4 k = jget r1 k" using r0(2) r1(2) r4(3) k by (auto simp: row_rel_def list_all_iff)
  moreover have "List.find (\<lambda>row. jget row ''id'' = jget r ''id'') (gh_tables ?h1 ANNOUNCEMENT_UID) = Some r1"
  proof (cases "List.find (\<lambda>row. jget row ''id'' = jget r ''id'') (gh_tables ?h1 ANNOUNCEMENT_UID)")
    case None
    with r1(1) ids(1) show ?thesis by (auto simp: find_None_iff)
  next
    case (Some x)
    from found_at [OF this] same_keyed [OF _ _ r1(1), of x] ids(1) ok1 Some show ?thesis by (simp add: org_ok_def)
  qed
  ultimately show ?thesis by (simp add: relation_of_def)
qed

lemma targeted_torn:
  assumes "jget fresh ''audience'' = jget r ''audience''" "jget fresh ''retargetRequired'' = jget r ''retargetRequired''"
    "list_all (\<lambda>k. jget torn k = jget r k) TARGET_KEYS"
  shows "isAnnouncementTargetedTo (raise_row torn (Some fresh)) scope = isAnnouncementTargetedTo r scope"
proof -
  have "announcementNeedsRetarget (raise_row torn (Some fresh)) = announcementNeedsRetarget r"
    using assms by (auto simp: raise_row_def announcementNeedsRetarget_def TARGET_KEYS_def)
  moreover have "jget (raise_row torn (Some fresh)) k = jget r k" if "k \<in> {''department'', ''team'', ''audienceRoles''}" for k
    using that assms(3) by (auto simp: raise_row_def TARGET_KEYS_def)
  ultimately show ?thesis by (simp add: isAnnouncementTargetedTo_def)
qed

text \<open>C36: 
  C1: The scalars of the announcements, their three relations and the second read of the flags may each see another state
  while departments and teams are deleted: only announcements the state of the first read shows are shown.
\<close>

theorem overlapping_read_is_safe:
  assumes "org_ok h" "prefix d1 ds" "prefix d2 ds" "prefix d3 ds"
  shows "set (visible_rows scope
      (map (torn_row (gh_tables (run_deletes d1 h)) (gh_tables (run_deletes d2 h)) (gh_tables (run_deletes d3 h)))
        (filter (notExpiredWhere f now) (gh_tables h ANNOUNCEMENT_UID)))
      (filter (notExpiredWhere f now) (gh_tables (run_deletes ds h) ANNOUNCEMENT_UID))) \<subseteq>
    set (visible_rows scope (filter (notExpiredWhere f now) (gh_tables h ANNOUNCEMENT_UID)) (filter (notExpiredWhere f now) (gh_tables h ANNOUNCEMENT_UID)))"
proof
  let ?rows = "filter (notExpiredWhere f now) (gh_tables h ANNOUNCEMENT_UID)"
  let ?reread = "filter (notExpiredWhere f now) (gh_tables (run_deletes ds h) ANNOUNCEMENT_UID)"
  let ?torn = "torn_row (gh_tables (run_deletes d1 h)) (gh_tables (run_deletes d2 h)) (gh_tables (run_deletes d3 h))"
  let ?fresh = "\<lambda>row. List.find (\<lambda>now. jget now ''id'' = jget row ''id'') (rev ?reread)"
  fix i assume "i \<in> set (visible_rows scope (map ?torn ?rows) ?reread)"
  then obtain r where r: "r \<in> set ?rows" "isAnnouncementTargetedTo (raise_row (?torn r) (?fresh (?torn r))) scope"
    "i = jget (raise_row (?torn r) (?fresh (?torn r))) ''id''"
    by (auto simp: visible_rows_def withFreshAnnouncementFlags_def)
  have id: "jget (?torn r) ''id'' = jget r ''id''" by (simp add: torn_row_def Let_def)
  obtain r4 where fresh: "?fresh (?torn r) = Some r4"
  proof (cases "?fresh (?torn r)")
    case None
    with targeted_unmarked [OF r(2)] show ?thesis by (simp add: raise_row_def marked_def)
  qed
  from found_at [OF this] have r4: "r4 \<in> set (gh_tables (run_deletes ds h) ANNOUNCEMENT_UID)" "jget r4 ''id'' = jget r ''id''"
    by (simp_all add: id)
  have unmarked: "\<not> marked r4" using targeted_unmarked [OF r(2)] by (auto simp: fresh raise_row_def marked_def)
  from r(1) have mem: "r \<in> set (gh_tables h ANNOUNCEMENT_UID)" by simp
  note between = row_between [OF assms(1) _ mem r4 unmarked]
  have keys: "jget r4 ''audience'' = jget r ''audience''" "jget r4 ''retargetRequired'' = jget r ''retargetRequired''"
    "jget (?torn r) ''department'' = jget r ''department''" "jget (?torn r) ''team'' = jget r ''team''"
    "jget (?torn r) ''audienceRoles'' = jget r ''audienceRoles''" "jget (?torn r) ''audience'' = jget r ''audience''"
    "jget (?torn r) ''retargetRequired'' = jget r ''retargetRequired''"
    using between [OF assms(2)] between [OF assms(3)] between [OF assms(4)] by (simp_all add: torn_row_def Let_def TARGET_KEYS_def)
  have "isAnnouncementTargetedTo r scope"
    using r(2) targeted_torn [OF keys(1,2), of "?torn r" scope] keys by (simp add: fresh TARGET_KEYS_def)
  moreover have "i = jget r ''id''" using r(3) unfolding fresh by (simp add: raise_row_def torn_row_def Let_def)
  moreover have "keyed_rows ?rows" using assms(1) by (simp add: org_ok_def keyed_rows_filter)
  ultimately show "i \<in> set (visible_rows scope ?rows ?rows)" using r(1) by (simp add: visible_same)
qed

text \<open>A read whose scalars precede the delete of the team and whose relations follow it.\<close>

theorem overlapping_read_is_safe_witness:
  "visible_rows (Some \<lparr>as_roleId = JUndef, as_departmentId = JInt 2, as_teamIds = []\<rparr>)
     (map (torn_row (gh_tables sample_org) (gh_tables (run_deletes sample_deletes sample_org)) (gh_tables sample_org)) (gh_tables sample_org ANNOUNCEMENT_UID))
     (gh_tables (run_deletes sample_deletes sample_org) ANNOUNCEMENT_UID) = [JInt 2] \<and>
   set (visible_rows None
     (map (torn_row (gh_tables sample_org) (gh_tables (run_deletes sample_deletes sample_org)) (gh_tables sample_org))
       (filter (notExpiredWhere (\<lambda>_. None) 0) (gh_tables sample_org ANNOUNCEMENT_UID)))
     (filter (notExpiredWhere (\<lambda>_. None) 0) (gh_tables (run_deletes sample_deletes sample_org) ANNOUNCEMENT_UID))) \<subseteq> {JInt 2}"
proof -
  have one: "visible_rows (Some \<lparr>as_roleId = JUndef, as_departmentId = JInt 2, as_teamIds = []\<rparr>)
     (map (torn_row (gh_tables sample_org) (gh_tables (run_deletes sample_deletes sample_org)) (gh_tables sample_org)) (gh_tables sample_org ANNOUNCEMENT_UID))
     (gh_tables (run_deletes sample_deletes sample_org) ANNOUNCEMENT_UID) = [JInt 2]" by code_simp
  have two: "visible_rows None (filter (notExpiredWhere (\<lambda>_. None) 0) (gh_tables sample_org ANNOUNCEMENT_UID))
     (filter (notExpiredWhere (\<lambda>_. None) 0) (gh_tables sample_org ANNOUNCEMENT_UID)) = [JInt 2]" by code_simp
  have "prefix [] sample_deletes" "prefix sample_deletes sample_deletes" "prefix [] sample_deletes" by simp_all
  from overlapping_read_is_safe [OF sample_org_ok this, of None "\<lambda>_. None" 0] one two show ?thesis
    by (simp add: run_deletes_def [of "[]"])
qed

section \<open>Revisions\<close>

definition relations_of :: "org_delete \<Rightarrow> (string \<times> string list) list" where
  "relations_of d = (case d of DeleteTeams _ \<Rightarrow> TEAM_LINKED_DOCUMENTS | DeleteDepartments _ \<Rightarrow> DEPARTMENT_LINKED_DOCUMENTS)"

lemma advance_all:
  "versions_ok c \<Longrightarrow> versions_ok (advanceRevisionsOf refs c) \<and> readRevision (advanceRevisionsOf refs c) k = readRevision c k + int (count_list refs k)"
proof (induction refs arbitrary: c)
  case (Cons d refs)
  let ?c = "snd (advanceRevision d (snd (lockDocument d c)))"
  have c: "versions_ok (ensureRow d c)" "snd (lockDocument d c) = ensureRow d c" using ensure_ok [OF Cons.prems] by (simp_all add: lock_document)
  then have "versions_ok ?c" "readRevision ?c k = readRevision c k + (if k = d then 1 else 0)"
    using advance_ok advance_revision [OF c(1)] by (simp_all add: version_table.revision_ensure [OF Cons.prems])
  with Cons.IH [of ?c] show ?case by (auto simp: advanceRevisionsOf_def)
qed (simp add: advanceRevisionsOf_def)

lemma count_distinct: "distinct xs \<Longrightarrow> count_list xs k = (if k \<in> set xs then 1 else 0)"
  by (induction xs) auto

lemma read_host: "c_versions c = gh_versions h \<Longrightarrow> readRevision (cms_of h) = readRevision c"
  by (rule read_versions) (simp add: cms_of_def)

lemma advance_host_revision:
  assumes "versions_ok (cms_of h)" "distinct refs"
  shows "readRevision (cms_of (advance_host refs h)) k = readRevision (cms_of h) k + (if k \<in> set refs then 1 else 0)"
proof -
  have "readRevision (cms_of (advance_host refs h)) = readRevision (advanceRevisionsOf refs (cms_of h))"
    by (rule read_host) (simp add: advance_host_def)
  with advance_all [OF assms(1), of refs k] count_distinct [OF assms(2)] show ?thesis by simp
qed

definition deleted_ids :: "org_delete \<Rightarrow> gate_host \<Rightarrow> int list" where
  "deleted_ids d h = snd (snd (snd (gone d h)))"

lemma linking_distinct: "distinct (documentsLinking t relations ids)"
  by (simp add: documentsLinking_def)

lemma delete_versions:
  "gh_versions (run_delete d h) = gh_versions (advance_host (documentsLinking (gh_tables h) (relations_of d) (deleted_ids d h)) h)"
  by (cases d) (auto simp: deleted_ids_def gone_def relations_of_def deleteTeams_def deleteDepartments_def keepTargetsRestricted_team_def
      keepTargetsRestricted_department_def Let_def advance_host_def advanceRevisionsOf_def documentsLinking_def cms_of_def)

lemma delete_revision:
  assumes "versions_ok (cms_of h)"
  shows "readRevision (cms_of (run_delete d h)) k = readRevision (cms_of h) k +
    (if k \<in> set (documentsLinking (gh_tables h) (relations_of d) (deleted_ids d h)) then 1 else 0)"
proof -
  have "readRevision (cms_of (run_delete d h)) = readRevision (cms_of (advance_host (documentsLinking (gh_tables h) (relations_of d) (deleted_ids d h)) h))"
    by (rule read_host) (simp add: cms_of_def delete_versions)
  with advance_host_revision [OF assms linking_distinct] show ?thesis by simp
qed

lemma linking_document:
  assumes "keyed_rows (t uid)" "row \<in> set (t uid)" "(uid, attributes) \<in> set relations" "attribute \<in> set attributes"
    "links_any attribute ids row" "doc_of row = Some i" "i \<noteq> []"
  shows "(uid, i) \<in> set (documentsLinking t relations ids)"
proof -
  have "ids \<noteq> []" using assms(5) linking_in [OF assms(1,2,5)] by (auto simp: id_in_def split: js.splits)
  moreover have "jget row ''documentId'' = JStr i" using assms(6) by (simp add: doc_of_def split: js.splits)
  ultimately show ?thesis using assms(2-4,7) linking_in [OF assms(1,2,5)]
    by (simp add: documentsLinking_def map_filter_mem) (rule bexI [of _ "(uid, attributes)"], auto intro!: bexI [of _ attribute] exI [of _ row])
qed


definition sample_decision :: "fields scope" where
  "sample_decision = \<lparr>sc_uid = Some ANNOUNCEMENT_UID, sc_documentId = Some ''a'', sc_expected = Some 5, sc_observed = Some 5,
     sc_classify = None, sc_missingClass = None, sc_committed = None\<rparr>"


end
