(* ===== verification/Visibility.thy ===== *)
theory Visibility imports Targeting Rsvp begin

text \<open>
  The read policies: \<open>apps/cms/src/utils/policy-factories.ts\<close>, the query helpers of \<open>policy-query.ts\<close>, the policies of
  announcements, documents, quick links, courses and the wiki, and the targets of comments and reactions
  (\<open>target-visibility.ts\<close>, \<open>comment-target.ts\<close>). A clause is the filter object the code builds; a list bound as one
  parameter is written as the array it stands for. How the query engine evaluates a filter is a parameter.
\<close>

section \<open>Query helpers\<close>

datatype policy_error = FiltersShape | ForbiddenThrown

definition in_clause :: "string \<Rightarrow> js list \<Rightarrow> js" where
  "in_clause key vs = JObj [(key, JObj [(''$in'', JArr vs)])]"

definition restrictiveIdFilter :: "js list \<Rightarrow> js" where
  "restrictiveIdFilter ids = (if ids \<noteq> [] then in_clause ''id'' ids else JObj [(''id'', JObj [(''$eq'', JInt (- 1))])])"

definition assertFiltersShape :: "js \<Rightarrow> policy_error + unit" where
  "assertFiltersShape filters =
     (if js_truthy filters \<and> (case filters of JObj _ \<Rightarrow> False | JArr _ \<Rightarrow> False | _ \<Rightarrow> True) then Inl FiltersShape else Inr ())"

definition and_filter :: "js list \<Rightarrow> js" where
  "and_filter fs = JObj [(''$and'', JArr fs)]"

definition narrowFilters :: "fields \<Rightarrow> js \<Rightarrow> policy_error + fields" where
  "narrowFilters query clause =
     (let filters = jget query ''filters'' in
      case assertFiltersShape filters of
        Inl e \<Rightarrow> Inl e
      | Inr _ \<Rightarrow> Inr (AList.update ''filters'' (if js_truthy filters then and_filter [filters, clause] else clause) query))"

text \<open>The clauses left for the Document Service, by type.\<close>

type_synonym stored_clauses = "(string \<times> js list) list"

definition narrowReads :: "bool \<Rightarrow> string \<Rightarrow> js \<Rightarrow> stored_clauses \<Rightarrow> bool \<times> stored_clauses" where
  "narrowReads canNarrow uid clause stored =
     (if \<not> canNarrow then (False, stored)
      else (True, AList.update uid ((case map_of stored uid of None \<Rightarrow> [] | Some cs \<Rightarrow> cs) @ [clause]) stored))"

definition NARROWED_READS :: "string list" where
  "NARROWED_READS = [''findMany'', ''findOne'', ''findFirst'', ''count'']"

text \<open>The middleware of the Document Service: the parameters the read runs with.\<close>

definition createVisibilityNarrowing :: "stored_clauses \<Rightarrow> string \<Rightarrow> string \<Rightarrow> fields \<Rightarrow> policy_error + fields" where
  "createVisibilityNarrowing stored uid action params =
     (if uid = [] \<or> action \<notin> set NARROWED_READS then Inr params
      else case map_of stored uid of
        None \<Rightarrow> Inr params
      | Some clauses \<Rightarrow>
        if clauses = [] then Inr params
        else let filters = jget params ''filters'' in
          (case assertFiltersShape filters of
             Inl e \<Rightarrow> Inl e
           | Inr _ \<Rightarrow>
             let all = (if js_truthy filters then filters # clauses else clauses) in
             Inr (AList.update ''filters'' (case all of [c] \<Rightarrow> c | _ \<Rightarrow> and_filter all) params)))"

section \<open>Factories\<close>

definition identifiedCaller :: "user_row option \<Rightarrow> int option" where
  "identifiedCaller user = (case user of None \<Rightarrow> None | Some u \<Rightarrow> if is_row_id (ur_id u) then Some (ur_id u) else None)"

record read_request =
  rr_query :: fields
  rr_stored :: stored_clauses
  rr_canNarrow :: bool

definition ownRowsFilter :: "string \<Rightarrow> string list \<Rightarrow> bool \<Rightarrow> user_row option \<Rightarrow> read_request \<Rightarrow> (policy_error + bool) \<times> read_request" where
  "ownRowsFilter ownerField bypass bypassWhile user r =
     (case user of
        None \<Rightarrow> (Inr False, r)
      | Some _ \<Rightarrow>
        if hasRole user bypass \<and> bypassWhile then (Inr True, r)
        else (case identifiedCaller user of
            None \<Rightarrow> (Inr False, r)
          | Some i \<Rightarrow>
            (case narrowFilters (rr_query r) (JObj [(ownerField, JObj [(''id'', JInt i)])]) of
               Inl e \<Rightarrow> (Inl e, r)
             | Inr query \<Rightarrow> (Inr True, r\<lparr>rr_query := query\<rparr>))))"

definition visibleIdsPolicy ::
  "string \<Rightarrow> string list \<Rightarrow> bool \<Rightarrow> bool \<Rightarrow> (int option \<Rightarrow> js list) \<Rightarrow> user_row option \<Rightarrow> read_request \<Rightarrow> (policy_error + bool) \<times> read_request" where
  "visibleIdsPolicy uid bypass denyAnonymous pinPublished loadVisibleIds user r =
     (if user = None \<and> denyAnonymous then (Inr False, r)
      else if hasRole user bypass then (Inr True, r)
      else let caller = identifiedCaller user in
        if caller = None \<and> denyAnonymous then (Inr False, r)
        else if \<not> rr_canNarrow r then (Inr False, r)
        else case assertFiltersShape (jget (rr_query r) ''filters'') of
          Inl e \<Rightarrow> (Inl e, r)
        | Inr _ \<Rightarrow>
          (case narrowReads (rr_canNarrow r) uid (in_clause ''id'' (loadVisibleIds caller)) (rr_stored r) of
             (False, _) \<Rightarrow> (Inr False, r)
           | (True, stored) \<Rightarrow>
             (Inr True, r\<lparr>rr_stored := stored, rr_query := (if pinPublished then forcePublishedStatus (rr_query r) else rr_query r)\<rparr>)))"

definition configuredBypass :: "js \<Rightarrow> string list \<Rightarrow> string list" where
  "configuredBypass roles fallback =
     (if nullish roles then fallback
      else case roles of JArr xs \<Rightarrow> List.map_filter (\<lambda>v. case v of JStr s \<Rightarrow> if isRoleType v then Some s else None | _ \<Rightarrow> None) xs | _ \<Rightarrow> [])"

definition findByRef :: "fields list \<Rightarrow> js \<Rightarrow> fields option" where
  "findByRef rows idParam =
     (case parseEntryRef idParam of
        None \<Rightarrow> None
      | Some ref \<Rightarrow>
        (case List.find (case ref of RefId i \<Rightarrow> (\<lambda>row. jget row ''id'' = JInt i) | RefDocument d \<Rightarrow> (\<lambda>row. jget row ''documentId'' = JStr d)) rows of
           None \<Rightarrow> None
         | Some row \<Rightarrow> if row_id (jget row ''id'') \<noteq> None \<and> doc_of row \<noteq> None then Some row else None))"

record owner_gate_options =
  og_ownerField :: string
  og_bypass :: "string list"
  og_bypassFromConfig :: bool
  og_unknownToHandler :: bool
  og_forbidden :: bool

definition ownerGate :: "owner_gate_options \<Rightarrow> js \<Rightarrow> fields list \<Rightarrow> user_row option \<Rightarrow> js \<Rightarrow> policy_error + bool" where
  "ownerGate options bypassRoles rows user idParam =
     (let refuse = (if og_forbidden options then Inl ForbiddenThrown else Inr False);
          bypass = (if og_bypassFromConfig options then configuredBypass bypassRoles (og_bypass options) else og_bypass options) in
      if user = None then refuse
      else if hasRole user bypass then Inr True
      else case identifiedCaller user of
        None \<Rightarrow> refuse
      | Some caller \<Rightarrow>
        (case findByRef rows idParam of
           None \<Rightarrow> if og_unknownToHandler options then Inr True else refuse
         | Some row \<Rightarrow> if link_id (jget row (og_ownerField options)) = JInt caller then Inr True else refuse))"

section \<open>The policies\<close>

definition announcementVisibility :: "(string \<Rightarrow> int option) \<Rightarrow> int \<Rightarrow> tables \<Rightarrow> user_row option \<Rightarrow> read_request \<Rightarrow> (policy_error + bool) \<times> read_request" where
  "announcementVisibility instantMs now t = visibleIdsPolicy ANNOUNCEMENT_UID MODERATORS False True (visibleAnnouncementIds instantMs now t)"

definition documentVisibility :: "tables \<Rightarrow> user_row option \<Rightarrow> read_request \<Rightarrow> (policy_error + bool) \<times> read_request" where
  "documentVisibility t = visibleIdsPolicy DOCUMENT_UID MODERATORS False True (departmentScopedIds t DOCUMENT_UID)"

definition quickLinkVisibility :: "tables \<Rightarrow> user_row option \<Rightarrow> read_request \<Rightarrow> (policy_error + bool) \<times> read_request" where
  "quickLinkVisibility t = visibleIdsPolicy QUICK_LINK_UID MODERATORS False True (departmentScopedIds t QUICK_LINK_UID)"

definition lessonsOfPublishedCourses :: "tables \<Rightarrow> int option \<Rightarrow> js list" where
  "lessonsOfPublishedCourses t user =
     map (\<lambda>lesson. jget lesson ''id'') (filter (\<lambda>lesson. row_id (jget lesson ''id'') \<noteq> None \<and>
       (case jget lesson ''course'' of
          JObj course \<Rightarrow> \<not> nullish (jget course ''publishedAt'') \<and> isInScopedAudience course (callerDepartmentId t user)
        | _ \<Rightarrow> False)) (t LESSON_UID))"

definition trainingVisibility :: "string option \<Rightarrow> tables \<Rightarrow> user_row option \<Rightarrow> read_request \<Rightarrow> (policy_error + bool) \<times> read_request" where
  "trainingVisibility level t =
     (if level = Some ''lesson'' then visibleIdsPolicy LESSON_UID MODERATORS False True (lessonsOfPublishedCourses t)
      else visibleIdsPolicy COURSE_UID MODERATORS False True (departmentScopedIds t COURSE_UID))"

datatype wiki_level = SpaceLevel | PageLevel | RevisionLevel

definition levelOf :: "string option \<Rightarrow> wiki_level" where
  "levelOf config = (case config of None \<Rightarrow> SpaceLevel
     | Some s \<Rightarrow> if s = ''space'' then SpaceLevel else if s = ''page'' then PageLevel else RevisionLevel)"

definition WIKI_REVISION_UID :: string where "WIKI_REVISION_UID = ''api::wiki-revision.wiki-revision''"

fun wiki_uid :: "wiki_level \<Rightarrow> string" where
  "wiki_uid SpaceLevel = WIKI_SPACE_UID"
| "wiki_uid PageLevel = WIKI_PAGE_UID"
| "wiki_uid RevisionLevel = WIKI_REVISION_UID"

definition visibleWikiIds :: "string option \<Rightarrow> tables \<Rightarrow> int option \<Rightarrow> js list" where
  "visibleWikiIds config t user =
     (let spaceIds = visibleWikiSpaceIds t (map_option (readUserScope t) user);
          level = levelOf config;
          space_of = (\<lambda>v. case v of JObj fs \<Rightarrow> link_id (jget fs ''space'') | _ \<Rightarrow> JUndef) in
      if level = SpaceLevel then spaceIds
      else if spaceIds = [] then []
      else map (\<lambda>row. jget row ''id'') (filter (\<lambda>row. row_id (jget row ''id'') \<noteq> None \<and>
        (if level = PageLevel then link_id (jget row ''space'') else space_of (jget row ''page'')) \<in> set spaceIds) (t (wiki_uid level))))"

definition wikiVisibility :: "string option \<Rightarrow> tables \<Rightarrow> user_row option \<Rightarrow> read_request \<Rightarrow> (policy_error + bool) \<times> read_request" where
  "wikiVisibility config t = visibleIdsPolicy (wiki_uid (levelOf config)) MODERATORS False True (visibleWikiIds config t)"

definition published_only :: "user_row option \<Rightarrow> fields \<Rightarrow> fields" where
  "published_only user query = (if hasRole user MODERATORS then query else forcePublishedStatus query)"

section \<open>Targets of comments and reactions\<close>

definition COMMENT_TARGET_TYPES :: "string list" where "COMMENT_TARGET_TYPES = [''announcement'', ''wiki-page'']"

definition targetAnchor :: "js \<Rightarrow> string option" where
  "targetAnchor v = (case v of JStr s \<Rightarrow> let trimmed = trim s in if trimmed = [] then None else Some trimmed | _ \<Rightarrow> None)"

definition add_published :: "fields \<Rightarrow> (string \<times> fields) list \<Rightarrow> (string \<times> fields) list" where
  "add_published row m =
     (case targetAnchor (jget row ''documentId'') of
        None \<Rightarrow> m
      | Some anchor \<Rightarrow> if \<not> js_truthy (jget row ''publishedAt'') then m else AList.update anchor row m)"

definition publishedByAnchor :: "fields list \<Rightarrow> (string \<times> fields) list" where
  "publishedByAnchor rows = fold add_published rows []"

definition loadAnnouncementRows :: "tables \<Rightarrow> (fields \<Rightarrow> bool) \<Rightarrow> fields list" where
  "loadAnnouncementRows t matches = (let rows = filter matches (t ANNOUNCEMENT_UID) in withFreshAnnouncementFlags rows rows)"

definition visibleWikiPageAnchors :: "tables \<Rightarrow> js list \<Rightarrow> string list" where
  "visibleWikiPageAnchors t spaceIds =
     (if spaceIds = [] then []
      else remdups (List.map_filter (\<lambda>row. targetAnchor (jget row ''documentId''))
        (filter (\<lambda>row. link_id (jget row ''space'') \<in> set spaceIds \<and> \<not> nullish (jget row ''publishedAt'')) (t WIKI_PAGE_UID))))"

definition visibleTargetAnchors :: "(string \<Rightarrow> int option) \<Rightarrow> int \<Rightarrow> tables \<Rightarrow> int option \<Rightarrow> string list \<times> string list" where
  "visibleTargetAnchors instantMs now t user =
     (let raw = map_option (readUserScope t) user; audience = toAudienceScope raw;
          rows = loadAnnouncementRows t (\<lambda>row. \<not> nullish (jget row ''publishedAt'')) in
      (map fst (filter (\<lambda>(_, row). \<not> isAnnouncementExpired instantMs row now \<and> isAnnouncementTargetedTo row audience) (publishedByAnchor rows)),
       visibleWikiPageAnchors t (visibleWikiSpaceIds t raw)))"

definition isTargetVisible :: "(string \<Rightarrow> int option) \<Rightarrow> int \<Rightarrow> tables \<Rightarrow> string \<Rightarrow> string \<Rightarrow> bool \<Rightarrow> int option \<Rightarrow> bool" where
  "isTargetVisible instantMs now t targetType targetDocumentId moderator user =
     (let raw = map_option (readUserScope t) user in
      if targetType = ''announcement'' then
        let rows = loadAnnouncementRows t (\<lambda>row. jget row ''documentId'' = JStr targetDocumentId \<and> \<not> nullish (jget row ''publishedAt'')) in
        (case map_of (publishedByAnchor rows) targetDocumentId of
           None \<Rightarrow> False
         | Some row \<Rightarrow>
           if moderator then True
           else if isAnnouncementExpired instantMs row now then False
           else isAnnouncementTargetedTo row (toAudienceScope raw))
      else if moderator then True
      else if targetType = ''wiki-page'' then
        (case List.find (\<lambda>row. jget row ''documentId'' = JStr targetDocumentId \<and> \<not> nullish (jget row ''publishedAt'')) (t WIKI_PAGE_UID) of
           None \<Rightarrow> False
         | Some page \<Rightarrow>
           let spaceId = link_id (jget page ''space'') in
           if nullish spaceId then False else spaceId \<in> set (visibleWikiSpaceIds t raw))
      else False)"

text \<open>The anchor a client filter pins.\<close>

definition PIN_KEYS :: "string list" where "PIN_KEYS = [''targetType'', ''targetDocumentId'']"

definition eqString :: "js \<Rightarrow> string option" where
  "eqString v = (case v of JObj [(k, JStr s)] \<Rightarrow> if k = ''$eq'' then Some s else None | _ \<Rightarrow> None)"

definition pin_conjuncts :: "fields \<Rightarrow> fields list option" where
  "pin_conjuncts fs =
     (if \<not> has_key ''$and'' fs then Some [fs]
      else case jget fs ''$and'' of
        JArr items \<Rightarrow> if list_all js_record items then Some (fs # map (\<lambda>item. case item of JObj x \<Rightarrow> x | _ \<Rightarrow> []) items) else None
      | _ \<Rightarrow> None)"

definition pin_values :: "fields list \<Rightarrow> string \<Rightarrow> string list option" where
  "pin_values conjuncts key =
     (let pins = map (\<lambda>c. eqString (jget c key)) (filter (has_key key) conjuncts) in
      if None \<in> set pins then None else Some (remdups (map the pins)))"

definition pinnedTargetAnchor :: "js \<Rightarrow> (string \<times> string) option" where
  "pinnedTargetAnchor filters =
     (case filters of
        JObj fs \<Rightarrow>
          (case pin_conjuncts fs of
             None \<Rightarrow> None
           | Some conjuncts \<Rightarrow>
             (case (pin_values conjuncts ''targetType'', pin_values conjuncts ''targetDocumentId'') of
                (Some [ty], Some [d]) \<Rightarrow> Some (ty, d)
              | _ \<Rightarrow> None))
      | _ \<Rightarrow> None)"

definition ROOT_UIDS :: "string list" where "ROOT_UIDS = [''api::comment.comment'', ''api::reaction.reaction'']"

definition anchor_branch :: "string \<Rightarrow> string list \<Rightarrow> js" where
  "anchor_branch targetType anchors = JObj [(''targetType'', JStr targetType), (''targetDocumentId'', JObj [(''$in'', JArr (map JStr anchors))])]"

definition anchor_branches :: "string list \<times> string list \<Rightarrow> js list" where
  "anchor_branches anchors = (if fst anchors = [] then [] else [anchor_branch ''announcement'' (fst anchors)]) @
     (if snd anchors = [] then [] else [anchor_branch ''wiki-page'' (snd anchors)])"

definition anchors_clause :: "js list \<Rightarrow> js" where
  "anchors_clause branches = (case branches of [b] \<Rightarrow> b | _ \<Rightarrow> JObj [(''$or'', JArr branches)])"

definition pinned_clause :: "(string \<Rightarrow> int option) \<Rightarrow> int \<Rightarrow> tables \<Rightarrow> bool \<Rightarrow> int option \<Rightarrow> string \<times> string \<Rightarrow> js" where
  "pinned_clause instantMs now t moderator caller pin =
     (if fst pin \<in> set COMMENT_TARGET_TYPES \<and> isTargetVisible instantMs now t (fst pin) (snd pin) moderator caller
      then anchor_branch (fst pin) [snd pin] else restrictiveIdFilter [])"

definition narrow_request :: "read_request \<Rightarrow> js \<Rightarrow> (policy_error + bool) \<times> read_request" where
  "narrow_request r clause =
     (case narrowFilters (rr_query r) clause of Inl e \<Rightarrow> (Inl e, r) | Inr query \<Rightarrow> (Inr True, r\<lparr>rr_query := query\<rparr>))"

text \<open>The type this policy guards, by the handler of the route.\<close>

definition rootUid :: "string option \<Rightarrow> string option" where
  "rootUid handler =
     (case handler of
        None \<Rightarrow> None
      | Some h \<Rightarrow>
        let uid = (if CHR ''.'' \<in> set h then rev (tl (dropWhile (\<lambda>c. c \<noteq> CHR ''.'') (rev h))) else butlast h) in
        if uid \<in> set ROOT_UIDS then Some uid else None)"

definition commentTargetVisibility ::
  "(string \<Rightarrow> int option) \<Rightarrow> int \<Rightarrow> tables \<Rightarrow> string option \<Rightarrow> user_row option \<Rightarrow> read_request \<Rightarrow> (policy_error + bool) \<times> read_request" where
  "commentTargetVisibility instantMs now t handler user r =
     (if hasRole user MODERATORS then (Inr True, r)
      else case rootUid handler of
        None \<Rightarrow> (Inr False, r)
      | Some uid \<Rightarrow>
        if \<not> rr_canNarrow r then (Inr False, r)
        else (case pinnedTargetAnchor (jget (rr_query r) ''filters'') of
             Some pin \<Rightarrow>
               narrow_request r (pinned_clause instantMs now t (hasRole user MODERATORS) (identifiedCaller user) pin)
           | None \<Rightarrow>
             (case assertFiltersShape (jget (rr_query r) ''filters'') of
                Inl e \<Rightarrow> (Inl e, r)
              | Inr _ \<Rightarrow>
                let branches = anchor_branches (visibleTargetAnchors instantMs now t (identifiedCaller user)) in
                if branches = [] then narrow_request r (restrictiveIdFilter [])
                else (case narrowReads (rr_canNarrow r) uid (anchors_clause branches) (rr_stored r) of
                    (passes, stored) \<Rightarrow> (Inr passes, r\<lparr>rr_stored := stored\<rparr>)))))"

end
