(* ===== verification/Reads.thy ===== *)
theory Reads imports Visibility begin

text \<open>
  What the read policies guarantee, for any query engine that keeps the documented meaning of the operators: a read shows
  announcements, wiki pages, comments and reactions the caller may see, and the two ways of deciding the target of a
  comment agree.
\<close>

section \<open>The query engine\<close>

definition plain_key :: "string \<Rightarrow> bool" where
  "plain_key k = (k \<noteq> [] \<and> hd k \<noteq> CHR ''$'')"

text \<open>The documented meaning of the operators the clauses use, over the columns of one row.\<close>

definition engine_ok :: "(js \<Rightarrow> fields \<Rightarrow> bool) \<Rightarrow> bool" where
  "engine_ok ev =
     ((\<forall>fs row. ev (JObj fs) row = (\<forall>k \<in> set (map fst fs). ev (JObj [(k, jget fs k)]) row)) \<and>
      (\<forall>cs row. ev (JObj [(''$and'', JArr cs)]) row = list_all (\<lambda>c. ev c row) cs) \<and>
      (\<forall>cs row. ev (JObj [(''$or'', JArr cs)]) row = list_ex (\<lambda>c. ev c row) cs) \<and>
      (\<forall>k vs row. plain_key k \<longrightarrow> ev (JObj [(k, JObj [(''$in'', JArr vs)])]) row = (jget row k \<in> set vs)) \<and>
      (\<forall>k i row. plain_key k \<longrightarrow> ev (JObj [(k, JObj [(''$eq'', JInt i)])]) row = (jget row k = JInt i)) \<and>
      (\<forall>k s row. plain_key k \<longrightarrow> ev (JObj [(k, JObj [(''$eq'', JStr s)])]) row = (jget row k = JStr s)) \<and>
      (\<forall>k s row. plain_key k \<longrightarrow> ev (JObj [(k, JStr s)]) row = (jget row k = JStr s)))"

lemma engine_keys: "engine_ok ev \<Longrightarrow> ev (JObj fs) row \<longleftrightarrow> (\<forall>k \<in> set (map fst fs). ev (JObj [(k, jget fs k)]) row)"
  unfolding engine_ok_def by blast

lemma engine_and: "engine_ok ev \<Longrightarrow> ev (JObj [(''$and'', JArr cs)]) row \<longleftrightarrow> list_all (\<lambda>c. ev c row) cs"
  unfolding engine_ok_def by blast

lemma engine_or: "engine_ok ev \<Longrightarrow> ev (JObj [(''$or'', JArr cs)]) row \<longleftrightarrow> list_ex (\<lambda>c. ev c row) cs"
  unfolding engine_ok_def by blast

lemma engine_in: "engine_ok ev \<Longrightarrow> plain_key k \<Longrightarrow> ev (JObj [(k, JObj [(''$in'', JArr vs)])]) row \<longleftrightarrow> jget row k \<in> set vs"
  unfolding engine_ok_def by blast

lemma engine_eq_int: "engine_ok ev \<Longrightarrow> plain_key k \<Longrightarrow> ev (JObj [(k, JObj [(''$eq'', JInt i)])]) row \<longleftrightarrow> jget row k = JInt i"
  unfolding engine_ok_def by blast

lemma engine_eq: "engine_ok ev \<Longrightarrow> plain_key k \<Longrightarrow> ev (JObj [(k, JObj [(''$eq'', JStr s)])]) row \<longleftrightarrow> jget row k = JStr s"
  unfolding engine_ok_def by blast

lemma engine_text: "engine_ok ev \<Longrightarrow> plain_key k \<Longrightarrow> ev (JObj [(k, JStr s)]) row \<longleftrightarrow> jget row k = JStr s"
  unfolding engine_ok_def by blast

lemma plain_keys [simp]: "plain_key ''id''" "plain_key ''targetType''" "plain_key ''targetDocumentId''"
  by (simp_all add: plain_key_def)

text \<open>An engine of that kind; a key that is repeated counts once.\<close>

definition op_holds :: "string \<times> js \<Rightarrow> js \<Rightarrow> bool" where
  "op_holds p v =
     (case p of (op, y) \<Rightarrow>
       if op = ''$eq'' then v = y
       else if op = ''$in'' then (case y of JArr vs \<Rightarrow> v \<in> set vs | _ \<Rightarrow> False) else False)"

fun holds :: "js \<Rightarrow> fields \<Rightarrow> bool" and key_holds :: "string \<Rightarrow> js \<Rightarrow> fields \<Rightarrow> bool" where
  "holds (JObj fs) row = (\<forall>p \<in> set fs. jget fs (fst p) = snd p \<longrightarrow> key_holds (fst p) (snd p) row)"
| "holds _ row = False"
| "key_holds k (JArr cs) row =
     (if k = ''$and'' then \<forall>c \<in> set cs. holds c row else if k = ''$or'' then \<exists>c \<in> set cs. holds c row else jget row k = JArr cs)"
| "key_holds k (JObj ops) row = (\<forall>p \<in> set ops. op_holds p (jget row k))"
| "key_holds k v row = (jget row k = v)"

lemma jget_mem: "k \<in> set (map fst fs) \<Longrightarrow> (k, jget fs k) \<in> set fs"
  unfolding jget_def by (cases "map_of fs k") (auto simp: map_of_eq_None_iff dest: map_of_SomeD)

lemma holds_keys: "holds (JObj fs) row \<longleftrightarrow> (\<forall>k \<in> set (map fst fs). key_holds k (jget fs k) row)"
proof
  assume h: "holds (JObj fs) row"
  show "\<forall>k \<in> set (map fst fs). key_holds k (jget fs k) row"
  proof
    fix k assume "k \<in> set (map fst fs)"
    from jget_mem [OF this] bspec [OF h [unfolded holds.simps(1)], of "(k, jget fs k)"] show "key_holds k (jget fs k) row" by simp
  qed
qed auto

lemma holds_one: "holds (JObj [(k, v)]) row = key_holds k v row"
  by (simp add: jget_def)

lemma plain_not: "plain_key k \<Longrightarrow> k \<noteq> ''$and'' \<and> k \<noteq> ''$or''"
  by (auto simp: plain_key_def)

lemma holds_ok: "engine_ok holds"
  unfolding engine_ok_def
proof (intro conjI allI impI)
  fix fs row show "holds (JObj fs) row = (\<forall>k \<in> set (map fst fs). holds (JObj [(k, jget fs k)]) row)"
    by (simp only: holds_keys [of fs] holds_one)
next
  fix cs row show "holds (JObj [(''$and'', JArr cs)]) row = list_all (\<lambda>c. holds c row) cs"
    unfolding holds_one by (simp add: list_all_iff)
next
  fix cs row show "holds (JObj [(''$or'', JArr cs)]) row = list_ex (\<lambda>c. holds c row) cs"
    unfolding holds_one by (simp add: list_ex_iff)
qed (unfold holds_one, simp_all add: op_holds_def plain_not)

section \<open>One read\<close>

lemma and_filter_holds: "engine_ok ev \<Longrightarrow> ev (and_filter fs) row \<longleftrightarrow> list_all (\<lambda>c. ev c row) fs"
  by (simp add: and_filter_def engine_and)

text \<open>A stored clause holds for every row of the read, whatever the filters are.\<close>

lemma narrowed_by:
  assumes "engine_ok ev" "createVisibilityNarrowing stored uid action params = Inr params'"
    "uid \<noteq> []" "action \<in> set NARROWED_READS" "map_of stored uid = Some clauses" "ev (jget params' ''filters'') row"
  shows "list_all (\<lambda>c. ev c row) clauses \<and> (clauses \<noteq> [] \<longrightarrow> js_truthy (jget params ''filters'') \<longrightarrow> ev (jget params ''filters'') row)"
proof (cases "clauses = []")
  case False
  have one: "ev (case xs of [c] \<Rightarrow> c | _ \<Rightarrow> and_filter xs) row \<longleftrightarrow> list_all (\<lambda>c. ev c row) xs" for xs
    by (auto simp: and_filter_holds [OF assms(1)] split: list.split)
  let ?filters = "jget params ''filters''"
  let ?all = "if js_truthy ?filters then ?filters # clauses else clauses"
  have "jget params' ''filters'' = (case ?all of [c] \<Rightarrow> c | _ \<Rightarrow> and_filter ?all)"
    using assms(2-5) False unfolding createVisibilityNarrowing_def Let_def
    by (simp only: option.case if_False simp_thms split: sum.splits) (auto split: if_splits)
  with assms(6) have "list_all (\<lambda>c. ev c row) ?all" unfolding one [symmetric] by simp
  then show ?thesis by (simp split: if_splits)
qed simp

lemma stored_clause:
  "narrowReads canNarrow uid clause stored = (True, stored') \<Longrightarrow>
     \<exists>cs. map_of stored' uid = Some (cs @ [clause])"
  by (auto simp: narrowReads_def update_conv' split: if_splits)

lemma visible_ids_read:
  assumes "engine_ok ev" "visibleIdsPolicy uid bypass deny True load user r = (Inr True, r')" "\<not> hasRole user bypass" "uid \<noteq> []"
    "createVisibilityNarrowing (rr_stored r') uid action params = Inr params'" "action \<in> set NARROWED_READS"
    "ev (jget params' ''filters'') row"
  shows "jget row ''id'' \<in> set (load (identifiedCaller user)) \<and> rr_query r' = forcePublishedStatus (rr_query r)"
proof -
  let ?clause = "in_clause ''id'' (load (identifiedCaller user))"
  obtain stored where stored: "narrowReads (rr_canNarrow r) uid ?clause (rr_stored r) = (True, stored)"
    "r' = r\<lparr>rr_stored := stored, rr_query := forcePublishedStatus (rr_query r)\<rparr>"
    using assms(2,3) by (auto simp: visibleIdsPolicy_def Let_def split: if_splits sum.splits prod.splits bool.splits)
  from stored_clause [OF stored(1)] obtain cs where "map_of (rr_stored r') uid = Some (cs @ [?clause])" using stored(2) by auto
  from narrowed_by [OF assms(1,5,4,6) this assms(7)] have "ev ?clause row" by simp
  with stored(2) show ?thesis by (simp add: in_clause_def engine_in [OF assms(1)])
qed

lemma id_row: "keyed_rows rows \<Longrightarrow> row \<in> set rows \<Longrightarrow> jget row ''id'' \<in> (\<lambda>row. jget row ''id'') ` set (filter P rows) \<longleftrightarrow> P row"
  by (auto simp: image_iff) (metis same_keyed)

definition caller_scope :: "tables \<Rightarrow> user_row option \<Rightarrow> user_scope option" where
  "caller_scope t user = map_option (readUserScope t) (identifiedCaller user)"


definition sample_request :: read_request where
  "sample_request = \<lparr>rr_query = [(''filters'', JObj [(''id'', JObj [(''$eq'', JInt 1)])]), (''status'', JStr ''draft'')],
     rr_stored = [], rr_canNarrow = True\<rparr>"


text \<open>The wiki pages a reader without the bypass reads lie in a space the reader sees.\<close>

theorem wiki_page_reads_visible:
  assumes "engine_ok ev" "keyed_rows (t WIKI_PAGE_UID)" "\<not> hasRole user MODERATORS"
    "wikiVisibility (Some ''page'') t user r = (Inr True, r')" "action \<in> set NARROWED_READS"
    "createVisibilityNarrowing (rr_stored r') WIKI_PAGE_UID action params = Inr params'"
    "row \<in> set (t WIKI_PAGE_UID)" "ev (jget params' ''filters'') row"
  shows "link_id (jget row ''space'') \<in> set (visibleWikiSpaceIds t (caller_scope t user))"
proof -
  let ?spaces = "visibleWikiSpaceIds t (caller_scope t user)"
  have uid: "wiki_uid (levelOf (Some ''page'')) = WIKI_PAGE_UID" "WIKI_PAGE_UID \<noteq> []" by (simp_all add: levelOf_def uid_defs)
  from visible_ids_read [OF assms(1) assms(4) [unfolded wikiVisibility_def uid(1)] assms(3) uid(2) assms(6,5,8)]
  have "jget row ''id'' \<in> set (visibleWikiIds (Some ''page'') t (identifiedCaller user))" by simp
  also have "\<dots> \<subseteq> (\<lambda>row. jget row ''id'') ` set (filter (\<lambda>row. link_id (jget row ''space'') \<in> set ?spaces) (t WIKI_PAGE_UID))"
    by (auto simp: visibleWikiIds_def levelOf_def Let_def caller_scope_def)
  finally show ?thesis using id_row [OF assms(2,7)] by simp
qed

definition sample_wiki :: tables where
  "sample_wiki = (\<lambda>uid.
     if uid = WIKI_SPACE_UID then
       [[(''id'', JInt 1), (''visibility'', JStr ''public'')],
        [(''id'', JInt 2), (''visibility'', JStr ''department''), (''department'', sample_link 5)]]
     else if uid = WIKI_PAGE_UID then
       [[(''id'', JInt 10), (''documentId'', JStr ''p''), (''publishedAt'', JStr ''2026''), (''space'', sample_link 1)],
        [(''id'', JInt 11), (''documentId'', JStr ''q''), (''publishedAt'', JStr ''2026''), (''space'', sample_link 2)]]
     else if uid = ANNOUNCEMENT_UID then
       [[(''id'', JInt 20), (''documentId'', JStr ''a''), (''publishedAt'', JStr ''2026''), (''audience'', JStr ''all'')],
        [(''id'', JInt 21), (''documentId'', JStr ''b''), (''publishedAt'', JStr ''2026''), (''audience'', JStr ''departments'')]]
     else [])"

theorem wiki_page_reads_visible_witness:
  "wikiVisibility (Some ''page'') sample_wiki None sample_request =
     (Inr True, sample_request\<lparr>rr_query := forcePublishedStatus (rr_query sample_request),
        rr_stored := [(WIKI_PAGE_UID, [in_clause ''id'' [JInt 10]])]\<rparr>) \<and>
   JInt 1 \<in> set (visibleWikiSpaceIds sample_wiki (caller_scope sample_wiki None))"
proof -
  let ?row = "[(''id'', JInt 10), (''documentId'', JStr ''p''), (''publishedAt'', JStr ''2026''), (''space'', sample_link 1)]"
  have policy: "wikiVisibility (Some ''page'') sample_wiki None sample_request =
     (Inr True, sample_request\<lparr>rr_query := forcePublishedStatus (rr_query sample_request),
        rr_stored := [(WIKI_PAGE_UID, [in_clause ''id'' [JInt 10]])]\<rparr>)" by code_simp
  have ok: "keyed_rows (sample_wiki WIKI_PAGE_UID)" by (simp add: sample_wiki_def uid_defs keyed_rows_def row_id_def row_key_def jget_def)
  have read: "createVisibilityNarrowing [(WIKI_PAGE_UID, [in_clause ''id'' [JInt 10]])] WIKI_PAGE_UID ''findMany'' [] =
     Inr [(''filters'', in_clause ''id'' [JInt 10])]" by code_simp
  have row: "?row \<in> set (sample_wiki WIKI_PAGE_UID)" by (simp add: sample_wiki_def uid_defs)
  have "holds (jget [(''filters'', in_clause ''id'' [JInt 10])] ''filters'') ?row" by code_simp
  from wiki_page_reads_visible [OF holds_ok ok _ policy, of "''findMany''", OF _ _ _ row this] read
  have "link_id (jget ?row ''space'') \<in> set (visibleWikiSpaceIds sample_wiki (caller_scope sample_wiki None))"
    by (simp add: NARROWED_READS_def hasRole_def)
  with policy show ?thesis by (simp add: jget_def link_id_def sample_link_def)
qed

section \<open>Targets: the list and the single check\<close>

definition anchored :: "string \<Rightarrow> fields \<Rightarrow> bool" where
  "anchored d row = (targetAnchor (jget row ''documentId'') = Some d \<and> js_truthy (jget row ''publishedAt''))"

lemma published_step: "map_of (add_published row m) d = (if anchored d row then Some row else map_of m d)"
  by (auto simp: add_published_def anchored_def update_conv' split: option.splits)

lemma published_last: "map_of (fold add_published rows m) d = (case List.find (anchored d) (rev rows) of Some row \<Rightarrow> Some row | None \<Rightarrow> map_of m d)"
proof (induction rows rule: rev_induct)
  case (snoc row rows)
  then show ?case by (simp add: published_step)
qed simp

lemma published_keys: "distinct (map fst (publishedByAnchor rows))"
proof -
  have "distinct (map fst m) \<Longrightarrow> distinct (map fst (fold add_published rows m))" for m
  proof (induction rows arbitrary: m)
    case (Cons row rows)
    have "distinct (map fst (add_published row m))" using Cons.prems
      by (auto simp: add_published_def distinct_update split: option.splits)
    from Cons.IH [OF this] show ?case by simp
  qed simp
  then show ?thesis by (simp add: publishedByAnchor_def)
qed

lemma published_filter:
  assumes "\<And>row. row \<in> set rows \<Longrightarrow> anchored d row \<Longrightarrow> P row"
  shows "map_of (publishedByAnchor (filter P rows)) d = map_of (publishedByAnchor rows) d"
proof -
  have "List.find (anchored d) (filter P xs) = List.find (anchored d) xs" if "set xs \<subseteq> set rows" for xs
    using that assms by (induction xs) auto
  from this [of "rev rows"] show ?thesis by (simp add: publishedByAnchor_def published_last rev_filter)
qed

lemma distinct_lookup: "distinct (map fst m) \<Longrightarrow> d \<in> set (map fst (filter P m)) \<longleftrightarrow> (\<exists>v. map_of m d = Some v \<and> P (d, v))"
  by (auto simp: image_iff)

lemma published_map:
  assumes "\<And>row. jget (f row) ''documentId'' = jget row ''documentId''" "\<And>row. jget (f row) ''publishedAt'' = jget row ''publishedAt''"
  shows "map_of (publishedByAnchor (map f rows)) d = map_option f (map_of (publishedByAnchor rows) d)"
proof -
  have "anchored d \<circ> f = anchored d" using assms by (simp add: fun_eq_iff anchored_def)
  then show ?thesis by (simp add: publishedByAnchor_def published_last rev_map find_of_map split: option.splits)
qed

lemma loaded_anchor:
  assumes "keyed_rows (t ANNOUNCEMENT_UID)" "\<And>row. row \<in> set (t ANNOUNCEMENT_UID) \<Longrightarrow> anchored d row \<Longrightarrow> P row"
  shows "map_of (publishedByAnchor (loadAnnouncementRows t P)) d =
    map_option (\<lambda>row. raise_row row (Some row)) (map_of (publishedByAnchor (t ANNOUNCEMENT_UID)) d)"
  unfolding loadAnnouncementRows_def Let_def fresh_same [OF keyed_rows_filter [OF assms(1)]]
  by (subst published_map) (simp_all add: raise_row_def published_filter [OF assms(2)])

text \<open>The rows the rules are about: trimmed document ids, one published row of a wiki page.\<close>

definition anchors_ok :: "fields list \<Rightarrow> bool" where
  "anchors_ok rows = list_all (\<lambda>row. case jget row ''documentId'' of JStr d \<Rightarrow> targetAnchor (JStr d) = Some d | _ \<Rightarrow> True) rows"

definition published_pages :: "fields list \<Rightarrow> fields list" where
  "published_pages rows = filter (\<lambda>row. \<not> nullish (jget row ''publishedAt'')) rows"

definition targets_ok :: "tables \<Rightarrow> bool" where
  "targets_ok t = (keyed_rows (t ANNOUNCEMENT_UID) \<and> anchors_ok (t ANNOUNCEMENT_UID) \<and> anchors_ok (t WIKI_PAGE_UID) \<and>
     keyed_rows (t WIKI_SPACE_UID) \<and> distinct (map (\<lambda>row. jget row ''documentId'') (published_pages (t WIKI_PAGE_UID))))"

lemma anchor_text: "targetAnchor v = Some d \<Longrightarrow> \<exists>s. v = JStr s \<and> trim s = d"
  by (auto simp: targetAnchor_def Let_def split: js.splits if_splits)

lemma anchors_okD: "anchors_ok rows \<Longrightarrow> row \<in> set rows \<Longrightarrow> targetAnchor (jget row ''documentId'') = Some d \<longleftrightarrow> jget row ''documentId'' = JStr d"
  by (fastforce simp: anchors_ok_def list_all_iff dest: anchor_text split: js.splits)

lemma truthy_set: "js_truthy v \<Longrightarrow> \<not> nullish v"
  by (cases v) simp_all

lemma announcement_agrees:
  assumes "targets_ok t"
  shows "d \<in> set (fst (visibleTargetAnchors f now t user)) \<longleftrightarrow> isTargetVisible f now t ''announcement'' d False user"
proof -
  let ?P = "\<lambda>row. \<not> nullish (jget row ''publishedAt'')" and ?Q = "\<lambda>row. jget row ''documentId'' = JStr d \<and> \<not> nullish (jget row ''publishedAt'')"
  have ok: "keyed_rows (t ANNOUNCEMENT_UID)" "anchors_ok (t ANNOUNCEMENT_UID)" using assms by (simp_all add: targets_ok_def)
  have "map_of (publishedByAnchor (loadAnnouncementRows t ?P)) d = map_of (publishedByAnchor (loadAnnouncementRows t ?Q)) d"
    using loaded_anchor [where t = t and d = d and P = ?P, OF ok(1)] loaded_anchor [where t = t and d = d and P = ?Q, OF ok(1)] anchors_okD [OF ok(2)] truthy_set
    by (simp add: anchored_def)
  then show ?thesis unfolding visibleTargetAnchors_def isTargetVisible_def Let_def fst_conv distinct_lookup [OF published_keys]
    by (auto split: option.splits)
qed

lemma space_ids: "keyed_rows (t WIKI_SPACE_UID) \<Longrightarrow> i \<in> set (visibleWikiSpaceIds t scope) \<Longrightarrow> \<not> nullish i"
  by (auto simp: visibleWikiSpaceIds_def keyed_rows_id)

lemma wiki_agrees:
  assumes "targets_ok t"
  shows "d \<in> set (snd (visibleTargetAnchors f now t user)) \<longleftrightarrow> isTargetVisible f now t ''wiki-page'' d False user"
proof -
  let ?spaces = "visibleWikiSpaceIds t (map_option (readUserScope t) user)"
  let ?Q = "\<lambda>row. jget row ''documentId'' = JStr d \<and> \<not> nullish (jget row ''publishedAt'')"
  have ok: "anchors_ok (t WIKI_PAGE_UID)" "keyed_rows (t WIKI_SPACE_UID)"
    "distinct (map (\<lambda>row. jget row ''documentId'') (published_pages (t WIKI_PAGE_UID)))" using assms by (simp_all add: targets_ok_def)
  have list: "d \<in> set (snd (visibleTargetAnchors f now t user)) \<longleftrightarrow> (\<exists>row \<in> set (t WIKI_PAGE_UID). ?Q row \<and> link_id (jget row ''space'') \<in> set ?spaces)"
    using anchors_okD [OF ok(1)] by (auto simp: visibleTargetAnchors_def Let_def visibleWikiPageAnchors_def map_filter_mem)
  show ?thesis
  proof (cases "List.find ?Q (t WIKI_PAGE_UID)")
    case None
    then have "\<not> (\<exists>row \<in> set (t WIKI_PAGE_UID). ?Q row \<and> link_id (jget row ''space'') \<in> set ?spaces)" by (auto simp: find_None_iff)
    then show ?thesis unfolding list using None by (simp add: isTargetVisible_def)
  next
    case (Some page)
    from found_at [OF Some] have page: "page \<in> set (published_pages (t WIKI_PAGE_UID))" "jget page ''documentId'' = JStr d"
      by (simp_all add: published_pages_def)
    have "row = page" if "row \<in> set (t WIKI_PAGE_UID)" "?Q row" for row
      using that page ok(3) by (auto simp: distinct_map inj_on_def published_pages_def)
    with page have "(\<exists>row \<in> set (t WIKI_PAGE_UID). ?Q row \<and> link_id (jget row ''space'') \<in> set ?spaces) \<longleftrightarrow> link_id (jget page ''space'') \<in> set ?spaces"
      by (auto simp: published_pages_def)
    then show ?thesis unfolding list using Some space_ids [of t, OF ok(2)] by (auto simp: isTargetVisible_def Let_def)
  qed
qed

text \<open>C40: A document is in the list of targets a reader without the bypass sees exactly when the check of that one target passes.\<close>

theorem list_and_single_agree:
  assumes "targets_ok t"
  shows "(d \<in> set (fst (visibleTargetAnchors f now t user)) \<longleftrightarrow> isTargetVisible f now t ''announcement'' d False user) \<and>
    (d \<in> set (snd (visibleTargetAnchors f now t user)) \<longleftrightarrow> isTargetVisible f now t ''wiki-page'' d False user)"
  using announcement_agrees [OF assms] wiki_agrees [OF assms] by simp

lemma sample_wiki_ok: "targets_ok sample_wiki"
  by code_simp

theorem list_and_single_agree_witness:
  "visibleTargetAnchors (\<lambda>_. None) 0 sample_wiki None = ([''a''], [''p'']) \<and>
   isTargetVisible (\<lambda>_. None) 0 sample_wiki ''announcement'' ''a'' False None \<and>
   \<not> isTargetVisible (\<lambda>_. None) 0 sample_wiki ''announcement'' ''b'' False None \<and>
   isTargetVisible (\<lambda>_. None) 0 sample_wiki ''wiki-page'' ''p'' False None"
proof -
  have "visibleTargetAnchors (\<lambda>_. None) 0 sample_wiki None = ([''a''], [''p''])" by code_simp
  with list_and_single_agree [OF sample_wiki_ok, of "''a''" "\<lambda>_. None" 0 None] list_and_single_agree [OF sample_wiki_ok, of "''b''" "\<lambda>_. None" 0 None]
    list_and_single_agree [OF sample_wiki_ok, of "''p''" "\<lambda>_. None" 0 None] show ?thesis by simp
qed

section \<open>Reads of comments and reactions\<close>

definition target_visible :: "(string \<Rightarrow> int option) \<Rightarrow> int \<Rightarrow> tables \<Rightarrow> int option \<Rightarrow> fields \<Rightarrow> bool" where
  "target_visible f now t caller row =
     (case jget row ''targetType'' of
        JStr targetType \<Rightarrow> (case jget row ''targetDocumentId'' of JStr d \<Rightarrow> isTargetVisible f now t targetType d False caller | _ \<Rightarrow> False)
      | _ \<Rightarrow> False)"

lemma branch_holds:
  assumes "engine_ok ev"
  shows "ev (anchor_branch targetType ds) row \<longleftrightarrow> jget row ''targetType'' = JStr targetType \<and> (\<exists>d \<in> set ds. jget row ''targetDocumentId'' = JStr d)"
  unfolding anchor_branch_def engine_keys [OF assms, of "[(_, _), (_, _)]"]
  by (auto simp: jget_def engine_in [OF assms] engine_text [OF assms])

lemma none_holds: "engine_ok ev \<Longrightarrow> ev (restrictiveIdFilter []) row \<longleftrightarrow> jget row ''id'' = JInt (- 1)"
  by (simp add: restrictiveIdFilter_def engine_eq_int)

lemma clause_holds: "engine_ok ev \<Longrightarrow> branches \<noteq> [] \<Longrightarrow> ev (anchors_clause branches) row \<longleftrightarrow> list_ex (\<lambda>b. ev b row) branches"
  by (auto simp: anchors_clause_def engine_or split: list.split)

lemma unknown_type: "isTargetVisible f now t targetType d False user \<Longrightarrow> targetType \<in> set COMMENT_TARGET_TYPES"
  by (auto simp: isTargetVisible_def COMMENT_TARGET_TYPES_def Let_def split: if_splits)

lemma branches_visible:
  assumes "engine_ok ev" "targets_ok t"
  shows "list_ex (\<lambda>b. ev b row) (anchor_branches (visibleTargetAnchors f now t caller)) \<longleftrightarrow> target_visible f now t caller row"
proof -
  have "isTargetVisible f now t ty d False caller \<longleftrightarrow>
      ty = ''announcement'' \<and> d \<in> set (fst (visibleTargetAnchors f now t caller)) \<or>
      ty = ''wiki-page'' \<and> d \<in> set (snd (visibleTargetAnchors f now t caller))" for ty d
    using unknown_type [of f now t ty d caller] announcement_agrees [OF assms(2), of d f now caller] wiki_agrees [OF assms(2), of d f now caller]
    by (auto simp: COMMENT_TARGET_TYPES_def)
  then show ?thesis
    by (auto simp: anchor_branches_def branch_holds [OF assms(1)] target_visible_def split: js.splits)
qed

lemma pinned_visible:
  assumes "engine_ok ev" "jget row ''id'' \<noteq> JInt (- 1)"
  shows "ev (pinned_clause f now t False caller pin) row \<longleftrightarrow>
    jget row ''targetType'' = JStr (fst pin) \<and> jget row ''targetDocumentId'' = JStr (snd pin) \<and> target_visible f now t caller row"
  using assms(2) unknown_type by (auto simp: pinned_clause_def branch_holds [OF assms(1)] none_holds [OF assms(1)] target_visible_def)

lemma own_filters:
  assumes "engine_ok ev" "createVisibilityNarrowing stored uid action params = Inr params'" "js_truthy (jget params ''filters'')"
    "ev (jget params' ''filters'') row"
  shows "ev (jget params ''filters'') row"
proof (cases "uid = [] \<or> action \<notin> set NARROWED_READS \<or> map_of stored uid = None \<or> map_of stored uid = Some []")
  case True
  then have "params' = params" using assms(2) by (auto simp: createVisibilityNarrowing_def split: if_splits)
  with assms(4) show ?thesis by simp
next
  case False
  then obtain clauses where "map_of stored uid = Some clauses" "clauses \<noteq> []" by (cases "map_of stored uid") auto
  with narrowed_by [OF assms(1,2) _ _ this(1) assms(4)] False assms(3) show ?thesis by simp
qed

lemma narrowed_query:
  assumes "engine_ok ev" "narrow_request r (JObj clause) = (Inr True, r')" "jget params ''filters'' = jget (rr_query r') ''filters''"
    "createVisibilityNarrowing stored uid action params = Inr params'" "ev (jget params' ''filters'') row"
  shows "ev (JObj clause) row"
proof -
  let ?filters = "jget (rr_query r) ''filters''"
  have query: "jget (rr_query r') ''filters'' = (if js_truthy ?filters then and_filter [?filters, JObj clause] else JObj clause)"
    using assms(2) by (auto simp: narrow_request_def narrowFilters_def Let_def split: sum.splits)
  then have "js_truthy (jget params ''filters'')" by (simp add: assms(3) and_filter_def)
  from own_filters [OF assms(1,4) this assms(5)] have "ev (jget (rr_query r') ''filters'') row" by (simp add: assms(3))
  with query show ?thesis by (simp add: and_filter_holds [OF assms(1)] split: if_splits)
qed

lemma root_uid: "rootUid handler = Some uid \<Longrightarrow> uid \<noteq> []"
proof -
  assume "rootUid handler = Some uid"
  then have "uid \<in> set ROOT_UIDS" unfolding rootUid_def Let_def by (simp split: option.splits if_splits)
  then show ?thesis unfolding ROOT_UIDS_def by auto
qed

lemma clause_object: "\<exists>fs. pinned_clause f now t moderator caller pin = JObj fs" "\<exists>fs. restrictiveIdFilter ids = JObj fs"
  by (simp_all add: pinned_clause_def anchor_branch_def restrictiveIdFilter_def in_clause_def)

text \<open>C39: Whatever filters a reader without the bypass brings, the comments and reactions it reads belong to targets it may see.\<close>

theorem comment_reads_visible:
  assumes "engine_ok ev" "targets_ok t" "\<not> hasRole user MODERATORS" "rootUid handler = Some uid"
    "commentTargetVisibility f now t handler user r = (Inr True, r')" "action \<in> set NARROWED_READS"
    "jget params ''filters'' = jget (rr_query r') ''filters''"
    "createVisibilityNarrowing (rr_stored r') uid action params = Inr params'"
    "ev (jget params' ''filters'') row" "jget row ''id'' \<noteq> JInt (- 1)"
  shows "target_visible f now t (identifiedCaller user) row"
proof (cases "pinnedTargetAnchor (jget (rr_query r) ''filters'')")
  case (Some pin)
  obtain clause where clause: "pinned_clause f now t False (identifiedCaller user) pin = JObj clause" using clause_object(1) by blast
  have narrow: "narrow_request r (JObj clause) = (Inr True, r')"
    using assms(3-5) Some clause by (simp add: commentTargetVisibility_def split: if_splits)
  from narrowed_query [OF assms(1) narrow assms(7-9)] show ?thesis unfolding clause [symmetric] pinned_visible [OF assms(1,10)] by simp
next
  case None
  let ?branches = "anchor_branches (visibleTargetAnchors f now t (identifiedCaller user))"
  show ?thesis
  proof (cases "?branches = []")
    case True
    obtain clause where clause: "restrictiveIdFilter [] = JObj clause" using clause_object(2) by blast
    have narrow: "narrow_request r (JObj clause) = (Inr True, r')"
      using assms(3-5) None True clause by (auto simp: commentTargetVisibility_def split: if_splits sum.splits)
    from narrowed_query [OF assms(1) narrow assms(7-9)] assms(10) show ?thesis unfolding clause [symmetric] none_holds [OF assms(1)] by simp
  next
    case False
    have "narrowReads (rr_canNarrow r) uid (anchors_clause ?branches) (rr_stored r) = (True, rr_stored r')"
      using assms(3-5) None False by (auto simp: commentTargetVisibility_def Let_def split: if_splits sum.splits prod.splits)
    from stored_clause [OF this] obtain cs where cs: "map_of (rr_stored r') uid = Some (cs @ [anchors_clause ?branches])" by blast
    have "uid \<noteq> []" by (rule root_uid [OF assms(4)])
    from narrowed_by [OF assms(1,8) this assms(6) cs assms(9)] have "ev (anchors_clause ?branches) row" by simp
    then show ?thesis unfolding clause_holds [OF assms(1) False] branches_visible [OF assms(1,2)] .
  qed
qed

definition sample_pin :: "string \<Rightarrow> read_request" where
  "sample_pin d = \<lparr>rr_query = [(''filters'', JObj [(''targetType'', JObj [(''$eq'', JStr ''wiki-page'')]),
     (''targetDocumentId'', JObj [(''$eq'', JStr d)])])], rr_stored = [], rr_canNarrow = True\<rparr>"

text \<open>The thread of page p is read, that of page q, in a space of department 5, is not.\<close>

theorem comment_reads_visible_witness:
  "target_visible (\<lambda>_. None) 0 sample_wiki None [(''id'', JInt 1), (''targetType'', JStr ''wiki-page''), (''targetDocumentId'', JStr ''p'')] \<and>
   \<not> target_visible (\<lambda>_. None) 0 sample_wiki None [(''id'', JInt 2), (''targetType'', JStr ''wiki-page''), (''targetDocumentId'', JStr ''q'')] \<and>
   snd (commentTargetVisibility (\<lambda>_. None) 0 sample_wiki (Some ''api::comment.comment.find'') None (sample_pin ''q'')) =
     sample_pin ''q''\<lparr>rr_query := [(''filters'', and_filter [jget (rr_query (sample_pin ''q'')) ''filters'', JObj [(''id'', JObj [(''$eq'', JInt (- 1))])]])]\<rparr>"
proof -
  let ?row = "[(''id'', JInt 1), (''targetType'', JStr ''wiki-page''), (''targetDocumentId'', JStr ''p'')]"
  let ?query = "[(''filters'', and_filter [jget (rr_query (sample_pin ''p'')) ''filters'', anchor_branch ''wiki-page'' [''p'']])]"
  have policy: "commentTargetVisibility (\<lambda>_. None) 0 sample_wiki (Some ''api::comment.comment.find'') None (sample_pin ''p'') =
    (Inr True, sample_pin ''p''\<lparr>rr_query := ?query\<rparr>)" by code_simp
  have root: "rootUid (Some ''api::comment.comment.find'') = Some ''api::comment.comment''" by code_simp
  have stored: "rr_stored (sample_pin ''p''\<lparr>rr_query := ?query\<rparr>) = []" by (simp add: sample_pin_def)
  have read: "createVisibilityNarrowing [] ''api::comment.comment'' ''findMany'' ?query = Inr ?query"
    by (simp add: createVisibilityNarrowing_def)
  have "holds (jget ?query ''filters'') ?row" by code_simp
  from comment_reads_visible [OF holds_ok sample_wiki_ok _ root policy, of "''findMany''" ?query, unfolded stored, OF _ _ _ read this]
  have "target_visible (\<lambda>_. None) 0 sample_wiki (identifiedCaller None) ?row" by (simp add: NARROWED_READS_def hasRole_def jget_def)
  moreover have "\<not> target_visible (\<lambda>_. None) 0 sample_wiki None [(''id'', JInt 2), (''targetType'', JStr ''wiki-page''), (''targetDocumentId'', JStr ''q'')]"
    by code_simp
  moreover have "snd (commentTargetVisibility (\<lambda>_. None) 0 sample_wiki (Some ''api::comment.comment.find'') None (sample_pin ''q'')) =
     sample_pin ''q''\<lparr>rr_query := [(''filters'', and_filter [jget (rr_query (sample_pin ''q'')) ''filters'', JObj [(''id'', JObj [(''$eq'', JInt (- 1))])]])]\<rparr>"
    by code_simp
  ultimately show ?thesis by (simp add: identifiedCaller_def)
qed

section \<open>The pinned target\<close>

lemma eq_string: "eqString v = Some s \<Longrightarrow> v = JObj [(''$eq'', JStr s)]"
  by (auto simp: eqString_def split: js.splits list.splits if_splits)

lemma conjunct_holds:
  assumes "engine_ok ev" "pin_conjuncts fs = Some conjuncts" "c \<in> set conjuncts" "ev (JObj fs) row"
  shows "ev (JObj c) row"
proof (cases "has_key ''$and'' fs")
  case True
  then obtain items where items: "jget fs ''$and'' = JArr items" "list_all js_record items"
    "conjuncts = fs # map (\<lambda>item. case item of JObj x \<Rightarrow> x | _ \<Rightarrow> []) items"
    using assms(2) by (auto simp: pin_conjuncts_def split: js.splits if_splits)
  from True have "''$and'' \<in> set (map fst fs)" by (simp add: has_key_def)
  with assms(4) items(1) have all: "list_all (\<lambda>c. ev c row) items"
    unfolding engine_keys [OF assms(1), of fs] engine_and [OF assms(1), symmetric] by metis
  have "ev (JObj (case item of JObj x \<Rightarrow> x | _ \<Rightarrow> [])) row" if "item \<in> set items" for item
    using that all items(2) by (auto simp: list_all_iff js_record_def split: js.splits)
  with items(3) assms(3,4) show ?thesis by auto
qed (use assms in \<open>auto simp: pin_conjuncts_def\<close>)

lemma pin_value_holds:
  assumes "engine_ok ev" "pin_conjuncts fs = Some conjuncts" "pin_values conjuncts key = Some [v]" "plain_key key" "ev (JObj fs) row"
  shows "jget row key = JStr v"
proof -
  let ?pins = "map (\<lambda>c. eqString (jget c key)) (filter (has_key key) conjuncts)"
  have some: "None \<notin> set ?pins" and one: "remdups (map the ?pins) = [v]"
    using assms(3) unfolding pin_values_def Let_def by (simp_all split: if_splits)
  from one have "v \<in> set (map the ?pins)" by (metis list.set_intros(1) set_remdups)
  then obtain p where p: "p \<in> set ?pins" "v = the p" unfolding set_map [of the] by (rule imageE)
  with some have "Some v \<in> set ?pins" by (cases p) auto
  then obtain c where c: "c \<in> set conjuncts" "has_key key c" "eqString (jget c key) = Some v" by auto
  from conjunct_holds [OF assms(1,2) c(1) assms(5)] c(2) have "ev (JObj [(key, jget c key)]) row"
    unfolding engine_keys [OF assms(1), of c] by (auto simp: has_key_def)
  then show ?thesis by (simp add: eq_string [OF c(3)] engine_eq [OF assms(1,4)])
qed

lemma pin_holds:
  assumes "engine_ok ev" "pinnedTargetAnchor filters = Some pin" "ev filters row"
  shows "jget row ''targetType'' = JStr (fst pin) \<and> jget row ''targetDocumentId'' = JStr (snd pin)"
  using assms(2,3) pin_value_holds [OF assms(1)]
  by (auto simp: pinnedTargetAnchor_def split: js.splits option.splits list.splits)

text \<open>A filter that pins one target gets, by the check of that target alone, the rows the list of all visible targets would leave.\<close>

theorem pinned_same_rows:
  assumes "engine_ok ev" "targets_ok t" "pinnedTargetAnchor filters = Some pin" "jget row ''id'' \<noteq> JInt (- 1)"
    "anchor_branches (visibleTargetAnchors f now t caller) \<noteq> []"
  shows "ev (and_filter [filters, pinned_clause f now t False caller pin]) row \<longleftrightarrow>
    ev (and_filter [filters, anchors_clause (anchor_branches (visibleTargetAnchors f now t caller))]) row"
  using pin_holds [OF assms(1,3), of row] pinned_visible [OF assms(1,4), of f now t caller pin]
    clause_holds [OF assms(1,5), of row] branches_visible [OF assms(1,2), of row f now caller]
  by (auto simp: and_filter_holds [OF assms(1)])

theorem pinned_same_rows_witness:
  "pinnedTargetAnchor (jget (rr_query (sample_pin ''p'')) ''filters'') = Some (''wiki-page'', ''p'') \<and>
   holds (and_filter [jget (rr_query (sample_pin ''p'')) ''filters'',
     anchors_clause (anchor_branches (visibleTargetAnchors (\<lambda>_. None) 0 sample_wiki None))])
     [(''id'', JInt 1), (''targetType'', JStr ''wiki-page''), (''targetDocumentId'', JStr ''p'')]"
proof -
  let ?filters = "jget (rr_query (sample_pin ''p'')) ''filters''"
  let ?row = "[(''id'', JInt 1), (''targetType'', JStr ''wiki-page''), (''targetDocumentId'', JStr ''p'')]"
  have pin: "pinnedTargetAnchor ?filters = Some (''wiki-page'', ''p'')" by code_simp
  have ne: "anchor_branches (visibleTargetAnchors (\<lambda>_. None) 0 sample_wiki None) \<noteq> []" by code_simp
  have id: "jget ?row ''id'' \<noteq> JInt (- 1)" by (simp add: jget_def)
  have "holds (and_filter [?filters, pinned_clause (\<lambda>_. None) 0 sample_wiki False None (''wiki-page'', ''p'')]) ?row" by code_simp
  then have "holds (and_filter [?filters, anchors_clause (anchor_branches (visibleTargetAnchors (\<lambda>_. None) 0 sample_wiki None))]) ?row"
    by (rule iffD1 [OF pinned_same_rows [OF holds_ok sample_wiki_ok pin id ne]])
  with pin show ?thesis by (rule conjI)
qed

end
