(* ===== verification/AuthoringData.thy ===== *)
theory AuthoringData imports Audience GateScope Training Duty Kpi begin

text \<open>
  The answers of the document controller (\<open>apps/cms/src/utils/authoring-controller.ts\<close>): its table of types, the query of a
  write, the state of a document, the answer of a write and the form read. The rows are objects with populated
  relations and ISO instants; \<open>dparse\<close> is Date.parse, \<open>to_number\<close> the conversion \<open>Number(v)\<close>.
\<close>

section \<open>Types\<close>

datatype status_mode = Explicit | AlwaysPublished

record authoring_spec =
  sp_uid :: string
  sp_type :: string
  sp_statusMode :: status_mode
  sp_labelField :: string
  sp_authorField :: "string option"
  sp_scheduled :: bool
  sp_unpublishScheduled :: bool
  sp_flagColumns :: "string list"
  sp_listColumns :: "string list"

definition AUTHORING_SPECS :: "authoring_spec list" where
  "AUTHORING_SPECS =
     [\<lparr>sp_uid = COURSE_UID, sp_type = ''course'', sp_statusMode = Explicit, sp_labelField = ''title'', sp_authorField = None,
        sp_scheduled = True, sp_unpublishScheduled = False, sp_flagColumns = [''audience''], sp_listColumns = []\<rparr>,
      \<lparr>sp_uid = LESSON_UID, sp_type = ''lesson'', sp_statusMode = Explicit, sp_labelField = ''title'', sp_authorField = None,
        sp_scheduled = True, sp_unpublishScheduled = False, sp_flagColumns = [], sp_listColumns = [''order'']\<rparr>,
      \<lparr>sp_uid = ANNOUNCEMENT_UID, sp_type = ''announcement'', sp_statusMode = Explicit, sp_labelField = ''title'', sp_authorField = Some ''author'',
        sp_scheduled = True, sp_unpublishScheduled = False, sp_flagColumns = [''audience'', ''retargetRequired''], sp_listColumns = []\<rparr>,
      \<lparr>sp_uid = EVENT_UID, sp_type = ''event'', sp_statusMode = Explicit, sp_labelField = ''title'', sp_authorField = Some ''organizer'',
        sp_scheduled = True, sp_unpublishScheduled = False, sp_flagColumns = [''notifyAudience''], sp_listColumns = []\<rparr>,
      \<lparr>sp_uid = QUICK_LINK_UID, sp_type = ''quickLink'', sp_statusMode = Explicit, sp_labelField = ''label'', sp_authorField = None,
        sp_scheduled = True, sp_unpublishScheduled = True, sp_flagColumns = [''audience''], sp_listColumns = []\<rparr>,
      \<lparr>sp_uid = DOCUMENT_UID, sp_type = ''document'', sp_statusMode = Explicit, sp_labelField = ''title'', sp_authorField = Some ''uploadedBy'',
        sp_scheduled = True, sp_unpublishScheduled = True, sp_flagColumns = [''audience''], sp_listColumns = []\<rparr>,
      \<lparr>sp_uid = DUTY_PLAN_UID, sp_type = ''dutyPlan'', sp_statusMode = Explicit, sp_labelField = ''name'', sp_authorField = Some ''author'',
        sp_scheduled = False, sp_unpublishScheduled = False, sp_flagColumns = [], sp_listColumns = []\<rparr>,
      \<lparr>sp_uid = KPI_UID, sp_type = ''kpi'', sp_statusMode = Explicit, sp_labelField = ''name'', sp_authorField = Some ''author'',
        sp_scheduled = False, sp_unpublishScheduled = False, sp_flagColumns = [], sp_listColumns = []\<rparr>,
      \<lparr>sp_uid = POLL_UID, sp_type = ''poll'', sp_statusMode = AlwaysPublished, sp_labelField = ''question'', sp_authorField = Some ''author'',
        sp_scheduled = False, sp_unpublishScheduled = False, sp_flagColumns = [''audience''], sp_listColumns = []\<rparr>,
      \<lparr>sp_uid = WIKI_SPACE_UID, sp_type = ''wikiSpace'', sp_statusMode = AlwaysPublished, sp_labelField = ''name'', sp_authorField = None,
        sp_scheduled = False, sp_unpublishScheduled = False, sp_flagColumns = [], sp_listColumns = [''slug'', ''icon'', ''visibility'']\<rparr>,
      \<lparr>sp_uid = WIKI_PAGE_UID, sp_type = ''wikiPage'', sp_statusMode = Explicit, sp_labelField = ''title'', sp_authorField = Some ''author'',
        sp_scheduled = True, sp_unpublishScheduled = False, sp_flagColumns = [], sp_listColumns = [''slug'', ''order'']\<rparr>]"

definition spec_of :: "string \<Rightarrow> authoring_spec option" where
  "spec_of uid = List.find (\<lambda>spec. sp_uid spec = uid) AUTHORING_SPECS"

definition isTrainingUid :: "string \<Rightarrow> bool" where
  "isTrainingUid uid = (uid = COURSE_UID \<or> uid = LESSON_UID)"

definition isWikiUid :: "string \<Rightarrow> bool" where
  "isWikiUid uid = (uid = WIKI_PAGE_UID \<or> uid = WIKI_SPACE_UID)"

section \<open>Values\<close>

definition iso :: "(string \<Rightarrow> int option) \<Rightarrow> js \<Rightarrow> string option" where
  "iso dparse v =
     (case v of
        JStr s \<Rightarrow> if s = [] then None else (case dparse s of None \<Rightarrow> Some s | Some t \<Rightarrow> Some (iso_string t))
      | _ \<Rightarrow> None)"

text \<open>A number, NaN, or null.\<close>

datatype millis = NoInstant | NotANumber | At int

definition ms :: "(string \<Rightarrow> int option) \<Rightarrow> js \<Rightarrow> millis" where
  "ms dparse v = (case iso dparse v of None \<Rightarrow> NoInstant | Some s \<Rightarrow> (case dparse s of None \<Rightarrow> NotANumber | Some t \<Rightarrow> At t))"

definition null_or :: "string option \<Rightarrow> js" where
  "null_or v = (case v of None \<Rightarrow> JNull | Some s \<Rightarrow> JStr s)"

definition text_of :: "js \<Rightarrow> string option" where
  "text_of v = (case v of JStr s \<Rightarrow> Some s | _ \<Rightarrow> None)"

text \<open>\<open>text(v) ?? s\<close>.\<close>

definition text_or :: "string \<Rightarrow> js \<Rightarrow> js" where
  "text_or s v = JStr (case text_of v of None \<Rightarrow> s | Some t \<Rightarrow> t)"

definition bool :: "js \<Rightarrow> js" where
  "bool v = JBool (v = JBool True)"

definition is_number :: "js \<Rightarrow> bool" where
  "is_number v = (case v of JInt _ \<Rightarrow> True | JFrac _ \<Rightarrow> True | JNonFinite \<Rightarrow> True | _ \<Rightarrow> False)"

definition number_or :: "js \<Rightarrow> js \<Rightarrow> js" where
  "number_or d v = (if is_number v then v else d)"

section \<open>The query of a write\<close>

definition STATUS_KEY :: string where "STATUS_KEY = ''status''"
definition FORM_KEY :: string where "FORM_KEY = ''_form''"

definition writeStatus :: "fields \<Rightarrow> status_mode \<Rightarrow> write_error + string" where
  "writeStatus query mode =
     (let extra = filter (\<lambda>key. key \<noteq> STATUS_KEY) (map fst query); raw = jget query STATUS_KEY in
      if extra \<noteq> [] then Inl (refuseKeys extra [])
      else if mode = AlwaysPublished then
        if raw = JUndef \<or> raw = JStr ''published'' then Inr ''published''
        else Inl (refuseKeys [STATUS_KEY] [(STATUS_KEY, ''invalid'')])
      else if raw = JUndef \<or> raw = JStr [] then Inl (refuseKeys [STATUS_KEY] [(STATUS_KEY, ''required'')])
      else if raw = JStr ''draft'' then Inr ''draft''
      else if raw = JStr ''published'' then Inr ''published''
      else Inl (refuseKeys [STATUS_KEY] [(STATUS_KEY, ''invalid'')]))"

definition noQuery :: "fields \<Rightarrow> write_error + unit" where
  "noQuery query = (if map fst query \<noteq> [] then Inl (refuseKeys (map fst query) []) else Inr ())"

definition payloadOf :: "js \<Rightarrow> write_error + fields" where
  "payloadOf body =
     (case (case body of JObj fs \<Rightarrow> jget fs ''data'' | _ \<Rightarrow> JUndef) of JObj data \<Rightarrow> Inr data | _ \<Rightarrow> Inl MissingData)"

section \<open>The state of a document\<close>

definition row_get :: "fields option \<Rightarrow> string \<Rightarrow> js" where
  "row_get row key = (case row of None \<Rightarrow> JUndef | Some fs \<Rightarrow> jget fs key)"

definition documentStatus :: "(string \<Rightarrow> int option) \<Rightarrow> fields option \<Rightarrow> fields option \<Rightarrow> string" where
  "documentStatus dparse draft published =
     (case published of
        None \<Rightarrow> ''draft''
      | Some p \<Rightarrow>
        (case (ms dparse (row_get draft ''updatedAt''), ms dparse (jget p ''updatedAt'')) of
           (At draftAt, At publishedAt) \<Rightarrow> if publishedAt < draftAt then ''modified'' else ''published''
         | _ \<Rightarrow> ''published''))"

definition scheduleFields :: "(string \<Rightarrow> int option) \<Rightarrow> authoring_spec \<Rightarrow> fields option \<Rightarrow> fields" where
  "scheduleFields dparse spec draft =
     (if sp_scheduled spec
      then [(''publishAt'', null_or (iso dparse (row_get draft ''publishAt''))),
            (''scheduleError'', let v = row_get draft ''scheduleError'' in if nullish v then JNull else v)] else []) @
     (if sp_unpublishScheduled spec then [(''unpublishAt'', null_or (iso dparse (row_get draft ''unpublishAt'')))] else [])"

definition resultDto :: "(string \<Rightarrow> int option) \<Rightarrow> authoring_spec \<Rightarrow> fields list \<Rightarrow> string \<Rightarrow> int \<Rightarrow> fields" where
  "resultDto dparse spec rows documentId version =
     (let wiki = isWikiUid (sp_uid spec);
          draft = List.find (\<lambda>row. nullish (jget row ''publishedAt'')) rows;
          published = List.find (\<lambda>row. \<not> nullish (jget row ''publishedAt'')) rows;
          space = (case row_get draft ''space'' of JObj fs \<Rightarrow> Some fs | _ \<Rightarrow> None) in
      [(''documentId'', JStr documentId), (''version'', JStr (str_of_int version)),
       (''status'', JStr (documentStatus dparse draft published)),
       (''publishedAt'', null_or (iso dparse (row_get published ''publishedAt'')))] @
      scheduleFields dparse spec draft @
      (if wiki then [(''slug'', text_or [] (row_get draft ''slug''))] else []) @
      (if sp_uid spec = WIKI_PAGE_UID then [(''spaceSlug'', null_or (text_of (row_get space ''slug'')))] else []))"

section \<open>References\<close>

definition documentIdOf :: "js \<Rightarrow> string option" where
  "documentIdOf v = (case v of JObj fs \<Rightarrow> text_of (jget fs ''documentId'') | _ \<Rightarrow> None)"

definition wikiSpaceRefOf :: "js \<Rightarrow> js" where
  "wikiSpaceRefOf v =
     (case v of
        JObj fs \<Rightarrow> (case jget fs ''documentId'' of
            JStr d \<Rightarrow> JObj [(''documentId'', JStr d), (''slug'', text_or [] (jget fs ''slug'')), (''name'', text_or [] (jget fs ''name''))]
          | _ \<Rightarrow> JNull)
      | _ \<Rightarrow> JNull)"

definition editableMediaOf :: "(js \<Rightarrow> js) \<Rightarrow> js \<Rightarrow> js" where
  "editableMediaOf to_number v =
     (case v of
        JObj fs \<Rightarrow>
          if \<not> is_number (jget fs ''id'') then JNull
          else let fileSize = jget fs ''size'' in
            JObj [(''id'', jget fs ''id''), (''name'', text_or [] (jget fs ''name'')), (''mime'', text_or [] (jget fs ''mime'')),
              (''size'', if is_number fileSize then fileSize else to_number (if nullish fileSize then JInt 0 else fileSize)),
              (''url'', text_or [] (jget fs ''url''))]
      | _ \<Rightarrow> JNull)"

definition trainingCourseRefOf :: "js \<Rightarrow> js" where
  "trainingCourseRefOf v =
     (case v of
        JObj fs \<Rightarrow> (case jget fs ''documentId'' of
            JStr d \<Rightarrow> JObj [(''documentId'', JStr d), (''title'', text_or [] (jget fs ''title'')), (''slug'', text_or [] (jget fs ''slug''))]
          | _ \<Rightarrow> JNull)
      | _ \<Rightarrow> JNull)"

definition ownerOf :: "fields \<Rightarrow> js" where
  "ownerOf row =
     (case jget row ''ownerDepartment'' of
        JObj owner \<Rightarrow> (case jget owner ''documentId'' of
            JStr d \<Rightarrow> JObj [(''documentId'', JStr d), (''name'', text_or [] (jget owner ''name''))]
          | _ \<Rightarrow> JNull)
      | _ \<Rightarrow> JNull)"

definition documentIdsOf :: "js \<Rightarrow> js" where
  "documentIdsOf v = (case v of JArr xs \<Rightarrow> JArr (map JStr (List.map_filter documentIdOf xs)) | _ \<Rightarrow> JArr [])"

definition roleTypesOf :: "js \<Rightarrow> js" where
  "roleTypesOf v = (case v of JArr xs \<Rightarrow> JArr (map JStr (List.map_filter (text_prop ''type'') xs)) | _ \<Rightarrow> JArr [])"

definition displayNameOf :: "js \<Rightarrow> string option" where
  "displayNameOf v =
     (case v of
        JObj fs \<Rightarrow> (case jget fs ''displayName'' of
            JStr s \<Rightarrow> if s \<noteq> [] then Some s else text_of (jget fs ''username'')
          | _ \<Rightarrow> text_of (jget fs ''username''))
      | _ \<Rightarrow> None)"

section \<open>Retargeting\<close>

definition spaceNeedsRetarget :: "fields option \<Rightarrow> bool" where
  "spaceNeedsRetarget row =
     (case row of
        None \<Rightarrow> False
      | Some fs \<Rightarrow>
        (case (case jget fs ''visibility'' of JStr v \<Rightarrow> WIKI_SPACE_VISIBILITY_TARGETS v | _ \<Rightarrow> None) of
           None \<Rightarrow> False
         | Some target \<Rightarrow> (case jget fs target of JArr xs \<Rightarrow> xs = [] | v \<Rightarrow> \<not> js_record v)))"

definition rowNeedsRetarget :: "string \<Rightarrow> fields option \<Rightarrow> bool" where
  "rowNeedsRetarget uid row =
     (case row of
        None \<Rightarrow> False
      | Some fs \<Rightarrow>
        if uid = WIKI_SPACE_UID then spaceNeedsRetarget row
        else if uid = WIKI_PAGE_UID \<or> uid = LESSON_UID then False
        else if uid = ANNOUNCEMENT_UID then announcementNeedsRetarget fs
        else if uid = EVENT_UID then eventNeedsRetarget fs
        else scopedNeedsRetarget fs)"

definition needsRetarget :: "string \<Rightarrow> authoring_rows \<Rightarrow> bool" where
  "needsRetarget uid rows = (rowNeedsRetarget uid (ro_draft rows) \<or> rowNeedsRetarget uid (ro_published rows))"

section \<open>The form read\<close>

definition mayDeleteByDiscard :: "string option \<Rightarrow> bool" where
  "mayDeleteByDiscard roleClass = (roleClass = Some MODERATOR_CLASS \<or> roleClass = Some ''author'')"

definition LIST_CHUNK :: nat where "LIST_CHUNK = 200"

definition AUTHORING_LIST_PAGE_SIZE :: nat where "AUTHORING_LIST_PAGE_SIZE = 25"

definition AUTHORING_LIST_MAX_QUERY :: nat where "AUTHORING_LIST_MAX_QUERY = 100"

function list_chunks :: "'a list \<Rightarrow> nat \<Rightarrow> 'a list list" where
  "list_chunks items n = (if items = [] \<or> n = 0 then [] else take n items # list_chunks (drop n items) n)"
  by pat_completeness auto
termination by (relation "measure (\<lambda>(items, n). length items)") auto

declare list_chunks.simps [simp del]

lemma concat_list_chunks: "0 < n \<Longrightarrow> concat (list_chunks items n) = items"
  by (induction items n rule: list_chunks.induct) (subst list_chunks.simps, auto)

definition count_page :: "js \<Rightarrow> (string \<times> string list) list \<Rightarrow> (string \<times> string list) list" where
  "count_page v pages =
     (case v of
        JObj row \<Rightarrow>
          (case (jget row ''documentId'', documentIdOf (jget row ''space'')) of
             (JStr d, Some space) \<Rightarrow>
               if space = [] then pages
               else let seen = (case map_of pages space of None \<Rightarrow> [] | Some ds \<Rightarrow> ds) in
                 AList.update space (if d \<in> set seen then seen else seen @ [d]) pages
           | _ \<Rightarrow> pages)
      | _ \<Rightarrow> pages)"

definition spacePageCounts :: "tables \<Rightarrow> string list \<Rightarrow> (string \<times> nat) list" where
  "spacePageCounts t spaceDocumentIds =
     (let pages = fold (\<lambda>chunk. fold (\<lambda>row. count_page (JObj row))
            (filter (\<lambda>row. case documentIdOf (jget row ''space'') of None \<Rightarrow> False | Some s \<Rightarrow> s \<in> set chunk) (t WIKI_PAGE_UID)))
          (list_chunks spaceDocumentIds LIST_CHUNK) [] in
      map (\<lambda>(space, ds). (space, length ds)) pages)"

definition count_of :: "(string \<times> nat) list \<Rightarrow> string \<Rightarrow> js" where
  "count_of counts d = JInt (int (case map_of counts d of None \<Rightarrow> 0 | Some n \<Rightarrow> n))"

text \<open>One shape per type.\<close>

definition quiz_answer :: "js \<Rightarrow> js" where
  "quiz_answer v = quiz_js (parseQuiz v)"

definition course_form :: "(string \<Rightarrow> int option) \<Rightarrow> (js \<Rightarrow> js) \<Rightarrow> fields \<Rightarrow> bool \<Rightarrow> fields" where
  "course_form dparse to_number draft retarget =
     [(''title'', text_or [] (jget draft ''title'')), (''slug'', text_or [] (jget draft ''slug'')),
      (''description'', null_or (text_of (jget draft ''description''))),
      (''mandatory'', JBool (jget draft ''mandatory'' \<noteq> JBool False)),
      (''completionMode'', text_or ''confirm'' (jget draft ''completionMode'')),
      (''validityMonths'', number_or JNull (jget draft ''validityMonths'')),
      (''contact'', null_or (text_of (jget draft ''contact''))), (''departments'', documentIdsOf (jget draft ''departments'')),
      (''needsRetarget'', JBool retarget), (''coverImage'', editableMediaOf to_number (jget draft ''coverImage'')),
      (''publishAt'', null_or (iso dparse (jget draft ''publishAt''))), (''scheduleError'', null_or (text_of (jget draft ''scheduleError'')))]"

definition lesson_form :: "(string \<Rightarrow> int option) \<Rightarrow> fields \<Rightarrow> fields" where
  "lesson_form dparse draft =
     [(''title'', text_or [] (jget draft ''title'')), (''body'', null_or (text_of (jget draft ''body''))),
      (''order'', number_or (JInt 0) (jget draft ''order'')), (''course'', trainingCourseRefOf (jget draft ''course'')),
      (''videoUrl'', null_or (text_of (jget draft ''videoUrl''))), (''quiz'', quiz_answer (jget draft ''quiz'')),
      (''publishAt'', null_or (iso dparse (jget draft ''publishAt''))), (''scheduleError'', null_or (text_of (jget draft ''scheduleError'')))]"

definition announcement_form :: "(string \<Rightarrow> int option) \<Rightarrow> fields \<Rightarrow> bool \<Rightarrow> bool \<Rightarrow> fields" where
  "announcement_form dparse draft retarget moderator =
     [(''title'', text_or [] (jget draft ''title'')), (''body'', null_or (text_of (jget draft ''body''))),
      (''expiresAt'', null_or (iso dparse (jget draft ''expiresAt''))), (''department'', null_or (documentIdOf (jget draft ''department''))),
      (''team'', null_or (documentIdOf (jget draft ''team''))), (''audienceRoles'', roleTypesOf (jget draft ''audienceRoles'')),
      (''ownerDepartment'', ownerOf draft), (''needsRetarget'', JBool retarget)] @
     (if moderator
      then [(''pinned'', bool (jget draft ''pinned'')), (''requiresAck'', bool (jget draft ''requiresAck'')),
        (''ackDeadline'', null_or (text_of (jget draft ''ackDeadline''))), (''publishAt'', null_or (iso dparse (jget draft ''publishAt''))),
        (''scheduleError'', null_or (text_of (jget draft ''scheduleError'')))] else [])"

definition event_form :: "(string \<Rightarrow> int option) \<Rightarrow> fields \<Rightarrow> bool \<Rightarrow> bool \<Rightarrow> fields" where
  "event_form dparse draft retarget moderator =
     [(''title'', text_or [] (jget draft ''title'')), (''description'', null_or (text_of (jget draft ''description''))),
      (''start'', null_or (iso dparse (jget draft ''start''))), (''end'', null_or (iso dparse (jget draft ''end''))),
      (''allDay'', bool (jget draft ''allDay'')), (''location'', null_or (text_of (jget draft ''location''))),
      (''url'', null_or (text_of (jget draft ''url''))), (''rsvpEnabled'', bool (jget draft ''rsvpEnabled'')),
      (''capacity'', number_or JNull (jget draft ''capacity'')), (''departments'', documentIdsOf (jget draft ''departments'')),
      (''ownerDepartment'', ownerOf draft), (''needsRetarget'', JBool retarget)] @
     (if moderator
      then [(''publishAt'', null_or (iso dparse (jget draft ''publishAt''))), (''scheduleError'', null_or (text_of (jget draft ''scheduleError'')))]
      else [])"

definition quickLink_form :: "(string \<Rightarrow> int option) \<Rightarrow> fields \<Rightarrow> bool \<Rightarrow> fields" where
  "quickLink_form dparse draft retarget =
     [(''label'', text_or [] (jget draft ''label'')), (''url'', text_or [] (jget draft ''url'')), (''icon'', null_or (text_of (jget draft ''icon''))),
      (''category'', text_or ''tools'' (jget draft ''category'')), (''order'', number_or (JInt 0) (jget draft ''order'')),
      (''departments'', documentIdsOf (jget draft ''departments'')), (''needsRetarget'', JBool retarget),
      (''publishAt'', null_or (iso dparse (jget draft ''publishAt''))), (''unpublishAt'', null_or (iso dparse (jget draft ''unpublishAt''))),
      (''scheduleError'', null_or (text_of (jget draft ''scheduleError'')))]"

definition document_form :: "(string \<Rightarrow> int option) \<Rightarrow> (js \<Rightarrow> js) \<Rightarrow> fields \<Rightarrow> bool \<Rightarrow> bool \<Rightarrow> fields" where
  "document_form dparse to_number draft retarget moderator =
     [(''title'', text_or [] (jget draft ''title'')), (''description'', null_or (text_of (jget draft ''description''))),
      (''category'', text_or ''other'' (jget draft ''category'')), (''departments'', documentIdsOf (jget draft ''departments'')),
      (''file'', editableMediaOf to_number (jget draft ''file'')), (''ownerDepartment'', ownerOf draft), (''needsRetarget'', JBool retarget)] @
     (if moderator
      then [(''requiresAck'', bool (jget draft ''requiresAck'')), (''publishAt'', null_or (iso dparse (jget draft ''publishAt''))),
        (''unpublishAt'', null_or (iso dparse (jget draft ''unpublishAt''))), (''scheduleError'', null_or (text_of (jget draft ''scheduleError'')))]
      else [])"

definition wikiSpace_form :: "tables \<Rightarrow> string \<Rightarrow> fields \<Rightarrow> fields" where
  "wikiSpace_form t documentId draft =
     [(''name'', text_or [] (jget draft ''name'')), (''slug'', text_or [] (jget draft ''slug'')), (''icon'', null_or (text_of (jget draft ''icon''))),
      (''description'', null_or (text_of (jget draft ''description''))), (''visibility'', text_or ''public'' (jget draft ''visibility'')),
      (''allowedRoles'', roleTypesOf (jget draft ''allowedRoles'')), (''department'', null_or (documentIdOf (jget draft ''department''))),
      (''team'', null_or (documentIdOf (jget draft ''team''))), (''needsRetarget'', JBool (spaceNeedsRetarget (Some draft))),
      (''pageCount'', count_of (spacePageCounts t [documentId]) documentId)]"

definition wikiPage_form :: "(string \<Rightarrow> int option) \<Rightarrow> fields \<Rightarrow> string \<Rightarrow> fields" where
  "wikiPage_form dparse draft roleClass =
     [(''title'', text_or [] (jget draft ''title'')), (''slug'', text_or [] (jget draft ''slug'')), (''body'', null_or (text_of (jget draft ''body''))),
      (''summary'', null_or (text_of (jget draft ''summary''))),
      (''tags'', case jget draft ''tags'' of JArr xs \<Rightarrow> JArr (filter (\<lambda>x. text_of x \<noteq> None) xs) | _ \<Rightarrow> JArr []),
      (''tocEnabled'', JBool (jget draft ''tocEnabled'' \<noteq> JBool False)), (''order'', number_or (JInt 0) (jget draft ''order'')),
      (''space'', wikiSpaceRefOf (jget draft ''space'')), (''parent'', null_or (documentIdOf (jget draft ''parent''))),
      (''canDiscardUnpublished'', JBool (mayDeleteByDiscard (Some roleClass)))] @
     (if roleClass = MODERATOR_CLASS
      then [(''department'', null_or (documentIdOf (jget draft ''department''))), (''team'', null_or (documentIdOf (jget draft ''team''))),
        (''publishAt'', null_or (iso dparse (jget draft ''publishAt''))), (''scheduleError'', null_or (text_of (jget draft ''scheduleError'')))]
      else [])"

definition poll_form :: "(string \<Rightarrow> int option) \<Rightarrow> tables \<Rightarrow> authoring_rows \<Rightarrow> fields \<Rightarrow> bool \<Rightarrow> fields" where
  "poll_form dparse t rows draft retarget =
     [(''question'', text_or [] (jget draft ''question'')),
      (''options'', case jget draft ''options'' of JArr xs \<Rightarrow> JArr (filter (\<lambda>x. text_of x \<noteq> None) xs) | _ \<Rightarrow> JArr []),
      (''closesAt'', null_or (iso dparse (jget draft ''closesAt''))), (''anonymous'', bool (jget draft ''anonymous'')),
      (''departments'', documentIdsOf (jget draft ''departments'')), (''visibleToGuests'', bool (jget draft ''visibleToGuests'')),
      (''guestsCanVote'', bool (jget draft ''guestsCanVote'')), (''needsRetarget'', JBool retarget),
      (''hasVotes'', JBool (pollHasVotes t (ro_documentId rows))),
      (''votersRemoved'', JBool (\<not> nullish (jget draft ''votersRemovedAt'') \<or> \<not> nullish (row_get (ro_published rows) ''votersRemovedAt'')))]"

definition template_js :: "duty_template \<Rightarrow> js" where
  "template_js x = JObj [(''label'', JStr (dt_label x)), (''start'', JStr (dt_start x)), (''end'', JStr (dt_end x))]"

definition shift_js :: "duty_shift \<Rightarrow> js" where
  "shift_js x = JObj [(''userId'', JInt (ds_userId x)), (''startsAt'', JStr (ds_startsAt x)), (''endsAt'', JStr (ds_endsAt x))]"

definition rat_js :: "rat \<Rightarrow> js" where
  "rat_js q = (if of_int \<lfloor>q\<rfloor> = q then JInt \<lfloor>q\<rfloor> else JFrac q)"

definition dutyPlan_form :: "(string \<Rightarrow> int option) \<Rightarrow> fields \<Rightarrow> fields" where
  "dutyPlan_form dparse draft =
     [(''name'', text_or [] (jget draft ''name'')), (''note'', null_or (text_of (jget draft ''note''))),
      (''department'', null_or (documentIdOf (jget draft ''department''))),
      (''shiftTemplates'', JArr (case validateDutyTemplates (jget draft ''shiftTemplates'') of Inl _ \<Rightarrow> [] | Inr xs \<Rightarrow> map template_js xs)),
      (''shifts'', JArr (case validateDutyShifts dparse (jget draft ''shifts'') of Inl _ \<Rightarrow> [] | Inr xs \<Rightarrow> map shift_js xs)),
      (''ownerDepartment'', ownerOf draft)]"

definition kpi_form :: "fields \<Rightarrow> fields" where
  "kpi_form draft =
     [(''name'', text_or [] (jget draft ''name'')), (''unit'', null_or (text_of (jget draft ''unit''))),
      (''description'', null_or (text_of (jget draft ''description''))), (''department'', null_or (documentIdOf (jget draft ''department''))),
      (''period'', JStr (case isKpiPeriod (jget draft ''period'') of None \<Rightarrow> ''month'' | Some p \<Rightarrow> period_name p)),
      (''aggregation'', if is_string_in (jget draft ''aggregation'') KPI_AGGREGATIONS then jget draft ''aggregation'' else JStr ''sum''),
      (''values'', JObj (case validateKpiValues (jget draft ''values'') None of Inl _ \<Rightarrow> [] | Inr vs \<Rightarrow> map (\<lambda>(k, q). (k, rat_js q)) vs)),
      (''ownerDepartment'', ownerOf draft)]"

text \<open>None is the error of a type without a shape.\<close>

definition editableFields :: "(string \<Rightarrow> int option) \<Rightarrow> (js \<Rightarrow> js) \<Rightarrow> tables \<Rightarrow> string \<Rightarrow> authoring_rows \<Rightarrow> string \<Rightarrow> fields option" where
  "editableFields dparse to_number t uid rows roleClass =
     (let draft = (case ro_draft rows of None \<Rightarrow> [] | Some d \<Rightarrow> d); moderator = (roleClass = MODERATOR_CLASS);
          retarget = needsRetarget uid rows in
      if uid = COURSE_UID then Some (course_form dparse to_number draft retarget)
      else if uid = LESSON_UID then Some (lesson_form dparse draft)
      else if uid = ANNOUNCEMENT_UID then Some (announcement_form dparse draft retarget moderator)
      else if uid = EVENT_UID then Some (event_form dparse draft retarget moderator)
      else if uid = QUICK_LINK_UID then Some (quickLink_form dparse draft retarget)
      else if uid = DOCUMENT_UID then Some (document_form dparse to_number draft retarget moderator)
      else if uid = WIKI_SPACE_UID then Some (wikiSpace_form t (ro_documentId rows) draft)
      else if uid = WIKI_PAGE_UID then Some (wikiPage_form dparse draft roleClass)
      else if uid = POLL_UID then Some (poll_form dparse t rows draft retarget)
      else if uid = DUTY_PLAN_UID then Some (dutyPlan_form dparse draft)
      else if uid = KPI_UID then Some (kpi_form draft)
      else None)"

section \<open>The form and the rules\<close>

text \<open>What a form shows beside the fields of its class; the edit note is written and never read.\<close>

definition SHOWN_KEYS :: "string list" where
  "SHOWN_KEYS = [''slug'', ''needsRetarget'', ''scheduleError'', ''ownerDepartment'', ''hasVotes'', ''votersRemoved'', ''pageCount'',
     ''canDiscardUnpublished'']"

definition WRITTEN_KEYS :: "string list" where "WRITTEN_KEYS = [''revisionSummary'']"

text \<open>The keys of a form.\<close>

definition form_keys :: "string \<Rightarrow> string \<Rightarrow> string list" where
  "form_keys uid roleClass =
     the (map_option (map fst) (editableFields (\<lambda>_. None) id (\<lambda>_. []) uid \<lparr>ro_documentId = [], ro_draft = None, ro_published = None\<rparr> roleClass))"

lemmas form_defs = course_form_def lesson_form_def announcement_form_def event_form_def quickLink_form_def document_form_def wikiSpace_form_def
  wikiPage_form_def poll_form_def dutyPlan_form_def kpi_form_def

lemma same_form_keys:
  "map_option (map fst) (editableFields dparse to_number t uid rows roleClass) = map_option (map fst) (editableFields dparse' to_number' t' uid rows' roleClass)"
  unfolding editableFields_def Let_def if_distrib [of "map_option (map fst)"]
  by (intro if_cong refl; simp add: form_defs)

lemma keys_of_form: "editableFields dparse to_number t uid rows roleClass = Some form \<Longrightarrow> map fst form = form_keys uid roleClass"
  using same_form_keys [of dparse to_number t uid rows roleClass "\<lambda>_. None" id "\<lambda>_. []" "\<lparr>ro_documentId = [], ro_draft = None, ro_published = None\<rparr>"]
  by (metis form_keys_def option.sel option.simps(9))

definition same_fields :: "string \<Rightarrow> string \<times> write_rule \<Rightarrow> bool" where
  "same_fields uid p = (case p of (roleClass, rule) \<Rightarrow>
     list_all (\<lambda>k. k \<in> set (map fst (wr_fields rule)) \<or> k \<in> set (if uid = WIKI_PAGE_UID then ''space'' # SHOWN_KEYS else SHOWN_KEYS)) (form_keys uid roleClass) \<and>
     list_all (\<lambda>k. k \<in> set (form_keys uid roleClass) \<and> k \<notin> set SHOWN_KEYS \<or> k \<in> set WRITTEN_KEYS) (map fst (wr_fields rule)))"

lemma forms_and_rules: "list_all (\<lambda>(uid, c, u). uid \<in> {DEPARTMENT_UID, TEAM_UID} \<or> list_all (same_fields uid) u) (WRITE_ALLOWLIST pf)"
  by code_simp

lemma rule_of_class:
  assumes "writeRuleFor pf uid False roleClass = Some rule"
  obtains c u where "(uid, c, u) \<in> set (WRITE_ALLOWLIST pf)" "(roleClass, rule) \<in> set u"
  using assms by (auto simp: writeRuleFor_def action_classes_def dest!: map_of_SomeD split: option.splits)

lemma no_org_form: "editableFields dparse to_number t DEPARTMENT_UID rows roleClass = None" "editableFields dparse to_number t TEAM_UID rows roleClass = None"
  by (simp_all add: editableFields_def uid_defs)

text \<open>C31: Whoever may change an item gets a form of exactly the fields its write rule takes, the edit note aside, and of what the server sets and shows.\<close>

theorem form_is_the_rule:
  assumes "writeRuleFor pf uid False roleClass = Some rule" "editableFields dparse to_number t uid rows roleClass = Some form"
  shows "set (map fst (wr_fields rule)) - set WRITTEN_KEYS \<subseteq> set (map fst form) - set SHOWN_KEYS \<and>
    set (map fst form) \<subseteq> set (map fst (wr_fields rule)) \<union> set SHOWN_KEYS \<union> (if uid = WIKI_PAGE_UID then {''space''} else {})"
proof -
  obtain c u where rule: "(uid, c, u) \<in> set (WRITE_ALLOWLIST pf)" "(roleClass, rule) \<in> set u" using rule_of_class [OF assms(1)] .
  have "uid \<noteq> DEPARTMENT_UID" "uid \<noteq> TEAM_UID" using assms(2) no_org_form by auto
  with forms_and_rules [of pf] rule have "same_fields uid (roleClass, rule)" by (fastforce simp: list_all_iff)
  then show ?thesis unfolding keys_of_form [OF assms(2)] same_fields_def by (auto simp: list_all_iff split: if_splits)
qed

theorem form_is_the_rule_witness:
  "writeRuleFor sample_platform DUTY_PLAN_UID False ''departmentAuthor'' = Some (DUTY_PLAN_DEPARTMENT_AUTHOR sample_platform) \<and>
   set (map fst (wr_fields (DUTY_PLAN_DEPARTMENT_AUTHOR sample_platform))) - set WRITTEN_KEYS \<subseteq>
     {''name'', ''note'', ''department'', ''shiftTemplates'', ''shifts'', ''ownerDepartment''} - set SHOWN_KEYS"
proof -
  let ?rows = "\<lparr>ro_documentId = ''d'', ro_draft = Some [(''name'', JStr ''Phones'')], ro_published = None\<rparr>"
  let ?form = "dutyPlan_form (\<lambda>_. None) [(''name'', JStr ''Phones'')]"
  have rule: "writeRuleFor sample_platform DUTY_PLAN_UID False ''departmentAuthor'' = Some (DUTY_PLAN_DEPARTMENT_AUTHOR sample_platform)"
    by (simp add: writeRuleFor_def action_classes_def WRITE_ALLOWLIST_def uid_defs)
  have form: "editableFields (\<lambda>_. None) id (\<lambda>_. []) DUTY_PLAN_UID ?rows ''departmentAuthor'' = Some ?form"
    by (simp add: editableFields_def uid_defs)
  have keys: "set (map fst ?form) = {''name'', ''note'', ''department'', ''shiftTemplates'', ''shifts'', ''ownerDepartment''}"
    by (simp add: dutyPlan_form_def)
  from form_is_the_rule [OF rule form] have "set (map fst (wr_fields (DUTY_PLAN_DEPARTMENT_AUTHOR sample_platform))) - set WRITTEN_KEYS \<subseteq> set (map fst ?form) - set SHOWN_KEYS"
    by (rule conjunct1)
  then show ?thesis unfolding keys using rule by blast
qed

end
