(* ===== verification/AuthoringList.thy ===== *)
theory AuthoringList imports AuthoringData "HOL-Library.Sublist" begin

text \<open>
  The list of \<open>/manage\<close> in \<open>apps/cms/src/utils/authoring-controller.ts\<close>: the query, the full path, the light path and the
  row of the answer. Each read names the state it runs in, since the reads of a list are separate statements; \<open>collate\<close>
  is \<open>localeCompare\<close>.
\<close>

section \<open>The query\<close>

definition LIST_STATUSES :: "string list" where
  "LIST_STATUSES = [''draft'', ''published'', ''modified'', ''scheduled'', ''failed'']"

definition OWNER_FILTERS :: "string list" where "OWNER_FILTERS = [''department'', ''moderators'']"

definition MAX_PAGE :: int where "MAX_PAGE = 10000"

record list_query =
  lq_status :: "string option"
  lq_q :: "string option"
  lq_page :: int
  lq_owner :: "string option"
  lq_space :: "string option"
  lq_course :: "string option"

record list_keys =
  lk_status :: bool
  lk_owner :: bool
  lk_space :: bool
  lk_course :: bool

definition SPACE_FILTER :: rx where
  "SPACE_FILTER = rx_between 1 64 (Cls (\<lambda>c. char_in CHR ''A'' CHR ''Z'' c \<or> char_in CHR ''a'' CHR ''z'' c \<or> is_digit c \<or> c = CHR ''_'' \<or> c = CHR ''-''))"

definition PAGE_RE :: rx where "PAGE_RE = rx_between 1 5 rx_digit"

text \<open>One key: its value, and whether it is refused.\<close>

definition one_of :: "bool \<Rightarrow> string list \<Rightarrow> js \<Rightarrow> string option \<times> bool" where
  "one_of allowed vs v =
     (if \<not> allowed \<or> v = JUndef then (None, False)
      else if is_string_in v vs then (text_of v, False) else (None, True))"

definition query_text :: "js \<Rightarrow> string option \<times> bool" where
  "query_text v =
     (if v = JUndef then (None, False)
      else case v of
          JStr s \<Rightarrow> if AUTHORING_LIST_MAX_QUERY < length s then (None, True) else if trim s = [] then (None, False) else (Some (trim s), False)
        | _ \<Rightarrow> (None, True))"

definition query_page :: "js \<Rightarrow> int option" where
  "query_page v =
     (if v = JUndef then Some 1
      else case v of
          JStr s \<Rightarrow> if rx_match PAGE_RE s \<and> 1 \<le> num_of s \<and> num_of s \<le> MAX_PAGE then Some (num_of s) else None
        | _ \<Rightarrow> None)"

definition matching :: "bool \<Rightarrow> (string \<Rightarrow> bool) \<Rightarrow> js \<Rightarrow> string option \<times> bool" where
  "matching allowed p v =
     (if \<not> allowed \<or> v = JUndef then (None, False)
      else case v of JStr s \<Rightarrow> if p s then (Some s, False) else (None, True) | _ \<Rightarrow> (None, True))"

definition parseListQuery :: "fields \<Rightarrow> list_keys \<Rightarrow> write_error + list_query" where
  "parseListQuery raw keys =
     (let allowed = [''q'', ''page''] @ (if lk_status keys then [''status''] else []) @ (if lk_owner keys then [''owner''] else []) @
            (if lk_space keys then [''space''] else []) @ (if lk_course keys then [''course''] else []);
          status = one_of (lk_status keys) LIST_STATUSES (jget raw ''status'');
          q = query_text (jget raw ''q'');
          page = query_page (jget raw ''page'');
          space = matching (lk_space keys) (rx_match SPACE_FILTER) (jget raw ''space'');
          course = matching (lk_course keys) is_document_id (jget raw ''course'');
          owner = one_of (lk_owner keys) OWNER_FILTERS (jget raw ''owner'');
          refused = filter (\<lambda>key. key \<notin> set allowed) (map fst raw) @ (if snd status then [''status''] else []) @
            (if snd q then [''q''] else []) @ (if page = None then [''page''] else []) @ (if snd space then [''space''] else []) @
            (if snd course then [''course''] else []) @ (if snd owner then [''owner''] else []) in
      if refused \<noteq> []
      then Inl (refuseKeys refused (if snd q \<and> text_of (jget raw ''q'') \<noteq> None then [(''q'', ''tooLong'')] else []))
      else Inr \<lparr>lq_status = fst status, lq_q = fst q, lq_page = the page, lq_owner = fst owner, lq_space = fst space, lq_course = fst course\<rparr>)"

section \<open>The drafts\<close>

definition revisionsOf :: "gate_host \<Rightarrow> string \<Rightarrow> string list option \<Rightarrow> (string \<times> int) list" where
  "revisionsOf h uid documentIds =
     List.map_filter (\<lambda>((u, d), revision). if u = uid \<and> (case documentIds of None \<Rightarrow> True | Some ids \<Rightarrow> d \<in> set ids) then Some (d, revision) else None)
       (gh_versions h)"

definition listWhere :: "authoring_gate \<Rightarrow> list_query \<Rightarrow> fields \<Rightarrow> bool" where
  "listWhere gate query row =
     (nullish (jget row ''publishedAt'') \<and>
      (case (if ag_roleClass gate = DEPARTMENT_AUTHOR_CLASS then ag_department gate else None) of
         Some department \<Rightarrow> link_id (jget row ''ownerDepartment'') = JInt (fst department)
       | None \<Rightarrow>
         if lq_owner query = Some ''department'' then \<not> nullish (link_id (jget row ''ownerDepartment''))
         else if lq_owner query = Some ''moderators'' then nullish (link_id (jget row ''ownerDepartment''))
         else True) \<and>
      (case lq_space query of None \<Rightarrow> True | Some d \<Rightarrow> documentIdOf (jget row ''space'') = Some d) \<and>
      (case lq_course query of None \<Rightarrow> True | Some d \<Rightarrow> documentIdOf (jget row ''course'') = Some d))"

definition labelMatches :: "authoring_spec \<Rightarrow> string option \<Rightarrow> fields \<Rightarrow> bool" where
  "labelMatches spec q row =
     (case q of
        None \<Rightarrow> True
      | Some s \<Rightarrow>
        if s = [] then True
        else (case jget row (sp_labelField spec) of JStr label \<Rightarrow> sublist (to_lower s) (to_lower label) | _ \<Rightarrow> False))"

definition row_doc :: "fields \<Rightarrow> string" where
  "row_doc row = (case text_of (jget row ''documentId'') of None \<Rightarrow> [] | Some d \<Rightarrow> d)"

definition withPublished :: "tables \<Rightarrow> authoring_spec \<Rightarrow> fields list \<Rightarrow> authoring_rows list" where
  "withPublished t spec drafts =
     (let published = fold (\<lambda>chunk m. fold (\<lambda>row. AList.update (row_doc row) row)
            (filter (\<lambda>row. row_doc row \<in> set chunk \<and> \<not> nullish (jget row ''publishedAt'')) (t (sp_uid spec))) m)
          (list_chunks (map row_doc drafts) LIST_CHUNK) [] in
      map (\<lambda>draft. \<lparr>ro_documentId = row_doc draft, ro_draft = Some draft, ro_published = map_of published (row_doc draft)\<rparr>) drafts)"

definition matching_drafts :: "tables \<Rightarrow> authoring_spec \<Rightarrow> authoring_gate \<Rightarrow> list_query \<Rightarrow> fields list" where
  "matching_drafts t spec gate query = filter (labelMatches spec (lq_q query)) (filter (listWhere gate query) (t (sp_uid spec)))"

definition listDocuments :: "tables \<Rightarrow> authoring_spec \<Rightarrow> authoring_gate \<Rightarrow> list_query \<Rightarrow> authoring_rows list" where
  "listDocuments t spec gate query =
     (let documents = withPublished t spec (matching_drafts t spec gate query) in
      if ag_roleClass gate = DEPARTMENT_AUTHOR_CLASS
      then filter (\<lambda>rows. departmentAuthorOwns (sp_uid spec) rows (ag_department gate)) documents else documents)"

section \<open>Order and pages\<close>

text \<open>The comparator; a comparison with NaN counts as equal.\<close>

definition sort_ms :: "millis \<Rightarrow> int option" where
  "sort_ms v = (case v of NoInstant \<Rightarrow> Some 0 | At t \<Rightarrow> Some t | NotANumber \<Rightarrow> None)"

definition newestDraftFirst :: "(string \<Rightarrow> string \<Rightarrow> int) \<Rightarrow> (string \<Rightarrow> int option) \<Rightarrow> authoring_rows \<Rightarrow> authoring_rows \<Rightarrow> int" where
  "newestDraftFirst collate dparse a b =
     (case (sort_ms (ms dparse (row_get (ro_draft b) ''updatedAt'')), sort_ms (ms dparse (row_get (ro_draft a) ''updatedAt''))) of
        (Some y, Some x) \<Rightarrow> if y - x \<noteq> 0 then y - x else collate (ro_documentId a) (ro_documentId b)
      | _ \<Rightarrow> 0)"

text \<open>\<open>Array.prototype.sort\<close> is stable.\<close>

fun insert_by :: "('a \<Rightarrow> 'a \<Rightarrow> int) \<Rightarrow> 'a \<Rightarrow> 'a list \<Rightarrow> 'a list" where
  "insert_by cmp x [] = [x]"
| "insert_by cmp x (y # ys) = (if cmp x y \<le> 0 then x # y # ys else y # insert_by cmp x ys)"

definition js_sort :: "('a \<Rightarrow> 'a \<Rightarrow> int) \<Rightarrow> 'a list \<Rightarrow> 'a list" where
  "js_sort cmp xs = foldr (insert_by cmp) xs []"

definition pageOf :: "'a list \<Rightarrow> int \<Rightarrow> 'a list" where
  "pageOf items page = take AUTHORING_LIST_PAGE_SIZE (drop (nat (page - 1) * AUTHORING_LIST_PAGE_SIZE) items)"

record list_page =
  lp_total :: nat
  lp_page :: "authoring_rows list"
  lp_revisions :: "(string \<times> int) list"

definition listStatusMatches :: "(string \<Rightarrow> int option) \<Rightarrow> authoring_rows \<Rightarrow> string option \<Rightarrow> bool" where
  "listStatusMatches dparse rows status =
     (case status of
        None \<Rightarrow> True
      | Some s \<Rightarrow>
        if s = ''scheduled'' then \<not> nullish (row_get (ro_draft rows) ''publishAt'')
        else if s = ''failed'' then text_of (row_get (ro_draft rows) ''scheduleError'') \<noteq> None
        else documentStatus dparse (ro_draft rows) (ro_published rows) = s)"

text \<open>The versions in one state, then the rows in another.\<close>

definition fullListPage ::
  "(string \<Rightarrow> string \<Rightarrow> int) \<Rightarrow> (string \<Rightarrow> int option) \<Rightarrow> gate_host \<Rightarrow> gate_host \<Rightarrow> authoring_spec \<Rightarrow> authoring_gate \<Rightarrow> list_query \<Rightarrow> list_page" where
  "fullListPage collate dparse h1 h2 spec gate query =
     (let revisions = revisionsOf h1 (sp_uid spec) None;
          documents = js_sort (newestDraftFirst collate dparse)
            (filter (\<lambda>rows. listStatusMatches dparse rows (lq_status query)) (listDocuments (gh_tables h2) spec gate query)) in
      \<lparr>lp_total = length documents, lp_page = pageOf documents (lq_page query), lp_revisions = revisions\<rparr>)"

text \<open>The order of the drafts, the versions of the page, its rows.\<close>

definition lightListPage ::
  "(string \<Rightarrow> string \<Rightarrow> int) \<Rightarrow> (string \<Rightarrow> int option) \<Rightarrow> gate_host \<Rightarrow> gate_host \<Rightarrow> gate_host \<Rightarrow> authoring_spec \<Rightarrow> authoring_gate \<Rightarrow> list_query \<Rightarrow> list_page" where
  "lightListPage collate dparse h0 h1 h2 spec gate query =
     (let light = matching_drafts (gh_tables h0) spec gate query;
          ordered = js_sort (newestDraftFirst collate dparse)
            (map (\<lambda>draft. \<lparr>ro_documentId = row_doc draft, ro_draft = Some draft, ro_published = None\<rparr>) light);
          ids = map ro_documentId (pageOf ordered (lq_page query));
          revisions = revisionsOf h1 (sp_uid spec) (Some ids);
          drafts = filter (\<lambda>row. row_doc row \<in> set ids \<and> nullish (jget row ''publishedAt'')) (gh_tables h2 (sp_uid spec));
          byId = fold (\<lambda>draft. AList.update (row_doc draft) draft) drafts [];
          present = List.map_filter (map_of byId) ids in
      \<lparr>lp_total = length ordered, lp_page = withPublished (gh_tables h2) spec present, lp_revisions = revisions\<rparr>)"

section \<open>The answer\<close>

definition listRow :: "(string \<Rightarrow> int option) \<Rightarrow> authoring_spec \<Rightarrow> authoring_rows \<Rightarrow> int \<Rightarrow> (string \<times> nat) list \<Rightarrow> fields" where
  "listRow dparse spec rows revision pageCounts =
     (let draft = (case ro_draft rows of None \<Rightarrow> [] | Some d \<Rightarrow> d) in
      [(''documentId'', JStr (ro_documentId rows)), (''label'', text_or [] (jget draft (sp_labelField spec))),
       (''status'', JStr (documentStatus dparse (ro_draft rows) (ro_published rows))),
       (''publishedAt'', null_or (iso dparse (row_get (ro_published rows) ''publishedAt''))),
       (''updatedAt'', null_or (iso dparse (jget draft ''updatedAt''))), (''version'', JStr (str_of_int revision))] @
      scheduleFields dparse spec (Some draft) @
      [(''authorName'', case sp_authorField spec of None \<Rightarrow> JNull | Some f \<Rightarrow> null_or (displayNameOf (jget draft f)))] @
      (if sp_uid spec \<in> set DEPARTMENT_AUTHORED_UIDS then [(''ownerDepartment'', ownerOf draft)] else []) @
      [(''needsRetarget'', JBool (needsRetarget (sp_uid spec) rows))] @
      (if sp_uid spec = LESSON_UID
       then [(''course'', trainingCourseRefOf (jget draft ''course'')), (''order'', number_or (JInt 0) (jget draft ''order''))] else []) @
      (if sp_uid spec = WIKI_SPACE_UID
       then [(''slug'', text_or [] (jget draft ''slug'')), (''icon'', null_or (text_of (jget draft ''icon''))),
         (''visibility'', text_or ''public'' (jget draft ''visibility'')), (''pageCount'', count_of pageCounts (ro_documentId rows))] else []) @
      (if sp_uid spec = WIKI_PAGE_UID
       then [(''slug'', text_or [] (jget draft ''slug'')), (''space'', null_or (documentIdOf (jget draft ''space''))),
         (''parent'', null_or (documentIdOf (jget draft ''parent''))), (''order'', number_or (JInt 0) (jget draft ''order''))] else []))"

definition list_version :: "list_page \<Rightarrow> string \<Rightarrow> int" where
  "list_version p d = (case map_of (lp_revisions p) d of None \<Rightarrow> 0 | Some r \<Rightarrow> r)"

definition list_answer :: "(string \<Rightarrow> int option) \<Rightarrow> gate_host \<Rightarrow> authoring_spec \<Rightarrow> list_query \<Rightarrow> list_page \<Rightarrow> js" where
  "list_answer dparse h spec query p =
     (let counts = (if sp_uid spec = WIKI_SPACE_UID then spacePageCounts (gh_tables h) (map ro_documentId (lp_page p)) else []);
          pageCount = max 1 ((int (lp_total p) + int AUTHORING_LIST_PAGE_SIZE - 1) div int AUTHORING_LIST_PAGE_SIZE) in
      JObj [(''data'', JArr (map (\<lambda>rows. JObj (listRow dparse spec rows (list_version p (ro_documentId rows)) counts)) (lp_page p))),
        (''meta'', JObj [(''pagination'', JObj [(''page'', JInt (lq_page query)), (''pageSize'', JInt (int AUTHORING_LIST_PAGE_SIZE)),
          (''pageCount'', JInt pageCount), (''total'', JInt (int (lp_total p)))])])])"

section \<open>Sorting and twins\<close>

lemma insert_map: "(\<And>a b. cmp (f a) (f b) = cmp' a b) \<Longrightarrow> insert_by cmp (f x) (map f ys) = map f (insert_by cmp' x ys)"
  by (induction ys) simp_all

lemma js_sort_map: "(\<And>a b. cmp (f a) (f b) = cmp' a b) \<Longrightarrow> js_sort cmp (map f xs) = map f (js_sort cmp' xs)"
  by (induction xs) (simp_all add: js_sort_def insert_map)

lemma insert_set: "set (insert_by cmp x ys) = insert x (set ys)"
  by (induction ys) auto

lemma js_sort_set [simp]: "set (js_sort cmp xs) = set xs"
  by (induction xs) (simp_all add: js_sort_def insert_set)

lemma page_map: "pageOf (map f xs) page = map f (pageOf xs page)"
  by (simp add: pageOf_def take_map drop_map)

lemma page_subset: "set (pageOf xs page) \<subseteq> set xs"
  unfolding pageOf_def by (meson dual_order.trans set_drop_subset set_take_subset)

definition twin :: "tables \<Rightarrow> authoring_spec \<Rightarrow> string \<Rightarrow> fields option" where
  "twin t spec d = List.find (\<lambda>row. row_doc row = d \<and> \<not> nullish (jget row ''publishedAt'')) (rev (t (sp_uid spec)))"

definition with_twin :: "tables \<Rightarrow> authoring_spec \<Rightarrow> fields \<Rightarrow> authoring_rows" where
  "with_twin t spec draft = \<lparr>ro_documentId = row_doc draft, ro_draft = Some draft, ro_published = twin t spec (row_doc draft)\<rparr>"

lemma by_doc: "map_of (fold (\<lambda>row. AList.update (row_doc row) row) rows m) d =
  (case List.find (\<lambda>row. row_doc row = d) (rev rows) of Some row \<Rightarrow> Some row | None \<Rightarrow> map_of m d)"
  by (induction rows rule: rev_induct) (simp_all add: update_conv')

lemma find_filtered: "List.find P (filter Q xs) = List.find (\<lambda>x. P x \<and> Q x) xs"
  by (induction xs) auto

lemma chunk_doc:
  "map_of (fold (\<lambda>row. AList.update (row_doc row) row) (filter (\<lambda>row. row_doc row \<in> set chunk \<and> \<not> nullish (jget row ''publishedAt'')) rows) m) d =
     (if d \<in> set chunk then (case List.find (\<lambda>row. row_doc row = d \<and> \<not> nullish (jget row ''publishedAt'')) (rev rows) of Some row \<Rightarrow> Some row | None \<Rightarrow> map_of m d)
      else map_of m d)"
proof -
  have "(\<lambda>row. row_doc row = d \<and> row_doc row \<in> set chunk \<and> \<not> nullish (jget row ''publishedAt'')) =
      (if d \<in> set chunk then (\<lambda>row. row_doc row = d \<and> \<not> nullish (jget row ''publishedAt'')) else (\<lambda>_. False))" by auto
  moreover have "List.find (\<lambda>_. False) xs = None" for xs :: "fields list" by (simp add: find_None_iff)
  ultimately show ?thesis by (simp add: by_doc rev_filter find_filtered)
qed

lemma chunks_doc:
  "map_of (fold (\<lambda>chunk m. fold (\<lambda>row. AList.update (row_doc row) row)
       (filter (\<lambda>row. row_doc row \<in> set chunk \<and> \<not> nullish (jget row ''publishedAt'')) (t (sp_uid spec))) m) chunks m) d =
     (if d \<in> set (concat chunks) then (case twin t spec d of Some row \<Rightarrow> Some row | None \<Rightarrow> map_of m d) else map_of m d)"
  by (induction chunks arbitrary: m) (auto simp: chunk_doc twin_def split: option.splits)

lemma withPublished_map: "withPublished t spec drafts = map (with_twin t spec) drafts"
proof -
  have "concat (list_chunks (map row_doc drafts) LIST_CHUNK) = map row_doc drafts"
    by (simp add: concat_list_chunks LIST_CHUNK_def)
  then have in_chunks: "d \<in> set (concat (list_chunks (map row_doc drafts) LIST_CHUNK)) \<longleftrightarrow> d \<in> row_doc ` set drafts" for d by simp
  show ?thesis unfolding withPublished_def Let_def chunks_doc in_chunks
    by (simp add: with_twin_def split: option.split)
qed

section \<open>The light path is the full path\<close>

text \<open>Draft and publish keep one draft per document.\<close>

definition one_draft :: "fields list \<Rightarrow> bool" where
  "one_draft rows = distinct (map row_doc (filter (\<lambda>row. nullish (jget row ''publishedAt'')) rows))"

definition light_row :: "fields \<Rightarrow> authoring_rows" where
  "light_row draft = \<lparr>ro_documentId = row_doc draft, ro_draft = Some draft, ro_published = None\<rparr>"

definition newer :: "(string \<Rightarrow> string \<Rightarrow> int) \<Rightarrow> (string \<Rightarrow> int option) \<Rightarrow> fields \<Rightarrow> fields \<Rightarrow> int" where
  "newer collate dparse a b = newestDraftFirst collate dparse (light_row a) (light_row b)"

lemma sorted_twins: "js_sort (newestDraftFirst collate dparse) (map (with_twin t spec) drafts) = map (with_twin t spec) (js_sort (newer collate dparse) drafts)"
  by (rule js_sort_map) (simp only: newestDraftFirst_def newer_def with_twin_def light_row_def authoring_rows.simps)

lemma sorted_light: "js_sort (newestDraftFirst collate dparse) (map light_row drafts) = map light_row (js_sort (newer collate dparse) drafts)"
  by (rule js_sort_map) (simp add: newer_def)

lemma found_in: "List.find P xs = Some x \<Longrightarrow> x \<in> set xs \<and> P x"
  by (auto simp: find_Some_iff)

lemma reread_draft:
  assumes "one_draft rows" "draft \<in> set rows" "nullish (jget draft ''publishedAt'')" "row_doc draft \<in> set ids"
  shows "map_of (fold (\<lambda>draft. AList.update (row_doc draft) draft) (filter (\<lambda>row. row_doc row \<in> set ids \<and> nullish (jget row ''publishedAt'')) rows) [])
    (row_doc draft) = Some draft"
proof -
  let ?P = "\<lambda>row. row_doc row = row_doc draft \<and> row_doc row \<in> set ids \<and> nullish (jget row ''publishedAt'')"
  have uniq: "row = draft" if "row \<in> set rows" "?P row" for row
    using assms(1-3) that by (auto simp: one_draft_def distinct_map inj_on_def)
  have "List.find ?P (rev rows) = Some draft"
  proof (cases "List.find ?P (rev rows)")
    case None
    with assms(2-4) show ?thesis by (auto simp: find_None_iff)
  next
    case (Some row)
    from found_in [OF Some, unfolded set_rev] have "row \<in> set rows" "?P row" by blast+
    with Some uniq show ?thesis by simp
  qed
  then show ?thesis by (simp add: by_doc rev_filter find_filtered)
qed

lemma all_found: "(\<And>x. x \<in> set xs \<Longrightarrow> f (g x) = Some x) \<Longrightarrow> List.map_filter f (map g xs) = xs"
  by (induction xs) (simp_all add: map_filter_def)

lemma light_page:
  assumes "one_draft (gh_tables h (sp_uid spec))"
  shows "lp_page (lightListPage collate dparse h h1 h spec gate query) =
      map (with_twin (gh_tables h) spec) (pageOf (js_sort (newer collate dparse) (matching_drafts (gh_tables h) spec gate query)) (lq_page query)) \<and>
    lp_total (lightListPage collate dparse h h1 h spec gate query) = length (js_sort (newer collate dparse) (matching_drafts (gh_tables h) spec gate query)) \<and>
    lp_revisions (lightListPage collate dparse h h1 h spec gate query) = revisionsOf h1 (sp_uid spec)
      (Some (map row_doc (pageOf (js_sort (newer collate dparse) (matching_drafts (gh_tables h) spec gate query)) (lq_page query))))"
proof -
  let ?drafts = "matching_drafts (gh_tables h) spec gate query" and ?rows = "gh_tables h (sp_uid spec)"
  let ?page = "pageOf (js_sort (newer collate dparse) ?drafts) (lq_page query)"
  have light: "map (\<lambda>draft. \<lparr>ro_documentId = row_doc draft, ro_draft = Some draft, ro_published = None\<rparr>) ?drafts = map light_row ?drafts"
    by (simp add: light_row_def)
  have ids: "map ro_documentId (pageOf (map light_row (js_sort (newer collate dparse) ?drafts)) (lq_page query)) = map row_doc ?page"
    by (simp add: page_map light_row_def)
  have "draft \<in> set ?rows \<and> nullish (jget draft ''publishedAt'')" if "draft \<in> set ?page" for draft
    using that page_subset [of "js_sort (newer collate dparse) ?drafts" "lq_page query"]
    by (auto simp: matching_drafts_def listWhere_def)
  then have "List.map_filter (map_of (fold (\<lambda>draft. AList.update (row_doc draft) draft)
      (filter (\<lambda>row. row_doc row \<in> set (map row_doc ?page) \<and> nullish (jget row ''publishedAt'')) ?rows) [])) (map row_doc ?page) = ?page"
    using reread_draft [OF assms, of _ "map row_doc ?page"] by (intro all_found) simp
  then show ?thesis unfolding lightListPage_def Let_def light sorted_light ids by (simp add: withPublished_map)
qed

lemma revisions_some:
  "d \<in> set ids \<Longrightarrow> map_of (revisionsOf h uid (Some ids)) d = map_of (revisionsOf h uid None) d"
proof -
  assume d: "d \<in> set ids"
  have "map_of (List.map_filter (\<lambda>((u, d), revision). if u = uid \<and> d \<in> set ids then Some (d, revision) else None) vs) d =
      map_of (List.map_filter (\<lambda>((u, d), revision). if u = uid then Some (d, revision) else None) vs) d" for vs :: "(doc \<times> int) list"
    using d by (induction vs) (auto simp: map_filter_simps)
  then show ?thesis by (simp add: revisionsOf_def)
qed

text \<open>C30: On one state the light path answers what the full path answers: rows, versions, page and totals.\<close>

theorem light_is_full:
  assumes "one_draft (gh_tables h (sp_uid spec))" "ag_roleClass gate \<noteq> DEPARTMENT_AUTHOR_CLASS" "lq_status query = None"
  shows "list_answer dparse h spec query (lightListPage collate dparse h h h spec gate query) =
    list_answer dparse h spec query (fullListPage collate dparse h h spec gate query)"
proof -
  let ?light = "lightListPage collate dparse h h h spec gate query" and ?full = "fullListPage collate dparse h h spec gate query"
  let ?sorted = "js_sort (newer collate dparse) (matching_drafts (gh_tables h) spec gate query)"
  note light = light_page [OF assms(1), of collate dparse h gate query]
  have docs: "filter (\<lambda>rows. listStatusMatches dparse rows (lq_status query)) (listDocuments (gh_tables h) spec gate query) =
      map (with_twin (gh_tables h) spec) (matching_drafts (gh_tables h) spec gate query)"
    using assms(2,3) by (simp add: listStatusMatches_def listDocuments_def Let_def withPublished_map)
  have full: "lp_page ?full = map (with_twin (gh_tables h) spec) (pageOf ?sorted (lq_page query))" "lp_total ?full = length ?sorted"
    "lp_revisions ?full = revisionsOf h (sp_uid spec) None"
    unfolding fullListPage_def Let_def docs sorted_twins by (simp_all add: page_map)
  have "list_version ?light (ro_documentId rows) = list_version ?full (ro_documentId rows)" if "rows \<in> set (lp_page ?full)" for rows
  proof -
    have "ro_documentId rows \<in> set (map row_doc (pageOf ?sorted (lq_page query)))" using that by (auto simp: full with_twin_def)
    then show ?thesis by (simp add: list_version_def light full revisions_some)
  qed
  then show ?thesis using light full unfolding list_answer_def Let_def by (simp cong: map_cong)
qed

definition sample_rows :: "fields list" where
  "sample_rows =
     [[(''id'', JInt 1), (''documentId'', JStr ''a''), (''question'', JStr ''Lunch?''), (''publishedAt'', JNull), (''updatedAt'', JStr ''1'')],
      [(''id'', JInt 2), (''documentId'', JStr ''b''), (''question'', JStr ''Late lunch?''), (''publishedAt'', JNull), (''updatedAt'', JStr ''2'')],
      [(''id'', JInt 3), (''documentId'', JStr ''c''), (''question'', JStr ''Tea?''), (''publishedAt'', JNull), (''updatedAt'', JStr ''3'')],
      [(''id'', JInt 4), (''documentId'', JStr ''a''), (''question'', JStr ''Lunch?''), (''publishedAt'', JStr ''1''), (''updatedAt'', JStr ''1'')]]"

definition sample_polls :: gate_host where
  "sample_polls = \<lparr>gh_tables = (\<lambda>uid. if uid = POLL_UID then sample_rows else []), gh_versions = [((POLL_UID, ''b''), 7), ((POLL_UID, ''a''), 2)]\<rparr>"

definition sample_parse :: "string \<Rightarrow> int option" where
  "sample_parse s = (if s = ''1'' then Some 1000 else if s = ''2'' then Some 2000 else if s = ''3'' then Some 3000 else
     if s = iso_string 1000 then Some 1000 else if s = iso_string 2000 then Some 2000 else if s = iso_string 3000 then Some 3000 else None)"

definition poll_spec :: authoring_spec where "poll_spec = the (spec_of POLL_UID)"

definition moderator_gate :: authoring_gate where
  "moderator_gate = \<lparr>ag_uid = POLL_UID, ag_intent = ''authoringList'', ag_roleClass = MODERATOR_CLASS, ag_callerId = 1, ag_department = None,
     ag_documentId = None, ag_observed = None, ag_rows = None, ag_classify = None\<rparr>"

definition lunch_query :: list_query where
  "lunch_query = \<lparr>lq_status = None, lq_q = Some ''lunch'', lq_page = 1, lq_owner = None, lq_space = None, lq_course = None\<rparr>"

definition no_collate :: "string \<Rightarrow> string \<Rightarrow> int" where "no_collate a b = 0"

lemma poll_spec_uid: "sp_uid poll_spec = POLL_UID"
  by code_simp

theorem light_is_full_witness:
  "map ro_documentId (lp_page (lightListPage no_collate sample_parse sample_polls sample_polls sample_polls poll_spec moderator_gate lunch_query)) = [''b'', ''a''] \<and>
   list_answer sample_parse sample_polls poll_spec lunch_query (lightListPage no_collate sample_parse sample_polls sample_polls sample_polls poll_spec moderator_gate lunch_query) =
   list_answer sample_parse sample_polls poll_spec lunch_query (fullListPage no_collate sample_parse sample_polls sample_polls poll_spec moderator_gate lunch_query)"
proof -
  have one: "one_draft (gh_tables sample_polls (sp_uid poll_spec))" by code_simp
  have cls: "ag_roleClass moderator_gate \<noteq> DEPARTMENT_AUTHOR_CLASS" by code_simp
  have "map ro_documentId (lp_page (lightListPage no_collate sample_parse sample_polls sample_polls sample_polls poll_spec moderator_gate lunch_query)) = [''b'', ''a'']"
    by code_simp
  moreover have "lq_status lunch_query = None" by (simp add: lunch_query_def)
  ultimately show ?thesis using light_is_full [OF one cls] by blast
qed

section \<open>Versions before rows\<close>

lemma revisions_lookup: "map_of (revisionsOf h uid None) d = map_of (gh_versions h) (uid, d)"
proof -
  have "map_of (List.map_filter (\<lambda>((u, d), revision). if u = uid then Some (d, revision) else None) vs) d = map_of vs (uid, d)" for vs :: "(doc \<times> int) list"
    by (induction vs) (auto simp: map_filter_simps)
  then show ?thesis by (simp add: revisionsOf_def)
qed

lemma version_revision:
  assumes "versions_ok (cms_of h)" "map_of (lp_revisions p) d = map_of (gh_versions h) (uid, d)"
  shows "list_version p d = readRevision (cms_of h) (uid, d)"
proof (cases "map_of (gh_versions h) (uid, d)")
  case (Some v)
  then have "map_of (c_versions (cms_of h)) (uid, d) = Some v" by (simp add: cms_of_def)
  with versions_ok_nonneg [OF assms(1) this] assms(2) Some show ?thesis by (simp add: list_version_def readRevision_def toRevision_def)
qed (use assms(2) in \<open>simp add: list_version_def readRevision_def toRevision_def cms_of_def\<close>)

lemma light_version:
  assumes "versions_ok (cms_of h1)" "rows \<in> set (lp_page (lightListPage collate dparse h0 h1 h2 spec gate query))"
  shows "list_version (lightListPage collate dparse h0 h1 h2 spec gate query) (ro_documentId rows) = readRevision (cms_of h1) (sp_uid spec, ro_documentId rows)"
proof (rule version_revision [OF assms(1)])
  let ?p = "lightListPage collate dparse h0 h1 h2 spec gate query"
  obtain ids where ids: "lp_revisions ?p = revisionsOf h1 (sp_uid spec) (Some ids)"
    "lp_page ?p = withPublished (gh_tables h2) spec (List.map_filter (map_of (fold (\<lambda>draft. AList.update (row_doc draft) draft)
       (filter (\<lambda>row. row_doc row \<in> set ids \<and> nullish (jget row ''publishedAt'')) (gh_tables h2 (sp_uid spec))) [])) ids)"
    unfolding lightListPage_def Let_def by simp
  from assms(2) ids(2) obtain draft i where draft: "rows = with_twin (gh_tables h2) spec draft" "i \<in> set ids"
    "map_of (fold (\<lambda>draft. AList.update (row_doc draft) draft)
       (filter (\<lambda>row. row_doc row \<in> set ids \<and> nullish (jget row ''publishedAt'')) (gh_tables h2 (sp_uid spec))) []) i = Some draft"
    unfolding withPublished_map by (auto simp: map_filter_mem)
  then have "row_doc draft = i" by (auto simp: by_doc dest!: found_in split: option.splits)
  with draft have "ro_documentId rows \<in> set ids" by (simp add: with_twin_def)
  then show "map_of (lp_revisions ?p) (ro_documentId rows) = map_of (gh_versions h1) (sp_uid spec, ro_documentId rows)"
    by (simp add: ids(1) revisions_some revisions_lookup)
qed

lemma full_version:
  "versions_ok (cms_of h1) \<Longrightarrow> list_version (fullListPage collate dparse h1 h2 spec gate query) d = readRevision (cms_of h1) (sp_uid spec, d)"
  by (rule version_revision) (simp_all add: fullListPage_def Let_def revisions_lookup)

lemma empty_stays: "guarded_run k c0 c \<Longrightarrow> versions_ok c0 \<Longrightarrow> c_rows c0 k = [] \<Longrightarrow> c_rows c k = []"
proof (induction rule: guarded_run.induct)
  case (mutate c d "next" scope r c' scope')
  then have ih: "c_rows c k = []" "versions_ok c" using run_moved by blast+
  show ?case
  proof (cases r)
    case (Inl e)
    with mutate_error mutate.hyps(3) ih(1) show ?thesis by blast
  next
    case (Inr res)
    from mutate_cases [OF mutate.hyps(3) [unfolded Inr] mutate.hyps(2) ih(2)] ih(1) show ?thesis by metis
  qed
next
  case (create c uid "next" scope res c' scope' i)
  then have ih: "c_rows c k = []" "versions_ok c" using run_moved by blast+
  from create_cases(1) [OF create.hyps(3,2) ih(2) create.hyps(4), of k] create.hyps(5) ih(1) show ?case by simp
qed (simp_all add: lock_document)

lemma same_rows_after:
  assumes "guarded_run k c1 c2" "guarded_run k c2 c3" "versions_ok c1" "readRevision c3 k = readRevision c1 k"
  shows "c_rows c3 k = c_rows c2 k \<or> readRevision c1 k = 0 \<and> c_rows c3 k = []"
proof -
  note a = run_moved [OF assms(1,3)]
  note b = run_moved [OF assms(2)]
  have nonneg: "0 \<le> readRevision c k" for c :: "'a cms" by (simp add: readRevision_def toRevision_def split: option.splits)
  show ?thesis
  proof (cases "c_rows c2 k = []")
    case True
    with empty_stays [OF assms(2)] a show ?thesis by simp
  next
    case False
    then show ?thesis using a b assms(4) nonneg [of c1] nonneg [of c2] by (auto simp: moved_def)
  qed
qed

text \<open>C28: 
  C1: The list reads its versions before its rows, so a save with a version of the list is accepted only while the document is what
  the list showed of it, whatever was written between the reads and after them; the one exception is a document without a
  revision that was deleted.
\<close>

theorem list_version_safe:
  assumes "versions_ok (cms_of h1)" "guarded_run (uid, d) (cms_of h1) (cms_of h2)" "guarded_run (uid, d) (cms_of h2) c"
    "sp_uid spec = uid" "p = lightListPage collate dparse h0 h1 h2 spec gate query \<and> rows \<in> set (lp_page p) \<or> p = fullListPage collate dparse h1 h2 spec gate query"
    "ro_documentId rows = d" "isTarget (Some sc) (uid, d)" "sc_expected sc = Some (list_version p d)"
    "plain_action (uid, d) next" "lock_mutate (uid, d) (Some sc) next c = (Inr res, c', scope')"
  shows "c_rows c (uid, d) = c_rows (cms_of h2) (uid, d) \<or> list_version p d = 0 \<and> c_rows c (uid, d) = []"
proof -
  have version: "list_version p d = readRevision (cms_of h1) (uid, d)"
    using assms(4-6) light_version [OF assms(1)] full_version [OF assms(1)] by blast
  have ok: "versions_ok (cms_of h2)" using run_moved [OF assms(2,1)] by simp
  then have "versions_ok c" using run_moved [OF assms(3)] by simp
  from mutate_cases [OF assms(10,9) this] assms(7)
  have "compare sc (readRevision c (uid, d)) (uid, d) (ensureRow (uid, d) c) = Inr ()" by (metis option.sel)
  then have "readRevision c (uid, d) = readRevision (cms_of h1) (uid, d)" using assms(8) version by (auto simp: compare_def split: if_splits)
  from same_rows_after [OF assms(2,3,1) this] version show ?thesis by simp
qed

definition sample_save :: "fields action" where
  "sample_save = (\<lambda>f c. (Inr JNull, if c_rows c (POLL_UID, ''b'') = [] then c else c\<lparr>c_rows := (c_rows c)((POLL_UID, ''b'') := [[]])\<rparr>))"

definition sample_list :: list_page where
  "sample_list = lightListPage no_collate sample_parse sample_polls sample_polls sample_polls poll_spec moderator_gate lunch_query"

definition sample_token :: "fields scope" where
  "sample_token = \<lparr>sc_uid = Some POLL_UID, sc_documentId = Some ''b'', sc_expected = Some 7, sc_observed = None, sc_classify = None,
     sc_missingClass = None, sc_committed = None\<rparr>"

theorem list_version_safe_witness:
  "list_version sample_list ''b'' = 7 \<and> fst (lock_mutate (POLL_UID, ''b'') (Some sample_token) sample_save (cms_of sample_polls)) = Inr JNull \<and>
   (c_rows (cms_of sample_polls) (POLL_UID, ''b'') = c_rows (cms_of sample_polls) (POLL_UID, ''b'') \<or>
    list_version sample_list ''b'' = 0 \<and> c_rows (cms_of sample_polls) (POLL_UID, ''b'') = [])"
proof -
  let ?c = "cms_of sample_polls"
  have version: "list_version sample_list ''b'' = 7" by code_simp
  have saved: "fst (lock_mutate (POLL_UID, ''b'') (Some sample_token) sample_save ?c) = Inr JNull" by code_simp
  have listed: "with_twin (gh_tables sample_polls) poll_spec (sample_rows ! 1) \<in> set (lp_page sample_list)" by code_simp
  have doc: "ro_documentId (with_twin (gh_tables sample_polls) poll_spec (sample_rows ! 1)) = ''b''" by code_simp
  have ok: "versions_ok ?c" by (simp add: versions_ok_def jmap_ok_def cms_of_def sample_polls_def)
  have plain: "plain_action (POLL_UID, ''b'') sample_save" by (auto simp: plain_action_def sample_save_def)
  have target: "isTarget (Some sample_token) (POLL_UID, ''b'')" "sc_expected sample_token = Some (list_version sample_list ''b'')"
    by (simp_all add: isTarget_def sample_token_def version)
  obtain c' scope' where "lock_mutate (POLL_UID, ''b'') (Some sample_token) sample_save ?c = (Inr JNull, c', scope')"
    using saved by (metis prod.collapse)
  from list_version_safe [OF ok guarded_run.start guarded_run.start poll_spec_uid _ doc target plain this] listed
  have "c_rows ?c (POLL_UID, ''b'') = c_rows ?c (POLL_UID, ''b'') \<or> list_version sample_list ''b'' = 0 \<and> c_rows ?c (POLL_UID, ''b'') = []"
    unfolding sample_list_def by blast
  with version saved show ?thesis by blast
qed

end
