(* ===== verification/AuthoringActions.thy ===== *)
theory AuthoringActions imports AuthoringList begin

text \<open>
  The actions of the document controller (\<open>apps/cms/src/utils/authoring-controller.ts\<close>): the gate's decision, the scope of
  the change, one transaction under the lock and the answer. The Document Service with its other middlewares is the
  record \<open>document_service\<close>; an error it throws is a text whose fields \<open>details\<close> gives.
\<close>

section \<open>Answers and errors\<close>

record http =
  ht_status :: int
  ht_etag :: "string option"
  ht_body :: js

datatype action_error = ActLock lock_error | ActWrite write_error | ActForbidden | ActNotFound | ActFailed

definition error_body :: "js \<Rightarrow> int \<Rightarrow> string \<Rightarrow> string \<Rightarrow> fields \<Rightarrow> js" where
  "error_body data status name message details =
     JObj [(''data'', data), (''error'', JObj [(''status'', JInt status), (''name'', JStr name), (''message'', JStr message), (''details'', JObj details)])]"

definition error_answer :: "int \<Rightarrow> string \<Rightarrow> string \<Rightarrow> fields \<Rightarrow> http" where
  "error_answer status name message details = \<lparr>ht_status = status, ht_etag = None, ht_body = error_body JNull status name message details\<rparr>"

text \<open>None where the error is none of the lock's refusals.\<close>

definition sendLockError :: "lock_error \<Rightarrow> http option" where
  "sendLockError e =
     (case e of
        RevisionRequired \<Rightarrow> Some (error_answer 428 ''PreconditionRequiredError''
          (''This change needs If-Match: '' @ [CHR 0x22] @ ''<revision>'' @ [CHR 0x22] @ '' (the version the form was loaded with)'') [])
      | RevisionStale current \<Rightarrow> Some (error_answer 412 ''PreconditionFailedError''
          ''The document was changed by someone else since you loaded it'' [(''current'', JInt current)])
      | ClassLost status \<Rightarrow>
          if status = 403 then Some (error_answer 403 ''PolicyError'' ''Policy Failed'' [])
          else Some (error_answer status ''NotFoundError'' ''Not Found'' [])
      | _ \<Rightarrow> None)"

definition STRAPI_UNIQUE_MESSAGE :: string where "STRAPI_UNIQUE_MESSAGE = ''This attribute must be unique''"

definition unique_key :: "js \<Rightarrow> string list" where
  "unique_key entry =
     (case entry of
        JObj fs \<Rightarrow>
          if jget fs ''message'' \<noteq> JStr STRAPI_UNIQUE_MESSAGE then []
          else (case jget fs ''path'' of JArr [JStr key] \<Rightarrow> [key] | _ \<Rightarrow> [])
      | _ \<Rightarrow> [])"

definition uniqueRefusedKeys :: "fields \<Rightarrow> string list" where
  "uniqueRefusedKeys error =
     (if jget error ''name'' \<noteq> JStr ''ValidationError'' then []
      else case jget error ''details'' of
          JObj details \<Rightarrow> (case jget details ''errors'' of JArr entries \<Rightarrow> concat (map unique_key entries) | _ \<Rightarrow> [])
        | _ \<Rightarrow> [])"

definition answering :: "(string \<Rightarrow> fields) \<Rightarrow> (action_error + http) \<times> 's \<Rightarrow> (action_error + http) \<times> 's" where
  "answering details outcome =
     (case outcome of
        (Inl (ActLock e), c) \<Rightarrow>
          (case sendLockError e of
             Some answer \<Rightarrow> (Inr answer, c)
           | None \<Rightarrow>
             (case e of
                Inner s \<Rightarrow>
                  let taken = uniqueRefusedKeys (details s) in
                  (Inl (if taken = [] then ActLock e else ActWrite (refuseKeys taken (map (\<lambda>key. (key, ''taken'')) taken))), c)
              | _ \<Rightarrow> (Inl (ActLock e), c)))
      | _ \<Rightarrow> outcome)"

definition gateFor :: "authoring_gate option \<Rightarrow> string \<Rightarrow> string \<Rightarrow> action_error + authoring_gate" where
  "gateFor gate uid intent =
     (case gate of
        None \<Rightarrow> Inl ActForbidden
      | Some g \<Rightarrow> if ag_uid g \<noteq> uid \<or> ag_intent g \<noteq> intent then Inl ActForbidden else Inr g)"

section \<open>The Document Service\<close>

record wiki_edit =
  wk_editorId :: int
  wk_revisionSummary :: "string option"
  wk_restoredFrom :: "int option"

record document_service =
  ds_create :: "string \<Rightarrow> wiki_edit option \<Rightarrow> fields \<Rightarrow> string \<Rightarrow> fields action"
  ds_update :: "doc \<Rightarrow> wiki_edit option \<Rightarrow> fields \<Rightarrow> string \<Rightarrow> fields action"
  ds_publish :: "doc \<Rightarrow> fields action"
  ds_unpublish :: "doc \<Rightarrow> fields action"
  ds_discardDraft :: "doc \<Rightarrow> fields action"
  ds_delete :: "doc \<Rightarrow> fields action"

text \<open>The edit context of a wiki page, and the payload without the edit note.\<close>

definition withWikiEdit :: "string \<Rightarrow> authoring_gate \<Rightarrow> fields \<Rightarrow> int option \<Rightarrow> wiki_edit option \<times> fields" where
  "withWikiEdit uid gate data restoredFrom =
     (if uid \<noteq> WIKI_PAGE_UID then (None, data)
      else (Some \<lparr>wk_editorId = ag_callerId gate, wk_revisionSummary = text_of (jget data ''revisionSummary''), wk_restoredFrom = restoredFrom\<rparr>,
        AList.delete ''revisionSummary'' data))"

definition service_call ::
  "string \<Rightarrow> fields scope \<Rightarrow> doc \<Rightarrow> fields action \<Rightarrow> fields cms \<Rightarrow> (action_error + js) \<times> fields cms \<times> fields scope" where
  "service_call action scope d next c =
     (case createDocumentLock \<lparr>ac_uid = JStr (fst d), ac_action = Some action, ac_params = JObj [(''documentId'', JStr (snd d))]\<rparr> (Some scope) next c of
        (Inl e, c', _) \<Rightarrow> (Inl (ActLock e), c', scope)
      | (Inr result, c', scope') \<Rightarrow> (Inr result, c', case scope' of None \<Rightarrow> scope | Some s \<Rightarrow> s))"

section \<open>A mutation\<close>

definition mutation_scope :: "authoring_spec \<Rightarrow> authoring_gate \<Rightarrow> int \<Rightarrow> int \<Rightarrow> fields scope" where
  "mutation_scope spec gate missingClass expected =
     \<lparr>sc_uid = Some (sp_uid spec), sc_documentId = ag_documentId gate, sc_expected = Some expected, sc_observed = ag_observed gate,
      sc_classify = ag_classify gate, sc_missingClass = Some missingClass, sc_committed = None\<rparr>"

definition gate_doc :: "authoring_spec \<Rightarrow> authoring_gate \<Rightarrow> doc" where
  "gate_doc spec gate = (sp_uid spec, case ag_documentId gate of None \<Rightarrow> [] | Some d \<Rightarrow> d)"

definition write_answer :: "(string \<Rightarrow> int option) \<Rightarrow> authoring_spec \<Rightarrow> int \<Rightarrow> fields cms \<Rightarrow> string \<Rightarrow> int \<Rightarrow> http" where
  "write_answer dparse spec status c documentId version =
     \<lparr>ht_status = status, ht_etag = Some (etagOf version),
      ht_body = JObj [(''data'', JObj (resultDto dparse spec (c_rows c (sp_uid spec, documentId)) documentId version))]\<rparr>"

text \<open>\<open>run\<close> answers whether it deleted the document.\<close>

definition runDocumentMutation ::
  "(string \<Rightarrow> int option) \<Rightarrow> authoring_spec \<Rightarrow> js \<Rightarrow> authoring_gate \<Rightarrow> int \<Rightarrow>
   (fields scope \<Rightarrow> fields cms \<Rightarrow> (action_error + bool) \<times> fields cms \<times> fields scope) \<Rightarrow> fields cms \<Rightarrow> (action_error + http) \<times> fields cms" where
  "runDocumentMutation dparse spec ifMatch gate missingClass run c =
     (case parseIfMatch ifMatch of
        Inl e \<Rightarrow> (Inl (ActLock e), c)
      | Inr expected \<Rightarrow>
        (case run (mutation_scope spec gate missingClass expected) c of
           (Inl e, _, _) \<Rightarrow> (Inl e, c)
         | (Inr True, c', _) \<Rightarrow> (Inr \<lparr>ht_status = 204, ht_etag = None, ht_body = JNull\<rparr>, c')
         | (Inr False, c', scope) \<Rightarrow>
           (Inr (write_answer dparse spec 200 c' (snd (gate_doc spec gate)) (case sc_committed scope of None \<Rightarrow> 0 | Some v \<Rightarrow> v)), c')))"

text \<open>A run that is one call of the Document Service.\<close>

definition call_run :: "string \<Rightarrow> doc \<Rightarrow> fields action \<Rightarrow> fields scope \<Rightarrow> fields cms \<Rightarrow> (action_error + bool) \<times> fields cms \<times> fields scope" where
  "call_run action d next scope c = (case service_call action scope d next c of (Inl e, r) \<Rightarrow> (Inl e, r) | (Inr _, r) \<Rightarrow> (Inr False, r))"

section \<open>The actions\<close>

definition action_create ::
  "(string \<Rightarrow> int option) \<Rightarrow> document_service \<Rightarrow> authoring_spec \<Rightarrow> authoring_gate option \<Rightarrow> fields \<Rightarrow> js \<Rightarrow> fields cms \<Rightarrow> (action_error + http) \<times> fields cms" where
  "action_create dparse svc spec gateState query body c =
     (case gateFor gateState (sp_uid spec) ''create'' of
        Inl e \<Rightarrow> (Inl e, c)
      | Inr gate \<Rightarrow>
        (case writeStatus query (sp_statusMode spec) of
           Inl e \<Rightarrow> (Inl (ActWrite e), c)
         | Inr status \<Rightarrow>
           (case payloadOf body of
              Inl e \<Rightarrow> (Inl (ActWrite e), c)
            | Inr data \<Rightarrow>
              let (edit, data') = withWikiEdit (sp_uid spec) gate data None;
                  scope = \<lparr>sc_uid = Some (sp_uid spec), sc_documentId = None, sc_expected = None, sc_observed = None, sc_classify = None,
                    sc_missingClass = None, sc_committed = None\<rparr> in
              (case createDocumentLock \<lparr>ac_uid = JStr (sp_uid spec), ac_action = Some ''create'', ac_params = JObj []\<rparr> (Some scope)
                  (ds_create svc (sp_uid spec) edit data' status) c of
                 (Inl e, _, _) \<Rightarrow> (Inl (ActLock e), c)
               | (Inr created, c', scope') \<Rightarrow>
                 (case documentIdOf created of
                    None \<Rightarrow> (Inl ActFailed, c)
                  | Some documentId \<Rightarrow>
                    if documentId = [] then (Inl ActFailed, c)
                    else (Inr (write_answer dparse spec 201 c' documentId
                        (case scope' of None \<Rightarrow> 1 | Some s \<Rightarrow> (case sc_committed s of None \<Rightarrow> 1 | Some v \<Rightarrow> v))), c'))))))"

definition action_update ::
  "(string \<Rightarrow> int option) \<Rightarrow> document_service \<Rightarrow> authoring_spec \<Rightarrow> authoring_gate option \<Rightarrow> js \<Rightarrow> fields \<Rightarrow> js \<Rightarrow> fields cms \<Rightarrow>
   (action_error + http) \<times> fields cms" where
  "action_update dparse svc spec gateState ifMatch query body c =
     (case gateFor gateState (sp_uid spec) ''update'' of
        Inl e \<Rightarrow> (Inl e, c)
      | Inr gate \<Rightarrow>
        (case writeStatus query (sp_statusMode spec) of
           Inl e \<Rightarrow> (Inl (ActWrite e), c)
         | Inr status \<Rightarrow>
           (case payloadOf body of
              Inl e \<Rightarrow> (Inl (ActWrite e), c)
            | Inr data \<Rightarrow>
              let (edit, data') = withWikiEdit (sp_uid spec) gate data None; d = gate_doc spec gate in
              runDocumentMutation dparse spec ifMatch gate 403 (call_run ''update'' d (ds_update svc d edit data' status)) c)))"

definition documentAction ::
  "(string \<Rightarrow> int option) \<Rightarrow> authoring_spec \<Rightarrow> string \<Rightarrow>
   (authoring_gate \<Rightarrow> fields scope \<Rightarrow> fields cms \<Rightarrow> (action_error + bool) \<times> fields cms \<times> fields scope) \<Rightarrow>
   authoring_gate option \<Rightarrow> js \<Rightarrow> fields \<Rightarrow> fields cms \<Rightarrow> (action_error + http) \<times> fields cms" where
  "documentAction dparse spec intent run gateState ifMatch query c =
     (case noQuery query of
        Inl e \<Rightarrow> (Inl (ActWrite e), c)
      | Inr _ \<Rightarrow>
        (case gateFor gateState (sp_uid spec) intent of
           Inl e \<Rightarrow> (Inl e, c)
         | Inr gate \<Rightarrow> runDocumentMutation dparse spec ifMatch gate 404 (run gate) c))"

definition action_publish ::
  "(string \<Rightarrow> int option) \<Rightarrow> document_service \<Rightarrow> authoring_spec \<Rightarrow> authoring_gate option \<Rightarrow> js \<Rightarrow> fields \<Rightarrow> fields cms \<Rightarrow> (action_error + http) \<times> fields cms" where
  "action_publish dparse svc spec = documentAction dparse spec ''publish''
     (\<lambda>gate. call_run ''publish'' (gate_doc spec gate) (ds_publish svc (gate_doc spec gate)))"

definition action_unpublish ::
  "(string \<Rightarrow> int option) \<Rightarrow> document_service \<Rightarrow> authoring_spec \<Rightarrow> authoring_gate option \<Rightarrow> js \<Rightarrow> fields \<Rightarrow> fields cms \<Rightarrow> (action_error + http) \<times> fields cms" where
  "action_unpublish dparse svc spec = documentAction dparse spec ''unpublish''
     (\<lambda>gate. call_run ''unpublish'' (gate_doc spec gate) (ds_unpublish svc (gate_doc spec gate)))"

text \<open>Under the lock: the class, the tokens, and whether there is a published version to return to.\<close>

definition discard_check :: "string \<Rightarrow> fields scope \<Rightarrow> doc \<Rightarrow> int \<Rightarrow> fields cms \<Rightarrow> action_error + unit" where
  "discard_check uid scope d locked c =
     (case (case sc_classify scope of None \<Rightarrow> None | Some classify \<Rightarrow> classify c d) of
        None \<Rightarrow> Inl (ActLock (ClassLost 404))
      | Some roleClass \<Rightarrow>
        if sc_expected scope \<noteq> Some locked \<or> sc_observed scope \<noteq> Some locked then Inl (ActLock (RevisionStale locked))
        else if filter (\<lambda>row. \<not> nullish (jget row ''publishedAt'')) (c_rows c d) = [] \<and> (isTrainingUid uid \<or> \<not> mayDeleteByDiscard (Some roleClass)) then
          if \<not> isTrainingUid uid \<and> roleClass \<noteq> DEPARTMENT_AUTHOR_CLASS then Inl (ActLock (ClassLost 404))
          else Inl (ActWrite (Refused [FORM_KEY] [(FORM_KEY, ''neverPublished'')]))
        else Inr ())"

definition discard_run :: "document_service \<Rightarrow> authoring_spec \<Rightarrow> authoring_gate \<Rightarrow> fields scope \<Rightarrow> fields cms \<Rightarrow>
   (action_error + bool) \<times> fields cms \<times> fields scope" where
  "discard_run svc spec gate scope c =
     (let d = gate_doc spec gate;
          checked = (if isTrainingUid (sp_uid spec) \<or> \<not> mayDeleteByDiscard (Some (ag_roleClass gate))
            then (case lockDocument d c of (locked, c1) \<Rightarrow> (discard_check (sp_uid spec) scope d locked c1, c1)) else (Inr (), c)) in
      case checked of
        (Inl e, c1) \<Rightarrow> (Inl e, c1, scope)
      | (Inr _, c1) \<Rightarrow>
        (case service_call ''discardDraft'' scope d (ds_discardDraft svc d) c1 of
           (Inl e, r) \<Rightarrow> (Inl e, r)
         | (Inr _, c2, scope') \<Rightarrow> (Inr (c_rows c2 d = []), c2, scope')))"

definition action_discardDraft ::
  "(string \<Rightarrow> int option) \<Rightarrow> document_service \<Rightarrow> authoring_spec \<Rightarrow> authoring_gate option \<Rightarrow> js \<Rightarrow> fields \<Rightarrow> fields cms \<Rightarrow> (action_error + http) \<times> fields cms" where
  "action_discardDraft dparse svc spec = documentAction dparse spec ''discardDraft'' (discard_run svc spec)"

text \<open>The id of the route is resolved in \<open>h\<close>, before the transaction.\<close>

definition action_delete :: "document_service \<Rightarrow> authoring_spec \<Rightarrow> gate_host \<Rightarrow> js \<Rightarrow> js \<Rightarrow> fields \<Rightarrow> fields cms \<Rightarrow> (action_error + http) \<times> fields cms" where
  "action_delete svc spec h idParam ifMatch query c =
     (case noQuery query of
        Inl e \<Rightarrow> (Inl (ActWrite e), c)
      | Inr _ \<Rightarrow>
        (case (case parseEntryRef idParam of
                 None \<Rightarrow> None
               | Some ref \<Rightarrow> (case List.find (case ref of RefId i \<Rightarrow> (\<lambda>row. jget row ''id'' = JInt i) | RefDocument d \<Rightarrow> (\<lambda>row. jget row ''documentId'' = JStr d))
                     (gh_tables h (sp_uid spec)) of None \<Rightarrow> None | Some row \<Rightarrow> documentIdOf (JObj row))) of
           None \<Rightarrow> (Inl ActNotFound, c)
         | Some documentId \<Rightarrow>
           if documentId = [] then (Inl ActNotFound, c)
           else (case parseIfMatch ifMatch of
               Inl e \<Rightarrow> (Inl (ActLock e), c)
             | Inr expected \<Rightarrow>
               let d = (sp_uid spec, documentId);
                   scope = \<lparr>sc_uid = Some (sp_uid spec), sc_documentId = Some documentId, sc_expected = Some expected, sc_observed = None,
                     sc_classify = None, sc_missingClass = Some 404, sc_committed = None\<rparr> in
               (case service_call ''delete'' scope d (ds_delete svc d) c of
                  (Inl e, _) \<Rightarrow> (Inl e, c)
                | (Inr _, c', _) \<Rightarrow> (Inr \<lparr>ht_status = 204, ht_etag = None, ht_body = JNull\<rparr>, c')))))"

definition action_list ::
  "(string \<Rightarrow> string \<Rightarrow> int) \<Rightarrow> (string \<Rightarrow> int option) \<Rightarrow> gate_host \<Rightarrow> authoring_spec \<Rightarrow> authoring_gate option \<Rightarrow> fields \<Rightarrow> action_error + http" where
  "action_list collate dparse h spec gateState query =
     (let uid = sp_uid spec in
      case gateFor gateState uid ''authoringList'' of
        Inl e \<Rightarrow> Inl e
      | Inr gate \<Rightarrow>
        (case parseListQuery query \<lparr>lk_status = (uid \<noteq> WIKI_SPACE_UID),
             lk_owner = (uid \<in> set DEPARTMENT_AUTHORED_UIDS \<and> ag_roleClass gate = MODERATOR_CLASS), lk_space = (uid = WIKI_PAGE_UID), lk_course = (uid = LESSON_UID)\<rparr> of
           Inl e \<Rightarrow> Inl (ActWrite e)
         | Inr q \<Rightarrow>
           Inr \<lparr>ht_status = 200, ht_etag = None, ht_body = list_answer dparse h spec q
             (if lq_status q = None \<and> ag_roleClass gate \<noteq> DEPARTMENT_AUTHOR_CLASS
              then lightListPage collate dparse h h h spec gate q else fullListPage collate dparse h h spec gate q)\<rparr>))"

definition action_editable ::
  "(string \<Rightarrow> int option) \<Rightarrow> (js \<Rightarrow> js) \<Rightarrow> tables \<Rightarrow> authoring_spec \<Rightarrow> authoring_gate option \<Rightarrow> fields \<Rightarrow> action_error + http" where
  "action_editable dparse to_number t spec gateState query =
     (case noQuery query of
        Inl e \<Rightarrow> Inl (ActWrite e)
      | Inr _ \<Rightarrow>
        (case gateFor gateState (sp_uid spec) ''editable'' of
           Inl e \<Rightarrow> Inl e
         | Inr gate \<Rightarrow>
           (case ag_rows gate of
              None \<Rightarrow> Inl ActFailed
            | Some rows \<Rightarrow>
              let version = (case ag_observed gate of None \<Rightarrow> 0 | Some v \<Rightarrow> v) in
              (case editableFields dparse to_number t (sp_uid spec) rows (ag_roleClass gate) of
                 None \<Rightarrow> Inl ActFailed
               | Some form \<Rightarrow>
                 Inr \<lparr>ht_status = 200, ht_etag = Some (etagOf version), ht_body = JObj [(''data'', JObj
                   ([(''documentId'', JStr (ro_documentId rows)), (''version'', JStr (str_of_int version)),
                     (''status'', JStr (documentStatus dparse (ro_draft rows) (ro_published rows))),
                     (''publishedAt'', null_or (iso dparse (row_get (ro_published rows) ''publishedAt''))),
                     (''updatedAt'', null_or (iso dparse (row_get (ro_draft rows) ''updatedAt''))),
                     (''roleClass'', JStr (ag_roleClass gate)),
                     (''authorName'', case sp_authorField spec of None \<Rightarrow> JNull | Some f \<Rightarrow> null_or (displayNameOf (row_get (ro_draft rows) f)))] @ form))]\<rparr>))))"

section \<open>The writing routes\<close>

datatype request =
    Create fields js
  | Update js fields js
  | Publish js fields
  | Unpublish js fields
  | DiscardDraft js fields
  | Delete js js fields

text \<open>A type that is always published has no publish, unpublish and discard.\<close>

definition authoring_route ::
  "(string \<Rightarrow> fields) \<Rightarrow> (string \<Rightarrow> int option) \<Rightarrow> document_service \<Rightarrow> authoring_spec \<Rightarrow> gate_host \<Rightarrow> authoring_gate option \<Rightarrow> request \<Rightarrow> fields cms \<Rightarrow>
   (action_error + http) \<times> fields cms" where
  "authoring_route details dparse svc spec h gate req c =
     answering details
       (case req of
          Create query body \<Rightarrow> action_create dparse svc spec gate query body c
        | Update ifMatch query body \<Rightarrow> action_update dparse svc spec gate ifMatch query body c
        | Publish ifMatch query \<Rightarrow> if sp_statusMode spec = Explicit then action_publish dparse svc spec gate ifMatch query c else (Inl ActNotFound, c)
        | Unpublish ifMatch query \<Rightarrow> if sp_statusMode spec = Explicit then action_unpublish dparse svc spec gate ifMatch query c else (Inl ActNotFound, c)
        | DiscardDraft ifMatch query \<Rightarrow> if sp_statusMode spec = Explicit then action_discardDraft dparse svc spec gate ifMatch query c else (Inl ActNotFound, c)
        | Delete idParam ifMatch query \<Rightarrow> action_delete svc spec h idParam ifMatch query c)"

section \<open>A refused request changes nothing\<close>

definition settled :: "'s \<Rightarrow> (action_error + http) \<times> 's \<Rightarrow> bool" where
  "settled c p = (case p of (r, c') \<Rightarrow> c' = c \<or> (case r of Inl _ \<Rightarrow> False | Inr a \<Rightarrow> ht_status a \<in> {200, 201, 204}))"

lemma settled_error [simp]: "settled c (Inl e, c)"
  by (simp add: settled_def)

lemma settled_mutation: "settled c (runDocumentMutation dparse spec ifMatch gate missingClass run c)"
  by (auto simp: settled_def runDocumentMutation_def write_answer_def split: sum.splits prod.splits bool.splits)

lemma settled_action: "settled c (documentAction dparse spec intent run gate ifMatch query c)"
  by (auto simp: documentAction_def settled_mutation split: sum.split)

lemma settled_update: "settled c (action_update dparse svc spec gate ifMatch query body c)"
  by (auto simp: action_update_def settled_mutation Let_def split: sum.split prod.split)

lemma settled_create: "settled c (action_create dparse svc spec gate query body c)"
  by (auto simp: action_create_def settled_def write_answer_def Let_def split: sum.splits prod.splits option.splits)

lemma settled_delete: "settled c (action_delete svc spec h idParam ifMatch query c)"
  by (auto simp: action_delete_def settled_def Let_def split: sum.splits prod.splits option.splits)

lemma settled_answering: "settled c p \<Longrightarrow> settled c (answering details p)"
  by (auto simp: settled_def answering_def Let_def split: prod.splits sum.splits action_error.splits option.splits lock_error.splits)

text \<open>C29: A request that is not answered with success leaves the database as it was, whatever the refusal is and wherever it happened.\<close>

theorem refused_changes_nothing:
  assumes "authoring_route details dparse svc spec h gate req c = (r, c')"
  shows "c' = c \<or> (\<exists>a. r = Inr a \<and> ht_status a \<in> {200, 201, 204})"
proof -
  have "settled c (authoring_route details dparse svc spec h gate req c)"
    unfolding authoring_route_def
    by (rule settled_answering) (simp add: action_publish_def action_unpublish_def action_discardDraft_def settled_action settled_update settled_create
        settled_delete split: request.split)
  with assms show ?thesis by (auto simp: settled_def split: sum.splits)
qed

section \<open>Tokens\<close>

text \<open>The web app's side of the tokens (\<open>packages/domain/src/authoring/http.ts\<close>).\<close>

definition ifMatch_header :: "string \<Rightarrow> string" where
  "ifMatch_header version = [CHR 0x22] @ version @ [CHR 0x22]"

definition ETAG_RE :: rx where
  "ETAG_RE = rx_seq [St (Cls is_ws), rx_opt (rx_lit ''W/''), rx_opt (rx_char CHR 0x22), rx_between 1 9 rx_digit, rx_opt (rx_char CHR 0x22), St (Cls is_ws)]"

definition versionFromEtag :: "string option \<Rightarrow> string option" where
  "versionFromEtag etag = (case etag of None \<Rightarrow> None | Some s \<Rightarrow> if rx_match ETAG_RE s then Some (filter is_digit s) else None)"

lemma nat_digits_Cons: "\<exists>c t. nat_digits n = c # t"
  by (subst nat_digits.simps) (auto simp: neq_Nil_conv [symmetric])

lemma quoted_token:
  assumes "n < 10 ^ 9"
  shows "rx_match IF_MATCH_RE ([CHR 0x22] @ nat_digits n @ [CHR 0x22])" "rx_match ETAG_RE ([CHR 0x22] @ nat_digits n @ [CHR 0x22])"
    "filter is_digit ([CHR 0x22] @ nat_digits n @ [CHR 0x22]) = nat_digits n"
proof -
  obtain c t where ct: "nat_digits n = c # t" using nat_digits_Cons by blast
  have "length (nat_digits n) \<le> Suc 8" by (rule length_nat_digits) (use assms in simp)
  with ct have len: "length t \<le> 8" by simp
  have digits: "is_digit c" "\<forall>x \<in> set t. is_digit x" using set_nat_digits [of _ n] ct by auto
  have quote: "rx_lang (rx_opt (rx_char CHR 0x22)) [CHR 0x22]" and weak: "rx_lang (rx_opt (rx_lit ''W/'')) []"
    unfolding rx_opt_def by simp_all
  have blank: "rx_lang (St (Cls is_ws)) []" by (rule rx_lang.st0)
  have "rx_lang (rx_seq (replicate 8 (rx_opt rx_digit))) t" using digits len by (simp add: rx_lang_replicate_opt)
  with digits have "rx_lang (rx_seq (rx_digit # replicate 8 (rx_opt rx_digit))) (c # t)"
    unfolding rx_lang_seq_Cons by (intro exI [of _ "[c]"] exI [of _ t]) simp
  then have number: "rx_lang (rx_between 1 9 rx_digit) (c # t)" by (simp add: rx_between_def)
  have "rx_lang IF_MATCH_RE ([] @ [CHR 0x22] @ (c # t) @ [CHR 0x22] @ [])"
    unfolding IF_MATCH_RE_def rx_seq.simps by (intro rx_lang.sq blank quote number)
  moreover have "rx_lang ETAG_RE ([] @ [] @ [CHR 0x22] @ (c # t) @ [CHR 0x22] @ [])"
    unfolding ETAG_RE_def rx_seq.simps by (intro rx_lang.sq blank quote weak number)
  ultimately show "rx_match IF_MATCH_RE ([CHR 0x22] @ nat_digits n @ [CHR 0x22])" "rx_match ETAG_RE ([CHR 0x22] @ nat_digits n @ [CHR 0x22])"
    by (simp_all add: rx_match_lang ct)
  have "filter is_digit (nat_digits n) = nat_digits n" by (simp add: filter_id_conv set_nat_digits)
  then show "filter is_digit ([CHR 0x22] @ nat_digits n @ [CHR 0x22]) = nat_digits n" by (simp add: is_digit_def)
qed

text \<open>C32: 
  C1: The token of an answer, read by the web app and sent back with the next change, is read by the lock as the revision it
  stands for; so is the token sent back as it was.
\<close>

theorem etag_reads_back:
  assumes "0 \<le> revision" "revision < 10 ^ 9"
  shows "parseIfMatch (JStr (etagOf revision)) = Inr revision \<and>
    (\<exists>version. versionFromEtag (Some (etagOf revision)) = Some version \<and> parseIfMatch (JStr (ifMatch_header version)) = Inr revision)"
proof -
  have n: "nat revision < 10 ^ 9" using assms by simp
  have tag: "etagOf revision = [CHR 0x22] @ nat_digits (nat revision) @ [CHR 0x22]" using assms(1) by (simp add: etagOf_def str_of_int_def)
  have read: "parseIfMatch (JStr ([CHR 0x22] @ nat_digits (nat revision) @ [CHR 0x22])) = Inr revision"
    unfolding parseIfMatch_def js.case quoted_token [OF n] using quoted_token(1) [OF n] assms(1) by simp
  moreover have "versionFromEtag (Some (etagOf revision)) = Some (nat_digits (nat revision))"
    unfolding versionFromEtag_def option.case tag quoted_token(3) [OF n] using quoted_token(2) [OF n] by simp
  ultimately show ?thesis unfolding ifMatch_header_def tag by blast
qed

theorem etag_reads_back_witness:
  "parseIfMatch (JStr (etagOf 41)) = Inr 41 \<and>
   (\<exists>version. versionFromEtag (Some (etagOf 41)) = Some version \<and> parseIfMatch (JStr (ifMatch_header version)) = Inr 41)"
  by (rule etag_reads_back) simp_all

section \<open>A change is committed on what the gate decided\<close>

lemma loaded_rows:
  assumes "loadAuthoringRows h uid p = Some (v, rows)"
  shows "v = readRevision (cms_of h) (uid, ro_documentId rows)" "rows = loadDocumentRows (cms_of h) uid (ro_documentId rows)"
  using assms by (auto simp: loadAuthoringRows_def Let_def loadDocumentRows_def split: option.splits if_splits)

lemma gate_saw:
  assumes "writeGate pf h readiness now user (Some uid) intent idParam body query = (GatePass gate, body', query')"
    "ag_intent gate \<in> set DOCUMENT_INTENTS"
  obtains d where "uid \<in> set AUTHORED_UIDS" "ag_uid gate = uid" "ag_documentId gate = Some d"
    "ag_observed gate = Some (readRevision (cms_of h) (uid, d))"
    "ag_classify gate = Some (scopeClassifier (ag_roleClass gate) (ag_department gate))"
proof -
  from assms obtain v rows where l: "loadAuthoringRows h uid (id_param idParam) = Some (v, rows)" "uid \<in> set AUTHORED_UIDS" "ag_uid gate = uid"
    "ag_documentId gate = Some (ro_documentId rows)" "ag_observed gate = Some v"
    "ag_classify gate = Some (scopeClassifier (ag_roleClass gate) (ag_department gate))"
    by (auto simp: writeGate_def Let_def refuse_def split: option.splits if_splits prod.splits sum.splits)
  with loaded_rows [OF l(1)] that show thesis by simp
qed

lemma authored_guarded: "uid \<in> set AUTHORED_UIDS \<Longrightarrow> isGuardedUid (JStr uid)"
  by (auto simp: AUTHORED_UIDS_def isGuardedUid_def GUARDED_UIDS_def SCHEDULED_UIDS_def)

lemma scope_classifier_rows: "c_rows c d = c_rows c' d \<Longrightarrow> scopeClassifier roleClass department c d = scopeClassifier roleClass department c' d"
  by (simp add: scopeClassifier_def loadDocumentRows_def)

lemma classified_rows: "scopeClassifier roleClass department c d \<noteq> None \<Longrightarrow> c_rows c d \<noteq> []"
  by (cases d) (auto simp: scopeClassifier_def loadDocumentRows_def Let_def split: if_splits)

lemma service_call_committed:
  assumes "service_call action scope (uid, d) run c = (Inr result, c', scope')" "uid \<in> set AUTHORED_UIDS" "action \<in> set DOCUMENT_ACTIONS"
    "sc_uid scope = Some uid" "sc_documentId scope = Some d" "sc_classify scope = Some classify"
    "plain_action (uid, d) run" "versions_ok c"
  shows "sc_expected scope \<in> {None, Some (readRevision c (uid, d))}" "sc_observed scope \<in> {None, Some (readRevision c (uid, d))}"
    "classify (ensureRow (uid, d) c) (uid, d) \<noteq> None" "sc_committed scope' = Some (readRevision c (uid, d) + 1)"
    "readRevision c' (uid, d) = (if c_rows c' (uid, d) = [] then 0 else readRevision c (uid, d) + 1)"
proof -
  have "action \<in> set MUTATING_ACTIONS" using assms(3) by (auto simp: DOCUMENT_ACTIONS_def MUTATING_ACTIONS_def)
  with assms(1,3) authored_guarded [OF assms(2)] obtain s where m: "lock_mutate (uid, d) (Some scope) run c = (Inr result, c', s)"
    and s: "scope' = (case s of None \<Rightarrow> scope | Some s \<Rightarrow> s)"
    by (auto simp: service_call_def createDocumentLock_def Let_def doc_id_of_def jget_def split: sum.splits prod.splits if_splits)
  have "isTarget (Some scope) (uid, d)" using assms(4,5) by (simp add: isTarget_def)
  from lock_commits [OF m assms(7,8) this] s assms(6)
  show "sc_expected scope \<in> {None, Some (readRevision c (uid, d))}" "sc_observed scope \<in> {None, Some (readRevision c (uid, d))}"
    "classify (ensureRow (uid, d) c) (uid, d) \<noteq> None" "sc_committed scope' = Some (readRevision c (uid, d) + 1)"
    "readRevision c' (uid, d) = (if c_rows c' (uid, d) = [] then 0 else readRevision c (uid, d) + 1)"
    by (simp_all add: move_tokens_def)
qed

text \<open>The answer's token, where there is one, is that of a run that did not delete the document.\<close>

lemma mutation_tag:
  assumes "runDocumentMutation dparse spec ifMatch gate missingClass run c = (Inr a, c')" "ht_etag a = Some tag"
  obtains expected scope where "parseIfMatch ifMatch = Inr expected" "run (mutation_scope spec gate missingClass expected) c = (Inr False, c', scope)"
    "tag = etagOf (case sc_committed scope of None \<Rightarrow> 0 | Some v \<Rightarrow> v)"
  using assms by (auto simp: runDocumentMutation_def write_answer_def split: sum.splits prod.splits bool.splits)

lemma answering_tag: "answering details p = (Inr a, c') \<Longrightarrow> ht_etag a = Some tag \<Longrightarrow> p = (Inr a, c')"
  by (auto simp: answering_def Let_def sendLockError_def error_answer_def
      split: prod.splits sum.splits action_error.splits option.splits lock_error.splits if_splits)

text \<open>What is used of the Document Service: its calls on a document write rows of that document and create none where there are none.\<close>

definition plain_service :: "document_service \<Rightarrow> doc \<Rightarrow> bool" where
  "plain_service svc d =
     ((\<forall>edit data status. plain_action d (ds_update svc d edit data status)) \<and> plain_action d (ds_publish svc d) \<and>
      plain_action d (ds_unpublish svc d) \<and> plain_action d (ds_discardDraft svc d))"

text \<open>The run of a request that was answered with a token is one locked call, from the database or from it with the revision row made.\<close>

lemma call_run_call: "call_run action d run scope c = (Inr b, c', scope') \<Longrightarrow> \<exists>result. service_call action scope d run c = (Inr result, c', scope')"
  by (auto simp: call_run_def split: prod.splits sum.splits)

lemma discard_run_call:
  "discard_run svc spec gate scope c = (Inr b, c', scope') \<Longrightarrow>
   \<exists>result c1. c1 \<in> {c, ensureRow (gate_doc spec gate) c} \<and> service_call ''discardDraft'' scope (gate_doc spec gate) (ds_discardDraft svc (gate_doc spec gate)) c1 = (Inr result, c', scope')"
  by (auto simp: discard_run_def Let_def lock_document split: prod.splits sum.splits if_splits)

definition changes :: "request \<Rightarrow> js \<Rightarrow> bool" where
  "changes req ifMatch = (\<exists>query body. req = Update ifMatch query body \<or> req = Publish ifMatch query \<or> req = Unpublish ifMatch query \<or> req = DiscardDraft ifMatch query)"

lemma document_action_run:
  assumes "documentAction dparse spec intent run (Some gate) ifMatch query c = (Inr a, c')"
  shows "gateFor (Some gate) (sp_uid spec) intent = Inr gate" "runDocumentMutation dparse spec ifMatch gate 404 (run gate) c = (Inr a, c')"
  using assms by (auto simp: documentAction_def gateFor_def split: sum.splits if_splits)

lemma action_call:
  assumes "authoring_route details dparse svc spec h (Some gate) req c = (Inr a, c')" "ht_etag a = Some tag" "changes req ifMatch"
    "plain_service svc (gate_doc spec gate)"
  obtains expected action run c1 result scope where "ag_intent gate \<in> set DOCUMENT_INTENTS" "parseIfMatch ifMatch = Inr expected" "action \<in> set DOCUMENT_ACTIONS"
    "plain_action (gate_doc spec gate) run" "c1 \<in> {c, ensureRow (gate_doc spec gate) c}"
    "service_call action (mutation_scope spec gate (if \<exists>q b. req = Update ifMatch q b then 403 else 404) expected) (gate_doc spec gate) run c1 = (Inr result, c', scope)"
    "tag = etagOf (case sc_committed scope of None \<Rightarrow> 0 | Some v \<Rightarrow> v)"
proof -
  let ?d = "gate_doc spec gate" and ?m = "(if \<exists>q b. req = Update ifMatch q b then 403 else 404) :: int"
  have plain: "plain_action ?d (ds_update svc ?d edit data status)" "plain_action ?d (ds_publish svc ?d)" "plain_action ?d (ds_unpublish svc ?d)"
    "plain_action ?d (ds_discardDraft svc ?d)" for edit data status
    using assms(4) by (simp_all add: plain_service_def)
  note route = answering_tag [OF assms(1) [unfolded authoring_route_def] assms(2)]
  have known: "ag_intent gate \<in> set DOCUMENT_INTENTS" if "gateFor (Some gate) uid i = Inr g" "i \<in> set DOCUMENT_INTENTS" for uid i g
    using that by (auto simp: gateFor_def split: if_splits)
  from assms(3) consider (update) q b where "req = Update ifMatch q b" | (publish) q where "req = Publish ifMatch q"
    | (unpublish) q where "req = Unpublish ifMatch q" | (discard) q where "req = DiscardDraft ifMatch q"
    by (auto simp: changes_def)
  then show thesis
  proof cases
    case update
    with route have "action_update dparse svc spec (Some gate) ifMatch q b c = (Inr a, c')" by simp
    then obtain edit data status where i: "gateFor (Some gate) (sp_uid spec) ''update'' = Inr gate"
      and m: "runDocumentMutation dparse spec ifMatch gate 403 (call_run ''update'' ?d (ds_update svc ?d edit data status)) c = (Inr a, c')"
      by (auto simp: action_update_def Let_def gateFor_def split: sum.splits prod.splits if_splits)
    from m assms(2) show thesis
      by (rule mutation_tag) (drule call_run_call, elim exE, rule that [OF known [OF i] _ _ plain(1)], simp_all add: update DOCUMENT_INTENTS_def DOCUMENT_ACTIONS_def)
  next
    case publish
    with route have "action_publish dparse svc spec (Some gate) ifMatch q c = (Inr a, c')" by (simp split: if_splits)
    note run = document_action_run [OF this [unfolded action_publish_def]]
    note i = run(1)
    from run(2) assms(2) show thesis
      by (rule mutation_tag) (drule call_run_call, elim exE, rule that [OF known [OF i] _ _ plain(2)], simp_all add: publish DOCUMENT_INTENTS_def DOCUMENT_ACTIONS_def)
  next
    case unpublish
    with route have "action_unpublish dparse svc spec (Some gate) ifMatch q c = (Inr a, c')" by (simp split: if_splits)
    note run = document_action_run [OF this [unfolded action_unpublish_def]]
    note i = run(1)
    from run(2) assms(2) show thesis
      by (rule mutation_tag) (drule call_run_call, elim exE, rule that [OF known [OF i] _ _ plain(3)], simp_all add: unpublish DOCUMENT_INTENTS_def DOCUMENT_ACTIONS_def)
  next
    case discard
    with route have "action_discardDraft dparse svc spec (Some gate) ifMatch q c = (Inr a, c')" by (simp split: if_splits)
    note run = document_action_run [OF this [unfolded action_discardDraft_def]]
    note i = run(1)
    from run(2) assms(2) show thesis
      by (rule mutation_tag) (drule discard_run_call, elim exE conjE, rule that [OF known [OF i] _ _ plain(4)], simp_all add: discard DOCUMENT_INTENTS_def DOCUMENT_ACTIONS_def)
  qed
qed

text \<open>C26: 
  C1: A change of an existing document that was answered with a token was decided and committed on one state of it: the client's
  \<open>If-Match\<close> names the revision the gate read its rows at, the rows under the lock are the rows the gate saw whatever
  was written between the two, the caller's class still holds on them, and the token is the revision the document has after it.
\<close>

theorem change_commits_what_the_gate_saw:
  assumes "writeGate pf h readiness now user (Some (sp_uid spec)) intent idParam body query = (GatePass gate, body', query')"
    "versions_ok (cms_of h)" "guarded_run d (cms_of h) c" "gate_doc spec gate = d" "plain_service svc d" "changes req ifMatch"
    "authoring_route details dparse svc spec h (Some gate) req c = (Inr a, c')" "ht_etag a = Some tag"
  shows "parseIfMatch ifMatch = Inr (readRevision (cms_of h) d) \<and> c_rows c d = c_rows (cms_of h) d \<and>
    scopeClassifier (ag_roleClass gate) (ag_department gate) c d \<noteq> None \<and>
    tag = etagOf (readRevision (cms_of h) d + 1) \<and> readRevision c' d = (if c_rows c' d = [] then 0 else readRevision (cms_of h) d + 1)"
proof (rule action_call [OF assms(7,8,6) assms(5) [folded assms(4)]], goal_cases)
  case (1 expected action run c1 result scope)
  obtain i where i: "sp_uid spec \<in> set AUTHORED_UIDS" "ag_documentId gate = Some i"
    "ag_observed gate = Some (readRevision (cms_of h) (sp_uid spec, i))"
    "ag_classify gate = Some (scopeClassifier (ag_roleClass gate) (ag_department gate))"
    by (rule gate_saw [OF assms(1) 1(1)]) blast
  have d: "d = (sp_uid spec, i)" using i(2) assms(4) by (simp add: gate_doc_def)
  note run = run_moved [OF assms(3,2)]
  have c1: "c_rows c1 = c_rows c" "readRevision c1 = readRevision c" "versions_ok c1" using 1(5) run by (auto simp: ensure_ok fun_eq_iff)
  let ?scope = "mutation_scope spec gate (if \<exists>q b. req = Update ifMatch q b then 403 else 404) expected"
  have scope: "sc_uid ?scope = Some (sp_uid spec)" "sc_documentId ?scope = Some i" "sc_expected ?scope = Some expected"
    "sc_observed ?scope = Some (readRevision (cms_of h) d)" "sc_classify ?scope = Some (scopeClassifier (ag_roleClass gate) (ag_department gate))"
    by (simp_all only: mutation_scope_def scope.simps i d)
  note locked = service_call_committed [OF 1(6) [unfolded assms(4) d] i(1) 1(3) scope(1,2,5) 1(4) [unfolded assms(4) d] c1(3), unfolded scope(3,4)]
  from locked(1-3) d c1 have rev: "expected = readRevision c d" "readRevision (cms_of h) d = readRevision c d"
    and holds: "scopeClassifier (ag_roleClass gate) (ag_department gate) c d \<noteq> None"
    using scope_classifier_rows [of "ensureRow d c1" d c] by (simp_all add: c1)
  have "c_rows c d \<noteq> []" using classified_rows holds by blast
  with run rev have "c_rows c d = c_rows (cms_of h) d" by (auto simp: moved_def)
  with rev holds locked(4,5) d c1 1(2,7) show ?case by simp
qed

section \<open>A discard that may not delete\<close>

lemma answering_state: "snd (answering details p) = snd p"
  by (auto simp: answering_def Let_def split: prod.splits sum.splits action_error.splits option.splits lock_error.splits)

lemma service_call_ran:
  assumes "service_call action scope d run c = (Inr result, c', scope')" "action \<in> set DOCUMENT_ACTIONS"
  obtains f c0 r c2 where "c_rows c0 = c_rows c" "run f c0 = (Inr r, c2)" "c_rows c' d = c_rows c2 d"
proof -
  have "action \<in> set MUTATING_ACTIONS" using assms(2) by (auto simp: DOCUMENT_ACTIONS_def MUTATING_ACTIONS_def)
  with assms consider "run None c = (Inr result, c')" | s where "lock_mutate d (Some scope) run c = (Inr result, c', s)"
    by (cases d) (auto simp: service_call_def createDocumentLock_def Let_def doc_id_of_def jget_def split: sum.splits prod.splits if_splits)
  then show thesis
  proof cases
    case 1
    with that [of c None] show ?thesis by simp
  next
    case 2
    then obtain f c2 where run: "run f (ensureRow d c) = (Inr result, c2)" and c': "c' = (if c_rows c2 d = [] then removeRevision d c2 else snd (advanceRevision d c2))"
      by (auto simp: lock_mutate_def lock_document Let_def split: sum.splits prod.splits if_splits)
    show ?thesis by (rule that [OF _ run]) (simp_all add: c')
  qed
qed

lemma discard_check_published:
  assumes "discard_check uid scope d locked c = Inr u" "isTrainingUid uid \<or> (\<forall>cls. sc_classify scope = Some cls \<longrightarrow> \<not> mayDeleteByDiscard (cls c d))"
  shows "filter (\<lambda>row. \<not> nullish (jget row ''publishedAt'')) (c_rows c d) \<noteq> []"
  using assms by (auto simp: discard_check_def split: option.splits if_splits)

lemma author_never_deletes: "\<not> mayDeleteByDiscard (scopeClassifier DEPARTMENT_AUTHOR_CLASS department c d)"
  by (auto simp: mayDeleteByDiscard_def scopeClassifier_def DEPARTMENT_AUTHOR_CLASS_def MODERATOR_CLASS_def Let_def)

lemma gate_classifies:
  "writeGate pf h readiness now user configUid intent idParam body query = (GatePass gate, body', query') \<Longrightarrow>
   ag_classify gate \<in> {None, Some (scopeClassifier (ag_roleClass gate) (ag_department gate))}"
  by (auto simp: writeGate_def Let_def refuse_def split: option.splits if_splits prod.splits sum.splits)

text \<open>C27: 
  C1: A discard never deletes the document of a department author or of the training types, whatever happened to it since the gate let the
  request pass: a document that has rows still has some. Of the Document Service it is used that discarding the draft of a
  published document keeps a row.
\<close>

theorem discard_never_deletes:
  assumes "writeGate pf h readiness now user (Some (sp_uid spec)) intent idParam body query = (GatePass gate, body', query')"
    "ag_roleClass gate = DEPARTMENT_AUTHOR_CLASS \<or> isTrainingUid (sp_uid spec)" "gate_doc spec gate = d"
    "\<And>f c r c'. ds_discardDraft svc d f c = (Inr r, c') \<Longrightarrow> filter (\<lambda>row. \<not> nullish (jget row ''publishedAt'')) (c_rows c d) \<noteq> [] \<Longrightarrow> c_rows c' d \<noteq> []"
    "authoring_route details dparse svc spec h (Some gate) (DiscardDraft ifMatch q) c = (r, c')" "c_rows c d \<noteq> []"
  shows "c_rows c' d \<noteq> []"
proof -
  have "c' = snd (authoring_route details dparse svc spec h (Some gate) (DiscardDraft ifMatch q) c)" by (simp add: assms(5))
  then have "c' = c \<or> c' = snd (documentAction dparse spec ''discardDraft'' (discard_run svc spec) (Some gate) ifMatch q c)"
    by (auto simp: authoring_route_def answering_state action_discardDraft_def)
  then have "c' = c \<or> (\<exists>expected b s. discard_run svc spec gate (mutation_scope spec gate 404 expected) c = (Inr b, c', s))"
    by (auto simp: documentAction_def runDocumentMutation_def gateFor_def split: sum.splits prod.splits bool.splits if_splits)
  then show ?thesis
  proof (elim disjE exE)
    fix expected b s assume run: "discard_run svc spec gate (mutation_scope spec gate 404 expected) c = (Inr b, c', s)"
    let ?scope = "mutation_scope spec gate 404 expected"
    have "isTrainingUid (sp_uid spec) \<or> \<not> mayDeleteByDiscard (Some (ag_roleClass gate))"
      using assms(2) by (auto simp: mayDeleteByDiscard_def DEPARTMENT_AUTHOR_CLASS_def MODERATOR_CLASS_def)
    with run obtain u result where check: "discard_check (sp_uid spec) ?scope d (readRevision c d) (ensureRow d c) = Inr u"
      and call: "service_call ''discardDraft'' ?scope d (ds_discardDraft svc d) (ensureRow d c) = (Inr result, c', s)"
      by (auto simp: discard_run_def Let_def lock_document assms(3) split: sum.splits prod.splits if_splits)
    have "sc_classify ?scope = ag_classify gate" by (simp add: mutation_scope_def)
    then have published: "filter (\<lambda>row. \<not> nullish (jget row ''publishedAt'')) (c_rows (ensureRow d c) d) \<noteq> []"
      using discard_check_published [OF check] assms(2) gate_classifies [OF assms(1)] by (auto simp: author_never_deletes)
    show ?thesis
    proof (rule service_call_ran [OF call], goal_cases)
      case (2 f c0 r c2)
      with published show ?case by (simp add: assms(4))
    qed (simp add: DOCUMENT_ACTIONS_def)
  qed (simp add: assms(6))
qed

section \<open>An example\<close>

text \<open>The head of HR with a document of HR, which is a draft at revision 3.\<close>

definition own_document :: fields where
  "own_document = [(''id'', JInt 7), (''documentId'', JStr ''f''), (''title'', JStr ''Form''), (''publishedAt'', JNull),
     (''ownerDepartment'', JObj [(''id'', JInt 2), (''documentId'', JStr ''hr'')]), (''departments'', JArr [JObj [(''id'', JInt 2), (''documentId'', JStr ''hr'')]])]"

definition own_host :: gate_host where
  "own_host = \<lparr>gh_tables = (\<lambda>uid. if uid = DOCUMENT_UID then [own_document] else sample_tables uid), gh_versions = [((DOCUMENT_UID, ''f''), 3)]\<rparr>"

definition document_spec :: authoring_spec where "document_spec = the (spec_of DOCUMENT_UID)"

definition own_gate :: "string \<Rightarrow> authoring_gate" where
  "own_gate intent = (case fst (writeGate sample_platform own_host (\<lambda>_ _. []) 0 (Some sample_head) (Some (sp_uid document_spec)) (Some intent) (Some ''7'') JNull []) of
     GatePass gate \<Rightarrow> gate | _ \<Rightarrow> moderator_gate)"

text \<open>A Document Service that writes the published row of a document and, on a discard, drops its drafts.\<close>

definition put_rows :: "doc \<Rightarrow> (fields list \<Rightarrow> fields list) \<Rightarrow> fields action" where
  "put_rows d f = (\<lambda>_ c. (Inr JNull, if c_rows c d = [] then c else c\<lparr>c_rows := (c_rows c)(d := f (c_rows c d))\<rparr>))"

definition sample_service :: document_service where
  "sample_service = \<lparr>ds_create = (\<lambda>uid edit data status f c. (Inl lock_error.Wiring, c)), ds_update = (\<lambda>d edit data status. put_rows d (map (\<lambda>row. data @ row))),
     ds_publish = (\<lambda>d. put_rows d (\<lambda>rows. rows @ [(''publishedAt'', JStr ''1'') # hd rows])), ds_unpublish = (\<lambda>d. put_rows d (\<lambda>rows. take 1 rows)),
     ds_discardDraft = (\<lambda>d. put_rows d (filter (\<lambda>row. \<not> nullish (jget row ''publishedAt'')))), ds_delete = (\<lambda>d. put_rows d (\<lambda>_. []))\<rparr>"

lemma put_rows_plain: "plain_action d (put_rows d f)"
  by (auto simp: plain_action_def put_rows_def)

lemma sample_service_plain: "plain_service sample_service d"
  by (simp add: plain_service_def sample_service_def put_rows_plain)

definition no_details :: "string \<Rightarrow> fields" where "no_details s = []"

definition own_run :: "string \<Rightarrow> request \<Rightarrow> (action_error + http) \<times> fields cms" where
  "own_run intent req = authoring_route no_details sample_parse sample_service document_spec own_host (Some (own_gate intent)) req (cms_of own_host)"

definition own_tag :: js where "own_tag = JStr (etagOf 3)"

lemma own_runs:
  "(case fst (own_run ''publish'' (Publish own_tag [])) of Inr a \<Rightarrow> ht_status a = 200 \<and> ht_etag a = Some (etagOf 4) | _ \<Rightarrow> False)"
  "(case fst (own_run ''publish'' (Publish (JStr ''2'') [])) of Inr a \<Rightarrow> ht_status a = 412 | _ \<Rightarrow> False)"
  "fst (own_run ''discardDraft'' (DiscardDraft own_tag [])) = Inl (ActWrite (Refused [FORM_KEY] [(FORM_KEY, ''neverPublished'')]))"
  by code_simp+

lemma own_gate_passed:
  "i \<in> {''publish'', ''discardDraft''} \<Longrightarrow>
   writeGate sample_platform own_host (\<lambda>_ _. []) 0 (Some sample_head) (Some (sp_uid document_spec)) (Some i) (Some ''7'') JNull [] = (GatePass (own_gate i), JNull, [])"
  "ag_roleClass (own_gate ''discardDraft'') = DEPARTMENT_AUTHOR_CLASS"
  "gate_doc document_spec (own_gate ''publish'') = (DOCUMENT_UID, ''f'')" "gate_doc document_spec (own_gate ''discardDraft'') = (DOCUMENT_UID, ''f'')"
proof -
  let ?w = "\<lambda>i. writeGate sample_platform own_host (\<lambda>_ _. []) 0 (Some sample_head) (Some (sp_uid document_spec)) (Some i) (Some ''7'') JNull []"
  have "case ?w ''publish'' of (GatePass _, JNull, []) \<Rightarrow> True | _ \<Rightarrow> False" "case ?w ''discardDraft'' of (GatePass _, JNull, []) \<Rightarrow> True | _ \<Rightarrow> False"
    by code_simp+
  then show "?w i = (GatePass (own_gate i), JNull, [])" if "i \<in> {''publish'', ''discardDraft''}"
    using that by (auto simp: own_gate_def split: prod.splits gate_answer.splits js.splits list.splits)
  show "ag_roleClass (own_gate ''discardDraft'') = DEPARTMENT_AUTHOR_CLASS" "gate_doc document_spec (own_gate ''publish'') = (DOCUMENT_UID, ''f'')"
    "gate_doc document_spec (own_gate ''discardDraft'') = (DOCUMENT_UID, ''f'')" by code_simp+
qed

lemma own_versions: "versions_ok (cms_of own_host)"
  by (simp add: versions_ok_def jmap_ok_def cms_of_def own_host_def)

theorem refused_changes_nothing_witness: "snd (own_run ''publish'' (Publish (JStr ''2'') [])) = cms_of own_host"
proof -
  obtain r c' where run: "own_run ''publish'' (Publish (JStr ''2'') []) = (r, c')" by (cases "own_run ''publish'' (Publish (JStr ''2'') [])")
  with own_runs(2) refused_changes_nothing [OF run [unfolded own_run_def]] show ?thesis by (auto split: sum.splits)
qed

theorem change_commits_what_the_gate_saw_witness:
  "readRevision (snd (own_run ''publish'' (Publish own_tag []))) (DOCUMENT_UID, ''f'') =
    (if c_rows (snd (own_run ''publish'' (Publish own_tag []))) (DOCUMENT_UID, ''f'') = [] then 0 else readRevision (cms_of own_host) (DOCUMENT_UID, ''f'') + 1)"
proof -
  obtain r c' where run: "own_run ''publish'' (Publish own_tag []) = (r, c')" by (cases "own_run ''publish'' (Publish own_tag [])")
  with own_runs(1) obtain a where a: "r = Inr a" "ht_etag a = Some (etagOf 4)" by (auto split: sum.splits)
  have changes: "changes (Publish own_tag []) own_tag" by (simp add: changes_def)
  have gate: "writeGate sample_platform own_host (\<lambda>_ _. []) 0 (Some sample_head) (Some (sp_uid document_spec)) (Some ''publish'') (Some ''7'') JNull []
    = (GatePass (own_gate ''publish''), JNull, [])" by (rule own_gate_passed) simp
  from change_commits_what_the_gate_saw [OF gate own_versions guarded_run.start own_gate_passed(3) sample_service_plain changes
      run [unfolded own_run_def a(1)] a(2)] run
  show ?thesis by simp
qed

theorem discard_never_deletes_witness:
  "c_rows (snd (own_run ''discardDraft'' (DiscardDraft own_tag []))) (DOCUMENT_UID, ''f'') \<noteq> []"
proof -
  have gate: "writeGate sample_platform own_host (\<lambda>_ _. []) 0 (Some sample_head) (Some (sp_uid document_spec)) (Some ''discardDraft'') (Some ''7'') JNull []
    = (GatePass (own_gate ''discardDraft''), JNull, [])" by (rule own_gate_passed) simp
  have author: "ag_roleClass (own_gate ''discardDraft'') = DEPARTMENT_AUTHOR_CLASS \<or> isTrainingUid (sp_uid document_spec)" using own_gate_passed(2) by simp
  obtain r c' where run: "own_run ''discardDraft'' (DiscardDraft own_tag []) = (r, c')" by (cases "own_run ''discardDraft'' (DiscardDraft own_tag [])")
  have rows: "c_rows (cms_of own_host) (DOCUMENT_UID, ''f'') \<noteq> []" by code_simp
  have "c_rows c' (DOCUMENT_UID, ''f'') \<noteq> []"
    by (rule discard_never_deletes [OF gate author own_gate_passed(4) _ run [unfolded own_run_def] rows])
      (auto simp: sample_service_def put_rows_def split: if_splits)
  with run show ?thesis by simp
qed

end
