(* ===== verification/Spec2Isabelle.thy ===== *)
theory Spec2Isabelle
  imports PlainDate Mfa SecretShares SecretRuns Training DocumentLock Polls RateLimit Scheduler Validators Duty Kpi WriteSafety Rsvp GateScope Reads AuthoringActions
begin

text \<open>
  Sinnlos is an intranet: a Strapi CMS (\<open>apps/cms\<close>), a Next.js web app (\<open>apps/web\<close>) and a package of rules both
  share (\<open>packages/domain\<close>). This development models the rules, the stateful services and the access control of the CMS
  and the login limiter of the web app, and proves what makes them correct. Paths below are under \<open>src/\<close>; \<open>domain\<close> is
  \<open>packages/domain/src\<close>, \<open>utils\<close> is \<open>apps/cms/src/utils\<close>.

  \<^bold>\<open>Values and errors.\<close> What the source types as unknown (bodies, JSON columns, rows of the query engine) is a \<open>js\<close>
  (\<open>Prelude\<close>); objects are association lists, of which the first entry of a key counts. A 32 bit shift is a \<open>32 word\<close>,
  other integers of JavaScript are \<open>int\<close> with the safe bound written out where the code has it. A handler that may throw
  answers a sum, errors left; a transaction that throws leaves the database of its start. Loops are structural
  recursion, folds, or \<open>function\<close> with a termination proof (\<open>paged\<close>, \<open>chunks\<close> and \<open>list_chunks\<close> by the rows that are left,
  the retry loop of the scheduler by the wrap of its cursor); nothing runs on fuel.

  \<^bold>\<open>Calendar.\<close> \<open>Civil\<close> is the calendar of the JavaScript Date, \<open>PlainDate\<close> is \<open>domain/plain-date.ts\<close> (keys, their
  arithmetic, the wall clock of zones), \<open>KeyOrder\<close> shows that comparing keys as strings compares the days, \<open>IsoInstant\<close>
  that \<open>toISOString\<close> and the readers of instants agree. Date.parse and Intl are parameters. Shown: printing and
  reading keys are inverse on 0100-01-01 to 9999-12-31, months clamp, a wall time gets its earliest instant, none where a
  clock change skips it, and reads back.

  \<^bold>\<open>Accounts.\<close> \<open>Roles\<close> is \<open>domain/roles.ts\<close> and \<open>entry-id.ts\<close>; \<open>Totp\<close> is \<open>utils/totp.ts\<close>; \<open>Mfa\<close> is
  \<open>utils/mfa-core.ts\<close>, \<open>utils/mfa.ts\<close> and the gate of \<open>extensions/users-permissions/strapi-server.ts\<close>. Shown: no code is
  accepted twice, what a reset ends, when the gate passes. \<open>RateLimit\<close> is \<open>apps/web/src/lib/login-rate-limit.ts\<close>: below ten
  attempts per address and account and window, bursts included.

  \<^bold>\<open>Secret sharing.\<close> \<open>SecretCrypto\<close> is \<open>domain/secret-share.ts\<close> and \<open>utils/secret-crypto.ts\<close> (AES-GCM is a parameter
  under \<open>honest_crypto\<close>), \<open>SecretShares\<close> is \<open>utils/secret-shares.ts\<close> with its janitor, each handler one transaction, and
  \<open>SecretRuns\<close> is about all executions as an inductive step relation: a text is handed out at most once, and every
  transaction refines the machine of one share.

  \<^bold>\<open>Documents.\<close> \<open>DocumentLock\<close> is \<open>utils/document-lock.ts\<close>: the version table, \<open>If-Match\<close> and the middleware; the locale
  \<open>versioned_store\<close> holds the laws of a table of revisions and is interpreted on it. \<open>Schedule\<close>, \<open>Readiness\<close> and \<open>Scheduler\<close>
  are \<open>utils/schedule.ts\<close>, \<open>utils/publish-readiness.ts\<close> and \<open>cron/scheduled-publish.ts\<close>; the scheduler publishes through the
  same lock. \<open>CappedStore\<close> has the locale \<open>capped_store\<close> of the bounded maps, interpreted by the limiter and by the
  counts of attempts. Shown: no lost update, what is published is due, ready and unchanged since it was
  selected, a withdrawal is never given up, every failing one is retried within a bounded number of runs.

  \<^bold>\<open>Writing.\<close> \<open>Validators\<close> is \<open>domain/authoring/validators.ts\<close>, \<open>WriteRules\<close> and \<open>Allowlist\<close> are \<open>utils/write-allowlist.ts\<close>
  with the field tables of the domain package, \<open>WriteSafety\<close> what the enforcement guarantees; \<open>AuthoringChecks\<close> is
  \<open>utils/authoring-checks.ts\<close>, \<open>WriteGate\<close> is \<open>utils/write-gate.ts\<close>, and \<open>GateScope\<close> composes gate, checks, rules and
  store. Shown: every stored field is authorised, a refused key is refused before any lookup, a department author keeps
  to the author's own department.

  \<^bold>\<open>The document controller\<close>, \<open>utils/authoring-controller.ts\<close>. \<open>AuthoringData\<close> is its table of types, the query of a
  write, the state and the answer of a document and the form read; \<open>AuthoringList\<close> the list, read in full (\<open>fullListPage\<close>)
  or the page alone (\<open>lightListPage\<close>), each statement with the database it sees; \<open>AuthoringActions\<close> the actions: the gate's
  decision, the scope, one transaction under the lock, the answer or error, with the web app's side of the tokens
  (\<open>domain/authoring/http.ts\<close>). The Document Service is the record \<open>document_service\<close>. Shown: the two ways of the list
  answer the same, its versions never authorise a change of what it did not show, the form of a class has the fields the class
  may write, an answered change was decided and committed on one state of the document, a refused request changes nothing, a
  discard never deletes where it may not, tokens read back.

  \<^bold>\<open>Reading.\<close> \<open>Audience\<close> is \<open>domain/audience.ts\<close>, \<open>utils/visible-ids.ts\<close>, \<open>announcement-expiry.ts\<close> and \<open>paged-read.ts\<close>;
  \<open>Targeting\<close> is \<open>utils/targeting-flags.ts\<close>, \<open>department-delete-restrict.ts\<close>, \<open>poll-department-delete.ts\<close> and the delete
  hooks of teams and departments, with the cascade of the database; \<open>Visibility\<close> is \<open>utils/policy-query.ts\<close>,
  \<open>policy-factories.ts\<close>, \<open>target-visibility.ts\<close> and the policies; \<open>Reads\<close> proves what a read answers for any query
  engine that keeps the meaning of the operators (\<open>engine_ok\<close>). Shown: deletes never widen an audience, not even for
  a read that overlaps them, and advance the revisions of what they touch; a client filter only narrows; the check
  of one target and the list of all agree.

  \<^bold>\<open>Modules.\<close> \<open>Training\<close>, \<open>Duty\<close> and \<open>Kpi\<close> are \<open>domain/training.ts\<close>, \<open>duty.ts\<close> and \<open>kpi.ts\<close>; \<open>Polls\<close> is
  \<open>utils/poll-audience.ts\<close>, \<open>poll-ballots.ts\<close> and the voting controller (counting in SQL equals the tally, one vote
  each); \<open>Rsvp\<close> is \<open>utils/rsvp.ts\<close>, its controller and the nightly retention (seats stay within the capacity).

  \<^bold>\<open>How the parts meet.\<close> The gate reads the tables the checks read and hands the write rules an environment of checks; the
  lock compares the revision the gate decided on; delete hooks write the flags the audience rules read and the
  revisions the lock compares; the policies of \<open>Visibility\<close> load ids with the rules of \<open>Audience\<close> and narrow the read.

  \<^bold>\<open>Contracts of code outside the repository\<close> are named predicates over parameters: \<open>honest_zone\<close>, \<open>honest_parse\<close>,
  \<open>honest_crypto\<close>, \<open>stores_relations\<close>, \<open>engine_ok\<close>, \<open>plain_action\<close>, \<open>plain_service\<close>; a witness instantiates each with a concrete function.

  \<^bold>\<open>Not modelled.\<close> Log lines, live pings, mail and notification texts, the wiring of Strapi (bootstrap, routes, schemas),
  and the components the manifest lists as not modelled: they are request plumbing, rendering or generated data,
  or, as the user administration, compositions of the operations above with Strapi's services. Of the document controller the
  columns and relations a read selects are not modelled: rows come with all their fields.
  Concurrency is modelled where the code relies on it: transactions on one locked row come one after
  another, what was read before a lock is an argument of its own, and \<open>Targeting\<close> lets single statements of a read see
  different states.
\<close>

end
